(* ===== verification/CPrelude.thy ===== *)
theory CPrelude
  imports "HOL-Library.Word" "HOL-Library.Monad_Syntax"
begin

text \<open>
  Shared vocabulary of the development: the machine types of the C code, objects in memory as
  byte lists, reads that can leave an object, writes at an offset, and the two byte orders with
  their round trips. Nothing here is specific to one source file.

  A computation of type \<open>'a run\<close> is \<open>None\<close> exactly where the C code leaves defined behaviour
  (a read outside an object, a call through a null pointer, a loop that never returns); a
  pointer that may be \<open>NULL\<close> is an \<open>option\<close> inside the result.
\<close>

unbundle bit_operations_syntax

type_synonym u8 = "8 word"
type_synonym u16 = "16 word"
type_synonym u32 = "32 word"
type_synonym u64 = "64 word"
type_synonym bytes = "u8 list"
type_synonym 'a run = "'a option"

named_theorems codec_simps \<open>lengths and round trips of the byte encodings\<close>
named_theorems mem_simps \<open>reads and writes of byte buffers\<close>

section \<open>Memory objects\<close>

text \<open>\<open>rd xs i\<close> is the read \<open>xs[i]\<close>; \<open>slice bs off n\<close> the source of a \<open>memcpy\<close> of \<open>n\<close> bytes from
  \<open>&bs[off]\<close>; \<open>put bs off src\<close> the destination after a \<open>memcpy\<close> of \<open>src\<close> to \<open>&bs[off]\<close>.\<close>

definition rd :: "'a list \<Rightarrow> nat \<Rightarrow> 'a run" where
  "rd xs i = (if i < length xs then Some (xs ! i) else None)"

definition slice :: "'a list \<Rightarrow> nat \<Rightarrow> nat \<Rightarrow> 'a list run" where
  "slice bs off n = (if off + n \<le> length bs then Some (take n (drop off bs)) else None)"

definition put :: "'a list \<Rightarrow> nat \<Rightarrow> 'a list \<Rightarrow> 'a list" where
  "put bs off src = take off bs @ src @ drop (off + length src) bs"

lemma rd_Some [mem_simps]: "i < length xs \<Longrightarrow> rd xs i = Some (xs ! i)"
  by (simp add: rd_def)

lemma rd_eq_Some_iff: "rd xs i = Some x \<longleftrightarrow> i < length xs \<and> xs ! i = x"
  by (auto simp: rd_def)

lemma slice_Some [mem_simps]: "off + n \<le> length bs \<Longrightarrow> slice bs off n = Some (take n (drop off bs))"
  by (simp add: slice_def)

lemma slice_eq_Some_iff:
  "slice bs off n = Some xs \<longleftrightarrow> off + n \<le> length bs \<and> xs = take n (drop off bs)"
  by (auto simp: slice_def)

lemma length_put [simp]: "off + length src \<le> length bs \<Longrightarrow> length (put bs off src) = length bs"
  by (simp add: put_def)

lemma put_append:
  "length pre = off \<Longrightarrow> length src \<le> length rest \<Longrightarrow>
   put (pre @ rest) off src = pre @ src @ drop (length src) rest"
  by (simp add: put_def)

lemma put_0: "put bs 0 src = src @ drop (length src) bs"
  by (simp add: put_def)

lemma nth_put:
  "off + length src \<le> length bs \<Longrightarrow>
   put bs off src ! i = (if i < off then bs ! i else if i < off + length src then src ! (i - off) else bs ! i)"
  by (auto simp: put_def nth_append)

section \<open>Byte order\<close>

text \<open>\<open>le_bytes n w\<close> is the little endian image of \<open>w\<close> in \<open>n\<close> bytes, \<open>le_word\<close> reads one back;
  \<open>be_bytes\<close> and \<open>be_word\<close> are the big endian versions.\<close>

definition le_bytes :: "nat \<Rightarrow> 'a::len word \<Rightarrow> bytes" where
  "le_bytes n w = map (\<lambda>i. ucast (drop_bit (8 * i) w)) [0..<n]"

fun le_word :: "bytes \<Rightarrow> 'a::len word" where
  "le_word [] = 0"
| "le_word (b # bs) = ucast b OR push_bit 8 (le_word bs)"

definition be_bytes :: "nat \<Rightarrow> 'a::len word \<Rightarrow> bytes" where
  "be_bytes n w = rev (le_bytes n w)"

definition be_word :: "bytes \<Rightarrow> 'a::len word" where
  "be_word bs = le_word (rev bs)"

lemma length_le_bytes [simp, codec_simps]: "length (le_bytes n w) = n"
  by (simp add: le_bytes_def)

lemma length_be_bytes [simp, codec_simps]: "length (be_bytes n w) = n"
  by (simp add: be_bytes_def)

lemma nth_le_bytes: "i < n \<Longrightarrow> le_bytes n w ! i = ucast (drop_bit (8 * i) w)"
  by (simp add: le_bytes_def)

lemma bit_le_word:
  "bit (le_word bs :: 'a::len word) k \<longleftrightarrow>
   k < LENGTH('a) \<and> k div 8 < length bs \<and> bit (bs ! (k div 8)) (k mod 8)"
proof (induction bs arbitrary: k)
  case Nil
  then show ?case by simp
next
  case (Cons b bs)
  show ?case
  proof (cases "k < 8")
    case True
    then show ?thesis
      by (auto simp: bit_or_iff bit_push_bit_iff bit_unsigned_iff)
  next
    case False
    then have "\<not> bit b k"
      using bit_imp_le_length [of b k] by auto
    moreover have "k div 8 = Suc ((k - 8) div 8)" "k mod 8 = (k - 8) mod 8"
      using False by (auto simp: le_div_geq le_mod_geq)
    ultimately show ?thesis
      using False Cons.IH [of "k - 8"]
      by (auto simp: bit_or_iff bit_push_bit_iff bit_unsigned_iff)
  qed
qed

lemma bit_nth_le_bytes:
  fixes w :: "'a::len word"
  assumes "i < n" "j < 8"
  shows "bit (le_bytes n w ! i) j \<longleftrightarrow> bit w (8 * i + j)"
  using assms by (simp add: nth_le_bytes bit_unsigned_iff bit_drop_bit_eq)

lemma le_word_le_bytes [codec_simps]:
  fixes w :: "'a::len word"
  assumes "LENGTH('a) \<le> 8 * n"
  shows "le_word (le_bytes n w) = w"
proof (rule bit_word_eqI)
  fix k assume k: "k < LENGTH('a)"
  then have "k div 8 < n" using assms by auto
  then show "bit (le_word (le_bytes n w) :: 'a word) k \<longleftrightarrow> bit w k"
    using k by (simp add: bit_le_word bit_nth_le_bytes)
qed

lemma le_bytes_le_word [codec_simps]:
  assumes "length bs = n" "8 * n \<le> LENGTH('a::len)"
  shows "le_bytes n (le_word bs :: 'a word) = bs"
proof (rule nth_equalityI)
  show "length (le_bytes n (le_word bs :: 'a word)) = length bs" by (simp add: assms)
next
  fix i assume "i < length (le_bytes n (le_word bs :: 'a word))"
  then have i: "i < n" by simp
  show "le_bytes n (le_word bs :: 'a word) ! i = bs ! i"
  proof (rule bit_word_eqI)
    fix j assume j: "j < LENGTH(8)"
    then have "(8 * i + j) div 8 = i" "(8 * i + j) mod 8 = j" "8 * i + j < LENGTH('a)"
      using i assms(2) by auto
    then show "bit (le_bytes n (le_word bs :: 'a word) ! i) j \<longleftrightarrow> bit (bs ! i) j"
      using i j assms(1) by (simp add: bit_nth_le_bytes bit_le_word)
  qed
qed

lemma be_word_be_bytes [codec_simps]:
  "LENGTH('a) \<le> 8 * n \<Longrightarrow> be_word (be_bytes n w) = (w :: 'a::len word)"
  by (simp add: be_word_def be_bytes_def codec_simps)

lemma be_bytes_be_word [codec_simps]:
  assumes "length bs = n" "8 * n \<le> LENGTH('a::len)"
  shows "be_bytes n (be_word bs :: 'a word) = bs"
  using le_bytes_le_word [of "rev bs" n, where 'a='a] assms by (simp add: be_word_def be_bytes_def)

lemma le_bytes_inject:
  "LENGTH('a) \<le> 8 * n \<Longrightarrow> le_bytes n v = le_bytes n w \<longleftrightarrow> v = (w :: 'a::len word)"
  by (metis le_word_le_bytes)

section \<open>Words as numbers\<close>

lemma unat_eq_iff: "v = w \<longleftrightarrow> unat v = unat w"
  by (auto intro: unsigned_word_eqI)

lemma bit_nat_less: "x < 2 ^ n \<Longrightarrow> bit (x :: nat) k \<Longrightarrow> k < n"
  by (metis bit_take_bit_iff take_bit_nat_eq_self_iff)

section \<open>Lists\<close>

lemma take_drop_append_exact [mem_simps]:
  "length pre = off \<Longrightarrow> length x = n \<Longrightarrow> take n (drop off (pre @ x @ rest)) = x"
  by simp

lemma take_exact: "length xs = n \<Longrightarrow> take n (xs @ ys) = xs"
  by simp

lemma drop_exact: "length xs = n \<Longrightarrow> drop n (xs @ ys) = ys"
  by simp

lemma upt_conv_Cons_Suc: "i < j \<Longrightarrow> [i..<j] = i # [Suc i..<j]"
  by (simp add: upt_conv_Cons)

lemma bind_SomeI: "m = Some x \<Longrightarrow> f x = Some y \<Longrightarrow> (m \<bind> f) = Some y"
  by simp

section \<open>Loops over a list\<close>

text \<open>The body may leave defined behaviour, or not return.\<close>

fun fold_run :: "('a \<Rightarrow> 's \<Rightarrow> 's run) \<Rightarrow> 'a list \<Rightarrow> 's \<Rightarrow> 's run" where
  "fold_run f [] s = Some s"
| "fold_run f (x # xs) s = f x s \<bind> fold_run f xs"

lemma fold_run_append: "fold_run f (xs @ ys) s = fold_run f xs s \<bind> fold_run f ys"
proof (induction xs arbitrary: s)
  case Nil
  then show ?case by simp
next
  case (Cons x xs)
  then show ?case by (cases "f x s") simp_all
qed

end
