(* ===== verification/ArrayModel.thy ===== *)
theory ArrayModel
  imports CPrelude
begin

text \<open>
  \<^verbatim>\<open>BRArray.h\<close>: the growable arrays every other file builds its lists from. An array is the
  allocated slots (their number is the capacity word in front of the items) and the count word.
  The macros are modelled with their loops and their assertions; a failed assertion or a write
  past the allocation is \<open>None\<close>. \<open>z\<close> is the all-zero item \<open>memset\<close> and \<open>calloc\<close> leave behind.
  The abstraction \<open>contents\<close> is the list of the counted items; the invariant \<open>array_inv\<close> says the
  count is within the capacity and every slot behind it is zero.
\<close>

record 'a arr =
  slots :: "'a list"
  count :: nat

definition capacity :: "'a arr \<Rightarrow> nat" where
  "capacity a = length (slots a)"

definition array_new :: "'a \<Rightarrow> nat \<Rightarrow> 'a arr" where
  "array_new z cap = \<lparr>slots = replicate cap z, count = 0\<rparr>"

definition array_set_capacity :: "'a \<Rightarrow> 'a arr \<Rightarrow> nat \<Rightarrow> 'a arr run" where
  "array_set_capacity z a cap =
     (if count a \<le> cap
      then Some (a\<lparr>slots := take cap (slots a) @ replicate (cap - capacity a) z\<rparr>) else None)"

definition array_set_count :: "'a \<Rightarrow> 'a arr \<Rightarrow> nat \<Rightarrow> 'a arr run" where
  "array_set_count z a cnt =
     do { a1 \<leftarrow> (if cnt > capacity a then array_set_capacity z a cnt else Some a);
          let a2 = (if cnt < count a1
                    then a1\<lparr>slots := put (slots a1) cnt (replicate (count a1 - cnt) z)\<rparr> else a1);
          Some (a2\<lparr>count := cnt\<rparr>) }"

definition store :: "'a arr \<Rightarrow> nat \<Rightarrow> 'a \<Rightarrow> 'a arr run" where
  "store a i x = (if i < capacity a then Some (a\<lparr>slots := (slots a)[i := x]\<rparr>) else None)"

definition array_add :: "'a \<Rightarrow> 'a arr \<Rightarrow> 'a \<Rightarrow> 'a arr run" where
  "array_add z a item =
     do { a1 \<leftarrow> (if count a + 1 > capacity a then array_set_capacity z a ((capacity a + 1) * 3 div 2)
                else Some a);
          a2 \<leftarrow> store a1 (count a1) item;
          Some (a2\<lparr>count := count a2 + 1\<rparr>) }"

fun copy_in :: "'a arr \<Rightarrow> nat \<Rightarrow> 'a list \<Rightarrow> 'a arr run" where
  "copy_in a i [] = Some a"
| "copy_in a i (x # xs) = do { a' \<leftarrow> store a i x; copy_in a' (i + 1) xs }"

definition array_add_array :: "'a \<Rightarrow> 'a arr \<Rightarrow> 'a list \<Rightarrow> 'a arr run" where
  "array_add_array z a other =
     do { a1 \<leftarrow> (if count a + length other > capacity a
                then array_set_capacity z a ((count a + length other) * 3 div 2) else Some a);
          a2 \<leftarrow> copy_in a1 (count a) other;
          Some (a2\<lparr>count := count a2 + length other\<rparr>) }"

text \<open>The loop \<open>while (--i > idx) a[i] = a[i - n]\<close> of the two insertions: \<open>moves\<close> rounds downwards
  from slot \<open>i - 1\<close>.\<close>

fun move_up :: "'a arr \<Rightarrow> nat \<Rightarrow> nat \<Rightarrow> nat \<Rightarrow> 'a arr run" where
  "move_up a n 0 i = Some a"
| "move_up a n (Suc moves) i =
     do { x \<leftarrow> rd (slots a) (i - 1 - n); a' \<leftarrow> store a (i - 1) x; move_up a' n moves (i - 1) }"

definition array_insert :: "'a \<Rightarrow> 'a arr \<Rightarrow> nat \<Rightarrow> 'a \<Rightarrow> 'a arr run" where
  "array_insert z a idx item =
     do { let a0 = a\<lparr>count := count a + 1\<rparr>;
          if idx < count a0 then do {
            a1 \<leftarrow> (if count a0 > capacity a0 then array_set_capacity z a0 ((capacity a0 + 1) * 3 div 2)
                  else Some a0);
            a2 \<leftarrow> move_up a1 1 (count a1 - 1 - idx) (count a1);
            store a2 idx item }
          else None }"

definition array_insert_array :: "'a \<Rightarrow> 'a arr \<Rightarrow> nat \<Rightarrow> 'a list \<Rightarrow> 'a arr run" where
  "array_insert_array z a idx other =
     (if idx \<le> count a then do {
        let i = count a + length other;
        a1 \<leftarrow> (if i > capacity a then array_set_capacity z a (i * 3 div 2) else Some a);
        a2 \<leftarrow> move_up a1 (length other) (i - (idx + length other)) i;
        a3 \<leftarrow> copy_in a2 idx other;
        Some (a3\<lparr>count := count a3 + length other\<rparr>) }
      else None)"

text \<open>The loop \<open>while (i < count) a[i] = a[i + n], i++\<close> of the two removals.\<close>

fun move_down :: "'a arr \<Rightarrow> nat \<Rightarrow> nat \<Rightarrow> nat \<Rightarrow> 'a arr run" where
  "move_down a n 0 i = Some a"
| "move_down a n (Suc moves) i =
     do { x \<leftarrow> rd (slots a) (i + n); a' \<leftarrow> store a i x; move_down a' n moves (i + 1) }"

definition array_rm_range :: "'a \<Rightarrow> 'a arr \<Rightarrow> nat \<Rightarrow> nat \<Rightarrow> 'a arr run" where
  "array_rm_range z a i n =
     (if i < count a \<and> i + n \<le> count a then do {
        let cnt = count a - n;
        a1 \<leftarrow> move_down (a\<lparr>count := cnt\<rparr>) n (cnt - i) i;
        Some (a1\<lparr>slots := put (slots a1) cnt (replicate n z)\<rparr>) }
      else None)"

definition array_rm :: "'a \<Rightarrow> 'a arr \<Rightarrow> nat \<Rightarrow> 'a arr run" where
  "array_rm z a i =
     (if i < count a then do {
        let cnt = count a - 1;
        a1 \<leftarrow> move_down (a\<lparr>count := cnt\<rparr>) 1 (cnt - i) i;
        Some (a1\<lparr>slots := put (slots a1) cnt [z]\<rparr>) }
      else None)"

definition array_rm_last :: "'a \<Rightarrow> 'a arr \<Rightarrow> 'a arr" where
  "array_rm_last z a =
     (if count a > 0 then a\<lparr>count := count a - 1, slots := (slots a)[count a - 1 := z]\<rparr> else a)"

definition array_clear :: "'a \<Rightarrow> 'a arr \<Rightarrow> 'a arr" where
  "array_clear z a = a\<lparr>slots := put (slots a) 0 (replicate (count a) z), count := 0\<rparr>"

section \<open>Invariant and abstraction\<close>

definition array_inv :: "'a \<Rightarrow> 'a arr \<Rightarrow> bool" where
  "array_inv z a \<longleftrightarrow> count a \<le> capacity a \<and> (\<forall>i. count a \<le> i \<longrightarrow> i < capacity a \<longrightarrow> slots a ! i = z)"

definition contents :: "'a arr \<Rightarrow> 'a list" where
  "contents a = take (count a) (slots a)"

lemma length_contents: "array_inv z a \<Longrightarrow> length (contents a) = count a"
  by (simp add: contents_def array_inv_def capacity_def)

lemma slots_split:
  assumes "array_inv z a"
  shows "slots a = contents a @ replicate (capacity a - count a) z"
  using assms
  by (intro nth_equalityI) (auto simp: contents_def array_inv_def capacity_def nth_append)

lemma array_inv_of_split:
  assumes "slots a = xs @ replicate m z" "count a = length xs"
  shows "array_inv z a" "contents a = xs"
  using assms by (auto simp: array_inv_def capacity_def contents_def nth_append)

lemma result_split:
  assumes "r = Some (a\<lparr>slots := xs @ replicate m z, count := n\<rparr>)" "n = length xs"
  shows "\<exists>a'. r = Some a' \<and> array_inv z a' \<and> contents a' = xs"
  using array_inv_of_split [of "a\<lparr>slots := xs @ replicate m z, count := n\<rparr>" xs m z] assms by simp

lemma new_array: "array_inv z (array_new z cap)" "contents (array_new z cap) = []"
  by (simp_all add: array_new_def array_inv_def capacity_def contents_def)

lemma set_capacity_split:
  assumes "array_inv z a" "count a \<le> cap"
  shows "array_set_capacity z a cap = Some (a\<lparr>slots := contents a @ replicate (cap - count a) z\<rparr>)"
proof -
  have "take cap (slots a) @ replicate (cap - capacity a) z = contents a @ replicate (cap - count a) z"
    using slots_split [OF assms(1)] length_contents [OF assms(1)] assms
    by (auto simp: array_inv_def min_def replicate_add [symmetric])
  then show ?thesis using assms(2) by (simp add: array_set_capacity_def)
qed

lemma copy_in_put:
  "i + length xs \<le> capacity a \<Longrightarrow> copy_in a i xs = Some (a\<lparr>slots := put (slots a) i xs\<rparr>)"
proof (induction xs arbitrary: a i)
  case Nil
  then show ?case by (simp add: put_def)
next
  case (Cons x xs)
  have "put ((slots a)[i := x]) (i + 1) xs = put (slots a) i (x # xs)"
    using Cons.prems by (intro nth_equalityI) (auto simp: nth_put capacity_def nth_list_update nth_Cons')
  then show ?case using Cons by (simp add: store_def capacity_def)
qed

lemma move_up_eq:
  assumes "i \<le> capacity a" "moves + n \<le> i"
  shows "move_up a n moves i =
    Some (a\<lparr>slots := put (slots a) (i - moves) (take moves (drop (i - moves - n) (slots a)))\<rparr>)"
  using assms
proof (induction moves arbitrary: a i)
  case 0
  then show ?case by (simp add: put_def)
next
  case (Suc moves)
  let ?x = "slots a ! (i - 1 - n)" and ?s = "slots a"
  let ?a' = "a\<lparr>slots := ?s[i - 1 := ?x]\<rparr>"
  have len: "i - 1 < length ?s" "i - 1 - n < length ?s" using Suc.prems by (auto simp: capacity_def)
  have "move_up ?a' n moves (i - 1) = Some (?a'\<lparr>slots := put (slots ?a') (i - 1 - moves)
      (take moves (drop (i - 1 - moves - n) (slots ?a')))\<rparr>)"
    using Suc.prems by (intro Suc.IH) (auto simp: capacity_def)
  moreover have "put (?s[i - 1 := ?x]) (i - 1 - moves) (take moves (drop (i - 1 - moves - n) (?s[i - 1 := ?x])))
    = put ?s (i - Suc moves) (take (Suc moves) (drop (i - Suc moves - n) ?s))"
    using Suc.prems
    by (intro nth_equalityI) (auto simp: nth_put capacity_def nth_list_update)
  ultimately show ?case
    using len by (simp add: rd_def store_def capacity_def)
qed

lemma move_down_eq:
  assumes "i + moves + n \<le> capacity a"
  shows "move_down a n moves i = Some (a\<lparr>slots := put (slots a) i (take moves (drop (i + n) (slots a)))\<rparr>)"
  using assms
proof (induction moves arbitrary: a i)
  case 0
  then show ?case by (simp add: put_def)
next
  case (Suc moves)
  let ?x = "slots a ! (i + n)" and ?s = "slots a"
  let ?a' = "a\<lparr>slots := ?s[i := ?x]\<rparr>"
  have "move_down ?a' n moves (i + 1) = Some (?a'\<lparr>slots := put (slots ?a') (i + 1)
      (take moves (drop (i + 1 + n) (slots ?a')))\<rparr>)"
    using Suc.prems by (intro Suc.IH) (auto simp: capacity_def)
  moreover have "put (?s[i := ?x]) (i + 1) (take moves (drop (i + 1 + n) (?s[i := ?x])))
    = put ?s i (take (Suc moves) (drop (i + n) ?s))"
    using Suc.prems
  proof (intro nth_equalityI)
    fix k
    assume "k < length (put (?s[i := ?x]) (i + 1) (take moves (drop (i + 1 + n) (?s[i := ?x]))))"
    then show "put (?s[i := ?x]) (i + 1) (take moves (drop (i + 1 + n) (?s[i := ?x]))) ! k =
        put ?s i (take (Suc moves) (drop (i + n) ?s)) ! k"
      using Suc.prems by (cases "k = i") (auto simp: nth_put capacity_def nth_list_update ac_simps)
  qed (use Suc.prems in \<open>simp add: capacity_def\<close>)
  ultimately show ?case
    using Suc.prems by (simp add: rd_def store_def capacity_def)
qed

section \<open>Every macro is the list operation\<close>

lemma arr_set_count_correct:
  assumes "array_inv z a"
  shows "\<exists>a'. array_set_count z a cnt = Some a' \<and> array_inv z a' \<and>
    contents a' = take cnt (contents a) @ replicate (cnt - count a) z"
proof -
  have len: "length (contents a) = count a" "count a \<le> capacity a"
    using length_contents [OF assms] assms by (auto simp: array_inv_def)
  show ?thesis
  proof (cases "cnt > capacity a")
    case True
    then have "array_set_count z a cnt = Some (a\<lparr>slots :=
        (take cnt (contents a) @ replicate (cnt - count a) z) @ replicate 0 z, count := cnt\<rparr>)"
      using set_capacity_split [OF assms, of cnt] len by (simp add: array_set_count_def Let_def)
    then show ?thesis by (rule result_split) (use len True in simp)
  next
    case False
    let ?s = "if cnt < count a then put (slots a) cnt (replicate (count a - cnt) z) else slots a"
    have "array_set_count z a cnt = Some (a\<lparr>slots := ?s, count := cnt\<rparr>)"
      using False by (simp add: array_set_count_def Let_def)
    moreover have "?s = (take cnt (contents a) @ replicate (cnt - count a) z) @ replicate (capacity a - cnt) z"
    proof (cases "cnt < count a")
      case True
      have "put (contents a @ replicate (capacity a - count a) z) cnt (replicate (count a - cnt) z) =
          take cnt (contents a) @ replicate (count a - cnt) z @ replicate (capacity a - count a) z"
        using len True by (simp add: put_def)
      also have "\<dots> = take cnt (contents a) @ replicate ((count a - cnt) + (capacity a - count a)) z"
        by (simp only: replicate_add)
      also have "(count a - cnt) + (capacity a - count a) = capacity a - cnt" using len True by simp
      finally show ?thesis using True slots_split [OF assms] by simp
    next
      case ge: False
      have "slots a = contents a @ replicate (capacity a - count a) z" by (rule slots_split [OF assms])
      also have "capacity a - count a = (cnt - count a) + (capacity a - cnt)" using len ge False by simp
      finally have "slots a = contents a @ replicate (cnt - count a) z @ replicate (capacity a - cnt) z"
        by (simp only: replicate_add)
      then show ?thesis using ge len by simp
    qed
    ultimately have "array_set_count z a cnt = Some (a\<lparr>slots := (take cnt (contents a) @
        replicate (cnt - count a) z) @ replicate (capacity a - cnt) z, count := cnt\<rparr>)" by simp
    then show ?thesis by (rule result_split) (simp add: len)
  qed
qed

lemma reserve_split:
  assumes "array_inv z a" "need \<le> big" "count a \<le> need"
  shows "\<exists>m. (if need > capacity a then array_set_capacity z a big else Some a) =
    Some (a\<lparr>slots := contents a @ replicate m z\<rparr>) \<and> need \<le> count a + m"
proof (cases "need > capacity a")
  case True
  then show ?thesis using set_capacity_split [OF assms(1), of big] assms by (intro exI [of _ "big - count a"]) auto
next
  case False
  have "a\<lparr>slots := contents a @ replicate (capacity a - count a) z\<rparr> = a"
    using slots_split [OF assms(1)] by simp
  then show ?thesis using False by (intro exI [of _ "capacity a - count a"]) simp
qed

lemma half_more: "n \<le> n * 3 div (2 :: nat)"
  by arith

lemma arr_add_array_correct:
  assumes "array_inv z a"
  shows "\<exists>a'. array_add_array z a xs = Some a' \<and> array_inv z a' \<and> contents a' = contents a @ xs"
proof -
  let ?need = "count a + length xs"
  obtain m where m: "(if ?need > capacity a then array_set_capacity z a (?need * 3 div 2) else Some a) =
      Some (a\<lparr>slots := contents a @ replicate m z\<rparr>)" "?need \<le> count a + m"
    using reserve_split [OF assms half_more [of ?need]] by auto
  let ?a1 = "a\<lparr>slots := contents a @ replicate m z\<rparr>"
  have len: "length (contents a) = count a" by (rule length_contents [OF assms])
  have "copy_in ?a1 (count a) xs = Some (?a1\<lparr>slots := put (slots ?a1) (count a) xs\<rparr>)"
    using m(2) len by (intro copy_in_put) (simp add: capacity_def)
  moreover have "put (slots ?a1) (count a) xs = (contents a @ xs) @ replicate (m - length xs) z"
    using len by (simp add: put_def)
  ultimately have "array_add_array z a xs =
      Some (a\<lparr>slots := (contents a @ xs) @ replicate (m - length xs) z, count := ?need\<rparr>)"
    unfolding array_add_array_def using m(1) by simp
  then show ?thesis by (rule result_split) (use len in simp)
qed

lemma arr_add_correct:
  assumes "array_inv z a"
  shows "\<exists>a'. array_add z a x = Some a' \<and> array_inv z a' \<and> contents a' = contents a @ [x]"
proof -
  obtain m where m: "(if count a + 1 > capacity a then array_set_capacity z a ((capacity a + 1) * 3 div 2) else Some a) =
      Some (a\<lparr>slots := contents a @ replicate m z\<rparr>)" "count a + 1 \<le> count a + m"
  proof (cases "count a + 1 > capacity a")
    case True
    then have "count a = capacity a" using assms by (auto simp: array_inv_def)
    then have "count a + 1 \<le> (capacity a + 1) * 3 div 2" using half_more [of "capacity a + 1"] by simp
    from reserve_split [OF assms this] show ?thesis using that by auto
  next
    case False
    then show ?thesis using that reserve_split [OF assms, of "count a + 1" "count a + 1"] by auto
  qed
  have len: "length (contents a) = count a" by (rule length_contents [OF assms])
  have "(contents a @ replicate m z)[count a := x] = (contents a @ [x]) @ replicate (m - 1) z"
    using m(2) len by (cases m) (auto simp: list_update_append)
  then have "array_add z a x = Some (a\<lparr>slots := (contents a @ [x]) @ replicate (m - 1) z, count := count a + 1\<rparr>)"
    unfolding array_add_def using m len by (simp add: store_def capacity_def)
  then show ?thesis by (rule result_split) (use len in simp)
qed

lemma arr_insert_array_correct:
  assumes "array_inv z a" "idx \<le> count a"
  shows "\<exists>a'. array_insert_array z a idx xs = Some a' \<and> array_inv z a' \<and>
    contents a' = take idx (contents a) @ xs @ drop idx (contents a)"
proof -
  let ?need = "count a + length xs" and ?n = "length xs"
  obtain m where m: "(if ?need > capacity a then array_set_capacity z a (?need * 3 div 2) else Some a) =
      Some (a\<lparr>slots := contents a @ replicate m z\<rparr>)" "?need \<le> count a + m"
    using reserve_split [OF assms(1) half_more [of ?need]] by auto
  let ?s1 = "contents a @ replicate m z"
  let ?a1 = "a\<lparr>slots := ?s1\<rparr>"
  have len: "length (contents a) = count a" by (rule length_contents [OF assms(1)])
  let ?s2 = "put ?s1 (idx + ?n) (take (count a - idx) (drop idx ?s1))"
  have mv: "move_up ?a1 ?n (?need - (idx + ?n)) ?need = Some (?a1\<lparr>slots := ?s2\<rparr>)"
    using m(2) len assms(2) by (subst move_up_eq) (auto simp: capacity_def add.commute)
  have "copy_in (?a1\<lparr>slots := ?s2\<rparr>) idx xs = Some (?a1\<lparr>slots := put ?s2 idx xs\<rparr>)"
    using m(2) len assms(2) by (subst copy_in_put) (auto simp: capacity_def)
  moreover have "put ?s2 idx xs = (take idx (contents a) @ xs @ drop idx (contents a)) @ replicate (m - ?n) z"
    using m(2) len assms(2) by (simp add: put_def)
  ultimately have "array_insert_array z a idx xs = Some (a\<lparr>slots :=
      (take idx (contents a) @ xs @ drop idx (contents a)) @ replicate (m - ?n) z, count := ?need\<rparr>)"
    unfolding array_insert_array_def Let_def using m(1) assms(2) mv by simp
  then show ?thesis by (rule result_split) (use len in simp)
qed

lemma arr_insert_correct:
  assumes "array_inv z a" "idx \<le> count a"
  shows "\<exists>a'. array_insert z a idx x = Some a' \<and> array_inv z a' \<and>
    contents a' = take idx (contents a) @ x # drop idx (contents a)"
proof -
  let ?a0 = "a\<lparr>count := count a + 1\<rparr>"
  have len: "length (contents a) = count a" "count a \<le> capacity a"
    using length_contents [OF assms(1)] assms(1) by (auto simp: array_inv_def)
  obtain m where m: "(if count ?a0 > capacity ?a0 then array_set_capacity z ?a0 ((capacity ?a0 + 1) * 3 div 2) else Some ?a0) =
      Some (?a0\<lparr>slots := contents a @ replicate m z\<rparr>)" "0 < m"
  proof (cases "count a = capacity a")
    case True
    have "count a + 1 \<le> (capacity a + 1) * 3 div 2" using half_more [of "capacity a + 1"] True by simp
    moreover have "slots a = contents a" using True by (simp add: contents_def capacity_def)
    ultimately show ?thesis
      using that [of "(capacity a + 1) * 3 div 2 - capacity a"] True
      by (simp add: array_set_capacity_def capacity_def)
  next
    case False
    have "contents a @ replicate (capacity a - count a) z = slots a"
      by (rule slots_split [OF assms(1), symmetric])
    then have "?a0 = ?a0\<lparr>slots := contents a @ replicate (capacity a - count a) z\<rparr>" by simp
    then show ?thesis
      using that [of "capacity a - count a"] False len(2) by (simp add: capacity_def)
  qed
  let ?s1 = "contents a @ replicate m z"
  let ?a1 = "?a0\<lparr>slots := ?s1\<rparr>"
  let ?s2 = "put ?s1 (idx + 1) (take (count a - idx) (drop idx ?s1))"
  have mv: "move_up ?a1 1 (count ?a1 - 1 - idx) (count ?a1) = Some (?a1\<lparr>slots := ?s2\<rparr>)"
    using m(2) len assms(2) by (subst move_up_eq) (auto simp: capacity_def add.commute)
  moreover have "idx < length ?s2" using m(2) len assms(2) by (simp add: put_def)
  moreover have "?s2[idx := x] = (take idx (contents a) @ x # drop idx (contents a)) @ replicate (m - 1) z"
    using m(2) len assms(2) by (auto simp: put_def list_update_append Suc_diff_Suc take_Suc_conv_app_nth)
  ultimately have "array_insert z a idx x = Some (a\<lparr>slots :=
      (take idx (contents a) @ x # drop idx (contents a)) @ replicate (m - 1) z, count := count a + 1\<rparr>)"
    unfolding array_insert_def Let_def using m(1) assms(2) by (simp add: store_def capacity_def)
  then show ?thesis by (rule result_split) (use len assms(2) in simp)
qed

lemma arr_rm_range_correct:
  assumes "array_inv z a" "i < count a" "i + n \<le> count a"
  shows "\<exists>a'. array_rm_range z a i n = Some a' \<and> array_inv z a' \<and>
    contents a' = take i (contents a) @ drop (i + n) (contents a)"
proof -
  let ?cnt = "count a - n" and ?r = "replicate (capacity a - count a) z"
  have len: "length (contents a) = count a" "count a \<le> capacity a"
    using length_contents [OF assms(1)] assms(1) by (auto simp: array_inv_def)
  let ?s1 = "put (slots a) i (take (?cnt - i) (drop (i + n) (slots a)))"
  have mv: "move_down (a\<lparr>count := ?cnt\<rparr>) n (?cnt - i) i = Some (a\<lparr>count := ?cnt, slots := ?s1\<rparr>)"
    using len assms(2,3) by (subst move_down_eq) (auto simp: capacity_def)
  have "put ?s1 ?cnt (replicate n z) =
      (take i (contents a) @ drop (i + n) (contents a)) @ replicate (n + (capacity a - count a)) z"
    using len assms(2,3) unfolding slots_split [OF assms(1)]
    by (simp add: put_def replicate_add del: Nat.add_diff_assoc Nat.add_diff_assoc2)
  then have "array_rm_range z a i n = Some (a\<lparr>slots :=
      (take i (contents a) @ drop (i + n) (contents a)) @ replicate (n + (capacity a - count a)) z, count := ?cnt\<rparr>)"
    unfolding array_rm_range_def Let_def using assms(2,3) mv by simp
  then show ?thesis by (rule result_split) (use len assms in simp)
qed

lemma rm_eq_rm_range: "array_rm z a i = array_rm_range z a i 1"
  by (auto simp: array_rm_def array_rm_range_def Let_def)

lemma arr_rm_last_correct:
  assumes "array_inv z a"
  shows "array_inv z (array_rm_last z a) \<and> contents (array_rm_last z a) = butlast (contents a)"
  using assms
  by (auto simp: array_rm_last_def array_inv_def contents_def capacity_def nth_list_update butlast_take)

lemma arr_clear_correct:
  assumes "array_inv z a"
  shows "array_inv z (array_clear z a) \<and> contents (array_clear z a) = [] \<and>
    capacity (array_clear z a) = capacity a"
  using assms
  by (auto simp: array_clear_def array_inv_def contents_def capacity_def nth_put)

section \<open>Properties of the arrays\<close>

text \<open>On every well formed array the adding and inserting macros succeed whatever the free
  capacity is, keep the array well formed (count within capacity, slack zeroed) and compute the list
  operation they name.\<close>

theorem array_insertions_are_list_operations:
  assumes "array_inv z a" and "idx \<le> count a"
  shows "\<exists>a1 a2 a3 a4. array_add z a x = Some a1 \<and> array_inv z a1 \<and> contents a1 = contents a @ [x] \<and>
    array_add_array z a xs = Some a2 \<and> array_inv z a2 \<and> contents a2 = contents a @ xs \<and>
    array_insert z a idx x = Some a3 \<and> array_inv z a3 \<and>
      contents a3 = take idx (contents a) @ x # drop idx (contents a) \<and>
    array_insert_array z a idx xs = Some a4 \<and> array_inv z a4 \<and>
      contents a4 = take idx (contents a) @ xs @ drop idx (contents a)"
  using arr_add_correct [OF assms(1), of x] arr_add_array_correct [OF assms(1), of xs]
    arr_insert_correct [OF assms, of x] arr_insert_array_correct [OF assms, of xs] by blast

theorem array_insertions_witness:
  "\<exists>a4. array_insert_array 0 (array_new (0 :: nat) 1) 0 [7, 8, 9] = Some a4 \<and> contents a4 = [7, 8, 9]"
proof -
  have "(0 :: nat) \<le> count (array_new (0 :: nat) 1)" by (simp add: array_new_def)
  from array_insertions_are_list_operations [OF new_array(1) [of "0 :: nat" 1] this, of 0 "[7, 8, 9]"]
  show ?thesis using new_array(2) [of "0 :: nat" 1] by auto
qed

text \<open>The removing macros and \<open>array_set_count\<close> do the list operation, zero what they free, and
  never touch memory outside the allocation.\<close>

theorem array_removals_are_list_operations:
  assumes "array_inv z a" and "i < count a" and "i + n \<le> count a"
  shows "\<exists>a1 a2 a3. array_rm z a i = Some a1 \<and> array_inv z a1 \<and>
      contents a1 = take i (contents a) @ drop (i + 1) (contents a) \<and>
    array_rm_range z a i n = Some a2 \<and> array_inv z a2 \<and>
      contents a2 = take i (contents a) @ drop (i + n) (contents a) \<and>
    array_set_count z a cnt = Some a3 \<and> array_inv z a3 \<and>
      contents a3 = take cnt (contents a) @ replicate (cnt - count a) z \<and>
    contents (array_rm_last z a) = butlast (contents a) \<and> contents (array_clear z a) = []"
  using arr_rm_range_correct [OF assms] arr_rm_range_correct [OF assms(1,2), of 1] assms(2)
    arr_set_count_correct [OF assms(1), of cnt] arr_rm_last_correct [OF assms(1)] arr_clear_correct [OF assms(1)]
  by (simp add: rm_eq_rm_range)

theorem array_removals_witness:
  "\<exists>a2. array_rm_range 0 \<lparr>slots = [5, 6, 7, 0 :: nat], count = 3\<rparr> 0 2 = Some a2 \<and> contents a2 = [7]"
proof -
  let ?a = "\<lparr>slots = [5, 6, 7, 0 :: nat], count = 3\<rparr>"
  have "array_inv 0 ?a" using array_inv_of_split(1) [of ?a "[5, 6, 7]" 1 0] by simp
  from array_removals_are_list_operations [OF this, of 0 2] show ?thesis by (auto simp: contents_def)
qed

end
