(* ===== verification/IntBytes.thy ===== *)
theory IntBytes
  imports CPrelude
begin

text \<open>
  \<^verbatim>\<open>BRInt.h\<close>: the 128, 160, 256 and 512 bit unions, their comparisons, the hex macros and the
  unaligned big and little endian accessors. A union is a word of its full width; its \<open>u8[i]\<close>,
  \<open>u32[i]\<close> and \<open>u64[i]\<close> views are the lanes of the word on a little endian host, which is what
  the program runs on. A setter is the byte image it stores, a getter a function of the bytes
  it reads; \<open>get_at\<close> reads it at an offset of a buffer and is \<open>None\<close> outside the buffer.
\<close>

type_synonym uint128 = "128 word"
type_synonym uint160 = "160 word"
type_synonym uint256 = "256 word"
type_synonym uint512 = "512 word"

section \<open>Lanes of the unions\<close>

definition lane8 :: "'a::len word \<Rightarrow> nat \<Rightarrow> u8" where
  "lane8 u i = ucast (drop_bit (8 * i) u)"

definition lane32 :: "'a::len word \<Rightarrow> nat \<Rightarrow> u32" where
  "lane32 u i = ucast (drop_bit (32 * i) u)"

definition lane64 :: "'a::len word \<Rightarrow> nat \<Rightarrow> u64" where
  "lane64 u i = ucast (drop_bit (64 * i) u)"

definition UInt128Eq :: "uint128 \<Rightarrow> uint128 \<Rightarrow> bool" where
  "UInt128Eq a b \<longleftrightarrow> lane64 a 0 = lane64 b 0 \<and> lane64 a 1 = lane64 b 1"

definition UInt160Eq :: "uint160 \<Rightarrow> uint160 \<Rightarrow> bool" where
  "UInt160Eq a b \<longleftrightarrow> lane32 a 0 = lane32 b 0 \<and> lane32 a 1 = lane32 b 1 \<and> lane32 a 2 = lane32 b 2 \<and>
     lane32 a 3 = lane32 b 3 \<and> lane32 a 4 = lane32 b 4"

definition UInt256Eq :: "uint256 \<Rightarrow> uint256 \<Rightarrow> bool" where
  "UInt256Eq a b \<longleftrightarrow> lane64 a 0 = lane64 b 0 \<and> lane64 a 1 = lane64 b 1 \<and> lane64 a 2 = lane64 b 2 \<and>
     lane64 a 3 = lane64 b 3"

definition UInt512Eq :: "uint512 \<Rightarrow> uint512 \<Rightarrow> bool" where
  "UInt512Eq a b \<longleftrightarrow> lane64 a 0 = lane64 b 0 \<and> lane64 a 1 = lane64 b 1 \<and> lane64 a 2 = lane64 b 2 \<and>
     lane64 a 3 = lane64 b 3 \<and> lane64 a 4 = lane64 b 4 \<and> lane64 a 5 = lane64 b 5 \<and>
     lane64 a 6 = lane64 b 6 \<and> lane64 a 7 = lane64 b 7"

definition UInt128IsZero :: "uint128 \<Rightarrow> bool" where
  "UInt128IsZero u \<longleftrightarrow> (lane64 u 0 OR lane64 u 1) = 0"

definition UInt160IsZero :: "uint160 \<Rightarrow> bool" where
  "UInt160IsZero u \<longleftrightarrow> (lane32 u 0 OR lane32 u 1 OR lane32 u 2 OR lane32 u 3 OR lane32 u 4) = 0"

definition UInt256IsZero :: "uint256 \<Rightarrow> bool" where
  "UInt256IsZero u \<longleftrightarrow> (lane64 u 0 OR lane64 u 1 OR lane64 u 2 OR lane64 u 3) = 0"

definition UInt512IsZero :: "uint512 \<Rightarrow> bool" where
  "UInt512IsZero u \<longleftrightarrow> (lane64 u 0 OR lane64 u 1 OR lane64 u 2 OR lane64 u 3 OR lane64 u 4 OR
     lane64 u 5 OR lane64 u 6 OR lane64 u 7) = 0"

definition UInt256Reverse :: "uint256 \<Rightarrow> uint256" where
  "UInt256Reverse u = le_word (map (\<lambda>i. lane8 u (31 - i)) [0..<32])"

abbreviation (input) UINT256_ZERO :: uint256 where "UINT256_ZERO \<equiv> 0"

subsection \<open>The lane-wise comparisons decide equality\<close>

lemma bit_lane8: "bit (lane8 u i) k \<longleftrightarrow> k < 8 \<and> bit u (8 * i + k)"
  by (auto simp: lane8_def bit_unsigned_iff bit_drop_bit_eq)

lemma bit_lane32: "bit (lane32 u i) k \<longleftrightarrow> k < 32 \<and> bit u (32 * i + k)"
  by (auto simp: lane32_def bit_unsigned_iff bit_drop_bit_eq)

lemma bit_lane64: "bit (lane64 u i) k \<longleftrightarrow> k < 64 \<and> bit u (64 * i + k)"
  by (auto simp: lane64_def bit_unsigned_iff bit_drop_bit_eq)

lemma lanes64_eqI:
  fixes a b :: "'a::len word"
  assumes len: "LENGTH('a) = 64 * n" and eq: "\<And>i. i < n \<Longrightarrow> lane64 a i = lane64 b i"
  shows "a = b"
proof (rule bit_word_eqI)
  fix k assume "k < LENGTH('a)"
  then have "k div 64 < n" using len by auto
  then have "lane64 a (k div 64) = lane64 b (k div 64)" by (rule eq)
  then have "bit (lane64 a (k div 64)) (k mod 64) = bit (lane64 b (k div 64)) (k mod 64)" by simp
  then show "bit a k \<longleftrightarrow> bit b k" by (simp add: bit_lane64)
qed

lemma lanes32_eqI:
  fixes a b :: "'a::len word"
  assumes len: "LENGTH('a) = 32 * n" and eq: "\<And>i. i < n \<Longrightarrow> lane32 a i = lane32 b i"
  shows "a = b"
proof (rule bit_word_eqI)
  fix k assume "k < LENGTH('a)"
  then have "k div 32 < n" using len by auto
  then have "lane32 a (k div 32) = lane32 b (k div 32)" by (rule eq)
  then have "bit (lane32 a (k div 32)) (k mod 32) = bit (lane32 b (k div 32)) (k mod 32)" by simp
  then show "bit a k \<longleftrightarrow> bit b k" by (simp add: bit_lane32)
qed

lemma all_less_numeral: "(\<forall>i < numeral n. P i) \<longleftrightarrow> (\<forall>i < pred_numeral n. P i) \<and> P (pred_numeral n)"
  unfolding numeral_eq_Suc by (auto simp: less_Suc_eq)

lemma UInt128Eq_iff [simp]: "UInt128Eq a b \<longleftrightarrow> a = b"
  unfolding UInt128Eq_def using lanes64_eqI [of 2 a b] by (auto simp: less_2_cases_iff)

lemma UInt160Eq_iff [simp]: "UInt160Eq a b \<longleftrightarrow> a = b"
proof -
  have "(\<forall>i<5. lane32 a i = lane32 b i) \<Longrightarrow> a = b" using lanes32_eqI [of 5 a b] by simp
  then show ?thesis
    unfolding UInt160Eq_def by (auto simp: all_less_numeral)
qed

lemma UInt256Eq_iff [simp]: "UInt256Eq a b \<longleftrightarrow> a = b"
proof -
  have "(\<forall>i<4. lane64 a i = lane64 b i) \<Longrightarrow> a = b" using lanes64_eqI [of 4 a b] by simp
  then show ?thesis
    unfolding UInt256Eq_def by (auto simp: all_less_numeral)
qed

lemma UInt512Eq_iff [simp]: "UInt512Eq a b \<longleftrightarrow> a = b"
proof -
  have "(\<forall>i<8. lane64 a i = lane64 b i) \<Longrightarrow> a = b" using lanes64_eqI [of 8 a b] by simp
  then show ?thesis
    unfolding UInt512Eq_def by (auto simp: all_less_numeral)
qed

lemma lane_0 [simp]: "lane64 0 i = 0" "lane32 0 i = 0" "lane8 0 i = 0"
  by (simp_all add: lane64_def lane32_def lane8_def)

lemma UInt128IsZero_iff [simp]: "UInt128IsZero u \<longleftrightarrow> u = 0"
  using UInt128Eq_iff [of u 0, unfolded UInt128Eq_def] by (simp add: UInt128IsZero_def or_eq_0_iff)

lemma UInt160IsZero_iff [simp]: "UInt160IsZero u \<longleftrightarrow> u = 0"
  using UInt160Eq_iff [of u 0, unfolded UInt160Eq_def] by (simp add: UInt160IsZero_def or_eq_0_iff)

lemma UInt256IsZero_iff [simp]: "UInt256IsZero u \<longleftrightarrow> u = 0"
  using UInt256Eq_iff [of u 0, unfolded UInt256Eq_def] by (simp add: UInt256IsZero_def or_eq_0_iff)

lemma UInt512IsZero_iff [simp]: "UInt512IsZero u \<longleftrightarrow> u = 0"
  using UInt512Eq_iff [of u 0, unfolded UInt512Eq_def] by (simp add: UInt512IsZero_def or_eq_0_iff)

lemma lane8_nth_le_bytes: "i < n \<Longrightarrow> le_bytes n u ! i = lane8 u i"
  by (simp add: nth_le_bytes lane8_def)

lemma UInt256Reverse_eq: "UInt256Reverse u = be_word (le_bytes 32 u)"
proof -
  have "map (\<lambda>i. lane8 u (31 - i)) [0..<32] = rev (le_bytes 32 u)"
    by (rule nth_equalityI) (auto simp: rev_nth lane8_nth_le_bytes)
  then show ?thesis by (simp add: UInt256Reverse_def be_word_def)
qed

lemma UInt256Reverse_involution: "UInt256Reverse (UInt256Reverse u) = u"
proof -
  have "le_bytes 32 (be_word (le_bytes 32 u) :: uint256) = rev (le_bytes 32 u)"
    unfolding be_word_def by (rule le_bytes_le_word) simp_all
  then show ?thesis
    by (simp add: UInt256Reverse_eq be_word_def) (simp add: codec_simps)
qed

section \<open>Hex encoding\<close>

definition hexc :: "u8 \<Rightarrow> u8" where
  "hexc u = (u AND 0x0f) + (if u AND 0x0f \<le> 9 then 48 else 97 - 0x0a)"

definition hexu :: "u8 \<Rightarrow> u8" where
  "hexu c = (if 48 \<le> c \<and> c \<le> 57 then c - 48
     else if 97 \<le> c \<and> c \<le> 102 then c - (97 - 0x0a)
     else if 65 \<le> c \<and> c \<le> 70 then c - (65 - 0x0a) else 0)"

definition u256_hex_encode :: "uint256 \<Rightarrow> bytes" where
  "u256_hex_encode u =
     concat (map (\<lambda>i. [hexc (drop_bit 4 (lane8 u i)), hexc (lane8 u i)]) [0..<32]) @ [0]"

definition u256_hex_decode :: "bytes \<Rightarrow> uint256" where
  "u256_hex_decode s =
     le_word (map (\<lambda>i. push_bit 4 (hexu (s ! (2 * i))) OR hexu (s ! (2 * i + 1))) [0..<32])"

lemma word4_cases:
  fixes x :: u8
  assumes "x AND 0x0f = x"
  shows "x \<in> {0, 1, 2, 3, 4, 5, 6, 7, 8, 9, 10, 11, 12, 13, 14, 15}"
proof -
  have "x AND 0x0f \<le> 0x0f" by (rule word_and_le1)
  then have "uint x < 16" using assms by (simp add: word_le_def)
  then have "uint x \<in> {0..<16}" by simp
  also have "{0..<16::int} = {0,1,2,3,4,5,6,7,8,9,10,11,12,13,14,15}" by (auto; presburger)
  finally show ?thesis by (auto simp: word_uint_eq_iff)
qed

lemma hexu_hexc_digit: "x \<in> {0, 1, 2, 3, 4, 5, 6, 7, 8, 9, 10, 11, 12, 13, 14, 15} \<Longrightarrow> hexu (hexc x) = x"
  by (elim insertE emptyE; hypsubst; simp only: hexc_def hexu_def; simp)

lemma hexu_hexc [simp]: "hexu (hexc b) = b AND 0x0f"
proof -
  have "hexc (b AND 0x0f) = hexc b" by (simp add: hexc_def and.assoc)
  moreover have "(b AND 0x0f) AND 0x0f = b AND 0x0f" by (simp add: and.assoc)
  ultimately show ?thesis using hexu_hexc_digit [OF word4_cases, of "b AND 0x0f"] by simp
qed

lemma nibbles_join: "push_bit 4 (hexu (hexc (drop_bit 4 b))) OR hexu (hexc b) = b"
proof -
  have m: "x AND 0x0f = take_bit 4 x" for x :: u8
    by (simp add: take_bit_eq_mask mask_eq_exp_minus_1)
  have "push_bit 4 (take_bit 4 (drop_bit 4 b)) OR take_bit 4 b = b"
    by (rule bit_word_eqI) (auto simp: bit_or_iff bit_push_bit_iff bit_take_bit_iff bit_drop_bit_eq)
  then show ?thesis by (simp only: hexu_hexc m)
qed

lemma nth_concat_pairs:
  "i < n \<Longrightarrow> concat (map (\<lambda>i. [f i, g i]) [0..<n]) ! (2 * i) = f i \<and>
   concat (map (\<lambda>i. [f i, g i]) [0..<n]) ! (2 * i + 1) = g i"
proof (induction n)
  case (Suc n)
  have len: "length (concat (map (\<lambda>i. [f i, g i]) [0..<n])) = 2 * n"
    by (simp add: length_concat sum_list_triv comp_def)
  show ?case
    using Suc by (cases "i = n") (auto simp: nth_append len less_Suc_eq)
qed simp

lemma u256_hex_roundtrip: "u256_hex_decode (u256_hex_encode u) = u"
proof -
  let ?e = "concat (map (\<lambda>i. [hexc (drop_bit 4 (lane8 u i)), hexc (lane8 u i)]) [0..<32])"
  have len: "length ?e = 64" by (simp add: length_concat sum_list_triv comp_def)
  have "push_bit 4 (hexu ((?e @ [0]) ! (2 * i))) OR hexu ((?e @ [0]) ! (2 * i + 1)) = lane8 u i"
    if "i < 32" for i
    using that nth_concat_pairs [OF that, of "\<lambda>i. hexc (drop_bit 4 (lane8 u i))" "\<lambda>i. hexc (lane8 u i)"]
    by (simp add: nth_append len nibbles_join del: upt_Suc hexu_hexc)
  then have "map (\<lambda>i. push_bit 4 (hexu ((?e @ [0]) ! (2 * i))) OR hexu ((?e @ [0]) ! (2 * i + 1))) [0..<32]
     = le_bytes 32 u"
    by (intro nth_equalityI) (simp_all add: lane8_nth_le_bytes del: upt_Suc)
  then show ?thesis
    by (simp only: u256_hex_decode_def u256_hex_encode_def) (simp add: codec_simps)
qed

section \<open>Unaligned accessors\<close>

definition UInt16SetBE :: "u16 \<Rightarrow> bytes" where
  "UInt16SetBE u = [ucast (drop_bit 8 u AND 0xff), ucast (u AND 0xff)]"

definition UInt16SetLE :: "u16 \<Rightarrow> bytes" where
  "UInt16SetLE u = [ucast (u AND 0xff), ucast (drop_bit 8 u AND 0xff)]"

definition UInt32SetBE :: "u32 \<Rightarrow> bytes" where
  "UInt32SetBE u = [ucast (drop_bit 24 u AND 0xff), ucast (drop_bit 16 u AND 0xff),
     ucast (drop_bit 8 u AND 0xff), ucast (u AND 0xff)]"

definition UInt32SetLE :: "u32 \<Rightarrow> bytes" where
  "UInt32SetLE u = [ucast (u AND 0xff), ucast (drop_bit 8 u AND 0xff),
     ucast (drop_bit 16 u AND 0xff), ucast (drop_bit 24 u AND 0xff)]"

definition UInt64SetBE :: "u64 \<Rightarrow> bytes" where
  "UInt64SetBE u = [ucast (drop_bit 56 u AND 0xff), ucast (drop_bit 48 u AND 0xff),
     ucast (drop_bit 40 u AND 0xff), ucast (drop_bit 32 u AND 0xff),
     ucast (drop_bit 24 u AND 0xff), ucast (drop_bit 16 u AND 0xff),
     ucast (drop_bit 8 u AND 0xff), ucast (u AND 0xff)]"

definition UInt64SetLE :: "u64 \<Rightarrow> bytes" where
  "UInt64SetLE u = [ucast (u AND 0xff), ucast (drop_bit 8 u AND 0xff),
     ucast (drop_bit 16 u AND 0xff), ucast (drop_bit 24 u AND 0xff),
     ucast (drop_bit 32 u AND 0xff), ucast (drop_bit 40 u AND 0xff),
     ucast (drop_bit 48 u AND 0xff), ucast (drop_bit 56 u AND 0xff)]"

definition UInt128Set :: "uint128 \<Rightarrow> bytes" where
  "UInt128Set u = map (lane8 u) [0..<16]"

definition UInt160Set :: "uint160 \<Rightarrow> bytes" where
  "UInt160Set u = map (lane8 u) [0..<20]"

definition UInt256Set :: "uint256 \<Rightarrow> bytes" where
  "UInt256Set u = map (lane8 u) [0..<32]"

definition UInt16GetBE :: "bytes \<Rightarrow> u16" where
  "UInt16GetBE b = push_bit 8 (ucast (b ! 0)) OR ucast (b ! 1)"

definition UInt16GetLE :: "bytes \<Rightarrow> u16" where
  "UInt16GetLE b = push_bit 8 (ucast (b ! 1)) OR ucast (b ! 0)"

definition UInt32GetBE :: "bytes \<Rightarrow> u32" where
  "UInt32GetBE b = push_bit 24 (ucast (b ! 0)) OR push_bit 16 (ucast (b ! 1)) OR
     push_bit 8 (ucast (b ! 2)) OR ucast (b ! 3)"

definition UInt32GetLE :: "bytes \<Rightarrow> u32" where
  "UInt32GetLE b = push_bit 24 (ucast (b ! 3)) OR push_bit 16 (ucast (b ! 2)) OR
     push_bit 8 (ucast (b ! 1)) OR ucast (b ! 0)"

definition UInt64GetBE :: "bytes \<Rightarrow> u64" where
  "UInt64GetBE b = push_bit 56 (ucast (b ! 0)) OR push_bit 48 (ucast (b ! 1)) OR
     push_bit 40 (ucast (b ! 2)) OR push_bit 32 (ucast (b ! 3)) OR
     push_bit 24 (ucast (b ! 4)) OR push_bit 16 (ucast (b ! 5)) OR
     push_bit 8 (ucast (b ! 6)) OR ucast (b ! 7)"

definition UInt64GetLE :: "bytes \<Rightarrow> u64" where
  "UInt64GetLE b = push_bit 56 (ucast (b ! 7)) OR push_bit 48 (ucast (b ! 6)) OR
     push_bit 40 (ucast (b ! 5)) OR push_bit 32 (ucast (b ! 4)) OR
     push_bit 24 (ucast (b ! 3)) OR push_bit 16 (ucast (b ! 2)) OR
     push_bit 8 (ucast (b ! 1)) OR ucast (b ! 0)"

definition UInt128Get :: "bytes \<Rightarrow> uint128" where
  "UInt128Get b = le_word (map ((!) b) [0..<16])"

definition UInt160Get :: "bytes \<Rightarrow> uint160" where
  "UInt160Get b = le_word (map ((!) b) [0..<20])"

definition UInt256Get :: "bytes \<Rightarrow> uint256" where
  "UInt256Get b = le_word (map ((!) b) [0..<32])"

definition get_at :: "nat \<Rightarrow> (bytes \<Rightarrow> 'a) \<Rightarrow> bytes \<Rightarrow> nat \<Rightarrow> 'a run" where
  "get_at n get bs off = map_option get (slice bs off n)"

subsection \<open>The accessors are the two byte orders\<close>

lemma ucast_and_ff: "ucast (x AND 0xff) = (ucast x :: u8)" for x :: "'a::len word"
proof -
  have m: "(0xff :: 'a word) = mask 8" by (simp add: mask_eq_exp_minus_1)
  have "ucast (x AND mask 8) = (ucast x :: u8)"
    by (rule bit_word_eqI)
      (auto simp: bit_unsigned_iff bit_and_iff bit_mask_iff possible_bit_def dest: bit_imp_le_length)
  then show ?thesis by (simp only: m)
qed

lemma UInt16SetLE_eq: "UInt16SetLE u = le_bytes 2 u"
  by (simp add: UInt16SetLE_def le_bytes_def ucast_and_ff numeral_2_eq_2)

lemma UInt16SetBE_eq: "UInt16SetBE u = be_bytes 2 u"
  by (simp add: UInt16SetBE_def be_bytes_def le_bytes_def ucast_and_ff numeral_2_eq_2)

lemma upt_0_4: "[0..<4] = [0, 1, 2, 3::nat]"
  and upt_0_8: "[0..<8] = [0, 1, 2, 3, 4, 5, 6, 7::nat]"
  by (simp_all add: upt_rec)

lemma UInt32SetLE_eq: "UInt32SetLE u = le_bytes 4 u"
  by (simp add: UInt32SetLE_def le_bytes_def ucast_and_ff upt_0_4)

lemma UInt32SetBE_eq: "UInt32SetBE u = be_bytes 4 u"
  by (simp add: UInt32SetBE_def be_bytes_def le_bytes_def ucast_and_ff upt_0_4)

lemma UInt64SetLE_eq: "UInt64SetLE u = le_bytes 8 u"
  by (simp add: UInt64SetLE_def le_bytes_def ucast_and_ff upt_0_8)

lemma UInt64SetBE_eq: "UInt64SetBE u = be_bytes 8 u"
  by (simp add: UInt64SetBE_def be_bytes_def le_bytes_def ucast_and_ff upt_0_8)

lemma UInt128Set_eq: "UInt128Set u = le_bytes 16 u"
  and UInt160Set_eq: "UInt160Set v = le_bytes 20 v"
  and UInt256Set_eq: "UInt256Set w = le_bytes 32 w"
  by (simp_all add: UInt128Set_def UInt160Set_def UInt256Set_def le_bytes_def lane8_def)

lemmas set_eqs = UInt16SetLE_eq UInt16SetBE_eq UInt32SetLE_eq UInt32SetBE_eq UInt64SetLE_eq
  UInt64SetBE_eq UInt128Set_eq UInt160Set_eq UInt256Set_eq

lemma le_word_2: "le_word [a, b] = push_bit 8 (ucast b) OR ucast a"
  and le_word_4: "le_word [a, b, c, d] =
    push_bit 24 (ucast d) OR push_bit 16 (ucast c) OR push_bit 8 (ucast b) OR ucast a"
  and le_word_8: "le_word [a, b, c, d, e, f, g, h] =
    push_bit 56 (ucast h) OR push_bit 48 (ucast g) OR push_bit 40 (ucast f) OR push_bit 32 (ucast e) OR
    push_bit 24 (ucast d) OR push_bit 16 (ucast c) OR push_bit 8 (ucast b) OR ucast a"
  by (simp_all add: push_bit_or or.commute or.left_commute or.assoc)

lemma list2: "length b = 2 \<Longrightarrow> \<exists>p q. b = [p, q]"
  by (auto simp: numeral_eq_Suc length_Suc_conv)

lemma UInt16GetLE_eq: "length b = 2 \<Longrightarrow> UInt16GetLE b = le_word b"
  by (auto dest!: list2 simp: UInt16GetLE_def le_word_2 simp del: le_word.simps)

lemma UInt16GetBE_eq: "length b = 2 \<Longrightarrow> UInt16GetBE b = be_word b"
  by (auto dest!: list2 simp: UInt16GetBE_def be_word_def le_word_2 simp del: le_word.simps)

lemma list4: "length b = 4 \<Longrightarrow> \<exists>p q r s. b = [p, q, r, s]"
  by (auto simp: numeral_eq_Suc length_Suc_conv)

lemma list8: "length b = 8 \<Longrightarrow> \<exists>p q r s t u v w. b = [p, q, r, s, t, u, v, w]"
  by (auto simp: numeral_eq_Suc length_Suc_conv)

lemma UInt32GetLE_eq: "length b = 4 \<Longrightarrow> UInt32GetLE b = le_word b"
  by (auto dest!: list4 simp: UInt32GetLE_def le_word_4 simp del: le_word.simps)

lemma UInt32GetBE_eq: "length b = 4 \<Longrightarrow> UInt32GetBE b = be_word b"
  by (auto dest!: list4 simp: UInt32GetBE_def be_word_def le_word_4 simp del: le_word.simps)

lemma UInt64GetLE_eq: "length b = 8 \<Longrightarrow> UInt64GetLE b = le_word b"
  by (auto dest!: list8 simp: UInt64GetLE_def le_word_8 simp del: le_word.simps)

lemma UInt64GetBE_eq: "length b = 8 \<Longrightarrow> UInt64GetBE b = be_word b"
  by (auto dest!: list8 simp: UInt64GetBE_def be_word_def le_word_8 simp del: le_word.simps)

lemma map_nth_upt: "length b = n \<Longrightarrow> map ((!) b) [0..<n] = b"
  by (metis map_nth)

lemma UInt128Get_eq: "length b = 16 \<Longrightarrow> UInt128Get b = le_word b"
  and UInt160Get_eq: "length b = 20 \<Longrightarrow> UInt160Get b = le_word b"
  and UInt256Get_eq: "length b = 32 \<Longrightarrow> UInt256Get b = le_word b"
  by (simp_all only: UInt128Get_def UInt160Get_def UInt256Get_def map_nth_upt)

lemmas get_eqs = UInt16GetLE_eq UInt16GetBE_eq UInt32GetLE_eq UInt32GetBE_eq UInt64GetLE_eq
  UInt64GetBE_eq UInt128Get_eq UInt160Get_eq UInt256Get_eq

subsection \<open>The contract of a fixed width accessor pair\<close>

locale int_codec =
  fixes width :: nat and enc :: "'a \<Rightarrow> bytes" and dec :: "bytes \<Rightarrow> 'a"
  assumes length_enc: "length (enc u) = width"
    and dec_enc: "dec (enc u) = u"
    and enc_dec: "length b = width \<Longrightarrow> enc (dec b) = b"
begin

lemma get_at_append:
  "length pre = off \<Longrightarrow> get_at width dec (pre @ enc u @ rest) off = Some u"
  by (simp add: get_at_def slice_def length_enc dec_enc)

lemma get_at_put:
  assumes "off + width \<le> length bs"
  shows "get_at width dec (put bs off (enc u)) off = Some u"
  using assms get_at_append [of "take off bs" off u] by (simp add: put_def)

lemma get_at_put_other:
  assumes "off + width \<le> length bs" "off' + width \<le> length bs" "off' + width \<le> off \<or> off + width \<le> off'"
  shows "get_at width dec (put bs off (enc u)) off' = get_at width dec bs off'"
proof -
  have "take width (drop off' (put bs off (enc u))) = take width (drop off' bs)"
    using assms by (intro nth_equalityI) (auto simp: nth_put length_enc)
  then show ?thesis using assms by (simp add: get_at_def slice_def length_enc)
qed

lemma get_at_eq_None_iff: "get_at width dec bs off = None \<longleftrightarrow> length bs < off + width"
  by (auto simp: get_at_def slice_def)

lemma put_get_at: "get_at width dec bs off = Some u \<Longrightarrow> put bs off (enc u) = bs"
  by (auto simp: get_at_def slice_def put_def enc_dec split: if_splits)
    (metis append_take_drop_id drop_drop add.commute)

lemma enc_inject: "enc u = enc v \<longleftrightarrow> u = v"
  by (metis dec_enc)

end

interpretation le16: int_codec 2 UInt16SetLE UInt16GetLE
  by unfold_locales (simp_all add: set_eqs get_eqs codec_simps)

interpretation be16: int_codec 2 UInt16SetBE UInt16GetBE
  by unfold_locales (simp_all add: set_eqs get_eqs codec_simps)

interpretation le32: int_codec 4 UInt32SetLE UInt32GetLE
  by unfold_locales (simp_all add: set_eqs get_eqs codec_simps)

interpretation be32: int_codec 4 UInt32SetBE UInt32GetBE
  by unfold_locales (simp_all add: set_eqs get_eqs codec_simps)

interpretation le64: int_codec 8 UInt64SetLE UInt64GetLE
  by unfold_locales (simp_all add: set_eqs get_eqs codec_simps)

interpretation be64: int_codec 8 UInt64SetBE UInt64GetBE
  by unfold_locales (simp_all add: set_eqs get_eqs codec_simps)

interpretation u128: int_codec 16 UInt128Set UInt128Get
  by unfold_locales (simp_all add: set_eqs get_eqs codec_simps)

interpretation u160: int_codec 20 UInt160Set UInt160Get
  by unfold_locales (simp_all add: set_eqs get_eqs codec_simps)

interpretation u256: int_codec 32 UInt256Set UInt256Get
  by unfold_locales (simp_all add: set_eqs get_eqs codec_simps)

lemmas codec_lengths [simp] = le16.length_enc be16.length_enc le32.length_enc be32.length_enc
  le64.length_enc be64.length_enc u128.length_enc u160.length_enc u256.length_enc

lemmas codec_dec_enc [simp] = le16.dec_enc be16.dec_enc le32.dec_enc be32.dec_enc le64.dec_enc
  be64.dec_enc u128.dec_enc u160.dec_enc u256.dec_enc

end
