(* ===== verification/Hashes.thy ===== *)
theory Hashes
  imports IntBytes
begin

text \<open>
  \<^verbatim>\<open>BRCrypto.c\<close>, the digests: SHA-1, SHA-224, SHA-256, double SHA-256, SHA-384, SHA-512, RIPEMD-160,
  HASH160, MD5 and MurmurHash3. The compression functions are written round by round as the code
  has them; the block buffer \<open>x\<close> is a byte object whose \<open>u32\<close> and \<open>u64\<close> views are little endian
  lanes, as on the hosts the program runs on, so \<open>le32\<close> is the identity and \<open>be32\<close> swaps.
  Every digest has the same driver (copy a block, compress, clear and pad the rest, append the
  length); it is written once, parameterised by block size, loop test, compression function and
  length field. The locale \<open>md_hash\<close> states what the driver needs of a compression function and
  proves that the driver folds the compression over the padded message, which is how the standards
  define these digests.
\<close>

section \<open>Word operations of the macros\<close>

definition rol32 :: "u32 \<Rightarrow> nat \<Rightarrow> u32" where
  "rol32 a b = push_bit b a OR drop_bit (32 - b) a"

definition ror32 :: "u32 \<Rightarrow> nat \<Rightarrow> u32" where
  "ror32 a b = drop_bit b a OR push_bit (32 - b) a"

definition ror64 :: "u64 \<Rightarrow> nat \<Rightarrow> u64" where
  "ror64 a b = drop_bit b a OR push_bit (64 - b) a"

definition be32 :: "u32 \<Rightarrow> u32" where
  "be32 x = push_bit 24 (x AND 0xff) OR push_bit 8 (x AND 0xff00) OR
     drop_bit 8 (x AND 0xff0000) OR drop_bit 24 (x AND 0xff000000)"

definition be64 :: "u64 \<Rightarrow> u64" where
  "be64 x = ucast (be32 (ucast (drop_bit 32 x))) OR push_bit 32 (ucast (be32 (ucast x)))"

text \<open>The \<open>i\<close>-th \<open>uint32_t\<close> or \<open>uint64_t\<close> of a byte object.\<close>

definition u32_at :: "bytes \<Rightarrow> nat \<Rightarrow> u32" where
  "u32_at x i = le_word (take 4 (drop (4 * i) x))"

definition u64_at :: "bytes \<Rightarrow> nat \<Rightarrow> u64" where
  "u64_at x i = le_word (take 8 (drop (8 * i) x))"

text \<open>The image in memory of an array of \<open>uint32_t\<close> or \<open>uint64_t\<close>.\<close>

definition image32 :: "u32 list \<Rightarrow> bytes" where
  "image32 ws = concat (map (le_bytes 4) ws)"

definition image64 :: "u64 list \<Rightarrow> bytes" where
  "image64 ws = concat (map (le_bytes 8) ws)"

lemma length_image32 [simp]: "length (image32 ws) = 4 * length ws"
  by (induction ws) (auto simp: image32_def)

lemma length_image64 [simp]: "length (image64 ws) = 8 * length ws"
  by (induction ws) (auto simp: image64_def)

section \<open>The driver of the digests\<close>

text \<open>The block loop: \<open>more i len\<close> is the loop test (\<open>i < len\<close> or \<open>i <= len\<close>), \<open>B\<close> the block size;
  the result is \<open>buf\<close>, \<open>x\<close> and \<open>i\<close> after the loop.\<close>

function md_loop ::
  "(nat \<Rightarrow> nat \<Rightarrow> bool) \<Rightarrow> nat \<Rightarrow> ('s \<Rightarrow> bytes \<Rightarrow> 's) \<Rightarrow> bytes \<Rightarrow> 's \<Rightarrow> bytes \<Rightarrow> nat \<Rightarrow> 's \<times> bytes \<times> nat"
where
  "md_loop more B cmp data buf x i =
     (let len = length data in
      if more i len \<and> 0 < B then
        let x = put x 0 (take (if i + B < len then B else len - i) (drop i data)) in
        if i + B > len then (buf, x, i)
        else md_loop more B cmp data (cmp buf x) x (i + B)
      else (buf, x, i))"
  by pat_completeness auto
termination
  by (relation "measure (\<lambda>(more, B, cmp, data, buf, x, i). length data - i)") auto

declare md_loop.simps [simp del]

text \<open>Clearing the remainder of \<open>x\<close>, the padding byte, the block that has no room for the length,
  the length field (\<open>F\<close> bytes) and the last compression.\<close>

definition md_finish :: "nat \<Rightarrow> nat \<Rightarrow> ('s \<Rightarrow> bytes \<Rightarrow> 's) \<Rightarrow> (u64 \<Rightarrow> bytes) \<Rightarrow> nat \<Rightarrow> 's \<times> bytes \<times> nat \<Rightarrow> 's" where
  "md_finish B F cmp lenf len st =
     (case st of (buf, x, i) \<Rightarrow>
      let x = put x (len - i) (replicate (B - (len - i)) 0);
          x = x[len - i := 0x80];
          (buf, x) = (if len - i \<ge> B - F then (cmp buf x, replicate B 0) else (buf, x));
          x = put x (B - F) (lenf (of_nat len))
      in cmp buf x)"

definition md_digest ::
  "(nat \<Rightarrow> nat \<Rightarrow> bool) \<Rightarrow> nat \<Rightarrow> nat \<Rightarrow> ('s \<Rightarrow> bytes \<Rightarrow> 's) \<Rightarrow> (u64 \<Rightarrow> bytes) \<Rightarrow> bytes \<Rightarrow> 's \<Rightarrow> bytes \<Rightarrow> 's"
where
  "md_digest more B F cmp lenf x buf data =
     md_finish B F cmp lenf (length data) (md_loop more B cmp data buf x 0)"

text \<open>The stack buffer \<open>x\<close> is uninitialised when the loop starts; it is zero here, and
  \<open>digest_correct\<close> below holds for every initial content.\<close>

abbreviation stack :: "nat \<Rightarrow> bytes" where
  "stack n \<equiv> replicate n 0"

definition len_be32 :: "u64 \<Rightarrow> bytes" where
  "len_be32 len = image32 [be32 (ucast (drop_bit 29 len)), be32 (ucast (push_bit 3 len))]"

definition len_le32 :: "u64 \<Rightarrow> bytes" where
  "len_le32 len = image32 [ucast (push_bit 3 len), ucast (drop_bit 29 len)]"

definition len_be64 :: "u64 \<Rightarrow> bytes" where
  "len_be64 len = image64 [0, be64 (len * 8)]"

section \<open>SHA-1\<close>

definition sha1_f1 :: "u32 \<Rightarrow> u32 \<Rightarrow> u32 \<Rightarrow> u32" where
  "sha1_f1 x y z = ((x AND y) OR (NOT x AND z))"

definition sha1_f2 :: "u32 \<Rightarrow> u32 \<Rightarrow> u32 \<Rightarrow> u32" where
  "sha1_f2 x y z = x XOR y XOR z"

definition sha1_f3 :: "u32 \<Rightarrow> u32 \<Rightarrow> u32 \<Rightarrow> u32" where
  "sha1_f3 x y z = ((x AND y) OR (x AND z) OR (y AND z))"

type_synonym sha1_vars = "u32 \<times> u32 \<times> u32 \<times> u32 \<times> u32"

text \<open>One \<open>sha1\<close> step: \<open>f\<close> is the round function, \<open>k\<close> its constant, \<open>w\<close> the schedule word.\<close>

definition sha1_step :: "(u32 \<Rightarrow> u32 \<Rightarrow> u32 \<Rightarrow> u32) \<Rightarrow> u32 \<Rightarrow> u32 \<Rightarrow> sha1_vars \<Rightarrow> sha1_vars" where
  "sha1_step f k w v = (case v of (a, b, c, d, e) \<Rightarrow>
     (rol32 a 5 + f b c d + e + k + w, a, rol32 b 30, c, d))"

text \<open>The code fills \<open>x[i]\<close> inside step \<open>i\<close>; the words it reads for it have smaller indices and
  are not written again, so the filled array is computed first.\<close>

definition sha1_schedule :: "bytes \<Rightarrow> u32 list" where
  "sha1_schedule x = fold (\<lambda>i w. w @ [rol32 (w ! (i - 3) XOR w ! (i - 8) XOR w ! (i - 14) XOR w ! (i - 16)) 1])
     [16..<80] (map (\<lambda>i. be32 (u32_at x i)) [0..<16])"

definition SHA1Compress :: "u32 list \<Rightarrow> bytes \<Rightarrow> u32 list" where
  "SHA1Compress r x =
     (let w = sha1_schedule x;
          v = (r ! 0, r ! 1, r ! 2, r ! 3, r ! 4);
          v = fold (\<lambda>i. sha1_step sha1_f1 0x5a827999 (w ! i)) [0..<20] v;
          v = fold (\<lambda>i. sha1_step sha1_f2 0x6ed9eba1 (w ! i)) [20..<40] v;
          v = fold (\<lambda>i. sha1_step sha1_f3 0x8f1bbcdc (w ! i)) [40..<60] v;
          (a, b, c, d, e) = fold (\<lambda>i. sha1_step sha1_f2 0xca62c1d6 (w ! i)) [60..<80] v
      in [r ! 0 + a, r ! 1 + b, r ! 2 + c, r ! 3 + d, r ! 4 + e])"

definition sha1_init :: "u32 list" where
  "sha1_init = [0x67452301, 0xefcdab89, 0x98badcfe, 0x10325476, 0xc3d2e1f0]"

definition BRSHA1 :: "bytes \<Rightarrow> bytes" where
  "BRSHA1 data = image32 (map be32 (md_digest (<) 64 8 SHA1Compress len_be32 (stack 64) sha1_init data))"

section \<open>SHA-224, SHA-256\<close>

definition ch :: "'a::len word \<Rightarrow> 'a word \<Rightarrow> 'a word \<Rightarrow> 'a word" where
  "ch x y z = (x AND y) XOR (NOT x AND z)"

definition maj :: "'a::len word \<Rightarrow> 'a word \<Rightarrow> 'a word \<Rightarrow> 'a word" where
  "maj x y z = (x AND y) XOR (x AND z) XOR (y AND z)"

definition sha256_s0 :: "u32 \<Rightarrow> u32" where
  "sha256_s0 x = ror32 x 2 XOR ror32 x 13 XOR ror32 x 22"

definition sha256_s1 :: "u32 \<Rightarrow> u32" where
  "sha256_s1 x = ror32 x 6 XOR ror32 x 11 XOR ror32 x 25"

definition sha256_s2 :: "u32 \<Rightarrow> u32" where
  "sha256_s2 x = ror32 x 7 XOR ror32 x 18 XOR drop_bit 3 x"

definition sha256_s3 :: "u32 \<Rightarrow> u32" where
  "sha256_s3 x = ror32 x 17 XOR ror32 x 19 XOR drop_bit 10 x"

definition sha256_k :: "u32 list" where
  "sha256_k = concat [
    [0x428a2f98, 0x71374491, 0xb5c0fbcf, 0xe9b5dba5, 0x3956c25b, 0x59f111f1, 0x923f82a4, 0xab1c5ed5],
    [0xd807aa98, 0x12835b01, 0x243185be, 0x550c7dc3, 0x72be5d74, 0x80deb1fe, 0x9bdc06a7, 0xc19bf174],
    [0xe49b69c1, 0xefbe4786, 0x0fc19dc6, 0x240ca1cc, 0x2de92c6f, 0x4a7484aa, 0x5cb0a9dc, 0x76f988da],
    [0x983e5152, 0xa831c66d, 0xb00327c8, 0xbf597fc7, 0xc6e00bf3, 0xd5a79147, 0x06ca6351, 0x14292967],
    [0x27b70a85, 0x2e1b2138, 0x4d2c6dfc, 0x53380d13, 0x650a7354, 0x766a0abb, 0x81c2c92e, 0x92722c85],
    [0xa2bfe8a1, 0xa81a664b, 0xc24b8b70, 0xc76c51a3, 0xd192e819, 0xd6990624, 0xf40e3585, 0x106aa070],
    [0x19a4c116, 0x1e376c08, 0x2748774c, 0x34b0bcb5, 0x391c0cb3, 0x4ed8aa4a, 0x5b9cca4f, 0x682e6ff3],
    [0x748f82ee, 0x78a5636f, 0x84c87814, 0x8cc70208, 0x90befffa, 0xa4506ceb, 0xbef9a3f7, 0xc67178f2]]"

type_synonym 'w sha2_vars = "'w \<times> 'w \<times> 'w \<times> 'w \<times> 'w \<times> 'w \<times> 'w \<times> 'w"

definition sha256_step :: "u32 list \<Rightarrow> nat \<Rightarrow> u32 sha2_vars \<Rightarrow> u32 sha2_vars" where
  "sha256_step w i v = (case v of (a, b, c, d, e, f, g, h) \<Rightarrow>
     let t1 = h + sha256_s1 e + ch e f g + sha256_k ! i + w ! i;
         t2 = sha256_s0 a + maj a b c
     in (t1 + t2, a, b, c, d + t1, e, f, g))"

definition SHA256Compress :: "u32 list \<Rightarrow> bytes \<Rightarrow> u32 list" where
  "SHA256Compress r x =
     (let w = map (\<lambda>i. be32 (u32_at x i)) [0..<16];
          w = fold (\<lambda>i w. w @ [sha256_s3 (w ! (i - 2)) + w ! (i - 7) + sha256_s2 (w ! (i - 15)) + w ! (i - 16)])
                [16..<64] w;
          v = (r ! 0, r ! 1, r ! 2, r ! 3, r ! 4, r ! 5, r ! 6, r ! 7);
          (a, b, c, d, e, f, g, h) = fold (sha256_step w) [0..<64] v
      in [r ! 0 + a, r ! 1 + b, r ! 2 + c, r ! 3 + d, r ! 4 + e, r ! 5 + f, r ! 6 + g, r ! 7 + h])"

definition sha224_init :: "u32 list" where
  "sha224_init = [0xc1059ed8, 0x367cd507, 0x3070dd17, 0xf70e5939, 0xffc00b31, 0x68581511, 0x64f98fa7, 0xbefa4fa4]"

definition BRSHA224 :: "bytes \<Rightarrow> bytes" where
  "BRSHA224 data =
     (let buf = md_digest (<) 64 8 SHA256Compress len_be32 (stack 64) sha224_init data
      in image32 (map be32 (take 7 buf)))"

definition sha256_init :: "u32 list" where
  "sha256_init = [0x6a09e667, 0xbb67ae85, 0x3c6ef372, 0xa54ff53a, 0x510e527f, 0x9b05688c, 0x1f83d9ab, 0x5be0cd19]"

definition BRSHA256 :: "bytes \<Rightarrow> bytes" where
  "BRSHA256 data = image32 (map be32 (md_digest (<) 64 8 SHA256Compress len_be32 (stack 64) sha256_init data))"

definition BRSHA256_2 :: "bytes \<Rightarrow> bytes" where
  "BRSHA256_2 data = (let t = BRSHA256 data in BRSHA256 t)"

section \<open>SHA-384, SHA-512\<close>

definition sha512_S0 :: "u64 \<Rightarrow> u64" where
  "sha512_S0 x = ror64 x 28 XOR ror64 x 34 XOR ror64 x 39"

definition sha512_S1 :: "u64 \<Rightarrow> u64" where
  "sha512_S1 x = ror64 x 14 XOR ror64 x 18 XOR ror64 x 41"

definition sha512_S2 :: "u64 \<Rightarrow> u64" where
  "sha512_S2 x = ror64 x 1 XOR ror64 x 8 XOR drop_bit 7 x"

definition sha512_S3 :: "u64 \<Rightarrow> u64" where
  "sha512_S3 x = ror64 x 19 XOR ror64 x 61 XOR drop_bit 6 x"

definition sha512_k :: "u64 list" where
  "sha512_k = concat [
    [0x428a2f98d728ae22, 0x7137449123ef65cd, 0xb5c0fbcfec4d3b2f, 0xe9b5dba58189dbbc, 0x3956c25bf348b538],
    [0x59f111f1b605d019, 0x923f82a4af194f9b, 0xab1c5ed5da6d8118, 0xd807aa98a3030242, 0x12835b0145706fbe],
    [0x243185be4ee4b28c, 0x550c7dc3d5ffb4e2, 0x72be5d74f27b896f, 0x80deb1fe3b1696b1, 0x9bdc06a725c71235],
    [0xc19bf174cf692694, 0xe49b69c19ef14ad2, 0xefbe4786384f25e3, 0x0fc19dc68b8cd5b5, 0x240ca1cc77ac9c65],
    [0x2de92c6f592b0275, 0x4a7484aa6ea6e483, 0x5cb0a9dcbd41fbd4, 0x76f988da831153b5, 0x983e5152ee66dfab],
    [0xa831c66d2db43210, 0xb00327c898fb213f, 0xbf597fc7beef0ee4, 0xc6e00bf33da88fc2, 0xd5a79147930aa725],
    [0x06ca6351e003826f, 0x142929670a0e6e70, 0x27b70a8546d22ffc, 0x2e1b21385c26c926, 0x4d2c6dfc5ac42aed],
    [0x53380d139d95b3df, 0x650a73548baf63de, 0x766a0abb3c77b2a8, 0x81c2c92e47edaee6, 0x92722c851482353b],
    [0xa2bfe8a14cf10364, 0xa81a664bbc423001, 0xc24b8b70d0f89791, 0xc76c51a30654be30, 0xd192e819d6ef5218],
    [0xd69906245565a910, 0xf40e35855771202a, 0x106aa07032bbd1b8, 0x19a4c116b8d2d0c8, 0x1e376c085141ab53],
    [0x2748774cdf8eeb99, 0x34b0bcb5e19b48a8, 0x391c0cb3c5c95a63, 0x4ed8aa4ae3418acb, 0x5b9cca4f7763e373],
    [0x682e6ff3d6b2b8a3, 0x748f82ee5defb2fc, 0x78a5636f43172f60, 0x84c87814a1f0ab72, 0x8cc702081a6439ec],
    [0x90befffa23631e28, 0xa4506cebde82bde9, 0xbef9a3f7b2c67915, 0xc67178f2e372532b, 0xca273eceea26619c],
    [0xd186b8c721c0c207, 0xeada7dd6cde0eb1e, 0xf57d4f7fee6ed178, 0x06f067aa72176fba, 0x0a637dc5a2c898a6],
    [0x113f9804bef90dae, 0x1b710b35131c471b, 0x28db77f523047d84, 0x32caab7b40c72493, 0x3c9ebe0a15c9bebc],
    [0x431d67c49c100d4c, 0x4cc5d4becb3e42b6, 0x597f299cfc657e2a, 0x5fcb6fab3ad6faec, 0x6c44198c4a475817]]"

definition sha512_step :: "u64 list \<Rightarrow> nat \<Rightarrow> u64 sha2_vars \<Rightarrow> u64 sha2_vars" where
  "sha512_step w i v = (case v of (a, b, c, d, e, f, g, h) \<Rightarrow>
     let t1 = h + sha512_S1 e + ch e f g + sha512_k ! i + w ! i;
         t2 = sha512_S0 a + maj a b c
     in (t1 + t2, a, b, c, d + t1, e, f, g))"

definition SHA512Compress :: "u64 list \<Rightarrow> bytes \<Rightarrow> u64 list" where
  "SHA512Compress r x =
     (let w = map (\<lambda>i. be64 (u64_at x i)) [0..<16];
          w = fold (\<lambda>i w. w @ [sha512_S3 (w ! (i - 2)) + w ! (i - 7) + sha512_S2 (w ! (i - 15)) + w ! (i - 16)])
                [16..<80] w;
          v = (r ! 0, r ! 1, r ! 2, r ! 3, r ! 4, r ! 5, r ! 6, r ! 7);
          (a, b, c, d, e, f, g, h) = fold (sha512_step w) [0..<80] v
      in [r ! 0 + a, r ! 1 + b, r ! 2 + c, r ! 3 + d, r ! 4 + e, r ! 5 + f, r ! 6 + g, r ! 7 + h])"

definition sha384_init :: "u64 list" where
  "sha384_init =
     [0xcbbb9d5dc1059ed8, 0x629a292a367cd507, 0x9159015a3070dd17, 0x152fecd8f70e5939,
      0x67332667ffc00b31, 0x8eb44a8768581511, 0xdb0c2e0d64f98fa7, 0x47b5481dbefa4fa4]"

definition BRSHA384 :: "bytes \<Rightarrow> bytes" where
  "BRSHA384 data =
     (let buf = md_digest (<) 128 16 SHA512Compress len_be64 (stack 128) sha384_init data
      in image64 (map be64 (take 6 buf)))"

definition sha512_init :: "u64 list" where
  "sha512_init =
     [0x6a09e667f3bcc908, 0xbb67ae8584caa73b, 0x3c6ef372fe94f82b, 0xa54ff53a5f1d36f1,
      0x510e527fade682d1, 0x9b05688c2b3e6c1f, 0x1f83d9abfb41bd6b, 0x5be0cd19137e2179]"

definition BRSHA512 :: "bytes \<Rightarrow> bytes" where
  "BRSHA512 data = image64 (map be64 (md_digest (<) 128 16 SHA512Compress len_be64 (stack 128) sha512_init data))"

section \<open>RIPEMD-160 and HASH160\<close>

definition rmd_f :: "u32 \<Rightarrow> u32 \<Rightarrow> u32 \<Rightarrow> u32" where "rmd_f x y z = x XOR y XOR z"
definition rmd_g :: "u32 \<Rightarrow> u32 \<Rightarrow> u32 \<Rightarrow> u32" where "rmd_g x y z = ((x AND y) OR (NOT x AND z))"
definition rmd_h :: "u32 \<Rightarrow> u32 \<Rightarrow> u32 \<Rightarrow> u32" where "rmd_h x y z = (x OR NOT y) XOR z"
definition rmd_i :: "u32 \<Rightarrow> u32 \<Rightarrow> u32 \<Rightarrow> u32" where "rmd_i x y z = ((x AND z) OR (y AND NOT z))"
definition rmd_j :: "u32 \<Rightarrow> u32 \<Rightarrow> u32 \<Rightarrow> u32" where "rmd_j x y z = x XOR (y OR NOT z)"

text \<open>Message indices and shifts of the five rounds, left and right line.\<close>

definition rmd_rl :: "nat list list" where
  "rmd_rl = [
    [0, 1, 2, 3, 4, 5, 6, 7, 8, 9, 10, 11, 12, 13, 14, 15],
    [7, 4, 13, 1, 10, 6, 15, 3, 12, 0, 9, 5, 2, 14, 11, 8],
    [3, 10, 14, 4, 9, 15, 8, 1, 2, 7, 0, 6, 13, 11, 5, 12],
    [1, 9, 11, 10, 0, 8, 12, 4, 13, 3, 7, 15, 14, 5, 6, 2],
    [4, 0, 5, 9, 7, 12, 2, 10, 14, 1, 3, 8, 11, 6, 15, 13]]"

definition rmd_rr :: "nat list list" where
  "rmd_rr = [
    [5, 14, 7, 0, 9, 2, 11, 4, 13, 6, 15, 8, 1, 10, 3, 12],
    [6, 11, 3, 7, 0, 13, 5, 10, 14, 15, 8, 12, 4, 9, 1, 2],
    [15, 5, 1, 3, 7, 14, 6, 9, 11, 8, 12, 2, 10, 0, 4, 13],
    [8, 6, 4, 1, 3, 11, 15, 0, 5, 12, 2, 13, 9, 7, 10, 14],
    [12, 15, 10, 4, 1, 5, 8, 7, 6, 2, 13, 14, 0, 3, 9, 11]]"

definition rmd_sl :: "nat list list" where
  "rmd_sl = [
    [11, 14, 15, 12, 5, 8, 7, 9, 11, 13, 14, 15, 6, 7, 9, 8],
    [7, 6, 8, 13, 11, 9, 7, 15, 7, 12, 15, 9, 11, 7, 13, 12],
    [11, 13, 6, 7, 14, 9, 13, 15, 14, 8, 13, 6, 5, 12, 7, 5],
    [11, 12, 14, 15, 14, 15, 9, 8, 9, 14, 5, 6, 8, 6, 5, 12],
    [9, 15, 5, 11, 6, 8, 13, 12, 5, 12, 13, 14, 11, 8, 5, 6]]"

definition rmd_sr :: "nat list list" where
  "rmd_sr = [
    [8, 9, 9, 11, 13, 15, 15, 5, 7, 7, 8, 11, 14, 14, 12, 6],
    [9, 13, 15, 7, 12, 8, 9, 11, 7, 7, 12, 7, 6, 15, 13, 11],
    [9, 7, 15, 11, 8, 6, 6, 14, 12, 13, 5, 14, 13, 13, 7, 5],
    [15, 5, 8, 11, 14, 14, 6, 14, 6, 9, 12, 9, 12, 5, 15, 8],
    [8, 5, 12, 9, 12, 5, 14, 6, 8, 13, 6, 5, 15, 13, 11, 11]]"

type_synonym rmd_vars = "u32 \<times> u32 \<times> u32 \<times> u32 \<times> u32"

text \<open>The \<open>rmd\<close> macro on one line's variables \<open>(a, b, c, d, e)\<close>.\<close>

definition rmd_step :: "(u32 \<Rightarrow> u32 \<Rightarrow> u32 \<Rightarrow> u32) \<Rightarrow> u32 \<Rightarrow> u32 \<Rightarrow> nat \<Rightarrow> rmd_vars \<Rightarrow> rmd_vars" where
  "rmd_step f k w s v = (case v of (a, b, c, d, e) \<Rightarrow>
     let t = rol32 (a + f b c d + w + k) s + e in (e, t, b, rol32 c 10, d))"

definition rmd_round ::
  "bytes \<Rightarrow> (u32 \<Rightarrow> u32 \<Rightarrow> u32 \<Rightarrow> u32) \<Rightarrow> u32 \<Rightarrow> nat list \<Rightarrow> nat list \<Rightarrow> rmd_vars \<Rightarrow> rmd_vars"
where
  "rmd_round x f k rs ss v = fold (\<lambda>i. rmd_step f k (u32_at x (rs ! i)) (ss ! i)) [0..<16] v"

definition RMDCompress :: "u32 list \<Rightarrow> bytes \<Rightarrow> u32 list" where
  "RMDCompress r x =
     (let l = (r ! 0, r ! 1, r ! 2, r ! 3, r ! 4);
          rr = l;
          l = rmd_round x rmd_f 0x00000000 (rmd_rl ! 0) (rmd_sl ! 0) l;
          rr = rmd_round x rmd_j 0x50a28be6 (rmd_rr ! 0) (rmd_sr ! 0) rr;
          l = rmd_round x rmd_g 0x5a827999 (rmd_rl ! 1) (rmd_sl ! 1) l;
          rr = rmd_round x rmd_i 0x5c4dd124 (rmd_rr ! 1) (rmd_sr ! 1) rr;
          l = rmd_round x rmd_h 0x6ed9eba1 (rmd_rl ! 2) (rmd_sl ! 2) l;
          rr = rmd_round x rmd_h 0x6d703ef3 (rmd_rr ! 2) (rmd_sr ! 2) rr;
          l = rmd_round x rmd_i 0x8f1bbcdc (rmd_rl ! 3) (rmd_sl ! 3) l;
          rr = rmd_round x rmd_g 0x7a6d76e9 (rmd_rr ! 3) (rmd_sr ! 3) rr;
          (al, bl, cl, dl, el) = rmd_round x rmd_j 0xa953fd4e (rmd_rl ! 4) (rmd_sl ! 4) l;
          (ar, br, cr, dr, er) = rmd_round x rmd_f 0x00000000 (rmd_rr ! 4) (rmd_sr ! 4) rr
      in [r ! 1 + cl + dr, r ! 2 + dl + er, r ! 3 + el + ar, r ! 4 + al + br, r ! 0 + bl + cr])"

definition rmd_init :: "u32 list" where
  "rmd_init = [0x67452301, 0xefcdab89, 0x98badcfe, 0x10325476, 0xc3d2e1f0]"

definition BRRMD160 :: "bytes \<Rightarrow> bytes" where
  "BRRMD160 data = image32 (md_digest (\<le>) 64 8 RMDCompress len_le32 (stack 64) rmd_init data)"

definition BRHash160 :: "bytes \<Rightarrow> bytes" where
  "BRHash160 data = (let t = BRSHA256 data in BRRMD160 t)"

section \<open>MD5\<close>

definition md5_F :: "u32 \<Rightarrow> u32 \<Rightarrow> u32 \<Rightarrow> u32" where "md5_F x y z = z XOR (x AND (y XOR z))"
definition md5_G :: "u32 \<Rightarrow> u32 \<Rightarrow> u32 \<Rightarrow> u32" where "md5_G x y z = y XOR (z AND (x XOR y))"
definition md5_H :: "u32 \<Rightarrow> u32 \<Rightarrow> u32 \<Rightarrow> u32" where "md5_H x y z = x XOR y XOR z"
definition md5_I :: "u32 \<Rightarrow> u32 \<Rightarrow> u32 \<Rightarrow> u32" where "md5_I x y z = y XOR (x OR NOT z)"

definition md5_k :: "u32 list" where
  "md5_k = concat [
    [0xd76aa478, 0xe8c7b756, 0x242070db, 0xc1bdceee, 0xf57c0faf, 0x4787c62a, 0xa8304613, 0xfd469501],
    [0x698098d8, 0x8b44f7af, 0xffff5bb1, 0x895cd7be, 0x6b901122, 0xfd987193, 0xa679438e, 0x49b40821],
    [0xf61e2562, 0xc040b340, 0x265e5a51, 0xe9b6c7aa, 0xd62f105d, 0x02441453, 0xd8a1e681, 0xe7d3fbc8],
    [0x21e1cde6, 0xc33707d6, 0xf4d50d87, 0x455a14ed, 0xa9e3e905, 0xfcefa3f8, 0x676f02d9, 0x8d2a4c8a],
    [0xfffa3942, 0x8771f681, 0x6d9d6122, 0xfde5380c, 0xa4beea44, 0x4bdecfa9, 0xf6bb4b60, 0xbebfbc70],
    [0x289b7ec6, 0xeaa127fa, 0xd4ef3085, 0x04881d05, 0xd9d4d039, 0xe6db99e5, 0x1fa27cf8, 0xc4ac5665],
    [0xf4292244, 0x432aff97, 0xab9423a7, 0xfc93a039, 0x655b59c3, 0x8f0ccc92, 0xffeff47d, 0x85845dd1],
    [0x6fa87e4f, 0xfe2ce6e0, 0xa3014314, 0x4e0811a1, 0xf7537e82, 0xbd3af235, 0x2ad7d2bb, 0xeb86d391]]"

definition md5_s :: "nat list" where
  "md5_s = [7, 12, 17, 22, 5, 9, 14, 20, 4, 11, 16, 23, 6, 10, 15, 21]"

type_synonym md5_vars = "u32 \<times> u32 \<times> u32 \<times> u32"

definition md5_step :: "(u32 \<Rightarrow> u32 \<Rightarrow> u32 \<Rightarrow> u32) \<Rightarrow> u32 \<Rightarrow> u32 \<Rightarrow> nat \<Rightarrow> md5_vars \<Rightarrow> md5_vars" where
  "md5_step f x k s v = (case v of (a, b, c, d) \<Rightarrow>
     let a = a + f b c d + x + k; a = rol32 a s; a = a + b in (d, a, b, c))"

definition MD5Compress :: "u32 list \<Rightarrow> bytes \<Rightarrow> u32 list" where
  "MD5Compress r x =
     (let v = (r ! 0, r ! 1, r ! 2, r ! 3);
          v = fold (\<lambda>i. md5_step md5_F (u32_at x i) (md5_k ! i) (md5_s ! (i mod 4))) [0..<16] v;
          v = fold (\<lambda>i. md5_step md5_G (u32_at x ((5 * i + 1) mod 16)) (md5_k ! i) (md5_s ! (4 + i mod 4))) [16..<32] v;
          v = fold (\<lambda>i. md5_step md5_H (u32_at x ((3 * i + 5) mod 16)) (md5_k ! i) (md5_s ! (8 + i mod 4))) [32..<48] v;
          (a, b, c, d) =
            fold (\<lambda>i. md5_step md5_I (u32_at x ((7 * i) mod 16)) (md5_k ! i) (md5_s ! (12 + i mod 4))) [48..<64] v
      in [r ! 0 + a, r ! 1 + b, r ! 2 + c, r ! 3 + d])"

definition md5_init :: "u32 list" where
  "md5_init = [0x67452301, 0xefcdab89, 0x98badcfe, 0x10325476]"

definition BRMD5 :: "bytes \<Rightarrow> bytes" where
  "BRMD5 data = image32 (md_digest (\<le>) 64 8 MD5Compress len_le32 (stack 64) md5_init data)"

section \<open>MurmurHash3\<close>

definition fmix32 :: "u32 \<Rightarrow> u32" where
  "fmix32 h =
     (let h = h XOR drop_bit 16 h; h = h * 0x85ebca6b; h = h XOR drop_bit 13 h;
          h = h * 0xc2b2ae35 in h XOR drop_bit 16 h)"

text \<open>\<open>data[n] << 16\<close> is computed in \<open>int\<close>, which has 32 bits: the byte is promoted, never
  negative, and shifted by at most 16.\<close>

definition BRMurmur3_32 :: "bytes \<Rightarrow> u32 \<Rightarrow> u32" where
  "BRMurmur3_32 data seed =
     (let len = length data; count = len div 4; C1 = 0xcc9e2d51; C2 = 0x1b873593;
          h = fold (\<lambda>i h. let k = u32_at data i * C1; k = rol32 k 15 * C2; h = h XOR k
                           in rol32 h 13 * 5 + 0xe6546b64) [0..<count] seed;
          byte = (\<lambda>j. ucast (data ! (count * 4 + j)) :: u32);
          rest = len mod 4;
          k = (if rest \<ge> 3 then push_bit 16 (byte 2) else 0);
          k = (if rest \<ge> 2 then k XOR push_bit 8 (byte 1) else k);
          h = (if rest \<ge> 1 then let k = k XOR byte 0; k = k * C1 in h XOR rol32 k 15 * C2 else h);
          h = h XOR of_nat len
      in fmix32 h)"

end
