(* ===== verification/Ciphers.thy ===== *)
theory Ciphers
  imports Hashes
begin

text \<open>
  \<^verbatim>\<open>BRCrypto.c\<close>, everything above the digests: HMAC, HMAC-DRBG, Poly1305, ChaCha20, the
  ChaCha20-Poly1305 AEAD, PBKDF2, the Salsa20/8 core, block mixing and scrypt. A hash passed as a
  function pointer is a function argument together with the length it writes. Buffers the C code
  writes through a pointer are returned. Local arrays of machine words are lists of words, and
  the index expressions are those of the code.
\<close>

section \<open>HMAC\<close>

definition xor_u64s :: "u64 \<Rightarrow> bytes \<Rightarrow> bytes" where
  "xor_u64s c x = image64 (map (\<lambda>i. u64_at x i XOR c) [0..<length x div 8])"

definition BRHMAC :: "(bytes \<Rightarrow> bytes) \<Rightarrow> nat \<Rightarrow> bytes \<Rightarrow> bytes \<Rightarrow> bytes" where
  "BRHMAC hash hashLen key data =
     (let blockLen = (if hashLen > 32 then 128 else 64);
          key = (if length key > blockLen then hash key else key);
          kipad = put (replicate blockLen 0) 0 key;
          kipad = xor_u64s 0x3636363636363636 kipad;
          kopad = put (replicate blockLen 0) 0 key;
          kopad = xor_u64s 0x5c5c5c5c5c5c5c5c kopad
      in hash (kopad @ hash (kipad @ data)))"

section \<open>Filling an output buffer block by block\<close>

text \<open>\<open>memcpy(out + i*hashLen, V, (i*hashLen + hashLen <= outLen) ? hashLen : outLen % hashLen)\<close>\<close>

definition fill_block :: "nat \<Rightarrow> nat \<Rightarrow> nat \<Rightarrow> bytes \<Rightarrow> bytes \<Rightarrow> bytes" where
  "fill_block outLen hashLen i V out =
     put out (i * hashLen) (take (if i * hashLen + hashLen \<le> outLen then hashLen else outLen mod hashLen) V)"

section \<open>HMAC-DRBG\<close>

text \<open>The output loop: \<open>hashLen > 0\<close> is asserted by the code.\<close>

function drbg_loop ::
  "(bytes \<Rightarrow> bytes) \<Rightarrow> nat \<Rightarrow> bytes \<Rightarrow> nat \<Rightarrow> nat \<Rightarrow> bytes \<Rightarrow> bytes \<Rightarrow> bytes \<times> bytes"
where
  "drbg_loop hash hashLen K outLen i V out =
     (if i * hashLen < outLen \<and> 0 < hashLen then
        let V = BRHMAC hash hashLen K V in
        drbg_loop hash hashLen K outLen (i + 1) V (fill_block outLen hashLen i V out)
      else (out, V))"
  by pat_completeness auto
termination
  by (relation "measure (\<lambda>(hash, hashLen, K, outLen, i, V, out). outLen - i * hashLen)") auto

declare drbg_loop.simps [simp del]

definition bytes_of :: "bytes option \<Rightarrow> bytes" where
  "bytes_of p = (case p of None \<Rightarrow> [] | Some b \<Rightarrow> b)"

text \<open>Result: the output, and \<open>K\<close> and \<open>V\<close> for the next call. A null \<open>seed\<close>, \<open>nonce\<close> or \<open>ps\<close> is
  \<open>None\<close>, and its length is then zero, as the assertions demand.\<close>

definition BRHMACDRBG ::
  "bytes \<Rightarrow> bytes \<Rightarrow> bytes \<Rightarrow> (bytes \<Rightarrow> bytes) \<Rightarrow> nat \<Rightarrow> bytes option \<Rightarrow> bytes option \<Rightarrow> bytes option \<Rightarrow>
   bytes \<times> bytes \<times> bytes"
where
  "BRHMACDRBG out K V hash hashLen seed nonce ps =
     (let seeded = (seed \<noteq> None \<or> nonce \<noteq> None \<or> ps \<noteq> None);
          (K, V) = (if seeded then (replicate hashLen 0x00, replicate hashLen 0x01) else (K, V));
          entropy = bytes_of seed @ bytes_of nonce @ bytes_of ps;
          K = BRHMAC hash hashLen K (V @ [0x00] @ entropy);
          V = BRHMAC hash hashLen K V;
          (K, V) = (if seeded then
                      let K = BRHMAC hash hashLen K (V @ [0x01] @ entropy)
                      in (K, BRHMAC hash hashLen K V)
                    else (K, V));
          (out, V) = drbg_loop hash hashLen K (length out) 0 V out
      in (out, K, V))"

section \<open>Poly1305\<close>

type_synonym poly_acc = "u32 \<times> u32 \<times> u32 \<times> u32 \<times> u32"

text \<open>The five limbs of a 16 byte block, the high bit excluded.\<close>

definition poly_limbs :: "u32 \<Rightarrow> u32 \<Rightarrow> u32 \<Rightarrow> u32 \<Rightarrow> poly_acc" where
  "poly_limbs t0 t1 t2 t3 =
     (t0 AND 0x03ffffff,
      (drop_bit 26 t0 OR push_bit 6 t1) AND 0x03ffffff,
      (drop_bit 20 t1 OR push_bit 12 t2) AND 0x03ffffff,
      (drop_bit 14 t2 OR push_bit 18 t3) AND 0x03ffffff,
      drop_bit 8 t3)"

definition poly_r :: "bytes \<Rightarrow> poly_acc" where
  "poly_r key32 =
     (let t0 = u32_at key32 0; t1 = u32_at key32 1; t2 = u32_at key32 2; t3 = u32_at key32 3
      in (t0 AND 0x03ffffff,
          (drop_bit 26 t0 OR push_bit 6 t1) AND 0x03ffff03,
          (drop_bit 20 t1 OR push_bit 12 t2) AND 0x03ffc0ff,
          (drop_bit 14 t2 OR push_bit 18 t3) AND 0x03f03fff,
          drop_bit 8 t3 AND 0x000fffff))"

definition poly_mul :: "poly_acc \<Rightarrow> poly_acc \<Rightarrow> poly_acc" where
  "poly_mul h r = (case (h, r) of ((h0, h1, h2, h3, h4), (r0, r1, r2, r3, r4)) \<Rightarrow>
     let m = (\<lambda>a b. (ucast a :: u64) * ucast (b :: u32));
         d0 = m h0 r0 + m h1 r4 * 5 + m h2 r3 * 5 + m h3 r2 * 5 + m h4 r1 * 5;
         d1 = m h0 r1 + m h1 r0 + m h2 r4 * 5 + m h3 r3 * 5 + m h4 r2 * 5;
         d2 = m h0 r2 + m h1 r1 + m h2 r0 + m h3 r4 * 5 + m h4 r3 * 5;
         d3 = m h0 r3 + m h1 r2 + m h2 r1 + m h3 r0 + m h4 r4 * 5;
         d4 = m h0 r4 + m h1 r3 + m h2 r2 + m h3 r1 + m h4 r0;
         carry = (\<lambda>d. ucast (ucast (drop_bit 26 d) :: u32) :: u64);
         d1 = d1 + carry d0; h1 = ucast (d1 AND 0x03ffffff);
         d2 = d2 + carry d1; h2 = ucast (d2 AND 0x03ffffff);
         d3 = d3 + carry d2; h3 = ucast (d3 AND 0x03ffffff);
         d4 = d4 + carry d3; h4 = ucast (d4 AND 0x03ffffff);
         h0 = ucast ((d0 AND 0x03ffffff) + ucast ((ucast (drop_bit 26 d4) :: u32) * 5));
         h1 = h1 + drop_bit 26 h0;
         h0 = h0 AND 0x03ffffff
     in (h0, h1, h2, h3, h4))"

text \<open>One turn of the block loop at offset \<open>i\<close>.\<close>

definition poly_block :: "poly_acc \<Rightarrow> bytes \<Rightarrow> nat \<Rightarrow> poly_acc \<Rightarrow> poly_acc" where
  "poly_block r data i h =
     (let len = length data;
          x = (if i + 16 > len
               then (put (put (replicate 16 0) 0 (drop i data)) (len - i) (replicate (16 - (len - i)) 0))
                      [len - i := 1]
               else take 16 (drop i data));
          (a0, a1, a2, a3, a4) = poly_limbs (u32_at x 0) (u32_at x 1) (u32_at x 2) (u32_at x 3);
          (h0, h1, h2, h3, h4) = h
      in poly_mul (h0 + a0, h1 + a1, h2 + a2, h3 + a3,
           h4 + (a4 OR (if i + 16 \<le> len then push_bit 24 1 else 0))) r)"

definition poly_final :: "bytes \<Rightarrow> poly_acc \<Rightarrow> poly_acc" where
  "poly_final key32 h = (case h of (h0, h1, h2, h3, h4) \<Rightarrow>
     let h2 = h2 + drop_bit 26 h1; h1 = h1 AND 0x03ffffff;
         h3 = h3 + drop_bit 26 h2; h2 = h2 AND 0x03ffffff;
         h4 = h4 + drop_bit 26 h3; h3 = h3 AND 0x03ffffff;
         h0 = h0 + drop_bit 26 h4 * 5; h4 = h4 AND 0x03ffffff;
         h1 = h1 + drop_bit 26 h0; h0 = h0 AND 0x03ffffff;
         t0 = h0 + 5; t1 = h1 + drop_bit 26 t0; t0 = t0 AND 0x03ffffff;
         t2 = h2 + drop_bit 26 t1; t1 = t1 AND 0x03ffffff;
         t3 = h3 + drop_bit 26 t2; t2 = t2 AND 0x03ffffff;
         t4 = h4 + drop_bit 26 t3 - push_bit 26 1; t3 = t3 AND 0x03ffffff;
         b = drop_bit 31 t4 - 1;
         h0 = (h0 AND NOT b) OR (t0 AND b); h1 = (h1 AND NOT b) OR (t1 AND b);
         h2 = (h2 AND NOT b) OR (t2 AND b); h3 = (h3 AND NOT b) OR (t3 AND b);
         h4 = (h4 AND NOT b) OR (t4 AND b);
         h0 = h0 OR push_bit 26 h1; h1 = drop_bit 6 h1 OR push_bit 20 h2;
         h2 = drop_bit 12 h2 OR push_bit 14 h3; h3 = drop_bit 18 h3 OR push_bit 8 h4;
         d0 = (ucast h0 :: u64) + ucast (u32_at (drop 16 key32) 0);
         d1 = (ucast h1 :: u64) + ucast (u32_at (drop 16 key32) 1) + drop_bit 32 d0;
         d2 = (ucast h2 :: u64) + ucast (u32_at (drop 16 key32) 2) + drop_bit 32 d1;
         d3 = (ucast h3 :: u64) + ucast (u32_at (drop 16 key32) 3) + drop_bit 32 d2
     in (ucast d0, ucast d1, ucast d2, ucast d3, h4))"

definition Poly1305Compress :: "poly_acc \<Rightarrow> bytes \<Rightarrow> bytes \<Rightarrow> bool \<Rightarrow> poly_acc" where
  "Poly1305Compress h key32 data final =
     (let r = poly_r key32;
          h = fold (\<lambda>i. poly_block r data (i * 16)) [0..<(length data + 15) div 16] h
      in if final then poly_final key32 h else h)"

definition poly_mac :: "poly_acc \<Rightarrow> bytes" where
  "poly_mac h = (case h of (h0, h1, h2, h3, h4) \<Rightarrow> image32 [h0, h1, h2, h3])"

definition BRPoly1305 :: "bytes \<Rightarrow> bytes \<Rightarrow> bytes" where
  "BRPoly1305 key32 data = poly_mac (Poly1305Compress (0, 0, 0, 0, 0) key32 data True)"

section \<open>ChaCha20\<close>

text \<open>\<open>x[a] += x[b]\<close>, \<open>x[d] = rol32(x[d] ^ x[a], n)\<close>, and the \<open>qr\<close> macro on four of the sixteen
  variables.\<close>

definition add_into :: "nat \<Rightarrow> nat \<Rightarrow> u32 list \<Rightarrow> u32 list" where
  "add_into a b x = x[a := x ! a + x ! b]"

definition xor_rol :: "nat \<Rightarrow> nat \<Rightarrow> nat \<Rightarrow> u32 list \<Rightarrow> u32 list" where
  "xor_rol d a n x = x[d := rol32 (x ! d XOR x ! a) n]"

definition qr :: "nat \<Rightarrow> nat \<Rightarrow> nat \<Rightarrow> nat \<Rightarrow> u32 list \<Rightarrow> u32 list" where
  "qr a b c d x =
     (let x = add_into a b x; x = xor_rol d a 16 x; x = add_into c d x; x = xor_rol b c 12 x;
          x = add_into a b x; x = xor_rol d a 8 x; x = add_into c d x; x = xor_rol b c 7 x
      in x)"

definition chacha_double_round :: "u32 list \<Rightarrow> u32 list" where
  "chacha_double_round x =
     (let x = qr 0 4 8 12 x; x = qr 1 5 9 13 x; x = qr 2 6 10 14 x; x = qr 3 7 11 15 x;
          x = qr 0 5 10 15 x; x = qr 1 6 11 12 x; x = qr 2 7 8 13 x
      in qr 3 4 9 14 x)"

definition sigma :: bytes where
  "sigma = [0x65, 0x78, 0x70, 0x61, 0x6e, 0x64, 0x20, 0x33, 0x32, 0x2d, 0x62, 0x79, 0x74, 0x65, 0x20, 0x6b]"

definition chacha_init :: "bytes \<Rightarrow> bytes \<Rightarrow> u64 \<Rightarrow> u32 list" where
  "chacha_init key32 iv8 counter =
     map (u32_at sigma) [0..<4] @ map (u32_at key32) [0..<8] @
     [ucast counter, ucast (drop_bit 32 counter)] @ map (u32_at iv8) [0..<2]"

text \<open>The loop over the bytes: the state \<open>s\<close>, the key stream block \<open>b\<close> and the output so far.\<close>

definition chacha_byte :: "bytes \<Rightarrow> nat \<Rightarrow> u32 list \<times> bytes \<times> bytes \<Rightarrow> u32 list \<times> bytes \<times> bytes" where
  "chacha_byte data i st = (case st of (s, b, out) \<Rightarrow>
     let (s, b) =
       (if i mod 64 = 0 then
          let x = (chacha_double_round ^^ 10) s;
              b = image32 (map2 (+) s x);
              s = s[12 := s ! 12 + 1];
              s = (if s ! 12 = 0 then s[13 := s ! 13 + 1] else s)
          in (s, b)
        else (s, b))
     in (s, b, out[i := data ! i XOR b ! (i mod 64)]))"

definition BRChacha20 :: "bytes \<Rightarrow> bytes \<Rightarrow> bytes \<Rightarrow> bytes \<Rightarrow> u64 \<Rightarrow> bytes" where
  "BRChacha20 out key32 iv8 data counter =
     (case fold (chacha_byte data) [0..<length data] (chacha_init key32 iv8 counter, replicate 64 0, out)
      of (s, b, out) \<Rightarrow> out)"

section \<open>ChaCha20-Poly1305\<close>

definition UINT32_MAX :: nat where "UINT32_MAX = 2 ^ 32 - 1"

text \<open>The part of the MAC the two directions share: the one-time key, the additional data, the
  cipher text and the two lengths.\<close>

definition aead_key :: "bytes \<Rightarrow> bytes \<Rightarrow> bytes" where
  "aead_key key32 nonce12 =
     (let counter = push_bit 32 (ucast (u32_at nonce12 0)) :: u64
      in BRChacha20 (replicate 32 0) key32 (drop 4 nonce12) (replicate 32 0) counter)"

definition poly_padded :: "bytes \<Rightarrow> bytes \<Rightarrow> poly_acc \<Rightarrow> poly_acc" where
  "poly_padded macKey bs h =
     (let n = length bs;
          h = Poly1305Compress h macKey (take (n div 16 * 16) bs) False;
          pad = put (replicate 16 0) 0 (take (n mod 16) (drop (n div 16 * 16) bs))
      in if n mod 16 \<noteq> 0 then Poly1305Compress h macKey pad False else h)"

definition aead_mac :: "bytes \<Rightarrow> bytes \<Rightarrow> bytes \<Rightarrow> poly_acc" where
  "aead_mac macKey ad cipher =
     (let h = poly_padded macKey ad (0, 0, 0, 0, 0);
          h = poly_padded macKey cipher h;
          pad = image64 [of_nat (length ad), of_nat (length cipher)]
      in Poly1305Compress h macKey pad True)"

text \<open>\<open>out\<close> is the caller's buffer of \<open>outLen\<close> bytes, \<open>None\<close> for \<open>NULL\<close>; the result is the returned
  size and the buffer afterwards.\<close>

definition BRChacha20Poly1305AEADEncrypt ::
  "bytes option \<Rightarrow> bytes \<Rightarrow> bytes \<Rightarrow> bytes \<Rightarrow> bytes \<Rightarrow> nat \<times> bytes option"
where
  "BRChacha20Poly1305AEADEncrypt out key32 nonce12 data ad =
     (let dataLen = length data in
      case out of
        None \<Rightarrow> (dataLen + 16, None)
      | Some o0 \<Rightarrow>
          if length o0 < dataLen + 16 \<or> dataLen div 64 \<ge> UINT32_MAX then (0, Some o0)
          else
            let counter = push_bit 32 (ucast (u32_at nonce12 0)) :: u64;
                macKey = aead_key key32 nonce12;
                o1 = BRChacha20 o0 key32 (drop 4 nonce12) data (counter + 1);
                h = aead_mac macKey ad (take dataLen o1)
            in (dataLen + 16, Some (put o1 dataLen (poly_mac h))))"

definition BRChacha20Poly1305AEADDecrypt ::
  "bytes option \<Rightarrow> bytes \<Rightarrow> bytes \<Rightarrow> bytes \<Rightarrow> bytes \<Rightarrow> nat \<times> bytes option"
where
  "BRChacha20Poly1305AEADDecrypt out key32 nonce12 data ad =
     (let dataLen = length data in
      case out of
        None \<Rightarrow> (if dataLen < 16 then 0 else dataLen - 16, None)
      | Some o0 \<Rightarrow>
          if dataLen < 16 \<or> (dataLen - 16) div 64 \<ge> UINT32_MAX \<or> length o0 + 16 < dataLen then (0, Some o0)
          else
            let outLen = dataLen - 16;
                counter = push_bit 32 (ucast (u32_at nonce12 0)) :: u64;
                macKey = aead_key key32 nonce12;
                h = aead_mac macKey ad (take outLen data);
                mac = take 16 (drop outLen data);
                m = (\<lambda>i. u32_at mac i XOR u32_at (poly_mac h) i);
                differs = (m 0 OR m 1 OR m 2 OR (if m 3 \<noteq> 0 then 1 else 0) \<noteq> 0);
                outLen = (if differs then 0 else outLen)
            in (outLen, Some (BRChacha20 o0 key32 (drop 4 nonce12) (take outLen data) (counter + 1))))"

section \<open>PBKDF2\<close>

text \<open>\<open>U\<close> and \<open>T\<close> after \<open>rounds - 1\<close> further rounds, the words of \<open>T\<close> xored one by one.\<close>

definition pbkdf2_round :: "(bytes \<Rightarrow> bytes) \<Rightarrow> nat \<Rightarrow> bytes \<Rightarrow> bytes \<times> bytes \<Rightarrow> bytes \<times> bytes" where
  "pbkdf2_round hash hashLen pw UT = (case UT of (U, T) \<Rightarrow>
     let U = BRHMAC hash hashLen pw U
     in (U, image32 (map (\<lambda>j. u32_at T j XOR u32_at U j) [0..<hashLen div 4])))"

definition pbkdf2_block :: "(bytes \<Rightarrow> bytes) \<Rightarrow> nat \<Rightarrow> bytes \<Rightarrow> bytes \<Rightarrow> nat \<Rightarrow> nat \<Rightarrow> bytes" where
  "pbkdf2_block hash hashLen pw salt rounds i =
     (let j = be32 (of_nat (i + 1));
          U = BRHMAC hash hashLen pw (salt @ le_bytes 4 j);
          T = U
      in snd ((pbkdf2_round hash hashLen pw ^^ (rounds - 1)) (U, T)))"

definition BRPBKDF2 :: "bytes \<Rightarrow> (bytes \<Rightarrow> bytes) \<Rightarrow> nat \<Rightarrow> bytes \<Rightarrow> bytes \<Rightarrow> nat \<Rightarrow> bytes" where
  "BRPBKDF2 dk hash hashLen pw salt rounds =
     (let dkLen = length dk
      in fold (\<lambda>i. fill_block dkLen hashLen i (pbkdf2_block hash hashLen pw salt rounds i))
           [0..<(dkLen + hashLen - 1) div hashLen] dk)"


section \<open>Salsa20/8 and scrypt\<close>

text \<open>\<open>x[d] ^= rol32(x[a] + x[b], n)\<close>\<close>

definition sx :: "nat \<Rightarrow> nat \<Rightarrow> nat \<Rightarrow> nat \<Rightarrow> u32 list \<Rightarrow> u32 list" where
  "sx d a b n x = x[d := x ! d XOR rol32 (x ! a + x ! b) n]"

definition salsa_double_round :: "u32 list \<Rightarrow> u32 list" where
  "salsa_double_round x =
     (let x = sx 4 0 12 7 x; x = sx 8 4 0 9 x; x = sx 12 8 4 13 x; x = sx 0 12 8 18 x;
          x = sx 9 5 1 7 x; x = sx 13 9 5 9 x; x = sx 1 13 9 13 x; x = sx 5 1 13 18 x;
          x = sx 14 10 6 7 x; x = sx 2 14 10 9 x; x = sx 6 2 14 13 x; x = sx 10 6 2 18 x;
          x = sx 3 15 11 7 x; x = sx 7 3 15 9 x; x = sx 11 7 3 13 x; x = sx 15 11 7 18 x;
          x = sx 1 0 3 7 x; x = sx 2 1 0 9 x; x = sx 3 2 1 13 x; x = sx 0 3 2 18 x;
          x = sx 6 5 4 7 x; x = sx 7 6 5 9 x; x = sx 4 7 6 13 x; x = sx 5 4 7 18 x;
          x = sx 11 10 9 7 x; x = sx 8 11 10 9 x; x = sx 9 8 11 13 x; x = sx 10 9 8 18 x;
          x = sx 12 15 14 7 x; x = sx 13 12 15 9 x; x = sx 14 13 12 13 x; x = sx 15 14 13 18 x
      in x)"

definition salsa20_8 :: "u32 list \<Rightarrow> u32 list" where
  "salsa20_8 b = map2 (+) b ((salsa_double_round ^^ 4) b)"

text \<open>The view of a \<open>uint64_t\<close> array as \<open>uint32_t\<close>, and back.\<close>

definition to_u32s :: "u64 list \<Rightarrow> u32 list" where
  "to_u32s ws = concat (map (\<lambda>w. [ucast w, ucast (drop_bit 32 w)]) ws)"

fun to_u64s :: "u32 list \<Rightarrow> u64 list" where
  "to_u64s (a # b # ws) = (ucast a OR push_bit 32 (ucast b)) # to_u64s ws"
| "to_u64s _ = []"

definition xor_salsa :: "u64 list \<Rightarrow> u64 list \<Rightarrow> nat \<Rightarrow> u64 list" where
  "xor_salsa b src off =
     (let b = map (\<lambda>j. b ! j XOR src ! (off + j)) [0..<8] in to_u64s (salsa20_8 (to_u32s b)))"

text \<open>The loop counter \<open>i\<close> of the code is \<open>2 * k\<close> here. Result: \<open>dest\<close>; \<open>b\<close> is scratch space.\<close>

definition blockmix_step :: "u64 list \<Rightarrow> nat \<Rightarrow> nat \<Rightarrow> u64 list \<times> u64 list \<Rightarrow> u64 list \<times> u64 list" where
  "blockmix_step src r k st = (case st of (dest, b) \<Rightarrow>
     let i = 2 * k;
         b = xor_salsa b src (i * 8);
         dest = put dest (i * 4) b;
         b = xor_salsa b src (i * 8 + 8);
         dest = put dest (i * 4 + r * 8) b
     in (dest, b))"

definition blockmix_salsa8 :: "u64 list \<Rightarrow> u64 list \<Rightarrow> nat \<Rightarrow> u64 list" where
  "blockmix_salsa8 dest src r =
     (let b = take 8 (drop ((2 * r - 1) * 8) src)
      in fst (fold (blockmix_step src r) [0..<r] (dest, b)))"

text \<open>The first loop of \<open>BRScrypt\<close> fills \<open>v\<close>, two rows a turn; a store past the end of \<open>v\<close>, which
  an odd \<open>n\<close> would cause, is undefined.\<close>

definition store_row :: "u64 list \<Rightarrow> nat \<Rightarrow> u64 list \<Rightarrow> u64 list run" where
  "store_row v off row = (if off + length row \<le> length v then Some (put v off row) else None)"

fun scrypt_fill :: "nat \<Rightarrow> nat \<Rightarrow> nat \<Rightarrow> u64 list \<times> u64 list \<times> u64 list \<Rightarrow> (u64 list \<times> u64 list \<times> u64 list) run" where
  "scrypt_fill r 0 j st = Some st"
| "scrypt_fill r (Suc turns) j st = do {
     let (v, x, y) = st;
     v \<leftarrow> store_row v (j * (16 * r)) x;
     let y = blockmix_salsa8 y x r;
     v \<leftarrow> store_row v ((j + 1) * (16 * r)) y;
     let x = blockmix_salsa8 x y r;
     scrypt_fill r turns (j + 2) (v, x, y)
   }"

text \<open>\<open>x[k] ^= v[m*(16*r) + k]\<close> with \<open>m = x[(2*r - 1)*8] & (n - 1)\<close>\<close>

definition scrypt_xor :: "nat \<Rightarrow> nat \<Rightarrow> u64 list \<Rightarrow> u64 list \<Rightarrow> u64 list run" where
  "scrypt_xor n r v x = do {
     let m = unat (x ! ((2 * r - 1) * 8) AND (of_nat n - 1));
     row \<leftarrow> slice v (m * (16 * r)) (16 * r);
     Some (map2 (XOR) x row)
   }"

fun scrypt_mix :: "nat \<Rightarrow> nat \<Rightarrow> nat \<Rightarrow> u64 list \<Rightarrow> u64 list \<times> u64 list \<Rightarrow> (u64 list \<times> u64 list) run" where
  "scrypt_mix n r 0 v st = Some st"
| "scrypt_mix n r (Suc turns) v st = do {
     let (x, y) = st;
     x \<leftarrow> scrypt_xor n r v x;
     let y = blockmix_salsa8 y x r;
     y \<leftarrow> scrypt_xor n r v y;
     let x = blockmix_salsa8 x y r;
     scrypt_mix n r turns v (x, y)
   }"

text \<open>The body of the loop over \<open>p\<close>: both loops step by two, so they make \<open>(n + 1) div 2\<close> turns.\<close>

definition scrypt_romix :: "nat \<Rightarrow> nat \<Rightarrow> u64 list \<times> u64 list \<times> u64 list \<Rightarrow> (u64 list \<times> u64 list \<times> u64 list) run" where
  "scrypt_romix n r st = do {
     (v, x, y) \<leftarrow> scrypt_fill r ((n + 1) div 2) 0 st;
     (x, y) \<leftarrow> scrypt_mix n r ((n + 1) div 2) v (x, y);
     Some (v, x, y)
   }"

fun scrypt_lanes :: "nat \<Rightarrow> nat \<Rightarrow> nat \<Rightarrow> nat \<Rightarrow> u64 list \<times> u64 list \<Rightarrow> bytes \<Rightarrow> bytes run" where
  "scrypt_lanes n r 0 i vy b = Some b"
| "scrypt_lanes n r (Suc p) i vy b = do {
     let (v, y) = vy;
     let x = to_u64s (map (\<lambda>j. u32_at b (i * 32 * r + j)) [0..<32 * r]);
     (v, x, y) \<leftarrow> scrypt_romix n r (v, x, y);
     scrypt_lanes n r p (i + 1) (v, y) (put b (i * 32 * r * 4) (image64 x))
   }"

text \<open>\<open>128*r*n\<close>, the size of \<open>v\<close>, is computed in \<open>unsigned\<close> arithmetic.\<close>

definition BRScrypt :: "bytes \<Rightarrow> bytes \<Rightarrow> bytes \<Rightarrow> u32 \<Rightarrow> u32 \<Rightarrow> u32 \<Rightarrow> bytes run" where
  "BRScrypt dk pw salt n r p = do {
     let v = replicate (unat (128 * r * n) div 8) 0;
     let y = replicate (16 * unat r) 0;
     let b = BRPBKDF2 (replicate (4 * unat (32 * r * p)) 0) BRSHA256 32 pw salt 1;
     b \<leftarrow> scrypt_lanes (unat n) (unat r) (unat p) 0 (v, y) b;
     Some (BRPBKDF2 dk BRSHA256 32 pw b 1)
   }"

end
