(* ===== verification/HashSpec.thy ===== *)
theory HashSpec
  imports Hashes
begin

text \<open>
  The digests of \<^verbatim>\<open>BRCrypto.c\<close> against their standards. \<open>md_pad\<close> is the padded message (the
  message, \<open>0x80\<close>, the least number of zeros, the length field) and \<open>md_spec\<close> folds the
  compression over its blocks; \<open>md_hash.digest_correct\<close> shows that the driver of the code, which
  never builds the padded message, computes it, for every message length and every initial
  content of the stack buffer. The byte swaps of the code are shown to be the big endian images.
\<close>

section \<open>Byte swaps\<close>

lemma bit_ff: "bit (0xff :: 'a::len word) k \<longleftrightarrow> k < 8 \<and> k < LENGTH('a)"
proof -
  have "(0xff :: 'a word) = mask 8" by (simp add: mask_eq_exp_minus_1)
  then show ?thesis by (simp only: bit_mask_iff) auto
qed

lemma bit_byte_mask:
  "bit (w AND 0xff :: u32) k \<longleftrightarrow> k < 8 \<and> bit w k"
  "bit (w AND 0xff00 :: u32) k \<longleftrightarrow> 8 \<le> k \<and> k < 16 \<and> bit w k"
  "bit (w AND 0xff0000 :: u32) k \<longleftrightarrow> 16 \<le> k \<and> k < 24 \<and> bit w k"
  "bit (w AND 0xff000000 :: u32) k \<longleftrightarrow> 24 \<le> k \<and> bit w k"
proof -
  have shifted: "0xff00 = push_bit 8 (0xff :: u32)" "0xff0000 = push_bit 16 (0xff :: u32)"
      "0xff000000 = push_bit 24 (0xff :: u32)"
    by simp_all
  show "bit (w AND 0xff :: u32) k \<longleftrightarrow> k < 8 \<and> bit w k"
    unfolding bit_and_iff bit_ff by auto
  show "bit (w AND 0xff00 :: u32) k \<longleftrightarrow> 8 \<le> k \<and> k < 16 \<and> bit w k"
    "bit (w AND 0xff0000 :: u32) k \<longleftrightarrow> 16 \<le> k \<and> k < 24 \<and> bit w k"
    "bit (w AND 0xff000000 :: u32) k \<longleftrightarrow> 24 \<le> k \<and> bit w k"
    unfolding shifted bit_and_iff bit_push_bit_iff bit_ff
    using bit_imp_le_length [of w k] by auto
qed

lemma bit_be32:
  assumes "i < 4" "j < 8"
  shows "bit (be32 w) (8 * i + j) \<longleftrightarrow> bit w (8 * (3 - i) + j)"
proof -
  consider "i = 0" | "i = 1" | "i = 2" | "i = 3" using assms(1) by linarith
  then show ?thesis
    using assms(2) unfolding be32_def bit_or_iff bit_push_bit_iff bit_drop_bit_eq o_def bit_byte_mask
    by cases (auto simp: add.commute dest: bit_imp_le_length)
qed

lemma le_bytes_be32: "le_bytes 4 (be32 w) = be_bytes 4 w"
proof (rule nth_equalityI)
  fix i assume i: "i < length (le_bytes 4 (be32 w))"
  show "le_bytes 4 (be32 w) ! i = be_bytes 4 w ! i"
  proof (rule bit_word_eqI)
    fix j :: nat assume j: "j < LENGTH(8)"
    have "be_bytes 4 w ! i = le_bytes 4 w ! (3 - i)"
      using i by (simp add: be_bytes_def rev_nth)
    then show "bit (le_bytes 4 (be32 w) ! i) j \<longleftrightarrow> bit (be_bytes 4 w ! i) j"
      using i j by (simp add: bit_nth_le_bytes bit_be32)
  qed
qed simp

lemma be32_be32 [simp]: "be32 (be32 w) = w"
proof -
  have "le_bytes 4 (be32 (be32 w)) = le_bytes 4 w"
    by (simp only: le_bytes_be32 be_bytes_def rev_rev_ident)
  then show ?thesis by (simp add: le_bytes_inject)
qed

lemma be32_u32_at:
  assumes "4 * i + 4 \<le> length x"
  shows "be32 (u32_at x i) = be_word (take 4 (drop (4 * i) x))"
proof -
  have len: "length (take 4 (drop (4 * i) x)) = 4" using assms by simp
  have "le_bytes 4 (be32 (u32_at x i)) = rev (take 4 (drop (4 * i) x))"
    using len by (simp add: le_bytes_be32 be_bytes_def u32_at_def codec_simps)
  moreover have "le_bytes 4 (be_word (take 4 (drop (4 * i) x)) :: u32) = rev (take 4 (drop (4 * i) x))"
    using len by (simp add: be_word_def codec_simps)
  ultimately have "le_bytes 4 (be32 (u32_at x i)) = le_bytes 4 (be_word (take 4 (drop (4 * i) x)) :: u32)" by simp
  then show ?thesis by (rule le_bytes_inject [THEN iffD1, rotated]) simp
qed

lemma bit_be64:
  assumes "i < 8" "j < 8"
  shows "bit (be64 w) (8 * i + j) \<longleftrightarrow> bit w (8 * (7 - i) + j)"
proof (cases "i < 4")
  case True
  have "bit (be64 w) (8 * i + j) \<longleftrightarrow> bit (be32 (ucast (drop_bit 32 w))) (8 * i + j)"
    using True assms(2) by (auto simp: be64_def bit_or_iff bit_push_bit_iff bit_unsigned_iff)
  also have "\<dots> \<longleftrightarrow> bit w (32 + (8 * (3 - i) + j))"
    using True assms(2) by (auto simp: bit_be32 bit_unsigned_iff bit_drop_bit_eq)
  also have "32 + (8 * (3 - i) + j) = 8 * (7 - i) + j" using True by simp
  finally show ?thesis .
next
  case False
  then have e: "8 * i + j = 32 + (8 * (i - 4) + j)" by simp
  have "bit (be64 w) (8 * i + j) \<longleftrightarrow> bit (be32 (ucast w)) (8 * (i - 4) + j)"
    unfolding e using assms False
    by (auto simp: be64_def bit_or_iff bit_push_bit_iff bit_unsigned_iff dest: bit_imp_le_length)
  also have "\<dots> \<longleftrightarrow> bit w (8 * (3 - (i - 4)) + j)"
    using assms False by (auto simp: bit_be32 bit_unsigned_iff)
  also have "3 - (i - 4) = 7 - i" using False by simp
  finally show ?thesis .
qed

lemma le_bytes_be64: "le_bytes 8 (be64 w) = be_bytes 8 w"
proof (rule nth_equalityI)
  fix i assume i: "i < length (le_bytes 8 (be64 w))"
  show "le_bytes 8 (be64 w) ! i = be_bytes 8 w ! i"
  proof (rule bit_word_eqI)
    fix j :: nat assume j: "j < LENGTH(8)"
    have "be_bytes 8 w ! i = le_bytes 8 w ! (7 - i)"
      using i by (simp add: be_bytes_def rev_nth)
    then show "bit (le_bytes 8 (be64 w) ! i) j \<longleftrightarrow> bit (be_bytes 8 w ! i) j"
      using i j by (simp add: bit_nth_le_bytes bit_be64)
  qed
qed simp

lemma len_be32_is_bit_length: "len_be32 l = be_bytes 8 (l * 8)"
proof -
  have w: "l * 8 = push_bit 3 l" by (simp add: push_bit_eq_mult)
  have "le_bytes 8 (push_bit 3 l) = le_bytes 4 (ucast (push_bit 3 l) :: u32) @ le_bytes 4 (ucast (drop_bit 29 l) :: u32)"
  proof (rule nth_equalityI)
    fix i assume i: "i < length (le_bytes 8 (push_bit 3 l))"
    show "le_bytes 8 (push_bit 3 l) ! i =
      (le_bytes 4 (ucast (push_bit 3 l) :: u32) @ le_bytes 4 (ucast (drop_bit 29 l) :: u32)) ! i"
    proof (rule bit_word_eqI)
      fix j :: nat assume j: "j < LENGTH(8)"
      have "\<not> i < 4 \<Longrightarrow> 29 + (8 * (i - 4) + j) = 8 * i + j - 3" by simp
      then show "bit (le_bytes 8 (push_bit 3 l) ! i) j \<longleftrightarrow>
        bit ((le_bytes 4 (ucast (push_bit 3 l) :: u32) @ le_bytes 4 (ucast (drop_bit 29 l) :: u32)) ! i) j"
        using i j
        by (cases "i < 4")
          (auto simp: nth_append bit_nth_le_bytes bit_push_bit_iff bit_unsigned_iff bit_drop_bit_eq)
    qed
  qed simp
  then show ?thesis
    by (simp add: len_be32_def image32_def le_bytes_be32 w be_bytes_def)
qed

lemma len_le32_is_bit_length: "len_le32 l = le_bytes 8 (l * 8)"
proof -
  have "rev (len_be32 l) = le_bytes 8 (l * 8)"
    by (simp add: len_be32_is_bit_length be_bytes_def)
  then show ?thesis
    by (simp add: len_le32_def len_be32_def image32_def le_bytes_be32 be_bytes_def)
qed

section \<open>The driver folds the compression over the padded message\<close>

definition md_pad :: "nat \<Rightarrow> nat \<Rightarrow> (u64 \<Rightarrow> bytes) \<Rightarrow> bytes \<Rightarrow> bytes" where
  "md_pad B F lenf data =
     data @ 0x80 # replicate ((2 * B - F - 1 - length data mod B) mod B) 0 @ lenf (of_nat (length data))"

definition md_block :: "nat \<Rightarrow> bytes \<Rightarrow> nat \<Rightarrow> bytes" where
  "md_block B m j = take B (drop (B * j) m)"

definition md_spec :: "nat \<Rightarrow> nat \<Rightarrow> ('s \<Rightarrow> bytes \<Rightarrow> 's) \<Rightarrow> (u64 \<Rightarrow> bytes) \<Rightarrow> 's \<Rightarrow> bytes \<Rightarrow> 's" where
  "md_spec B F cmp lenf buf data =
     (let m = md_pad B F lenf data
      in fold (\<lambda>j r. cmp r (md_block B m j)) [0..<length m div B] buf)"

lemma md_loop_blocks:
  assumes "0 < B" "length x = B" "i = B * j" "i \<le> length data"
    and more: "\<And>i. i < length data \<Longrightarrow> more i (length data)"
  shows "\<exists>x'. md_loop more B cmp data buf x i =
      (fold (\<lambda>j r. cmp r (md_block B data j)) [j..<length data div B] buf, x', B * (length data div B)) \<and>
    length x' = B \<and> take (length data mod B) x' = drop (B * (length data div B)) data"
  using assms(2-4)
proof (induction "length data div B - j" arbitrary: j i x buf)
  case 0
  let ?q = "length data div B"
  have "j \<le> ?q" using 0 assms(1) by (metis div_le_mono nonzero_mult_div_cancel_left less_numeral_extra(3))
  then have j: "j = ?q" using 0 by simp
  have rest: "length data = i + length data mod B" "length data mod B < B"
    using j 0 assms(1) by simp_all
  show ?case
  proof (cases "more i (length data)")
    case True
    have "md_loop more B cmp data buf x i = (buf, put x 0 (drop i data), i)"
      using True assms(1) rest by (subst md_loop.simps) (simp add: Let_def)
    moreover have tail: "length data - i = length data mod B" using rest by simp
    moreover have "length (put x 0 (drop i data)) = B"
      using 0 tail rest(2) by (subst length_put) simp_all
    moreover have "take (length data mod B) (put x 0 (drop i data)) = drop i data"
      using tail by (simp add: put_def)
    moreover have "i = B * ?q" using j 0 by simp
    ultimately show ?thesis using j by simp
  next
    case False
    then have "length data mod B = 0" using more [of i] rest by (cases "length data mod B = 0") auto
    moreover have "md_loop more B cmp data buf x i = (buf, x, i)"
      using False by (subst md_loop.simps) (simp add: Let_def)
    ultimately show ?thesis using rest j 0 by simp
  qed
next
  case (Suc n)
  let ?q = "length data div B"
  have jq: "j < ?q" using Suc.hyps(2) by simp
  then have "B * Suc j \<le> B * ?q" by (intro mult_le_mono) auto
  then have room: "i + B \<le> length data" using Suc.prems
    by (metis add.commute le_trans mult_Suc_right times_div_less_eq_dividend)
  let ?x = "md_block B data j"
  have blk: "put x 0 (take (if i + B < length data then B else length data - i) (drop i data)) = ?x"
    using room Suc.prems by (auto simp: put_def md_block_def)
  have len: "length ?x = B" using room Suc.prems by (simp add: md_block_def)
  have step: "md_loop more B cmp data buf x i = md_loop more B cmp data (cmp buf ?x) ?x (i + B)"
    using room assms(1) more [of i] blk by (subst md_loop.simps) (simp add: Let_def)
  have "\<exists>x'. md_loop more B cmp data (cmp buf ?x) ?x (i + B) =
      (fold (\<lambda>j r. cmp r (md_block B data j)) [Suc j..<?q] (cmp buf ?x), x', B * ?q) \<and>
    length x' = B \<and> take (length data mod B) x' = drop (B * ?q) data"
    using Suc.hyps(2) Suc.prems len room by (intro Suc.hyps(1)) (auto simp: algebra_simps)
  then show ?case using step jq by (simp add: upt_conv_Cons)
qed

locale md_hash =
  fixes B F n :: nat and cmp :: "'w list \<Rightarrow> bytes \<Rightarrow> 'w list" and lenf :: "u64 \<Rightarrow> bytes"
  assumes room: "F < B"
    and field: "length (lenf l) = F"
    and keeps: "length r = n \<Longrightarrow> length (cmp r x) = n"
begin

lemma length_pad: "length (md_pad B F lenf data) =
    B * (if length data mod B < B - F then length data div B + 1 else length data div B + 2)"
proof -
  obtain q r where qr: "q = length data div B" "r = length data mod B" by simp
  have r: "r < B" using room qr by simp
  have len: "length data = B * q + r" using qr by simp
  have total: "length (md_pad B F lenf data) = B * q + (r + 1 + (2 * B - F - 1 - r) mod B + F)"
    using len unfolding md_pad_def qr(2) [symmetric] by (simp add: field)
  show ?thesis
  proof (cases "r < B - F")
    case True
    then have "2 * B - F - 1 - r = B + (B - F - 1 - r)" "B - F - 1 - r < B" using room by simp_all
    then have "(2 * B - F - 1 - r) mod B = B - F - 1 - r" by (simp only: mod_add_self1 mod_less)
    then have "r + 1 + (2 * B - F - 1 - r) mod B + F = B" using True by simp
    then show ?thesis using total True unfolding qr(1,2) [symmetric] by simp
  next
    case False
    then have "(2 * B - F - 1 - r) mod B = 2 * B - F - 1 - r" using room by simp
    then have "r + 1 + (2 * B - F - 1 - r) mod B + F = 2 * B" using False room r by simp
    then show ?thesis using total False unfolding qr(1,2) [symmetric] by simp
  qed
qed

lemma zeros_eq:
  assumes "r < B"
  shows "(2 * B - F - 1 - r) mod B = (if r < B - F then B - F - 1 - r else 2 * B - F - 1 - r)"
proof (cases "r < B - F")
  case True
  then have "2 * B - F - 1 - r = B + (B - F - 1 - r)" "B - F - 1 - r < B" using room by simp_all
  then have "(2 * B - F - 1 - r) mod B = B - F - 1 - r" by (simp only: mod_add_self1 mod_less)
  then show ?thesis using True by simp
next
  case False
  then show ?thesis using room assms by simp
qed

text \<open>The blocks of the padded message: those of the message, then one or two closing blocks.\<close>

lemma block_prefix:
  assumes "j < length data div B"
  shows "md_block B (md_pad B F lenf data) j = md_block B data j"
proof -
  have "B * Suc j \<le> B * (length data div B)" using assms by (intro mult_le_mono) auto
  then have "B * j + B \<le> length data" by (metis add.commute le_trans mult_Suc_right times_div_less_eq_dividend)
  then show ?thesis by (simp add: md_block_def md_pad_def)
qed

lemma drop_pad:
  "drop (B * (length data div B)) (md_pad B F lenf data) =
   drop (B * (length data div B)) data @ 0x80 # replicate ((2 * B - F - 1 - length data mod B) mod B) 0 @
     lenf (of_nat (length data))"
  by (simp add: md_pad_def times_div_less_eq_dividend)

lemma finish_correct:
  assumes x: "length x = B" "take (length data mod B) x = drop (B * (length data div B)) data"
  shows "md_finish B F cmp lenf (length data) (buf, x, B * (length data div B)) =
    fold (\<lambda>j r. cmp r (md_block B (md_pad B F lenf data) j))
      [length data div B..<length (md_pad B F lenf data) div B] buf"
proof -
  obtain q r rest l where q: "q = length data div B" "r = length data mod B"
      "rest = drop (B * (length data div B)) data" "l = lenf (of_nat (length data))" by simp
  have r: "r < B" and tail: "length data - B * q = r" "length rest = r" "take r x = rest" and l: "length l = F"
    using room x by (simp_all add: q field minus_mult_div_eq_mod)
  have dp: "drop (B * q) (md_pad B F lenf data) = rest @ 0x80 # replicate ((2 * B - F - 1 - r) mod B) 0 @ l"
    using drop_pad [of data] unfolding q .
  have count: "length (md_pad B F lenf data) div B = (if r < B - F then q + 1 else q + 2)"
    using length_pad [of data] room unfolding q by simp
  have x1: "(put x r (replicate (B - r) 0))[r := 0x80] = rest @ 0x80 # replicate (B - r - 1) 0"
    using tail r x(1) by (cases "B - r") (auto simp: put_def list_update_append)
  show ?thesis
  proof (cases "r < B - F")
    case True
    have blk: "md_block B (md_pad B F lenf data) q = rest @ 0x80 # replicate (B - F - 1 - r) 0 @ l"
      using dp tail l True zeros_eq [OF r] by (simp add: md_block_def)
    have "B - r - 1 = (B - F - 1 - r) + F" using True by simp
    then have "put (rest @ 0x80 # replicate (B - r - 1) 0) (B - F) l = rest @ 0x80 # replicate (B - F - 1 - r) 0 @ l"
      using tail l True by (simp add: put_def take_Cons' replicate_add [symmetric])
    then show ?thesis
      using True tail x1 blk count unfolding md_finish_def q(1) [symmetric] q(4) [symmetric]
      by (simp add: Let_def)
  next
    case False
    have z: "2 * B - F - 1 - r = (B - r - 1) + (B - F)" using r room by simp
    have pad: "drop (B * q) (md_pad B F lenf data) =
        (rest @ 0x80 # replicate (B - r - 1) 0) @ replicate (B - F) 0 @ l"
      using dp zeros_eq [OF r] False z by (simp add: replicate_add)
    have len: "length (rest @ 0x80 # replicate (B - r - 1) (0::u8)) = B" using tail r by simp
    have b1: "md_block B (md_pad B F lenf data) q = rest @ 0x80 # replicate (B - r - 1) 0"
      unfolding md_block_def pad by (rule take_exact [OF len])
    have "drop (B * (q + 1)) (md_pad B F lenf data) = drop B (drop (B * q) (md_pad B F lenf data))"
      by (simp add: algebra_simps)
    also have "\<dots> = replicate (B - F) 0 @ l" unfolding pad by (rule drop_exact [OF len])
    finally have b2: "md_block B (md_pad B F lenf data) (q + 1) = replicate (B - F) 0 @ l"
      using l room by (simp add: md_block_def)
    have "put (replicate B 0) (B - F) l = replicate (B - F) 0 @ l"
      using l room by (simp add: put_def)
    then show ?thesis
      using False tail x1 b1 b2 count unfolding md_finish_def q(1) [symmetric] q(4) [symmetric]
      by (simp add: Let_def upt_rec)
  qed
qed

theorem digest_correct:
  assumes "length x = B" "\<And>i. i < length data \<Longrightarrow> more i (length data)"
  shows "md_digest more B F cmp lenf x buf data = md_spec B F cmp lenf buf data"
proof -
  let ?q = "length data div B" and ?p = "md_pad B F lenf data"
  obtain x' where x': "md_loop more B cmp data buf x 0 =
      (fold (\<lambda>j r. cmp r (md_block B data j)) [0..<?q] buf, x', B * ?q)"
    "length x' = B" "take (length data mod B) x' = drop (B * ?q) data"
    using md_loop_blocks [of B x 0 0 data more cmp buf] room assms by auto
  have "?q \<le> length ?p div B" using length_pad [of data] room by simp
  then have "[0..<length ?p div B] = [0..<?q] @ [?q..<length ?p div B]"
    by (metis le_add_diff_inverse upt_add_eq_append zero_le)
  moreover have "fold (\<lambda>j r. cmp r (md_block B data j)) [0..<?q] buf =
      fold (\<lambda>j r. cmp r (md_block B ?p j)) [0..<?q] buf"
    by (intro fold_cong) (simp_all add: block_prefix)
  ultimately show ?thesis
    using x' by (simp add: md_digest_def md_spec_def Let_def finish_correct)
qed

lemma spec_length: "length buf = n \<Longrightarrow> length (md_spec B F cmp lenf buf data) = n"
proof -
  have "length buf = n \<Longrightarrow> length (fold (\<lambda>j r. cmp r (f j)) js buf) = n" for js f
    by (induction js arbitrary: buf) (simp_all add: keeps)
  then show "length buf = n \<Longrightarrow> length (md_spec B F cmp lenf buf data) = n"
    by (simp add: md_spec_def Let_def)
qed

end

section \<open>The digests of the code\<close>

lemma length_SHA1Compress: "length (SHA1Compress r x) = 5"
  unfolding SHA1Compress_def Let_def case_prod_unfold length_Cons by simp

lemma length_SHA256Compress: "length (SHA256Compress r x) = 8"
  unfolding SHA256Compress_def Let_def case_prod_unfold length_Cons by simp

lemma length_SHA512Compress: "length (SHA512Compress r x) = 8"
  unfolding SHA512Compress_def Let_def case_prod_unfold length_Cons by simp

lemma length_RMDCompress: "length (RMDCompress r x) = 5"
  unfolding RMDCompress_def Let_def case_prod_unfold length_Cons by simp

lemma length_MD5Compress: "length (MD5Compress r x) = 4"
  unfolding MD5Compress_def Let_def case_prod_unfold length_Cons by simp

lemma length_len_be64: "length (len_be64 l) = 16"
  by (simp add: len_be64_def)

interpretation sha1: md_hash 64 8 5 SHA1Compress len_be32
  by unfold_locales (simp_all add: length_SHA1Compress len_be32_def)

interpretation sha256: md_hash 64 8 8 SHA256Compress len_be32
  by unfold_locales (simp_all add: length_SHA256Compress len_be32_def)

interpretation sha512: md_hash 128 16 8 SHA512Compress len_be64
  by unfold_locales (simp_all add: length_SHA512Compress length_len_be64)

interpretation rmd160: md_hash 64 8 5 RMDCompress len_le32
  by unfold_locales (simp_all add: length_RMDCompress len_le32_def)

interpretation md5: md_hash 64 8 4 MD5Compress len_le32
  by unfold_locales (simp_all add: length_MD5Compress len_le32_def)


lemma image32_be32: "image32 (map be32 ws) = concat (map (be_bytes 4) ws)"
  by (induction ws) (simp_all add: image32_def le_bytes_be32)

lemma image64_be64: "image64 (map be64 ws) = concat (map (be_bytes 8) ws)"
  by (induction ws) (simp_all add: image64_def le_bytes_be64)

lemma len_be64_is_bit_length: "len_be64 l = replicate 8 0 @ be_bytes 8 (l * 8)"
proof -
  have "le_bytes 8 (0 :: u64) = replicate 8 0"
    by (rule nth_equalityI) (simp_all add: nth_le_bytes)
  then show ?thesis by (simp add: len_be64_def image64_def le_bytes_be64)
qed

text \<open>The length fields the standards prescribe: the bit length in 8 or 16 bytes.\<close>

definition be_bits8 :: "u64 \<Rightarrow> bytes" where
  "be_bits8 len = be_bytes 8 (len * 8)"

definition be_bits16 :: "u64 \<Rightarrow> bytes" where
  "be_bits16 len = replicate 8 0 @ be_bytes 8 (len * 8)"

definition le_bits8 :: "u64 \<Rightarrow> bytes" where
  "le_bits8 len = le_bytes 8 (len * 8)"

lemma len_fields: "len_be32 = be_bits8" "len_le32 = le_bits8" "len_be64 = be_bits16"
  by (simp_all add: fun_eq_iff be_bits8_def le_bits8_def be_bits16_def
      len_be32_is_bit_length len_le32_is_bit_length len_be64_is_bit_length)

lemmas digest_images = image32_be32 image64_be64

lemma length_BRSHA256 [simp]: "length (BRSHA256 data) = 32"
  by (simp add: BRSHA256_def sha256.digest_correct sha256.spec_length sha256_init_def)

lemma length_BRSHA512 [simp]: "length (BRSHA512 data) = 64"
  by (simp add: BRSHA512_def sha512.digest_correct sha512.spec_length sha512_init_def)

lemma length_BRRMD160 [simp]: "length (BRRMD160 data) = 20"
  by (simp add: BRRMD160_def rmd160.digest_correct rmd160.spec_length rmd_init_def)

lemma length_BRSHA256_2 [simp]: "length (BRSHA256_2 data) = 32"
  by (simp add: BRSHA256_2_def Let_def)

lemma length_BRHash160 [simp]: "length (BRHash160 data) = 20"
  by (simp add: BRHash160_def Let_def)

lemmas driver_correct = sha1.digest_correct [unfolded len_fields] sha256.digest_correct [unfolded len_fields]
  sha512.digest_correct [unfolded len_fields] rmd160.digest_correct [unfolded len_fields]
  md5.digest_correct [unfolded len_fields]

lemmas pad_lengths = sha256.length_pad [unfolded len_fields] sha512.length_pad [unfolded len_fields]

text \<open>C31: SHA-1, SHA-224, SHA-256, SHA-384 and SHA-512 are what FIPS 180-4 defines: the compression
  function folded over the blocks of the message padded with a one bit, zeros up to a multiple of
  the block size and the big endian bit length, and the state words written big endian.\<close>

theorem sha_digests_fold_padded_message:
  "BRSHA1 data = concat (map (be_bytes 4) (md_spec 64 8 SHA1Compress be_bits8 sha1_init data)) \<and>
   BRSHA224 data = concat (map (be_bytes 4) (take 7 (md_spec 64 8 SHA256Compress be_bits8 sha224_init data))) \<and>
   BRSHA256 data = concat (map (be_bytes 4) (md_spec 64 8 SHA256Compress be_bits8 sha256_init data)) \<and>
   BRSHA384 data = concat (map (be_bytes 8) (take 6 (md_spec 128 16 SHA512Compress be_bits16 sha384_init data))) \<and>
   BRSHA512 data = concat (map (be_bytes 8) (md_spec 128 16 SHA512Compress be_bits16 sha512_init data)) \<and>
   64 dvd length (md_pad 64 8 be_bits8 data) \<and> 128 dvd length (md_pad 128 16 be_bits16 data)"
  using pad_lengths(1,2) [of data]
  by (simp add: BRSHA1_def BRSHA224_def BRSHA256_def BRSHA384_def BRSHA512_def driver_correct
      digest_images len_fields)

text \<open>RIPEMD-160 and MD5 fold their compression over the message padded with the little endian
  bit length, and HASH160 is RIPEMD-160 of SHA-256; the digest never depends on what the
  uninitialised stack buffer held, and every digest has its documented length.\<close>

theorem ripemd_md5_digests_fold_padded_message:
  "BRRMD160 data = image32 (md_spec 64 8 RMDCompress le_bits8 rmd_init data) \<and>
   BRMD5 data = image32 (md_spec 64 8 MD5Compress le_bits8 md5_init data) \<and>
   BRHash160 data = BRRMD160 (BRSHA256 data) \<and>
   (\<forall>x. md_digest (\<le>) 64 8 RMDCompress len_le32 (put (stack 64) 0 (take 64 x)) rmd_init data =
      md_digest (\<le>) 64 8 RMDCompress len_le32 (stack 64) rmd_init data) \<and>
   length (BRRMD160 data) = 20 \<and> length (BRMD5 data) = 16 \<and> length (BRHash160 data) = 20"
proof -
  have "length (put (stack 64) 0 (take 64 x)) = 64" for x by (subst length_put) simp_all
  moreover have "length (BRMD5 data) = 16"
    by (simp add: BRMD5_def md5.digest_correct md5.spec_length md5_init_def)
  moreover have "BRHash160 data = BRRMD160 (BRSHA256 data)" by (simp add: BRHash160_def)
  moreover have "BRRMD160 data = image32 (md_spec 64 8 RMDCompress le_bits8 rmd_init data)"
    "BRMD5 data = image32 (md_spec 64 8 MD5Compress le_bits8 md5_init data)"
    by (simp_all add: BRRMD160_def BRMD5_def driver_correct len_fields)
  moreover have "length (BRRMD160 data) = 20" "length (BRRMD160 (BRSHA256 data)) = 20" by simp_all
  ultimately show ?thesis
    by (simp add: driver_correct len_fields)
qed

end
