(* ===== verification/MacSpec.thy ===== *)
theory MacSpec
  imports Ciphers HashSpec
begin

text \<open>
  HMAC, HMAC-DRBG and PBKDF2 of \<^verbatim>\<open>BRCrypto.c\<close> against RFC 2104, SP 800-90A and RFC 8018. The locale
  \<open>hash_function\<close> is the interface these functions have to the digest they are given: it writes a
  fixed number of bytes, a multiple of four that fits a block. It is interpreted on the digests
  of the code.
\<close>

section \<open>Chunks of byte objects\<close>

lemma concat_chunks:
  "concat (map (\<lambda>i. take k (drop (k * i) xs)) [0..<n]) = take (k * n) xs"
proof (induction n)
  case 0
  then show ?case by simp
next
  case (Suc n)
  have "take (k * n + k) xs = take (k * n) xs @ take k (drop (k * n) xs)"
    by (simp add: take_add)
  then show ?case using Suc by (simp add: add.commute)
qed

lemma le_bytes_xor: "le_bytes n (a XOR b) = map2 (XOR) (le_bytes n a) (le_bytes n b)"
proof (rule nth_equalityI)
  fix i assume "i < length (le_bytes n (a XOR b))"
  then show "le_bytes n (a XOR b) ! i = map2 (XOR) (le_bytes n a) (le_bytes n b) ! i"
    by (intro bit_word_eqI) (simp add: bit_nth_le_bytes bit_xor_iff)
qed simp

lemma le_bytes_u64_at: "8 * i + 8 \<le> length x \<Longrightarrow> le_bytes 8 (u64_at x i) = take 8 (drop (8 * i) x)"
  by (simp add: u64_at_def codec_simps)

lemma le_bytes_u32_at: "4 * i + 4 \<le> length x \<Longrightarrow> le_bytes 4 (u32_at x i) = take 4 (drop (4 * i) x)"
  by (simp add: u32_at_def codec_simps)

lemma map2_replicate: "length xs = n \<Longrightarrow> map2 f xs (replicate n c) = map (\<lambda>x. f x c) xs"
  by (induction xs arbitrary: n) auto

lemma xor_u64s_bytes:
  assumes "length x = 8 * n" "le_bytes 8 c = replicate 8 b"
  shows "xor_u64s c x = map (\<lambda>v. v XOR b) x"
proof -
  have "xor_u64s c x = concat (map (\<lambda>i. map (\<lambda>v. v XOR b) (take 8 (drop (8 * i) x))) [0..<n])"
    using assms
    by (auto simp: xor_u64s_def image64_def comp_def le_bytes_xor le_bytes_u64_at map2_replicate
        intro!: arg_cong [where f = concat] map_cong)
  also have "\<dots> = map (\<lambda>v. v XOR b) (concat (map (\<lambda>i. take 8 (drop (8 * i) x)) [0..<n]))"
    by (simp add: map_concat comp_def)
  also have "\<dots> = map (\<lambda>v. v XOR b) x" using assms(1) by (simp add: concat_chunks)
  finally show ?thesis .
qed

lemma pad_bytes:
  "le_bytes 8 (0x3636363636363636 :: u64) = replicate 8 0x36"
  "le_bytes 8 (0x5c5c5c5c5c5c5c5c :: u64) = replicate 8 0x5c"
proof -
  have "le_word (replicate 8 0x36) = (0x3636363636363636 :: u64)"
    "le_word (replicate 8 0x5c) = (0x5c5c5c5c5c5c5c5c :: u64)" by code_simp+
  then show "le_bytes 8 (0x3636363636363636 :: u64) = replicate 8 0x36"
    "le_bytes 8 (0x5c5c5c5c5c5c5c5c :: u64) = replicate 8 0x5c"
    using le_bytes_le_word [of "replicate 8 0x36" 8, where 'a = 64]
      le_bytes_le_word [of "replicate 8 0x5c" 8, where 'a = 64] by simp_all
qed

section \<open>Output filled block by block\<close>

definition blocks_for :: "nat \<Rightarrow> nat \<Rightarrow> nat" where
  "blocks_for outLen hashLen = (outLen + hashLen - 1) div hashLen"

lemma blocks_for_iff:
  assumes "0 < h"
  shows "i < blocks_for L h \<longleftrightarrow> i * h < L"
proof -
  have "i < (L + h - 1) div h \<longleftrightarrow> Suc i * h \<le> L + h - 1"
    using assms less_eq_div_iff_mult_less_eq [of h "Suc i" "L + h - 1"] by (simp add: Suc_le_eq)
  also have "\<dots> \<longleftrightarrow> i * h < L" using assms by auto
  finally show ?thesis by (simp add: blocks_for_def)
qed

lemma fill_blocks:
  assumes "0 < h" "length out = L" "\<And>i. length (blk i) = h" "n \<le> blocks_for L h"
  shows "fold (\<lambda>i. fill_block L h i (blk i)) [0..<n] out =
    take L (concat (map blk [0..<n])) @ drop (n * h) out"
  using assms(4)
proof (induction n)
  case 0
  then show ?case by simp
next
  case (Suc n)
  let ?c = "concat (map blk [0..<n])"
  have len: "length ?c = n * h" using assms(3) by (simp add: length_concat comp_def sum_list_triv)
  have n: "n * h < L" using Suc.prems blocks_for_iff [OF assms(1), of n L] by simp
  have IH: "fold (\<lambda>i. fill_block L h i (blk i)) [0..<n] out = ?c @ drop (n * h) out"
    using Suc n len by simp
  show ?case
  proof (cases "n * h + h \<le> L")
    case True
    have "fill_block L h n (blk n) (?c @ drop (n * h) out) = ?c @ blk n @ drop (h + n * h) out"
      using len assms(3) True by (simp add: fill_block_def put_def)
    then show ?thesis using True IH len assms(3) by (simp add: add.commute)
  next
    case False
    then have "L div h = n" using n by (intro div_nat_eqI) (auto simp: algebra_simps)
    then have m: "L mod h = L - n * h" by (metis minus_div_mult_eq_mod)
    have "fill_block L h n (blk n) (?c @ drop (n * h) out) = ?c @ take (L - n * h) (blk n)"
      using len assms(2,3) n False m by (simp add: fill_block_def put_def)
    then show ?thesis using False IH len assms n by simp
  qed
qed

lemma fill_all:
  assumes "0 < h" "length out = L" "\<And>i. length (blk i) = h"
  shows "fold (\<lambda>i. fill_block L h i (blk i)) [0..<blocks_for L h] out =
    take L (concat (map blk [0..<blocks_for L h]))"
proof -
  have "L \<le> blocks_for L h * h"
    using blocks_for_iff [OF assms(1), of "blocks_for L h" L] by simp
  then show ?thesis using fill_blocks [OF assms le_refl] assms(2) by simp
qed

section \<open>The interface to the digest\<close>

definition hmac_block :: "nat \<Rightarrow> nat" where
  "hmac_block hashLen = (if hashLen > 32 then 128 else 64)"

definition rfc2104_key :: "(bytes \<Rightarrow> bytes) \<Rightarrow> nat \<Rightarrow> bytes \<Rightarrow> bytes" where
  "rfc2104_key hash B key =
     (let k = (if length key > B then hash key else key) in k @ replicate (B - length k) 0)"

definition rfc2104 :: "(bytes \<Rightarrow> bytes) \<Rightarrow> nat \<Rightarrow> bytes \<Rightarrow> bytes \<Rightarrow> bytes" where
  "rfc2104 hash B key data =
     (let k = rfc2104_key hash B key
      in hash (map (\<lambda>b. b XOR 0x5c) k @ hash (map (\<lambda>b. b XOR 0x36) k @ data)))"

text \<open>RFC 8018: \<open>F(P, S, c, i)\<close>, the exclusive or of \<open>U_1 ... U_c\<close>.\<close>

definition rfc8018_block :: "(bytes \<Rightarrow> bytes) \<Rightarrow> nat \<Rightarrow> bytes \<Rightarrow> bytes \<Rightarrow> nat \<Rightarrow> nat \<Rightarrow> bytes" where
  "rfc8018_block hash hashLen pw salt c i =
     (let H = rfc2104 hash (hmac_block hashLen) pw;
          U = H (salt @ be_bytes 4 (of_nat i :: u32))
      in fold (\<lambda>j. map2 (XOR) ((H ^^ j) U)) [1..<c] U)"

text \<open>SP 800-90A, HMAC_DRBG: the update function (its second half only with provided data), the
  instantiation and the output of the generate function.\<close>

definition sp800_update :: "(bytes \<Rightarrow> bytes) \<Rightarrow> nat \<Rightarrow> bytes option \<Rightarrow> bytes \<times> bytes \<Rightarrow> bytes \<times> bytes" where
  "sp800_update hash hashLen provided KV = (case KV of (K, V) \<Rightarrow>
     let H = rfc2104 hash (hmac_block hashLen);
         K = H K (V @ [0x00] @ bytes_of provided); V = H K V
     in case provided of
          None \<Rightarrow> (K, V)
        | Some p \<Rightarrow> let K = H K (V @ [0x01] @ p); V = H K V in (K, V))"

definition sp800_instantiate :: "(bytes \<Rightarrow> bytes) \<Rightarrow> nat \<Rightarrow> bytes \<Rightarrow> bytes \<times> bytes" where
  "sp800_instantiate hash hashLen material =
     sp800_update hash hashLen (Some material) (replicate hashLen 0x00, replicate hashLen 0x01)"

definition sp800_output :: "(bytes \<Rightarrow> bytes) \<Rightarrow> nat \<Rightarrow> bytes \<Rightarrow> bytes \<Rightarrow> nat \<Rightarrow> bytes" where
  "sp800_output hash hashLen K V n =
     take n (concat (map (\<lambda>j. (rfc2104 hash (hmac_block hashLen) K ^^ Suc j) V) [0..<blocks_for n hashLen]))"

locale hash_function =
  fixes hash :: "bytes \<Rightarrow> bytes" and hashLen :: nat
  assumes hash_length: "length (hash d) = hashLen"
    and hash_nonempty: "0 < hashLen"
    and hash_words: "4 dvd hashLen"
    and hash_fits: "hashLen \<le> hmac_block hashLen"
begin

lemma hmac_correct: "BRHMAC hash hashLen key data = rfc2104 hash (hmac_block hashLen) key data"
proof -
  let ?B = "hmac_block hashLen"
  let ?k = "if length key > ?B then hash key else key"
  have fits: "length ?k \<le> ?B" using hash_fits by (simp add: hash_length)
  have "put (replicate ?B 0) 0 ?k = rfc2104_key hash ?B key"
    by (simp add: rfc2104_key_def put_def Let_def)
  moreover have "length (rfc2104_key hash ?B key) = 8 * (?B div 8)"
    using fits by (auto simp: rfc2104_key_def Let_def hmac_block_def)
  ultimately show ?thesis
    by (simp add: BRHMAC_def rfc2104_def Let_def xor_u64s_bytes [OF _ pad_bytes(1)]
        xor_u64s_bytes [OF _ pad_bytes(2)] flip: hmac_block_def)
qed

lemma hmac_fun: "rfc2104 hash (hmac_block hashLen) = BRHMAC hash hashLen"
  by (simp add: fun_eq_iff hmac_correct)

lemma hmac_length [simp]: "length (BRHMAC hash hashLen key data) = hashLen"
  by (simp add: BRHMAC_def Let_def hash_length)

lemma hmac_iterate_length [simp]: "length V = hashLen \<Longrightarrow> length ((BRHMAC hash hashLen K ^^ i) V) = hashLen"
  by (cases i) simp_all

lemma drbg_loop_correct:
  assumes "i \<le> blocks_for outLen hashLen"
  shows "drbg_loop hash hashLen K outLen i ((BRHMAC hash hashLen K ^^ i) V) out =
    (fold (\<lambda>j. fill_block outLen hashLen j ((BRHMAC hash hashLen K ^^ Suc j) V)) [i..<blocks_for outLen hashLen] out,
     (BRHMAC hash hashLen K ^^ blocks_for outLen hashLen) V)"
  using assms
proof (induction "blocks_for outLen hashLen - i" arbitrary: i out)
  case 0
  then have "i = blocks_for outLen hashLen" by simp
  moreover from this have "\<not> i * hashLen < outLen"
    using blocks_for_iff [OF hash_nonempty, of i outLen] by simp
  ultimately show ?case by (subst drbg_loop.simps) simp
next
  case (Suc n)
  then have i: "i < blocks_for outLen hashLen" by simp
  then have "i * hashLen < outLen" using blocks_for_iff [OF hash_nonempty, of i outLen] by simp
  then have "drbg_loop hash hashLen K outLen i ((BRHMAC hash hashLen K ^^ i) V) out =
      drbg_loop hash hashLen K outLen (Suc i) ((BRHMAC hash hashLen K ^^ Suc i) V)
        (fill_block outLen hashLen i ((BRHMAC hash hashLen K ^^ Suc i) V) out)"
    using hash_nonempty by (subst drbg_loop.simps) (simp add: Let_def)
  then show ?case using Suc.hyps(1) [of "Suc i"] Suc.hyps(2) i by (simp add: upt_conv_Cons)
qed

lemma drbg_output:
  assumes "length V = hashLen"
  shows "drbg_loop hash hashLen K (length out) 0 V out =
    (take (length out) (concat (map (\<lambda>j. (BRHMAC hash hashLen K ^^ Suc j) V) [0..<blocks_for (length out) hashLen])),
     (BRHMAC hash hashLen K ^^ blocks_for (length out) hashLen) V)"
  using drbg_loop_correct [of 0 "length out" K V out]
    fill_all [OF hash_nonempty refl, where blk = "\<lambda>j. (BRHMAC hash hashLen K ^^ Suc j) V"] assms
  by simp

lemma pbkdf2_round_words:
  assumes "length T = hashLen"
  shows "pbkdf2_round hash hashLen pw (U, T) =
    (BRHMAC hash hashLen pw U, map2 (XOR) T (BRHMAC hash hashLen pw U))"
proof -
  obtain n where n: "4 * n = hashLen" "hashLen div 4 = n" using hash_words by (auto elim: dvdE)
  then have room: "j < n \<Longrightarrow> 4 * j + 4 \<le> hashLen" for j by linarith
  obtain U' where U': "U' = BRHMAC hash hashLen pw U" "length U' = hashLen" by simp
  have "image32 (map (\<lambda>j. u32_at T j XOR u32_at U' j) [0..<n]) =
      concat (map (\<lambda>j. map2 (XOR) (take 4 (drop (4 * j) T)) (take 4 (drop (4 * j) U'))) [0..<n])"
    using assms room U'(2)
    by (auto simp: image32_def comp_def le_bytes_xor le_bytes_u32_at
        intro!: arg_cong [where f = concat] map_cong)
  also have "\<dots> = concat (map (\<lambda>j. take 4 (drop (4 * j) (map2 (XOR) T U'))) [0..<n])"
    by (simp add: take_map drop_map take_zip drop_zip)
  also have "\<dots> = map2 (XOR) T U'" using assms n U'(2) by (simp add: concat_chunks)
  finally show ?thesis using n by (simp add: pbkdf2_round_def Let_def flip: U'(1))
qed

lemma pbkdf2_rounds:
  assumes "length T = hashLen"
  shows "(pbkdf2_round hash hashLen pw ^^ m) (U, T) =
    ((BRHMAC hash hashLen pw ^^ m) U, fold (\<lambda>i. map2 (XOR) ((BRHMAC hash hashLen pw ^^ Suc i) U)) [0..<m] T)
    \<and> length (snd ((pbkdf2_round hash hashLen pw ^^ m) (U, T))) = hashLen"
proof (induction m)
  case 0
  then show ?case using assms by simp
next
  case (Suc m)
  obtain U' T' where UT: "(pbkdf2_round hash hashLen pw ^^ m) (U, T) = (U', T')" "length T' = hashLen"
    using Suc by (metis prod.collapse)
  have "map2 (XOR) T' X = map2 (XOR) X T'" for X :: bytes
    by (rule nth_equalityI) (simp_all add: xor.commute)
  then show ?case using UT Suc pbkdf2_round_words [OF UT(2), of pw U'] by simp
qed

lemma pbkdf2_block_correct:
  "pbkdf2_block hash hashLen pw salt rounds i = rfc8018_block hash hashLen pw salt rounds (i + 1)"
  and pbkdf2_block_length: "length (pbkdf2_block hash hashLen pw salt rounds i) = hashLen"
proof -
  let ?U = "BRHMAC hash hashLen pw (salt @ be_bytes 4 (of_nat (i + 1) :: u32))"
  have "fold (\<lambda>j. map2 (XOR) ((BRHMAC hash hashLen pw ^^ Suc j) ?U)) [0..<rounds - 1] ?U =
      fold (\<lambda>j. map2 (XOR) ((BRHMAC hash hashLen pw ^^ j) ?U)) (map Suc [0..<rounds - 1]) ?U"
    by (simp add: fold_map comp_def)
  also have "map Suc [0..<rounds - 1] = [1..<rounds]"
    by (cases rounds) (simp_all add: map_Suc_upt)
  finally show "pbkdf2_block hash hashLen pw salt rounds i = rfc8018_block hash hashLen pw salt rounds (i + 1)"
    using pbkdf2_rounds [OF hmac_length, THEN conjunct1, of "rounds - 1" pw ?U pw]
    by (simp add: pbkdf2_block_def rfc8018_block_def le_bytes_be32 Let_def hmac_fun)
  show "length (pbkdf2_block hash hashLen pw salt rounds i) = hashLen"
    using pbkdf2_rounds [OF hmac_length, THEN conjunct2, of "rounds - 1" pw ?U pw]
    by (simp add: pbkdf2_block_def le_bytes_be32 Let_def)
qed

lemma pbkdf2_correct:
  "BRPBKDF2 dk hash hashLen pw salt rounds =
   take (length dk) (concat (map (\<lambda>i. rfc8018_block hash hashLen pw salt rounds (i + 1)) [0..<blocks_for (length dk) hashLen]))"
proof -
  have "BRPBKDF2 dk hash hashLen pw salt rounds =
      take (length dk) (concat (map (pbkdf2_block hash hashLen pw salt rounds) [0..<blocks_for (length dk) hashLen]))"
    unfolding BRPBKDF2_def Let_def blocks_for_def [symmetric]
    by (rule fill_all [OF hash_nonempty refl pbkdf2_block_length])
  then show ?thesis by (simp only: pbkdf2_block_correct [abs_def])
qed

lemma blocks_cover: "L \<le> blocks_for L hashLen * hashLen"
  using blocks_for_iff [OF hash_nonempty, of "blocks_for L hashLen" L] by simp

lemma pbkdf2_length: "length (BRPBKDF2 dk hash hashLen pw salt rounds) = length dk"
proof -
  have "length (rfc8018_block hash hashLen pw salt rounds (Suc i)) = hashLen" for i
    using pbkdf2_block_length [of pw salt rounds i] by (simp add: pbkdf2_block_correct)
  then have "length (concat (map (\<lambda>i. rfc8018_block hash hashLen pw salt rounds (i + 1)) [0..<n])) = n * hashLen" for n
    by (simp add: length_concat comp_def sum_list_triv)
  then show ?thesis using blocks_cover [of "length dk"] by (simp add: pbkdf2_correct)
qed

lemma drbg_correct:
  assumes "length V = hashLen"
  shows "BRHMACDRBG out K V hash hashLen seed nonce ps =
    (let (K, V) = (if seed = None \<and> nonce = None \<and> ps = None then sp800_update hash hashLen None (K, V)
                   else sp800_instantiate hash hashLen (bytes_of seed @ bytes_of nonce @ bytes_of ps))
     in (sp800_output hash hashLen K V (length out), K,
         (rfc2104 hash (hmac_block hashLen) K ^^ blocks_for (length out) hashLen) V))"
proof (cases "seed = None \<and> nonce = None \<and> ps = None")
  case True
  then show ?thesis
    by (simp add: BRHMACDRBG_def Let_def bytes_of_def sp800_update_def sp800_output_def drbg_output
        hmac_fun)
next
  case False
  then have unseeded: "(seed \<noteq> None \<or> nonce \<noteq> None \<or> ps \<noteq> None) = True" by auto
  have provided: "(seed = None \<and> nonce = None \<and> ps = None) = False" using False by blast
  show ?thesis
    unfolding BRHMACDRBG_def Let_def unseeded provided if_True if_False
    by (simp add: drbg_output sp800_instantiate_def sp800_update_def sp800_output_def bytes_of_def
        Let_def hmac_fun)
qed

end


section \<open>The digests of the code meet the interface\<close>

interpretation hf_sha1: hash_function BRSHA1 20
  by unfold_locales
    (simp_all add: BRSHA1_def sha1.digest_correct sha1.spec_length sha1_init_def hmac_block_def)

interpretation hf_sha256: hash_function BRSHA256 32
  by unfold_locales (simp_all add: hmac_block_def)

interpretation hf_sha512: hash_function BRSHA512 64
  by unfold_locales (simp_all add: hmac_block_def)

interpretation hf_md5: hash_function BRMD5 16
  by unfold_locales
    (simp_all add: BRMD5_def md5.digest_correct md5.spec_length md5_init_def hmac_block_def)

section \<open>Properties\<close>

text \<open>HMAC over the digests of the library is RFC 2104 with the block size of the digest, for
  keys shorter, equal to and longer than a block; PBKDF2 is RFC 8018, for every number of rounds
  and every output length, a partial last block included, and fills exactly the output buffer.\<close>

theorem hmac_and_pbkdf2_follow_rfcs:
  "BRHMAC BRSHA256 32 key data = rfc2104 BRSHA256 64 key data \<and>
   BRHMAC BRSHA512 64 key data = rfc2104 BRSHA512 128 key data \<and>
   BRPBKDF2 dk BRSHA512 64 pw salt rounds = take (length dk)
     (concat (map (\<lambda>i. rfc8018_block BRSHA512 64 pw salt rounds (i + 1)) [0..<blocks_for (length dk) 64])) \<and>
   BRPBKDF2 dk BRSHA256 32 pw salt rounds = take (length dk)
     (concat (map (\<lambda>i. rfc8018_block BRSHA256 32 pw salt rounds (i + 1)) [0..<blocks_for (length dk) 32])) \<and>
   length (BRPBKDF2 dk BRSHA512 64 pw salt rounds) = length dk"
  using hf_sha256.hmac_correct [of key data] hf_sha512.hmac_correct [of key data]
    hf_sha512.pbkdf2_correct [of dk pw salt rounds] hf_sha256.pbkdf2_correct [of dk pw salt rounds]
    hf_sha512.pbkdf2_length [of dk pw salt rounds]
  by (simp add: hmac_block_def)

text \<open>The deterministic generator is HMAC_DRBG of SP 800-90A: a call with entropy instantiates
  the state from it and a call without any updates the state of the previous call first; the output
  is the chain of \<open>V\<close> values cut to the requested length and the returned state is where the
  chain ended.\<close>

theorem hmac_drbg_follows_sp800_90a:
  assumes "length K = 32" and "length V = 32" and "seed \<noteq> None"
  shows "BRHMACDRBG out K' V' BRSHA256 32 seed nonce ps =
      (let (K, V) = sp800_instantiate BRSHA256 32 (bytes_of seed @ bytes_of nonce @ bytes_of ps)
       in (sp800_output BRSHA256 32 K V (length out), K, (rfc2104 BRSHA256 64 K ^^ blocks_for (length out) 32) V)) \<and>
    BRHMACDRBG out K V BRSHA256 32 None None None =
      (let (K, V) = sp800_update BRSHA256 32 None (K, V)
       in (sp800_output BRSHA256 32 K V (length out), K, (rfc2104 BRSHA256 64 K ^^ blocks_for (length out) 32) V)) \<and>
    length (sp800_output BRSHA256 32 K V (length out)) = length out"
proof -
  have "length (concat (map (\<lambda>j. (BRHMAC BRSHA256 32 K ^^ Suc j) V) [0..<n])) = n * 32" for n
    using assms(2) by (simp add: length_concat comp_def sum_list_triv)
  then have "length (sp800_output BRSHA256 32 K V (length out)) = length out"
    using hf_sha256.blocks_cover [of "length out"] by (simp add: sp800_output_def hf_sha256.hmac_fun)
  moreover have "BRHMACDRBG out K' V' BRSHA256 32 seed nonce ps =
      BRHMACDRBG out K V BRSHA256 32 seed nonce ps"
    using assms(3) by (simp add: BRHMACDRBG_def)
  ultimately show ?thesis
    using assms hf_sha256.drbg_correct [OF assms(2), of out K seed nonce ps]
      hf_sha256.drbg_correct [OF assms(2), of out K None None None]
    by (simp add: hmac_block_def bytes_of_def)
qed

theorem hmac_drbg_follows_sp800_90a_witness:
  "length (sp800_output BRSHA256 32 (replicate 32 7) (replicate 32 9) (length (replicate 45 (0 :: u8)))) = 45"
  using hmac_drbg_follows_sp800_90a [of "replicate 32 7" "replicate 32 9" "Some [1]" "replicate 45 0" "[]" "[]" None None]
  by simp

end
