(* ===== verification/CipherSpec.thy ===== *)
theory CipherSpec
  imports MacSpec
begin

text \<open>
  ChaCha20, the ChaCha20-Poly1305 AEAD and scrypt's mixing functions of \<^verbatim>\<open>BRCrypto.c\<close>. The cipher
  loop is shown to be the exclusive or with the key stream of a 64 bit block counter, carry between
  the two counter words included; the AEAD opens what it sealed and releases nothing when the tag
  does not match; the scrypt loops, unrolled by two in the code, are \<open>BlockMix\<close> and \<open>ROMix\<close> of RFC 7914.
\<close>

section \<open>ChaCha20\<close>

definition chacha_block :: "bytes \<Rightarrow> bytes \<Rightarrow> u64 \<Rightarrow> bytes" where
  "chacha_block key32 iv8 ctr =
     (let s = chacha_init key32 iv8 ctr in image32 (map2 (+) s ((chacha_double_round ^^ 10) s)))"

definition chacha_stream :: "bytes \<Rightarrow> bytes \<Rightarrow> u64 \<Rightarrow> nat \<Rightarrow> u8" where
  "chacha_stream key32 iv8 ctr i = chacha_block key32 iv8 (ctr + of_nat (i div 64)) ! (i mod 64)"

lemma unat_u64_less: "unat (c :: u64) < 2 ^ 64"
  using unsigned_less [of c, where 'a = nat] by simp

lemma unat_lanes: "unat (ucast (c :: u64) :: u32) = unat c mod 2 ^ 32"
    "unat (ucast (drop_bit 32 c) :: u32) = unat c div 2 ^ 32"
proof -
  show "unat (ucast c :: u32) = unat c mod 2 ^ 32"
    by (simp only: unsigned_ucast_eq take_bit_eq_mod) simp
  have "unat c < 2 ^ 64" using unat_u64_less .
  then have "unat c div 2 ^ 32 < 2 ^ 32" by (intro less_mult_imp_div_less) simp
  then show "unat (ucast (drop_bit 32 c) :: u32) = unat c div 2 ^ 32"
    by (simp only: unsigned_ucast_eq take_bit_eq_mod unat_drop_bit_eq) (simp add: drop_bit_eq_div)
qed

lemma unat_succ: "unat (w + 1 :: 'a::len word) = (unat w + 1) mod 2 ^ LENGTH('a)"
  by (simp add: unat_word_ariths)

lemma counter_low: "(ucast (c + 1 :: u64) :: u32) = ucast c + 1"
proof -
  have "unat (ucast (c + 1 :: u64) :: u32) = unat (ucast c + 1 :: u32)"
    unfolding unat_lanes unat_succ by (simp add: mod_simps mod_mod_cancel)
  then show ?thesis by (rule unsigned_word_eqI)
qed

lemma counter_high:
  "(ucast (drop_bit 32 (c + 1 :: u64)) :: u32) =
   (if (ucast c :: u32) + 1 = 0 then ucast (drop_bit 32 c) + 1 else ucast (drop_bit 32 c))"
proof -
  obtain q r where qr: "unat c = q * 2 ^ 32 + r" "r < 2 ^ 32"
    by (metis div_mult_mod_eq mod_less_divisor zero_less_numeral zero_less_power)
  have q: "q < 2 ^ 32" using qr unat_u64_less [of c] by simp
  have m: "unat c mod 2 ^ 32 = r" "unat c div 2 ^ 32 = q" using qr by simp_all
  have low: "((ucast c :: u32) + 1 = 0) = (r + 1 = 2 ^ 32)"
  proof (cases "r + 1 = 2 ^ 32")
    case False
    then have "(r + 1) mod 2 ^ 32 = r + 1" using qr(2) by (intro mod_less) simp
    then show ?thesis using False unfolding unat_eq_iff unat_succ unat_lanes m by simp
  next
    case True
    then show ?thesis unfolding unat_eq_iff unat_succ unat_lanes m by simp
  qed
  have high: "unat (ucast (drop_bit 32 (c + 1 :: u64)) :: u32) = (if r + 1 = 2 ^ 32 then (q + 1) mod 2 ^ 32 else q)"
  proof (cases "r + 1 = 2 ^ 32")
    case True
    then have "unat c + 1 = (q + 1) * 2 ^ 32" using qr(1) by simp
    then have "unat (c + 1) = ((q + 1) * 2 ^ 32) mod (2 ^ 32 * 2 ^ 32)" by (simp add: unat_succ)
    also have "\<dots> = ((q + 1) mod 2 ^ 32) * 2 ^ 32" by (rule mult_mod_left [symmetric])
    finally show ?thesis using True by (simp only: unat_lanes(2)) simp
  next
    case False
    then have r1: "r + 1 < 2 ^ 32" using qr(2) by simp
    then have "q * 2 ^ 32 + (r + 1) < 2 ^ 64" using q by simp
    then have "unat (c + 1) = q * 2 ^ 32 + (r + 1)" using qr(1) by (simp add: unat_succ)
    then show ?thesis using False r1 by (simp only: unat_lanes(2)) simp
  qed
  show ?thesis
  proof (cases "r + 1 = 2 ^ 32")
    case True
    then have "unat (ucast (drop_bit 32 (c + 1 :: u64)) :: u32) = unat (ucast (drop_bit 32 c) + 1 :: u32)"
      unfolding high unfolding unat_succ unat_lanes(2) m by simp
    then have "ucast (drop_bit 32 (c + 1 :: u64)) = (ucast (drop_bit 32 c) + 1 :: u32)" by (rule unsigned_word_eqI)
    then show ?thesis by (simp only: low True if_True refl)
  next
    case False
    then have "unat (ucast (drop_bit 32 (c + 1 :: u64)) :: u32) = unat (ucast (drop_bit 32 c) :: u32)"
      unfolding high unfolding unat_lanes(2) m by simp
    then have "ucast (drop_bit 32 (c + 1 :: u64)) = (ucast (drop_bit 32 c) :: u32)" by (rule unsigned_word_eqI)
    then show ?thesis by (simp only: low False if_False refl)
  qed
qed


lemma chacha_init_words:
  "length (chacha_init k iv c) = 16" "chacha_init k iv c ! 12 = ucast c" "chacha_init k iv c ! 13 = ucast (drop_bit 32 c)"
  by (simp_all add: chacha_init_def nth_append)

lemma counter_words_step:
  fixes a b :: u32
  assumes "length P = 12"
  shows "(let s = (P @ a # b # T)[12 := (P @ a # b # T) ! 12 + 1] in if s ! 12 = 0 then s[13 := s ! 13 + 1] else s) =
    P @ (a + 1) # (if a + 1 = 0 then b + 1 else b) # T"
proof -
  have w: "(P @ a # b # T)[12 := y] = P @ y # b # T" "(P @ y # b # T) ! 12 = y" "(P @ y # b # T) ! 13 = b"
    "(P @ y # b # T)[13 := z] = P @ y # z # T" for y z
    using assms by (simp_all add: list_update_append nth_append)
  show ?thesis by (simp only: w Let_def split: if_split) simp
qed

lemma chacha_init_step:
  "(let s = (chacha_init k iv c)[12 := chacha_init k iv c ! 12 + 1]
    in if s ! 12 = 0 then s[13 := s ! 13 + 1] else s) = chacha_init k iv (c + 1)"
proof -
  obtain P T where PT: "\<And>c. chacha_init k iv c = P @ ucast c # ucast (drop_bit 32 c) # T" "length P = 12"
    by (rule that [of "map (u32_at sigma) [0..<4] @ map (u32_at k) [0..<8]" "map (u32_at iv) [0..<2]"])
      (simp_all add: chacha_init_def)
  show ?thesis
    unfolding PT(1) counter_low counter_high by (rule counter_words_step [OF PT(2)])
qed

lemma length_add_into [simp]: "length (add_into a b x) = length x"
  by (simp add: add_into_def)

lemma length_xor_rol [simp]: "length (xor_rol d a n x) = length x"
  by (simp add: xor_rol_def)

lemma length_qr [simp]: "length (qr a b c d x) = length x"
  by (simp add: qr_def)

lemma length_double_round [simp]: "length (chacha_double_round x) = length x"
  by (simp add: chacha_double_round_def)

lemma length_double_rounds [simp]: "length ((chacha_double_round ^^ n) x) = length x"
  by (induction n) simp_all

lemma length_chacha_block [simp]: "length (chacha_block k iv c) = 64"
  by (simp add: chacha_block_def Let_def chacha_init_words)

lemma chacha_bytes:
  assumes "length data \<le> length out" "n \<le> length data"
  shows "\<exists>b. fold (chacha_byte data) [0..<n] (chacha_init k iv c, replicate 64 0, out) =
      (chacha_init k iv (c + of_nat ((n + 63) div 64)), b,
       map (\<lambda>i. data ! i XOR chacha_stream k iv c i) [0..<n] @ drop n out) \<and>
    (0 < n \<longrightarrow> b = chacha_block k iv (c + of_nat ((n - 1) div 64)))"
  using assms(2)
proof (induction n)
  case 0
  then show ?case by simp
next
  case (Suc n)
  let ?blk = "\<lambda>q. chacha_block k iv (c + of_nat q)"
  let ?out = "map (\<lambda>i. data ! i XOR chacha_stream k iv c i) [0..<n] @ drop n out"
  obtain b where b: "fold (chacha_byte data) [0..<n] (chacha_init k iv c, replicate 64 0, out) =
      (chacha_init k iv (c + of_nat ((n + 63) div 64)), b, ?out)"
    "0 < n \<longrightarrow> b = ?blk ((n - 1) div 64)" using Suc by auto
  have n: "n < length data" using Suc.prems by simp
  have out: "?out[n := data ! n XOR x] = map (\<lambda>i. data ! i XOR chacha_stream k iv c i) [0..<n] @ (data ! n XOR x) # drop (Suc n) out"
    for x using n assms(1) by (simp add: list_update_append Cons_nth_drop_Suc [symmetric])
  have "chacha_byte data n (chacha_init k iv (c + of_nat ((n + 63) div 64)), b, ?out) =
     (chacha_init k iv (c + of_nat ((Suc n + 63) div 64)), ?blk (n div 64), ?out[n := data ! n XOR ?blk (n div 64) ! (n mod 64)])"
  proof (cases "n mod 64 = 0")
    case True
    then obtain q where "n = 64 * q" by (auto simp: mod_eq_0_iff_dvd)
    then have "(n + 63) div 64 = n div 64" "(Suc n + 63) div 64 = Suc (n div 64)" by simp_all
    then show ?thesis
      using True chacha_init_step [of k iv "c + of_nat (n div 64)"]
      by (simp add: chacha_byte_def Let_def chacha_block_def add.assoc add.commute [of 1])
  next
    case False
    obtain q r where "n = 64 * q + Suc r" "Suc r < 64"
      using False by (metis mult_div_mod_eq mod_less_divisor not0_implies_Suc zero_less_numeral)
    moreover from this have "n + 63 = 64 * (q + 1) + r" "Suc n + 63 = 64 * (q + 1) + Suc r" by simp_all
    moreover have "(64 * (q + 1) + x) div 64 = q + 1" if "x < 64" for x using that by simp
    ultimately have "(n + 63) div 64 = (Suc n + 63) div 64" "(n - 1) div 64 = n div 64" "0 < n"
      by (metis Suc_lessD, simp_all)
    then show ?thesis using False b(2) by (simp add: chacha_byte_def Let_def)
  qed
  then show ?case using b(1) out by (simp add: chacha_stream_def)
qed

lemma chacha20_correct:
  assumes "length data \<le> length out"
  shows "BRChacha20 out k iv data c =
    map (\<lambda>i. data ! i XOR chacha_stream k iv c i) [0..<length data] @ drop (length data) out"
  using chacha_bytes [OF assms le_refl, of k iv c] by (auto simp: BRChacha20_def)


lemma chacha20_empty [simp]: "BRChacha20 out k iv [] c = out"
  by (simp add: BRChacha20_def)

lemma word_xor_eq_0: "a XOR b = 0 \<longleftrightarrow> a = (b :: 'a::len word)"
  by (metis xor.assoc xor.right_neutral xor_self_eq)

lemma chacha20_nth: "length data \<le> length out \<Longrightarrow> i < length data \<Longrightarrow>
    BRChacha20 out k iv data c ! i = data ! i XOR chacha_stream k iv c i"
  by (simp add: chacha20_correct nth_append)

lemma length_chacha20 [simp]: "length data \<le> length out \<Longrightarrow> length (BRChacha20 out k iv data c) = length out"
  by (simp add: chacha20_correct)

lemma chacha20_involution:
  assumes "length data \<le> length out" "length data \<le> length out'"
  shows "BRChacha20 out' k iv (take (length data) (BRChacha20 out k iv data c)) c = data @ drop (length data) out'"
proof -
  let ?e = "take (length data) (BRChacha20 out k iv data c)"
  have "length ?e = length data" using assms by simp
  moreover have "map (\<lambda>i. ?e ! i XOR chacha_stream k iv c i) [0..<length data] = data"
    using assms by (intro nth_equalityI) (simp_all add: chacha20_nth xor.assoc)
  ultimately show ?thesis using assms by (simp add: chacha20_correct)
qed

section \<open>The AEAD\<close>

lemma u32_at_eqI:
  assumes "length x = 16" "length y = 16" "\<And>i. i < 4 \<Longrightarrow> u32_at x i = u32_at y i"
  shows "x = y"
proof -
  have "take (4 * 4) x = take (4 * 4) y"
    unfolding concat_chunks [symmetric]
    by (intro arg_cong [where f = concat] map_cong) (use assms in \<open>auto simp flip: le_bytes_u32_at\<close>)
  then show ?thesis using assms by simp
qed

lemma length_poly_mac [simp]: "length (poly_mac h) = 16"
  by (simp add: poly_mac_def split: prod.split)

lemma tag_test:
  assumes "length mac = 16"
  shows "(let m = (\<lambda>i. u32_at mac i XOR u32_at (poly_mac h) i)
      in (m 0 OR m 1 OR m 2 OR (if m 3 \<noteq> 0 then 1 else 0)) \<noteq> (0 :: u32)) \<longleftrightarrow> mac \<noteq> poly_mac h"
proof -
  have "(\<forall>i<4. u32_at mac i = u32_at (poly_mac h) i) \<longleftrightarrow> mac = poly_mac h"
    using u32_at_eqI [OF assms length_poly_mac [of h]] by metis
  moreover have "(\<forall>i<4. P i) \<longleftrightarrow> P 0 \<and> P 1 \<and> P 2 \<and> P (3 :: nat)" for P
    by (simp add: all_less_numeral numeral_eq_Suc less_Suc_eq) blast
  ultimately show ?thesis
    by (simp add: Let_def or_eq_0_iff word_xor_eq_0) blast
qed

definition aead_counter :: "bytes \<Rightarrow> u64" where
  "aead_counter nonce12 = push_bit 32 (ucast (u32_at nonce12 0))"

lemma aead_encrypt_eq:
  assumes "length data + 16 \<le> length out" "length data div 64 < UINT32_MAX"
  shows "BRChacha20Poly1305AEADEncrypt (Some out) key nonce data ad = (length data + 16, Some (
    let c = take (length data) (BRChacha20 out key (drop 4 nonce) data (aead_counter nonce + 1))
    in c @ poly_mac (aead_mac (aead_key key nonce) ad c) @ drop (length data + 16) out))"
proof -
  let ?o = "BRChacha20 out key (drop 4 nonce) data (aead_counter nonce + 1)"
  have "drop (length data + 16) ?o = drop (16 + length data) out"
    using assms by (simp add: chacha20_correct add.commute)
  then show ?thesis
    using assms by (simp add: BRChacha20Poly1305AEADEncrypt_def Let_def put_def aead_counter_def add.commute [of "length data"])
qed

lemma aead_decrypt_eq:
  assumes "16 \<le> length data" "(length data - 16) div 64 < UINT32_MAX" "length data \<le> length out + 16"
  shows "BRChacha20Poly1305AEADDecrypt (Some out) key nonce data ad =
    (let n = length data - 16; c = take n data in
     if drop n data = poly_mac (aead_mac (aead_key key nonce) ad c)
     then (n, Some (BRChacha20 out key (drop 4 nonce) c (aead_counter nonce + 1)))
     else (0, Some out))"
proof -
  have mac: "take 16 (drop (length data - 16) data) = drop (length data - 16) data" using assms(1) by simp
  have len: "length (drop (length data - 16) data) = 16" using assms(1) by simp
  have room: "(length data < 16 \<or> UINT32_MAX \<le> (length data - 16) div 64 \<or> length out + 16 < length data) = False"
    using assms by auto
  show ?thesis
    unfolding BRChacha20Poly1305AEADDecrypt_def option.case Let_def mac room if_False aead_counter_def [symmetric]
      tag_test [OF len, unfolded Let_def]
    by (cases "drop (length data - 16) data =
          poly_mac (aead_mac (aead_key key nonce) ad (take (length data - 16) data))") simp_all
qed


section \<open>Properties of the cipher\<close>

text \<open>ChaCha20 is the exclusive or of the data with a key stream whose byte \<open>i\<close> comes from
  block \<open>counter + i div 64\<close>, the counter being one 64 bit number although the code increments two
  words; bytes of the output buffer behind the data are untouched, and a second pass with the same
  counter restores the data.\<close>

theorem chacha20_is_keystream_xor:
  assumes "length data \<le> length out"
  shows "BRChacha20 out key iv data counter =
      map (\<lambda>i. data ! i XOR chacha_stream key iv counter i) [0..<length data] @ drop (length data) out \<and>
    BRChacha20 out key iv (take (length data) (BRChacha20 out key iv data counter)) counter =
      data @ drop (length data) out"
  using chacha20_correct [OF assms] chacha20_involution [OF assms assms] by simp

theorem chacha20_is_keystream_xor_witness:
  "BRChacha20 [0, 0, 0] [] [] (take (length [7, 8]) (BRChacha20 [0, 0, 0] [] [] [7, 8] 5)) 5 = [7, 8, 0]"
  using chacha20_is_keystream_xor [of "[7, 8]" "[0, 0, 0]" "[]" "[]" 5, THEN conjunct2] by (simp only: list.size) simp

text \<open>What the AEAD seals it opens: with room for the result and a message below the counter
  limit, sealing returns the length plus 16 and opening those bytes with the same key, nonce and
  additional data returns the message and its length.\<close>

theorem aead_open_seal:
  assumes "length data + 16 \<le> length out" and "length data \<le> length out'"
    and "length data div 64 < UINT32_MAX"
  shows "\<exists>sealed. BRChacha20Poly1305AEADEncrypt (Some out) key nonce data ad = (length data + 16, Some sealed) \<and>
    BRChacha20Poly1305AEADDecrypt (Some out') key nonce (take (length data + 16) sealed) ad =
      (length data, Some (data @ drop (length data) out'))"
proof -
  let ?e = "BRChacha20 out key (drop 4 nonce) data (aead_counter nonce + 1)"
  let ?c = "take (length data) ?e"
  let ?sealed = "?c @ poly_mac (aead_mac (aead_key key nonce) ad ?c)"
  have c: "length ?c = length data" using assms by simp
  then have "length ?sealed = length data + 16" by simp
  moreover from this have "BRChacha20Poly1305AEADDecrypt (Some out') key nonce ?sealed ad =
      (length data, Some (BRChacha20 out' key (drop 4 nonce) ?c (aead_counter nonce + 1)))"
    using assms c by (subst aead_decrypt_eq) (simp_all add: Let_def)
  moreover have "BRChacha20 out' key (drop 4 nonce) ?c (aead_counter nonce + 1) = data @ drop (length data) out'"
    using assms by (intro chacha20_involution) simp_all
  ultimately show ?thesis
    using aead_encrypt_eq [OF assms(1,3), of key nonce ad]
    by (intro exI [of _ "?sealed @ drop (length data + 16) out"]) (simp add: Let_def)
qed

theorem aead_open_seal_witness:
  "\<exists>sealed. BRChacha20Poly1305AEADEncrypt (Some (replicate 20 0)) [] [] [1, 2, 3] [9] = (length [1, 2, 3 :: u8] + 16, Some sealed) \<and>
    BRChacha20Poly1305AEADDecrypt (Some [0, 0, 0]) [] [] (take (length [1, 2, 3 :: u8] + 16) sealed) [9] =
      (length [1, 2, 3 :: u8], Some ([1, 2, 3] @ drop (length [1, 2, 3 :: u8]) [0, 0, 0]))"
  by (rule aead_open_seal) (simp_all add: UINT32_MAX_def)

text \<open>C32: opening never writes a byte of plain text unless the last 16 bytes are the Poly1305 tag of
  the additional data and the cipher text under the one-time key; with a wrong tag it returns zero
  and the buffer is what it was.\<close>

theorem aead_releases_only_authentic:
  assumes "16 \<le> length data" and "length data \<le> length out + 16" and "(length data - 16) div 64 < UINT32_MAX"
  shows "BRChacha20Poly1305AEADDecrypt (Some out) key nonce data ad =
    (if drop (length data - 16) data =
        poly_mac (aead_mac (aead_key key nonce) ad (take (length data - 16) data))
     then (length data - 16, Some (map (\<lambda>i. data ! i XOR chacha_stream key (drop 4 nonce) (aead_counter nonce + 1) i)
             [0..<length data - 16] @ drop (length data - 16) out))
     else (0, Some out))"
  using assms aead_decrypt_eq [OF assms(1,3,2), of key nonce ad] by (simp add: Let_def chacha20_correct)

theorem aead_releases_only_authentic_witness:
  "fst (BRChacha20Poly1305AEADDecrypt (Some [5]) [] [] (replicate 17 0) []) = (0 :: nat) \<or>
   poly_mac (aead_mac (aead_key [] []) [] [0]) = replicate 16 0"
  using aead_releases_only_authentic [of "replicate 17 0" "[5]" "[]" "[]" "[]"]
  by (auto simp: UINT32_MAX_def)

end
