(* ===== verification/ScryptSpec.thy ===== *)
theory ScryptSpec
  imports CipherSpec
begin

text \<open>
  The mixing functions of scrypt in \<^verbatim>\<open>BRCrypto.c\<close> against RFC 7914. The code unrolls \<open>BlockMix\<close> and
  \<open>ROMix\<close> by two, alternates between the buffers \<open>x\<close> and \<open>y\<close> and writes the even and the odd blocks
  to the two halves of the destination; the references below are written as the RFC has them.
\<close>

section \<open>BlockMix\<close>

definition salsa_xor :: "u64 list \<Rightarrow> u64 list \<Rightarrow> u64 list" where
  "salsa_xor X B = to_u64s (salsa20_8 (to_u32s (map2 (XOR) X B)))"

definition blk64 :: "u64 list \<Rightarrow> nat \<Rightarrow> u64 list" where
  "blk64 B i = take 8 (drop (8 * i) B)"

fun blockmix_Y :: "nat \<Rightarrow> u64 list \<Rightarrow> nat \<Rightarrow> u64 list" where
  "blockmix_Y r B 0 = salsa_xor (blk64 B (2 * r - 1)) (blk64 B 0)"
| "blockmix_Y r B (Suc i) = salsa_xor (blockmix_Y r B i) (blk64 B (Suc i))"

definition rfc7914_blockmix :: "nat \<Rightarrow> u64 list \<Rightarrow> u64 list" where
  "rfc7914_blockmix r B =
     concat (map (\<lambda>k. blockmix_Y r B (2 * k)) [0..<r]) @ concat (map (\<lambda>k. blockmix_Y r B (2 * k + 1)) [0..<r])"

lemma length_sx [simp]: "length (sx d a b n x) = length x"
  by (simp add: sx_def)

lemma length_salsa_double_round [simp]: "length (salsa_double_round x) = length x"
  by (simp add: salsa_double_round_def)

lemma length_salsa_rounds [simp]: "length ((salsa_double_round ^^ n) x) = length x"
  by (induction n) simp_all

lemma length_salsa20_8 [simp]: "length (salsa20_8 b) = length b"
  by (simp add: salsa20_8_def)

lemma length_to_u32s [simp]: "length (to_u32s ws) = 2 * length ws"
  by (induction ws) (simp_all add: to_u32s_def)

lemma length_to_u64s [simp]: "length (to_u64s ws) = length ws div 2"
  by (induction ws rule: to_u64s.induct) simp_all

lemma length_salsa_xor [simp]: "length (salsa_xor X B) = min (length X) (length B)"
  by (simp add: salsa_xor_def)

lemma xor_salsa_eq:
  assumes "length b = 8" "8 * i + 8 \<le> length src"
  shows "xor_salsa b src (8 * i) = salsa_xor b (blk64 src i)"
proof -
  have "map (\<lambda>j. b ! j XOR src ! (8 * i + j)) [0..<8] = map2 (XOR) b (blk64 src i)"
    using assms by (intro nth_equalityI) (simp_all add: blk64_def)
  then show ?thesis by (simp add: xor_salsa_def salsa_xor_def)
qed

lemma length_blk64: "8 * i + 8 \<le> length B \<Longrightarrow> length (blk64 B i) = 8"
  by (simp add: blk64_def)

lemma length_blockmix_Y:
  assumes "length B = 16 * r" "i < 2 * r"
  shows "length (blockmix_Y r B i) = 8"
  using assms(2)
proof (induction i)
  case 0
  then have "8 * (2 * r - 1) + 8 \<le> length B" "8 * 0 + 8 \<le> length B" using assms(1) by auto
  then show ?case by (simp add: length_blk64)
next
  case (Suc i)
  then have "8 * Suc i + 8 \<le> length B" unfolding assms(1) by simp
  then show ?case using Suc by (simp add: length_blk64)
qed

lemma length_Y_concat:
  assumes "length B = 16 * r" "n \<le> r" "\<And>k. k < n \<Longrightarrow> f k < 2 * r"
  shows "length (concat (map (\<lambda>k. blockmix_Y r B (f k)) [0..<n])) = 8 * n"
  using assms(2,3)
proof (induction n)
  case 0
  then show ?case by simp
next
  case (Suc n)
  then have "length (blockmix_Y r B (f n)) = 8" using length_blockmix_Y [OF assms(1), of "f n"] by simp
  then show ?case using Suc by simp
qed

lemma put_mid:
  "length A = off \<Longrightarrow> length new = length old \<Longrightarrow> put (A @ old @ C) off new = A @ new @ C"
  by (simp add: put_def)

lemma blockmix_steps:
  assumes B: "length B = 16 * r" and d: "length dest = 16 * r" and r: "0 < r" and n: "n \<le> r"
  defines "E \<equiv> \<lambda>n. concat (map (\<lambda>k. blockmix_Y r B (2 * k)) [0..<n])"
    and "Od \<equiv> \<lambda>n. concat (map (\<lambda>k. blockmix_Y r B (2 * k + 1)) [0..<n])"
  shows "fold (blockmix_step B r) [0..<n] (dest, blk64 B (2 * r - 1)) =
    (E n @ take (8 * (r - n)) (drop (8 * n) dest) @ Od n @ drop (8 * r + 8 * n) dest,
     if n = 0 then blk64 B (2 * r - 1) else blockmix_Y r B (2 * n - 1))"
  using n
proof (induction n)
  case 0
  then show ?case using d by (simp add: E_def Od_def)
next
  case (Suc n)
  let ?b = "if n = 0 then blk64 B (2 * r - 1) else blockmix_Y r B (2 * n - 1)"
  have n: "n < r" using Suc.prems by simp
  have lenb: "length ?b = 8"
    using n r B length_blockmix_Y [OF B, of "2 * n - 1"] by (auto simp: blk64_def)
  have y0: "salsa_xor ?b (blk64 B (2 * n)) = blockmix_Y r B (2 * n)"
    by (cases n) simp_all
  have room: "8 * (2 * n) + 8 \<le> length B" "8 * (2 * n + 1) + 8 \<le> length B" using n unfolding B by simp_all
  have len0: "length (blockmix_Y r B (2 * n)) = 8" "length (blockmix_Y r B (2 * n + 1)) = 8"
    by (rule length_blockmix_Y [OF B]; use n in simp)+
  have x0: "xor_salsa ?b B (16 * n) = blockmix_Y r B (2 * n)"
    using xor_salsa_eq [OF lenb room(1)] y0 by simp
  have x1: "xor_salsa (blockmix_Y r B (2 * n)) B (16 * n + 8) = blockmix_Y r B (2 * n + 1)"
    using xor_salsa_eq [OF len0(1) room(2)] by (simp add: algebra_simps)
  have lenE: "length (E n) = 8 * n" "length (Od n) = 8 * n"
    unfolding E_def Od_def using n by (intro length_Y_concat [OF B]; simp)+
  obtain mid old0 old1 tail where parts: "mid = take (8 * (r - Suc n)) (drop (8 * Suc n) dest)"
    "old0 = take 8 (drop (8 * n) dest)" "old1 = take 8 (drop (8 * r + 8 * n) dest)"
    "tail = drop (8 * r + 8 * Suc n) dest" by simp
  have lens: "length old0 = 8" "length old1 = 8" "length mid = 8 * (r - Suc n)" using d n by (auto simp: parts)
  have "8 * (r - n) = 8 + 8 * (r - Suc n)" using n by simp
  then have split0: "take (8 * (r - n)) (drop (8 * n) dest) = old0 @ mid"
    by (simp only: take_add drop_drop parts) (simp add: add.commute)
  have split1: "drop (8 * r + 8 * n) dest = old1 @ tail"
  proof -
    have "8 * r + 8 * Suc n = 8 + (8 * r + 8 * n)" by simp
    then have "tail = drop 8 (drop (8 * r + 8 * n) dest)" by (simp only: drop_drop parts)
    then show ?thesis by (simp only: append_take_drop_id parts(3))
  qed
  have p0: "put (E n @ take (8 * (r - n)) (drop (8 * n) dest) @ Od n @ drop (8 * r + 8 * n) dest) (8 * n) (blockmix_Y r B (2 * n))
      = E n @ blockmix_Y r B (2 * n) @ mid @ Od n @ old1 @ tail"
    unfolding split0 split1 using lenE lens len0
      put_mid [of "E n" "8 * n" "blockmix_Y r B (2 * n)" old0 "mid @ Od n @ old1 @ tail"] by simp
  have off: "length (E n @ blockmix_Y r B (2 * n) @ mid @ Od n) = 8 * n + 8 * r"
    using lenE len0 lens n by simp
  have p1: "put (E n @ blockmix_Y r B (2 * n) @ mid @ Od n @ old1 @ tail) (8 * n + 8 * r) (blockmix_Y r B (2 * n + 1))
      = E n @ blockmix_Y r B (2 * n) @ mid @ Od n @ blockmix_Y r B (2 * n + 1) @ tail"
    using put_mid [OF off, of "blockmix_Y r B (2 * n + 1)" old1 tail] len0 lens by simp
  have ES: "E (Suc n) = E n @ blockmix_Y r B (2 * n)" "Od (Suc n) = Od n @ blockmix_Y r B (2 * n + 1)"
    by (simp_all add: E_def Od_def)
  have ix: "2 * n * 8 = 16 * n" "2 * n * 8 + 8 = 16 * n + 8" "2 * n * 4 = 8 * n" "r * 8 = 8 * r" by simp_all
  show ?case
    using Suc.IH n unfolding ES parts(1) [symmetric] parts(4) [symmetric]
    by (simp only: upt_Suc_append zero_le fold_append comp_apply fold_simps Suc_leD less_imp_le blockmix_step_def
        Let_def prod.case x0 x1 ix p0 p1) simp
qed

theorem blockmix_correct:
  assumes "length B = 16 * r" "length dest = 16 * r" "0 < r"
  shows "blockmix_salsa8 dest B r = rfc7914_blockmix r B"
proof -
  have "take 8 (drop ((2 * r - 1) * 8) B) = blk64 B (2 * r - 1)" by (simp add: blk64_def mult.commute)
  then show ?thesis
    using blockmix_steps [OF assms le_refl] assms(2)
    by (simp add: blockmix_salsa8_def rfc7914_blockmix_def)
qed

section \<open>ROMix\<close>

text \<open>\<open>V j\<close> is \<open>BlockMix\<close> applied \<open>j\<close> times to the input; \<open>Integerify X\<close> is the last of the \<open>2 * r\<close> blocks of 64
  bytes as a little endian number; a turn of the second loop xors row \<open>Integerify X mod n\<close> and mixes.\<close>

definition rfc7914_V :: "nat \<Rightarrow> u64 list \<Rightarrow> nat \<Rightarrow> u64 list" where
  "rfc7914_V r B j = (rfc7914_blockmix r ^^ j) B"

definition rfc7914_integerify :: "nat \<Rightarrow> u64 list \<Rightarrow> nat" where
  "rfc7914_integerify r X = horner_sum unat (2 ^ 64) (take 8 (drop ((2 * r - 1) * 8) X))"

definition rfc7914_turn :: "nat \<Rightarrow> nat \<Rightarrow> u64 list \<Rightarrow> u64 list \<Rightarrow> u64 list" where
  "rfc7914_turn n r B X =
     rfc7914_blockmix r (map2 (XOR) X (rfc7914_V r B (rfc7914_integerify r X mod n)))"

text \<open>For a power of two the lowest word of the block and a mask give the remainder.\<close>

lemma integerify_index:
  assumes "n = 2 ^ k" "n < 2 ^ 64" "0 < r" "length X = 16 * r"
  shows "unat (X ! ((2 * r - 1) * 8) AND (of_nat n - 1)) = rfc7914_integerify r X mod n"
proof -
  let ?o = "(2 * r - 1) * 8"
  have k: "k < 64"
  proof (rule ccontr)
    assume "\<not> k < 64"
    then have "(2 :: nat) ^ 64 \<le> 2 ^ k" by (intro power_increasing) simp_all
    then show False using assms(1,2) by simp
  qed
  have "?o < length X" using assms(3,4) by simp
  then have "drop ?o X = X ! ?o # drop (Suc ?o) X" by (simp add: Cons_nth_drop_Suc)
  then have "rfc7914_integerify r X = unat (X ! ?o) + 2 ^ 64 * horner_sum unat (2 ^ 64) (take 7 (drop (Suc ?o) X))"
    by (simp only: rfc7914_integerify_def) simp
  moreover have "(2 :: nat) ^ 64 = 2 ^ k * 2 ^ (64 - k)" using k by (simp flip: power_add)
  ultimately have "rfc7914_integerify r X mod n = unat (X ! ?o) mod n"
    unfolding assms(1) by (simp only: mult.assoc mod_mult_self2)
  moreover have "(of_nat n - 1 :: u64) = mask k" by (simp add: assms(1) mask_eq_exp_minus_1)
  then have "unat (X ! ?o AND (of_nat n - 1)) = unat (X ! ?o) mod n"
    by (simp only: take_bit_eq_mask [symmetric] unsigned_take_bit_eq) (simp only: take_bit_eq_mod assms(1))
  ultimately show ?thesis by simp
qed

definition rfc7914_romix :: "nat \<Rightarrow> nat \<Rightarrow> u64 list \<Rightarrow> u64 list" where
  "rfc7914_romix n r B = (rfc7914_turn n r B ^^ n) (rfc7914_V r B n)"

lemma length_rfc_blockmix:
  assumes "length B = 16 * r"
  shows "length (rfc7914_blockmix r B) = 16 * r"
proof -
  have "length (concat (map (\<lambda>k. blockmix_Y r B (2 * k)) [0..<r])) = 8 * r"
    "length (concat (map (\<lambda>k. blockmix_Y r B (2 * k + 1)) [0..<r])) = 8 * r"
    by (intro length_Y_concat [OF assms]; simp)+
  then show ?thesis by (simp add: rfc7914_blockmix_def)
qed

lemma length_rfc_V: "length B = 16 * r \<Longrightarrow> length (rfc7914_V r B j) = 16 * r"
  by (induction j) (simp_all add: rfc7914_V_def length_rfc_blockmix)

lemma put_row:
  assumes "length A = off" "off + length row \<le> length v"
  shows "put (A @ drop off v) off row = (A @ row) @ drop (off + length row) v"
  using assms by (simp add: put_def add.commute)

text \<open>After \<open>j\<close> rows the array holds \<open>V 0, ..., V (j - 1)\<close>.\<close>

definition rows :: "nat \<Rightarrow> u64 list \<Rightarrow> nat \<Rightarrow> u64 list" where
  "rows r B n = concat (map (rfc7914_V r B) [0..<n])"

lemma length_rows: "length B = 16 * r \<Longrightarrow> length (rows r B n) = n * (16 * r)"
  by (induction n) (simp_all add: rows_def length_rfc_V)

lemma rows_Suc: "rows r B (Suc n) = rows r B n @ rfc7914_V r B n"
  by (simp add: rows_def)

lemma nth_rows:
  assumes "length B = 16 * r" "m < n"
  shows "take (16 * r) (drop (m * (16 * r)) (rows r B n)) = rfc7914_V r B m"
proof -
  have "[0..<n] = [0..<m] @ m # [Suc m..<n]"
    using assms(2) upt_add_eq_append [of 0 m "n - m"] by (simp add: upt_conv_Cons)
  then have "rows r B n = rows r B m @ rfc7914_V r B m @ concat (map (rfc7914_V r B) [Suc m..<n])"
    by (simp add: rows_def)
  then show ?thesis using length_rows [OF assms(1)] length_rfc_V [OF assms(1)] by simp
qed

lemma fill_correct:
  assumes r: "0 < r" and B: "length B = 16 * r" and y: "length y = 16 * r"
    and v: "(j + 2 * turns) * (16 * r) \<le> length v"
  shows "\<exists>y'. scrypt_fill r turns j (rows r B j @ drop (j * (16 * r)) v, rfc7914_V r B j, y) =
    Some (rows r B (j + 2 * turns) @ drop ((j + 2 * turns) * (16 * r)) v, rfc7914_V r B (j + 2 * turns), y') \<and>
    length y' = 16 * r"
  using v y
proof (induction turns arbitrary: j y)
  case 0
  then show ?case by simp
next
  case (Suc turns)
  let ?V = "rfc7914_V r B"
  note lenV = length_rfc_V [OF B] and lenR = length_rows [OF B]
  have room: "j * (16 * r) + 16 * r \<le> length v" "Suc j * (16 * r) + 16 * r \<le> length v"
    using Suc.prems(1) le_trans [OF mult_le_mono1] by (fastforce simp: algebra_simps)+
  have row0: "store_row (rows r B j @ drop (j * (16 * r)) v) (j * (16 * r)) (?V j) =
      Some (rows r B (Suc j) @ drop (Suc j * (16 * r)) v)"
    using put_row [of "rows r B j" "j * (16 * r)" "?V j" v] room lenV lenR
    by (simp add: store_row_def rows_Suc add.commute)
  have row1: "store_row (rows r B (Suc j) @ drop (Suc j * (16 * r)) v) ((j + 1) * (16 * r)) (?V (Suc j)) =
      Some (rows r B (Suc (Suc j)) @ drop (Suc (Suc j) * (16 * r)) v)"
    using put_row [of "rows r B (Suc j)" "Suc j * (16 * r)" "?V (Suc j)" v] room lenV lenR
    by (simp add: store_row_def rows_Suc add.commute)
  have mix: "blockmix_salsa8 d (?V i) r = ?V (Suc i)" if "length d = 16 * r" for d i
    using blockmix_correct [OF lenV that r] by (simp add: rfc7914_V_def)
  have rest: "\<exists>y'. scrypt_fill r turns (j + 2) (rows r B (j + 2) @ drop ((j + 2) * (16 * r)) v, ?V (j + 2), ?V (j + 1)) =
    Some (rows r B (j + 2 + 2 * turns) @ drop ((j + 2 + 2 * turns) * (16 * r)) v, ?V (j + 2 + 2 * turns), y') \<and>
    length y' = 16 * r"
    using Suc.prems(1) lenV by (intro Suc.IH) (simp_all add: algebra_simps)
  show ?case
    using rest Suc.prems(2) by (simp add: row0 row1 [simplified] mix lenV)
qed


lemma index_below: "0 < n \<Longrightarrow> n < 2 ^ 64 \<Longrightarrow> unat ((w :: u64) AND (of_nat n - 1)) < n"
proof -
  assume n: "0 < n" "n < 2 ^ 64"
  then obtain k where k: "n = Suc k" by (cases n) simp_all
  then have "unat (of_nat n - 1 :: u64) = n - 1" using n by (simp add: unsigned_of_nat take_bit_nat_eq_self)
  moreover have "w AND (of_nat n - 1) \<le> of_nat n - 1" by (rule word_and_le1)
  ultimately show ?thesis using n by (simp add: word_le_nat_alt)
qed

lemma scrypt_xor_correct:
  assumes B: "length B = 16 * r" and n: "0 < n" "n < 2 ^ 64"
  shows "scrypt_xor n r (rows r B n @ rest) X =
    Some (map2 (XOR) X (rfc7914_V r B (unat (X ! ((2 * r - 1) * 8) AND (of_nat n - 1)))))"
proof -
  let ?m = "unat (X ! ((2 * r - 1) * 8) AND (of_nat n - 1))"
  have m: "?m < n" using index_below [OF n] .
  then have "Suc ?m * (16 * r) \<le> n * (16 * r)" by (intro mult_le_mono1) simp
  then have room: "?m * (16 * r) + 16 * r \<le> length (rows r B n)"
    using length_rows [OF B] by simp
  then have "take (16 * r) (drop (?m * (16 * r)) (rows r B n @ rest)) = rfc7914_V r B ?m"
    using nth_rows [OF B m] by simp
  then show ?thesis using room by (simp add: scrypt_xor_def slice_def Let_def)
qed

lemma mix_correct:
  assumes r: "0 < r" and B: "length B = 16 * r" and n: "0 < n" "n < 2 ^ 64" and pow: "n = 2 ^ k"
    and x: "length x = 16 * r" "length y = 16 * r"
  shows "\<exists>y'. scrypt_mix n r turns (rows r B n @ rest) (x, y) =
    Some ((rfc7914_turn n r B ^^ (2 * turns)) x, y') \<and> length y' = 16 * r"
  using x
proof (induction turns arbitrary: x y)
  case 0
  then show ?case by simp
next
  case (Suc turns)
  let ?X = "\<lambda>x. map2 (XOR) x (rfc7914_V r B (unat (x ! ((2 * r - 1) * 8) AND (of_nat n - 1))))"
  let ?T = "rfc7914_turn n r B"
  have lenX: "length (?X z) = 16 * r" if "length z = 16 * r" for z
    using that length_rfc_V [OF B] by simp
  have mix: "blockmix_salsa8 d (?X z) r = ?T z" if "length z = 16 * r" "length d = 16 * r" for d z
    using blockmix_correct [OF lenX [OF that(1)] that(2) r] integerify_index [OF pow n(2) r that(1)]
    by (simp only: rfc7914_turn_def)
  have lenT: "length (?T z) = 16 * r" if "length z = 16 * r" for z
    using length_rfc_blockmix [OF lenX [OF that]] integerify_index [OF pow n(2) r that] by (simp only: rfc7914_turn_def)
  note xor = scrypt_xor_correct [OF B n, of rest]
  have "scrypt_mix n r (Suc turns) (rows r B n @ rest) (x, y) =
      scrypt_mix n r turns (rows r B n @ rest) (?T (?T x), ?X (?T x))"
    unfolding scrypt_mix.simps Let_def prod.case xor bind.bind_lunit
    by (simp only: mix Suc.prems lenT lenX)
  then show ?case
    using Suc.IH [OF lenT [OF lenT [OF Suc.prems(1)]] lenX [OF lenT [OF Suc.prems(1)]]]
    by (simp add: funpow_swap1)
qed

text \<open>For a number of rows that is a power of two (from two on) the two loops, unrolled by two and alternating
  between two buffers, stay inside the row array and compute \<open>ROMix\<close>.\<close>

lemma romix_correct:
  assumes "0 < r" and "length x = 16 * r" and "length y = 16 * r"
    and "n = 2 ^ k" and "0 < k" and "n < 2 ^ 64" and "n * (16 * r) \<le> length v"
  shows "\<exists>v' y'. scrypt_romix n r (v, x, y) = Some (v', rfc7914_romix n r x, y') \<and>
    length v' = length v \<and> length y' = 16 * r \<and>
    blockmix_salsa8 y x r = rfc7914_blockmix r x"
proof -
  have pos: "0 < n" using assms(4) by simp
  obtain t where t: "n = 2 * t" using assms(4,5) by (cases k) simp_all
  then have turns: "(n + 1) div 2 = t" by simp
  have "(0 + 2 * t) * (16 * r) \<le> length v" using assms(7) t by simp
  from fill_correct [OF assms(1,2,3) this] obtain y1 where y1:
    "scrypt_fill r t 0 (v, x, y) = Some (rows r x n @ drop (n * (16 * r)) v, rfc7914_V r x n, y1)" "length y1 = 16 * r"
    by (auto simp: t rows_def rfc7914_V_def)
  from mix_correct [OF assms(1,2) pos assms(6,4) length_rfc_V [OF assms(2)] y1(2), of t "drop (n * (16 * r)) v" n] obtain y2 where
    "scrypt_mix n r t (rows r x n @ drop (n * (16 * r)) v) (rfc7914_V r x n, y1) = Some (rfc7914_romix n r x, y2)"
    "length y2 = 16 * r" by (auto simp: rfc7914_romix_def t)
  moreover have "length (rows r x n @ drop (n * (16 * r)) v) = length v"
    using length_rows [OF assms(2), of n] assms(7) by simp
  ultimately show ?thesis
    using y1 blockmix_correct [OF assms(2,3,1)] unfolding scrypt_romix_def turns by simp
qed

section \<open>The whole function\<close>

definition words64 :: "bytes \<Rightarrow> u64 list" where
  "words64 b = map (u64_at b) [0..<length b div 8]"

definition rfc7914_lane :: "nat \<Rightarrow> nat \<Rightarrow> bytes \<Rightarrow> nat \<Rightarrow> bytes" where
  "rfc7914_lane n r b i = image64 (rfc7914_romix n r (words64 (take (128 * r) (drop (i * (128 * r)) b))))"

definition rfc8018_pbkdf2 :: "nat \<Rightarrow> bytes \<Rightarrow> bytes \<Rightarrow> bytes" where
  "rfc8018_pbkdf2 dkLen pw salt =
     take dkLen (concat (map (\<lambda>i. rfc8018_block BRSHA256 32 pw salt 1 (i + 1)) [0..<blocks_for dkLen 32]))"

definition rfc7914_scrypt :: "nat \<Rightarrow> bytes \<Rightarrow> bytes \<Rightarrow> nat \<Rightarrow> nat \<Rightarrow> nat \<Rightarrow> bytes" where
  "rfc7914_scrypt dkLen pw salt n r p =
     (let b = rfc8018_pbkdf2 (p * (128 * r)) pw salt
      in rfc8018_pbkdf2 dkLen pw (concat (map (rfc7914_lane n r b) [0..<p])))"

lemma length_rfc_turns: "length B = 16 * r \<Longrightarrow> length x = 16 * r \<Longrightarrow> length ((rfc7914_turn n r B ^^ k) x) = 16 * r"
  by (induction k) (simp_all add: rfc7914_turn_def length_rfc_blockmix length_rfc_V)

lemma length_romix: "length B = 16 * r \<Longrightarrow> length (rfc7914_romix n r B) = 16 * r"
  by (simp add: rfc7914_romix_def length_rfc_turns length_rfc_V)

lemma le_word_pair: "length xs = 4 \<Longrightarrow> length ys = 4 \<Longrightarrow>
   (le_word (xs @ ys) :: u64) = ucast (le_word xs :: u32) OR push_bit 32 (ucast (le_word ys :: u32))"
proof (rule bit_word_eqI)
  fix k assume len: "length xs = 4" "length ys = 4" and k: "k < LENGTH(64)"
  show "bit (le_word (xs @ ys) :: u64) k \<longleftrightarrow> bit (ucast (le_word xs :: u32) OR push_bit 32 (ucast (le_word ys :: u32)) :: u64) k"
  proof (cases "k < 32")
    case True
    then have "k div 8 < 4" by presburger
    then show ?thesis
      using True k len by (simp add: bit_le_word bit_or_iff bit_push_bit_iff bit_unsigned_iff nth_append)
  next
    case False
    then obtain m where m: "k = m + 8 * 4" using le_Suc_ex [of 32 k] by (auto simp: add.commute)
    have "(m + 8 * 4) div 8 = 4 + m div 8" by (rule div_mult_self2) simp
    moreover have "(m + 8 * 4) mod 8 = m mod 8" by (rule mod_mult_self2)
    ultimately have "k div 8 = (k - 32) div 8 + 4" "k mod 8 = (k - 32) mod 8" "(k - 32) div 8 < 4" using k m by auto
    moreover have "k - 32 < 32" using k by simp
    ultimately show ?thesis
      using False k len by (simp add: bit_le_word bit_or_iff bit_push_bit_iff bit_unsigned_iff nth_append)
  qed
qed

lemma u64_of_u32s: "8 * i + 8 \<le> length b \<Longrightarrow> u64_at b i = ucast (u32_at b (2 * i)) OR push_bit 32 (ucast (u32_at b (2 * i + 1)))"
proof -
  assume len: "8 * i + 8 \<le> length b"
  have "take 8 (drop (8 * i) b) = take 4 (drop (8 * i) b) @ take 4 (drop (8 * i + 4) b)"
    using take_add [of 4 4 "drop (8 * i) b"] by (simp add: add.commute)
  then show ?thesis using len by (simp add: u64_at_def u32_at_def le_word_pair add.commute [of 4])
qed

lemma to_u64s_map: "to_u64s (map f [0..<2 * n]) = map (\<lambda>i. ucast (f (2 * i)) OR push_bit 32 (ucast (f (2 * i + 1)))) [0..<n]"
proof (induction n)
  case (Suc n)
  have app: "even (length xs) \<Longrightarrow> to_u64s (xs @ [a, b]) = to_u64s xs @ [ucast a OR push_bit 32 (ucast b)]" for xs a b
    by (induction xs rule: to_u64s.induct) simp_all
  show ?case using Suc app [of "map f [0..<2 * n]"] by simp
qed simp

lemma lane_words:
  assumes "i * (128 * r) + 128 * r \<le> length b"
  shows "to_u64s (map (\<lambda>j. u32_at b (i * 32 * r + j)) [0..<32 * r]) = words64 (take (128 * r) (drop (i * (128 * r)) b))"
proof -
  let ?l = "take (128 * r) (drop (i * (128 * r)) b)"
  have "u32_at b (i * 32 * r + j) = u32_at ?l j" if "j < 32 * r" for j
  proof -
    have "4 * j + 4 \<le> 128 * r" using that by simp
    then show ?thesis by (simp add: u32_at_def drop_take algebra_simps min_def)
  qed
  then have "map (\<lambda>j. u32_at b (i * 32 * r + j)) [0..<2 * (16 * r)] = map (u32_at ?l) [0..<2 * (16 * r)]" by simp
  moreover have "u64_at ?l k = ucast (u32_at ?l (2 * k)) OR push_bit 32 (ucast (u32_at ?l (2 * k + 1)))" if "k < 16 * r" for k
    using that assms by (intro u64_of_u32s) simp
  ultimately have "to_u64s (map (\<lambda>j. u32_at b (i * 32 * r + j)) [0..<2 * (16 * r)]) = map (u64_at ?l) [0..<16 * r]"
    by (simp only: to_u64s_map) simp
  then show ?thesis using assms by (simp add: words64_def)
qed

lemma length_words64: "length (words64 b) = length b div 8"
  by (simp add: words64_def)

lemma lanes_correct:
  assumes r: "0 < r" and n: "n = 2 ^ k" "0 < k" "n < 2 ^ 64" and v: "n * (16 * r) \<le> length v" "length y = 16 * r"
    and b: "length b = (i + p) * (128 * r)"
  shows "scrypt_lanes n r p i (v, y) b =
    Some (take (i * (128 * r)) b @ concat (map (rfc7914_lane n r b) [i..<i + p]))"
  using v b
proof (induction p arbitrary: i v y b)
  case (Suc p)
  let ?L = "128 * r" and ?w = "words64 (take (128 * r) (drop (i * (128 * r)) b))"
  have fits: "i * ?L + ?L \<le> length b" using Suc.prems(3) by (simp add: algebra_simps)
  have w: "length ?w = 16 * r" using fits by (simp add: length_words64)
  obtain v' y' where rom: "scrypt_romix n r (v, ?w, y) = Some (v', rfc7914_romix n r ?w, y')" "length v' = length v" "length y' = 16 * r"
    using romix_correct [OF r w Suc.prems(2) n Suc.prems(1)] by blast
  let ?b = "put b (i * ?L) (rfc7914_lane n r b i)"
  have lane: "length (rfc7914_lane n r b i) = ?L" using length_romix [OF w, of n] by (simp add: rfc7914_lane_def)
  have lb: "length ?b = (Suc i + p) * ?L" using fits lane Suc.prems(3) by simp
  have same: "rfc7914_lane n r ?b k = rfc7914_lane n r b k" if "k \<in> set [Suc i..<Suc i + p]" for k
  proof -
    have k: "Suc i \<le> k" using that by auto
    then have "i * ?L + ?L \<le> k * ?L" using mult_le_mono1 [of "Suc i" k ?L] by simp
    then have "drop (k * ?L) ?b = drop (k * ?L) b"
      using lane fits k by (simp add: put_def drop_append)
    then show ?thesis by (simp only: rfc7914_lane_def)
  qed
  have "scrypt_lanes n r (Suc p) i (v, y) b = scrypt_lanes n r p (Suc i) (v', y') ?b"
    using rom(1) lane_words [OF fits] by (simp add: rfc7914_lane_def mult.assoc mult.commute mult.left_commute)
  also have "\<dots> = Some (take (Suc i * ?L) ?b @ concat (map (rfc7914_lane n r ?b) [Suc i..<Suc i + p]))"
    using Suc.prems(1) rom(2,3) lb by (intro Suc.IH) simp_all
  also have "map (rfc7914_lane n r ?b) [Suc i..<Suc i + p] = map (rfc7914_lane n r b) [Suc i..<Suc i + p]"
    using same by (rule map_cong [OF refl])
  also have "take (Suc i * ?L) ?b = take (i * ?L) b @ rfc7914_lane n r b i"
    using lane fits by (simp add: put_def add.commute)
  also have "(take (i * ?L) b @ rfc7914_lane n r b i) @ concat (map (rfc7914_lane n r b) [Suc i..<Suc i + p]) =
      take (i * ?L) b @ concat (map (rfc7914_lane n r b) [i..<i + Suc p])"
    using upt_conv_Cons_Suc [of i "i + Suc p"] by simp
  finally show ?case .
qed simp

lemma pbkdf2_sha256: "BRPBKDF2 dk BRSHA256 32 pw salt 1 = rfc8018_pbkdf2 (length dk) pw salt"
  by (simp add: rfc8018_pbkdf2_def hf_sha256.pbkdf2_correct)

lemma length_pbkdf2: "length (rfc8018_pbkdf2 n pw salt) = n"
  using hf_sha256.pbkdf2_length [of "replicate n 0" pw salt 1] unfolding pbkdf2_sha256 by simp

lemma scrypt_correct:
  assumes pow: "n = 2 ^ k" "0 < k" and size: "0 < r" "128 * r * n < 2 ^ 32" "128 * r * p < 2 ^ 32"
  shows "BRScrypt dk pw salt (of_nat n) (of_nat r) (of_nat p) = Some (rfc7914_scrypt (length dk) pw salt n r p)"
proof -
  have "1 * n \<le> (128 * r) * n" "1 * r \<le> (128 * n) * r" "1 * p \<le> (128 * r) * p" "32 * r * p \<le> 128 * r * p"
    using size(1) pow by (intro mult_le_mono1; simp)+
  moreover have "(128 * n) * r = 128 * r * n" by simp
  ultimately have small: "n < 2 ^ 32" "r < 2 ^ 32" "p < 2 ^ 32" "32 * r * p < 2 ^ 32" using size(2,3) by linarith+
  have un: "unat (of_nat n :: u32) = n" "unat (of_nat r :: u32) = r" "unat (of_nat p :: u32) = p"
    using small by (simp_all add: unsigned_of_nat take_bit_nat_eq_self)
  have "128 * of_nat r * of_nat n = (of_nat (128 * r * n) :: u32)" "32 * of_nat r * of_nat p = (of_nat (32 * r * p) :: u32)" by simp_all
  then have sizes: "unat (128 * of_nat r * of_nat n :: u32) = 128 * r * n" "unat (32 * of_nat r * of_nat p :: u32) = 32 * r * p"
    using size(2) small(4) by (simp_all only: unsigned_of_nat take_bit_nat_eq_self len_num0 len_bit0 len_num1 of_nat_id) (simp_all add: take_bit_nat_eq_self)
  let ?b = "rfc8018_pbkdf2 (p * (128 * r)) pw salt"
  have "128 * r * n div 8 = n * (16 * r)" by (simp add: mult.commute mult.left_commute)
  then have "scrypt_lanes n r p 0 (replicate (128 * r * n div 8) 0, replicate (16 * r) 0) ?b =
      Some (take (0 * (128 * r)) ?b @ concat (map (rfc7914_lane n r ?b) [0..<0 + p]))"
    using size(1) pow small(1) by (intro lanes_correct [of r n k]) (simp_all add: length_pbkdf2)
  moreover have "4 * (32 * r * p) = p * (128 * r)" by simp
  ultimately show ?thesis
    unfolding BRScrypt_def Let_def un sizes pbkdf2_sha256 length_replicate rfc7914_scrypt_def by (simp add: mult.commute mult.left_commute)
qed



end
