(* ===== verification/Base58.thy ===== *)
theory Base58
  imports Hashes
begin

text \<open>
  \<^verbatim>\<open>BRBase58.c\<close>: base58 and base58check. A C string is the list of its characters before the
  terminating zero. An output buffer is \<open>None\<close> for \<open>NULL\<close> or the bytes it holds; the functions
  return the size the C function returns and the buffer afterwards.
\<close>

section \<open>Encoding\<close>

definition base58chars :: bytes where
  "base58chars = map (of_nat \<circ> of_char) ''123456789ABCDEFGHJKLMNPQRSTUVWXYZabcdefghijkmnopqrstuvwxyz''"

text \<open>The two inner loops: \<open>j\<close> runs from the end of \<open>buf\<close> to its start.\<close>

definition b58_encode_digit :: "nat \<Rightarrow> bytes \<times> u32 \<Rightarrow> bytes \<times> u32" where
  "b58_encode_digit j st = (case st of (buf, carry) \<Rightarrow>
     let carry = carry + push_bit 8 (ucast (buf ! j))
     in (buf[j := ucast (carry mod 58)], carry div 58))"

definition b58_encode_byte :: "u8 \<Rightarrow> bytes \<Rightarrow> bytes" where
  "b58_encode_byte b buf = fst (fold b58_encode_digit (rev [0..<length buf]) (buf, ucast b))"

definition BRBase58Encode :: "bytes option \<Rightarrow> bytes \<Rightarrow> nat \<times> bytes option" where
  "BRBase58Encode str data =
     (let zcount = length (takeWhile (\<lambda>b. b = 0) data);
          buf = replicate ((length data - zcount) * 138 div 100 + 1) 0;
          buf = fold b58_encode_byte (drop zcount data) buf;
          i = length (takeWhile (\<lambda>b. b = 0) buf);
          len = (zcount + length buf - i) + 1
      in case str of
           None \<Rightarrow> (len, None)
         | Some s \<Rightarrow>
             if len \<le> length s then
               (len, Some (put s 0 (replicate zcount (base58chars ! 0) @
                  map (\<lambda>d. base58chars ! unat d) (drop i buf) @ [0])))
             else (0, Some s))"

section \<open>Decoding\<close>

text \<open>The \<open>switch\<close> over the character ranges; \<open>None\<close> is the \<open>default\<close> label (\<open>UINT32_MAX\<close>).\<close>

definition b58_range :: "char \<Rightarrow> char \<Rightarrow> nat \<Rightarrow> u8 \<Rightarrow> u32 option" where
  "b58_range lo hi base c =
     (if of_char lo \<le> unat c \<and> unat c \<le> of_char hi then Some (of_nat (unat c - of_char lo + base)) else None)"

definition b58_digit :: "u8 \<Rightarrow> u32" where
  "b58_digit c =
     (case b58_range (CHR ''1'') (CHR ''9'') 0 c of Some d \<Rightarrow> d | None \<Rightarrow>
      case b58_range (CHR ''A'') (CHR ''H'') 9 c of Some d \<Rightarrow> d | None \<Rightarrow>
      case b58_range (CHR ''J'') (CHR ''N'') 17 c of Some d \<Rightarrow> d | None \<Rightarrow>
      case b58_range (CHR ''P'') (CHR ''Z'') 22 c of Some d \<Rightarrow> d | None \<Rightarrow>
      case b58_range (CHR ''a'') (CHR ''k'') 33 c of Some d \<Rightarrow> d | None \<Rightarrow>
      case b58_range (CHR ''m'') (CHR ''z'') 44 c of Some d \<Rightarrow> d | None \<Rightarrow> - 1)"

definition b58_decode_digit :: "nat \<Rightarrow> bytes \<times> u32 \<Rightarrow> bytes \<times> u32" where
  "b58_decode_digit j st = (case st of (buf, carry) \<Rightarrow>
     let carry = carry + ucast (buf ! j) * 58
     in (buf[j := ucast (carry AND 0xff)], drop_bit 8 carry))"

definition b58_decode_char :: "u32 \<Rightarrow> bytes \<Rightarrow> bytes" where
  "b58_decode_char d buf = fst (fold b58_decode_digit (rev [0..<length buf]) (buf, d))"

text \<open>The loop over the characters stops at the first invalid one.\<close>

fun b58_decode_loop :: "bytes \<Rightarrow> bytes \<Rightarrow> bytes" where
  "b58_decode_loop [] buf = buf"
| "b58_decode_loop (c # cs) buf =
     (if b58_digit c \<ge> 58 then buf else b58_decode_loop cs (b58_decode_char (b58_digit c) buf))"

definition BRBase58Decode :: "bytes option \<Rightarrow> bytes \<Rightarrow> nat \<times> bytes option" where
  "BRBase58Decode data str =
     (let zcount = length (takeWhile (\<lambda>c. c = base58chars ! 0) str);
          str = drop zcount str;
          buf = replicate (length str * 733 div 1000 + 1) 0;
          buf = b58_decode_loop str buf;
          i = length (takeWhile (\<lambda>b. b = 0) buf);
          len = zcount + length buf - i
      in case data of
           None \<Rightarrow> (len, None)
         | Some d \<Rightarrow>
             if len \<le> length d then (len, Some (put (put d 0 (replicate zcount 0)) zcount (drop i buf)))
             else (0, Some d))"

section \<open>With a checksum\<close>

text \<open>\<open>buf\<close> of \<open>BRBase58CheckEncode\<close> has room for the whole digest; only four bytes of it are encoded.\<close>

definition BRBase58CheckEncode :: "bytes option \<Rightarrow> bytes \<Rightarrow> nat \<times> bytes option" where
  "BRBase58CheckEncode str data =
     (let bufLen = length data + 256 div 8;
          buf = replicate bufLen 0;
          buf = put buf 0 data;
          buf = put buf (length data) (BRSHA256_2 data)
      in BRBase58Encode str (take (length data + 4) buf))"

definition BRBase58CheckDecode :: "bytes option \<Rightarrow> bytes \<Rightarrow> nat \<times> bytes option" where
  "BRBase58CheckDecode data str =
     (let bufLen = length str;
          (len, buf) = BRBase58Decode (Some (replicate bufLen 0)) str;
          buf = the buf;
          (len, data) =
            (if len \<ge> 4 then
               let len = len - 4;
                   md = BRSHA256_2 (take len buf);
                   len' = (if take 4 (drop len buf) \<noteq> take 4 md then 0 else len)
               in (len', case data of
                     None \<Rightarrow> None
                   | Some d \<Rightarrow> if len' \<le> length d then Some (put d 0 (take len' buf)) else Some d)
             else (0, data))
      in (case data of None \<Rightarrow> len | Some d \<Rightarrow> if len \<le> length d then len else 0, data))"

end
