(* ===== verification/Address.thy ===== *)
theory Address
  imports Base58
begin

text \<open>
  \<^verbatim>\<open>BRAddress.c\<close> and \<^verbatim>\<open>BRAddress.h\<close>: variable length integers, script elements and data pushes, and the
  conversion between scripts and addresses. A pointer into a script is an offset; a script is
  short enough for its offsets to be natural numbers. \<open>NULL\<close> output buffers are \<open>None\<close>. The build
  flag \<open>BITCOIN_TESTNET\<close> is the parameter \<open>testnet\<close>.
\<close>

section \<open>Variable length integers\<close>

definition BRVarInt :: "bytes option \<Rightarrow> u64 \<times> nat" where
  "BRVarInt buf =
     (let b = (case buf of None \<Rightarrow> [] | Some b \<Rightarrow> b);
          h = (if 1 \<le> length b then b ! 0 else 0)
      in if h = 0xfd then (if 1 + 2 \<le> length b then ucast (UInt16GetLE (drop 1 b)) else 0, 1 + 2)
         else if h = 0xfe then (if 1 + 4 \<le> length b then ucast (UInt32GetLE (drop 1 b)) else 0, 1 + 4)
         else if h = 0xff then (if 1 + 8 \<le> length b then UInt64GetLE (drop 1 b) else 0, 1 + 8)
         else (ucast h, 1))"

text \<open>\<open>buf && n <= bufLen\<close> guards the store, \<open>! buf || n <= bufLen\<close> the returned size.\<close>

definition store_if_fits :: "bytes option \<Rightarrow> bytes \<Rightarrow> nat \<times> bytes option" where
  "store_if_fits buf bs =
     (case buf of
        None \<Rightarrow> (length bs, None)
      | Some b \<Rightarrow> if length bs \<le> length b then (length bs, Some (put b 0 bs)) else (0, Some b))"

definition BRVarIntSet :: "bytes option \<Rightarrow> u64 \<Rightarrow> nat \<times> bytes option" where
  "BRVarIntSet buf i =
     (if i < 0xfd then store_if_fits buf [ucast i]
      else if i \<le> 0xffff then store_if_fits buf (0xfd # UInt16SetLE (ucast i))
      else if i \<le> 0xffffffff then store_if_fits buf (0xfe # UInt32SetLE (ucast i))
      else store_if_fits buf (0xff # UInt64SetLE i))"

definition BRVarIntSize :: "u64 \<Rightarrow> nat" where
  "BRVarIntSize i = fst (BRVarIntSet None i)"

section \<open>Script elements\<close>

abbreviation (input) OP_PUSHDATA1 :: u8 where "OP_PUSHDATA1 \<equiv> 0x4c"
abbreviation (input) OP_PUSHDATA2 :: u8 where "OP_PUSHDATA2 \<equiv> 0x4d"
abbreviation (input) OP_PUSHDATA4 :: u8 where "OP_PUSHDATA4 \<equiv> 0x4e"
abbreviation (input) OP_DUP :: u8 where "OP_DUP \<equiv> 0x76"
abbreviation (input) OP_EQUAL :: u8 where "OP_EQUAL \<equiv> 0x87"
abbreviation (input) OP_EQUALVERIFY :: u8 where "OP_EQUALVERIFY \<equiv> 0x88"
abbreviation (input) OP_HASH160 :: u8 where "OP_HASH160 \<equiv> 0xa9"
abbreviation (input) OP_CHECKSIG :: u8 where "OP_CHECKSIG \<equiv> 0xac"

text \<open>The \<open>switch\<close> of one turn: the offset and \<open>len\<close> behind it. A length field that does not fit in the
  script leaves \<open>len\<close> as the previous turn left it.\<close>

definition script_turn :: "bytes \<Rightarrow> nat \<Rightarrow> nat \<Rightarrow> nat \<times> nat" where
  "script_turn script off len =
     (let op = script ! off; n = length script in
      if op = OP_PUSHDATA1 then
        (off + 1 + 1, if off + 1 + 1 \<le> n then unat (script ! (off + 1)) else len)
      else if op = OP_PUSHDATA2 then
        (off + 1 + 2, if off + 1 + 2 \<le> n then unat (UInt16GetLE (drop (off + 1) script)) else len)
      else if op = OP_PUSHDATA4 then
        (off + 1 + 4, if off + 1 + 4 \<le> n then unat (UInt32GetLE (drop (off + 1) script)) else len)
      else (off + 1, if op > OP_PUSHDATA4 then 0 else unat op))"

lemma script_turn_grows: "off < fst (script_turn script off len)"
  by (simp add: script_turn_def Let_def)

text \<open>The loop: \<open>elems\<close> is the caller's array (\<open>None\<close> for \<open>NULL\<close>), \<open>i\<close> the number of elements so far;
  the result is \<open>off\<close>, \<open>i\<close> and the array afterwards.\<close>

function script_loop :: "bytes \<Rightarrow> nat \<Rightarrow> nat \<Rightarrow> nat \<Rightarrow> nat list option \<Rightarrow> nat \<times> nat \<times> nat list option" where
  "script_loop script off i len elems =
     (if off < length script then
        let elems = (case elems of
              None \<Rightarrow> None
            | Some e \<Rightarrow> Some (if i < length e then e[i := off] else e));
            off' = fst (script_turn script off len);
            len' = snd (script_turn script off len)
        in script_loop script (off' + len') (i + 1) len' elems
      else (off, i, elems))"
  by pat_completeness auto
termination
proof (relation "measure (\<lambda>(script, off, i, len, elems). length script - off)", goal_cases)
  case 1
  then show ?case by simp
next
  case (2 script off i len elems)
  then show ?case using script_turn_grows [of off script len] by simp
qed

declare script_loop.simps [simp del]

text \<open>The number of elements, zero when they overrun the script or the array.\<close>

definition BRScriptElements :: "nat list option \<Rightarrow> bytes \<Rightarrow> nat \<times> nat list option" where
  "BRScriptElements elems script =
     (case script_loop script 0 0 0 elems of (off, i, elems) \<Rightarrow>
        (if (case elems of None \<Rightarrow> True | Some e \<Rightarrow> i \<le> length e) \<and> off = length script then i else 0, elems))"

text \<open>\<open>BRScriptData\<close> reads the element at \<open>off\<close> without a bound, so outside the script the read is
  undefined. Result: the offset of the data or \<open>NULL\<close>, and the length.\<close>

definition BRScriptData :: "bytes \<Rightarrow> nat \<Rightarrow> (nat option \<times> nat) run" where
  "BRScriptData script off = do {
     op \<leftarrow> rd script off;
     (off, n) \<leftarrow>
       (if op = OP_PUSHDATA1 then do { l \<leftarrow> rd script (off + 1); Some (off + 1 + 1, unat l) }
        else if op = OP_PUSHDATA2 then do { l \<leftarrow> get_at 2 UInt16GetLE script (off + 1); Some (off + 1 + 2, unat l) }
        else if op = OP_PUSHDATA4 then do { l \<leftarrow> get_at 4 UInt32GetLE script (off + 1); Some (off + 1 + 4, unat l) }
        else Some (off + 1, if op > OP_PUSHDATA4 then 0 else unat op));
     Some (if n > 0 then Some off else None, n)
   }"

definition BRScriptPushData :: "bytes option \<Rightarrow> bytes \<Rightarrow> nat \<times> bytes option" where
  "BRScriptPushData script data =
     (let dataLen = length data;
          head = (if dataLen < 0x4c then [of_nat dataLen]
                  else if dataLen < 255 then [OP_PUSHDATA1, of_nat dataLen]
                  else if dataLen < 65535 then OP_PUSHDATA2 # UInt16SetLE (of_nat dataLen)
                  else OP_PUSHDATA4 # UInt32SetLE (of_nat dataLen));
          len = dataLen + length head
      in case script of
           None \<Rightarrow> (len, None)
         | Some s \<Rightarrow> if len \<le> length s then (len, Some (put (put s 0 head) (len - dataLen) data)) else (0, Some s))"

section \<open>Addresses\<close>

definition pubkey_prefix :: "bool \<Rightarrow> u8" where
  "pubkey_prefix testnet = (if testnet then 111 else 0)"

definition script_prefix :: "bool \<Rightarrow> u8" where
  "script_prefix testnet = (if testnet then 196 else 5)"

abbreviation MAX_SCRIPT_LENGTH :: nat where "MAX_SCRIPT_LENGTH \<equiv> 0x100"

text \<open>The opcode of element \<open>k\<close>, read through the pointer.\<close>

definition elem_op :: "bytes \<Rightarrow> nat list \<Rightarrow> nat \<Rightarrow> u8" where
  "elem_op script elems k = script ! (elems ! k)"

definition script_elems :: "bytes \<Rightarrow> nat \<times> nat list" where
  "script_elems script =
     (let n = fst (BRScriptElements None script) in
      case BRScriptElements (Some (replicate n 0)) script of (count, elems) \<Rightarrow> (count, the elems))"

definition BRAddressFromScriptPubKey :: "bool \<Rightarrow> bytes option \<Rightarrow> bytes \<Rightarrow> (nat \<times> bytes option) run" where
  "BRAddressFromScriptPubKey testnet addr script =
     (if script = [] \<or> length script > MAX_SCRIPT_LENGTH then Some (0, addr)
      else let (count, elems) = script_elems script; op = elem_op script elems in
        if count = 5 \<and> op 0 = OP_DUP \<and> op 1 = OP_HASH160 \<and> op 2 = 20 \<and> op 3 = OP_EQUALVERIFY \<and> op 4 = OP_CHECKSIG
        then do {
          (d, l) \<leftarrow> BRScriptData script (elems ! 2);
          case (if l \<noteq> 20 then None else d) of
            None \<Rightarrow> Some (0, addr)
          | Some d \<Rightarrow> do {
              h \<leftarrow> slice script d 20;
              Some (BRBase58CheckEncode addr (pubkey_prefix testnet # h)) } }
        else if count = 3 \<and> op 0 = OP_HASH160 \<and> op 1 = 20 \<and> op 2 = OP_EQUAL
        then do {
          (d, l) \<leftarrow> BRScriptData script (elems ! 1);
          case (if l \<noteq> 20 then None else d) of
            None \<Rightarrow> Some (0, addr)
          | Some d \<Rightarrow> do {
              h \<leftarrow> slice script d 20;
              Some (BRBase58CheckEncode addr (script_prefix testnet # h)) } }
        else if count = 2 \<and> (op 0 = 65 \<or> op 0 = 33) \<and> op 1 = OP_CHECKSIG
        then do {
          (d, l) \<leftarrow> BRScriptData script (elems ! 0);
          case (if l \<noteq> 65 \<and> l \<noteq> 33 then None else d) of
            None \<Rightarrow> Some (0, addr)
          | Some d \<Rightarrow> do {
              k \<leftarrow> slice script d l;
              Some (BRBase58CheckEncode addr (pubkey_prefix testnet # BRHash160 k)) } }
        else Some (0, addr))"

definition BRAddressFromScriptSig :: "bool \<Rightarrow> bytes option \<Rightarrow> bytes \<Rightarrow> (nat \<times> bytes option) run" where
  "BRAddressFromScriptSig testnet addr script =
     (if script = [] \<or> length script > MAX_SCRIPT_LENGTH then Some (0, addr)
      else let (count, elems) = script_elems script; op = elem_op script elems in
        if count \<ge> 2 \<and> op (count - 2) \<le> OP_PUSHDATA4 \<and> (op (count - 1) = 65 \<or> op (count - 1) = 33)
        then do {
          (d, l) \<leftarrow> BRScriptData script (elems ! (count - 1));
          case (if l \<noteq> 65 \<and> l \<noteq> 33 then None else d) of
            None \<Rightarrow> Some (0, addr)
          | Some d \<Rightarrow> do {
              k \<leftarrow> slice script d l;
              Some (BRBase58CheckEncode addr (pubkey_prefix testnet # BRHash160 k)) } }
        else if count \<ge> 2 \<and> op (count - 2) \<le> OP_PUSHDATA4 \<and> op (count - 1) \<le> OP_PUSHDATA4 \<and> op (count - 1) > 0
        then do {
          (d, l) \<leftarrow> BRScriptData script (elems ! (count - 1));
          case d of
            None \<Rightarrow> Some (0, addr)
          | Some d \<Rightarrow> do {
              k \<leftarrow> slice script d l;
              Some (BRBase58CheckEncode addr (script_prefix testnet # BRHash160 k)) } }
        else Some (0, addr))"

text \<open>A null script buffer asks for the size. \<open>addr\<close> is a C string.\<close>

definition BRAddressScriptPubKey :: "bool \<Rightarrow> bytes option \<Rightarrow> bytes \<Rightarrow> nat \<times> bytes option" where
  "BRAddressScriptPubKey testnet script addr =
     (case BRBase58CheckDecode (Some (replicate 21 0)) addr of (n, data) \<Rightarrow>
        let data = the data in
        if n = 21 then
          if data ! 0 = pubkey_prefix testnet then
            store_if_fits script
              ([OP_DUP, OP_HASH160, 20] @ take 20 (drop 1 data) @ [OP_EQUALVERIFY, OP_CHECKSIG])
          else if data ! 0 = script_prefix testnet then
            store_if_fits script ([OP_HASH160, 20] @ take 20 (drop 1 data) @ [OP_EQUAL])
          else (0, script)
        else (0, script))"

definition BRAddressIsValid :: "bool \<Rightarrow> bytes \<Rightarrow> bool" where
  "BRAddressIsValid testnet addr =
     (case BRBase58CheckDecode (Some (replicate 21 0)) addr of (n, data) \<Rightarrow>
        n = 21 \<and> (the data ! 0 = pubkey_prefix testnet \<or> the data ! 0 = script_prefix testnet))"

definition BRAddressHash160 :: "bytes \<Rightarrow> bytes \<Rightarrow> bool \<times> bytes" where
  "BRAddressHash160 md20 addr =
     (case BRBase58CheckDecode (Some (replicate 21 0)) addr of (n, data) \<Rightarrow>
        if n = 21 then (True, put md20 0 (take 20 (drop 1 (the data)))) else (False, md20))"

text \<open>An address is the 36 byte array of the struct; \<open>strlen\<close> and \<open>strncmp\<close> stop at the first zero.\<close>

type_synonym BRAddress = bytes

definition addr_str :: "BRAddress \<Rightarrow> bytes" where
  "addr_str a = takeWhile (\<lambda>c. c \<noteq> 0) (take 36 a)"

definition BRAddressHash :: "BRAddress \<Rightarrow> nat" where
  "BRAddressHash a = unat (BRMurmur3_32 (addr_str a) 0)"

definition BRAddressEq :: "BRAddress \<Rightarrow> BRAddress \<Rightarrow> bool" where
  "BRAddressEq a b \<longleftrightarrow> a = b \<or> addr_str a = addr_str b"

end
