(* ===== verification/Base58Spec.thy ===== *)
theory Base58Spec
  imports Base58 HashSpec
begin

text \<open>
  Base58 as positional notation. The inner loops multiply a big endian digit string by the other
  radix and add a digit; \<open>val\<close> is the value of a digit string. The buffer sizes of the code
  (\<open>n * 138 / 100 + 1\<close> and \<open>n * 733 / 1000 + 1\<close>) are large enough for every input, so no carry is lost,
  and digit strings without leading zeros are determined by their value: encoding and decoding are
  inverse to each other.
\<close>

section \<open>Digit strings\<close>

definition val :: "nat \<Rightarrow> nat list \<Rightarrow> nat" where
  "val B ds = foldl (\<lambda>a d. a * B + d) 0 ds"

lemma foldl_val: "foldl (\<lambda>a d. a * B + d) a ds = a * B ^ length ds + val B ds"
proof (induction ds arbitrary: a)
  case Nil
  then show ?case by (simp add: val_def)
next
  case (Cons d ds)
  have "foldl (\<lambda>a d. a * B + d) a (d # ds) = (a * B + d) * B ^ length ds + val B ds"
    using Cons [of "a * B + d"] by simp
  moreover have "val B (d # ds) = d * B ^ length ds + val B ds"
    using Cons [of d] by (simp add: val_def)
  ultimately show ?case by (simp add: algebra_simps)
qed

lemma val_Nil [simp]: "val B [] = 0"
  by (simp add: val_def)

lemma val_Cons: "val B (d # ds) = d * B ^ length ds + val B ds"
  using foldl_val [of B d ds] by (simp add: val_def)

lemma val_snoc: "val B (ds @ [d]) = val B ds * B + d"
  by (simp add: val_def)

lemma val_replicate_0 [simp]: "val B (replicate n 0) = 0"
  by (induction n) (simp_all add: val_Cons)

lemma val_zeros: "val B (replicate n 0 @ ds) = val B ds"
  by (induction n) (simp_all add: val_Cons)

lemma val_less: "\<forall>d\<in>set ds. d < B \<Longrightarrow> val B ds < B ^ length ds"
proof (induction ds)
  case Nil
  then show ?case by simp
next
  case (Cons d ds)
  then have "d * B ^ length ds + val B ds < d * B ^ length ds + B ^ length ds" by simp
  also have "\<dots> = Suc d * B ^ length ds" by simp
  also have "\<dots> \<le> B * B ^ length ds" using Cons.prems by (intro mult_le_mono1) simp
  finally show ?case by (simp add: val_Cons)
qed

lemma val_inject:
  assumes "\<forall>d\<in>set ds. d < B" "\<forall>e\<in>set es. e < B" "length ds = length es" "val B ds = val B es"
  shows "ds = es"
  using assms(3,1,2,4)
proof (induction ds es rule: list_induct2)
  case Nil
  then show ?case by simp
next
  case (Cons d ds e es)
  have less: "val B ds < B ^ length es" "val B es < B ^ length es"
    using val_less [of ds B] val_less [of es B] Cons by auto
  have "d * B ^ length es + val B ds = e * B ^ length es + val B es"
    using Cons by (simp add: val_Cons)
  moreover have "\<And>x v P. v < P \<Longrightarrow> (x * P + v) div P = (x :: nat)"
    by (metis add.right_neutral div_less div_mult_self3 not_less_zero)
  ultimately have "d = e" using less by (metis (no_types))
  then show ?case using Cons by (simp add: val_Cons)
qed

text \<open>Without leading zeros the length is determined too.\<close>

lemma val_ge: "d \<noteq> 0 \<Longrightarrow> B ^ length ds \<le> val B (d # ds)"
  by (cases d) (simp_all add: val_Cons)

lemma canonical_unique:
  assumes "\<forall>d\<in>set ds. d < B" "\<forall>e\<in>set es. e < B" "val B ds = val B es" "1 < B"
    and "ds = [] \<or> hd ds \<noteq> 0" "es = [] \<or> hd es \<noteq> 0"
  shows "ds = es"
proof -
  have short: "length xs \<le> length ys"
    if "\<forall>d\<in>set ys. d < B" "val B xs = val B ys" "xs = [] \<or> hd xs \<noteq> 0" for xs ys
  proof (cases xs)
    case (Cons x xs')
    then have "B ^ length xs' < B ^ length ys"
      using val_ge [of x B xs'] val_less [OF that(1)] that(2,3) by simp
    then show ?thesis using Cons assms(4) by (simp add: power_strict_increasing_iff)
  qed simp
  have "length ds = length es"
    using short [OF assms(2,3,5)] short [OF assms(1) assms(3) [symmetric] assms(6)] by simp
  then show ?thesis using val_inject assms by blast
qed

definition strip :: "nat list \<Rightarrow> nat list" where
  "strip ds = dropWhile (\<lambda>d. d = 0) ds"

lemma strip_props:
  "val B (strip ds) = val B ds" "strip ds = [] \<or> hd (strip ds) \<noteq> 0" "set (strip ds) \<subseteq> set ds"
proof -
  show "val B (strip ds) = val B ds" by (induction ds) (simp_all add: strip_def val_Cons)
  show "strip ds = [] \<or> hd (strip ds) \<noteq> 0" by (induction ds) (simp_all add: strip_def)
  show "set (strip ds) \<subseteq> set ds" by (auto simp: strip_def dest: set_dropWhileD)
qed

section \<open>The inner loops\<close>

text \<open>\<open>sweep\<close> runs a step function over a list from its end, threading a carry.\<close>

fun sweep :: "('d \<Rightarrow> 'c \<Rightarrow> 'd \<times> 'c) \<Rightarrow> 'd list \<Rightarrow> 'c \<Rightarrow> 'd list \<times> 'c" where
  "sweep g [] c = ([], c)"
| "sweep g (d # ds) c = (case sweep g ds c of (ds', c') \<Rightarrow> case g d c' of (d', c'') \<Rightarrow> (d' # ds', c''))"

lemma sweep_snoc:
  "sweep g (ds @ [d]) c = (case g d c of (d', c') \<Rightarrow> case sweep g ds c' of (ds', c'') \<Rightarrow> (ds' @ [d'], c''))"
  by (induction ds) (simp_all split: prod.splits)

lemma length_sweep [simp]: "length (fst (sweep g ds c)) = length ds"
  by (induction ds) (simp_all add: split_beta)

lemma fold_rev_indices:
  assumes step: "\<And>j buf c. f j (buf, c) = (case g (buf ! j) c of (d, c') \<Rightarrow> (buf[j := d], c'))"
  shows "fold f (rev [0..<length xs]) (xs @ ys, c) = (fst (sweep g xs c) @ ys, snd (sweep g xs c))"
proof (induction xs arbitrary: ys c rule: rev_induct)
  case Nil
  then show ?case by simp
next
  case (snoc x xs)
  obtain d c' where d: "g x c = (d, c')" by fastforce
  have "f (length xs) ((xs @ [x]) @ ys, c) = (xs @ d # ys, c')"
    by (simp add: step d list_update_append nth_append)
  then have "fold f (rev [0..<length (xs @ [x])]) ((xs @ [x]) @ ys, c) = fold f (rev [0..<length xs]) (xs @ d # ys, c')"
    by simp
  also have "\<dots> = (fst (sweep g xs c') @ d # ys, snd (sweep g xs c'))" by (rule snoc)
  finally show ?case by (simp add: sweep_snoc d split: prod.split)
qed

definition mul_add :: "nat \<Rightarrow> nat \<Rightarrow> nat \<Rightarrow> nat \<Rightarrow> nat \<times> nat" where
  "mul_add B m d c = ((c + d * m) mod B, (c + d * m) div B)"

lemma mul_add_parts: "fst (mul_add B m d c) = (c + d * m) mod B" "snd (mul_add B m d c) = (c + d * m) div B"
  by (simp_all add: mul_add_def)

lemma sweep_value:
  assumes "sweep (mul_add B m) ds c = (ds', c')"
  shows "val B ds' + c' * B ^ length ds = m * val B ds + c"
  using assms
proof (induction ds arbitrary: ds' c')
  case Nil
  then show ?case by simp
next
  case (Cons d ds)
  obtain es k where es: "sweep (mul_add B m) ds c = (es, k)" by fastforce
  have "sweep (mul_add B m) (d # ds) c = (case mul_add B m d k of (d', c'') \<Rightarrow> (d' # es, c''))"
    unfolding sweep.simps es prod.case ..
  then have ds': "ds' = ((k + d * m) mod B) # es" "c' = (k + d * m) div B"
    unfolding Cons.prems mul_add_def by simp_all
  have len: "length es = length ds" using length_sweep [of "mul_add B m" ds c] unfolding es by simp
  let ?P = "B ^ length ds"
  have "val B (x # es) + y * B ^ length (d # ds) = (x + y * B) * ?P + val B es" for x y
    using len by (simp add: val_Cons algebra_simps)
  then have "val B ds' + c' * B ^ length (d # ds) = (k + d * m) * ?P + val B es"
    unfolding ds' by simp
  then show ?case using Cons.IH [OF es] by (simp add: val_Cons algebra_simps)
qed

lemma sweep_digits:
  assumes "0 < B"
  shows "\<forall>d\<in>set (fst (sweep (mul_add B m) ds c)). d < B"
  using assms by (induction ds) (auto simp: mul_add_def split: prod.splits)

lemma sweep_fits:
  assumes "m * val B ds + c < B ^ length ds" "0 < B"
  shows "val B (fst (sweep (mul_add B m) ds c)) = m * val B ds + c"
proof -
  obtain ds' c' where s: "sweep (mul_add B m) ds c = (ds', c')" by fastforce
  from sweep_value [OF s] assms(1) have "c' * B ^ length ds < 1 * B ^ length ds" by linarith
  then have "c' = 0" unfolding mult_less_cancel2 by simp
  then show ?thesis using sweep_value [OF s] s by simp
qed


section \<open>The word level loops refine the digit arithmetic\<close>

abbreviation nats :: "'a::len word list \<Rightarrow> nat list" where
  "nats \<equiv> map unat"

lemma sweep_refines:
  assumes step: "\<And>d c. unat d < B \<Longrightarrow> unat c < m \<Longrightarrow>
      unat (fst (g d c)) = (unat c + unat d * m) mod B \<and> unat (snd (g d c)) = (unat c + unat d * m) div B"
    and "\<forall>d\<in>set ds. unat d < B" "unat c < m"
  shows "nats (fst (sweep g ds c)) = fst (sweep (mul_add B m) (nats ds) (unat c)) \<and>
    unat (snd (sweep g ds c)) = snd (sweep (mul_add B m) (nats ds) (unat c)) \<and> unat (snd (sweep g ds c)) < m"
  using assms(2,3)
proof (induction ds)
  case Nil
  then show ?case by simp
next
  case (Cons d ds)
  let ?c = "snd (sweep g ds c)"
  have IH: "nats (fst (sweep g ds c)) = fst (sweep (mul_add B m) (nats ds) (unat c))"
    "unat ?c = snd (sweep (mul_add B m) (nats ds) (unat c))" "unat ?c < m"
    using Cons by simp_all
  have d: "unat d < B" using Cons.prems by simp
  then have "Suc (unat d) * m \<le> B * m" by (intro mult_le_mono1) simp
  then have "unat ?c + unat d * m < m * B" using IH(3) by (simp add: mult.commute)
  then have "(unat ?c + unat d * m) div B < m" by (rule less_mult_imp_div_less)
  then show ?case
    using step [OF d IH(3)] IH by (simp add: split_beta mul_add_parts)
qed

lemma fold_refines:
  assumes f: "\<And>j buf c. f j (buf, c) = (case g (buf ! j) c of (d, c') \<Rightarrow> (buf[j := d], c'))"
    and step: "\<And>d c. unat d < B \<Longrightarrow> unat c < m \<Longrightarrow>
      unat (fst (g d c)) = (unat c + unat d * m) mod B \<and> unat (snd (g d c)) = (unat c + unat d * m) div B"
    and ds: "\<forall>d\<in>set ds. unat (d :: u8) < B" and c: "unat c < m"
    and fits: "m * val B (nats ds) + unat c < B ^ length ds" "0 < B"
  defines "r \<equiv> fst (fold f (rev [0..<length ds]) (ds, c))"
  shows "val B (nats r) = m * val B (nats ds) + unat c \<and> length r = length ds \<and> (\<forall>d\<in>set r. unat d < B)"
proof -
  have r: "r = fst (sweep g ds c)"
    using fold_rev_indices [of f g ds "[]" c] f by (simp add: r_def)
  have n: "nats r = fst (sweep (mul_add B m) (nats ds) (unat c))"
    unfolding r using sweep_refines [OF step ds c] by blast
  have "\<forall>d\<in>set (nats r). d < B" unfolding n by (rule sweep_digits [OF fits(2)])
  then show ?thesis using sweep_fits [of m B "nats ds" "unat c"] fits n r by simp
qed

lemma unat_ucast_u8_u32 [simp]: "unat (ucast (d :: u8) :: u32) = unat d"
proof -
  have "unat d < 2 ^ 8" using unsigned_less [of d, where 'a = nat] by simp
  then show ?thesis by (simp add: unsigned_ucast_eq take_bit_nat_eq_self)
qed

lemma unat_u8_less: "unat (d :: u8) < 256"
  using unsigned_less [of d, where 'a = nat] by simp

lemma unat_small_add: "unat a + unat b < 2 ^ 32 \<Longrightarrow> unat (a + b :: u32) = unat a + unat b"
  by (simp add: unat_word_ariths)

lemma unat_small_mult: "unat a * unat b < 2 ^ 32 \<Longrightarrow> unat (a * b :: u32) = unat a * unat b"
  by (simp add: unat_word_ariths)

lemma unat_ucast_u32_u8: "unat (w :: u32) < 256 \<Longrightarrow> unat (ucast w :: u8) = unat w"
  by (simp add: unsigned_ucast_eq take_bit_nat_eq_self)

definition enc_g :: "u8 \<Rightarrow> u32 \<Rightarrow> u8 \<times> u32" where
  "enc_g d c = (let c = c + push_bit 8 (ucast d) in (ucast (c mod 58), c div 58))"

lemma enc_step:
  assumes "unat d < 58" "unat c < 256"
  shows "unat (fst (enc_g d c)) = (unat c + unat d * 256) mod 58 \<and>
    unat (snd (enc_g d c)) = (unat c + unat d * 256) div 58"
proof -
  have "push_bit 8 (ucast d :: u32) = ucast d * 256" by (simp add: push_bit_eq_mult)
  moreover have "unat (ucast d * 256 :: u32) = unat d * 256"
    using assms by (subst unat_small_mult) simp_all
  ultimately have s: "unat (c + push_bit 8 (ucast d)) = unat c + unat d * 256"
    using assms by (subst unat_small_add) simp_all
  have "unat ((c + push_bit 8 (ucast d)) mod 58) = (unat c + unat d * 256) mod 58"
    "unat ((c + push_bit 8 (ucast d)) div 58) = (unat c + unat d * 256) div 58"
    by (simp_all add: unat_mod unat_div s)
  moreover have "(unat c + unat d * 256) mod 58 < 256" by (rule less_trans [of _ 58]) simp_all
  ultimately show ?thesis by (simp add: enc_g_def Let_def unat_ucast_u32_u8)
qed

lemma encode_byte_correct:
  assumes "\<forall>d\<in>set buf. unat d < 58" "256 * val 58 (nats buf) + unat b < 58 ^ length buf"
  shows "val 58 (nats (b58_encode_byte b buf)) = 256 * val 58 (nats buf) + unat b \<and>
    length (b58_encode_byte b buf) = length buf \<and> (\<forall>d\<in>set (b58_encode_byte b buf). unat d < 58)"
  unfolding b58_encode_byte_def
  using fold_refines [of b58_encode_digit enc_g 58 256 buf "ucast b", OF _ enc_step] assms unat_u8_less [of b]
  by (simp add: b58_encode_digit_def enc_g_def Let_def)

lemma encode_bytes_correct:
  assumes "256 ^ length bs \<le> (58 :: nat) ^ n"
  shows "val 58 (nats (fold b58_encode_byte bs (replicate n 0))) = val 256 (nats bs) \<and>
    length (fold b58_encode_byte bs (replicate n 0)) = n \<and>
    (\<forall>d\<in>set (fold b58_encode_byte bs (replicate n 0)). unat d < 58)"
  using assms
proof (induction bs rule: rev_induct)
  case Nil
  then show ?case by simp
next
  case (snoc b bs)
  let ?buf = "fold b58_encode_byte bs (replicate n 0)"
  have "256 ^ length bs \<le> (58 :: nat) ^ n" using snoc.prems by simp
  note IH = snoc.IH [OF this]
  have "val 256 (nats (bs @ [b])) < 256 ^ length (nats (bs @ [b]))"
    by (rule val_less) (auto simp: unat_u8_less)
  then have "256 * val 58 (nats ?buf) + unat b < 58 ^ length ?buf"
    using snoc.prems IH by (simp add: val_snoc mult.commute)
  then show ?case using encode_byte_correct [of ?buf b] IH by (simp add: val_snoc mult.commute)
qed

definition dec_g :: "u8 \<Rightarrow> u32 \<Rightarrow> u8 \<times> u32" where
  "dec_g d c = (let c = c + ucast d * 58 in (ucast (c AND 0xff), drop_bit 8 c))"

lemma dec_step:
  assumes "unat d < 256" "unat c < 58"
  shows "unat (fst (dec_g d c)) = (unat c + unat d * 58) mod 256 \<and>
    unat (snd (dec_g d c)) = (unat c + unat d * 58) div 256"
proof -
  have "unat (ucast d * 58 :: u32) = unat d * 58"
    using assms by (subst unat_small_mult) simp_all
  then have s: "unat (c + ucast d * 58) = unat c + unat d * 58"
    using assms by (subst unat_small_add) simp_all
  have "(0xff :: u32) = mask 8" by (simp add: mask_eq_exp_minus_1)
  then have "unat ((c + ucast d * 58) AND 0xff) = unat (take_bit 8 (c + ucast d * 58))"
    by (simp only: take_bit_eq_mask)
  also have "\<dots> = (unat c + unat d * 58) mod 256"
    by (simp only: unsigned_take_bit_eq s) (simp add: take_bit_eq_mod)
  finally have "unat ((c + ucast d * 58) AND 0xff) = (unat c + unat d * 58) mod 256" .
  moreover have "unat (drop_bit 8 (c + ucast d * 58)) = (unat c + unat d * 58) div 256"
    by (simp only: unat_drop_bit_eq s) (simp add: drop_bit_eq_div)
  moreover have "(unat c + unat d * 58) mod 256 < 256" by simp
  ultimately show ?thesis by (simp add: dec_g_def Let_def unat_ucast_u32_u8)
qed

lemma decode_char_correct:
  assumes "256 ^ length buf > 58 * val 256 (nats buf) + unat c" "unat c < 58"
  shows "val 256 (nats (b58_decode_char c buf)) = 58 * val 256 (nats buf) + unat c \<and>
    length (b58_decode_char c buf) = length buf"
  unfolding b58_decode_char_def
  using fold_refines [of b58_decode_digit dec_g 256 58 buf c, OF _ dec_step] assms unat_u8_less
  by (simp add: b58_decode_digit_def dec_g_def Let_def)


section \<open>The buffers are large enough\<close>

lemma radix_room:
  assumes "a ^ p \<le> (b :: nat) ^ q" "0 < p" "1 < b"
  shows "a ^ n \<le> b ^ (n * q div p + 1)"
proof -
  have "n * q < p * (n * q div p + 1)"
    using assms(2) by (metis add.commute dividend_less_times_div mult.commute mult_Suc_right plus_1_eq_Suc)
  then have "b ^ (n * q) \<le> b ^ (p * (n * q div p + 1))"
    using assms(3) by (intro power_increasing) simp_all
  moreover have "(a ^ n) ^ p \<le> b ^ (n * q)"
    using power_mono [OF assms(1), of n] by (simp add: power_mult [symmetric] mult.commute)
  ultimately have "(a ^ n) ^ p \<le> (b ^ (n * q div p + 1)) ^ p"
    by (simp add: power_mult [symmetric] mult.commute del: power_Suc)
  then show ?thesis using assms(2) by (simp only: power_mono_iff zero_le)
qed

lemma encode_room: "256 ^ n \<le> (58 :: nat) ^ (n * 138 div 100 + 1)"
  by (rule radix_room) simp_all

lemma decode_room: "58 ^ n \<le> (256 :: nat) ^ (n * 733 div 1000 + 1)"
proof -
  have "(58 :: nat) ^ n \<le> 256 ^ (n * 52 div 71 + 1)"
    by (rule radix_room) simp_all
  moreover have "n * 52 div 71 \<le> n * 733 div 1000"
  proof -
    have "n * 52 div 71 = n * 52000 div 71000"
      using div_mult_mult1 [of 1000 "n * 52" 71] by simp
    also have "\<dots> \<le> n * 52043 div 71000" by (intro div_le_mono) simp
    also have "\<dots> = n * 733 div 1000"
      using div_mult_mult1 [of 71 "n * 733" 1000] by simp
    finally show ?thesis .
  qed
  then have "(256 :: nat) ^ (n * 52 div 71 + 1) \<le> 256 ^ (n * 733 div 1000 + 1)"
    by (intro power_increasing) simp_all
  ultimately show ?thesis by (rule le_trans)
qed

section \<open>What the strings mean\<close>

definition b58_char :: "nat \<Rightarrow> u8" where
  "b58_char d = base58chars ! d"

lemma b58_digit_char: "d < 58 \<Longrightarrow> b58_digit (b58_char d) = of_nat d"
proof -
  have "\<forall>d\<in>set [0..<58]. b58_digit (b58_char d) = of_nat d" by code_simp
  then show "d < 58 \<Longrightarrow> b58_digit (b58_char d) = of_nat d" by simp
qed

lemma unat_minus_one_u32: "unat (- 1 :: u32) = 4294967295"
  by (simp add: unsigned_minus_1_eq_mask mask_eq_exp_minus_1)

lemma b58_char_nonzero:
  assumes "d < 58"
  shows "b58_char d \<noteq> 0" "b58_char d = b58_char 0 \<longleftrightarrow> d = 0"
proof -
  have "b58_digit 0 = - 1" by code_simp
  moreover have "(of_nat d :: u32) \<noteq> - 1" "(of_nat d :: u32) = 0 \<longleftrightarrow> d = 0"
    using assms unat_minus_one_u32 by (simp_all add: unat_eq_iff unsigned_of_nat take_bit_nat_eq_self)
  ultimately show "b58_char d \<noteq> 0" "b58_char d = b58_char 0 \<longleftrightarrow> d = 0"
    using b58_digit_char [OF assms] b58_digit_char [of 0] by auto
qed


section \<open>Encoding and decoding\<close>

definition zeros :: "bytes \<Rightarrow> nat" where
  "zeros data = length (takeWhile (\<lambda>b. b = 0) data)"

text \<open>The digits the encoder computes, without leading zeros, and the string it writes.\<close>

definition b58_digits :: "bytes \<Rightarrow> nat list" where
  "b58_digits data = strip (nats (fold b58_encode_byte (drop (zeros data) data)
     (replicate ((length data - zeros data) * 138 div 100 + 1) 0)))"

definition b58_string :: "bytes \<Rightarrow> bytes" where
  "b58_string data = replicate (zeros data) (b58_char 0) @ map b58_char (b58_digits data)"

lemma drop_takeWhile: "drop (length (takeWhile P xs)) xs = dropWhile P xs"
  by (induction xs) simp_all

lemma nats_dropWhile: "nats (dropWhile (\<lambda>b. b = 0) xs) = strip (nats xs)" for xs :: bytes
  by (induction xs) (simp_all add: strip_def unat_eq_0)

lemma zeros_split: "data = replicate (zeros data) 0 @ drop (zeros data) data"
proof -
  have "takeWhile (\<lambda>b. b = 0) data = replicate (zeros data) 0"
    by (simp add: zeros_def) (metis (mono_tags, lifting) replicate_length_same set_takeWhileD)
  then show ?thesis by (metis drop_takeWhile takeWhile_dropWhile_id zeros_def)
qed

lemma zeros_le: "zeros data \<le> length data"
  by (simp add: zeros_def length_takeWhile_le)

lemma body_canonical: "drop (zeros data) data = [] \<or> hd (nats (drop (zeros data) data)) \<noteq> 0"
  unfolding zeros_def drop_takeWhile using strip_props(2) [of "nats data"]
  by (simp flip: nats_dropWhile)

lemma b58_digits_correct:
  "\<forall>d\<in>set (b58_digits data). d < 58" "b58_digits data = [] \<or> hd (b58_digits data) \<noteq> 0"
  "val 58 (b58_digits data) = val 256 (nats data)"
proof -
  let ?body = "drop (zeros data) data"
  have "256 ^ length ?body \<le> (58 :: nat) ^ ((length data - zeros data) * 138 div 100 + 1)"
    using encode_room [of "length ?body"] by simp
  note c = encode_bytes_correct [OF this]
  show "\<forall>d\<in>set (b58_digits data). d < 58"
    using c strip_props(3) unfolding b58_digits_def by fastforce
  show "b58_digits data = [] \<or> hd (b58_digits data) \<noteq> 0"
    unfolding b58_digits_def by (rule strip_props)
  have "val 58 (b58_digits data) = val 256 (nats ?body)"
    unfolding b58_digits_def strip_props(1) using c by blast
  also have "\<dots> = val 256 (nats (replicate (zeros data) 0 @ ?body))" by (simp add: val_zeros)
  finally show "val 58 (b58_digits data) = val 256 (nats data)" by (simp only: zeros_split [symmetric])
qed

lemma encode_correct:
  "BRBase58Encode str data =
    (case str of
       None \<Rightarrow> (length (b58_string data) + 1, None)
     | Some s \<Rightarrow> if length (b58_string data) + 1 \<le> length s
         then (length (b58_string data) + 1, Some (put s 0 (b58_string data @ [0]))) else (0, Some s))"
proof -
  obtain buf where buf: "buf = fold b58_encode_byte (drop (zeros data) data)
      (replicate ((length data - zeros data) * 138 div 100 + 1) 0)" by simp
  have "nats (drop (zeros buf) buf) = b58_digits data"
    unfolding b58_digits_def buf [symmetric] by (simp only: zeros_def drop_takeWhile nats_dropWhile)
  then have d: "map (\<lambda>d. b58_char (unat d)) (drop (zeros buf) buf) = map b58_char (b58_digits data)"
    by (metis (no_types, lifting) comp_apply list.map_comp map_eq_conv)
  have sub: "l \<le> n \<Longrightarrow> n - l = k \<Longrightarrow> m + n - l = m + k" for l n k m :: nat by simp
  have n: "zeros data + length buf - zeros buf = zeros data + length (b58_digits data)"
    by (rule sub [OF zeros_le]) (use arg_cong [OF d, of length] in \<open>simp only: length_map length_drop\<close>)
  show ?thesis
    unfolding BRBase58Encode_def Let_def zeros_def [symmetric] buf [symmetric] n b58_char_def [symmetric] d
    by (simp add: b58_string_def split: option.split)
qed

lemma decode_loop_correct:
  assumes "\<forall>d\<in>set ds. d < 58" "58 ^ (length pre + length ds) \<le> (256 :: nat) ^ length buf"
    "\<forall>d\<in>set pre. d < 58" "val 256 (nats buf) = val 58 pre"
  shows "val 256 (nats (b58_decode_loop (map b58_char ds) buf)) = val 58 (pre @ ds)"
  using assms
proof (induction ds arbitrary: pre buf)
  case Nil
  then show ?case by simp
next
  case (Cons d ds)
  have d: "d < 58" using Cons.prems by simp
  have digit: "b58_digit (b58_char d) = of_nat d" "unat (of_nat d :: u32) = d"
    using b58_digit_char d by (simp_all add: unsigned_of_nat take_bit_nat_eq_self)
  then have valid: "\<not> b58_digit (b58_char d) \<ge> 58" using d by (simp add: word_le_nat_alt)
  have "val 58 (pre @ [d]) < 58 ^ length (pre @ [d])" using Cons.prems d by (intro val_less) auto
  also have "\<dots> \<le> 58 ^ (length pre + length (d # ds))" by (intro power_increasing) simp_all
  finally have "58 * val 256 (nats buf) + d < 256 ^ length buf"
    using Cons.prems by (simp add: val_snoc mult.commute)
  from decode_char_correct [of buf "of_nat d"] this d digit have
    "val 256 (nats (b58_decode_char (of_nat d) buf)) = val 58 (pre @ [d])"
    "length (b58_decode_char (of_nat d) buf) = length buf"
    using Cons.prems by (simp_all add: val_snoc mult.commute)
  then have "val 256 (nats (b58_decode_loop (map b58_char ds) (b58_decode_char (of_nat d) buf))) = val 58 ((pre @ [d]) @ ds)"
    using Cons.prems d by (intro Cons.IH) auto
  then show ?case using valid digit by simp
qed

lemma decode_string:
  assumes ds: "\<forall>d\<in>set ds. d < 58" "ds = [] \<or> hd ds \<noteq> 0"
    and bs: "bs = [] \<or> hd bs \<noteq> 0" "val 256 (nats bs) = val 58 ds"
  shows "BRBase58Decode data (replicate z (b58_char 0) @ map b58_char ds) =
    (case data of
       None \<Rightarrow> (z + length bs, None)
     | Some d \<Rightarrow> if z + length bs \<le> length d then (z + length bs, Some (put d 0 (replicate z 0 @ bs))) else (0, Some d))"
proof -
  let ?str = "replicate z (b58_char 0) @ map b58_char ds"
  have z: "length (takeWhile (\<lambda>c. c = b58_char 0) ?str) = z"
    using ds b58_char_nonzero(2) by (cases ds) (simp_all add: takeWhile_append)
  obtain buf where buf: "buf = b58_decode_loop (map b58_char ds) (replicate (length ds * 733 div 1000 + 1) 0)" by simp
  have v: "val 256 (nats buf) = val 58 ds"
    using decode_loop_correct [of ds "[]" "replicate (length ds * 733 div 1000 + 1) 0"] ds(1) decode_room [of "length ds"]
    by (simp add: val_Cons buf)
  have "nats (dropWhile (\<lambda>b. b = 0) buf) = nats bs"
  proof (rule canonical_unique [of _ 256])
    show "\<forall>d\<in>set (nats (dropWhile (\<lambda>b. b = 0) buf)). d < 256" "\<forall>d\<in>set (nats bs). d < 256"
      by (auto simp: unat_u8_less)
    show "val 256 (nats (dropWhile (\<lambda>b. b = 0) buf)) = val 256 (nats bs)"
      unfolding nats_dropWhile strip_props(1) using v bs by simp
    show "nats (dropWhile (\<lambda>b. b = 0) buf) = [] \<or> hd (nats (dropWhile (\<lambda>b. b = 0) buf)) \<noteq> 0"
      unfolding nats_dropWhile by (rule strip_props)
    show "nats bs = [] \<or> hd (nats bs) \<noteq> 0" using bs by (cases bs) (auto simp: unat_eq_0)
  qed simp
  then have b: "drop (length (takeWhile (\<lambda>b. b = 0) buf)) buf = bs"
    unfolding drop_takeWhile by (simp add: inj_map_eq_map inj_on_def unat_eq_iff)
  have sub: "l \<le> n \<Longrightarrow> n - l = k \<Longrightarrow> m + n - l = m + k" for l n k m :: nat by simp
  have n: "z + length buf - length (takeWhile (\<lambda>b. b = 0) buf) = z + length bs"
    by (rule sub [OF length_takeWhile_le]) (use arg_cong [OF b, of length] in \<open>simp only: length_drop\<close>)
  have put2: "z + length bs \<le> length d \<Longrightarrow> put (put d 0 (replicate z 0)) z bs = put d 0 (replicate z 0 @ bs)" for d
    by (simp add: put_def add.commute)
  have str: "drop z ?str = map b58_char ds" "length (map b58_char ds) = length ds" by simp_all
  show ?thesis
    unfolding BRBase58Decode_def Let_def b58_char_def [symmetric] z str buf [symmetric] n b
    using put2 by (simp split: option.split)
qed


lemma bytes_canonical:
  "val 256 (nats (drop (zeros data) data)) = val 58 (b58_digits data)"
  "drop (zeros data) data = [] \<or> hd (drop (zeros data) data) \<noteq> 0"
proof -
  have "val 256 (nats (replicate (zeros data) 0 @ drop (zeros data) data)) = val 256 (nats (drop (zeros data) data))"
    by (simp add: val_zeros)
  then show "val 256 (nats (drop (zeros data) data)) = val 58 (b58_digits data)"
    using b58_digits_correct(3) [of data] by (simp only: zeros_split [symmetric])
  show "drop (zeros data) data = [] \<or> hd (drop (zeros data) data) \<noteq> 0"
    using body_canonical [of data] by (cases "drop (zeros data) data") (auto simp: unat_eq_0)
qed

lemma decode_encoded:
  "BRBase58Decode out (b58_string data) =
    (case out of
       None \<Rightarrow> (length data, None)
     | Some d \<Rightarrow> if length data \<le> length d then (length data, Some (put d 0 data)) else (0, Some d))"
proof -
  have len: "zeros data + length (drop (zeros data) data) = length data" using zeros_le [of data] by simp
  note dec = decode_string [OF b58_digits_correct(1) [of data] b58_digits_correct(2) [of data]
      bytes_canonical(2) [of data] bytes_canonical(1) [of data], of out "zeros data", unfolded len]
  then show ?thesis unfolding b58_string_def zeros_split [symmetric] .
qed

lemma b58_string_no_nul: "0 \<notin> set (b58_string data)"
  using b58_digits_correct(1) [of data] b58_char_nonzero(1) [of 0] b58_char_nonzero(1)
  by (fastforce simp: b58_string_def)

lemma decode_some: "\<exists>len buf. BRBase58Decode (Some d) str = (len, Some buf)"
  by (simp add: BRBase58Decode_def Let_def)

section \<open>Base58check\<close>

definition b58check_string :: "bytes \<Rightarrow> bytes" where
  "b58check_string data = b58_string (data @ take 4 (BRSHA256_2 data))"

lemma check_encode_correct:
  "BRBase58CheckEncode str data =
    (case str of
       None \<Rightarrow> (length (b58check_string data) + 1, None)
     | Some s \<Rightarrow> if length (b58check_string data) + 1 \<le> length s
         then (length (b58check_string data) + 1, Some (put s 0 (b58check_string data @ [0]))) else (0, Some s))"
proof -
  have "take (length data + 4) (put (put (replicate (length data + 256 div 8) 0) 0 data) (length data) (BRSHA256_2 data))
      = data @ take 4 (BRSHA256_2 data)"
    by (simp add: put_def)
  then show ?thesis by (simp only: BRBase58CheckEncode_def Let_def encode_correct b58check_string_def)
qed

lemma check_decode_encoded:
  assumes "data \<noteq> []" "length data + 4 \<le> length (b58check_string data)"
  shows "BRBase58CheckDecode out (b58check_string data) =
    (case out of
       None \<Rightarrow> (length data, None)
     | Some d \<Rightarrow> if length data \<le> length d then (length data, Some (put d 0 data)) else (0, Some d))"
  using assms
  by (simp add: BRBase58CheckDecode_def b58check_string_def decode_encoded put_def Let_def split: option.split)

text \<open>The string is at least as long as the bytes, so the decoder's buffer has room.\<close>

lemma b58_string_long: "length data \<le> length (b58_string data)"
proof -
  let ?body = "drop (zeros data) data"
  have "length ?body \<le> length (b58_digits data)"
  proof (cases ?body)
    case (Cons b bs)
    then have "256 ^ length bs \<le> val 256 (nats ?body)"
      using body_canonical [of data] val_ge [of "unat b" 256 "nats bs"] by simp
    also have "\<dots> < 58 ^ length (b58_digits data)"
      using bytes_canonical(1) [of data] val_less [OF b58_digits_correct(1) [of data]] by simp
    also have "\<dots> \<le> (256 :: nat) ^ length (b58_digits data)" by (intro power_mono) simp_all
    finally show ?thesis using Cons by (simp add: power_strict_increasing_iff)
  qed simp
  then show ?thesis using zeros_le [of data] by (simp add: b58_string_def)
qed

lemma check_roundtrip:
  "data \<noteq> [] \<Longrightarrow> BRBase58CheckDecode out (b58check_string data) =
    (case out of
       None \<Rightarrow> (length data, None)
     | Some d \<Rightarrow> if length data \<le> length d then (length data, Some (put d 0 data)) else (0, Some d))"
  using check_decode_encoded b58_string_long [of "data @ take 4 (BRSHA256_2 data)"]
  by (simp add: b58check_string_def)


section \<open>Properties\<close>

text \<open>The encoder writes the base 58 positional notation of the bytes read as a base 256 number,
  one \<open>'1'\<close> for every leading zero byte and no other leading zero digit, followed by the
  terminating zero; it needs exactly that much room, reports the size it needs for \<open>NULL\<close> and
  writes nothing when it does not fit.\<close>

theorem base58_encode_is_positional:
  "\<exists>ds. (\<forall>d\<in>set ds. d < 58) \<and> (ds = [] \<or> hd ds \<noteq> 0) \<and> val 58 ds = val 256 (nats data) \<and>
    (let s = replicate (length (takeWhile (\<lambda>b. b = 0) data)) (base58chars ! 0) @ map (\<lambda>d. base58chars ! d) ds
     in BRBase58Encode None data = (length s + 1, None) \<and>
        BRBase58Encode (Some out) data =
          (if length s + 1 \<le> length out then (length s + 1, Some (put out 0 (s @ [0]))) else (0, Some out)))"
  using b58_digits_correct [of data] encode_correct [of _ data]
  by (intro exI [of _ "b58_digits data"])
    (simp add: Let_def b58_string_def zeros_def b58_char_def [abs_def])

theorem base58_encode_is_positional_witness:
  "\<exists>ds. (\<forall>d\<in>set ds. d < 58) \<and> val 58 ds = 257 \<and> fst (BRBase58Encode None [0, 1, 1]) = 2 + length ds"
proof -
  have "val 256 (nats [0, 1, 1 :: u8]) = 257" by (simp add: val_def)
  then show ?thesis using base58_encode_is_positional [of "[0, 1, 1]" "[]"] by (auto simp: Let_def)
qed

text \<open>C30: decoding what was encoded gives the bytes back, leading zeros included, for every byte
  string; the decoder's fixed point estimate of its buffer loses no digit.\<close>

theorem base58_roundtrip:
  assumes "BRBase58Encode (Some s) data = (n, Some s')" and "n \<noteq> 0" and "length data \<le> length out"
  shows "s' ! (n - 1) = 0 \<and> 0 \<notin> set (take (n - 1) s') \<and>
    BRBase58Decode (Some out) (take (n - 1) s') = (length data, Some (put out 0 data)) \<and>
    BRBase58Decode None (take (n - 1) s') = (length data, None)"
proof -
  have "n = length (b58_string data) + 1" "s' = put s 0 (b58_string data @ [0])"
    "length (b58_string data) + 1 \<le> length s"
    using assms(1,2) by (auto simp: encode_correct split: if_splits)
  then have "take (n - 1) s' = b58_string data" "s' ! (n - 1) = 0" by (simp_all add: put_def nth_append)
  then show ?thesis using assms(3) b58_string_no_nul [of data] by (simp add: decode_encoded)
qed

theorem base58_roundtrip_witness:
  "\<exists>n s'. BRBase58Encode (Some (replicate 9 7)) [0, 5] = (n, Some s') \<and>
    BRBase58Decode (Some [1, 1, 1]) (take (n - 1) s') = (2, Some [0, 5, 1])"
proof -
  have e: "BRBase58Encode (Some (replicate 9 7)) [0, 5] = (3, Some (49 # 54 # 0 # replicate 6 7))"
    by code_simp
  then show ?thesis using base58_roundtrip [OF e, of "[1, 1, 1]"] by (simp add: put_def)
qed

text \<open>Base58check round trips every non-empty payload, and a decoded payload is only returned
  when the four bytes behind it are the double SHA-256 checksum of it.\<close>

theorem base58check_accepts_exactly_checksummed:
  assumes "BRBase58CheckEncode (Some s) data = (n, Some s')" and "n \<noteq> 0" and "data \<noteq> []"
    and "length data \<le> length out"
  shows "BRBase58CheckDecode (Some out) (take (n - 1) s') = (length data, Some (put out 0 data)) \<and>
    (\<forall>str m out'. BRBase58CheckDecode (Some out) str = (m, Some out') \<longrightarrow> m \<noteq> 0 \<longrightarrow>
      (\<exists>buf. BRBase58Decode (Some (replicate (length str) 0)) str = (m + 4, Some buf) \<and>
        take 4 (drop m buf) = take 4 (BRSHA256_2 (take m buf)) \<and> out' = put out 0 (take m buf)))"
proof (intro conjI allI impI)
  have "n = length (b58check_string data) + 1" "s' = put s 0 (b58check_string data @ [0])"
    "length (b58check_string data) + 1 \<le> length s"
    using assms(1,2) by (auto simp: check_encode_correct split: if_splits)
  then have "take (n - 1) s' = b58check_string data" by (simp add: put_def)
  then show "BRBase58CheckDecode (Some out) (take (n - 1) s') = (length data, Some (put out 0 data))"
    using assms(3,4) by (simp add: check_roundtrip)
next
  fix str m out'
  assume r: "BRBase58CheckDecode (Some out) str = (m, Some out')" "m \<noteq> 0"
  obtain len buf where d: "BRBase58Decode (Some (replicate (length str) 0)) str = (len, Some buf)"
    using decode_some by blast
  show "\<exists>buf. BRBase58Decode (Some (replicate (length str) 0)) str = (m + 4, Some buf) \<and>
      take 4 (drop m buf) = take 4 (BRSHA256_2 (take m buf)) \<and> out' = put out 0 (take m buf)"
    using r unfolding BRBase58CheckDecode_def Let_def d
    by (auto simp: d split: if_splits)
qed


theorem base58check_accepts_exactly_checksummed_witness:
  "\<exists>n s'. BRBase58CheckEncode (Some (replicate (length (b58check_string [1, 2]) + 1) 0)) [1, 2] = (n, Some s') \<and>
    BRBase58CheckDecode (Some [0, 0]) (take (n - 1) s') = (2, Some [1, 2])"
proof -
  let ?n = "length (b58check_string [1, 2]) + 1"
  have e: "BRBase58CheckEncode (Some (replicate ?n 0)) [1, 2] =
      (?n, Some (put (replicate ?n 0) 0 (b58check_string [1, 2] @ [0])))"
    by (simp add: check_encode_correct)
  show ?thesis
    using base58check_accepts_exactly_checksummed [OF e, of "[0, 0]"] e by (simp add: put_def)
qed

end
