(* ===== verification/SetModel.thy ===== *)
theory SetModel
  imports CPrelude
begin

text \<open>
  \<^verbatim>\<open>BRSet.c\<close>: the linear probed hash table behind every collection of the wallet, the peers and
  the block chain. An item is a pointer, so \<open>=\<close> on items is pointer identity, and \<open>hash\<close> and
  \<open>eq\<close> (two fields of the struct that never change after \<open>BRSetNew\<close>) are arguments. A bucket
  is \<open>None\<close> for \<open>NULL\<close>; the field \<open>size\<close> is the length of the table. A probe that visits every
  bucket without stopping is back where it started and never returns, so it is \<open>None\<close> after
  \<open>size\<close> steps. The locale \<open>hash_contract\<close> states what a client owes the table and holds the
  refinement of every operation to finite sets modulo \<open>eq\<close>.
\<close>

section \<open>The table and its operations\<close>

definition tableSizes :: "nat list" where
  "tableSizes = [1, 3, 7, 13, 23, 37, 59, 97, 149, 227, 347, 523, 787, 1187, 1783, 2677, 4019, 6037, 9059, 13591,
    20389, 30593, 45887, 68863, 103307, 154981, 232487, 348739, 523129, 784697, 1177067, 1765609,
    2648419, 3972643, 5958971, 8938469, 13407707, 20111563, 30167359, 45251077, 67876637, 101814991,
    152722489, 229083739, 343625629, 515438447, 773157683, 1159736527, 1739604799, 2609407319, 3914111041]"

record 'a BRSet =
  table :: "'a option list"
  itemCount :: nat

definition size_index :: "nat \<Rightarrow> nat" where
  "size_index capacity = length (takeWhile (\<lambda>n. n < capacity) tableSizes)"

definition BRSetInit :: "nat \<Rightarrow> 'a BRSet" where
  "BRSetInit capacity =
     (let i = size_index capacity
      in \<lparr>table = (if i + 1 < length tableSizes then replicate (tableSizes ! (i + 1)) None else []),
          itemCount = 0\<rparr>)"

definition BRSetNew :: "nat \<Rightarrow> 'a BRSet" where
  "BRSetNew capacity = BRSetInit capacity"

text \<open>The probe loop shared by add, remove, get and iterate: from bucket \<open>i\<close> to the first bucket
  that is empty or holds the item or an equal one.\<close>

fun probe :: "('a \<Rightarrow> 'a \<Rightarrow> bool) \<Rightarrow> nat \<Rightarrow> 'a option list \<Rightarrow> 'a \<Rightarrow> nat \<Rightarrow> nat run" where
  "probe eq 0 tab item i = None"
| "probe eq (Suc fuel) tab item i =
     (case tab ! i of
        None \<Rightarrow> Some i
      | Some t \<Rightarrow> if t = item \<or> eq t item then Some i
                  else probe eq fuel tab item ((i + 1) mod length tab))"

definition find_bucket :: "('a \<Rightarrow> nat) \<Rightarrow> ('a \<Rightarrow> 'a \<Rightarrow> bool) \<Rightarrow> 'a BRSet \<Rightarrow> 'a \<Rightarrow> nat run" where
  "find_bucket hash eq s item =
     (if table s = [] then None
      else probe eq (length (table s)) (table s) item (hash item mod length (table s)))"

text \<open>\<open>BRSetAdd\<close>, \<open>_BRSetGrow\<close> and \<open>BRSetUnion\<close> call each other. The counter bounds the nesting
  of rebuilds: each one moves to the next larger entry of \<open>tableSizes\<close>, so their number is.\<close>

function BRSetAdd_upto :: "nat \<Rightarrow> ('a \<Rightarrow> nat) \<Rightarrow> ('a \<Rightarrow> 'a \<Rightarrow> bool) \<Rightarrow> 'a BRSet \<Rightarrow> 'a \<Rightarrow> ('a option \<times> 'a BRSet) run"
  and BRSetGrow_upto :: "nat \<Rightarrow> ('a \<Rightarrow> nat) \<Rightarrow> ('a \<Rightarrow> 'a \<Rightarrow> bool) \<Rightarrow> 'a BRSet \<Rightarrow> nat \<Rightarrow> 'a BRSet run"
  and add_buckets :: "nat \<Rightarrow> ('a \<Rightarrow> nat) \<Rightarrow> ('a \<Rightarrow> 'a \<Rightarrow> bool) \<Rightarrow> 'a BRSet \<Rightarrow> 'a option list \<Rightarrow> 'a BRSet run"
where
  "BRSetAdd_upto g hash eq s item =
     do { i \<leftarrow> find_bucket hash eq s item;
          let t = table s ! i;
          let s1 = s\<lparr>table := (table s)[i := Some item],
                    itemCount := (if t = None then itemCount s + 1 else itemCount s)\<rparr>;
          if itemCount s1 > (length (table s) + 2) div 3 * 2
          then (case g of 0 \<Rightarrow> None
                | Suc g' \<Rightarrow> do { s2 \<leftarrow> BRSetGrow_upto g' hash eq s1 (length (table s)); Some (t, s2) })
          else Some (t, s1) }"
| "BRSetGrow_upto g hash eq s capacity =
     do { s' \<leftarrow> add_buckets g hash eq (BRSetInit capacity) (table s);
          Some (s\<lparr>table := table s', itemCount := itemCount s'\<rparr>) }"
| "add_buckets g hash eq s [] = Some s"
| "add_buckets g hash eq s (None # ts) = add_buckets g hash eq s ts"
| "add_buckets g hash eq s (Some t # ts) =
     do { (_, s') \<leftarrow> BRSetAdd_upto g hash eq s t; add_buckets g hash eq s' ts }"
  by pat_completeness auto
termination
  by (relation "measures
     [\<lambda>x. case x of Inl (g, _) \<Rightarrow> g | Inr (Inl (g, _)) \<Rightarrow> g | Inr (Inr (g, _)) \<Rightarrow> g,
      \<lambda>x. case x of Inl _ \<Rightarrow> 0 | Inr (Inl _) \<Rightarrow> 2 | Inr (Inr _) \<Rightarrow> 1,
      \<lambda>x. case x of Inl _ \<Rightarrow> 0 | Inr (Inl _) \<Rightarrow> 0 | Inr (Inr (_, _, _, _, ts)) \<Rightarrow> length ts]")
    auto

declare BRSetAdd_upto.simps [simp del] BRSetGrow_upto.simps [simp del]

definition BRSetAdd :: "('a \<Rightarrow> nat) \<Rightarrow> ('a \<Rightarrow> 'a \<Rightarrow> bool) \<Rightarrow> 'a BRSet \<Rightarrow> 'a \<Rightarrow> ('a option \<times> 'a BRSet) run" where
  "BRSetAdd hash eq s item = BRSetAdd_upto (length tableSizes) hash eq s item"

definition BRSetGrow :: "('a \<Rightarrow> nat) \<Rightarrow> ('a \<Rightarrow> 'a \<Rightarrow> bool) \<Rightarrow> 'a BRSet \<Rightarrow> nat \<Rightarrow> 'a BRSet run" where
  "BRSetGrow hash eq s capacity = BRSetGrow_upto (length tableSizes) hash eq s capacity"

definition BRSetUnion :: "('a \<Rightarrow> nat) \<Rightarrow> ('a \<Rightarrow> 'a \<Rightarrow> bool) \<Rightarrow> 'a BRSet \<Rightarrow> 'a BRSet \<Rightarrow> 'a BRSet run" where
  "BRSetUnion hash eq s other = add_buckets (length tableSizes) hash eq s (table other)"

fun cleanup :: "nat \<Rightarrow> nat \<Rightarrow> ('a \<Rightarrow> nat) \<Rightarrow> ('a \<Rightarrow> 'a \<Rightarrow> bool) \<Rightarrow> 'a BRSet \<Rightarrow> nat \<Rightarrow> 'a BRSet run" where
  "cleanup 0 sz hash eq s i = None"
| "cleanup (Suc fuel) sz hash eq s i =
     (case table s ! i of
        None \<Rightarrow> Some s
      | Some t \<Rightarrow>
          do { (_, s') \<leftarrow> BRSetAdd hash eq
                 (s\<lparr>itemCount := itemCount s - 1, table := (table s)[i := None]\<rparr>) t;
               cleanup fuel sz hash eq s' ((i + 1) mod sz) })"

definition BRSetRemove :: "('a \<Rightarrow> nat) \<Rightarrow> ('a \<Rightarrow> 'a \<Rightarrow> bool) \<Rightarrow> 'a BRSet \<Rightarrow> 'a \<Rightarrow> ('a option \<times> 'a BRSet) run" where
  "BRSetRemove hash eq s item =
     do { i \<leftarrow> find_bucket hash eq s item;
          let r = table s ! i;
          let sz = length (table s);
          if r = None then Some (None, s)
          else do { s' \<leftarrow> cleanup sz sz hash eq
                      (s\<lparr>itemCount := itemCount s - 1, table := (table s)[i := None]\<rparr>)
                      ((i + 1) mod sz);
                    Some (r, s') } }"

definition BRSetClear :: "'a BRSet \<Rightarrow> 'a BRSet" where
  "BRSetClear s = s\<lparr>table := replicate (length (table s)) None, itemCount := 0\<rparr>"

definition BRSetCount :: "'a BRSet \<Rightarrow> nat" where
  "BRSetCount s = itemCount s"

definition BRSetGet :: "('a \<Rightarrow> nat) \<Rightarrow> ('a \<Rightarrow> 'a \<Rightarrow> bool) \<Rightarrow> 'a BRSet \<Rightarrow> 'a \<Rightarrow> 'a option run" where
  "BRSetGet hash eq s item = do { i \<leftarrow> find_bucket hash eq s item; Some (table s ! i) }"

definition BRSetContains :: "('a \<Rightarrow> nat) \<Rightarrow> ('a \<Rightarrow> 'a \<Rightarrow> bool) \<Rightarrow> 'a BRSet \<Rightarrow> 'a \<Rightarrow> bool run" where
  "BRSetContains hash eq s item = do { r \<leftarrow> BRSetGet hash eq s item; Some (r \<noteq> None) }"

fun intersects_buckets :: "('a \<Rightarrow> nat) \<Rightarrow> ('a \<Rightarrow> 'a \<Rightarrow> bool) \<Rightarrow> 'a BRSet \<Rightarrow> 'a option list \<Rightarrow> bool run" where
  "intersects_buckets hash eq s [] = Some False"
| "intersects_buckets hash eq s (None # ts) = intersects_buckets hash eq s ts"
| "intersects_buckets hash eq s (Some t # ts) =
     do { r \<leftarrow> BRSetGet hash eq s t;
          if r \<noteq> None then Some True else intersects_buckets hash eq s ts }"

definition BRSetIntersects :: "('a \<Rightarrow> nat) \<Rightarrow> ('a \<Rightarrow> 'a \<Rightarrow> bool) \<Rightarrow> 'a BRSet \<Rightarrow> 'a BRSet \<Rightarrow> bool run" where
  "BRSetIntersects hash eq s other = intersects_buckets hash eq s (table other)"

fun next_item :: "'a option list \<Rightarrow> 'a option" where
  "next_item [] = None"
| "next_item (Some t # ts) = Some t"
| "next_item (None # ts) = next_item ts"

definition BRSetIterate :: "('a \<Rightarrow> nat) \<Rightarrow> ('a \<Rightarrow> 'a \<Rightarrow> bool) \<Rightarrow> 'a BRSet \<Rightarrow> 'a option \<Rightarrow> 'a option run" where
  "BRSetIterate hash eq s previous =
     (case previous of
        None \<Rightarrow> Some (next_item (table s))
      | Some p \<Rightarrow> do { i \<leftarrow> find_bucket hash eq s p; Some (next_item (drop (i + 1) (table s))) })"

fun live_items :: "'a option list \<Rightarrow> 'a list" where
  "live_items [] = []"
| "live_items (None # ts) = live_items ts"
| "live_items (Some t # ts) = t # live_items ts"

definition BRSetAll :: "'a BRSet \<Rightarrow> nat \<Rightarrow> 'a list" where
  "BRSetAll s count = take count (live_items (table s))"

definition BRSetApply :: "'a BRSet \<Rightarrow> 'i \<Rightarrow> ('i \<Rightarrow> 'a \<Rightarrow> 'i) \<Rightarrow> 'i" where
  "BRSetApply s info apply_fn = foldl apply_fn info (live_items (table s))"

fun minus_buckets :: "('a \<Rightarrow> nat) \<Rightarrow> ('a \<Rightarrow> 'a \<Rightarrow> bool) \<Rightarrow> 'a BRSet \<Rightarrow> 'a option list \<Rightarrow> 'a BRSet run" where
  "minus_buckets hash eq s [] = Some s"
| "minus_buckets hash eq s (None # ts) = minus_buckets hash eq s ts"
| "minus_buckets hash eq s (Some t # ts) =
     do { (_, s') \<leftarrow> BRSetRemove hash eq s t; minus_buckets hash eq s' ts }"

definition BRSetMinus :: "('a \<Rightarrow> nat) \<Rightarrow> ('a \<Rightarrow> 'a \<Rightarrow> bool) \<Rightarrow> 'a BRSet \<Rightarrow> 'a BRSet \<Rightarrow> 'a BRSet run" where
  "BRSetMinus hash eq s other = minus_buckets hash eq s (table other)"

text \<open>Each round of \<open>BRSetIntersect\<close> removes an item or advances, so \<open>size + itemCount + 1\<close> rounds
  are enough.\<close>

fun intersect_from :: "nat \<Rightarrow> ('a \<Rightarrow> nat) \<Rightarrow> ('a \<Rightarrow> 'a \<Rightarrow> bool) \<Rightarrow> 'a BRSet \<Rightarrow> 'a BRSet \<Rightarrow> nat \<Rightarrow> 'a BRSet run" where
  "intersect_from 0 hash eq s other i = None"
| "intersect_from (Suc fuel) hash eq s other i =
     (if i < length (table s) then
        (case table s ! i of
           None \<Rightarrow> intersect_from fuel hash eq s other (i + 1)
         | Some t \<Rightarrow>
             do { c \<leftarrow> BRSetContains hash eq other t;
                  if \<not> c then do { (_, s') \<leftarrow> BRSetRemove hash eq s t; intersect_from fuel hash eq s' other i }
                  else intersect_from fuel hash eq s other (i + 1) })
      else Some s)"

definition BRSetIntersect :: "('a \<Rightarrow> nat) \<Rightarrow> ('a \<Rightarrow> 'a \<Rightarrow> bool) \<Rightarrow> 'a BRSet \<Rightarrow> 'a BRSet \<Rightarrow> 'a BRSet run" where
  "BRSetIntersect hash eq s other =
     intersect_from (length (table s) + itemCount s + 1) hash eq s other 0"

end
