(* ===== verification/SetRefine.thy ===== *)
theory SetRefine
  imports SetModel
begin

text \<open>
  Correctness of the hash table of \<^verbatim>\<open>BRSet.c\<close>. \<open>dist n i j\<close> is the number of probe steps from
  bucket \<open>i\<close> to bucket \<open>j\<close> of \<open>n\<close>; \<open>set_inv\<close> is the representation invariant (every item is
  reachable from its hash bucket through full buckets, no two items are equal, the count is
  exact, the load is at most two thirds of a table size); \<open>items\<close> is the abstraction. The
  lemmas of the locale are the refinement of each operation to sets modulo \<open>eq\<close>.
\<close>

section \<open>Probe distances\<close>

definition dist :: "nat \<Rightarrow> nat \<Rightarrow> nat \<Rightarrow> nat" where
  "dist n i j = (if i \<le> j then j - i else j + n - i)"

lemma dist_less: "i < n \<Longrightarrow> j < n \<Longrightarrow> dist n i j < n"
  by (auto simp: dist_def)

lemma dist_self [simp]: "dist n i i = 0"
  by (simp add: dist_def)

lemma dist_0_iff: "i < n \<Longrightarrow> j < n \<Longrightarrow> dist n i j = 0 \<longleftrightarrow> i = j"
  by (auto simp: dist_def)

lemma dist_inject: "i < n \<Longrightarrow> j < n \<Longrightarrow> k < n \<Longrightarrow> dist n i j = dist n i k \<longleftrightarrow> j = k"
  by (auto simp: dist_def split: if_splits)

lemma next_bucket: "i < n \<Longrightarrow> Suc i mod n = (if Suc i = n then 0 else Suc i)"
  by (cases "Suc i = n") auto

lemma dist_next:
  assumes "i < n" "j < n" "i \<noteq> j"
  shows "dist n i j = Suc (dist n ((i + 1) mod n) j)"
  using assms next_bucket [OF assms(1)] by (auto simp: dist_def split: if_splits)

lemma next_less: "i < n \<Longrightarrow> (i + 1) mod n < (n :: nat)"
  using mod_less_divisor [of n "i + 1"] by linarith

section \<open>The probe loop\<close>

definition stops :: "('a \<Rightarrow> 'a \<Rightarrow> bool) \<Rightarrow> 'a option list \<Rightarrow> 'a \<Rightarrow> nat \<Rightarrow> bool" where
  "stops eq tab item k \<longleftrightarrow> (case tab ! k of None \<Rightarrow> True | Some t \<Rightarrow> t = item \<or> eq t item)"

lemma probe_first_stop:
  assumes "i < length tab" "k < length tab" "stops eq tab item k" "dist (length tab) i k < fuel"
  shows "\<exists>j < length tab. probe eq fuel tab item i = Some j \<and> stops eq tab item j \<and>
    (\<forall>m < length tab. dist (length tab) i m < dist (length tab) i j \<longrightarrow> \<not> stops eq tab item m)"
  using assms
proof (induction fuel arbitrary: i)
  case 0
  then show ?case by simp
next
  case (Suc fuel)
  let ?n = "length tab" and ?i' = "(i + 1) mod length tab"
  show ?case
  proof (cases "stops eq tab item i")
    case True
    then have "probe eq (Suc fuel) tab item i = Some i"
      by (auto simp: stops_def split: option.splits)
    then show ?thesis using True Suc.prems(1) by (intro exI [of _ i]) simp
  next
    case False
    then have ne: "i \<noteq> k" using Suc.prems(3) by auto
    have step: "probe eq (Suc fuel) tab item i = probe eq fuel tab item ?i'"
      using False by (auto simp: stops_def split: option.splits)
    have "?i' < ?n" using Suc.prems(1) by (rule next_less)
    moreover have "dist ?n ?i' k < fuel"
      using dist_next [OF Suc.prems(1,2) ne] Suc.prems(4) by simp
    ultimately obtain j where j: "j < ?n" "probe eq fuel tab item ?i' = Some j" "stops eq tab item j"
        "\<forall>m < ?n. dist ?n ?i' m < dist ?n ?i' j \<longrightarrow> \<not> stops eq tab item m"
      using Suc.IH [of ?i'] Suc.prems(2,3) by blast
    have "\<not> stops eq tab item m" if "m < ?n" "dist ?n i m < dist ?n i j" for m
    proof (cases "m = i")
      case True
      then show ?thesis using False by simp
    next
      case neq: False
      have "i \<noteq> j" using j(3) False by auto
      then show ?thesis
        using that j(1,4) neq dist_next [OF Suc.prems(1) j(1)] dist_next [OF Suc.prems(1) that(1)] by auto
    qed
    then show ?thesis using j(1-3) step by auto
  qed
qed

section \<open>Representation invariant and abstraction\<close>

definition path_full :: "'a option list \<Rightarrow> nat \<Rightarrow> nat \<Rightarrow> bool" where
  "path_full tab h j \<longleftrightarrow>
     (\<forall>k < length tab. dist (length tab) h k < dist (length tab) h j \<longrightarrow> tab ! k \<noteq> None)"

definition slots_ok :: "('a \<Rightarrow> nat) \<Rightarrow> 'a option list \<Rightarrow> bool" where
  "slots_ok hash tab \<longleftrightarrow>
     (\<forall>j < length tab. \<forall>t. tab ! j = Some t \<longrightarrow> path_full tab (hash t mod length tab) j)"

definition distinct_mod :: "('a \<Rightarrow> 'a \<Rightarrow> bool) \<Rightarrow> 'a option list \<Rightarrow> bool" where
  "distinct_mod eq tab \<longleftrightarrow>
     (\<forall>i < length tab. \<forall>j < length tab. \<forall>x y. tab ! i = Some x \<longrightarrow> tab ! j = Some y \<longrightarrow> eq x y \<longrightarrow> i = j)"

lemma distinct_modD:
  "distinct_mod eq tab \<Longrightarrow> i < length tab \<Longrightarrow> j < length tab \<Longrightarrow> tab ! i = Some x \<Longrightarrow>
   tab ! j = Some y \<Longrightarrow> eq x y \<Longrightarrow> i = j"
  by (simp add: distinct_mod_def)

definition used :: "'a option list \<Rightarrow> nat" where
  "used tab = length (filter (\<lambda>b. b \<noteq> None) tab)"

definition items :: "'a BRSet \<Rightarrow> 'a set" where
  "items s = {x. Some x \<in> set (table s)}"

definition max_load :: "nat \<Rightarrow> nat" where
  "max_load n = (n + 2) div 3 * 2"

definition set_inv :: "('a \<Rightarrow> nat) \<Rightarrow> ('a \<Rightarrow> 'a \<Rightarrow> bool) \<Rightarrow> 'a BRSet \<Rightarrow> bool" where
  "set_inv hash eq s \<longleftrightarrow> length (table s) \<in> set (tl tableSizes) \<and> slots_ok hash (table s) \<and>
     distinct_mod eq (table s) \<and> itemCount s = used (table s) \<and> itemCount s \<le> max_load (length (table s))"

definition is_lookup :: "('a \<Rightarrow> 'a \<Rightarrow> bool) \<Rightarrow> 'a set \<Rightarrow> 'a \<Rightarrow> 'a option \<Rightarrow> bool" where
  "is_lookup eq S x r \<longleftrightarrow> (case r of None \<Rightarrow> \<forall>y\<in>S. \<not> eq y x | Some y \<Rightarrow> y \<in> S \<and> eq y x)"

lemma mem_items_iff: "x \<in> items s \<longleftrightarrow> (\<exists>j < length (table s). table s ! j = Some x)"
  by (auto simp: items_def in_set_conv_nth)

lemma live_items_eq: "live_items tab = map the (filter (\<lambda>b. b \<noteq> None) tab)"
  by (induction tab rule: live_items.induct) auto

lemma set_live_items: "set (live_items tab) = {x. Some x \<in> set tab}"
  by (induction tab rule: live_items.induct) auto

lemma used_update:
  assumes "i < length tab"
  shows "used (tab[i := b]) + (if tab ! i = None then 0 else 1) = used tab + (if b = None then 0 else 1)"
proof -
  have "tab = take i tab @ tab ! i # drop (Suc i) tab" using assms by (rule id_take_nth_drop)
  then have "used tab = used (take i tab) + used [tab ! i] + used (drop (Suc i) tab)"
    by (metis append_Cons append_Nil filter_append length_append used_def add.assoc)
  moreover have "used (tab[i := b]) = used (take i tab) + used [b] + used (drop (Suc i) tab)"
    using assms by (simp add: upd_conv_take_nth_drop used_def)
  ultimately show ?thesis by (simp add: used_def)
qed

lemma used_replicate_None [simp]: "used (replicate n None) = 0"
  by (simp add: used_def)

lemma exists_free:
  assumes "used tab < length tab"
  shows "\<exists>k < length tab. tab ! k = None"
proof (rule ccontr)
  assume "\<not> ?thesis"
  then have "filter (\<lambda>b. b \<noteq> None) tab = tab"
    by (intro filter_True) (auto simp: in_set_conv_nth)
  then show False using assms by (simp add: used_def)
qed

lemma tableSizes_bounds: "n \<in> set (tl tableSizes) \<Longrightarrow> 3 \<le> n \<and> max_load n < n"
  by (auto simp: tableSizes_def max_load_def)

lemma slots_ok_replicate_None [simp]: "slots_ok hash (replicate n None)"
  and distinct_mod_replicate_None [simp]: "distinct_mod eq (replicate n None)"
  by (simp_all add: slots_ok_def distinct_mod_def)

lemma tableSizes_successive:
  "successively (\<lambda>a b. a < b \<and> (1 < a \<longrightarrow> max_load a + 1 \<le> max_load b)) tableSizes"
  by (simp add: tableSizes_def max_load_def)

lemma tableSizes_length: "length tableSizes = 51" and tableSizes_final: "tableSizes ! 50 = 3914111041"
  by (simp_all add: tableSizes_def)

lemma tableSizes_step:
  assumes "k + 1 < length tableSizes"
  shows "tableSizes ! k < tableSizes ! (k + 1)"
    and "1 < tableSizes ! k \<Longrightarrow> max_load (tableSizes ! k) + 1 \<le> max_load (tableSizes ! (k + 1))"
  using tableSizes_successive assms by (auto simp: successively_conv_nth)

lemma tableSizes_sorted: "sorted_wrt (<) tableSizes"
  using tableSizes_successive
  by (subst successively_conv_sorted_wrt [symmetric]) (auto elim: successively_mono intro!: transpI)

lemma size_index_nth:
  assumes "k < length tableSizes"
  shows "size_index (tableSizes ! k) = k"
proof -
  have "takeWhile (\<lambda>n. n < tableSizes ! k) tableSizes = take k tableSizes"
    using assms tableSizes_sorted by (intro takeWhile_eq_take_P_nth) (auto simp: sorted_wrt_iff_nth_less)
  then show ?thesis using assms by (simp add: size_index_def)
qed

lemma BRSetInit_next:
  assumes "n \<in> set (tl tableSizes)" "n < 3914111041"
  shows "\<exists>n'. table (BRSetInit n) = replicate n' None \<and> n' \<in> set (tl tableSizes) \<and>
    n \<le> n' \<and> max_load n + 1 \<le> max_load n'"
proof -
  obtain k' where k': "k' < length (tl tableSizes)" "n = tl tableSizes ! k'"
    using assms(1) by (metis in_set_conv_nth)
  define k where "k = Suc k'"
  have k: "k < length tableSizes" "n = tableSizes ! k"
    using k' by (simp_all add: k_def nth_tl)
  have "k \<noteq> 50" using assms(2) k(2) tableSizes_final by auto
  then have k1: "k + 1 < length tableSizes" using k(1) tableSizes_length by simp
  have "tableSizes ! (k + 1) = tl tableSizes ! k" using k1 by (simp add: nth_tl)
  then have "tableSizes ! (k + 1) \<in> set (tl tableSizes)" using k1 by (simp add: nth_mem)
  moreover have "1 < n" using tableSizes_bounds [OF assms(1)] by simp
  ultimately show ?thesis
    using tableSizes_step [OF k1] k k1 by (auto simp: BRSetInit_def Let_def size_index_nth less_imp_le)
qed

lemma itemCount_BRSetInit [simp]: "itemCount (BRSetInit n) = 0"
  by (simp add: BRSetInit_def Let_def)

lemma items_replicate_None: "table s = replicate n None \<Longrightarrow> items s = {}"
  by (auto simp: items_def)

section \<open>What a client owes the table, and what it gets\<close>

locale hash_contract =
  fixes hash :: "'a \<Rightarrow> nat" and eq :: "'a \<Rightarrow> 'a \<Rightarrow> bool"
  assumes eq_refl: "eq x x"
    and eq_sym: "eq x y \<Longrightarrow> eq y x"
    and eq_trans: "eq x y \<Longrightarrow> eq y z \<Longrightarrow> eq x z"
    and eq_hash: "eq x y \<Longrightarrow> hash x = hash y"
begin

lemma stops_iff: "stops eq tab item k \<longleftrightarrow> tab ! k = None \<or> (\<exists>t. tab ! k = Some t \<and> eq t item)"
  using eq_refl by (auto simp: stops_def split: option.splits)

lemma find_bucket_free:
  assumes "used (table s) < length (table s)"
  obtains j where "j < length (table s)" "find_bucket hash eq s item = Some j"
    "stops eq (table s) item j"
    "\<And>m. m < length (table s) \<Longrightarrow>
       dist (length (table s)) (hash item mod length (table s)) m
         < dist (length (table s)) (hash item mod length (table s)) j \<Longrightarrow> \<not> stops eq (table s) item m"
proof -
  let ?n = "length (table s)" and ?h = "hash item mod length (table s)"
  obtain k where k: "k < ?n" "table s ! k = None" using exists_free [OF assms] by blast
  have h: "?h < ?n" using k(1) by (auto intro: mod_less_divisor)
  have "stops eq (table s) item k" using k(2) by (simp add: stops_def)
  moreover have "dist ?n ?h k < ?n" using h k(1) by (rule dist_less)
  moreover have "table s \<noteq> []" using k(1) by auto
  ultimately show thesis
    using probe_first_stop [OF h k(1), of eq item ?n] that unfolding find_bucket_def by auto
qed

lemma bucket_is_lookup:
  assumes ok: "slots_ok hash tab" and j: "j < length tab" "stops eq tab item j"
    and first: "\<And>m. m < length tab \<Longrightarrow>
       dist (length tab) (hash item mod length tab) m < dist (length tab) (hash item mod length tab) j
         \<Longrightarrow> \<not> stops eq tab item m"
  shows "is_lookup eq {x. Some x \<in> set tab} item (tab ! j)"
proof (cases "tab ! j")
  case (Some t)
  then show ?thesis using j by (auto simp: is_lookup_def stops_iff in_set_conv_nth)
next
  case None
  have "\<not> eq y item" if y: "Some y \<in> set tab" for y
  proof
    assume e: "eq y item"
    obtain k where k: "k < length tab" "tab ! k = Some y" using y by (auto simp: in_set_conv_nth)
    let ?h = "hash item mod length tab"
    have h: "?h < length tab" using j(1) by (auto intro: mod_less_divisor)
    have "path_full tab ?h k" using ok k eq_hash [OF e] by (auto simp: slots_ok_def)
    moreover have "stops eq tab item k" using k e by (auto simp: stops_iff)
    then have "dist (length tab) ?h j \<le> dist (length tab) ?h k" using first [OF k(1)] by fastforce
    moreover have "dist (length tab) ?h j \<noteq> dist (length tab) ?h k"
      using dist_inject [OF h j(1) k(1)] None k(2) by auto
    ultimately show False using None j(1) by (auto simp: path_full_def)
  qed
  then show ?thesis using None by (simp add: is_lookup_def)
qed

lemma slots_ok_store:
  assumes ok: "slots_ok hash tab" and j: "j < length tab"
    and first: "\<And>m. m < length tab \<Longrightarrow>
       dist (length tab) (hash item mod length tab) m < dist (length tab) (hash item mod length tab) j
         \<Longrightarrow> \<not> stops eq tab item m"
  shows "slots_ok hash (tab[j := Some item])"
  unfolding slots_ok_def
proof (intro allI impI)
  fix i t assume i: "i < length (tab[j := Some item])" "tab[j := Some item] ! i = Some t"
  show "path_full (tab[j := Some item]) (hash t mod length (tab[j := Some item])) i"
  proof (cases "i = j")
    case True
    then have "t = item" using i j by simp
    have "tab ! k \<noteq> None"
      if "k < length tab" "dist (length tab) (hash item mod length tab) k < dist (length tab) (hash item mod length tab) j" for k
      using first [OF that] by (simp add: stops_iff)
    then show ?thesis using True \<open>t = item\<close> j
      by (auto simp: path_full_def nth_list_update)
  next
    case False
    then have "tab ! i = Some t" using i by simp
    then have "path_full tab (hash t mod length tab) i" using ok i(1) by (simp add: slots_ok_def)
    then show ?thesis using j by (auto simp: path_full_def nth_list_update)
  qed
qed

lemma distinct_mod_store:
  assumes d: "distinct_mod eq tab" and j: "j < length tab" "stops eq tab item j"
    and l: "is_lookup eq {x. Some x \<in> set tab} item (tab ! j)"
  shows "distinct_mod eq (tab[j := Some item])"
proof -
  have other: "i = j" if "i < length tab" "tab ! i = Some x" "eq x item" for i x
  proof (cases "tab ! j")
    case None
    then show ?thesis using l that by (auto simp: is_lookup_def in_set_conv_nth)
  next
    case (Some t)
    then have "eq t item" using j(2) by (auto simp: stops_iff)
    then have "eq x t" using that(3) eq_sym eq_trans by blast
    then show ?thesis using d that j(1) Some by (auto simp: distinct_mod_def)
  qed
  show ?thesis
    unfolding distinct_mod_def
  proof (intro allI impI)
    fix i k x y
    assume a: "i < length (tab[j := Some item])" "k < length (tab[j := Some item])"
      "tab[j := Some item] ! i = Some x" "tab[j := Some item] ! k = Some y" "eq x y"
    show "i = k"
    proof (cases "i = j")
      case True
      then have "x = item" using a(3) j(1) by simp
      then have "eq y item" using a(5) by (blast intro: eq_sym)
      show ?thesis
      proof (cases "k = j")
        case False
        then have "tab ! k = Some y" using a(4) by simp
        then have "k = j" using other [of k y] a(2) \<open>eq y item\<close> by simp
        then show ?thesis using True by simp
      qed (simp add: True)
    next
      case ij: False
      then have ti: "tab ! i = Some x" using a(3) by simp
      show ?thesis
      proof (cases "k = j")
        case True
        then have "y = item" using a j(1) by simp
        then show ?thesis using True a(1,5) ti other [of i x] by simp
      next
        case False
        then have "tab ! k = Some y" using a(4) by simp
        then show ?thesis using d a(1,2,5) ti by (simp add: distinct_mod_def)
      qed
    qed
  qed
qed

lemma items_store:
  assumes d: "distinct_mod eq tab" and j: "j < length tab" "stops eq tab item j"
    and l: "is_lookup eq {x. Some x \<in> set tab} item (tab ! j)"
  shows "{x. Some x \<in> set (tab[j := Some item])} = insert item {y \<in> {x. Some x \<in> set tab}. \<not> eq y item}"
proof (intro set_eqI iffI)
  fix x assume "x \<in> {x. Some x \<in> set (tab[j := Some item])}"
  then obtain i where i: "i < length tab" "tab[j := Some item] ! i = Some x"
    by (auto simp: in_set_conv_nth)
  show "x \<in> insert item {y \<in> {x. Some x \<in> set tab}. \<not> eq y item}"
  proof (cases "i = j")
    case True
    then show ?thesis using i j by simp
  next
    case False
    then have xi: "tab ! i = Some x" using i by simp
    moreover have "\<not> eq x item"
    proof
      assume e: "eq x item"
      have "distinct_mod eq (tab[j := Some item])" using d j l by (rule distinct_mod_store)
      from distinct_modD [OF this, of i j x item] show False using False i j(1) e by simp
    qed
    ultimately show ?thesis using i(1) by (auto simp: in_set_conv_nth)
  qed
next
  fix x assume "x \<in> insert item {y \<in> {x. Some x \<in> set tab}. \<not> eq y item}"
  then consider "x = item" | "Some x \<in> set tab" "\<not> eq x item" by auto
  then show "x \<in> {x. Some x \<in> set (tab[j := Some item])}"
  proof cases
    case 1
    then show ?thesis using j(1) by (simp add: set_update_memI)
  next
    case 2
    then obtain i where "i < length tab" "tab ! i = Some x" by (auto simp: in_set_conv_nth)
    moreover from this have "i \<noteq> j" using 2(2) j(2) by (auto simp: stops_iff)
    ultimately show ?thesis by (auto simp: in_set_conv_nth intro!: exI [of _ i])
  qed
qed

subsection \<open>Lookup\<close>

lemma inv_room: "set_inv hash eq s \<Longrightarrow> used (table s) < length (table s)"
  using tableSizes_bounds [of "length (table s)"] by (auto simp: set_inv_def)

lemma get_correct:
  assumes "set_inv hash eq s"
  shows "\<exists>r. BRSetGet hash eq s item = Some r \<and> is_lookup eq (items s) item r"
proof -
  have ok: "slots_ok hash (table s)" using assms by (simp add: set_inv_def)
  obtain j where j: "j < length (table s)" "find_bucket hash eq s item = Some j" "stops eq (table s) item j"
    "\<And>m. m < length (table s) \<Longrightarrow>
       dist (length (table s)) (hash item mod length (table s)) m
         < dist (length (table s)) (hash item mod length (table s)) j \<Longrightarrow> \<not> stops eq (table s) item m"
    using find_bucket_free [OF inv_room [OF assms], of item] by blast
  have "is_lookup eq (items s) item (table s ! j)"
    unfolding items_def using ok j(1,3,4) by (rule bucket_is_lookup)
  then show ?thesis using j(2) by (simp add: BRSetGet_def)
qed

lemma contains_correct:
  assumes "set_inv hash eq s"
  shows "BRSetContains hash eq s item = Some (\<exists>y\<in>items s. eq y item)"
proof -
  obtain r where "BRSetGet hash eq s item = Some r" "is_lookup eq (items s) item r"
    using get_correct [OF assms] by blast
  then show ?thesis by (cases r) (auto simp: BRSetContains_def is_lookup_def)
qed

end

section \<open>Adding, rebuilding and uniting\<close>

definition insert_mod :: "('a \<Rightarrow> 'a \<Rightarrow> bool) \<Rightarrow> 'a \<Rightarrow> 'a set \<Rightarrow> 'a set" where
  "insert_mod eq x S = insert x {y \<in> S. \<not> eq y x}"

lemma distinct_mod_Cons:
  assumes "distinct_mod eq (b # ts)"
  shows "distinct_mod eq ts" and "b = Some x \<Longrightarrow> Some y \<in> set ts \<Longrightarrow> \<not> eq x y"
proof -
  show "distinct_mod eq ts"
    unfolding distinct_mod_def
  proof (intro allI impI)
    fix i j x y
    assume "i < length ts" "j < length ts" "ts ! i = Some x" "ts ! j = Some y" "eq x y"
    then show "i = j" using distinct_modD [OF assms, of "Suc i" "Suc j" x y] by simp
  qed
next
  assume b: "b = Some x" and y: "Some y \<in> set ts"
  obtain j where "j < length ts" "ts ! j = Some y" using y by (auto simp: in_set_conv_nth)
  then show "\<not> eq x y" using distinct_modD [OF assms, of 0 "Suc j" x y] b by auto
qed

lemma distinct_mod_live: "distinct_mod eq ts \<Longrightarrow> sorted_wrt (\<lambda>x y. \<not> eq x y) (live_items ts)"
proof (induction ts rule: live_items.induct)
  case (3 t ts)
  then show ?case
    using distinct_mod_Cons [OF "3.prems"] by (auto simp: set_live_items)
qed (auto dest: distinct_mod_Cons)

lemma length_live_items: "length (live_items ts) = used ts"
  by (simp add: live_items_eq used_def)

context hash_contract
begin

lemma foldl_insert_mod:
  "sorted_wrt (\<lambda>x y. \<not> eq x y) xs \<Longrightarrow>
   foldl (\<lambda>S x. insert_mod eq x S) S xs = set xs \<union> {y \<in> S. \<forall>x\<in>set xs. \<not> eq y x}"
  by (induction xs arbitrary: S) (auto simp: insert_mod_def)

lemma store_bucket:
  assumes inv: "set_inv hash eq s"
  obtains j where "j < length (table s)" "find_bucket hash eq s item = Some j"
    "is_lookup eq (items s) item (table s ! j)"
    "slots_ok hash ((table s)[j := Some item])" "distinct_mod eq ((table s)[j := Some item])"
    "{x. Some x \<in> set ((table s)[j := Some item])} = insert_mod eq item (items s)"
    "used ((table s)[j := Some item]) = itemCount s + (if table s ! j = None then 1 else 0)"
proof -
  have ok: "slots_ok hash (table s)" "distinct_mod eq (table s)" "itemCount s = used (table s)"
    using inv by (simp_all add: set_inv_def)
  obtain j where j: "j < length (table s)" "find_bucket hash eq s item = Some j" "stops eq (table s) item j"
    "\<And>m. m < length (table s) \<Longrightarrow>
       dist (length (table s)) (hash item mod length (table s)) m
         < dist (length (table s)) (hash item mod length (table s)) j \<Longrightarrow> \<not> stops eq (table s) item m"
    using find_bucket_free [OF inv_room [OF inv], of item] by blast
  have l: "is_lookup eq {x. Some x \<in> set (table s)} item (table s ! j)"
    using ok(1) j(1,3,4) by (rule bucket_is_lookup)
  show thesis
  proof (rule that [OF j(1,2)])
    show "is_lookup eq (items s) item (table s ! j)" using l by (simp add: items_def)
    show "slots_ok hash ((table s)[j := Some item])" using ok(1) j(1,4) by (rule slots_ok_store)
    show "distinct_mod eq ((table s)[j := Some item])" using ok(2) j(1,3) l by (rule distinct_mod_store)
    show "{x. Some x \<in> set ((table s)[j := Some item])} = insert_mod eq item (items s)"
      using items_store [OF ok(2) j(1,3) l] by (simp add: items_def insert_mod_def)
    show "used ((table s)[j := Some item]) = itemCount s + (if table s ! j = None then 1 else 0)"
      using used_update [OF j(1), of "Some item"] ok(3) by (auto split: if_splits)
  qed
qed

lemma add_in_place:
  assumes inv: "set_inv hash eq s"
    and room: "itemCount s < max_load (length (table s)) \<or> (\<exists>y\<in>items s. eq y item)"
  shows "\<exists>r s'. BRSetAdd_upto g hash eq s item = Some (r, s') \<and> is_lookup eq (items s) item r \<and>
    set_inv hash eq s' \<and> items s' = insert_mod eq item (items s) \<and>
    length (table s') = length (table s) \<and> itemCount s' = itemCount s + (if r = None then 1 else 0)"
proof -
  obtain j where j: "j < length (table s)" "find_bucket hash eq s item = Some j"
    "is_lookup eq (items s) item (table s ! j)"
    "slots_ok hash ((table s)[j := Some item])" "distinct_mod eq ((table s)[j := Some item])"
    "{x. Some x \<in> set ((table s)[j := Some item])} = insert_mod eq item (items s)"
    "used ((table s)[j := Some item]) = itemCount s + (if table s ! j = None then 1 else 0)"
    using store_bucket [OF inv] by blast
  let ?s' = "s\<lparr>table := (table s)[j := Some item],
    itemCount := (if table s ! j = None then itemCount s + 1 else itemCount s)\<rparr>"
  have "table s ! j = None \<Longrightarrow> itemCount s < max_load (length (table s))"
    using room j(3) by (auto simp: is_lookup_def)
  then have fits: "itemCount ?s' \<le> max_load (length (table s))"
    using inv by (auto simp: set_inv_def)
  have "BRSetAdd_upto g hash eq s item = Some (table s ! j, ?s')"
    using fits by (simp add: BRSetAdd_upto.simps j(2) Let_def max_load_def)
  moreover have "set_inv hash eq ?s'"
    using inv j(4,5,7) fits by (simp add: set_inv_def)
  moreover have "items ?s' = insert_mod eq item (items s)" using j(6) by (simp add: items_def)
  ultimately show ?thesis using j(3) by auto
qed

lemma add_buckets_fit:
  assumes "set_inv hash eq s" "itemCount s + used ts \<le> max_load (length (table s))"
  shows "\<exists>s'. add_buckets g hash eq s ts = Some s' \<and> set_inv hash eq s' \<and>
    length (table s') = length (table s) \<and>
    items s' = foldl (\<lambda>S x. insert_mod eq x S) (items s) (live_items ts)"
  using assms
proof (induction ts arbitrary: s rule: live_items.induct)
  case (3 t ts)
  have "itemCount s < max_load (length (table s))" using "3.prems"(2) by (simp add: used_def)
  then obtain r s1 where s1: "BRSetAdd_upto g hash eq s t = Some (r, s1)" "set_inv hash eq s1"
    "items s1 = insert_mod eq t (items s)" "length (table s1) = length (table s)"
    "itemCount s1 \<le> itemCount s + 1"
    using add_in_place [OF "3.prems"(1), of t g] by auto
  moreover have "itemCount s1 + used ts \<le> max_load (length (table s1))"
    using "3.prems"(2) s1(4,5) by (simp add: used_def)
  ultimately show ?case using "3.IH" [of s1] by auto
qed (auto simp: used_def)

lemma fresh_inv:
  assumes "table s = replicate n None" "itemCount s = 0" "n \<in> set (tl tableSizes)"
  shows "set_inv hash eq s" "items s = {}"
  using assms by (auto simp: set_inv_def items_def)

lemma grow_correct:
  assumes n: "n \<in> set (tl tableSizes)" "n < 3914111041"
    and d: "distinct_mod eq (table s)" and u: "used (table s) \<le> max_load n + 1"
  shows "\<exists>s'. BRSetGrow_upto g hash eq s n = Some s' \<and> set_inv hash eq s' \<and>
    n \<le> length (table s') \<and> items s' = items s"
proof -
  obtain n' where n': "table (BRSetInit n :: 'a BRSet) = replicate n' None" "n' \<in> set (tl tableSizes)"
      "n \<le> n'" "max_load n + 1 \<le> max_load n'"
    using BRSetInit_next [OF n] by blast
  note f = fresh_inv [OF n'(1) itemCount_BRSetInit n'(2)]
  have "itemCount (BRSetInit n :: 'a BRSet) + used (table s) \<le> max_load (length (table (BRSetInit n :: 'a BRSet)))"
    using n'(1,4) u by simp
  from add_buckets_fit [OF f(1) this, of g] obtain s' where
    s': "add_buckets g hash eq (BRSetInit n) (table s) = Some s'" "set_inv hash eq s'"
      "length (table s') = n'" "items s' = set (live_items (table s))"
    using n'(1) f(2) by (auto simp: foldl_insert_mod [OF distinct_mod_live [OF d]])
  then show ?thesis
    using n'(3) by (auto simp: BRSetGrow_upto.simps set_inv_def items_def set_live_items)
qed

lemma add_correct:
  assumes inv: "set_inv hash eq s" and big: "length (table s) < 3914111041"
  shows "\<exists>r s'. BRSetAdd hash eq s item = Some (r, s') \<and> is_lookup eq (items s) item r \<and>
    set_inv hash eq s' \<and> items s' = insert_mod eq item (items s) \<and> length (table s) \<le> length (table s')"
proof (cases "itemCount s < max_load (length (table s)) \<or> (\<exists>y\<in>items s. eq y item)")
  case True
  from add_in_place [OF inv True] show ?thesis unfolding BRSetAdd_def by fastforce
next
  case False
  obtain j where j: "j < length (table s)" "find_bucket hash eq s item = Some j"
    "is_lookup eq (items s) item (table s ! j)"
    "slots_ok hash ((table s)[j := Some item])" "distinct_mod eq ((table s)[j := Some item])"
    "{x. Some x \<in> set ((table s)[j := Some item])} = insert_mod eq item (items s)"
    "used ((table s)[j := Some item]) = itemCount s + (if table s ! j = None then 1 else 0)"
    using store_bucket [OF inv] by blast
  have none: "table s ! j = None" using False j(3) by (auto simp: is_lookup_def split: option.splits)
  have full: "itemCount s = max_load (length (table s))" using inv False by (simp add: set_inv_def)
  let ?s1 = "s\<lparr>table := (table s)[j := Some item], itemCount := itemCount s + 1\<rparr>"
  have "distinct_mod eq (table ?s1)" "used (table ?s1) \<le> max_load (length (table s)) + 1"
    using j(5,7) none full by simp_all
  moreover have "length (table s) \<in> set (tl tableSizes)" using inv by (simp add: set_inv_def)
  moreover obtain g where g: "length tableSizes = Suc g" by (simp add: tableSizes_length)
  ultimately obtain s' where s': "BRSetGrow_upto g hash eq ?s1 (length (table s)) = Some s'"
    "set_inv hash eq s'" "length (table s) \<le> length (table s')" "items s' = items ?s1"
    using grow_correct [of "length (table s)" ?s1 g] big by blast
  have "BRSetAdd hash eq s item = Some (None, s')"
    using s'(1) full unfolding BRSetAdd_def g
    by (simp add: BRSetAdd_upto.simps j(2) Let_def none max_load_def)
  moreover have "items s' = insert_mod eq item (items s)" using s'(4) j(6) by (simp add: items_def)
  ultimately show ?thesis using s'(2,3) j(3) none by auto
qed

end

section \<open>Removing: the cleanup of the run after the freed bucket\<close>

lemma dist_between:
  "h < n \<Longrightarrow> i < n \<Longrightarrow> k < n \<Longrightarrow> e < n \<Longrightarrow> dist n h i < dist n h k \<Longrightarrow> dist n i e < dist n i k \<Longrightarrow>
   dist n h e < dist n h k"
  by (auto simp: dist_def split: if_splits)

lemma dist_back: "i < n \<Longrightarrow> dist n ((i + 1) mod n) i = n - 1"
  using next_bucket [of i n] by (auto simp: dist_def)

text \<open>\<open>off_run\<close>: every item that is not in the run of buckets from \<open>i\<close> up to the free bucket \<open>e\<close> is
  reachable from its hash bucket.\<close>

definition off_run :: "('a \<Rightarrow> nat) \<Rightarrow> 'a option list \<Rightarrow> nat \<Rightarrow> nat \<Rightarrow> bool" where
  "off_run hash tab i e \<longleftrightarrow>
     (\<forall>k < length tab. \<forall>u. tab ! k = Some u \<longrightarrow> \<not> dist (length tab) i k < dist (length tab) i e \<longrightarrow>
        path_full tab (hash u mod length tab) k)"

lemma clear_off_run:
  assumes o: "off_run hash tab i e" and i: "i < length tab" and e: "e < length tab" "tab ! e = None"
    and k: "k < length tab" "k \<noteq> i" "tab ! k = Some u" "\<not> dist (length tab) i k < dist (length tab) i e"
  shows "path_full (tab[i := None]) (hash u mod length tab) k"
proof -
  let ?n = "length tab" and ?h = "hash u mod length tab"
  have h: "?h < ?n" using i by (auto intro: mod_less_divisor)
  have full: "path_full tab ?h k" using o k by (simp add: off_run_def)
  have "e \<noteq> k" using e(2) k(3) by auto
  then have ek: "dist ?n i e < dist ?n i k" using k(4) dist_inject [OF i e(1) k(1)] by auto
  have "\<not> dist ?n ?h i < dist ?n ?h k"
  proof
    assume "dist ?n ?h i < dist ?n ?h k"
    then have "dist ?n ?h e < dist ?n ?h k" using dist_between [OF h i k(1) e(1)] ek by simp
    then show False using full e by (auto simp: path_full_def)
  qed
  then show ?thesis using full i by (auto simp: path_full_def nth_list_update)
qed

lemma run_next:
  assumes "i < n" "e < n" "i \<noteq> e" "k < n" "k \<noteq> i"
  shows "dist n ((i + 1) mod n) k < dist n ((i + 1) mod n) e \<longleftrightarrow> dist n i k < dist n i e"
  using dist_next [OF assms(1,2,3)] dist_next [OF assms(1,4)] assms(5) by simp

lemma nth_clear: "j < length tab \<Longrightarrow> tab[i := None] ! j = Some x \<longleftrightarrow> j \<noteq> i \<and> tab ! j = Some x"
  by (cases "i = j") auto

lemma distinct_mod_clear:
  assumes "distinct_mod eq tab"
  shows "distinct_mod eq (tab[i := None])"
  unfolding distinct_mod_def
proof (intro allI impI)
  fix j k x y
  assume a: "j < length (tab[i := None])" "k < length (tab[i := None])"
    "tab[i := None] ! j = Some x" "tab[i := None] ! k = Some y" "eq x y"
  then have "tab ! j = Some x" "tab ! k = Some y"
    by (simp_all add: nth_clear)
  then show "j = k" using distinct_modD [OF assms] a(1,2,5) by simp
qed

lemma items_clear:
  assumes "i < length tab" "tab ! i = Some t"
  shows "insert t {x. Some x \<in> set (tab[i := None])} = {x. Some x \<in> set tab}"
proof (intro set_eqI iffI)
  fix x assume "x \<in> insert t {x. Some x \<in> set (tab[i := None])}"
  then show "x \<in> {x. Some x \<in> set tab}"
    using assms set_update_subset_insert [of tab i None] nth_mem [OF assms(1)] by auto
next
  fix x assume "x \<in> {x. Some x \<in> set tab}"
  then obtain k where k: "k < length tab" "tab ! k = Some x" by (auto simp: in_set_conv_nth)
  then have "k \<noteq> i \<Longrightarrow> tab[i := None] ! k = Some x" by simp
  then show "x \<in> insert t {x. Some x \<in> set (tab[i := None])}"
    using k assms by (cases "k = i") (auto simp: in_set_conv_nth)
qed

context hash_contract
begin

lemma clear_no_equal:
  assumes d: "distinct_mod eq tab" and i: "i < length tab" "tab ! i = Some t"
    and y: "Some y \<in> set (tab[i := None])"
  shows "\<not> eq y t"
proof
  assume e: "eq y t"
  obtain k where k: "k < length tab" "tab[i := None] ! k = Some y" using y by (auto simp: in_set_conv_nth)
  then have "k \<noteq> i" "tab ! k = Some y" using i(1) by (auto simp: nth_list_update split: if_splits)
  then show False using distinct_modD [OF d k(1) i(1) _ i(2) e] by simp
qed

text \<open>One round of the cleanup: the item of bucket \<open>i\<close> is taken out and put back.\<close>

lemma readd:
  fixes s :: "'a BRSet"
  assumes inv: "distinct_mod eq (table s)" "itemCount s = used (table s)"
      "itemCount s \<le> max_load (length (table s))" "length (table s) \<in> set (tl tableSizes)"
    and i: "i < length (table s)" "table s ! i = Some t"
  obtains j s2 where "j < length (table s)" "table s ! j = None \<or> j = i"
    "\<And>m. m < length (table s) \<Longrightarrow> dist (length (table s)) (hash t mod length (table s)) m
        < dist (length (table s)) (hash t mod length (table s)) j \<Longrightarrow> (table s)[i := None] ! m \<noteq> None"
    "BRSetAdd hash eq (s\<lparr>itemCount := itemCount s - 1, table := (table s)[i := None]\<rparr>) t = Some (None, s2)"
    "table s2 = (table s)[i := None, j := Some t]" "itemCount s2 = itemCount s"
    "distinct_mod eq (table s2)" "itemCount s2 = used (table s2)" "items s2 = items s"
proof -
  let ?T1 = "(table s)[i := None]"
  let ?s1 = "s\<lparr>itemCount := itemCount s - 1, table := ?T1\<rparr>"
  have u1: "used ?T1 + 1 = itemCount s" using used_update [OF i(1), of None] i(2) inv(2) by simp
  have "used ?T1 < length ?T1"
    using u1 inv(3) tableSizes_bounds [OF inv(4)] by simp
  then obtain j where j: "j < length ?T1" "find_bucket hash eq ?s1 t = Some j" "stops eq ?T1 t j"
      "\<And>m. m < length ?T1 \<Longrightarrow> dist (length ?T1) (hash t mod length ?T1) m
         < dist (length ?T1) (hash t mod length ?T1) j \<Longrightarrow> \<not> stops eq ?T1 t m"
    using find_bucket_free [of ?s1 t] by auto
  have none: "?T1 ! j = None"
  proof (cases "?T1 ! j")
    case (Some y)
    then have "eq y t" using j(3) by (simp add: stops_iff)
    moreover have "Some y \<in> set ?T1" using Some j(1) by (metis nth_mem)
    ultimately show ?thesis using clear_no_equal [OF inv(1) i] by blast
  qed simp
  let ?s2 = "s\<lparr>itemCount := itemCount s, table := ?T1[j := Some t]\<rparr>"
  have l: "is_lookup eq {x. Some x \<in> set ?T1} t (?T1 ! j)"
    using none clear_no_equal [OF inv(1) i] by (simp add: is_lookup_def)
  have d1: "distinct_mod eq ?T1" using inv(1) by (rule distinct_mod_clear)
  obtain g where g: "length tableSizes = Suc g" by (simp add: tableSizes_length)
  have "BRSetAdd hash eq ?s1 t = Some (None, ?s2)"
    using j(1,2) none inv(3) u1 unfolding BRSetAdd_def g
    by (simp add: BRSetAdd_upto.simps Let_def max_load_def)
  moreover have "distinct_mod eq (table ?s2)"
    using distinct_mod_store [OF d1 j(1,3) l] by simp
  moreover have "itemCount ?s2 = used (table ?s2)"
    using used_update [OF j(1), of "Some t"] none u1 by simp
  moreover have "items ?s2 = items s"
  proof -
    have "{y \<in> {x. Some x \<in> set ?T1}. \<not> eq y t} = {x. Some x \<in> set ?T1}"
      using clear_no_equal [OF inv(1) i] by auto
    then show ?thesis
      using items_store [OF d1 j(1,3) l] items_clear [OF i] by (simp add: items_def)
  qed
  moreover have "table s ! j = None \<or> j = i" using none i(1) by (auto simp: nth_list_update split: if_splits)
  moreover have "?T1 ! m \<noteq> None" if "m < length (table s)" "dist (length (table s)) (hash t mod length (table s)) m
        < dist (length (table s)) (hash t mod length (table s)) j" for m
    using j(4) [of m] that by (simp add: stops_iff)
  ultimately show thesis using j(1) that [of j ?s2] by simp
qed

end

context hash_contract
begin

lemma off_run_step:
  assumes o: "off_run hash T i e" and T0: "slots_ok hash T0" "length T0 = length T"
    and e: "e < length T" "T ! e = None" "T0 ! e = None"
    and i: "i < length T" "T ! i = Some t" "T0 ! i = Some t"
    and j: "j < length T" "T ! j = None \<or> j = i"
    and first: "\<And>m. m < length T \<Longrightarrow> dist (length T) (hash t mod length T) m
        < dist (length T) (hash t mod length T) j \<Longrightarrow> T[i := None] ! m \<noteq> None"
  shows "off_run hash (T[i := None, j := Some t]) ((i + 1) mod length T) e \<and> j \<noteq> e"
proof
  let ?n = "length T" and ?h = "hash t mod length T" and ?T2 = "T[i := None, j := Some t]"
  have h: "?h < ?n" using i(1) by (auto intro: mod_less_divisor)
  have ie: "i \<noteq> e" using e(2) i(2) by auto
  have ji: "dist ?n ?h j \<le> dist ?n ?h i" using first [OF i(1)] i(1) by fastforce
  show je: "j \<noteq> e"
  proof
    assume "j = e"
    then have "dist ?n ?h e \<noteq> dist ?n ?h i" using dist_inject [OF h e(1) i(1)] ie by simp
    then have "dist ?n ?h e < dist ?n ?h i" using ji \<open>j = e\<close> by simp
    moreover have "path_full T0 ?h i" using T0 i(1,3) by (simp add: slots_ok_def)
    ultimately show False using e T0(2) by (auto simp: path_full_def)
  qed
  show "off_run hash ?T2 ((i + 1) mod ?n) e"
    unfolding off_run_def
  proof (intro allI impI)
    fix k u
    assume k: "k < length ?T2" "?T2 ! k = Some u"
      "\<not> dist (length ?T2) ((i + 1) mod ?n) k < dist (length ?T2) ((i + 1) mod ?n) e"
    show "path_full ?T2 (hash u mod length ?T2) k"
    proof (cases "k = j")
      case True
      then have "u = t" using k j(1) by simp
      then show ?thesis using True first j(1) by (auto simp: path_full_def nth_list_update split: if_splits)
    next
      case False
      then have T1k: "T[i := None] ! k = Some u" using k(2) by simp
      then have ki: "k \<noteq> i" "T ! k = Some u" using k(1) by (simp_all add: nth_clear)
      have "\<not> dist ?n i k < dist ?n i e"
        using run_next [OF i(1) e(1) ie _ ki(1)] k(1,3) by simp
      then have "path_full (T[i := None]) (hash u mod ?n) k"
        using clear_off_run [OF o i(1) e(1,2) _ ki] k(1) by simp
      then show ?thesis using j(1) by (auto simp: path_full_def nth_list_update)
    qed
  qed
qed

lemma cleanup_correct:
  assumes "length (table s) = n" "n \<in> set (tl tableSizes)" "slots_ok hash T0" "length T0 = n"
    and "e < n" "T0 ! e = None" "table s ! e = None" "i < n"
    and "\<And>k. k < n \<Longrightarrow> dist n i k < dist n i e \<Longrightarrow> table s ! k = T0 ! k \<and> T0 ! k \<noteq> None"
    and "off_run hash (table s) i e"
    and "distinct_mod eq (table s)" "itemCount s = used (table s)" "itemCount s \<le> max_load n"
    and "dist n i e < fuel"
  shows "\<exists>s'. cleanup fuel n hash eq s i = Some s' \<and> set_inv hash eq s' \<and> items s' = items s \<and>
    length (table s') = n"
  using assms
proof (induction fuel arbitrary: s i)
  case 0
  then show ?case by simp
next
  case (Suc fuel s i)
  note p = Suc.prems
  show ?case
  proof (cases "i = e")
    case True
    then have "slots_ok hash (table s)"
      using p(1,10) by (auto simp: slots_ok_def off_run_def)
    then have "set_inv hash eq s" using p by (simp add: set_inv_def)
    then show ?thesis using p(1,7) True by simp
  next
    case False
    let ?i' = "(i + 1) mod n"
    have "0 < dist n i e" using False dist_0_iff [OF p(8,5)] by simp
    then have Ti: "table s ! i = T0 ! i" "T0 ! i \<noteq> None" using p(9) [OF p(8)] by simp_all
    then obtain t where t: "T0 ! i = Some t" "table s ! i = Some t" by auto
    obtain j s2 where j: "j < n" "table s ! j = None \<or> j = i"
      "\<And>m. m < n \<Longrightarrow> dist n (hash t mod n) m < dist n (hash t mod n) j \<Longrightarrow> (table s)[i := None] ! m \<noteq> None"
      "BRSetAdd hash eq (s\<lparr>itemCount := itemCount s - 1, table := (table s)[i := None]\<rparr>) t = Some (None, s2)"
      "table s2 = (table s)[i := None, j := Some t]" "itemCount s2 = itemCount s"
      "distinct_mod eq (table s2)" "itemCount s2 = used (table s2)" "items s2 = items s"
      using readd [of s i t] p(1,2,8,11,12,13) t(2) by auto
    have o: "off_run hash (table s2) ?i' e" "j \<noteq> e"
      using off_run_step [OF p(10) p(3), of t j] p(1,4,5,6,7,8) t j(1,2,3) j(5) by auto
    have keep: "table s2 ! k = T0 ! k \<and> T0 ! k \<noteq> None" if "k < n" "dist n ?i' k < dist n ?i' e" for k
    proof -
      have ki: "k \<noteq> i"
        using that dist_back [OF p(8)] dist_less [OF next_less [OF p(8)] p(5)] by auto
      then have "dist n i k < dist n i e" using run_next [OF p(8,5) False that(1)] that(2) by simp
      then have "table s ! k = T0 ! k" "T0 ! k \<noteq> None" using p(9) that(1) by blast+
      moreover from this have "k \<noteq> j" using ki j(2) by auto
      ultimately show ?thesis using ki j(5) by simp
    qed
    have len: "length (table s2) = n" using j(5) p(1) by simp
    have s2e: "table s2 ! e = None" using j(5) o(2) False p(7) by simp
    have load: "itemCount s2 \<le> max_load n" using j(6) p(13) by simp
    have fuel: "dist n ?i' e < fuel" using dist_next [OF p(8,5) False] p(14) by simp
    have "\<exists>s'. cleanup fuel n hash eq s2 ?i' = Some s' \<and> set_inv hash eq s' \<and> items s' = items s2 \<and>
      length (table s') = n"
      by (rule Suc.IH [OF len p(2,3,4,5,6) s2e next_less [OF p(8)] keep o(1) j(7,8) load fuel])
    then show ?thesis using t(2) j(4,9) by simp
  qed
qed

lemma remove_correct:
  assumes inv: "set_inv hash eq s"
  shows "\<exists>r s'. BRSetRemove hash eq s item = Some (r, s') \<and> is_lookup eq (items s) item r \<and>
    set_inv hash eq s' \<and> items s' = {y \<in> items s. \<not> eq y item} \<and> length (table s') = length (table s)"
proof -
  let ?T0 = "table s" and ?n = "length (table s)"
  have i0: "slots_ok hash ?T0" "distinct_mod eq ?T0" "itemCount s = used ?T0" "itemCount s \<le> max_load ?n"
    "?n \<in> set (tl tableSizes)" using inv by (simp_all add: set_inv_def)
  obtain p where p: "p < ?n" "find_bucket hash eq s item = Some p" "is_lookup eq (items s) item (?T0 ! p)"
    using store_bucket [OF inv, of item] by metis
  show ?thesis
  proof (cases "?T0 ! p")
    case None
    then have "{y \<in> items s. \<not> eq y item} = items s" using p(3) by (auto simp: is_lookup_def)
    then show ?thesis using p None inv by (simp add: BRSetRemove_def Let_def)
  next
    case (Some t)
    then have et: "eq t item" "t \<in> items s" using p(3) by (simp_all add: is_lookup_def)
    let ?i = "(p + 1) mod ?n"
    let ?s1 = "s\<lparr>itemCount := itemCount s - 1, table := ?T0[p := None]\<rparr>"
    have i: "?i < ?n" by (rule next_less [OF p(1)])
    define free where "free = (\<lambda>e. e < ?n \<and> ?T0 ! e = None)"
    have "\<exists>e. free e" using exists_free inv_room [OF inv] unfolding free_def by blast
    then obtain e where e: "free e" "\<And>k. free k \<Longrightarrow> dist ?n ?i e \<le> dist ?n ?i k"
      using ex_has_least_nat [of free _ "dist ?n ?i"] by blast
    have en: "e < ?n" "?T0 ! e = None" using e(1) by (simp_all add: free_def)
    have pe: "p \<noteq> e" using en(2) Some by auto
    have small: "dist ?n ?i e < ?n - 1"
      using dist_less [OF i en(1)] dist_back [OF p(1)] dist_inject [OF i en(1) p(1)] pe by linarith
    have run: "?T0[p := None] ! k = ?T0 ! k \<and> ?T0 ! k \<noteq> None"
      if "k < ?n" "dist ?n ?i k < dist ?n ?i e" for k
    proof -
      have "k \<noteq> p" using that(2) small dist_back [OF p(1)] by auto
      moreover have "\<not> free k" using e(2) that(2) by fastforce
      ultimately show ?thesis using that(1) by (simp add: free_def)
    qed
    have o0: "off_run hash ?T0 p e" using i0(1) by (simp add: off_run_def slots_ok_def)
    have "off_run hash (?T0[p := None]) ?i e"
      unfolding off_run_def
    proof (intro allI impI)
      fix k u
      assume k: "k < length (?T0[p := None])" "?T0[p := None] ! k = Some u"
        "\<not> dist (length (?T0[p := None])) ?i k < dist (length (?T0[p := None])) ?i e"
      then have kp: "k < ?n" "k \<noteq> p" "?T0 ! k = Some u" by (simp_all add: nth_clear)
      then have "\<not> dist ?n p k < dist ?n p e" using run_next [OF p(1) en(1) pe kp(1,2)] k(3) by simp
      then show "path_full (?T0[p := None]) (hash u mod length (?T0[p := None])) k"
        using clear_off_run [OF o0 p(1) en kp] by simp
    qed
    moreover have "used (?T0[p := None]) = itemCount s - 1"
      using used_update [OF p(1), of None] Some i0(3) by simp
    moreover have "distinct_mod eq (?T0[p := None])" using i0(2) by (rule distinct_mod_clear)
    ultimately have "\<exists>s'. cleanup ?n ?n hash eq ?s1 ?i = Some s' \<and> set_inv hash eq s' \<and>
        items s' = items ?s1 \<and> length (table s') = ?n"
      by (intro cleanup_correct [of ?s1 ?n ?T0 e ?i ?n])
        (use i0 en i pe run small in simp_all)
    then obtain s' where s': "cleanup ?n ?n hash eq ?s1 ?i = Some s'" "set_inv hash eq s'"
        "items s' = items ?s1" "length (table s') = ?n"
      by blast
    have "items ?s1 = {y \<in> items s. \<not> eq y item}"
    proof -
      have ins: "insert t (items ?s1) = items s" using items_clear [OF p(1) Some] by (simp add: items_def)
      have "\<not> eq y item" if "y \<in> items ?s1" for y
      proof
        assume "eq y item"
        then have "eq y t" using et(1) by (blast intro: eq_sym eq_trans)
        moreover have "Some y \<in> set (?T0[p := None])" using that by (simp add: items_def)
        ultimately show False using clear_no_equal [OF i0(2) p(1) Some] by blast
      qed
      then show ?thesis using et(1) unfolding ins [symmetric] by blast
    qed
    then show ?thesis
      using s' p(2,3) Some by (simp add: BRSetRemove_def Let_def)
  qed
qed

end

section \<open>The remaining operations\<close>

definition max_items :: nat where
  "max_items = max_load 3914111041"

lemma new_inv_aux:
  assumes "size_index capacity + 1 < length tableSizes"
  shows "table (BRSetNew capacity) = replicate (tableSizes ! (size_index capacity + 1)) None"
    and "tableSizes ! (size_index capacity + 1) \<in> set (tl tableSizes)"
proof -
  show "table (BRSetNew capacity) = replicate (tableSizes ! (size_index capacity + 1)) None"
    using assms by (simp add: BRSetNew_def BRSetInit_def Let_def)
  have "tableSizes ! (size_index capacity + 1) = tl tableSizes ! size_index capacity"
    using assms by (simp add: nth_tl)
  then show "tableSizes ! (size_index capacity + 1) \<in> set (tl tableSizes)"
    using assms by (simp add: nth_mem)
qed

lemma tableSizes_le_last: "n \<in> set (tl tableSizes) \<Longrightarrow> n < 3914111041 \<or> n = 3914111041"
  by (auto simp: tableSizes_def)

context hash_contract
begin

lemma new_correct:
  assumes "size_index capacity + 1 < length tableSizes"
  shows "set_inv hash eq (BRSetNew capacity)" "items (BRSetNew capacity :: 'a BRSet) = {}"
  using fresh_inv [OF new_inv_aux(1) [OF assms] _ new_inv_aux(2) [OF assms]]
  by (simp_all add: BRSetNew_def)

lemma clear_correct:
  assumes "set_inv hash eq s"
  shows "set_inv hash eq (BRSetClear s)" "items (BRSetClear s) = {}"
  using fresh_inv [of "BRSetClear s" "length (table s)"] assms
  by (simp_all add: BRSetClear_def set_inv_def)

lemma sorted_wrt_neq_distinct: "sorted_wrt (\<lambda>x y. \<not> eq x y) xs \<Longrightarrow> distinct xs"
  using eq_refl by (induction xs) auto

lemma count_correct:
  assumes "set_inv hash eq s"
  shows "BRSetCount s = card (items s)" "finite (items s)"
proof -
  have "distinct (live_items (table s))"
    using assms by (simp add: set_inv_def sorted_wrt_neq_distinct distinct_mod_live)
  then show "BRSetCount s = card (items s)"
    using assms distinct_card [of "live_items (table s)"]
    by (simp add: BRSetCount_def set_inv_def items_def set_live_items length_live_items)
  show "finite (items s)" by (simp add: items_def flip: set_live_items)
qed

lemma all_correct:
  assumes "set_inv hash eq s" "card (items s) \<le> count"
  shows "set (BRSetAll s count) = items s \<and> distinct (BRSetAll s count)"
proof -
  have d: "distinct (live_items (table s))"
    using assms by (simp add: set_inv_def sorted_wrt_neq_distinct distinct_mod_live)
  then have "length (live_items (table s)) \<le> count"
    using assms distinct_card [of "live_items (table s)"] by (simp add: items_def set_live_items)
  then show ?thesis using d by (simp add: BRSetAll_def items_def set_live_items)
qed

lemma add_total:
  assumes inv: "set_inv hash eq s" and small: "itemCount s < max_items"
  shows "\<exists>r s'. BRSetAdd hash eq s item = Some (r, s') \<and> is_lookup eq (items s) item r \<and>
    set_inv hash eq s' \<and> items s' = insert_mod eq item (items s) \<and> itemCount s' \<le> itemCount s + 1"
proof -
  have "\<exists>r s'. BRSetAdd hash eq s item = Some (r, s') \<and> is_lookup eq (items s) item r \<and>
    set_inv hash eq s' \<and> items s' = insert_mod eq item (items s)"
  proof (cases "length (table s) < 3914111041")
    case True
    then show ?thesis using add_correct [OF inv True, of item] by blast
  next
    case False
    then have "length (table s) = 3914111041"
      using inv tableSizes_le_last [of "length (table s)"] by (simp add: set_inv_def)
    then have "itemCount s < max_load (length (table s))" using small by (simp add: max_items_def)
    then show ?thesis
      using add_in_place [OF inv, of item "length tableSizes"] unfolding BRSetAdd_def by blast
  qed
  then obtain r s' where s': "BRSetAdd hash eq s item = Some (r, s')" "is_lookup eq (items s) item r"
    "set_inv hash eq s'" "items s' = insert_mod eq item (items s)" by blast
  have "card (items s') \<le> card (items s) + 1"
    using s'(4) count_correct(2) [OF inv] card_mono [of "items s" "{y \<in> items s. \<not> eq y item}"]
    by (auto simp: insert_mod_def card_insert_if)
  then have "itemCount s' \<le> itemCount s + 1"
    using count_correct(1) [OF inv] count_correct(1) [OF s'(3)] by (simp add: BRSetCount_def)
  then show ?thesis using s' by blast
qed

lemma union_correct_aux:
  assumes "set_inv hash eq s" "itemCount s + used ts \<le> max_items"
  shows "\<exists>s'. add_buckets (length tableSizes) hash eq s ts = Some s' \<and> set_inv hash eq s' \<and>
    items s' = foldl (\<lambda>S x. insert_mod eq x S) (items s) (live_items ts)"
  using assms
proof (induction ts arbitrary: s rule: live_items.induct)
  case (3 t ts)
  have "itemCount s < max_items" using "3.prems"(2) by (simp add: used_def)
  then obtain r s1 where s1: "BRSetAdd_upto (length tableSizes) hash eq s t = Some (r, s1)" "set_inv hash eq s1"
    "items s1 = insert_mod eq t (items s)" "itemCount s1 \<le> itemCount s + 1"
    using add_total [OF "3.prems"(1), of t] unfolding BRSetAdd_def by blast
  moreover have "itemCount s1 + used ts \<le> max_items"
    using "3.prems"(2) s1(4) by (simp add: used_def)
  ultimately show ?case using "3.IH" [of s1] by auto
qed (auto simp: used_def)

lemma union_correct:
  assumes "set_inv hash eq s" "set_inv hash eq other" "itemCount s + itemCount other \<le> max_items"
  shows "\<exists>s'. BRSetUnion hash eq s other = Some s' \<and> set_inv hash eq s' \<and>
    items s' = items other \<union> {y \<in> items s. \<forall>x\<in>items other. \<not> eq y x}"
proof -
  have o: "distinct_mod eq (table other)" "used (table other) = itemCount other"
    using assms(2) by (simp_all add: set_inv_def)
  show ?thesis
    using union_correct_aux [OF assms(1), of "table other"] assms(3) o
      foldl_insert_mod [OF distinct_mod_live [OF o(1)], of "items s"]
    by (auto simp: BRSetUnion_def items_def set_live_items)
qed

lemma minus_correct_aux:
  assumes "set_inv hash eq s"
  shows "\<exists>s'. minus_buckets hash eq s ts = Some s' \<and> set_inv hash eq s' \<and>
    items s' = {y \<in> items s. \<forall>x. Some x \<in> set ts \<longrightarrow> \<not> eq y x} \<and> length (table s') = length (table s)"
  using assms
proof (induction ts arbitrary: s rule: live_items.induct)
  case (3 t ts)
  obtain r s1 where s1: "BRSetRemove hash eq s t = Some (r, s1)" "set_inv hash eq s1"
    "items s1 = {y \<in> items s. \<not> eq y t}" "length (table s1) = length (table s)"
    using remove_correct [OF "3.prems", of t] by blast
  then show ?case using "3.IH" [OF s1(2)] by auto
qed auto

lemma minus_correct:
  assumes "set_inv hash eq s"
  shows "\<exists>s'. BRSetMinus hash eq s other = Some s' \<and> set_inv hash eq s' \<and>
    items s' = {y \<in> items s. \<forall>x\<in>items other. \<not> eq y x}"
  using minus_correct_aux [OF assms, of "table other"] by (auto simp: BRSetMinus_def items_def)

lemma intersects_correct_aux:
  assumes "set_inv hash eq s"
  shows "intersects_buckets hash eq s ts = Some (\<exists>x. Some x \<in> set ts \<and> (\<exists>y\<in>items s. eq y x))"
proof (induction ts rule: live_items.induct)
  case (3 t ts)
  obtain r where "BRSetGet hash eq s t = Some r" "is_lookup eq (items s) t r"
    using get_correct [OF assms] by blast
  then show ?case using 3 by (cases r) (auto simp: is_lookup_def)
qed auto

lemma intersects_correct:
  assumes "set_inv hash eq s"
  shows "BRSetIntersects hash eq s other = Some (\<exists>x\<in>items other. \<exists>y\<in>items s. eq y x)"
  using intersects_correct_aux [OF assms, of "table other"] by (auto simp: BRSetIntersects_def items_def)

end

section \<open>Histories of operations\<close>

text \<open>A client history, its run on the table and its meaning as a set: the table follows the set
  through every history of at most \<open>max_items\<close> operations and never gets stuck in a probe.\<close>

datatype 'a set_op = OpAdd 'a | OpRemove 'a | OpClear

fun table_step :: "('a \<Rightarrow> nat) \<Rightarrow> ('a \<Rightarrow> 'a \<Rightarrow> bool) \<Rightarrow> 'a set_op \<Rightarrow> 'a BRSet \<Rightarrow> 'a BRSet run" where
  "table_step hash eq (OpAdd x) s = map_option snd (BRSetAdd hash eq s x)"
| "table_step hash eq (OpRemove x) s = map_option snd (BRSetRemove hash eq s x)"
| "table_step hash eq OpClear s = Some (BRSetClear s)"

fun table_run :: "('a \<Rightarrow> nat) \<Rightarrow> ('a \<Rightarrow> 'a \<Rightarrow> bool) \<Rightarrow> 'a set_op list \<Rightarrow> 'a BRSet \<Rightarrow> 'a BRSet run" where
  "table_run hash eq [] s = Some s"
| "table_run hash eq (p # ps) s = do { s' \<leftarrow> table_step hash eq p s; table_run hash eq ps s' }"

fun spec_step :: "('a \<Rightarrow> 'a \<Rightarrow> bool) \<Rightarrow> 'a set_op \<Rightarrow> 'a set \<Rightarrow> 'a set" where
  "spec_step eq (OpAdd x) S = insert x {y \<in> S. \<not> eq y x}"
| "spec_step eq (OpRemove x) S = {y \<in> S. \<not> eq y x}"
| "spec_step eq OpClear S = {}"

context hash_contract
begin

lemma table_run_refines:
  assumes "set_inv hash eq s" "itemCount s + length ps \<le> max_items"
  shows "\<exists>s'. table_run hash eq ps s = Some s' \<and> set_inv hash eq s' \<and>
    items s' = fold (spec_step eq) ps (items s)"
  using assms
proof (induction ps arbitrary: s)
  case Nil
  then show ?case by simp
next
  case (Cons p ps)
  have "\<exists>s1. table_step hash eq p s = Some s1 \<and> set_inv hash eq s1 \<and> items s1 = spec_step eq p (items s) \<and>
    itemCount s1 \<le> itemCount s + 1"
  proof (cases p)
    case (OpAdd x)
    then show ?thesis
      using add_total [OF Cons.prems(1), of x] Cons.prems(2) by (auto simp: insert_mod_def)
  next
    case (OpRemove x)
    obtain r s1 where s1: "BRSetRemove hash eq s x = Some (r, s1)" "set_inv hash eq s1"
      "items s1 = {y \<in> items s. \<not> eq y x}" using remove_correct [OF Cons.prems(1), of x] by blast
    have "card (items s1) \<le> card (items s)"
      using s1(3) count_correct(2) [OF Cons.prems(1)] by (simp add: card_mono)
    then show ?thesis
      using OpRemove s1 count_correct(1) [OF s1(2)] count_correct(1) [OF Cons.prems(1)]
      by (simp add: BRSetCount_def)
  next
    case OpClear
    then show ?thesis using clear_correct [OF Cons.prems(1)] by (simp add: BRSetClear_def)
  qed
  then show ?case using Cons.IH Cons.prems(2) by fastforce
qed

end

section \<open>Properties of the hash table\<close>

text \<open>C1: a table created for any capacity the size list covers follows its client: after every
  history of adds, removes and clears, however the items collide and however often the table is
  rebuilt, the run returns, the table holds exactly the items a set modulo \<open>eq\<close> would hold, a
  lookup returns the equal member if there is one and \<open>NULL\<close> otherwise, and the count is the
  number of members.\<close>

theorem set_history_refines:
  assumes "hash_contract hash eq" and "size_index capacity + 1 < length tableSizes"
    and "length ps \<le> max_items"
  shows "\<exists>s. table_run hash eq ps (BRSetNew capacity) = Some s \<and>
    items s = fold (spec_step eq) ps {} \<and> BRSetCount s = card (fold (spec_step eq) ps {}) \<and>
    (\<forall>x. \<exists>r. BRSetGet hash eq s x = Some r \<and> is_lookup eq (fold (spec_step eq) ps {}) x r)"
proof -
  note n = hash_contract.new_correct [OF assms(1,2)]
  have "itemCount (BRSetNew capacity) + length ps \<le> max_items"
    using assms(3) by (simp add: BRSetNew_def)
  from hash_contract.table_run_refines [OF assms(1) n(1) this] obtain s where
    s: "table_run hash eq ps (BRSetNew capacity) = Some s" "set_inv hash eq s"
      "items s = fold (spec_step eq) ps {}"
    using n(2) by auto
  then show ?thesis
    using hash_contract.count_correct(1) [OF assms(1) s(2)] hash_contract.get_correct [OF assms(1) s(2)]
    by (intro exI [of _ s]) simp
qed

lemma identity_contract: "hash_contract (\<lambda>x :: nat. x mod 4) (=)"
  by (simp add: hash_contract_def)

theorem set_history_refines_witness:
  "\<exists>s. table_run (\<lambda>x :: nat. x mod 4) (=) [OpAdd 5, OpAdd 9, OpRemove 5] (BRSetNew 2) = Some s \<and>
    items s = {9} \<and> BRSetCount s = 1"
proof -
  have "size_index 2 + 1 < length tableSizes" by (simp add: size_index_def tableSizes_def)
  moreover have "length [OpAdd 5, OpAdd 9, OpRemove (5 :: nat)] \<le> max_items"
    by (simp add: max_items_def max_load_def)
  moreover have "fold (spec_step (=)) [OpAdd 5, OpAdd 9, OpRemove (5 :: nat)] {} = {9}" by auto
  ultimately show ?thesis
    using set_history_refines [OF identity_contract, of 2 "[OpAdd 5, OpAdd 9, OpRemove 5]"]
    by (metis card_1_singleton_iff One_nat_def)
qed

text \<open>\<open>BRSetAdd\<close> on a well formed table returns the equal member it replaces, or \<open>NULL\<close>, and
  leaves a well formed table with the new item in place of any equal one; when the load passes two
  thirds the rebuilt table holds the same items.\<close>

theorem set_add_replaces:
  assumes "hash_contract hash eq" and "set_inv hash eq s" and "itemCount s < max_items"
  shows "\<exists>r s'. BRSetAdd hash eq s item = Some (r, s') \<and> is_lookup eq (items s) item r \<and>
    set_inv hash eq s' \<and> items s' = insert item {y \<in> items s. \<not> eq y item} \<and>
    itemCount s' \<le> max_load (length (table s'))"
  using hash_contract.add_total [OF assms, of item] by (auto simp: insert_mod_def set_inv_def)

lemma example_new_inv: "set_inv (\<lambda>x :: nat. x mod 4) (=) (BRSetNew 2)" "items (BRSetNew 2 :: nat BRSet) = {}"
  by (rule hash_contract.new_correct [OF identity_contract]; simp add: size_index_def tableSizes_def)+

theorem set_add_replaces_witness:
  "\<exists>r s'. BRSetAdd (\<lambda>x :: nat. x mod 4) (=) (BRSetNew 2) 7 = Some (r, s') \<and> items s' = {7}"
proof -
  have "itemCount (BRSetNew 2 :: nat BRSet) < max_items"
    by (simp add: BRSetNew_def max_items_def max_load_def)
  from set_add_replaces [OF identity_contract example_new_inv(1) this, of 7]
  show ?thesis using example_new_inv(2) by auto
qed

text \<open>\<open>BRSetRemove\<close> returns the equal member it removes, or \<open>NULL\<close>; the cleanup of the run
  behind the freed bucket ends, keeps every other item and leaves every one of them reachable by a
  later probe.\<close>

theorem set_remove_keeps_others:
  assumes "hash_contract hash eq" and "set_inv hash eq s"
  shows "\<exists>r s'. BRSetRemove hash eq s item = Some (r, s') \<and> is_lookup eq (items s) item r \<and>
    set_inv hash eq s' \<and> items s' = {y \<in> items s. \<not> eq y item} \<and>
    (\<forall>x. BRSetContains hash eq s' x = Some (\<exists>y\<in>items s. \<not> eq y item \<and> eq y x))"
proof -
  from hash_contract.remove_correct [OF assms, of item] obtain r s' where
    s': "BRSetRemove hash eq s item = Some (r, s')" "is_lookup eq (items s) item r" "set_inv hash eq s'"
      "items s' = {y \<in> items s. \<not> eq y item}" by blast
  then show ?thesis using hash_contract.contains_correct [OF assms(1) s'(3)] by auto
qed

theorem set_remove_keeps_others_witness:
  "\<exists>r s'. BRSetRemove (\<lambda>x :: nat. x mod 4) (=) (BRSetNew 2) 7 = Some (r, s') \<and> items s' = {}"
  using set_remove_keeps_others [OF identity_contract example_new_inv(1), of 7] example_new_inv(2) by auto

text \<open>The bulk operations are the set operations modulo \<open>eq\<close>: union keeps the other set's
  version of equal items, minus drops every item equal to one of the other set, and the
  intersection test finds an equal pair exactly when there is one.\<close>

theorem set_bulk_operations:
  assumes "hash_contract hash eq" and "set_inv hash eq s" and "set_inv hash eq other"
    and "itemCount s + itemCount other \<le> max_items"
  shows "\<exists>u m. BRSetUnion hash eq s other = Some u \<and> set_inv hash eq u \<and>
      items u = items other \<union> {y \<in> items s. \<forall>x\<in>items other. \<not> eq y x} \<and>
    BRSetMinus hash eq s other = Some m \<and> set_inv hash eq m \<and>
      items m = {y \<in> items s. \<forall>x\<in>items other. \<not> eq y x} \<and>
    BRSetIntersects hash eq s other = Some (\<exists>x\<in>items other. \<exists>y\<in>items s. eq y x)"
  using hash_contract.union_correct [OF assms] hash_contract.minus_correct [OF assms(1,2)]
    hash_contract.intersects_correct [OF assms(1,2)] by blast

theorem set_bulk_operations_witness:
  "\<exists>u. BRSetUnion (\<lambda>x :: nat. x mod 4) (=) (BRSetNew 2) (BRSetNew 2) = Some u \<and> items u = {}"
proof -
  have "itemCount (BRSetNew 2 :: nat BRSet) + itemCount (BRSetNew 2 :: nat BRSet) \<le> max_items"
    by (simp add: BRSetNew_def)
  from set_bulk_operations [OF identity_contract example_new_inv(1) example_new_inv(1) this]
  show ?thesis using example_new_inv(2) by auto
qed

end
