(* ===== verification/AddressSpec.thy ===== *)
theory AddressSpec
  imports Address Base58Spec SetRefine
begin

text \<open>
  Variable length integers, data pushes and addresses: round trips, the minimal encodings, parsing
  of pushed data, the freedom of the address functions from reads outside the script, and the
  correspondence of standard output scripts and addresses. The address hash and equality used by
  the wallet's hash table satisfy the contract of \<open>BRSet\<close>.
\<close>

section \<open>Accessors on longer buffers\<close>

lemma get_prefix:
  "length b = 2 \<Longrightarrow> UInt16GetLE (b @ rest) = UInt16GetLE b"
  "length b = 4 \<Longrightarrow> UInt32GetLE (b @ rest) = UInt32GetLE b"
  "length b = 8 \<Longrightarrow> UInt64GetLE (b @ rest) = UInt64GetLE b"
  by (simp_all add: UInt16GetLE_def UInt32GetLE_def UInt64GetLE_def nth_append)

lemma get_set_prefix [simp]:
  "UInt16GetLE (UInt16SetLE v @ rest) = v" "UInt32GetLE (UInt32SetLE w @ rest) = w"
  "UInt64GetLE (UInt64SetLE x @ rest) = x"
  by (simp_all add: get_prefix)

section \<open>Variable length integers\<close>

definition varint_bytes :: "u64 \<Rightarrow> bytes" where
  "varint_bytes i =
     (if i < 0xfd then [ucast i]
      else if i \<le> 0xffff then 0xfd # UInt16SetLE (ucast i)
      else if i \<le> 0xffffffff then 0xfe # UInt32SetLE (ucast i)
      else 0xff # UInt64SetLE i)"

lemma varint_set_eq: "BRVarIntSet buf i = store_if_fits buf (varint_bytes i)"
  by (simp add: BRVarIntSet_def varint_bytes_def)

lemma varint_size_eq: "BRVarIntSize i = length (varint_bytes i)"
  by (simp add: BRVarIntSize_def varint_set_eq store_if_fits_def)

lemma unat_ucast_small:
  "unat (i :: u64) < 2 ^ LENGTH('b) \<Longrightarrow> unat (ucast i :: 'b::len word) = unat i"
  by (simp add: unsigned_ucast_eq take_bit_nat_eq_self)

lemma ucast_ucast_small:
  fixes i :: u64
  assumes "unat i < 2 ^ LENGTH('b::len)" "LENGTH('b) \<le> 64"
  shows "ucast (ucast i :: 'b word) = i"
proof -
  have "unat (ucast (ucast i :: 'b word) :: u64) = unat i"
    using assms unsigned_less [of i, where 'a = nat]
    by (simp add: unsigned_ucast_eq unsigned_take_bit_eq take_bit_nat_eq_self)
  then show ?thesis by (simp add: unat_eq_iff)
qed

lemma varint_read: "BRVarInt (Some (varint_bytes i @ rest)) = (i, length (varint_bytes i))"
proof -
  consider "i < 0xfd" | "0xfd \<le> i" "i \<le> 0xffff" | "0xffff < i" "i \<le> 0xffffffff" | "0xffffffff < i"
    by fastforce
  then show ?thesis
  proof cases
    case 1
    then have u: "unat i < 253" by (simp add: word_less_nat_alt)
    then have v: "unat (ucast i :: u8) = unat i" by (intro unat_ucast_small) simp
    have "(ucast i :: u8) \<noteq> 0xfd" "(ucast i :: u8) \<noteq> 0xfe" "(ucast i :: u8) \<noteq> 0xff"
      using u v by (auto simp: unat_eq_iff)
    moreover have "ucast (ucast i :: u8) = i" using u by (intro ucast_ucast_small) simp_all
    ultimately show ?thesis using 1 by (simp add: BRVarInt_def varint_bytes_def)
  next
    case 2
    then have "unat i < 2 ^ LENGTH(16)" by (simp add: word_le_nat_alt)
    then have "ucast (ucast i :: u16) = i" by (intro ucast_ucast_small) simp_all
    moreover have "\<not> i < 0xfd" using 2 by simp
    ultimately show ?thesis using 2 by (simp add: BRVarInt_def varint_bytes_def)
  next
    case 3
    then have "unat i < 2 ^ LENGTH(32)" by (simp add: word_le_nat_alt)
    then have "ucast (ucast i :: u32) = i" by (intro ucast_ucast_small) simp_all
    moreover have "\<not> i < 0xfd" "\<not> i \<le> 0xffff" using 3 by (auto simp: word_le_nat_alt word_less_nat_alt)
    ultimately show ?thesis using 3 by (simp add: BRVarInt_def varint_bytes_def)
  next
    case 4
    then have "\<not> i < 0xfd" "\<not> i \<le> 0xffff" "\<not> i \<le> 0xffffffff"
      by (auto simp: word_le_nat_alt word_less_nat_alt)
    then show ?thesis by (simp add: BRVarInt_def varint_bytes_def)
  qed
qed

lemma varint_length: "length (varint_bytes i) =
    (if unat i < 253 then 1 else if unat i < 2 ^ 16 then 3 else if unat i < 2 ^ 32 then 5 else 9)"
  by (simp add: varint_bytes_def word_less_nat_alt word_le_nat_alt)

text \<open>A variable length integer written into any buffer with room reads back with the size it
  was written with, in the shortest of the four forms; \<open>BRVarIntSize\<close> is that size, the rest of the
  buffer is untouched, and without room nothing is written and the result is zero.\<close>

theorem varint_roundtrip:
  "(let n = BRVarIntSize i in
    n = (if unat i < 253 then 1 else if unat i < 2 ^ 16 then 3 else if unat i < 2 ^ 32 then 5 else 9) \<and>
    (if n \<le> length buf
     then \<exists>buf'. BRVarIntSet (Some buf) i = (n, Some buf') \<and> BRVarInt (Some buf') = (i, n) \<and>
       length buf' = length buf \<and> drop n buf' = drop n buf
     else BRVarIntSet (Some buf) i = (0, Some buf)))"
  using varint_read [of i "drop (length (varint_bytes i)) buf"] varint_length [of i]
  unfolding Let_def varint_size_eq varint_set_eq store_if_fits_def
  by (auto simp: put_def simp del: One_nat_def)

section \<open>Script parsing\<close>

lemma script_loop_count: "fst (script_loop script off i len elems) = fst (script_loop script off i len None) \<and>
    fst (snd (script_loop script off i len elems)) = fst (snd (script_loop script off i len None))"
proof (induction script off i len elems rule: script_loop.induct)
  case (1 script off i len elems)
  then show ?case
    by (subst (1 3) script_loop.simps, subst (2 4) script_loop.simps) (simp add: Let_def)
qed


lemma script_loop_array:
  "snd (snd (script_loop script off i len None)) = None"
  "\<exists>e'. snd (snd (script_loop script off i len (Some e))) = Some e' \<and> length e' = length e \<and> (\<forall>k<i. e' ! k = e ! k)"
proof -
  show "snd (snd (script_loop script off i len None)) = None"
  proof (induction script off i len "None :: nat list option" rule: script_loop.induct)
    case (1 script off i len)
    then show ?case by (subst script_loop.simps) (simp add: Let_def)
  qed
  show "\<exists>e'. snd (snd (script_loop script off i len (Some e))) = Some e' \<and> length e' = length e \<and> (\<forall>k<i. e' ! k = e ! k)"
  proof (induction script off i len "Some e" arbitrary: e rule: script_loop.induct)
    case (1 script off i len)
    show ?case
    proof (cases "off < length script")
      case True
      let ?e = "if i < length e then e[i := off] else e"
      have upd: "Some ?e = (case Some e of None \<Rightarrow> None | Some e \<Rightarrow> Some (if i < length e then e[i := off] else e))"
        by simp
      from 1(1) [OF True upd refl refl]
      obtain e' where e': "snd (snd (script_loop script (fst (script_turn script off len) + snd (script_turn script off len))
          (i + 1) (snd (script_turn script off len)) (Some ?e))) = Some e'"
        "length e' = length ?e" "\<forall>k<i + 1. e' ! k = ?e ! k" by auto
      then show ?thesis using True by (subst script_loop.simps) (simp add: Let_def)
    next
      case False
      then show ?thesis by (subst script_loop.simps) simp
    qed
  qed
qed

lemma script_loop_monotone: "off \<le> fst (script_loop script off i len elems) \<and> i \<le> fst (snd (script_loop script off i len elems))"
proof (induction script off i len elems rule: script_loop.induct)
  case (1 script off i len elems)
  show ?case
  proof (cases "off < length script")
    case True
    then show ?thesis
      using 1 [OF True refl refl refl] script_turn_grows [of off script len]
      by (subst (1 2) script_loop.simps) (simp add: Let_def)
  next
    case False
    then show ?thesis by (subst (1 2) script_loop.simps) simp
  qed
qed

text \<open>Where an element ends does not depend on the stale \<open>len\<close> when its length field is inside the
  script; \<open>elem_end\<close> is its end and \<open>elem_data\<close> where its data starts.\<close>

definition elem_data :: "bytes \<Rightarrow> nat \<Rightarrow> nat" where
  "elem_data script off = fst (script_turn script off 0)"

definition elem_len :: "bytes \<Rightarrow> nat \<Rightarrow> nat" where
  "elem_len script off = snd (script_turn script off 0)"

lemma script_turn_stale:
  "fst (script_turn script off len) = elem_data script off"
  "elem_data script off \<le> length script \<Longrightarrow> snd (script_turn script off len) = elem_len script off"
  by (auto simp: script_turn_def elem_data_def elem_len_def Let_def split: if_splits)

text \<open>A script that parses to its exact end has every recorded element, data included, inside it.\<close>

definition elem_inside :: "bytes \<Rightarrow> nat \<Rightarrow> bool" where
  "elem_inside script off \<longleftrightarrow> off < length script \<and> elem_data script off + elem_len script off \<le> length script"

lemma script_loop_inside:
  assumes "fst (script_loop script off i len (Some e)) \<le> length script"
    and "fst (snd (script_loop script off i len (Some e))) \<le> length e"
    and "snd (snd (script_loop script off i len (Some e))) = Some e'"
  shows "\<forall>k. i \<le> k \<and> k < fst (snd (script_loop script off i len (Some e))) \<longrightarrow> elem_inside script (e' ! k)"
  using assms
proof (induction script off i len "Some e" arbitrary: e rule: script_loop.induct)
  case (1 script off i len)
  show ?case
  proof (cases "off < length script")
    case True
    let ?n = "snd (script_turn script off len)" and ?o = "fst (script_turn script off len)"
    let ?e = "if i < length e then e[i := off] else e"
    have upd: "Some ?e = (case Some e of None \<Rightarrow> None | Some e \<Rightarrow> Some (if i < length e then e[i := off] else e))"
      by simp
    have step: "script_loop script off i len (Some e) = script_loop script (?o + ?n) (i + 1) ?n (Some ?e)"
      using True by (subst script_loop.simps) (simp add: Let_def)
    have i: "i < length e"
      using 1(3) script_loop_monotone [of "?o + ?n" script "i + 1" ?n "Some ?e"] unfolding step by simp
    have IH: "\<forall>k. i + 1 \<le> k \<and> k < fst (snd (script_loop script off i len (Some e))) \<longrightarrow> elem_inside script (e' ! k)"
      using 1(1) [OF True upd refl refl] 1(2,3,4) i unfolding step by simp
    have "?o + ?n \<le> length script"
      using 1(2) script_loop_monotone [of "?o + ?n" script "i + 1" ?n "Some ?e"] unfolding step by linarith
    then have "elem_data script off \<le> length script" "elem_data script off + ?n \<le> length script"
      by (simp_all add: script_turn_stale(1))
    then have "elem_data script off + elem_len script off \<le> length script"
      using script_turn_stale(2) [of script off len] by simp
    moreover have "e' ! i = off"
      using script_loop_array(2) [of script "?o + ?n" "i + 1" ?n ?e] 1(4) i unfolding step by auto
    ultimately have "elem_inside script (e' ! i)" using True by (simp add: elem_inside_def)
    then show ?thesis using IH by (metis Suc_eq_plus1 Suc_leI le_neq_implies_less)
  next
    case False
    then have "script_loop script off i len (Some e) = (off, i, Some e)" by (subst script_loop.simps) simp
    then show ?thesis by auto
  qed
qed

lemma script_elems_inside:
  assumes "script_elems script = (count, elems)"
  shows "length elems \<ge> count \<and> (\<forall>k<count. elem_inside script (elems ! k))"
proof -
  obtain n where n: "n = fst (BRScriptElements None script)" by simp
  let ?e = "replicate n 0"
  obtain off i e' where loop: "script_loop script 0 0 0 (Some ?e) = (off, i, Some e')" and len: "length e' = n"
    using script_loop_array(2) [of script 0 0 0 ?e] by (metis length_replicate prod.collapse)
  have none: "fst (script_loop script 0 0 0 None) = off" "fst (snd (script_loop script 0 0 0 None)) = i"
    using script_loop_count [of script 0 0 0 "Some ?e"] loop by simp_all
  then have n': "n = (if off = length script then i else 0)"
    unfolding n BRScriptElements_def using script_loop_array(1) [of script 0 0 0]
    by (auto split: prod.splits)
  have c: "count = (if i \<le> n \<and> off = length script then i else 0)" "elems = e'"
    using assms loop len unfolding script_elems_def BRScriptElements_def [of "Some _"] n [symmetric] by auto
  show ?thesis
  proof (cases "off = length script")
    case True
    then show ?thesis using script_loop_inside [of script 0 0 0 ?e e'] loop c n' len by simp
  next
    case False
    then show ?thesis using c by simp
  qed
qed

lemma script_data_inside:
  assumes "elem_inside script off"
  shows "BRScriptData script off =
    Some (if elem_len script off > 0 then Some (elem_data script off) else None, elem_len script off)"
proof -
  have off: "off < length script" and fits: "elem_data script off \<le> length script"
    using assms by (auto simp: elem_inside_def)
  have g2: "UInt16GetLE (take 2 b) = UInt16GetLE b" and g4: "UInt32GetLE (take 4 b) = UInt32GetLE b" for b
    by (simp_all add: UInt16GetLE_def UInt32GetLE_def)
  consider "script ! off = OP_PUSHDATA1" | "script ! off = OP_PUSHDATA2" | "script ! off = OP_PUSHDATA4"
    | "script ! off \<noteq> OP_PUSHDATA1" "script ! off \<noteq> OP_PUSHDATA2" "script ! off \<noteq> OP_PUSHDATA4" by blast
  then show ?thesis
  proof cases
    case 1
    then show ?thesis using off fits
      by (simp add: elem_data_def elem_len_def script_turn_def BRScriptData_def rd_def)
  next
    case 2
    then show ?thesis using off fits
      by (simp add: elem_data_def elem_len_def script_turn_def BRScriptData_def rd_def get_at_def slice_def g2)
  next
    case 3
    then show ?thesis using off fits
      by (simp add: elem_data_def elem_len_def script_turn_def BRScriptData_def rd_def get_at_def slice_def g4)
  next
    case 4
    then show ?thesis using off fits
      by (simp add: elem_data_def elem_len_def script_turn_def BRScriptData_def rd_def)
  qed
qed

lemma data_block_defined:
  assumes "elem_inside script off" "\<not> P (elem_len script off) \<Longrightarrow> m (elem_len script off) = elem_len script off"
  shows "(BRScriptData script off \<bind> (\<lambda>(d, l). case (if P l then None else d) of None \<Rightarrow> Some a
      | Some d \<Rightarrow> slice script d (m l) \<bind> (\<lambda>h. Some (F h)))) \<noteq> None"
  using assms script_data_inside [OF assms(1)]
  by (auto simp: elem_inside_def slice_def)

lemma if_defined: "(c \<Longrightarrow> x \<noteq> None) \<Longrightarrow> (\<not> c \<Longrightarrow> y \<noteq> None) \<Longrightarrow> (if c then x else y) \<noteq> None"
  by simp

lemma address_from_script_defined:
  "BRAddressFromScriptPubKey testnet addr script \<noteq> None \<and> BRAddressFromScriptSig testnet addr script \<noteq> None"
proof -
  obtain count elems where e: "script_elems script = (count, elems)" by fastforce
  have inside: "k < count \<Longrightarrow> elem_inside script (elems ! k)" for k
    using script_elems_inside [OF e] by blast
  note hash20 = data_block_defined [where P = "\<lambda>l. l \<noteq> 20" and m = "\<lambda>l. 20"]
  note pubkey = data_block_defined [where P = "\<lambda>l. l \<noteq> 65 \<and> l \<noteq> 33" and m = "\<lambda>l. l"]
  note any = data_block_defined [where P = "\<lambda>l. False" and m = "\<lambda>l. l", unfolded if_False]
  have "BRAddressFromScriptPubKey testnet addr script \<noteq> None"
    unfolding BRAddressFromScriptPubKey_def e Let_def prod.case
    by (intro if_defined hash20 pubkey inside) simp_all
  moreover have "BRAddressFromScriptSig testnet addr script \<noteq> None"
    unfolding BRAddressFromScriptSig_def e Let_def prod.case
    by (intro if_defined any pubkey inside) simp_all
  ultimately show ?thesis ..
qed

text \<open>The address functions never leave the script: for every byte string, well formed or not,
  \<open>BRAddressFromScriptPubKey\<close> and \<open>BRAddressFromScriptSig\<close> finish without a read outside it, although
  \<open>BRScriptData\<close> itself checks no bound.\<close>

theorem address_from_script_stays_inside:
  "BRAddressFromScriptPubKey testnet addr script \<noteq> None \<and> BRAddressFromScriptSig testnet addr script \<noteq> None"
  by (rule address_from_script_defined)



section \<open>Data pushes\<close>

definition push_head :: "nat \<Rightarrow> bytes" where
  "push_head n =
     (if n < 0x4c then [of_nat n]
      else if n < 255 then [OP_PUSHDATA1, of_nat n]
      else if n < 65535 then OP_PUSHDATA2 # UInt16SetLE (of_nat n)
      else OP_PUSHDATA4 # UInt32SetLE (of_nat n))"

lemma push_data_eq:
  "BRScriptPushData script data = store_if_fits script (push_head (length data) @ data)"
proof -
  have "put (put s 0 h) (length h) data = put s 0 (h @ data)" if "length h + length data \<le> length s" for s h :: bytes
    using that by (simp add: put_def add.commute)
  then show ?thesis
    unfolding BRScriptPushData_def Let_def push_head_def [symmetric] store_if_fits_def
    by (auto simp: add.commute split: option.split)
qed

lemma push_head_first:
  assumes "n < 2 ^ 32"
  shows "script_turn (pre @ push_head n @ rest) (length pre) len = (length pre + length (push_head n), n)"
proof -
  have nth: "(pre @ h # t) ! (length pre) = h" "drop (length pre + 1) (pre @ h # t) = t" for h and t :: bytes
    by (simp_all add: nth_append)
  consider "n < 0x4c" | "0x4c \<le> n" "n < 255" | "255 \<le> n" "n < 65535" | "65535 \<le> n" by linarith
  then show ?thesis
  proof cases
    case 1
    then have u: "unat (of_nat n :: u8) = n" by (simp add: unsigned_of_nat take_bit_nat_eq_self)
    then have "(of_nat n :: u8) \<noteq> OP_PUSHDATA1" "(of_nat n :: u8) \<noteq> OP_PUSHDATA2" "(of_nat n :: u8) \<noteq> OP_PUSHDATA4"
        "\<not> (of_nat n :: u8) > OP_PUSHDATA4"
      using 1 by (auto simp: unat_eq_iff word_less_nat_alt)
    then show ?thesis using 1 u by (simp add: script_turn_def push_head_def nth)
  next
    case 2
    then have "unat (of_nat n :: u8) = n" by (simp add: unsigned_of_nat take_bit_nat_eq_self)
    then show ?thesis using 2 by (simp add: script_turn_def push_head_def nth nth_append)
  next
    case 3
    then have "unat (of_nat n :: u16) = n" by (simp add: unsigned_of_nat take_bit_nat_eq_self)
    then show ?thesis using 3 by (simp add: script_turn_def push_head_def nth_append)
  next
    case 4
    then have "unat (of_nat n :: u32) = n" using assms by (simp add: unsigned_of_nat take_bit_nat_eq_self)
    then show ?thesis using 4 by (simp add: script_turn_def push_head_def nth_append)
  qed
qed

lemma push_head_nonempty: "0 < length (push_head n)"
  by (simp add: push_head_def)

definition pushes :: "bytes list \<Rightarrow> bytes" where
  "pushes ds = concat (map (\<lambda>d. push_head (length d) @ d) ds)"

lemma pushes_snoc_split: "k < length ds \<Longrightarrow>
    pushes ds = pushes (take k ds) @ push_head (length (ds ! k)) @ ds ! k @ pushes (drop (Suc k) ds)"
proof -
  assume k: "k < length ds"
  have "pushes ds = pushes (take k ds @ ds ! k # drop (Suc k) ds)" using k by (simp flip: id_take_nth_drop)
  then show ?thesis by (simp add: pushes_def)
qed

lemma script_loop_pushes:
  assumes "\<forall>d\<in>set ds. length d < 2 ^ 32" "m \<le> length ds" "length e = length ds"
  shows "\<exists>len. script_loop (pushes ds) 0 0 0 (Some e) =
    script_loop (pushes ds) (length (pushes (take m ds))) m len
      (Some (map (\<lambda>k. length (pushes (take k ds))) [0..<m] @ drop m e))"
  using assms(2)
proof (induction m)
  case 0
  then show ?case by (auto simp: pushes_def)
next
  case (Suc m)
  then have m: "m < length ds" by simp
  obtain len where IH: "script_loop (pushes ds) 0 0 0 (Some e) =
    script_loop (pushes ds) (length (pushes (take m ds))) m len
      (Some (map (\<lambda>k. length (pushes (take k ds))) [0..<m] @ drop m e))" using Suc by auto
  let ?n = "length (ds ! m)"
  have split: "pushes ds = pushes (take m ds) @ push_head ?n @ ds ! m @ pushes (drop (Suc m) ds)"
    by (rule pushes_snoc_split [OF m])
  have turn: "script_turn (pushes ds) (length (pushes (take m ds))) len =
      (length (pushes (take m ds)) + length (push_head ?n), ?n)"
    unfolding split by (rule push_head_first) (use assms(1) m in simp)
  have next_off: "length (pushes (take m ds)) + length (push_head ?n) + ?n = length (pushes (take (Suc m) ds))"
    using m by (simp add: pushes_def take_Suc_conv_app_nth)
  have "length (pushes (take m ds)) < length (pushes ds)"
    unfolding split using push_head_nonempty [of ?n] by simp
  moreover have "(map (\<lambda>k. length (pushes (take k ds))) [0..<m] @ drop m e)[m := length (pushes (take m ds))] =
      map (\<lambda>k. length (pushes (take k ds))) [0..<Suc m] @ drop (Suc m) e"
    using m assms(3) by (simp add: list_update_append flip: Cons_nth_drop_Suc)
  ultimately have "script_loop (pushes ds) (length (pushes (take m ds))) m len
      (Some (map (\<lambda>k. length (pushes (take k ds))) [0..<m] @ drop m e)) =
    script_loop (pushes ds) (length (pushes (take (Suc m) ds))) (Suc m) ?n
      (Some (map (\<lambda>k. length (pushes (take k ds))) [0..<Suc m] @ drop (Suc m) e))"
    using m assms(3) by (subst script_loop.simps) (simp add: turn next_off Let_def)
  then show ?case using IH by auto
qed

text \<open>A sequence of data pushes of any lengths below \<open>2^32\<close>, each written with the form
  \<open>BRScriptPushData\<close> chooses, parses back to exactly those elements: the parser counts them, records
  where each starts, and \<open>BRScriptData\<close> returns the bytes that were pushed.\<close>

theorem pushed_data_parses_back:
  assumes "\<forall>d\<in>set ds. length d < 2 ^ 32"
  shows "let script = concat (map (\<lambda>d. the (snd (BRScriptPushData (Some (replicate (fst (BRScriptPushData None d)) 0)) d))) ds) in
    \<exists>offs. length offs = length ds \<and>
      BRScriptElements (Some (replicate (length ds) 0)) script = (length ds, Some offs) \<and>
      (\<forall>k<length ds. \<exists>start d. BRScriptData script (offs ! k) = Some (d, length (ds ! k)) \<and>
        d = (if ds ! k = [] then None else Some start) \<and> slice script start (length (ds ! k)) = Some (ds ! k))"
proof -
  have "the (snd (BRScriptPushData (Some (replicate (fst (BRScriptPushData None d)) 0)) d)) = push_head (length d) @ d" for d
    by (simp add: push_data_eq store_if_fits_def put_def)
  then have s: "concat (map (\<lambda>d. the (snd (BRScriptPushData (Some (replicate (fst (BRScriptPushData None d)) 0)) d))) ds) = pushes ds"
    by (simp add: pushes_def)
  let ?offs = "map (\<lambda>k. length (pushes (take k ds))) [0..<length ds]"
  obtain len where "script_loop (pushes ds) 0 0 0 (Some (replicate (length ds) 0)) =
      script_loop (pushes ds) (length (pushes ds)) (length ds) len (Some ?offs)"
    using script_loop_pushes [OF assms le_refl, of "replicate (length ds) 0"] by auto
  then have elems: "BRScriptElements (Some (replicate (length ds) 0)) (pushes ds) = (length ds, Some ?offs)"
    by (simp add: BRScriptElements_def script_loop.simps [of _ "length (pushes ds)"])
  have "\<exists>start d. BRScriptData (pushes ds) (?offs ! k) = Some (d, length (ds ! k)) \<and>
      d = (if ds ! k = [] then None else Some start) \<and> slice (pushes ds) start (length (ds ! k)) = Some (ds ! k)"
    if k: "k < length ds" for k
  proof -
    let ?o = "length (pushes (take k ds))" and ?n = "length (ds ! k)"
    note split = pushes_snoc_split [OF k]
    have "script_turn (pushes ds) ?o 0 = (?o + length (push_head ?n), ?n)"
      unfolding split by (rule push_head_first) (use assms k in simp)
    then have e: "elem_data (pushes ds) ?o = ?o + length (push_head ?n)" "elem_len (pushes ds) ?o = ?n"
      by (simp_all add: elem_data_def elem_len_def)
    have "?o + length (push_head ?n) + ?n \<le> length (pushes ds)" using arg_cong [OF split, of length] by simp
    moreover have "take ?n (drop (?o + length (push_head ?n)) (pushes ds)) = ds ! k"
      using arg_cong [OF split, of "\<lambda>s. take ?n (drop (?o + length (push_head ?n)) s)"] by simp
    moreover have "?o < length (pushes ds)" using calculation(1) push_head_nonempty [of ?n] by linarith
    ultimately show ?thesis
      using script_data_inside [of "pushes ds" ?o] e k
      by (intro exI [of _ "?o + length (push_head ?n)"]) (auto simp: elem_inside_def slice_def)
  qed
  then show ?thesis unfolding s Let_def using elems by (intro exI [of _ ?offs]) simp
qed

theorem pushed_data_parses_back_witness:
  "\<exists>offs. BRScriptElements (Some [0, 0]) [2, 7, 8, 0] = (2, Some offs) \<and> length offs = 2"
proof -
  have "\<forall>d\<in>set [[7, 8], []]. length (d :: bytes) < 2 ^ 32" by simp
  moreover have "concat (map (\<lambda>d. the (snd (BRScriptPushData (Some (replicate (fst (BRScriptPushData None d)) 0)) d))) [[7, 8], []])
      = [2, 7, 8, 0]" by (simp add: push_data_eq store_if_fits_def put_def push_head_def)
  ultimately show ?thesis
    using pushed_data_parses_back [of "[[7, 8], []]"] unfolding Let_def by (auto simp: numeral_2_eq_2)
qed


section \<open>Standard output scripts and their addresses\<close>

definition p2pkh_script :: "bytes \<Rightarrow> bytes" where
  "p2pkh_script h = [OP_DUP, OP_HASH160, 20] @ h @ [OP_EQUALVERIFY, OP_CHECKSIG]"

definition p2sh_script :: "bytes \<Rightarrow> bytes" where
  "p2sh_script h = [OP_HASH160, 20] @ h @ [OP_EQUAL]"

lemma script_loop_step:
  "off < length script \<Longrightarrow> script_turn script off len = (off', len') \<Longrightarrow> i < length e \<Longrightarrow>
   script_loop script off i len (Some e) = script_loop script (off' + len') (i + 1) len' (Some (e[i := off]))"
  by (subst script_loop.simps) (simp add: Let_def)

lemma script_turn_op:
  "script ! off = op \<Longrightarrow> op > OP_PUSHDATA4 \<Longrightarrow> script_turn script off len = (off + 1, 0)"
  by (auto simp: script_turn_def Let_def)

lemma script_turn_20: "script ! off = 20 \<Longrightarrow> script_turn script off len = (off + 1, 20)"
  by (simp add: script_turn_def Let_def)

lemma script_loop_end: "off = length script \<Longrightarrow> script_loop script off i len elems = (off, i, elems)"
  by (subst script_loop.simps) simp

lemma script_elems_from_loop:
  assumes "\<And>e. length e = n \<Longrightarrow> script_loop script 0 0 0 (Some e) = (length script, n, Some offs)"
    and "length offs = n"
  shows "script_elems script = (n, offs)"
proof -
  have "fst (BRScriptElements None script) = n"
    using script_loop_count [of script 0 0 0 "Some (replicate n 0)"] assms(1) [of "replicate n 0"]
      script_loop_array(1) [of script 0 0 0]
    by (auto simp: BRScriptElements_def split: prod.splits)
  then show ?thesis using assms(1) [of "replicate n 0"] assms(2) by (simp add: script_elems_def BRScriptElements_def)
qed

lemma list_5: "length e = 5 \<Longrightarrow> e[0 := a, 1 := b, 2 := c, 3 := d, 4 := f] = [a, b, c, d, f]"
  by (auto simp: numeral_eq_Suc length_Suc_conv)

lemma list_3: "length e = 3 \<Longrightarrow> e[0 := a, 1 := b, 2 := c] = [a, b, c]"
  by (auto simp: numeral_eq_Suc length_Suc_conv)

lemma p2pkh_nth:
  assumes "length h = 20"
  shows "p2pkh_script h ! 0 = OP_DUP" "p2pkh_script h ! 1 = OP_HASH160" "p2pkh_script h ! 2 = 20"
    "p2pkh_script h ! 23 = OP_EQUALVERIFY" "p2pkh_script h ! 24 = OP_CHECKSIG" "length (p2pkh_script h) = 25"
    "take 20 (drop 3 (p2pkh_script h)) = h"
  using assms by (simp_all add: p2pkh_script_def nth_append nth_Cons')

lemma p2sh_nth:
  assumes "length h = 20"
  shows "p2sh_script h ! 0 = OP_HASH160" "p2sh_script h ! 1 = 20" "p2sh_script h ! 22 = OP_EQUAL"
    "length (p2sh_script h) = 23" "take 20 (drop 2 (p2sh_script h)) = h"
  using assms by (simp_all add: p2sh_script_def nth_append nth_Cons')

lemma p2pkh_elems:
  assumes h: "length h = 20"
  shows "script_elems (p2pkh_script h) = (5, [0, 1, 2, 23, 24])"
proof (rule script_elems_from_loop)
  fix e :: "nat list" assume e: "length e = 5"
  let ?s = "p2pkh_script h"
  note nth = p2pkh_nth [OF h]
  have t: "script_turn ?s 0 l = (1, 0)" "script_turn ?s 1 l = (2, 0)" "script_turn ?s 2 l = (3, 20)"
    "script_turn ?s 23 l = (24, 0)" "script_turn ?s 24 l = (25, 0)" for l
    using script_turn_op [OF nth(1), of l] script_turn_op [OF nth(2), of l] script_turn_20 [OF nth(3), of l]
      script_turn_op [OF nth(4), of l] script_turn_op [OF nth(5), of l] by simp_all
  have "script_loop ?s 0 0 0 (Some e) = script_loop ?s 1 1 0 (Some (e[0 := 0]))"
    using script_loop_step [OF _ t(1), of 0 e] e nth(6) by simp
  also have "\<dots> = script_loop ?s 2 2 0 (Some (e[0 := 0, 1 := 1]))"
    using script_loop_step [OF _ t(2), of 1 "e[0 := 0]"] e nth(6) by (simp add: numeral_2_eq_2)
  also have "\<dots> = script_loop ?s 23 3 20 (Some (e[0 := 0, 1 := 1, 2 := 2]))"
    using script_loop_step [OF _ t(3), of 2 "e[0 := 0, 1 := 1]"] e nth(6) by simp
  also have "\<dots> = script_loop ?s 24 4 0 (Some (e[0 := 0, 1 := 1, 2 := 2, 3 := 23]))"
    using script_loop_step [OF _ t(4), of 3 "e[0 := 0, 1 := 1, 2 := 2]"] e nth(6) by simp
  also have "\<dots> = script_loop ?s 25 5 0 (Some (e[0 := 0, 1 := 1, 2 := 2, 3 := 23, 4 := 24]))"
    using script_loop_step [OF _ t(5), of 4 "e[0 := 0, 1 := 1, 2 := 2, 3 := 23]"] e nth(6) by simp
  also have "\<dots> = (length ?s, 5, Some [0, 1, 2, 23, 24])"
    using script_loop_end [of 25 ?s] nth(6) list_5 [OF e] by simp
  finally show "script_loop ?s 0 0 0 (Some e) = (length ?s, 5, Some [0, 1, 2, 23, 24])" .
qed simp

lemma p2sh_elems:
  assumes h: "length h = 20"
  shows "script_elems (p2sh_script h) = (3, [0, 1, 22])"
proof (rule script_elems_from_loop)
  fix e :: "nat list" assume e: "length e = 3"
  let ?s = "p2sh_script h"
  note nth = p2sh_nth [OF h]
  have t: "script_turn ?s 0 l = (1, 0)" "script_turn ?s 1 l = (2, 20)" "script_turn ?s 22 l = (23, 0)" for l
    using script_turn_op [OF nth(1), of l] script_turn_20 [OF nth(2), of l] script_turn_op [OF nth(3), of l]
    by simp_all
  have "script_loop ?s 0 0 0 (Some e) = script_loop ?s 1 1 0 (Some (e[0 := 0]))"
    using script_loop_step [OF _ t(1), of 0 e] e nth(4) by simp
  also have "\<dots> = script_loop ?s 22 2 20 (Some (e[0 := 0, 1 := 1]))"
    using script_loop_step [OF _ t(2), of 1 "e[0 := 0]"] e nth(4) by (simp add: numeral_2_eq_2)
  also have "\<dots> = script_loop ?s 23 3 0 (Some (e[0 := 0, 1 := 1, 2 := 22]))"
    using script_loop_step [OF _ t(3), of 2 "e[0 := 0, 1 := 1]"] e nth(4) by simp
  also have "\<dots> = (length ?s, 3, Some [0, 1, 22])"
    using script_loop_end [of 23 ?s] nth(4) list_3 [OF e] by simp
  finally show "script_loop ?s 0 0 0 (Some e) = (length ?s, 3, Some [0, 1, 22])" .
qed simp

lemma script_data_20:
  assumes "script ! off = 20" "off < length script"
  shows "BRScriptData script off = Some (Some (off + 1), 20)"
  using assms by (simp add: BRScriptData_def rd_def)

lemma p2pkh_address:
  assumes h: "length h = 20"
  shows "BRAddressFromScriptPubKey testnet addr (p2pkh_script h) =
    Some (BRBase58CheckEncode addr (pubkey_prefix testnet # h))"
proof -
  note nth = p2pkh_nth [OF h]
  have "p2pkh_script h \<noteq> []" using nth(6) by auto
  moreover have "BRScriptData (p2pkh_script h) 2 = Some (Some 3, 20)"
    using script_data_20 [OF nth(3)] nth(6) by simp
  moreover have "slice (p2pkh_script h) 3 20 = Some h" using nth(6,7) by (simp add: slice_def)
  ultimately show ?thesis
    using nth by (simp add: BRAddressFromScriptPubKey_def p2pkh_elems [OF h] elem_op_def)
qed

lemma p2sh_address:
  assumes h: "length h = 20"
  shows "BRAddressFromScriptPubKey testnet addr (p2sh_script h) =
    Some (BRBase58CheckEncode addr (script_prefix testnet # h))"
proof -
  note nth = p2sh_nth [OF h]
  have "p2sh_script h \<noteq> []" using nth(4) by auto
  moreover have "BRScriptData (p2sh_script h) 1 = Some (Some 2, 20)"
    using script_data_20 [OF nth(2)] nth(4) by simp
  moreover have "slice (p2sh_script h) 2 20 = Some h" using nth(4,5) by (simp add: slice_def)
  ultimately show ?thesis
    using nth by (simp add: BRAddressFromScriptPubKey_def p2sh_elems [OF h] elem_op_def)
qed


section \<open>Addresses of the standard scripts\<close>

lemma b58_digits_short: "length (b58_digits data) \<le> (length data - zeros data) * 138 div 100 + 1"
proof -
  have "256 ^ length (drop (zeros data) data) \<le> (58 :: nat) ^ ((length data - zeros data) * 138 div 100 + 1)"
    using encode_room [of "length (drop (zeros data) data)"] by simp
  from encode_bytes_correct [OF this] show ?thesis
    unfolding b58_digits_def strip_def by (metis length_dropWhile_le length_map)
qed

lemma address_string_fits:
  assumes "length h = 20"
  shows "length (b58check_string (p # h)) + 1 \<le> 36"
proof -
  let ?d = "(p # h) @ take 4 (BRSHA256_2 (p # h))"
  have "length ?d = 25" using assms by simp
  moreover have "(25 - z) * 138 div 100 + 1 + z \<le> 35" if "z \<le> 25" for z :: nat
  proof -
    have "(25 - z) * 138 < (35 - z) * 100" using that by (simp add: diff_mult_distrib)
    then have "(25 - z) * 138 div 100 < 35 - z" by (rule less_mult_imp_div_less)
    then show ?thesis by simp
  qed
  ultimately show ?thesis
    using b58_digits_short [of ?d] zeros_le [of ?d]
    unfolding b58check_string_def b58_string_def by fastforce
qed

lemma addr_str_written:
  assumes "length s + 1 \<le> 36" "length buf = 36" "0 \<notin> set s"
  shows "addr_str (put buf 0 (s @ [0])) = s"
  using assms by (simp add: addr_str_def put_def takeWhile_append)

lemma payload_decode:
  "length h = 20 \<Longrightarrow> BRBase58CheckDecode (Some (replicate 21 0)) (b58check_string (p # h)) = (21, Some (p # h))"
  by (simp add: check_roundtrip put_def)

lemma script_forms:
  "OP_DUP # OP_HASH160 # 20 # h @ [OP_EQUALVERIFY, OP_CHECKSIG] = p2pkh_script h"
  "OP_HASH160 # 20 # h @ [OP_EQUAL] = p2sh_script h"
  by (simp_all add: p2pkh_script_def p2sh_script_def)

text \<open>C4: scripts and addresses correspond: the address the wallet derives from a pay-to-pubkey-hash
  or pay-to-script-hash script fits the 36 byte address struct, is valid, carries the hash, and turns
  back into exactly that script, on both networks.\<close>

theorem address_script_roundtrip:
  assumes "length h = 20" and "length buf = 36"
  shows "\<exists>n m a b.
    BRAddressFromScriptPubKey testnet (Some buf) ([OP_DUP, OP_HASH160, 20] @ h @ [OP_EQUALVERIFY, OP_CHECKSIG]) =
      Some (n, Some a) \<and> 0 < n \<and> n \<le> 36 \<and> length a = 36 \<and>
    BRAddressScriptPubKey testnet (Some (replicate 25 0)) (addr_str a) =
      (25, Some ([OP_DUP, OP_HASH160, 20] @ h @ [OP_EQUALVERIFY, OP_CHECKSIG])) \<and>
    BRAddressIsValid testnet (addr_str a) \<and> BRAddressHash160 (replicate 20 0) (addr_str a) = (True, h) \<and>
    BRAddressFromScriptPubKey testnet (Some buf) ([OP_HASH160, 20] @ h @ [OP_EQUAL]) = Some (m, Some b) \<and>
      0 < m \<and> m \<le> 36 \<and>
    BRAddressScriptPubKey testnet (Some (replicate 23 0)) (addr_str b) = (23, Some ([OP_HASH160, 20] @ h @ [OP_EQUAL])) \<and>
    BRAddressIsValid testnet (addr_str b) \<and> BRAddressHash160 (replicate 20 0) (addr_str b) = (True, h)"
proof -
  have enc: "BRBase58CheckEncode (Some buf) (p # h) =
      (length (b58check_string (p # h)) + 1, Some (put buf 0 (b58check_string (p # h) @ [0])))"
    "addr_str (put buf 0 (b58check_string (p # h) @ [0])) = b58check_string (p # h)"
    "length (put buf 0 (b58check_string (p # h) @ [0])) = 36" for p
    using address_string_fits [OF assms(1), of p] assms(2) addr_str_written [of "b58check_string (p # h)" buf]
      b58_string_no_nul [of "(p # h) @ take 4 (BRSHA256_2 (p # h))"]
    unfolding b58check_string_def [symmetric] by (simp_all add: check_encode_correct)
  have dec: "BRBase58CheckDecode (Some (replicate 21 0)) (b58check_string (p # h)) = (21, Some (p # h))" for p
    using payload_decode [OF assms(1)] .
  have "length (p2pkh_script h) = 25" "length (p2sh_script h) = 23"
    using p2pkh_nth(6) p2sh_nth(4) assms(1) by auto
  moreover have "put (replicate 25 0) 0 (p2pkh_script h) = p2pkh_script h" "put (replicate 23 0) 0 (p2sh_script h) = p2sh_script h"
    "put (replicate 20 0) 0 h = h"
    using calculation assms(1) by (simp_all add: put_def)
  ultimately show ?thesis
    unfolding p2pkh_script_def [symmetric] p2sh_script_def [symmetric] p2pkh_address [OF assms(1)] p2sh_address [OF assms(1)]
    using address_string_fits [OF assms(1)] assms(1)
    by - (rule exI [of _ "length (b58check_string (pubkey_prefix testnet # h)) + 1"],
        rule exI [of _ "length (b58check_string (script_prefix testnet # h)) + 1"],
        rule exI [of _ "put buf 0 (b58check_string (pubkey_prefix testnet # h) @ [0])"],
        rule exI [of _ "put buf 0 (b58check_string (script_prefix testnet # h) @ [0])"],
      simp add: enc dec BRAddressScriptPubKey_def BRAddressIsValid_def BRAddressHash160_def store_if_fits_def
        pubkey_prefix_def script_prefix_def script_forms)
qed

theorem address_script_roundtrip_witness:
  "\<exists>n a. BRAddressFromScriptPubKey False (Some (replicate 36 0))
      ([OP_DUP, OP_HASH160, 20] @ replicate 20 7 @ [OP_EQUALVERIFY, OP_CHECKSIG]) = Some (n, Some a) \<and>
    BRAddressIsValid False (addr_str a) \<and> BRAddressHash160 (replicate 20 0) (addr_str a) = (True, replicate 20 7)"
  using address_script_roundtrip [of "replicate 20 7" "replicate 36 0" False] by fastforce

section \<open>Addresses as members of a hash set\<close>

interpretation address_set: hash_contract BRAddressHash BRAddressEq
  by unfold_locales (auto simp: BRAddressHash_def BRAddressEq_def)

end
