(* ===== verification/Wire.thy ===== *)
theory Wire
  imports AddressSpec
begin

text \<open>
  The two idioms every message parser and serialiser of the library uses. A parser keeps a \<open>size_t\<close>
  offset and asks \<open>off + n <= bufLen\<close> before each read; the addition wraps around, and a check that
  passes by wrapping leads to a read outside the buffer. A serialiser computes its length first and then
  stores one field behind the other. \<open>malloc\<close> returns \<open>NULL\<close> for a size of half the address space
  or more and succeeds otherwise.
\<close>

section \<open>Bounded reads\<close>

definition fits :: "bytes \<Rightarrow> u64 \<Rightarrow> u64 \<Rightarrow> bool" where
  "fits buf off n \<longleftrightarrow> off + n \<le> of_nat (length buf)"

text \<open>\<open>(off + n <= bufLen) ? get(&buf[off]) : 0\<close>\<close>

definition read_or0 :: "nat \<Rightarrow> (bytes \<Rightarrow> 'a::zero) \<Rightarrow> bytes \<Rightarrow> u64 \<Rightarrow> 'a run" where
  "read_or0 n get buf off = (if fits buf off (of_nat n) then get_at n get buf (unat off) else Some 0)"

text \<open>\<open>BRVarInt(&buf[off], (off <= bufLen ? bufLen - off : 0), &len)\<close>\<close>

definition varint_at :: "bytes \<Rightarrow> u64 \<Rightarrow> u64 \<times> u64" where
  "varint_at buf off = (case BRVarInt (Some (drop (unat off) buf)) of (v, len) \<Rightarrow> (v, of_nat len))"

definition malloc_ok :: "u64 \<Rightarrow> bool" where
  "malloc_ok n \<longleftrightarrow> n < 0x8000000000000000"

text \<open>\<open>p = (off + n <= bufLen) ? malloc(n) : NULL; if (p) memcpy(p, &buf[off], n)\<close>\<close>

definition copy_or_null :: "bytes \<Rightarrow> u64 \<Rightarrow> u64 \<Rightarrow> bytes option run" where
  "copy_or_null buf off n =
     (if fits buf off n \<and> malloc_ok n then map_option Some (slice buf (unat off) (unat n)) else Some None)"

definition byte0 :: "bytes \<Rightarrow> u8" where
  "byte0 b = b ! 0"

section \<open>Sequential stores\<close>

datatype chunk = Raw bytes | VarInt u64

text \<open>One store at \<open>off\<close> and the advance of \<open>off\<close> behind it.\<close>

fun emit :: "chunk \<Rightarrow> bytes \<times> nat \<Rightarrow> (bytes \<times> nat) run" where
  "emit (Raw x) (buf, off) =
     (if off + length x \<le> length buf then Some (put buf off x, off + length x) else None)"
| "emit (VarInt v) (buf, off) =
     (case BRVarIntSet (Some (drop off buf)) v of
        (n, None) \<Rightarrow> None
      | (n, Some t) \<Rightarrow> Some (take off buf @ t, off + n))"

declare emit.simps [simp del]

fun emit_all :: "chunk list \<Rightarrow> bytes \<times> nat \<Rightarrow> (bytes \<times> nat) run" where
  "emit_all [] s = Some s"
| "emit_all (c # cs) s = emit c s \<bind> emit_all cs"

lemma emit_all_fun: "emit_all [] = Some" "emit_all (c # cs) = (\<lambda>s. emit c s \<bind> emit_all cs)"
  by (simp_all add: fun_eq_iff)

text \<open>The bytes a chunk stands for.\<close>

fun image :: "chunk \<Rightarrow> bytes" where
  "image (Raw x) = x"
| "image (VarInt v) = varint_bytes v"

definition images :: "chunk list \<Rightarrow> bytes" where
  "images cs = concat (map image cs)"

lemma images_simps [simp]:
  "images [] = []" "images (c # cs) = image c @ images cs" "images (cs @ ds) = images cs @ images ds"
  by (simp_all add: images_def)

lemma put_put_adjacent:
  "off + length x + length y \<le> length b \<Longrightarrow> put (put b off x) (off + length x) y = put b off (x @ y)"
  by (simp add: put_def ac_simps)

lemma put_empty [simp]: "put b off [] = b"
  by (simp add: put_def)

lemma emit_fits:
  "off + length (image c) \<le> length buf \<Longrightarrow>
   emit c (buf, off) = Some (put buf off (image c), off + length (image c))"
  by (cases c) (auto simp: emit.simps varint_set_eq store_if_fits_def put_def add.commute)

text \<open>With room for all of them, the stores write the images one behind the other.\<close>

lemma emit_all_fits:
  "off + length (images cs) \<le> length buf \<Longrightarrow>
   emit_all cs (buf, off) = Some (put buf off (images cs), off + length (images cs))"
proof (induction cs arbitrary: buf off)
  case Nil
  then show ?case by simp
next
  case (Cons c cs)
  then show ?case
    using Cons.IH [of "off + length (image c)" "put buf off (image c)"]
    by (simp add: emit_fits put_put_adjacent)
qed

section \<open>Reading back what was stored\<close>

text \<open>\<open>at buf off x\<close>: the bytes \<open>x\<close> stand at \<open>off\<close>.\<close>

definition at :: "bytes \<Rightarrow> nat \<Rightarrow> bytes \<Rightarrow> bool" where
  "at buf off x \<longleftrightarrow> off + length x \<le> length buf \<and> take (length x) (drop off buf) = x"

lemma at_append: "at buf off (x @ y) \<longleftrightarrow> at buf off x \<and> at buf (off + length x) y"
proof
  assume a: "at buf off (x @ y)"
  then have e: "take (length x + length y) (drop off buf) = x @ y" by (simp add: at_def)
  have "take (length x) (take (length x + length y) (drop off buf)) = x"
    "drop (length x) (take (length x + length y) (drop off buf)) = y"
    unfolding e by simp_all
  then show "at buf off x \<and> at buf (off + length x) y"
    using a by (simp add: at_def drop_take add.commute min_def)
next
  assume "at buf off x \<and> at buf (off + length x) y"
  then show "at buf off (x @ y)" by (simp add: at_def take_add add.commute)
qed

lemma at_put: "off + length x \<le> length b \<Longrightarrow> at (put b off x) off x"
  by (simp add: at_def put_def)

lemma at_get: "at buf off x \<Longrightarrow> length x = n \<Longrightarrow> get_at n get buf off = Some (get x)"
  by (auto simp: at_def get_at_def slice_def)

lemma at_codec:
  "at buf off (UInt32SetLE v) \<Longrightarrow> get_at 4 UInt32GetLE buf off = Some v"
  "at buf off (UInt64SetLE w) \<Longrightarrow> get_at 8 UInt64GetLE buf off = Some w"
  "at buf off (UInt256Set u) \<Longrightarrow> get_at 32 UInt256Get buf off = Some u"
  using at_get [of buf off "UInt32SetLE v" 4 UInt32GetLE] at_get [of buf off "UInt64SetLE w" 8 UInt64GetLE]
    at_get [of buf off "UInt256Set u" 32 UInt256Get] by simp_all

lemma at_slice: "at buf off x \<Longrightarrow> length x = n \<Longrightarrow> slice buf off n = Some x"
  by (auto simp: at_def slice_def)

lemma at_drop: "at buf off x \<Longrightarrow> \<exists>rest. drop off buf = x @ rest"
  by (auto simp: at_def) (metis append_take_drop_id)

lemma fits_plain:
  assumes "length buf < 2 ^ 64" "unat off + unat n < 2 ^ 64"
  shows "fits buf off n \<longleftrightarrow> unat off + unat n \<le> length buf"
  using assms by (simp add: fits_def word_le_nat_alt unat_word_ariths unat_of_nat)

lemma read_or0_at:
  assumes "at buf off x" "length x = n" "length buf < 2 ^ 64" "k = of_nat off" 
  shows "read_or0 n get buf k = Some (get x)"
proof -
  have "off + n \<le> length buf" using assms(1,2) by (simp add: at_def)
  then have "unat k = off" "unat (of_nat n :: u64) = n" using assms(3,4) by (simp_all add: unat_of_nat)
  then show ?thesis
    using assms \<open>off + n \<le> length buf\<close> by (simp add: read_or0_def fits_plain at_get)
qed

lemma varint_at_at:
  assumes "at buf off (varint_bytes v)" "length buf < 2 ^ 64" "k = of_nat off"
  shows "varint_at buf k = (v, of_nat (length (varint_bytes v)))"
proof -
  have "unat k = off" using assms by (simp add: at_def unat_of_nat)
  then show ?thesis using at_drop [OF assms(1)] by (auto simp: varint_at_def varint_read)
qed

lemma copy_or_null_at:
  assumes "at buf off x" "length x = unat n" "length buf < 2 ^ 63" "k = of_nat off"
  shows "copy_or_null buf k n = Some (Some x)"
proof -
  have "off + unat n \<le> length buf" using assms(1,2) by (simp add: at_def)
  then have "unat k = off" using assms(3,4) by (simp add: unat_of_nat)
  moreover have "malloc_ok n" using \<open>off + unat n \<le> length buf\<close> assms(3) by (simp add: malloc_ok_def word_less_nat_alt)
  ultimately show ?thesis
    using assms \<open>off + unat n \<le> length buf\<close> by (simp add: copy_or_null_def fits_plain at_slice)
qed

text \<open>A read whose check does not wrap is inside the buffer.\<close>

lemma read_or0_defined:
  assumes "length buf < 2 ^ 64" "unat off + n < 2 ^ 64"
  shows "read_or0 n get buf off \<noteq> None"
proof -
  have "unat (of_nat n :: u64) = n" using assms by (simp add: unat_of_nat)
  then show ?thesis using assms by (auto simp: read_or0_def fits_plain get_at_def slice_def)
qed

lemma copy_or_null_defined:
  assumes "length buf < 2 ^ 63" "unat off < 2 ^ 63"
  shows "copy_or_null buf off n \<noteq> None"
proof (cases "malloc_ok n")
  case True
  then have "unat off + unat n < 2 ^ 64" using assms by (simp add: malloc_ok_def word_less_nat_alt)
  then show ?thesis using assms True by (auto simp: copy_or_null_def fits_plain slice_def)
next
  case False
  then show ?thesis by (simp add: copy_or_null_def)
qed

lemma copy_or_null_length: "copy_or_null buf off n = Some (Some x) \<Longrightarrow> length x = unat n"
  by (auto simp: copy_or_null_def slice_def split: if_splits)

lemma varint_at_length: "unat (snd (varint_at buf off)) \<le> 9"
  by (simp add: varint_at_def BRVarInt_def Let_def unat_of_nat split: option.split)

end
