(* ===== verification/Bloom.thy ===== *)
theory Bloom
  imports Wire
begin

text \<open>
  \<^verbatim>\<open>BRBloomFilter.c\<close>: the BIP37 bloom filter, its bit arithmetic and its wire format. \<open>filter\<close> is the object
  the C pointer refers to. The two floating point formulas of \<open>BRBloomFilterNew\<close> are arguments: the
  length before it is clamped, and the number of hash functions as a function of the clamped length.
\<close>

section \<open>The filter\<close>

record BRBloomFilter =
  filter_bits :: bytes
  filter_length :: u64
  hashFuncs :: u32
  elemCount :: u64
  tweak :: u32
  filter_flags :: u8

abbreviation BLOOM_MAX_FILTER_LENGTH :: u64 where "BLOOM_MAX_FILTER_LENGTH \<equiv> 36000"
abbreviation BLOOM_MAX_HASH_FUNCS :: u32 where "BLOOM_MAX_HASH_FUNCS \<equiv> 50"

definition BR_BLOOM_FILTER_FULL :: BRBloomFilter where
  "BR_BLOOM_FILTER_FULL = \<lparr>filter_bits = [0xff], filter_length = 1, hashFuncs = 0, elemCount = 0, tweak = 0,
     filter_flags = 0\<rparr>"

text \<open>The remainder is taken in \<open>size_t\<close> and stored in a \<open>uint32_t\<close>; a filter of length zero divides by
  zero.\<close>

definition BRBloomFilterHash :: "BRBloomFilter \<Rightarrow> bytes \<Rightarrow> u32 \<Rightarrow> u32 run" where
  "BRBloomFilterHash f data hashNum =
     (if filter_length f * 8 = 0 then None
      else Some (ucast (ucast (BRMurmur3_32 data (hashNum * 0xfba4c795 + tweak f)) mod (filter_length f * 8))))"

definition BRBloomFilterNew :: "u64 \<Rightarrow> (u64 \<Rightarrow> u32) \<Rightarrow> u32 \<Rightarrow> u8 \<Rightarrow> BRBloomFilter" where
  "BRBloomFilterNew len0 funcs tw flags =
     (let len = (if len0 > BLOOM_MAX_FILTER_LENGTH then BLOOM_MAX_FILTER_LENGTH else len0);
          len = (if len < 1 then 1 else len);
          hf = funcs len
      in \<lparr>filter_bits = replicate (unat len) 0, filter_length = len,
          hashFuncs = (if hf > BLOOM_MAX_HASH_FUNCS then BLOOM_MAX_HASH_FUNCS else hf),
          elemCount = 0, tweak = tw, filter_flags = flags\<rparr>)"

text \<open>The fields behind the bits are read whether or not the bits were there.\<close>

definition BRBloomFilterParse :: "bytes option \<Rightarrow> BRBloomFilter option run" where
  "BRBloomFilterParse buf =
     (case buf of
        None \<Rightarrow> Some None
      | Some b \<Rightarrow> do {
          let (length', len) = varint_at b 0;
          let off = 0 + len;
          bits \<leftarrow> (if length' \<le> BLOOM_MAX_FILTER_LENGTH then copy_or_null b off length' else Some None);
          let off = off + length';
          hf \<leftarrow> read_or0 4 UInt32GetLE b off;
          let off = off + 4;
          tw \<leftarrow> read_or0 4 UInt32GetLE b off;
          let off = off + 4;
          fl \<leftarrow> read_or0 1 byte0 b off;
          Some (case bits of
              None \<Rightarrow> None
            | Some bits \<Rightarrow> Some \<lparr>filter_bits = bits, filter_length = length', hashFuncs = hf, elemCount = 0, tweak = tw,
                filter_flags = fl\<rparr>)
        })"

definition BRBloomFilterSerialize :: "BRBloomFilter \<Rightarrow> bytes option \<Rightarrow> (nat \<times> bytes option) run" where
  "BRBloomFilterSerialize f buf =
     (let len = BRVarIntSize (filter_length f) + unat (filter_length f) + 4 + 4 + 1
      in case buf of
           None \<Rightarrow> Some (len, None)
         | Some b \<Rightarrow>
             if len \<le> length b then do {
               bits \<leftarrow> slice (filter_bits f) 0 (unat (filter_length f));
               (b, off) \<leftarrow> emit_all [VarInt (filter_length f), Raw bits, Raw (UInt32SetLE (hashFuncs f)),
                 Raw (UInt32SetLE (tweak f)), Raw [filter_flags f]] (b, 0);
               Some (len, Some b)
             } else Some (0, Some b))"

section \<open>Membership\<close>

definition bloom_bit :: "u32 \<Rightarrow> u8" where
  "bloom_bit idx = push_bit (unat (7 AND idx)) 1"

fun bloom_contains :: "nat \<Rightarrow> u32 \<Rightarrow> BRBloomFilter \<Rightarrow> bytes \<Rightarrow> bool run" where
  "bloom_contains 0 i f data = Some True"
| "bloom_contains (Suc n) i f data = do {
     idx \<leftarrow> BRBloomFilterHash f data i;
     b \<leftarrow> rd (filter_bits f) (unat (drop_bit 3 idx));
     if b AND bloom_bit idx = 0 then Some False else bloom_contains n (i + 1) f data
   }"

definition BRBloomFilterContainsData :: "BRBloomFilter \<Rightarrow> bytes option \<Rightarrow> bool run" where
  "BRBloomFilterContainsData f data =
     (case data of None \<Rightarrow> Some False | Some d \<Rightarrow> bloom_contains (unat (hashFuncs f)) 0 f d)"

fun bloom_insert :: "nat \<Rightarrow> u32 \<Rightarrow> BRBloomFilter \<Rightarrow> bytes \<Rightarrow> BRBloomFilter run" where
  "bloom_insert 0 i f data = Some f"
| "bloom_insert (Suc n) i f data = do {
     idx \<leftarrow> BRBloomFilterHash f data i;
     b \<leftarrow> rd (filter_bits f) (unat (drop_bit 3 idx));
     bloom_insert n (i + 1) (f\<lparr>filter_bits := (filter_bits f)[unat (drop_bit 3 idx) := b OR bloom_bit idx]\<rparr>) data
   }"

definition BRBloomFilterInsertData :: "BRBloomFilter \<Rightarrow> bytes option \<Rightarrow> BRBloomFilter run" where
  "BRBloomFilterInsertData f data =
     (case data of
        None \<Rightarrow> Some f
      | Some d \<Rightarrow> map_option (\<lambda>f. f\<lparr>elemCount := elemCount f + 1\<rparr>) (bloom_insert (unat (hashFuncs f)) 0 f d))"

section \<open>Well-formed filters\<close>

text \<open>The bits are an object of \<open>length\<close> bytes, at least one and at most the protocol's limit.\<close>

definition bloom_wf :: "BRBloomFilter \<Rightarrow> bool" where
  "bloom_wf f \<longleftrightarrow> length (filter_bits f) = unat (filter_length f) \<and> 0 < unat (filter_length f) \<and>
     unat (filter_length f) \<le> 36000"

lemma bloom_new_wf: "bloom_wf (BRBloomFilterNew len0 funcs tw flags)"
  by (auto simp: bloom_wf_def BRBloomFilterNew_def Let_def word_less_nat_alt word_le_nat_alt not_less)

text \<open>Every index a well-formed filter computes is inside its bits.\<close>

lemma bloom_index:
  assumes "bloom_wf f"
  obtains idx where "BRBloomFilterHash f data i = Some idx" "unat (drop_bit 3 idx) < length (filter_bits f)"
    "\<And>bits count. BRBloomFilterHash (f\<lparr>filter_bits := bits, elemCount := count\<rparr>) data i = Some idx"
proof -
  let ?L = "unat (filter_length f)"
  define m where "m = (ucast (BRMurmur3_32 data (i * 0xfba4c795 + tweak f)) :: u64) mod (filter_length f * 8)"
  have L: "0 < ?L" "?L \<le> 36000" "length (filter_bits f) = ?L" using assms by (simp_all add: bloom_wf_def)
  have u: "unat (filter_length f * 8) = ?L * 8" using L by (simp add: unat_word_ariths)
  then have nz: "filter_length f * 8 \<noteq> 0" using L by (metis mult_is_0 unat_0 less_irrefl zero_neq_numeral)
  have m: "unat m < ?L * 8" using L by (simp add: m_def unat_mod u)
  then have "unat (ucast m :: u32) = unat m" using L by (intro unat_ucast_small) simp
  then have "unat (drop_bit 3 (ucast m :: u32)) < ?L"
    using m by (simp add: drop_bit_eq_div unat_div less_mult_imp_div_less)
  then show thesis
    using nz L by (intro that [of "ucast m"]) (simp_all add: BRBloomFilterHash_def m_def)
qed

section \<open>Insertion only sets bits\<close>

text \<open>\<open>bloom_le f g\<close>: same parameters, and every bit of \<open>f\<close> is set in \<open>g\<close>.\<close>

definition bloom_le :: "BRBloomFilter \<Rightarrow> BRBloomFilter \<Rightarrow> bool" where
  "bloom_le f g \<longleftrightarrow> filter_length g = filter_length f \<and> hashFuncs g = hashFuncs f \<and> tweak g = tweak f \<and>
     length (filter_bits g) = length (filter_bits f) \<and>
     (\<forall>k < length (filter_bits f). \<forall>b. bit (filter_bits f ! k) b \<longrightarrow> bit (filter_bits g ! k) b)"

lemma bloom_le_refl [simp]: "bloom_le f f"
  by (simp add: bloom_le_def)

lemma bloom_le_trans: "bloom_le f g \<Longrightarrow> bloom_le g h \<Longrightarrow> bloom_le f h"
  by (simp add: bloom_le_def)

lemma bloom_le_wf: "bloom_le f g \<Longrightarrow> bloom_wf f \<Longrightarrow> bloom_wf g"
  by (simp add: bloom_le_def bloom_wf_def)

lemma bloom_le_hash: "bloom_le f g \<Longrightarrow> BRBloomFilterHash g data i = BRBloomFilterHash f data i"
  by (simp add: bloom_le_def BRBloomFilterHash_def)

text \<open>The bit an index selects.\<close>

definition bloom_set :: "BRBloomFilter \<Rightarrow> u32 \<Rightarrow> bool" where
  "bloom_set f idx \<longleftrightarrow> bit (filter_bits f ! unat (drop_bit 3 idx)) (unat (7 AND idx))"

lemma seven_and: "unat (7 AND idx :: u32) < 8"
proof -
  have "7 AND idx \<le> (7 :: u32)" by (rule word_and_le2)
  then show ?thesis by (simp add: word_le_nat_alt)
qed

lemma bit_bloom_bit: "bit (bloom_bit idx) k \<longleftrightarrow> k = unat (7 AND idx)"
  using seven_and [of idx] unfolding bloom_bit_def bit_push_bit_iff bit_1_iff by auto

lemma bloom_bit_test: "b AND bloom_bit idx = 0 \<longleftrightarrow> \<not> bit b (unat (7 AND idx))"
proof
  assume e: "b AND bloom_bit idx = 0"
  have "bit (b AND bloom_bit idx) (unat (7 AND idx)) = bit b (unat (7 AND idx))"
    by (simp add: bit_and_iff bit_bloom_bit)
  then show "\<not> bit b (unat (7 AND idx))" unfolding e by simp
next
  assume "\<not> bit b (unat (7 AND idx))"
  then show "b AND bloom_bit idx = 0"
    by (intro bit_word_eqI) (auto simp: bit_and_iff bit_bloom_bit)
qed

lemma bloom_le_set: "bloom_le f g \<Longrightarrow> unat (drop_bit 3 idx) < length (filter_bits f) \<Longrightarrow> bloom_set f idx \<Longrightarrow> bloom_set g idx"
  by (simp add: bloom_le_def bloom_set_def)

text \<open>One turn of the insertion.\<close>

lemma bloom_insert_turn:
  assumes "unat (drop_bit 3 idx) < length (filter_bits f)"
  defines "g \<equiv> f\<lparr>filter_bits := (filter_bits f)[unat (drop_bit 3 idx) :=
    filter_bits f ! unat (drop_bit 3 idx) OR bloom_bit idx]\<rparr>"
  shows "bloom_le f g" "bloom_set g idx"
  using assms by (auto simp: bloom_le_def bloom_set_def nth_list_update bit_or_iff bit_bloom_bit)

lemma bloom_insert_spec:
  assumes "bloom_wf f"
  shows "\<exists>g. bloom_insert n i f data = Some g \<and> bloom_le f g \<and>
    (\<forall>j < n. \<exists>idx. BRBloomFilterHash f data (i + of_nat j) = Some idx \<and>
       unat (drop_bit 3 idx) < length (filter_bits f) \<and> bloom_set g idx)"
  using assms
proof (induction n arbitrary: i f)
  case 0
  then show ?case by simp
next
  case (Suc n)
  obtain idx where idx: "BRBloomFilterHash f data i = Some idx" "unat (drop_bit 3 idx) < length (filter_bits f)"
    by (rule bloom_index [OF Suc.prems])
  define h where "h = f\<lparr>filter_bits := (filter_bits f)[unat (drop_bit 3 idx) :=
    filter_bits f ! unat (drop_bit 3 idx) OR bloom_bit idx]\<rparr>"
  have h: "bloom_le f h" "bloom_set h idx" unfolding h_def by (rule bloom_insert_turn [OF idx(2)])+
  obtain g where g: "bloom_insert n (i + 1) h data = Some g" "bloom_le h g"
    "\<And>j. j < n \<Longrightarrow> \<exists>idx. BRBloomFilterHash h data (i + 1 + of_nat j) = Some idx \<and>
       unat (drop_bit 3 idx) < length (filter_bits h) \<and> bloom_set g idx"
    using Suc.IH [OF bloom_le_wf [OF h(1) Suc.prems]] by blast
  have len: "length (filter_bits h) = length (filter_bits f)" using h(1) by (simp add: bloom_le_def)
  have "\<exists>idx. BRBloomFilterHash f data (i + of_nat j) = Some idx \<and>
      unat (drop_bit 3 idx) < length (filter_bits f) \<and> bloom_set g idx" if "j < Suc n" for j
  proof (cases j)
    case 0
    then show ?thesis using idx h(2) bloom_le_set [OF g(2)] len by auto
  next
    case (Suc j')
    then show ?thesis using g(3) [of j'] that len by (simp add: bloom_le_hash [OF h(1)] ac_simps)
  qed
  then show ?case
    using g(1) idx bloom_le_trans [OF h(1) g(2)] by (simp add: mem_simps h_def)
qed

lemma bloom_contains_iff:
  assumes "bloom_wf f"
  shows "bloom_contains n i f data =
    Some (\<forall>j < n. \<exists>idx. BRBloomFilterHash f data (i + of_nat j) = Some idx \<and> bloom_set f idx)"
proof (induction n arbitrary: i)
  case 0
  then show ?case by simp
next
  case (Suc n)
  obtain idx where idx: "BRBloomFilterHash f data i = Some idx" "unat (drop_bit 3 idx) < length (filter_bits f)"
    by (rule bloom_index [OF assms])
  define P where "P k \<longleftrightarrow> (\<exists>idx. BRBloomFilterHash f data k = Some idx \<and> bloom_set f idx)" for k
  have "(\<forall>j < Suc n. P (i + of_nat j)) \<longleftrightarrow> P i \<and> (\<forall>j < n. P (i + 1 + of_nat j))"
    by (auto simp: less_Suc_eq_0_disj ac_simps)
  moreover have "P i \<longleftrightarrow> bloom_set f idx" using idx by (simp add: P_def)
  ultimately show ?case
    using idx Suc.IH [of "i + 1"] unfolding P_def [symmetric]
    by (simp add: mem_simps bloom_bit_test bloom_set_def)
qed

section \<open>Properties\<close>

lemma bloom_contains_data:
  "bloom_wf f \<Longrightarrow> BRBloomFilterContainsData f (Some d) = Some (\<forall>j < unat (hashFuncs f).
     \<exists>idx. BRBloomFilterHash f d (of_nat j) = Some idx \<and> bloom_set f idx)"
  by (simp add: BRBloomFilterContainsData_def bloom_contains_iff)

lemma bloom_contains_mono:
  assumes "bloom_wf f" "bloom_le f g" "BRBloomFilterContainsData f (Some d) = Some True"
  shows "BRBloomFilterContainsData g (Some d) = Some True"
proof -
  have "\<exists>idx. BRBloomFilterHash g d (of_nat j) = Some idx \<and> bloom_set g idx" if j: "j < unat (hashFuncs f)" for j
  proof -
    obtain idx where "BRBloomFilterHash f d (of_nat j) = Some idx" "unat (drop_bit 3 idx) < length (filter_bits f)"
      by (rule bloom_index [OF assms(1)])
    then show ?thesis
      using assms(3) j bloom_le_set [OF assms(2)] by (auto simp: bloom_contains_data [OF assms(1)] bloom_le_hash [OF assms(2)])
  qed
  then show ?thesis
    using assms(2) by (simp add: bloom_contains_data [OF bloom_le_wf [OF assms(2,1)]] bloom_le_def)
qed

lemma bloom_insert_data:
  assumes "bloom_wf f"
  shows "\<exists>g. BRBloomFilterInsertData f (Some d) = Some g \<and> bloom_le f g \<and> elemCount g = elemCount f + 1 \<and>
    BRBloomFilterContainsData g (Some d) = Some True"
proof -
  obtain h where h: "bloom_insert (unat (hashFuncs f)) 0 f d = Some h" "bloom_le f h"
    "\<And>j. j < unat (hashFuncs f) \<Longrightarrow> \<exists>idx. BRBloomFilterHash f d (of_nat j) = Some idx \<and> bloom_set h idx"
    using bloom_insert_spec [OF assms, of "unat (hashFuncs f)" 0 d, unfolded add_0_left] by blast
  have count: "elemCount h' = elemCount f'" if "bloom_insert n i f' d = Some h'" for n i f' h'
    using that by (induction n arbitrary: i f') (force split: Option.bind_splits)+
  let ?g = "h\<lparr>elemCount := elemCount h + 1\<rparr>"
  have le: "bloom_le f ?g" using h(2) by (simp add: bloom_le_def)
  then have "BRBloomFilterContainsData ?g (Some d) = Some True"
    using h(3) h(2) by (auto simp: bloom_contains_data [OF bloom_le_wf [OF le assms]] bloom_le_hash [OF le]
        bloom_set_def bloom_le_def)
  then show ?thesis using h(1) le count [OF h(1)] by (simp add: BRBloomFilterInsertData_def)
qed

fun bloom_insert_all :: "BRBloomFilter \<Rightarrow> bytes list \<Rightarrow> BRBloomFilter run" where
  "bloom_insert_all f [] = Some f"
| "bloom_insert_all f (d # ds) = BRBloomFilterInsertData f (Some d) \<bind> (\<lambda>g. bloom_insert_all g ds)"

text \<open>C29: a bloom filter never gives a false negative: after any sequence of insertions into a
  well-formed filter, which never touch memory outside its bits, every inserted item is matched, and
  so is everything matched before.\<close>

theorem bloom_no_false_negatives:
  assumes "bloom_wf f"
  shows "\<exists>g. bloom_insert_all f ds = Some g \<and> bloom_wf g \<and> elemCount g = elemCount f + of_nat (length ds) \<and>
    (\<forall>d. d \<in> set ds \<or> BRBloomFilterContainsData f (Some d) = Some True \<longrightarrow>
       BRBloomFilterContainsData g (Some d) = Some True)"
  using assms
proof (induction ds arbitrary: f)
  case Nil
  then show ?case by simp
next
  case (Cons d ds)
  obtain g where g: "BRBloomFilterInsertData f (Some d) = Some g" "bloom_le f g" "elemCount g = elemCount f + 1"
    "BRBloomFilterContainsData g (Some d) = Some True"
    using bloom_insert_data [OF Cons.prems] by blast
  then show ?case
    using Cons.IH [OF bloom_le_wf [OF g(2) Cons.prems]] bloom_contains_mono [OF Cons.prems g(2)] by fastforce
qed

theorem bloom_no_false_negatives_witness:
  "\<exists>g. bloom_insert_all (BRBloomFilterNew 8 (\<lambda>n. 3) 7 1) [[1, 2], [3]] = Some g \<and>
     BRBloomFilterContainsData g (Some [3]) = Some True"
  using bloom_no_false_negatives [OF bloom_new_wf [of 8 "\<lambda>n. 3" 7 1], of "[[1, 2], [3]]"] by auto

text \<open>The wire image of a filter.\<close>

definition bloom_chunks :: "BRBloomFilter \<Rightarrow> chunk list" where
  "bloom_chunks f = [VarInt (filter_length f), Raw (filter_bits f), Raw (UInt32SetLE (hashFuncs f)),
     Raw (UInt32SetLE (tweak f)), Raw [filter_flags f]]"

lemma bloom_serialize_eq:
  assumes "bloom_wf f" "length (images (bloom_chunks f)) \<le> length buf"
  shows "BRBloomFilterSerialize f (Some buf) =
    Some (length (images (bloom_chunks f)), Some (put buf 0 (images (bloom_chunks f))))"
    "BRBloomFilterSerialize f None = Some (length (images (bloom_chunks f)), None)"
proof -
  have len: "BRVarIntSize (filter_length f) + unat (filter_length f) + 4 + 4 + 1 = length (images (bloom_chunks f))"
    using assms(1) by (simp add: bloom_chunks_def bloom_wf_def varint_size_eq)
  have bits: "slice (filter_bits f) 0 (unat (filter_length f)) = Some (filter_bits f)"
    using assms(1) by (simp add: slice_def bloom_wf_def)
  show "BRBloomFilterSerialize f (Some buf) =
    Some (length (images (bloom_chunks f)), Some (put buf 0 (images (bloom_chunks f))))"
    "BRBloomFilterSerialize f None = Some (length (images (bloom_chunks f)), None)"
    using assms(2) emit_all_fits [of 0 "bloom_chunks f" buf]
    unfolding BRBloomFilterSerialize_def Let_def len
    by (simp_all add: bits bloom_chunks_def [symmetric] del: emit_all.simps)
qed

lemma bloom_parse_at:
  assumes "bloom_wf f" "at buf 0 (images (bloom_chunks f))" "length buf < 2 ^ 63"
  shows "BRBloomFilterParse (Some buf) = Some (Some (f\<lparr>elemCount := 0\<rparr>))"
proof -
  define v where "v = length (varint_bytes (filter_length f))"
  define L where "L = length (filter_bits f)"
  have L: "unat (filter_length f) = L" "L \<le> 36000" using assms(1) by (simp_all add: bloom_wf_def L_def)
  have "at buf 0 (varint_bytes (filter_length f))" "at buf v (filter_bits f)"
    "at buf (v + L) (UInt32SetLE (hashFuncs f))" "at buf (v + L + 4) (UInt32SetLE (tweak f))"
    "at buf (v + L + 4 + 4) [filter_flags f]"
    using assms(2) by (simp_all add: bloom_chunks_def at_append v_def L_def ac_simps)
  moreover have l: "filter_length f = of_nat L" unfolding L(1) [symmetric] by simp
  moreover have le: "filter_length f \<le> BLOOM_MAX_FILTER_LENGTH" using L by (simp add: word_le_nat_alt)
  ultimately have r: "copy_or_null buf (of_nat v) (filter_length f) = Some (Some (filter_bits f))"
    "read_or0 4 UInt32GetLE buf (of_nat v + filter_length f) = Some (hashFuncs f)"
    "read_or0 4 UInt32GetLE buf (of_nat v + filter_length f + 4) = Some (tweak f)"
    "read_or0 1 byte0 buf (of_nat v + filter_length f + 4 + 4) = Some (filter_flags f)"
    using assms(3) L
      read_or0_at [of buf "v + L" "UInt32SetLE (hashFuncs f)" 4 "of_nat v + filter_length f" UInt32GetLE]
      read_or0_at [of buf "v + L + 4" "UInt32SetLE (tweak f)" 4 "of_nat v + filter_length f + 4" UInt32GetLE]
      read_or0_at [of buf "v + L + 4 + 4" "[filter_flags f]" 1 "of_nat v + filter_length f + 4 + 4" byte0]
    by (simp_all add: L_def copy_or_null_at [where off = v and x = "filter_bits f"] byte0_def)
  have "varint_at buf 0 = (filter_length f, of_nat v)"
    using varint_at_at [of buf 0 "filter_length f" 0] assms(2,3) by (simp add: v_def bloom_chunks_def at_append)
  then show ?thesis
    unfolding BRBloomFilterParse_def option.case Let_def
    using r(4) by (simp add: r le del: One_nat_def)
qed

text \<open>A serialised filter parses back to the same filter (the element count is not on the wire),
  the size reported for a null buffer is the size written, the rest of the buffer is untouched, and
  a buffer without room is left alone.\<close>

theorem bloom_wire_roundtrip:
  assumes "bloom_wf f" "length buf < 2 ^ 63"
  shows "\<exists>n. BRBloomFilterSerialize f None = Some (n, None) \<and>
    (n \<le> length buf \<longrightarrow> (\<exists>b. BRBloomFilterSerialize f (Some buf) = Some (n, Some b) \<and> length b = length buf \<and>
       drop n b = drop n buf \<and> BRBloomFilterParse (Some b) = Some (Some (f\<lparr>elemCount := 0\<rparr>)))) \<and>
    (length buf < n \<longrightarrow> BRBloomFilterSerialize f (Some buf) = Some (0, Some buf))"
proof -
  let ?x = "images (bloom_chunks f)"
  have none: "BRBloomFilterSerialize f None = Some (length ?x, None)"
    using bloom_serialize_eq(2) [OF assms(1) order.refl] .
  then have small: "length buf < length ?x \<Longrightarrow> BRBloomFilterSerialize f (Some buf) = Some (0, Some buf)"
    by (simp add: BRBloomFilterSerialize_def Let_def)
  have "BRBloomFilterSerialize f (Some buf) = Some (length ?x, Some (put buf 0 ?x)) \<and>
      length (put buf 0 ?x) = length buf \<and> drop (length ?x) (put buf 0 ?x) = drop (length ?x) buf \<and>
      BRBloomFilterParse (Some (put buf 0 ?x)) = Some (Some (f\<lparr>elemCount := 0\<rparr>))" if "length ?x \<le> length buf"
    using that bloom_serialize_eq(1) [OF assms(1) that] bloom_parse_at [OF assms(1), of "put buf 0 ?x"]
      at_put [of 0 ?x buf] assms(2) by (simp add: put_0)
  then show ?thesis using none small by blast
qed

theorem bloom_wire_roundtrip_witness:
  "\<exists>b. BRBloomFilterSerialize (BRBloomFilterNew 2 (\<lambda>n. 3) 7 1) (Some (replicate 20 0)) = Some (12, Some b) \<and>
     BRBloomFilterParse (Some b) = Some (Some (BRBloomFilterNew 2 (\<lambda>n. 3) 7 1))"
proof -
  have "fst (the (BRBloomFilterSerialize (BRBloomFilterNew 2 (\<lambda>n. 3) 7 1) None)) = 12"
    by (simp add: BRBloomFilterSerialize_def BRBloomFilterNew_def varint_size_eq varint_length Let_def)
  moreover have "(BRBloomFilterNew 2 (\<lambda>n. 3) 7 1)\<lparr>elemCount := 0\<rparr> = BRBloomFilterNew 2 (\<lambda>n. 3) 7 1"
    by (simp add: BRBloomFilterNew_def Let_def)
  ultimately show ?thesis
    using bloom_wire_roundtrip [OF bloom_new_wf [of 2 "\<lambda>n. 3" 7 1], of "replicate 20 0"] by fastforce
qed

lemma varint_at_offset: "unat (snd (varint_at buf off)) < 10"
  using varint_at_length [of buf off] by simp

text \<open>Parsing any buffer that declares a filter of less than half the address space stays inside
  the buffer, and what it returns has bits of exactly the declared length, within the protocol's limit.\<close>

theorem bloom_parse_memory:
  assumes "length buf < 2 ^ 63" "fst (varint_at buf 0) < 0x8000000000000000"
  shows "BRBloomFilterParse (Some buf) \<noteq> None \<and> (\<forall>f. BRBloomFilterParse (Some buf) = Some (Some f) \<longrightarrow>
       length (filter_bits f) = unat (filter_length f) \<and> filter_length f \<le> BLOOM_MAX_FILTER_LENGTH)"
proof -
  obtain l n where v: "varint_at buf 0 = (l, n)" by fastforce
  have n: "unat n < 10" using varint_at_offset [of buf 0] v by simp
  have l: "unat l < 2 ^ 63" using assms(2) v by (simp add: word_less_nat_alt)
  have o1: "unat (n + l) = unat n + unat l" using n l by (simp add: unat_word_ariths)
  have o2: "unat (n + l + 4) = unat n + unat l + 4" "unat (n + l + 4 + 4) = unat n + unat l + 8"
    using n l o1 by (simp_all add: unat_word_ariths)
  have "copy_or_null buf n l \<noteq> None"
    by (rule copy_or_null_defined) (use assms(1) n in simp_all)
  moreover have "read_or0 4 UInt32GetLE buf (n + l) \<noteq> None" "read_or0 4 UInt32GetLE buf (n + l + 4) \<noteq> None"
    "read_or0 1 byte0 buf (n + l + 4 + 4) \<noteq> None"
    by (rule read_or0_defined, use assms(1) n l o1 o2 in simp, unfold o1 o2, use n l in simp)+
  ultimately have "BRBloomFilterParse (Some buf) \<noteq> None"
    by (auto simp: BRBloomFilterParse_def v simp del: One_nat_def split: if_splits)
  moreover have "length (filter_bits f) = unat (filter_length f) \<and> filter_length f \<le> BLOOM_MAX_FILTER_LENGTH"
    if "BRBloomFilterParse (Some buf) = Some (Some f)" for f
    using that by (auto simp: BRBloomFilterParse_def v Let_def dest: copy_or_null_length
        split: if_splits Option.bind_splits option.splits)
  ultimately show ?thesis by blast
qed

theorem bloom_parse_memory_witness:
  "BRBloomFilterParse (Some [1, 0xff, 3]) \<noteq> None"
proof -
  have "fst (varint_at [1, 0xff, 3] 0) < 0x8000000000000000"
    by (simp add: varint_at_def BRVarInt_def)
  then show ?thesis using bloom_parse_memory [of "[1, 0xff, 3]"] by simp
qed

text \<open>A filter message whose declared length is just below \<open>2 ^ 64\<close> wraps the offset around, passes
  the bound check of the next field, and the parser reads in front of the buffer.\<close>

theorem bloom_parse_wraps:
  "BRBloomFilterParse (Some ([0xff, 0xf5, 0xff, 0xff, 0xff, 0xff, 0xff, 0xff, 0xff])) = None"
proof -
  let ?b = "[0xff, 0xf5, 0xff, 0xff, 0xff, 0xff, 0xff, 0xff, 0xff] :: bytes"
  have v: "varint_at ?b 0 = (0xfffffffffffffff5, 9)"
    by (simp add: varint_at_def BRVarInt_def UInt64GetLE_def)
  have "read_or0 4 UInt32GetLE ?b (0 + 9 + 0xfffffffffffffff5) = None"
    by (simp add: read_or0_def fits_def get_at_def slice_def)
  then show ?thesis by (simp add: BRBloomFilterParse_def v Let_def)
qed

end
