(* ===== verification/MerkleBlock.thy ===== *)
theory MerkleBlock
  imports Wire
begin

text \<open>
  \<^verbatim>\<open>BRMerkleBlock.c\<close> and \<^verbatim>\<open>BRMerkleBlock.h\<close>: block headers with a BIP37 partial Merkle tree, their wire
  format, the two recursive walks over the flag bits, the proof of work check and the difficulty rule.
  \<open>hashes\<close> and \<open>flags\<close> are pointers and may be \<open>NULL\<close>; the counts are separate fields, as in the code.
  The indices of the walks count objects in memory and are natural numbers.
\<close>

section \<open>Blocks\<close>

record BRMerkleBlock =
  blockHash :: uint256
  blk_version :: u32
  prevBlock :: uint256
  merkleRoot :: uint256
  blk_timestamp :: u32
  blk_target :: u32
  blk_nonce :: u32
  totalTx :: u32
  blk_hashes :: "uint256 list option"
  hashesCount :: u64
  blk_flags :: "bytes option"
  flagsLen :: u64
  blk_height :: u32

abbreviation BLOCK_DIFFICULTY_INTERVAL :: u32 where "BLOCK_DIFFICULTY_INTERVAL \<equiv> 2016"
abbreviation BLOCK_UNKNOWN_HEIGHT :: u32 where "BLOCK_UNKNOWN_HEIGHT \<equiv> 0x7fffffff"
abbreviation BLOCK_MAX_TIME_DRIFT :: u32 where "BLOCK_MAX_TIME_DRIFT \<equiv> 2 * 60 * 60"
abbreviation MAX_PROOF_OF_WORK :: u32 where "MAX_PROOF_OF_WORK \<equiv> 0x1d00ffff"
abbreviation TARGET_TIMESPAN :: int where "TARGET_TIMESPAN \<equiv> 14 * 24 * 60 * 60"
abbreviation SIZE_MAX :: nat where "SIZE_MAX \<equiv> 0xffffffffffffffff"

definition BR_MERKLE_BLOCK_NONE :: BRMerkleBlock where
  "BR_MERKLE_BLOCK_NONE = \<lparr>blockHash = 0, blk_version = 0, prevBlock = 0, merkleRoot = 0, blk_timestamp = 0,
     blk_target = 0, blk_nonce = 0, totalTx = 0, blk_hashes = None, hashesCount = 0, blk_flags = None,
     flagsLen = 0, blk_height = 0\<rparr>"

definition BRMerkleBlockNew :: BRMerkleBlock where
  "BRMerkleBlockNew = BR_MERKLE_BLOCK_NONE\<lparr>blk_height := BLOCK_UNKNOWN_HEIGHT\<rparr>"

definition BRMerkleBlockHash :: "BRMerkleBlock \<Rightarrow> nat" where
  "BRMerkleBlockHash b = unat (lane32 (blockHash b) 0)"

definition BRMerkleBlockEq :: "BRMerkleBlock \<Rightarrow> BRMerkleBlock \<Rightarrow> bool" where
  "BRMerkleBlockEq b c \<longleftrightarrow> UInt256Eq (blockHash b) (blockHash c)"

section \<open>Wire format\<close>

text \<open>An array of \<open>UInt256\<close> as bytes and back.\<close>

definition u256s :: "bytes \<Rightarrow> uint256 list" where
  "u256s b = map (\<lambda>i. UInt256Get (take 32 (drop (32 * i) b))) [0..<length b div 32]"

definition u256s_bytes :: "uint256 list \<Rightarrow> bytes" where
  "u256s_bytes hs = concat (map UInt256Set hs)"

text \<open>The part behind the header. \<open>hashesCount*sizeof(UInt256)\<close> wraps around.\<close>

definition merkle_parse_tree :: "bytes \<Rightarrow> BRMerkleBlock \<Rightarrow> BRMerkleBlock run" where
  "merkle_parse_tree b blk = do {
     total \<leftarrow> get_at 4 UInt32GetLE b 80;
     let off = 80 + 4;
     let (count, len) = varint_at b off;
     let off = off + len;
     let len = count * 32;
     hs \<leftarrow> copy_or_null b off len;
     let off = off + len;
     let (flen, len) = varint_at b off;
     let off = off + len;
     fs \<leftarrow> copy_or_null b off flen;
     Some (blk\<lparr>totalTx := total, hashesCount := count, blk_hashes := map_option u256s hs, flagsLen := flen,
       blk_flags := fs\<rparr>)
   }"

definition BRMerkleBlockParse :: "bytes option \<Rightarrow> BRMerkleBlock option run" where
  "BRMerkleBlockParse buf =
     (case buf of
        None \<Rightarrow> Some None
      | Some b \<Rightarrow>
          if \<not> 80 \<le> length b then Some None
          else do {
            version \<leftarrow> get_at 4 UInt32GetLE b 0;
            prev \<leftarrow> get_at 32 UInt256Get b 4;
            root \<leftarrow> get_at 32 UInt256Get b 36;
            timestamp \<leftarrow> get_at 4 UInt32GetLE b 68;
            target \<leftarrow> get_at 4 UInt32GetLE b 72;
            nonce \<leftarrow> get_at 4 UInt32GetLE b 76;
            let blk = BRMerkleBlockNew\<lparr>blk_version := version, prevBlock := prev, merkleRoot := root,
              blk_timestamp := timestamp, blk_target := target, blk_nonce := nonce\<rparr>;
            blk \<leftarrow> (if fits b 80 4 then merkle_parse_tree b blk else Some blk);
            Some (Some (blk\<lparr>blockHash := UInt256Get (BRSHA256_2 (take 80 b))\<rparr>))
          })"

text \<open>\<open>if (p) memcpy(&buf[off], p, n); off += n\<close>\<close>

definition emit_if :: "bytes option \<Rightarrow> u64 \<Rightarrow> bytes \<times> nat \<Rightarrow> (bytes \<times> nat) run" where
  "emit_if p n s =
     (case p of
        None \<Rightarrow> Some (fst s, (snd s + unat n) mod 2 ^ 64)
      | Some x \<Rightarrow> slice x 0 (unat n) \<bind> (\<lambda>x. emit (Raw x) s))"

definition merkle_header :: "BRMerkleBlock \<Rightarrow> chunk list" where
  "merkle_header b = [Raw (UInt32SetLE (blk_version b)), Raw (UInt256Set (prevBlock b)), Raw (UInt256Set (merkleRoot b)),
     Raw (UInt32SetLE (blk_timestamp b)), Raw (UInt32SetLE (blk_target b)), Raw (UInt32SetLE (blk_nonce b))]"

definition BRMerkleBlockSerialize :: "BRMerkleBlock \<Rightarrow> bytes option \<Rightarrow> (u64 \<times> bytes option) run" where
  "BRMerkleBlockSerialize b buf =
     (let len = 80 + (if totalTx b > 0 then 4 + of_nat (BRVarIntSize (hashesCount b)) + hashesCount b * 32 +
            of_nat (BRVarIntSize (flagsLen b)) + flagsLen b else 0)
      in case buf of
           None \<Rightarrow> Some (len, None)
         | Some o' \<Rightarrow>
             if len \<le> of_nat (length o') then do {
               s \<leftarrow> emit_all (merkle_header b) (o', 0);
               s \<leftarrow> (if totalTx b > 0 then do {
                   s \<leftarrow> emit_all [Raw (UInt32SetLE (totalTx b)), VarInt (hashesCount b)] s;
                   s \<leftarrow> emit_if (map_option u256s_bytes (blk_hashes b)) (hashesCount b * 32) s;
                   s \<leftarrow> emit (VarInt (flagsLen b)) s;
                   emit_if (blk_flags b) (flagsLen b) s
                 } else Some s);
               Some (len, Some (fst s))
             } else Some (0, Some o'))"

section \<open>Walking the partial Merkle tree\<close>

text \<open>The loop of \<open>_ceil_log2\<close>: the shift of a negative \<open>int\<close> is arithmetic and never reaches zero.\<close>

partial_function (option) ceil_log2_loop :: "int \<Rightarrow> int \<Rightarrow> int option" where
  "ceil_log2_loop x r = (let x = x div 2 in if x \<noteq> 0 then ceil_log2_loop x (r + 1) else Some r)"

definition ceil_log2 :: "int \<Rightarrow> int run" where
  "ceil_log2 x = ceil_log2_loop x (if x AND (x - 1) \<noteq> 0 then 1 else 0)"

definition merkle_flag :: "BRMerkleBlock \<Rightarrow> nat \<Rightarrow> u8 run" where
  "merkle_flag b flagIdx = do {
     fs \<leftarrow> blk_flags b;
     f \<leftarrow> rd fs (flagIdx div 8);
     Some (f AND push_bit (flagIdx mod 8) 1)
   }"

text \<open>\<open>! flag || depth == _ceil_log2(block->totalTx)\<close>, the second operand only when needed. \<open>totalTx\<close>
  is converted to \<open>int\<close>.\<close>

definition merkle_leaf :: "BRMerkleBlock \<Rightarrow> u8 \<Rightarrow> int \<Rightarrow> bool run" where
  "merkle_leaf b flag depth =
     (if flag = 0 then Some True else map_option (\<lambda>l. depth = l) (ceil_log2 (sint (totalTx b))))"

definition merkle_hash :: "BRMerkleBlock \<Rightarrow> nat \<Rightarrow> uint256 run" where
  "merkle_hash b hashIdx = (case blk_hashes b of None \<Rightarrow> None | Some hs \<Rightarrow> rd hs hashIdx)"

definition merkle_more :: "BRMerkleBlock \<Rightarrow> nat \<Rightarrow> nat \<Rightarrow> bool" where
  "merkle_more b hashIdx flagIdx \<longleftrightarrow> flagIdx div 8 < unat (flagsLen b) \<and> hashIdx < unat (hashesCount b)"

text \<open>The state is the caller's array (\<open>None\<close> for \<open>NULL\<close>), \<open>idx\<close>, \<open>hashIdx\<close> and \<open>flagIdx\<close>.\<close>

type_synonym tx_state = "uint256 list option \<times> nat \<times> nat \<times> nat"

definition merkle_take_leaf :: "BRMerkleBlock \<Rightarrow> nat \<Rightarrow> u8 \<Rightarrow> tx_state \<Rightarrow> tx_state run" where
  "merkle_take_leaf b cap flag st =
     (case st of (out, idx, hashIdx, flagIdx) \<Rightarrow>
        if flag \<noteq> 0 \<and> idx < cap then do {
          out \<leftarrow> (case out of
              None \<Rightarrow> Some None
            | Some o' \<Rightarrow> do {
                h \<leftarrow> merkle_hash b hashIdx;
                if idx < length o' then Some (Some (o'[idx := h])) else None });
          Some (out, idx + 1, hashIdx + 1, flagIdx)
        } else Some (out, idx, hashIdx + 1, flagIdx))"

partial_function (option) BRMerkleBlockTxHashesR :: "BRMerkleBlock \<Rightarrow> nat \<Rightarrow> int \<Rightarrow> tx_state \<Rightarrow> tx_state option" where
  "BRMerkleBlockTxHashesR b cap depth st =
     (case st of (out, idx, hashIdx, flagIdx) \<Rightarrow>
        if merkle_more b hashIdx flagIdx then do {
          flag \<leftarrow> merkle_flag b flagIdx;
          leaf \<leftarrow> merkle_leaf b flag depth;
          if leaf then merkle_take_leaf b cap flag (out, idx, hashIdx, flagIdx + 1)
          else do {
            st \<leftarrow> BRMerkleBlockTxHashesR b cap (depth + 1) (out, idx, hashIdx, flagIdx + 1);
            BRMerkleBlockTxHashesR b cap (depth + 1) st
          }
        } else Some st)"

definition BRMerkleBlockTxHashes :: "BRMerkleBlock \<Rightarrow> uint256 list option \<Rightarrow> (nat \<times> uint256 list option) run" where
  "BRMerkleBlockTxHashes b out = do {
     (out, idx, _, _) \<leftarrow> BRMerkleBlockTxHashesR b (case out of None \<Rightarrow> SIZE_MAX | Some o' \<Rightarrow> length o') 0 (out, 0, 0, 0);
     Some (idx, out)
   }"

definition BRMerkleBlockSetTxHashes :: "BRMerkleBlock \<Rightarrow> uint256 list \<Rightarrow> bytes \<Rightarrow> BRMerkleBlock" where
  "BRMerkleBlockSetTxHashes b hs fs =
     b\<lparr>blk_hashes := (if length hs > 0 then Some hs else None), blk_flags := (if length fs > 0 then Some fs else None)\<rparr>"

text \<open>\<open>BRSHA256_2(&md, hashes, sizeof(hashes))\<close>\<close>

definition merkle_node :: "uint256 \<Rightarrow> uint256 \<Rightarrow> uint256" where
  "merkle_node l r = UInt256Get (BRSHA256_2 (UInt256Set l @ UInt256Set r))"

partial_function (option) BRMerkleBlockRootR :: "BRMerkleBlock \<Rightarrow> int \<Rightarrow> nat \<times> nat \<Rightarrow> (uint256 \<times> nat \<times> nat) option" where
  "BRMerkleBlockRootR b depth st =
     (case st of (hashIdx, flagIdx) \<Rightarrow>
        if merkle_more b hashIdx flagIdx then do {
          flag \<leftarrow> merkle_flag b flagIdx;
          leaf \<leftarrow> merkle_leaf b flag depth;
          if \<not> leaf then do {
            (left, st) \<leftarrow> BRMerkleBlockRootR b (depth + 1) (hashIdx, flagIdx + 1);
            (right, st) \<leftarrow> BRMerkleBlockRootR b (depth + 1) st;
            (if \<not> UInt256IsZero left \<and> \<not> UInt256Eq left right
             then Some (merkle_node left (if UInt256IsZero right then left else right), st)
             else Some (0, SIZE_MAX, snd st))
          } else do {
            h \<leftarrow> merkle_hash b hashIdx;
            Some (h, hashIdx + 1, flagIdx + 1)
          }
        } else Some (0, hashIdx, flagIdx))"

section \<open>Proof of work\<close>

text \<open>The target as 32 little endian bytes. With a size above 31 the four bytes of the mantissa are
  stored behind the end of \<open>t\<close>.\<close>

definition pow_target :: "u32 \<Rightarrow> bytes run" where
  "pow_target bits =
     (let size = unat (drop_bit 24 bits); target = bits AND 0x00ffffff; t = replicate 32 0
      in if size > 3 then map_option fst (emit (Raw (UInt32SetLE target)) (t, size - 3))
         else Some (put t 0 (UInt32SetLE (drop_bit ((3 - size) * 8) target))))"

definition pow_target_bad :: "u32 \<Rightarrow> bool" where
  "pow_target_bad bits =
     (let maxsize = drop_bit 24 MAX_PROOF_OF_WORK; maxtarget = MAX_PROOF_OF_WORK AND 0x00ffffff;
          size = drop_bit 24 bits; target = bits AND 0x00ffffff
      in target = 0 \<or> target AND 0x00800000 \<noteq> 0 \<or> size > maxsize \<or> size = maxsize \<and> target > maxtarget)"

text \<open>The comparison loop, from byte \<open>n - 1\<close> down to byte 0.\<close>

fun pow_check :: "nat \<Rightarrow> uint256 \<Rightarrow> bytes \<Rightarrow> bool" where
  "pow_check 0 h t = True"
| "pow_check (Suc i) h t =
     (if lane8 h i < t ! i then True else if lane8 h i > t ! i then False else pow_check i h t)"

definition BRMerkleBlockIsValid :: "BRMerkleBlock \<Rightarrow> u32 \<Rightarrow> bool run" where
  "BRMerkleBlockIsValid b currentTime = do {
     (root, _, _) \<leftarrow> BRMerkleBlockRootR b 0 (0, 0);
     let r = True;
     let r = (if totalTx b > 0 \<and> \<not> UInt256Eq root (merkleRoot b) then False else r);
     let r = (if blk_timestamp b > currentTime + BLOCK_MAX_TIME_DRIFT then False else r);
     let r = (if pow_target_bad (blk_target b) then False else r);
     t \<leftarrow> pow_target (blk_target b);
     Some (r \<and> pow_check 32 (blockHash b) t)
   }"

function contains_tx_loop :: "BRMerkleBlock \<Rightarrow> uint256 \<Rightarrow> nat \<Rightarrow> bool run" where
  "contains_tx_loop b txHash i =
     (if i < unat (hashesCount b) then do {
        h \<leftarrow> merkle_hash b i;
        if UInt256Eq h txHash then Some True else contains_tx_loop b txHash (i + 1)
      } else Some False)"
  by pat_completeness auto
termination
  by (relation "measure (\<lambda>(b, txHash, i). unat (hashesCount b) - i)") auto

declare contains_tx_loop.simps [simp del]

definition BRMerkleBlockContainsTxHash :: "BRMerkleBlock \<Rightarrow> uint256 \<Rightarrow> bool run" where
  "BRMerkleBlockContainsTxHash b txHash = contains_tx_loop b txHash 0"

section \<open>Difficulty\<close>

lemma drop_bit_8_less: "t > 0x7fffff \<Longrightarrow> unat (drop_bit 8 t :: u64) < unat t"
  by (simp add: drop_bit_eq_div unat_div word_less_nat_alt)

text \<open>\<open>while (size < 1 || target > 0x007fffff) target >>= 8, size++\<close>\<close>

function normalize_target :: "u64 \<Rightarrow> int \<Rightarrow> u64 \<times> int" where
  "normalize_target t sz =
     (if sz < 1 \<or> t > 0x7fffff then normalize_target (drop_bit 8 t) (sz + 1) else (t, sz))"
  by pat_completeness auto
termination
proof (relation "measure (\<lambda>(t, sz). unat t + nat (1 - sz))", goal_cases)
  case 1
  then show ?case by simp
next
  case (2 t sz)
  have "unat (drop_bit 8 t) \<le> unat t" by (simp add: drop_bit_eq_div unat_div)
  then show ?case using 2 drop_bit_8_less [of t] by auto
qed

declare normalize_target.simps [simp del]

definition difficulty_timespan :: "u32 \<Rightarrow> u32 \<Rightarrow> int" where
  "difficulty_timespan timestamp transitionTime =
     (let timespan = signed_take_bit 31 (uint timestamp - uint transitionTime);
          timespan = (if timespan < TARGET_TIMESPAN div 4 then TARGET_TIMESPAN div 4 else timespan)
      in if timespan > TARGET_TIMESPAN * 4 then TARGET_TIMESPAN * 4 else timespan)"

definition difficulty_target :: "u32 \<Rightarrow> int \<Rightarrow> u32" where
  "difficulty_target bits timespan =
     (let maxsize = drop_bit 24 MAX_PROOF_OF_WORK; maxtarget = MAX_PROOF_OF_WORK AND 0x00ffffff;
          size = uint (drop_bit 24 bits);
          target = ucast (bits AND 0x00ffffff) * of_int timespan :: u64;
          target = target div of_int (TARGET_TIMESPAN div 256);
          (target, size) = normalize_target target (size - 1);
          (target, size) =
            (if of_int size > maxsize \<or> of_int size = maxsize \<and> target > ucast maxtarget
             then (ucast maxtarget, uint maxsize) else (target, size))
      in ucast target OR push_bit 24 (of_int size))"

definition BRMerkleBlockVerifyDifficulty :: "bool \<Rightarrow> BRMerkleBlock \<Rightarrow> BRMerkleBlock option \<Rightarrow> u32 \<Rightarrow> bool" where
  "BRMerkleBlockVerifyDifficulty testnet b previous transitionTime =
     (case previous of
        None \<Rightarrow> False
      | Some p \<Rightarrow>
          let r = True;
              r = (if \<not> UInt256Eq (prevBlock b) (blockHash p) \<or> blk_height b \<noteq> blk_height p + 1 then False else r);
              r = (if r \<and> blk_height b mod BLOCK_DIFFICULTY_INTERVAL = 0 \<and> transitionTime = 0 then False else r)
          in if testnet then r
             else if r \<and> blk_height b mod BLOCK_DIFFICULTY_INTERVAL = 0
             then blk_target b = difficulty_target (blk_target p) (difficulty_timespan (blk_timestamp p) transitionTime)
             else r \<and> blk_target b = blk_target p)"

end
