(* ===== verification/MerkleSpec.thy ===== *)
theory MerkleSpec
  imports MerkleBlock SetRefine
begin

text \<open>
  Properties of the Merkle block model: the height of the tree, both walks return on every block whose
  arrays have the declared sizes, the walks of an encoded BIP37 partial tree compute its root and its
  matched transactions, the wire format round trips, and the proof of work and difficulty checks agree
  with the arithmetic of compact targets.
\<close>

interpretation merkle_block_set: hash_contract BRMerkleBlockHash BRMerkleBlockEq
  by unfold_locales (auto simp: BRMerkleBlockHash_def BRMerkleBlockEq_def)

section \<open>The height of the tree\<close>

declare ceil_log2_loop.simps [simp del]

lemma ceil_log2_loop_returns:
  "0 \<le> x \<Longrightarrow> \<exists>k. (\<forall>r. ceil_log2_loop x r = Some (r + int k)) \<and> (0 < x \<longrightarrow> 2 ^ k \<le> x \<and> x < 2 ^ Suc k)"
proof (induction "nat x" arbitrary: x rule: less_induct)
  case less
  show ?case
  proof (cases "x div 2 = 0")
    case True
    then have "x < 2" using less.prems by auto
    then show ?thesis using True less.prems by (intro exI [of _ 0]) (simp add: ceil_log2_loop.simps)
  next
    case False
    then have x: "2 \<le> x" using less.prems by auto
    have "nat (x div 2) < nat x" "0 \<le> x div 2" using x by auto
    then obtain k where k: "\<And>r. ceil_log2_loop (x div 2) r = Some (r + int k)" "0 < x div 2 \<longrightarrow> 2 ^ k \<le> x div 2 \<and> x div 2 < 2 ^ Suc k"
      using less.hyps [of "x div 2"] by blast
    have "ceil_log2_loop x r = Some (r + int (Suc k))" for r
      using False k(1) [of "r + 1"] by (subst ceil_log2_loop.simps) (simp add: Let_def)
    moreover have "2 ^ Suc k \<le> x \<and> x < 2 ^ Suc (Suc k)" using k(2) x by auto
    ultimately show ?thesis by blast
  qed
qed

text \<open>A negative count never leaves the loop.\<close>

lemma ceil_log2_loop_Some: "ceil_log2_loop x r = Some y \<Longrightarrow> \<not> x < 0"
proof -
  assume r: "ceil_log2_loop x r = Some y"
  have "\<not> x < 0" if "\<And>x r y. f x r = Some y \<Longrightarrow> \<not> x < 0"
    "(let x = x div 2 in if x \<noteq> 0 then f x (r + 1) else Some r) = Some y" for f and x r y :: int
    using that(1) [of "x div 2" "r + 1" y] that(2) by (auto simp: Let_def split: if_splits)
  note step = this
  have "(case (x, r) of (x, r) \<Rightarrow> (\<lambda>y. \<not> x < 0)) y"
    by (rule ceil_log2_loop.raw_induct [of "\<lambda>x r y. \<not> x < 0"], erule step, assumption) (use r in simp_all)
  then show "\<not> x < 0" by simp
qed

lemma ceil_log2_negative: "n < 0 \<Longrightarrow> ceil_log2 n = None"
  using ceil_log2_loop_Some by (fastforce simp: ceil_log2_def)

lemma power_of_2_test:
  assumes "2 ^ k \<le> x" "x < 2 ^ Suc k"
  shows "x AND (x - 1) = (0 :: int) \<longleftrightarrow> x = 2 ^ k"
proof
  assume z: "x AND (x - 1) = 0"
  show "x = 2 ^ k"
  proof (rule ccontr)
    assume "x \<noteq> 2 ^ k"
    then have "2 ^ k \<le> x - 1" using assms by simp
    then have "x div 2 ^ k = 1" "(x - 1) div 2 ^ k = 1"
      using assms int_div_pos_eq [of x "2 ^ k" 1 "x - 2 ^ k"] int_div_pos_eq [of "x - 1" "2 ^ k" 1 "x - 1 - 2 ^ k"] by simp_all
    then have "bit x k" "bit (x - 1) k" by (simp_all add: bit_iff_odd)
    then have "bit (x AND (x - 1)) k" by (simp add: bit_and_iff)
    then show False by (simp add: z)
  qed
next
  assume "x = 2 ^ k"
  then show "x AND (x - 1) = 0"
    by (simp add: mask_eq_exp_minus_1 [symmetric] take_bit_eq_mask [symmetric])
qed

text \<open>The tree over \<open>n\<close> transactions has the least height that holds them.\<close>

lemma ceil_log2_spec:
  assumes "0 < n"
  shows "\<exists>k. ceil_log2 n = Some (int k) \<and> n \<le> 2 ^ k \<and> (\<forall>j < k. 2 ^ j < n)"
proof -
  obtain k where k: "\<And>r. ceil_log2_loop n r = Some (r + int k)" "2 ^ k \<le> n" "n < 2 ^ Suc k"
    using ceil_log2_loop_returns [of n] assms by auto
  have p: "(2::int) ^ j \<le> 2 ^ k" if "j \<le> k" for j using that by (intro power_increasing) auto
  show ?thesis
  proof (cases "n = 2 ^ k")
    case True
    then show ?thesis using k power_of_2_test [OF k(2,3)] by (intro exI [of _ k]) (simp add: ceil_log2_def)
  next
    case False
    then have "ceil_log2 n = Some (int (Suc k))" using k power_of_2_test [OF k(2,3)] by (simp add: ceil_log2_def)
    moreover have "2 ^ j < n" if "j < Suc k" for j using p [of j] k(2) False that by linarith
    ultimately show ?thesis using k(3) by (intro exI [of _ "Suc k"]) auto
  qed
qed

lemma ceil_log2_0: "ceil_log2 0 = Some 0"
  by (simp add: ceil_log2_def ceil_log2_loop.simps)

section \<open>Both walks return\<close>

declare BRMerkleBlockRootR.simps [simp del] BRMerkleBlockTxHashesR.simps [simp del]

text \<open>No hashes or no flags are declared (as in a header without transactions, whose arrays are \<open>NULL\<close>), or both arrays are there
  with the declared number of entries, and the transaction count is an \<open>int\<close>.\<close>

definition merkle_wf :: "BRMerkleBlock \<Rightarrow> bool" where
  "merkle_wf b \<longleftrightarrow> hashesCount b = 0 \<or> flagsLen b = 0 \<or>
     (case blk_hashes b of None \<Rightarrow> False | Some hs \<Rightarrow> length hs = unat (hashesCount b)) \<and>
     (case blk_flags b of None \<Rightarrow> False | Some fs \<Rightarrow> length fs = unat (flagsLen b)) \<and> totalTx b < 0x80000000"

lemma merkle_wf_more:
  assumes "merkle_wf b" "merkle_more b h f"
  obtains hs fs where "blk_hashes b = Some hs" "length hs = unat (hashesCount b)" "blk_flags b = Some fs"
    "length fs = unat (flagsLen b)" "totalTx b < 0x80000000"
proof -
  have "hashesCount b \<noteq> 0" "flagsLen b \<noteq> 0" using assms(2) by (auto simp: merkle_more_def)
  then show ?thesis using assms(1) that by (auto simp: merkle_wf_def split: option.splits)
qed

lemma sint_totalTx: "t < 0x80000000 \<Longrightarrow> sint (t :: u32) = int (unat t)"
proof -
  assume "t < 0x80000000"
  then have "uint t < 2 ^ 31" by (simp add: word_less_def)
  moreover have "- (2 ^ 31) \<le> uint t" by (rule order.trans [OF _ uint_ge_0]) simp
  ultimately have "signed_take_bit 31 (uint t) = uint t" by (intro signed_take_bit_int_eq_self)
  then show "sint t = int (unat t)" by (simp add: sint_uint)
qed

lemma sint_totalTx_negative:
  assumes "0x80000000 \<le> (t :: u32)"
  shows "sint t < 0"
proof -
  have "unat t < 2 ^ 32" using unsigned_less [of t] by simp
  then have "unat t div 2 ^ 31 = 1" using assms by (simp add: word_le_nat_alt)
  then have "bit (unat t) 31" by (simp add: bit_iff_odd)
  then have "bit t 31" by (simp add: bit_unsigned_iff)
  then show ?thesis using bit_last_iff [of t] by simp
qed

lemma merkle_reads:
  assumes "merkle_wf b" "merkle_more b h f"
  shows "\<exists>flag. merkle_flag b f = Some flag" "\<exists>u. merkle_hash b h = Some u"
proof -
  obtain hs fs where "blk_hashes b = Some hs" "length hs = unat (hashesCount b)" "blk_flags b = Some fs"
    "length fs = unat (flagsLen b)" by (rule merkle_wf_more [OF assms])
  then show "\<exists>flag. merkle_flag b f = Some flag" "\<exists>u. merkle_hash b h = Some u"
    using assms(2) by (auto simp: merkle_more_def merkle_flag_def merkle_hash_def rd_def)
qed

lemma ceil_log2_returns: "0 \<le> n \<Longrightarrow> \<exists>k. ceil_log2 n = Some k"
  using ceil_log2_spec [of n] ceil_log2_0 by (cases "n = 0") auto

lemma merkle_leaf_returns: "merkle_wf b \<Longrightarrow> merkle_more b h f \<Longrightarrow> \<exists>leaf. merkle_leaf b flag d = Some leaf"
  using ceil_log2_returns [of "sint (totalTx b)"] by (auto elim!: merkle_wf_more simp: merkle_leaf_def sint_totalTx)

lemma merkle_more_bound: "merkle_more b h f \<Longrightarrow> f < 8 * unat (flagsLen b)"
  by (auto simp: merkle_more_def)

lemma root_returns:
  assumes "merkle_wf b"
  shows "\<exists>md h' f'. BRMerkleBlockRootR b d (h, f) = Some (md, h', f') \<and> f \<le> f'"
proof (induction "8 * unat (flagsLen b) - f" arbitrary: d h f rule: less_induct)
  case less
  show ?case
  proof (cases "merkle_more b h f")
    case False
    then show ?thesis by (simp add: BRMerkleBlockRootR.simps)
  next
    case True
    obtain flag u leaf where r: "merkle_flag b f = Some flag" "merkle_hash b h = Some u" "merkle_leaf b flag d = Some leaf"
      using merkle_reads [OF assms True] merkle_leaf_returns [OF assms True] by blast
    have f: "8 * unat (flagsLen b) - f' < 8 * unat (flagsLen b) - f" if "f + 1 \<le> f'" for f'
      using merkle_more_bound [OF True] that by simp
    obtain l h1 f1 where left: "BRMerkleBlockRootR b (d + 1) (h, f + 1) = Some (l, h1, f1)" "f + 1 \<le> f1"
      using less.hyps [OF f [OF order.refl]] by blast
    obtain ri h2 f2 where right: "BRMerkleBlockRootR b (d + 1) (h1, f1) = Some (ri, h2, f2)" "f1 \<le> f2"
      using less.hyps [OF f [OF left(2)]] by blast
    show ?thesis
      using True r left right by (subst BRMerkleBlockRootR.simps) auto
  qed
qed

lemma take_leaf_returns:
  assumes "merkle_wf b" "merkle_more b h f" "\<And>xs. out = Some xs \<Longrightarrow> length xs = cap" "idx \<le> cap"
  shows "\<exists>out' idx' h'. merkle_take_leaf b cap flag (out, idx, h, f') = Some (out', idx', h', f') \<and>
    idx \<le> idx' \<and> idx' \<le> cap \<and> map_option length out' = map_option length out"
  using merkle_reads(2) [OF assms(1,2)] assms(3,4)
  by (cases out) (auto simp: merkle_take_leaf_def)

lemma tx_returns:
  assumes "merkle_wf b"
  shows "(\<And>xs. out = Some xs \<Longrightarrow> length xs = cap) \<Longrightarrow> idx \<le> cap \<Longrightarrow>
    \<exists>out' idx' h' f'. BRMerkleBlockTxHashesR b cap d (out, idx, h, f) = Some (out', idx', h', f') \<and> f \<le> f' \<and>
      idx \<le> idx' \<and> idx' \<le> cap \<and> map_option length out' = map_option length out"
proof (induction "8 * unat (flagsLen b) - f" arbitrary: d out idx h f rule: less_induct)
  case less
  show ?case
  proof (cases "merkle_more b h f")
    case False
    then show ?thesis using less.prems(2) by (simp add: BRMerkleBlockTxHashesR.simps)
  next
    case True
    obtain flag leaf where r: "merkle_flag b f = Some flag" "merkle_leaf b flag d = Some leaf"
      using merkle_reads [OF assms True] merkle_leaf_returns [OF assms True] by blast
    have f: "8 * unat (flagsLen b) - f' < 8 * unat (flagsLen b) - f" if "f + 1 \<le> f'" for f'
      using merkle_more_bound [OF True] that by simp
    show ?thesis
    proof (cases leaf)
      case leaf: True
      then show ?thesis
        using True r take_leaf_returns [OF assms True less.prems, where flag = flag and f' = "f + 1"]
        by (subst BRMerkleBlockTxHashesR.simps) fastforce
    next
      case False
      obtain o1 i1 h1 f1 where left: "BRMerkleBlockTxHashesR b cap (d + 1) (out, idx, h, f + 1) = Some (o1, i1, h1, f1)"
        "f + 1 \<le> f1" "idx \<le> i1" "i1 \<le> cap" "map_option length o1 = map_option length out"
        using less.hyps [OF f [OF order.refl] less.prems] by blast
      then have "\<And>xs. o1 = Some xs \<Longrightarrow> length xs = cap" using less.prems(1) by (cases out) auto
      then obtain o2 i2 h2 f2 where right: "BRMerkleBlockTxHashesR b cap (d + 1) (o1, i1, h1, f1) = Some (o2, i2, h2, f2)"
        "f1 \<le> f2" "i1 \<le> i2" "i2 \<le> cap" "map_option length o2 = map_option length o1"
        using less.hyps [OF f [OF left(2)] _ left(4)] by blast
      show ?thesis using True r False left right by (subst BRMerkleBlockTxHashesR.simps) auto
    qed
  qed
qed



text \<open>A transaction count of \<open>2 ^ 31\<close> or more is a negative \<open>int\<close>: the height loop, and with it
  the walk of any block whose first flag bit is set, never returns; a block whose declared arrays are
  missing is undefined behaviour as soon as it is walked.\<close>

theorem merkle_walk_diverges:
  assumes "0x80000000 \<le> totalTx b" "merkle_more b 0 0" "blk_flags b = Some fs" "fs \<noteq> []" "bit (fs ! 0) 0"
  shows "BRMerkleBlockRootR b 0 (0, 0) = None \<and> BRMerkleBlockIsValid b now = None \<and>
    BRMerkleBlockRootR (b\<lparr>blk_flags := None\<rparr>) 0 (0, 0) = None"
proof -
  have "ceil_log2 (sint (totalTx b)) = None"
    by (rule ceil_log2_negative [OF sint_totalTx_negative [OF assms(1)]])
  moreover have "fs ! 0 AND 1 \<noteq> 0"
    using assms(5) by (simp add: bit_0 and_one_eq odd_iff_mod_2_eq_one)
  ultimately have "BRMerkleBlockRootR b 0 (0, 0) = None"
    using assms(2-4) by (subst BRMerkleBlockRootR.simps) (simp add: merkle_flag_def rd_def merkle_leaf_def)
  moreover have "BRMerkleBlockRootR (b\<lparr>blk_flags := None\<rparr>) 0 (0, 0) = None"
    using assms(2) by (subst BRMerkleBlockRootR.simps) (simp add: merkle_more_def merkle_flag_def)
  ultimately show ?thesis by (simp add: BRMerkleBlockIsValid_def)
qed

theorem merkle_walk_diverges_witness:
  "BRMerkleBlockIsValid (BRMerkleBlockNew\<lparr>totalTx := 0x80000000, blk_hashes := Some [5], hashesCount := 1,
     blk_flags := Some [1], flagsLen := 1\<rparr>) 0 = None"
  using merkle_walk_diverges [of "BRMerkleBlockNew\<lparr>totalTx := 0x80000000, blk_hashes := Some [5], hashesCount := 1,
     blk_flags := Some [1], flagsLen := 1\<rparr>" "[1]" 0] by (simp add: merkle_more_def)

section \<open>Partial Merkle trees\<close>

text \<open>A BIP37 partial tree: a subtree cut off at its hash (or an unmatched transaction), a matched
  transaction, an inner node, and an inner node without a right branch, whose hash is taken twice. The
  encoding is the depth-first sequence of flag bits and of stored hashes.\<close>

datatype ptree = Cut uint256 | Match uint256 | Node ptree ptree | Dup ptree

fun p_root :: "ptree \<Rightarrow> uint256" where
  "p_root (Cut h) = h"
| "p_root (Match h) = h"
| "p_root (Node l r) = merkle_node (p_root l) (p_root r)"
| "p_root (Dup l) = merkle_node (p_root l) (p_root l)"

fun p_bits :: "ptree \<Rightarrow> bool list" where
  "p_bits (Cut h) = [False]"
| "p_bits (Match h) = [True]"
| "p_bits (Node l r) = True # p_bits l @ p_bits r"
| "p_bits (Dup l) = True # p_bits l"

fun p_hashes :: "ptree \<Rightarrow> uint256 list" where
  "p_hashes (Cut h) = [h]"
| "p_hashes (Match h) = [h]"
| "p_hashes (Node l r) = p_hashes l @ p_hashes r"
| "p_hashes (Dup l) = p_hashes l"

fun p_matches :: "ptree \<Rightarrow> uint256 list" where
  "p_matches (Cut h) = []"
| "p_matches (Match h) = [h]"
| "p_matches (Node l r) = p_matches l @ p_matches r"
| "p_matches (Dup l) = p_matches l"

text \<open>Matched transactions sit at the full height, inner nodes above it; a missing right branch only occurs
  on the right edge of the tree; no hash is zero and no node has two equal branches.\<close>

fun p_ok :: "int \<Rightarrow> int \<Rightarrow> bool \<Rightarrow> ptree \<Rightarrow> bool" where
  "p_ok D d edge (Cut h) \<longleftrightarrow> h \<noteq> 0"
| "p_ok D d edge (Match h) \<longleftrightarrow> d = D \<and> h \<noteq> 0"
| "p_ok D d edge (Node l r) \<longleftrightarrow> d \<noteq> D \<and> p_ok D (d + 1) False l \<and> p_ok D (d + 1) edge r \<and> p_root l \<noteq> p_root r \<and>
     p_root l \<noteq> 0 \<and> p_root r \<noteq> 0"
| "p_ok D d edge (Dup l) \<longleftrightarrow> d \<noteq> D \<and> edge \<and> p_ok D (d + 1) True l \<and> p_root l \<noteq> 0"

text \<open>The bytes hold the bits, least significant first; whatever pads the last byte is free.\<close>

definition holds_bits :: "bytes \<Rightarrow> bool list \<Rightarrow> bool" where
  "holds_bits fs bits \<longleftrightarrow> length bits \<le> 8 * length fs \<and> (\<forall>i < length bits. bit (fs ! (i div 8)) (i mod 8) = bits ! i)"

definition encodes :: "BRMerkleBlock \<Rightarrow> bool list \<Rightarrow> uint256 list \<Rightarrow> int \<Rightarrow> bool" where
  "encodes b bits hs D \<longleftrightarrow> blk_hashes b = Some hs \<and> length hs = unat (hashesCount b) \<and>
     (\<exists>fs. blk_flags b = Some fs \<and> length fs = unat (flagsLen b) \<and> holds_bits fs bits) \<and>
     ceil_log2 (sint (totalTx b)) = Some D"

lemma and_single_bit: "(f AND 2 ^ k = 0) \<longleftrightarrow> \<not> bit f k" for f :: u8
proof
  assume e: "f AND 2 ^ k = 0"
  show "\<not> bit f k"
  proof
    assume "bit f k"
    then have "bit (f AND 2 ^ k) k"
      using bit_imp_le_length [of f k] by (simp add: bit_and_iff bit_exp_iff)
    then show False by (simp add: e)
  qed
next
  assume "\<not> bit f k"
  then show "f AND 2 ^ k = 0"
    by (intro bit_word_eqI) (auto simp: bit_and_iff bit_exp_iff)
qed

lemma encodes_more:
  assumes "encodes b bits hs D" "i < length bits" "h < length hs"
  shows "merkle_more b h i" "\<exists>flag. merkle_flag b i = Some flag \<and> (flag = 0 \<longleftrightarrow> \<not> bits ! i)"
    "merkle_hash b h = Some (hs ! h)"
proof -
  obtain fs where fs: "blk_flags b = Some fs" "length fs = unat (flagsLen b)" "holds_bits fs bits"
    using assms(1) by (auto simp: encodes_def)
  then have i: "i div 8 < length fs" "bit (fs ! (i div 8)) (i mod 8) = bits ! i"
    using assms(2) by (auto simp: holds_bits_def)
  show "merkle_more b h i" using assms(1,3) fs(2) i by (simp add: merkle_more_def encodes_def)
  show "\<exists>flag. merkle_flag b i = Some flag \<and> (flag = 0 \<longleftrightarrow> \<not> bits ! i)"
    using fs(1) i by (simp add: merkle_flag_def rd_def and_single_bit)
  show "merkle_hash b h = Some (hs ! h)" using assms(1,3) by (simp add: merkle_hash_def encodes_def rd_def)
qed

lemma encodes_end: "encodes b bits hs D \<Longrightarrow> h = length hs \<Longrightarrow> \<not> merkle_more b h i"
  by (simp add: merkle_more_def encodes_def)

lemma encodes_leaf: "encodes b bits hs D \<Longrightarrow> merkle_leaf b flag d = Some (flag = 0 \<or> d = D)"
  by (simp add: encodes_def merkle_leaf_def)

lemma p_bits_nonempty: "0 < length (p_bits t)" and p_hashes_nonempty: "0 < length (p_hashes t)"
  by (induction t) auto

text \<open>The head of a walk that stands at the encoding of a subtree.\<close>

lemma encodes_head:
  assumes "encodes b (bpre @ p_bits t @ bpost) (hpre @ p_hashes t @ hpost) D"
  obtains flag where "merkle_more b (length hpre) (length bpre)" "merkle_flag b (length bpre) = Some flag"
    "flag = 0 \<longleftrightarrow> \<not> hd (p_bits t)" "merkle_hash b (length hpre) = Some (hd (p_hashes t))"
    "merkle_leaf b flag d = Some (\<not> hd (p_bits t) \<or> d = D)"
proof -
  have "(bpre @ p_bits t @ bpost) ! length bpre = hd (p_bits t)" "(hpre @ p_hashes t @ hpost) ! length hpre = hd (p_hashes t)"
    using p_bits_nonempty [of t] p_hashes_nonempty [of t] by (simp_all add: nth_append hd_conv_nth)
  then show thesis
    using encodes_more [OF assms, of "length bpre" "length hpre"] p_bits_nonempty [of t] p_hashes_nonempty [of t]
      encodes_leaf [OF assms] that by auto
qed

lemma root_walk:
  assumes "encodes b (bpre @ p_bits t @ bpost) (hpre @ p_hashes t @ hpost) D" "p_ok D d edge t" "edge \<Longrightarrow> hpost = []"
  shows "BRMerkleBlockRootR b d (length hpre, length bpre) =
    Some (p_root t, length hpre + length (p_hashes t), length bpre + length (p_bits t))"
  using assms
proof (induction t arbitrary: d edge bpre bpost hpre hpost)
  case (Cut h)
  then show ?case
    by (subst BRMerkleBlockRootR.simps) (rule encodes_head [OF Cut.prems(1), of d], simp)
next
  case (Match h)
  then show ?case
    by (subst BRMerkleBlockRootR.simps) (rule encodes_head [OF Match.prems(1), of d], simp)
next
  case (Node l r)
  have "BRMerkleBlockRootR b (d + 1) (length hpre, length (bpre @ [True])) =
      Some (p_root l, length hpre + length (p_hashes l), length (bpre @ [True]) + length (p_bits l))"
    using Node.prems by (intro Node.IH(1) [of _ "p_bits r @ bpost" _ "p_hashes r @ hpost" "d + 1" False]) simp_all
  moreover have "BRMerkleBlockRootR b (d + 1) (length (hpre @ p_hashes l), length (bpre @ [True] @ p_bits l)) =
      Some (p_root r, length (hpre @ p_hashes l) + length (p_hashes r), length (bpre @ [True] @ p_bits l) + length (p_bits r))"
    using Node.prems by (intro Node.IH(2) [of _ bpost _ hpost "d + 1" edge]) simp_all
  ultimately show ?case
    using Node.prems(2)
    by (subst BRMerkleBlockRootR.simps) (rule encodes_head [OF Node.prems(1), of d], simp)
next
  case (Dup l)
  have "BRMerkleBlockRootR b (d + 1) (length hpre, length (bpre @ [True])) =
      Some (p_root l, length hpre + length (p_hashes l), length (bpre @ [True]) + length (p_bits l))"
    using Dup.prems by (intro Dup.IH [of _ bpost _ hpost "d + 1" True]) simp_all
  moreover have "\<not> merkle_more b (length hpre + length (p_hashes l)) i" for i
    using encodes_end [OF Dup.prems(1)] Dup.prems(2,3) by simp
  then have "BRMerkleBlockRootR b (d + 1) (length hpre + length (p_hashes l), i) =
      Some (0, length hpre + length (p_hashes l), i)" for i
    by (simp add: BRMerkleBlockRootR.simps)
  ultimately show ?case
    using Dup.prems(2)
    by (subst BRMerkleBlockRootR.simps) (rule encodes_head [OF Dup.prems(1), of d], simp)
qed

lemma put_put_Suc: "idx + length xs + length ys \<le> length out \<Longrightarrow>
    put (put out idx xs) (idx + length xs) ys = put out idx (xs @ ys)"
  by (simp add: put_def ac_simps)

text \<open>The array after the matches have been stored at \<open>idx\<close>.\<close>

lemma tx_walk:
  assumes "encodes b (bpre @ p_bits t @ bpost) (hpre @ p_hashes t @ hpost) D" "p_ok D d edge t" "edge \<Longrightarrow> hpost = []"
    "idx + length (p_matches t) \<le> cap" "\<And>xs. out = Some xs \<Longrightarrow> length xs = cap"
  shows "BRMerkleBlockTxHashesR b cap d (out, idx, length hpre, length bpre) =
    Some (map_option (\<lambda>xs. put xs idx (p_matches t)) out, idx + length (p_matches t),
      length hpre + length (p_hashes t), length bpre + length (p_bits t))"
  using assms
proof (induction t arbitrary: d edge bpre bpost hpre hpost idx out)
  case (Cut h)
  then show ?case
    by (subst BRMerkleBlockTxHashesR.simps, cases out)
      (rule encodes_head [OF Cut.prems(1), of d], simp add: merkle_take_leaf_def)+
next
  case (Match h)
  have "xs[idx := h] = put xs idx [h]" if "idx < length xs" for xs
    using that by (simp add: put_def upd_conv_take_nth_drop)
  then show ?case
    using Match.prems(2-)
    by (subst BRMerkleBlockTxHashesR.simps, cases out)
      (rule encodes_head [OF Match.prems(1), of d], simp add: merkle_take_leaf_def)+
next
  case (Node l r)
  let ?o = "map_option (\<lambda>xs. put xs idx (p_matches l)) out"
  have "BRMerkleBlockTxHashesR b cap (d + 1) (out, idx, length hpre, length (bpre @ [True])) =
      Some (?o, idx + length (p_matches l), length hpre + length (p_hashes l), length (bpre @ [True]) + length (p_bits l))"
    using Node.prems by (intro Node.IH(1) [of _ "p_bits r @ bpost" _ "p_hashes r @ hpost" "d + 1" False]) simp_all
  moreover have "BRMerkleBlockTxHashesR b cap (d + 1) (?o, idx + length (p_matches l), length (hpre @ p_hashes l),
        length (bpre @ [True] @ p_bits l)) =
      Some (map_option (\<lambda>xs. put xs (idx + length (p_matches l)) (p_matches r)) ?o,
        idx + length (p_matches l) + length (p_matches r), length (hpre @ p_hashes l) + length (p_hashes r),
        length (bpre @ [True] @ p_bits l) + length (p_bits r))"
    using Node.prems by (intro Node.IH(2) [of _ bpost _ hpost "d + 1" edge]) auto
  moreover have "map_option (\<lambda>xs. put xs (idx + length (p_matches l)) (p_matches r)) ?o =
      map_option (\<lambda>xs. put xs idx (p_matches l @ p_matches r)) out"
    using Node.prems(4,5) by (cases out) (simp_all add: put_put_Suc)
  ultimately show ?case
    using Node.prems(2)
    by (subst BRMerkleBlockTxHashesR.simps) (rule encodes_head [OF Node.prems(1), of d], simp)
next
  case (Dup l)
  have "BRMerkleBlockTxHashesR b cap (d + 1) (out, idx, length hpre, length (bpre @ [True])) =
      Some (map_option (\<lambda>xs. put xs idx (p_matches l)) out, idx + length (p_matches l),
        length hpre + length (p_hashes l), length (bpre @ [True]) + length (p_bits l))"
    using Dup.prems by (intro Dup.IH [of _ bpost _ hpost "d + 1" True]) simp_all
  moreover have "\<not> merkle_more b (length hpre + length (p_hashes l)) i" for i
    using encodes_end [OF Dup.prems(1)] Dup.prems(2,3) by simp
  then have "BRMerkleBlockTxHashesR b cap (d + 1) (o1, j, length hpre + length (p_hashes l), i) =
      Some (o1, j, length hpre + length (p_hashes l), i)" for o1 i j
    by (simp add: BRMerkleBlockTxHashesR.simps)
  ultimately show ?case
    using Dup.prems(2)
    by (subst BRMerkleBlockTxHashesR.simps) (rule encodes_head [OF Dup.prems(1), of d], simp)
qed

text \<open>C18: on a block that encodes a partial Merkle tree, the root walk consumes every hash and flag
  and returns the root of the tree, and the transaction walk reports the number of matched
  transactions and writes exactly them, in order, to the front of an array with room for them.\<close>

theorem merkle_tree_walks:
  assumes "encodes b (p_bits t) (p_hashes t) D" "p_ok D 0 True t" "length (p_matches t) \<le> length out"
    "length (p_matches t) \<le> SIZE_MAX"
  shows "BRMerkleBlockRootR b 0 (0, 0) = Some (p_root t, length (p_hashes t), length (p_bits t)) \<and>
    BRMerkleBlockTxHashes b None = Some (length (p_matches t), None) \<and>
    BRMerkleBlockTxHashes b (Some out) =
      Some (length (p_matches t), Some (p_matches t @ drop (length (p_matches t)) out))"
proof -
  have "encodes b ([] @ p_bits t @ []) ([] @ p_hashes t @ []) D" using assms(1) by simp
  note e = this assms(2) refl
  have r: "BRMerkleBlockRootR b 0 (0, 0) = Some (p_root t, length (p_hashes t), length (p_bits t))"
    using root_walk [OF e] by simp
  have "BRMerkleBlockTxHashesR b cap 0 (None, 0, 0, 0) =
      Some (None, length (p_matches t), length (p_hashes t), length (p_bits t))" if "length (p_matches t) \<le> cap" for cap
    using tx_walk [OF e, of 0 cap None] that by simp
  from this [OF assms(4)] have n: "BRMerkleBlockTxHashes b None = Some (length (p_matches t), None)"
    by (simp add: BRMerkleBlockTxHashes_def)
  have len: "length xs = length out" if "Some out = Some xs" for xs using that by simp
  have "BRMerkleBlockTxHashesR b (length out) 0 (Some out, 0, 0, 0) =
      Some (Some (put out 0 (p_matches t)), length (p_matches t), length (p_hashes t), length (p_bits t))"
    using tx_walk [OF e, where idx = 0 and cap = "length out" and out = "Some out", OF _ len] assms(3)
    by (simp only: add_0_left append_Nil list.size(3) option.map)
  then have "BRMerkleBlockTxHashes b (Some out) =
      Some (length (p_matches t), Some (p_matches t @ drop (length (p_matches t)) out))"
    by (simp add: BRMerkleBlockTxHashes_def put_0)
  then show ?thesis using r n by blast
qed

theorem merkle_tree_walks_witness:
  "BRMerkleBlockTxHashes (BRMerkleBlockNew\<lparr>totalTx := 2, blk_hashes := Some [5, 6], hashesCount := 2,
     blk_flags := Some [0x05], flagsLen := 1\<rparr>) (Some [0, 0]) = Some (1, Some [6, 0])"
proof -
  let ?b = "BRMerkleBlockNew\<lparr>totalTx := 2, blk_hashes := Some [5, 6], hashesCount := 2,
     blk_flags := Some [0x05], flagsLen := 1\<rparr>"
  let ?t = "Node (Cut 5) (Match 6)"
  have "ceil_log2 2 = Some 1"
    unfolding ceil_log2_def by (subst ceil_log2_loop.simps, simp, subst ceil_log2_loop.simps, simp)
  moreover have "holds_bits [5] [True, False, True]"
    unfolding holds_bits_def by (simp add: All_less_Suc bit_iff_odd)
  ultimately have "encodes ?b (p_bits ?t) (p_hashes ?t) 1"
    by (simp add: encodes_def)
  then show ?thesis using merkle_tree_walks [of ?b ?t 1 "[0, 0]"] by simp
qed

section \<open>Proof of work\<close>

text \<open>Little endian bytes as a number.\<close>

abbreviation bytes_val :: "bytes \<Rightarrow> nat" where
  "bytes_val \<equiv> horner_sum unat 256"

lemma unat_drop_bit: "unat (drop_bit k w) = unat w div 2 ^ k" for w :: "'a::len word"
  by (rule trans [OF unat_drop_bit_eq]) (simp add: drop_bit_eq_div)

lemma unat_lane8: "unat (lane8 w i) = unat w div 256 ^ i mod 256" for w :: "'a::len word"
proof -
  have "unat (lane8 w i) = unat (drop_bit (8 * i) w) mod 256"
    by (simp add: lane8_def unsigned_ucast_eq take_bit_eq_mod)
  then show ?thesis by (simp add: unat_drop_bit power_mult)
qed

lemma bytes_val_lanes: "bytes_val (map (lane8 w) [0..<n]) = unat w mod 256 ^ n" for w :: "'a::len word"
proof (induction n)
  case 0
  then show ?case by simp
next
  case (Suc n)
  have "unat w mod 256 ^ Suc n = 256 ^ n * (unat w div 256 ^ n mod 256) + unat w mod 256 ^ n"
    by (metis mod_mult2_eq power_Suc2)
  then show ?case using Suc.IH by (simp add: horner_sum_append unat_lane8)
qed

lemma bytes_val_bound: "bytes_val bs < 256 ^ length bs"
proof (induction bs)
  case Nil
  then show ?case by simp
next
  case (Cons b bs)
  have "unat b < 256" using unsigned_less [of b] by simp
  then show ?case using Cons.IH by simp
qed

lemma bytes_val_LE32: "bytes_val (UInt32SetLE w) = unat w"
proof -
  have "UInt32SetLE w = map (lane8 w) [0..<4]" by (simp add: UInt32SetLE_eq le_bytes_def lane8_def)
  moreover have "unat w < 2 ^ LENGTH(32)" by (rule unsigned_less)
  then have "unat w mod 256 ^ 4 = unat w" by simp
  ultimately show ?thesis by (simp only: bytes_val_lanes)
qed

lemma bytes_val_zeros [simp]: "bytes_val (replicate n 0) = 0"
  by (induction n) simp_all

text \<open>The comparison loop compares the numbers.\<close>

lemma pow_check_iff:
  "n \<le> length t \<Longrightarrow> pow_check n h t \<longleftrightarrow> bytes_val (map (lane8 h) [0..<n]) \<le> bytes_val (take n t)"
proof (induction n)
  case 0
  then show ?case by simp
next
  case (Suc n)
  let ?x = "bytes_val (map (lane8 h) [0..<n])" and ?y = "bytes_val (take n t)" and ?p = "256 ^ n :: nat"
  have b: "?x < ?p" "?y < ?p"
    using bytes_val_bound [of "map (lane8 h) [0..<n]"] bytes_val_bound [of "take n t"] Suc.prems by simp_all
  have v: "bytes_val (map (lane8 h) [0..<Suc n]) = ?x + ?p * unat (lane8 h n)"
    "bytes_val (take (Suc n) t) = ?y + ?p * unat (t ! n)"
    using Suc.prems by (simp_all add: horner_sum_append take_Suc_conv_app_nth)
  have lt: "u + ?p * i < v + ?p * j" if "u < ?p" "i < j" for u v i j
  proof -
    have "?p * (i + 1) \<le> ?p * j" using that by (intro mult_le_mono) auto
    then show ?thesis using that by simp
  qed
  consider "lane8 h n < t ! n" | "lane8 h n > t ! n" | "lane8 h n = t ! n" by fastforce
  then show ?case
  proof cases
    case 1
    then show ?thesis unfolding v using lt [OF b(1), of "unat (lane8 h n)" "unat (t ! n)" ?y] by (simp add: word_less_nat_alt)
  next
    case 2
    then show ?thesis unfolding v using lt [OF b(2), of "unat (t ! n)" "unat (lane8 h n)" ?x] by (simp add: word_less_nat_alt)
  next
    case 3
    then show ?thesis unfolding v using Suc by simp
  qed
qed

text \<open>The number a compact target stands for.\<close>

definition compact_value :: "u32 \<Rightarrow> nat" where
  "compact_value bits =
     (let size = unat (drop_bit 24 bits); mantissa = unat (bits AND 0x00ffffff)
      in if size > 3 then mantissa * 256 ^ (size - 3) else mantissa div 256 ^ (3 - size))"

lemma pow_target_spec:
  assumes "unat (drop_bit 24 bits) \<le> 31"
  shows "\<exists>t. pow_target bits = Some t \<and> length t = 32 \<and> bytes_val t = compact_value bits"
proof (cases "unat (drop_bit 24 bits) > 3")
  case True
  let ?s = "unat (drop_bit 24 bits)" and ?m = "UInt32SetLE (bits AND 0x00ffffff)"
  have "pow_target bits = Some (put (replicate 32 0) (?s - 3) ?m)"
    using True assms by (simp add: pow_target_def Let_def emit.simps)
  moreover have "put (replicate 32 0) (?s - 3) ?m = replicate (?s - 3) 0 @ ?m @ replicate (31 - ?s) 0"
    using True assms by (simp add: put_def)
  ultimately show ?thesis
    using True assms by (simp add: horner_sum_append bytes_val_LE32 compact_value_def Let_def mult.commute)
next
  case False
  let ?m = "drop_bit ((3 - unat (drop_bit 24 bits)) * 8) (bits AND 0x00ffffff)"
  have "pow_target bits = Some (UInt32SetLE ?m @ replicate 28 0)"
    using False by (simp add: pow_target_def Let_def put_def)
  moreover have "unat (drop_bit ((3 - s) * 8) m) = unat m div 256 ^ (3 - s)" for s and m :: u32
    by (simp add: unat_drop_bit mult.commute [of _ 8] power_mult)
  then have "unat ?m = compact_value bits"
    using False unfolding compact_value_def Let_def by (simp only: if_False)
  ultimately show ?thesis by (simp add: horner_sum_append bytes_val_LE32)
qed

text \<open>C19: for a block that declares no hashes or no flags, as a header does, or whose arrays are as declared and whose
  transaction count is below \<open>2 ^ 31\<close>, the walk for the root returns. If the size byte of its target is at most 31, the block
  is valid exactly when its Merkle root is the computed one (a block with transactions), its timestamp is
  at most two hours (modulo \<open>2 ^ 32\<close>) ahead, its target is in range and its hash as a number is at most the number the compact
  target stands for. With a larger size byte the check stores behind the end of a local array.\<close>

theorem merkle_valid_iff:
  assumes "merkle_wf b"
  shows "\<exists>root h f. BRMerkleBlockRootR b 0 (0, 0) = Some (root, h, f) \<and>
    BRMerkleBlockIsValid b now = (if unat (drop_bit 24 (blk_target b)) \<le> 31
      then Some ((totalTx b > 0 \<longrightarrow> root = merkleRoot b) \<and>
        blk_timestamp b \<le> now + BLOCK_MAX_TIME_DRIFT \<and> \<not> pow_target_bad (blk_target b) \<and>
        unat (blockHash b) \<le> compact_value (blk_target b))
      else None)"
proof -
  obtain root h f where r: "BRMerkleBlockRootR b 0 (0, 0) = Some (root, h, f)"
    using root_returns [OF assms(1), of 0 0 0] by auto
  show ?thesis
  proof (cases "unat (drop_bit 24 (blk_target b)) \<le> 31")
    case False
    then have "pow_target (blk_target b) = None" by (simp add: pow_target_def Let_def emit.simps)
    then show ?thesis using r False by (simp add: BRMerkleBlockIsValid_def)
  next
    case True
    obtain t where t: "pow_target (blk_target b) = Some t" "length t = 32" "bytes_val t = compact_value (blk_target b)"
      using pow_target_spec [OF True] by auto
    have "unat (blockHash b) < 2 ^ LENGTH(256)" by (rule unsigned_less)
    then have "unat (blockHash b) mod 256 ^ 32 = unat (blockHash b)" by simp
    then have c: "pow_check 32 (blockHash b) t \<longleftrightarrow> unat (blockHash b) \<le> compact_value (blk_target b)"
      using pow_check_iff [of 32 t "blockHash b"] t(2,3) unfolding bytes_val_lanes by simp
    have "BRMerkleBlockIsValid b now = Some ((totalTx b > 0 \<longrightarrow> root = merkleRoot b) \<and>
        blk_timestamp b \<le> now + BLOCK_MAX_TIME_DRIFT \<and> \<not> pow_target_bad (blk_target b) \<and>
        unat (blockHash b) \<le> compact_value (blk_target b))"
      unfolding c [symmetric] BRMerkleBlockIsValid_def Let_def r t(1) by (auto simp: not_less)
    then show ?thesis using r True by simp
  qed
qed

theorem merkle_valid_iff_witness:
  "BRMerkleBlockIsValid (BRMerkleBlockNew\<lparr>blk_target := 0x1d00ffff, blockHash := 7\<rparr>) 0 = Some True"
proof -
  let ?b = "BRMerkleBlockNew\<lparr>blk_target := 0x1d00ffff, blockHash := 7\<rparr>"
  have "merkle_wf ?b" by (simp add: merkle_wf_def BRMerkleBlockNew_def BR_MERKLE_BLOCK_NONE_def)
  then show ?thesis
    using merkle_valid_iff [of ?b 0]
    by (simp add: BRMerkleBlockNew_def BR_MERKLE_BLOCK_NONE_def pow_target_bad_def compact_value_def Let_def)
qed

text \<open>A target whose size byte is 32 or more makes the check store four bytes behind the end of its
  local 32 byte target, although the range check has already failed: the call is undefined behaviour
  whatever the rest of the block is.\<close>

theorem merkle_valid_overflow:
  assumes "32 \<le> unat (drop_bit 24 (blk_target b))"
  shows "BRMerkleBlockIsValid b now = None \<and> pow_target_bad (blk_target b)"
proof -
  have "pow_target (blk_target b) = None" using assms by (simp add: pow_target_def Let_def emit.simps)
  moreover have "drop_bit 24 MAX_PROOF_OF_WORK < drop_bit 24 (blk_target b)"
    using assms by (simp add: word_less_nat_alt)
  ultimately show ?thesis
    by (cases "BRMerkleBlockRootR b 0 (0, 0)") (auto simp: BRMerkleBlockIsValid_def pow_target_bad_def Let_def)
qed

theorem merkle_valid_overflow_witness:
  "BRMerkleBlockIsValid (BRMerkleBlockNew\<lparr>blk_target := 0xff000001\<rparr>) 0 = None"
  using merkle_valid_overflow [of "BRMerkleBlockNew\<lparr>blk_target := 0xff000001\<rparr>" 0] by simp

section \<open>Difficulty\<close>

lemma normalize_target_spec:
  "\<exists>k t'. normalize_target t s = (t', s + int k) \<and> unat t' = unat t div 256 ^ k \<and>
    1 \<le> s + int k \<and> unat t div 256 ^ k \<le> 0x7fffff \<and> (\<forall>j < k. s + int j < 1 \<or> unat t div 256 ^ j > 0x7fffff)"
proof (induction t s rule: normalize_target.induct)
  case (1 t s)
  show ?case
  proof (cases "s < 1 \<or> t > 0x7fffff")
    case False
    then show ?thesis
      by (intro exI [of _ 0] exI [of _ t]) (simp add: normalize_target.simps word_less_nat_alt not_less)
  next
    case True
    obtain k t' where k: "normalize_target (drop_bit 8 t) (s + 1) = (t', s + 1 + int k)"
      "unat t' = unat (drop_bit 8 t) div 256 ^ k" "1 \<le> s + 1 + int k" "unat (drop_bit 8 t) div 256 ^ k \<le> 0x7fffff"
      "\<And>j. j < k \<Longrightarrow> s + 1 + int j < 1 \<or> unat (drop_bit 8 t) div 256 ^ j > 0x7fffff"
      using 1 [OF True] by blast
    have d: "unat (drop_bit 8 t) div 256 ^ j = unat t div 256 ^ Suc j" for j
      by (simp add: unat_drop_bit div_mult2_eq)
    have "s + int j < 1 \<or> unat t div 256 ^ j > 0x7fffff" if "j < Suc k" for j
      using that k(5) [of "j - 1"] True by (cases j) (auto simp: d word_less_nat_alt)
    moreover have "normalize_target t s = (t', s + int (Suc k))"
      using k(1) True by (subst normalize_target.simps) simp
    ultimately show ?thesis using k(2-4) unfolding d by (intro exI [of _ "Suc k"] exI [of _ t']) auto
  qed
qed

lemma compact_parts:
  assumes "unat (t :: u32) < 2 ^ 24" "unat (s :: u32) < 2 ^ 8"
  shows "unat ((t OR push_bit 24 s) AND 0x00ffffff) = unat t" "unat (drop_bit 24 (t OR push_bit 24 s)) = unat s"
proof -
  have t: "\<not> bit t k" if "24 \<le> k" for k
  proof -
    have "drop_bit 24 t = 0" using assms(1) by (simp add: unat_eq_iff unat_drop_bit del: drop_bit_numeral_bit0)
    then have "\<not> bit (drop_bit 24 t) (k - 24)" by simp
    then show ?thesis using that by (simp add: bit_drop_bit_eq)
  qed
  have s: "\<not> bit s k" if "8 \<le> k" for k
  proof -
    have "drop_bit 8 s = 0" using assms(2) by (simp add: unat_eq_iff unat_drop_bit)
    then have "\<not> bit (drop_bit 8 s) (k - 8)" by simp
    then show ?thesis using that by (simp add: bit_drop_bit_eq)
  qed
  have m: "(0x00ffffff :: u32) = mask 24" by (simp add: mask_eq_exp_minus_1)
  have "(t OR push_bit 24 s) AND mask 24 = t"
    by (rule bit_word_eqI) (use t not_less in \<open>auto simp: bit_and_iff bit_or_iff bit_push_bit_iff bit_mask_iff\<close>)
  then show "unat ((t OR push_bit 24 s) AND 0x00ffffff) = unat t" unfolding m by simp
  have "drop_bit 24 (t OR push_bit 24 s) = s"
    using t s by (intro bit_word_eqI) (auto simp: bit_drop_bit_eq bit_or_iff bit_push_bit_iff not_less [symmetric])
  then show "unat (drop_bit 24 (t OR push_bit 24 s)) = unat s" by simp
qed

lemma timespan_clamped:
  "TARGET_TIMESPAN div 4 \<le> difficulty_timespan a b" "difficulty_timespan a b \<le> TARGET_TIMESPAN * 4"
  by (simp_all add: difficulty_timespan_def Let_def)

lemma unat_of_int_nat: "0 \<le> i \<Longrightarrow> unat (of_int i :: 'a::len word) = nat i mod 2 ^ LENGTH('a)"
  by (simp add: unsigned_of_int nat_take_bit_eq take_bit_eq_mod nat_mod_distrib nat_power_eq)

text \<open>C36: the retargeting arithmetic never wraps around. The new mantissa and size are those of the
  previous mantissa times the clamped time span, divided by 4725 (the target time span over 256) and
  shifted right by the least number of bytes that leaves a positive size and at most 23 bits of
  mantissa, replaced by the limit \<open>MAX_PROOF_OF_WORK\<close> when they exceed it.\<close>

theorem difficulty_target_arithmetic:
  assumes "TARGET_TIMESPAN div 4 \<le> ts" "ts \<le> TARGET_TIMESPAN * 4"
  shows "\<exists>k. let q = unat (bits AND 0x00ffffff) * nat ts div 4725; M = q div 256 ^ k;
      S = uint (drop_bit 24 bits) - 1 + int k; r = difficulty_target bits ts
    in 1 \<le> S \<and> M \<le> 0x7fffff \<and> (\<forall>j < k. uint (drop_bit 24 bits) - 1 + int j < 1 \<or> q div 256 ^ j > 0x7fffff) \<and>
      (if S > 0x1d \<or> S = 0x1d \<and> M > 0xffff then r = MAX_PROOF_OF_WORK
       else unat (r AND 0x00ffffff) = M \<and> uint (drop_bit 24 r) = S)"
proof -
  define m where "m = unat (bits AND 0x00ffffff)"
  define s where "s = uint (drop_bit 24 bits)"
  define q where "q = m * nat ts div 4725"
  have "bits AND 0x00ffffff \<le> 0x00ffffff" by (rule word_and_le1)
  then have m: "m \<le> 0xffffff" by (simp add: m_def word_le_nat_alt)
  have ts: "0 \<le> ts" "nat ts \<le> 4838400" using assms by simp_all
  have "m * nat ts \<le> 0xffffff * 4838400" using m ts(2) by (intro mult_le_mono)
  then have mt: "m * nat ts < 2 ^ 47" by simp
  have "unat bits < 2 ^ LENGTH(32)" by (rule unsigned_less)
  then have s: "0 \<le> s" "s < 256"
    by (simp_all add: s_def uint_nat unat_drop_bit less_mult_imp_div_less del: drop_bit_numeral_bit0)
  let ?t = "ucast (bits AND 0x00ffffff) * of_int ts div of_int (TARGET_TIMESPAN div 256) :: u64"
  have "unat (ucast (bits AND 0x00ffffff) :: u64) = m"
    using m by (simp add: m_def unsigned_ucast_eq take_bit_nat_eq_self)
  moreover have "unat (of_int ts :: u64) = nat ts" using ts by (simp add: unat_of_int_nat)
  ultimately have "unat (ucast (bits AND 0x00ffffff) * of_int ts :: u64) = m * nat ts"
    using mt by (simp add: unat_word_ariths)
  then have t: "unat ?t = q" by (simp add: q_def unat_div)
  obtain k t' where k: "normalize_target ?t (s - 1) = (t', s - 1 + int k)" "unat t' = q div 256 ^ k"
    "1 \<le> s - 1 + int k" "q div 256 ^ k \<le> 0x7fffff" "\<And>j. j < k \<Longrightarrow> s - 1 + int j < 1 \<or> q div 256 ^ j > 0x7fffff"
    using normalize_target_spec [of ?t "s - 1"] unfolding t by blast
  define S M where "S = s - 1 + int k" and "M = q div 256 ^ k"
  have "q < 2 ^ 47" using mt div_le_dividend [of "m * nat ts" 4725] unfolding q_def by linarith
  then have "k \<le> 7" using k(5) [of 7] s(1) by (cases "7 < k") auto
  then have S: "1 \<le> S" "S < 2 ^ 32" using k(3) s(2) by (simp_all add: S_def)
  have cmp: "unat (of_int S :: u32) = nat S" using S by (simp add: unat_of_int_nat)
  have lim: "of_int S > drop_bit 24 MAX_PROOF_OF_WORK \<longleftrightarrow> S > 0x1d"
    "of_int S = drop_bit 24 MAX_PROOF_OF_WORK \<longleftrightarrow> S = 0x1d"
    using cmp S by (auto simp: word_less_nat_alt unat_eq_iff)
  have tl: "t' > ucast (MAX_PROOF_OF_WORK AND 0x00ffffff) \<longleftrightarrow> M > 0xffff"
    using k(2) by (simp add: word_less_nat_alt M_def)
  have r: "difficulty_target bits ts = (if S > 0x1d \<or> S = 0x1d \<and> M > 0xffff then MAX_PROOF_OF_WORK
      else ucast t' OR push_bit 24 (of_int S))"
    using k(1) unfolding difficulty_target_def Let_def s_def [symmetric] S_def [symmetric]
    by (simp add: lim [simplified] tl [simplified])
  have um: "unat (ucast t' :: u32) = M" using k(2,4) by (simp add: M_def unsigned_ucast_eq take_bit_nat_eq_self)
  have parts: "unat (r AND 0x00ffffff) = M \<and> uint (drop_bit 24 r) = S"
    if "S \<le> 0x1d" "r = ucast t' OR push_bit 24 (of_int S)" for r :: u32
  proof -
    have "unat (ucast t' :: u32) < 2 ^ 24" "unat (of_int S :: u32) < 2 ^ 8"
      unfolding um cmp using k(4) that(1) S(1) by (simp_all add: M_def)
    from compact_parts [OF this] show ?thesis
      using S(1) unfolding that(2) um cmp uint_nat by (intro conjI) simp_all
  qed
  have "if S > 0x1d \<or> S = 0x1d \<and> M > 0xffff then difficulty_target bits ts = MAX_PROOF_OF_WORK
      else unat (difficulty_target bits ts AND 0x00ffffff) = M \<and> uint (drop_bit 24 (difficulty_target bits ts)) = S"
  proof (cases "S > 0x1d \<or> S = 0x1d \<and> M > 0xffff")
    case True
    then show ?thesis unfolding r by (simp only: if_True)
  next
    case False
    then show ?thesis unfolding r using parts by (simp only: if_False not_le) simp
  qed
  then have "1 \<le> S \<and> M \<le> 0x7fffff \<and> (\<forall>j < k. s - 1 + int j < 1 \<or> q div 256 ^ j > 0x7fffff) \<and>
      (if S > 0x1d \<or> S = 0x1d \<and> M > 0xffff then difficulty_target bits ts = MAX_PROOF_OF_WORK
       else unat (difficulty_target bits ts AND 0x00ffffff) = M \<and> uint (drop_bit 24 (difficulty_target bits ts)) = S)"
    using k(4,5) S(1) unfolding M_def by blast
  then show ?thesis
    unfolding Let_def S_def M_def q_def m_def s_def by (rule exI)
qed

theorem difficulty_target_arithmetic_witness:
  "\<exists>k. let q = unat (0x1b0404cb AND 0x00ffffff :: u32) * nat TARGET_TIMESPAN div 4725; M = q div 256 ^ k;
      S = uint (drop_bit 24 0x1b0404cb :: u32) - 1 + int k; r = difficulty_target 0x1b0404cb TARGET_TIMESPAN
    in 1 \<le> S \<and> M \<le> 0x7fffff \<and>
      (\<forall>j < k. uint (drop_bit 24 0x1b0404cb :: u32) - 1 + int j < 1 \<or> q div 256 ^ j > 0x7fffff) \<and>
      (if S > 0x1d \<or> S = 0x1d \<and> M > 0xffff then r = MAX_PROOF_OF_WORK
       else unat (r AND 0x00ffffff) = M \<and> uint (drop_bit 24 r) = S)"
  by (rule difficulty_target_arithmetic) simp_all

text \<open>Each block of a list verified against its predecessor, with the transition times that were used.\<close>

fun difficulty_chain :: "BRMerkleBlock \<Rightarrow> (BRMerkleBlock \<times> u32) list \<Rightarrow> bool" where
  "difficulty_chain p [] \<longleftrightarrow> True"
| "difficulty_chain p ((b, t) # bs) \<longleftrightarrow> BRMerkleBlockVerifyDifficulty False b (Some p) t \<and> difficulty_chain b bs"

lemma verify_difficulty_iff:
  "BRMerkleBlockVerifyDifficulty False b (Some p) t \<longleftrightarrow>
     prevBlock b = blockHash p \<and> blk_height b = blk_height p + 1 \<and>
     (if blk_height b mod BLOCK_DIFFICULTY_INTERVAL = 0
      then t \<noteq> 0 \<and> blk_target b = difficulty_target (blk_target p) (difficulty_timespan (blk_timestamp p) t)
      else blk_target b = blk_target p)"
  by (auto simp: BRMerkleBlockVerifyDifficulty_def Let_def)



section \<open>Wire format\<close>

lemma length_u256s_bytes [simp]: "length (u256s_bytes hs) = 32 * length hs"
  by (induction hs) (simp_all add: u256s_bytes_def)

lemma u256s_roundtrip: "u256s (u256s_bytes hs) = hs"
proof (induction hs)
  case Nil
  then show ?case by (simp add: u256s_def u256s_bytes_def)
next
  case (Cons h hs)
  have "u256s (UInt256Set h @ u256s_bytes hs) = UInt256Get (UInt256Set h) # u256s (u256s_bytes hs)"
    unfolding u256s_def by (simp add: upt_conv_Cons map_Suc_upt [symmetric] del: upt_Suc)
  then show ?case using Cons.IH by (simp add: u256s_bytes_def)
qed

text \<open>The bytes of a block with and without a tree.\<close>

definition merkle_tree_chunks :: "BRMerkleBlock \<Rightarrow> chunk list" where
  "merkle_tree_chunks b =
     (if totalTx b = 0 then []
      else [Raw (UInt32SetLE (totalTx b)), VarInt (hashesCount b), Raw (u256s_bytes (the (blk_hashes b))),
        VarInt (flagsLen b), Raw (the (blk_flags b))])"

definition merkle_image :: "BRMerkleBlock \<Rightarrow> bytes" where
  "merkle_image b = images (merkle_header b) @ images (merkle_tree_chunks b)"

text \<open>Blocks the wire format can carry.\<close>

definition merkle_wire_wf :: "BRMerkleBlock \<Rightarrow> bool" where
  "merkle_wire_wf b \<longleftrightarrow>
     (if totalTx b = 0 then hashesCount b = 0 \<and> flagsLen b = 0 \<and> blk_hashes b = None \<and> blk_flags b = None
      else \<exists>hs fs. blk_hashes b = Some hs \<and> length hs = unat (hashesCount b) \<and> unat (hashesCount b) < 2 ^ 32 \<and>
        blk_flags b = Some fs \<and> length fs = unat (flagsLen b) \<and> unat (flagsLen b) < 2 ^ 32)"

lemma length_merkle_header [simp]: "length (images (merkle_header b)) = 80"
  by (simp add: merkle_header_def)

lemma varint_length_le: "length (varint_bytes v) \<le> 9"
  by (simp add: varint_length)

lemma merkle_serialize_eq:
  assumes "merkle_wire_wf b"
  shows "BRMerkleBlockSerialize b None = Some (of_nat (length (merkle_image b)), None)"
    "length (merkle_image b) < 2 ^ 63"
    "length (merkle_image b) \<le> length buf \<Longrightarrow> length buf < 2 ^ 63 \<Longrightarrow>
       BRMerkleBlockSerialize b (Some buf) = Some (of_nat (length (merkle_image b)), Some (put buf 0 (merkle_image b)))"
    "length buf < length (merkle_image b) \<Longrightarrow> BRMerkleBlockSerialize b (Some buf) = Some (0, Some buf)"
proof -
  let ?n = "length (merkle_image b)"
  let ?len = "80 + (if totalTx b > 0 then 4 + of_nat (BRVarIntSize (hashesCount b)) + hashesCount b * 32 +
            of_nat (BRVarIntSize (flagsLen b)) + flagsLen b else 0)"
  show small: "?n < 2 ^ 63"
    using assms varint_length_le [of "hashesCount b"] varint_length_le [of "flagsLen b"]
    by (auto simp: merkle_image_def merkle_tree_chunks_def merkle_wire_wf_def)
  have len: "?len = of_nat ?n"
    using assms by (auto simp: merkle_image_def merkle_tree_chunks_def merkle_wire_wf_def varint_size_eq word_gt_0 ac_simps)
  show "BRMerkleBlockSerialize b None = Some (of_nat ?n, None)"
    unfolding BRMerkleBlockSerialize_def len Let_def by simp
  show "BRMerkleBlockSerialize b (Some buf) = Some (0, Some buf)" if "length buf < ?n"
  proof -
    have "\<not> (of_nat ?n :: u64) \<le> of_nat (length buf)"
      using that small by (simp add: word_le_nat_alt unat_of_nat)
    then show ?thesis unfolding BRMerkleBlockSerialize_def len Let_def by simp
  qed
  show "BRMerkleBlockSerialize b (Some buf) = Some (of_nat ?n, Some (put buf 0 (merkle_image b)))"
    if fits: "?n \<le> length buf" "length buf < 2 ^ 63"
  proof -
    have le: "(of_nat ?n :: u64) \<le> of_nat (length buf)" using fits by (simp add: word_le_nat_alt unat_of_nat)
    have h: "emit_all (merkle_header b) (buf, 0) = Some (put buf 0 (images (merkle_header b)), 80)"
      using emit_all_fits [of 0 "merkle_header b" buf] fits by (simp add: merkle_image_def)
    show ?thesis
    proof (cases "totalTx b = 0")
      case True
      then show ?thesis using le h
        unfolding BRMerkleBlockSerialize_def len Let_def by (simp add: merkle_image_def merkle_tree_chunks_def)
    next
      case False
      then obtain hs fs where w: "blk_hashes b = Some hs" "length hs = unat (hashesCount b)" "unat (hashesCount b) < 2 ^ 32"
        "blk_flags b = Some fs" "length fs = unat (flagsLen b)"
        using assms by (auto simp: merkle_wire_wf_def)
      let ?b = "put buf 0 (images (merkle_header b))"
      have c: "unat (hashesCount b * 32) = 32 * length hs" using w by (simp add: unat_word_ariths)
      have "emit_all (merkle_tree_chunks b) (?b, 80) = Some (put ?b 80 (images (merkle_tree_chunks b)), length (merkle_image b))"
        using emit_all_fits [of 80 "merkle_tree_chunks b" ?b] fits by (simp add: merkle_image_def)
      moreover have "put ?b 80 (images (merkle_tree_chunks b)) = put buf 0 (merkle_image b)"
        using put_put_adjacent [of 0 "images (merkle_header b)" "images (merkle_tree_chunks b)" buf] fits
        by (simp add: merkle_image_def)
      ultimately have "\<exists>s1 s2 s3 s4. emit (Raw (UInt32SetLE (totalTx b))) (?b, 80) = Some s1 \<and> emit (VarInt (hashesCount b)) s1 = Some s2 \<and>
          emit (Raw (u256s_bytes hs)) s2 = Some s3 \<and> emit (VarInt (flagsLen b)) s3 = Some s4 \<and>
          emit (Raw fs) s4 = Some (put buf 0 (merkle_image b), length (merkle_image b))"
        using False w by (simp add: merkle_tree_chunks_def bind_eq_Some_conv emit_all_fun del: split_paired_Ex) 
      then show ?thesis
        using False le h w c unfolding BRMerkleBlockSerialize_def len Let_def
        by (auto simp: emit_if_def slice_def word_gt_0 emit_all_fun simp del: split_paired_Ex split_paired_All)
    qed
  qed
qed

text \<open>What a parser of the image reads at each offset.\<close>

lemma merkle_header_at:
  assumes "at buf 0 (images (merkle_header b))"
  shows "get_at 4 UInt32GetLE buf 0 = Some (blk_version b)" "get_at 32 UInt256Get buf 4 = Some (prevBlock b)"
    "get_at 32 UInt256Get buf 36 = Some (merkleRoot b)" "get_at 4 UInt32GetLE buf 68 = Some (blk_timestamp b)"
    "get_at 4 UInt32GetLE buf 72 = Some (blk_target b)" "get_at 4 UInt32GetLE buf 76 = Some (blk_nonce b)"
    "take 80 buf = images (merkle_header b)" "80 \<le> length buf"
proof -
  have a: "at buf 0 (UInt32SetLE (blk_version b))" "at buf 4 (UInt256Set (prevBlock b))"
    "at buf 36 (UInt256Set (merkleRoot b))" "at buf 68 (UInt32SetLE (blk_timestamp b))"
    "at buf 72 (UInt32SetLE (blk_target b))" "at buf 76 (UInt32SetLE (blk_nonce b))"
    using assms by (simp_all add: merkle_header_def at_append)
  show "get_at 4 UInt32GetLE buf 0 = Some (blk_version b)" "get_at 32 UInt256Get buf 4 = Some (prevBlock b)"
    "get_at 32 UInt256Get buf 36 = Some (merkleRoot b)" "get_at 4 UInt32GetLE buf 68 = Some (blk_timestamp b)"
    "get_at 4 UInt32GetLE buf 72 = Some (blk_target b)" "get_at 4 UInt32GetLE buf 76 = Some (blk_nonce b)"
    using a by (blast intro: at_codec)+
  show "take 80 buf = images (merkle_header b)" "80 \<le> length buf"
    using assms unfolding at_def length_merkle_header by simp_all
qed

lemma merkle_parse_tree_at:
  assumes "merkle_wire_wf b" "totalTx b \<noteq> 0" "at buf 80 (images (merkle_tree_chunks b))" "length buf < 2 ^ 63"
  shows "merkle_parse_tree buf blk = Some (blk\<lparr>totalTx := totalTx b, hashesCount := hashesCount b,
    blk_hashes := blk_hashes b, flagsLen := flagsLen b, blk_flags := blk_flags b\<rparr>)"
proof -
  obtain hs fs where w: "blk_hashes b = Some hs" "length hs = unat (hashesCount b)" "unat (hashesCount b) < 2 ^ 32"
    "blk_flags b = Some fs" "length fs = unat (flagsLen b)"
    using assms(1,2) by (auto simp: merkle_wire_wf_def)
  define v w where "v = length (varint_bytes (hashesCount b))" and "w = length (varint_bytes (flagsLen b))"
  let ?H = "u256s_bytes hs"
  have a: "at buf 80 (UInt32SetLE (totalTx b))" "at buf 84 (varint_bytes (hashesCount b))" "at buf (84 + v) ?H"
    "at buf (84 + v + length ?H) (varint_bytes (flagsLen b))" "at buf (84 + v + length ?H + w) fs"
    using assms(2,3) w(1,4) by (simp_all add: merkle_tree_chunks_def at_append v_def w_def ac_simps)
  have c: "unat (hashesCount b * 32) = length ?H" using w(2,3) by (simp add: unat_word_ariths)
  have ch: "hashesCount b * 32 = of_nat (length ?H)" unfolding c [symmetric] by simp
  have r: "get_at 4 UInt32GetLE buf 80 = Some (totalTx b)"
    "varint_at buf 84 = (hashesCount b, of_nat v)"
    "copy_or_null buf (84 + of_nat v) (hashesCount b * 32) = Some (Some ?H)"
    "varint_at buf (84 + of_nat v + hashesCount b * 32) = (flagsLen b, of_nat w)"
    "copy_or_null buf (84 + of_nat v + hashesCount b * 32 + of_nat w) (flagsLen b) = Some (Some fs)"
    using at_codec(1) [OF a(1)] varint_at_at [OF a(2)] varint_at_at [OF a(4)] assms(4) w(5) c
      copy_or_null_at [OF a(3), of "hashesCount b * 32"] copy_or_null_at [OF a(5), of "flagsLen b"]
    by (simp_all add: v_def w_def ch)
  show ?thesis
    unfolding merkle_parse_tree_def by (simp add: r Let_def w u256s_roundtrip)
qed

text \<open>A block written to a buffer and read back is the block with its hash recomputed from the header
  and its height unknown: header, transaction count, hashes and flags survive; the reported size is
  the size written, and a buffer without room is left alone.\<close>

theorem merkle_wire_roundtrip:
  assumes "merkle_wire_wf b" "length buf < 2 ^ 63"
  shows "\<exists>n. BRMerkleBlockSerialize b None = Some (of_nat n, None) \<and>
    (n \<le> length buf \<longrightarrow> (\<exists>o'. BRMerkleBlockSerialize b (Some buf) = Some (of_nat n, Some o') \<and> length o' = length buf \<and>
       drop n o' = drop n buf \<and>
       BRMerkleBlockParse (Some (take n o')) =
         Some (Some (b\<lparr>blockHash := UInt256Get (BRSHA256_2 (take 80 o')), blk_height := BLOCK_UNKNOWN_HEIGHT\<rparr>)))) \<and>
    (length buf < n \<longrightarrow> BRMerkleBlockSerialize b (Some buf) = Some (0, Some buf))"
proof -
  let ?x = "merkle_image b"
  have x: "at ?x 0 (images (merkle_header b))" "at ?x 80 (images (merkle_tree_chunks b))"
    by (simp_all add: merkle_image_def at_def)
  have "take 80 ?x = images (merkle_header b)" by (simp add: merkle_image_def)
  note h = merkle_header_at [OF x(1)]
  have p: "BRMerkleBlockParse (Some ?x) =
      Some (Some (b\<lparr>blockHash := UInt256Get (BRSHA256_2 (take 80 ?x)), blk_height := BLOCK_UNKNOWN_HEIGHT\<rparr>))"
  proof (cases "totalTx b = 0")
    case True
    then have "length ?x = 80" by (simp add: merkle_image_def merkle_tree_chunks_def)
    then have "\<not> fits ?x 80 4" by (simp add: fits_def word_le_nat_alt)
    then show ?thesis
      using h(1-6,8) True assms(1)
      by (simp add: BRMerkleBlockParse_def Let_def BRMerkleBlockNew_def BR_MERKLE_BLOCK_NONE_def merkle_wire_wf_def)
  next
    case False
    have "84 \<le> length ?x" using False by (simp add: merkle_image_def merkle_tree_chunks_def)
    moreover have "length ?x < 2 ^ 63" by (rule merkle_serialize_eq(2) [OF assms(1)])
    ultimately have "fits ?x 80 4" by (subst fits_plain) simp_all
    then show ?thesis
      using h(1-6,8) merkle_parse_tree_at [OF assms(1) False x(2) merkle_serialize_eq(2) [OF assms(1)]]
      by (simp add: BRMerkleBlockParse_def Let_def BRMerkleBlockNew_def BR_MERKLE_BLOCK_NONE_def)
  qed
  have "BRMerkleBlockSerialize b (Some buf) = Some (of_nat (length ?x), Some (put buf 0 ?x)) \<and>
      length (put buf 0 ?x) = length buf \<and> drop (length ?x) (put buf 0 ?x) = drop (length ?x) buf \<and>
      BRMerkleBlockParse (Some (take (length ?x) (put buf 0 ?x))) = Some (Some (b\<lparr>blockHash :=
        UInt256Get (BRSHA256_2 (take 80 (put buf 0 ?x))), blk_height := BLOCK_UNKNOWN_HEIGHT\<rparr>))"
    if "length ?x \<le> length buf"
    using merkle_serialize_eq(3) [OF assms(1) that assms(2)] that p h(8) by (simp add: put_0)
  then show ?thesis using merkle_serialize_eq(1,4) [OF assms(1)] by blast
qed

theorem merkle_wire_roundtrip_witness:
  "\<exists>n. BRMerkleBlockSerialize (BRMerkleBlockNew\<lparr>totalTx := 2, blk_hashes := Some [5, 6], hashesCount := 2,
     blk_flags := Some [0x05], flagsLen := 1\<rparr>) None = Some (of_nat n, None)"
proof -
  let ?b = "BRMerkleBlockNew\<lparr>totalTx := 2, blk_hashes := Some [5, 6], hashesCount := 2, blk_flags := Some [0x05], flagsLen := 1\<rparr>"
  have "merkle_wire_wf ?b" by (simp add: merkle_wire_wf_def)
  then show ?thesis using merkle_wire_roundtrip [of ?b "[]"] by auto
qed

section \<open>Malformed messages\<close>

lemma varint_at_past: "length buf \<le> unat off \<Longrightarrow> varint_at buf off = (0, 1)"
  by (simp add: varint_at_def BRVarInt_def)

lemma copy_or_null_0: "length buf < 2 ^ 64 \<Longrightarrow> copy_or_null buf off 0 \<noteq> None"
  by (auto simp: copy_or_null_def fits_def slice_def word_le_nat_alt unat_of_nat)

text \<open>The copy behind a variable length integer: past the end of the buffer the integer reads as zero.\<close>

lemma copy_behind_varint:
  assumes "length buf < 2 ^ 62"
  shows "copy_or_null buf (off + snd (varint_at buf off)) (fst (varint_at buf off)) \<noteq> None"
proof (cases "unat off < length buf")
  case True
  have "unat (off + snd (varint_at buf off)) \<le> unat off + 9"
    using varint_at_length [of buf off] by (simp add: unat_word_ariths le_trans [OF mod_less_eq_dividend])
  then show ?thesis using copy_or_null_defined [of buf] True assms by simp
next
  case False
  then show ?thesis using copy_or_null_0 [of buf] assms by (simp add: varint_at_past)
qed

lemma u256s_length: "length (u256s b) = length b div 32"
  by (simp add: u256s_def)

text \<open>Parsing never reads outside the message, whatever it declares; the arrays it returns have the
  flag bytes the message declares and the hashes it declares, unless the declared number of hashes is
  so large that its size in bytes wraps around.\<close>

theorem merkle_parse_memory:
  assumes "length buf < 2 ^ 62"
  shows "BRMerkleBlockParse (Some buf) \<noteq> None \<and> (\<forall>b. BRMerkleBlockParse (Some buf) = Some (Some b) \<longrightarrow>
    80 \<le> length buf \<and> (\<forall>fs. blk_flags b = Some fs \<longrightarrow> length fs = unat (flagsLen b)) \<and>
    (\<forall>hs. blk_hashes b = Some hs \<longrightarrow> unat (hashesCount b) < 2 ^ 59 \<longrightarrow> length hs = unat (hashesCount b)))"
proof -
  have tree: "\<exists>t. merkle_parse_tree buf blk = Some t \<and> (\<forall>fs. blk_flags t = Some fs \<longrightarrow> length fs = unat (flagsLen t)) \<and>
      (\<forall>hs. blk_hashes t = Some hs \<longrightarrow> unat (hashesCount t) < 2 ^ 59 \<longrightarrow> length hs = unat (hashesCount t))"
    if fit: "fits buf 80 4" for blk
  proof -
    have "84 \<le> length buf" using fit assms by (simp add: fits_def word_le_nat_alt unat_of_nat)
    then obtain total where total: "get_at 4 UInt32GetLE buf 80 = Some total" by (auto simp: get_at_def slice_def)
    obtain count v where v: "varint_at buf 84 = (count, v)" by fastforce
    have "unat v \<le> 9" using varint_at_length [of buf 84] v by simp
    then have "unat (84 + v) < 2 ^ 63" by (simp add: unat_word_ariths)
    then obtain hs where hs: "copy_or_null buf (84 + v) (count * 32) = Some hs"
      using copy_or_null_defined [of buf] assms by fastforce
    define off where "off = 84 + v + count * 32"
    obtain flen w where w: "varint_at buf off = (flen, w)" by fastforce
    obtain fs where fs: "copy_or_null buf (off + w) flen = Some fs"
      using copy_behind_varint [OF assms, of off] w by auto
    have "length x div 32 = unat count" if "hs = Some x" "unat count < 2 ^ 59" for x
      using copy_or_null_length [of buf "84 + v" "count * 32" x] hs that by (simp add: unat_word_ariths)
    moreover have "length x = unat flen" if "fs = Some x" for x
      using copy_or_null_length [of buf "off + w" flen x] fs that by simp
    ultimately show ?thesis
      using total v hs w fs by (auto simp: merkle_parse_tree_def Let_def off_def u256s_length)
  qed
  show ?thesis
  proof (cases "80 \<le> length buf")
    case False
    then show ?thesis by (simp add: BRMerkleBlockParse_def)
  next
    case True
    note s = slice_Some [of _ _ buf]
    have g: "get_at 4 UInt32GetLE buf 0 = Some (UInt32GetLE (take 4 buf))"
      "get_at 32 UInt256Get buf 4 = Some (UInt256Get (take 32 (drop 4 buf)))"
      "get_at 32 UInt256Get buf 36 = Some (UInt256Get (take 32 (drop 36 buf)))"
      "get_at 4 UInt32GetLE buf 68 = Some (UInt32GetLE (take 4 (drop 68 buf)))"
      "get_at 4 UInt32GetLE buf 72 = Some (UInt32GetLE (take 4 (drop 72 buf)))"
      "get_at 4 UInt32GetLE buf 76 = Some (UInt32GetLE (take 4 (drop 76 buf)))"
      using True by (simp_all add: get_at_def s)
    show ?thesis
    proof (cases "fits buf 80 4")
      case True
      then obtain blk where p: "BRMerkleBlockParse (Some buf) = merkle_parse_tree buf blk \<bind>
          (\<lambda>blk. Some (Some (blk\<lparr>blockHash := UInt256Get (BRSHA256_2 (take 80 buf))\<rparr>)))"
        using \<open>80 \<le> length buf\<close> by (simp add: BRMerkleBlockParse_def g Let_def)
      obtain t where "merkle_parse_tree buf blk = Some t" "\<And>fs. blk_flags t = Some fs \<Longrightarrow> length fs = unat (flagsLen t)"
        "\<And>hs. blk_hashes t = Some hs \<Longrightarrow> unat (hashesCount t) < 2 ^ 59 \<Longrightarrow> length hs = unat (hashesCount t)"
        using tree [OF True, of blk] by blast
      then show ?thesis using \<open>80 \<le> length buf\<close> by (auto simp: p)
    next
      case False
      then show ?thesis using \<open>80 \<le> length buf\<close>
        by (simp add: BRMerkleBlockParse_def g Let_def BRMerkleBlockNew_def BR_MERKLE_BLOCK_NONE_def)
    qed
  qed
qed

theorem merkle_parse_memory_witness: "BRMerkleBlockParse (Some (replicate 100 0xff)) \<noteq> None"
  using merkle_parse_memory [of "replicate 100 0xff"] by simp

text \<open>A message cut off inside its flag bytes still parses, with the declared flag count and a null
  flag array, and checking the validity of that block dereferences the null pointer.\<close>

theorem merkle_truncated_flags:
  assumes "length header = 80" "length h = 32"
  shows "\<exists>b. BRMerkleBlockParse (Some (header @ [1, 0, 0, 0] @ [1] @ h @ [5])) = Some (Some b) \<and>
    hashesCount b = 1 \<and> flagsLen b = 5 \<and> blk_flags b = None \<and> BRMerkleBlockIsValid b now = None"
proof -
  let ?b = "header @ [1, 0, 0, 0] @ [1] @ h @ [5]"
  have g: "get_at n get ?b off = Some (get (take n (drop off ?b)))" if "off + n \<le> 118" for n off and get :: "bytes \<Rightarrow> u32"
    using that assms by (simp add: get_at_def slice_def)
  have g': "get_at n get ?b off = Some (get (take n (drop off ?b)))" if "off + n \<le> 118" for n off and get :: "bytes \<Rightarrow> uint256"
    using that assms by (simp add: get_at_def slice_def)
  have "drop 84 ?b = [1] @ h @ [5]" "drop 117 ?b = [5]" using assms by simp_all
  then have v: "varint_at ?b 84 = (1, 1)" "varint_at ?b 117 = (5, 1)" by (simp_all add: varint_at_def BRVarInt_def)
  have c: "copy_or_null ?b 85 32 = Some (Some h)" "copy_or_null ?b 118 5 = Some None"
    using assms by (simp_all add: copy_or_null_def fits_def malloc_ok_def slice_def)
  have f: "fits ?b 80 4" using assms by (simp add: fits_def)
  have "merkle_parse_tree ?b blk = Some (blk\<lparr>totalTx := UInt32GetLE (take 4 (drop 80 ?b)), hashesCount := 1,
      blk_hashes := Some (u256s h), flagsLen := 5, blk_flags := None\<rparr>)" for blk
    unfolding merkle_parse_tree_def Let_def by (subst g, simp) (simp add: v c del: append.simps)
  then obtain b where b: "BRMerkleBlockParse (Some ?b) = Some (Some b)" "hashesCount b = 1" "flagsLen b = 5" "blk_flags b = None"
    using f assms by (simp add: BRMerkleBlockParse_def Let_def g g' del: append.simps)
  moreover have "BRMerkleBlockRootR b 0 (0, 0) = None"
    using b by (subst BRMerkleBlockRootR.simps) (simp add: merkle_more_def merkle_flag_def)
  ultimately show ?thesis by (auto simp: BRMerkleBlockIsValid_def)
qed

theorem merkle_truncated_flags_witness:
  "\<exists>b. BRMerkleBlockParse (Some (replicate 80 0 @ [1, 0, 0, 0] @ [1] @ replicate 32 7 @ [5])) = Some (Some b) \<and>
     BRMerkleBlockIsValid b 0 = None"
  using merkle_truncated_flags [of "replicate 80 0" "replicate 32 7" 0] by auto

end
