(* ===== verification/Transaction.thy ===== *)
theory Transaction
  imports MerkleBlock
begin

text \<open>
  \<^verbatim>\<open>BRTransaction.c\<close> and \<^verbatim>\<open>BRTransaction.h\<close>: inputs, outputs and transactions, their wire format, the
  data a signature covers in the original and in the BIP143 form, sizes, fees, shuffling and signing.
  The growable arrays are lists (\<^verbatim>\<open>BRArray.h\<close> computes list operations, see ArrayModel), \<open>inCount\<close> and
  \<open>outCount\<close> their lengths; a script or signature is a pointer with its length beside it. The results
  of \<open>rand()\<close> are an argument, and so are the key operations, whose elliptic curve code is a library.
\<close>

section \<open>Data\<close>

record BRTxInput =
  in_txHash :: uint256
  in_index :: u32
  in_address :: bytes
  in_amount :: u64
  in_script :: "bytes option"
  in_scriptLen :: nat
  in_signature :: "bytes option"
  in_sigLen :: nat
  in_sequence :: u32

record BRTxOutput =
  out_address :: bytes
  out_amount :: u64
  out_script :: "bytes option"
  out_scriptLen :: nat

record BRTransaction =
  tx_hash :: uint256
  tx_version :: u32
  tx_inputs :: "BRTxInput list"
  tx_outputs :: "BRTxOutput list"
  tx_lockTime :: u32
  tx_blockHeight :: u32
  tx_timestamp :: u32

abbreviation TX_FEE_PER_KB :: nat where "TX_FEE_PER_KB \<equiv> 1000"
abbreviation TX_OUTPUT_SIZE :: nat where "TX_OUTPUT_SIZE \<equiv> 34"
abbreviation TX_INPUT_SIZE :: nat where "TX_INPUT_SIZE \<equiv> 148"
abbreviation TX_MAX_SIZE :: nat where "TX_MAX_SIZE \<equiv> 100000"
abbreviation TX_UNCONFIRMED :: u32 where "TX_UNCONFIRMED \<equiv> 0x7fffffff"
abbreviation TXIN_SEQUENCE :: u32 where "TXIN_SEQUENCE \<equiv> 0xffffffff"
abbreviation SIGHASH_ALL :: u32 where "SIGHASH_ALL \<equiv> 1"
abbreviation SIGHASH_NONE :: u32 where "SIGHASH_NONE \<equiv> 2"
abbreviation SIGHASH_SINGLE :: u32 where "SIGHASH_SINGLE \<equiv> 3"
abbreviation SIGHASH_ANYONECANPAY :: u32 where "SIGHASH_ANYONECANPAY \<equiv> 0x80"
abbreviation SIGHASH_FORKID :: u32 where "SIGHASH_FORKID \<equiv> 0x40"

abbreviation (input) no_address :: bytes where "no_address \<equiv> replicate 36 0"

text \<open>A zeroed element, as \<open>array_set_count\<close> leaves it.\<close>

definition tx_input_zero :: BRTxInput where
  "tx_input_zero = \<lparr>in_txHash = 0, in_index = 0, in_address = no_address, in_amount = 0, in_script = None,
     in_scriptLen = 0, in_signature = None, in_sigLen = 0, in_sequence = 0\<rparr>"

definition BR_TX_OUTPUT_NONE :: BRTxOutput where
  "BR_TX_OUTPUT_NONE = \<lparr>out_address = no_address, out_amount = 0, out_script = None, out_scriptLen = 0\<rparr>"

section \<open>Random numbers\<close>

abbreviation BR_RAND_MAX :: u32 where "BR_RAND_MAX \<equiv> 0x7fffffff"

text \<open>The loop over the results of \<open>rand()\<close>; running out of them is not returning.\<close>

fun rand_loop :: "u32 \<Rightarrow> u32 list \<Rightarrow> (u32 \<times> u32 list) run" where
  "rand_loop bound [] = None"
| "rand_loop bound (r # rs) =
     (if r < ((0xffffffff - bound * 2) + 1) mod bound then rand_loop bound rs else Some (r mod bound, rs))"

definition BRRand :: "u32 \<Rightarrow> u32 list \<Rightarrow> (u32 \<times> u32 list) run" where
  "BRRand upperBound rs =
     (let bound = (if upperBound = 0 \<or> upperBound > BR_RAND_MAX then BR_RAND_MAX else upperBound) in rand_loop bound rs)"

section \<open>Inputs and outputs\<close>

text \<open>\<open>strncpy(dst, address, sizeof(dst) - 1)\<close> into zeroed bytes.\<close>

definition copy_address :: "bytes \<Rightarrow> bytes" where
  "copy_address s = put no_address 0 (take 35 s)"

text \<open>The script of an address, through the two calls that size and fill the array.\<close>

definition address_script :: "bool \<Rightarrow> bytes \<Rightarrow> bytes" where
  "address_script testnet s =
     the (snd (BRAddressScriptPubKey testnet (Some (replicate (fst (BRAddressScriptPubKey testnet None s)) 0)) s))"

definition BRTxInputSetAddress :: "bool \<Rightarrow> BRTxInput \<Rightarrow> bytes option \<Rightarrow> BRTxInput" where
  "BRTxInputSetAddress testnet input address =
     (let input = input\<lparr>in_script := None, in_scriptLen := 0, in_address := no_address\<rparr>
      in case address of
           None \<Rightarrow> input
         | Some s \<Rightarrow> input\<lparr>in_address := copy_address s, in_scriptLen := fst (BRAddressScriptPubKey testnet None s),
             in_script := Some (address_script testnet s)\<rparr>)"

definition BRTxInputSetScript :: "bool \<Rightarrow> BRTxInput \<Rightarrow> bytes option \<Rightarrow> BRTxInput run" where
  "BRTxInputSetScript testnet input script =
     (let input = input\<lparr>in_script := None, in_scriptLen := 0, in_address := no_address\<rparr>
      in case script of
           None \<Rightarrow> Some input
         | Some s \<Rightarrow> do {
             (_, addr) \<leftarrow> BRAddressFromScriptPubKey testnet (Some (in_address input)) s;
             Some (input\<lparr>in_script := Some s, in_scriptLen := length s, in_address := the addr\<rparr>) })"

definition BRTxInputSetSignature :: "bool \<Rightarrow> BRTxInput \<Rightarrow> bytes option \<Rightarrow> BRTxInput run" where
  "BRTxInputSetSignature testnet input signature =
     (let input = input\<lparr>in_signature := None, in_sigLen := 0\<rparr>
      in case signature of
           None \<Rightarrow> Some input
         | Some s \<Rightarrow> do {
             addr \<leftarrow> (if in_address input ! 0 = 0
                then map_option (the \<circ> snd) (BRAddressFromScriptSig testnet (Some (in_address input)) s)
                else Some (in_address input));
             Some (input\<lparr>in_signature := Some s, in_sigLen := length s, in_address := addr\<rparr>) })"

definition BRTxOutputSetAddress :: "bool \<Rightarrow> BRTxOutput \<Rightarrow> bytes option \<Rightarrow> BRTxOutput" where
  "BRTxOutputSetAddress testnet output address =
     (let output = output\<lparr>out_script := None, out_scriptLen := 0, out_address := no_address\<rparr>
      in case address of
           None \<Rightarrow> output
         | Some s \<Rightarrow> output\<lparr>out_address := copy_address s, out_scriptLen := fst (BRAddressScriptPubKey testnet None s),
             out_script := Some (address_script testnet s)\<rparr>)"

definition BRTxOutputSetScript :: "bool \<Rightarrow> BRTxOutput \<Rightarrow> bytes option \<Rightarrow> BRTxOutput run" where
  "BRTxOutputSetScript testnet output script =
     (let output = output\<lparr>out_script := None, out_scriptLen := 0, out_address := no_address\<rparr>
      in case script of
           None \<Rightarrow> Some output
         | Some s \<Rightarrow> do {
             (_, addr) \<leftarrow> BRAddressFromScriptPubKey testnet (Some (out_address output)) s;
             Some (output\<lparr>out_script := Some s, out_scriptLen := length s, out_address := the addr\<rparr>) })"

section \<open>Guarded writers\<close>

text \<open>A writer of this file takes a buffer (\<open>NULL\<close> asks for the size), stores each field only if it fits
  and advances \<open>off\<close> in any case. A writer called on the rest of the buffer contributes what it returns.\<close>

type_synonym writer = "bytes option \<times> nat \<Rightarrow> (bytes option \<times> nat) run"

definition w_raw :: "bytes \<Rightarrow> writer" where
  "w_raw x s =
     (case s of
        (None, off) \<Rightarrow> Some (None, off + length x)
      | (Some d, off) \<Rightarrow> Some (Some (if off + length x \<le> length d then put d off x else d), off + length x))"

definition w_ptr :: "bytes option \<Rightarrow> nat \<Rightarrow> writer" where
  "w_ptr p n s =
     (case s of
        (None, off) \<Rightarrow> Some (None, off + n)
      | (Some d, off) \<Rightarrow>
          if off + n \<le> length d then do {
            x \<leftarrow> (case p of None \<Rightarrow> (if n = 0 then Some [] else None) | Some x \<Rightarrow> slice x 0 n);
            Some (Some (put d off x), off + n)
          } else Some (Some d, off + n))"

definition w_sub :: "(bytes option \<Rightarrow> (nat \<times> bytes option) run) \<Rightarrow> writer" where
  "w_sub f s =
     (case s of
        (None, off) \<Rightarrow> map_option (\<lambda>r. (None, off + fst r)) (f None)
      | (Some d, off) \<Rightarrow> map_option (\<lambda>r. (Some (take off d @ the (snd r)), off + fst r)) (f (Some (drop off d))))"

definition w_varint :: "nat \<Rightarrow> writer" where
  "w_varint v = w_sub (\<lambda>b. Some (BRVarIntSet b (of_nat v)))"

fun w_all :: "writer list \<Rightarrow> writer" where
  "w_all [] s = Some s"
| "w_all (w # ws) s = w s \<bind> w_all ws"

text \<open>\<open>return (! data || off <= dataLen) ? off : 0\<close>\<close>

definition w_return :: "bytes option \<times> nat \<Rightarrow> nat \<times> bytes option" where
  "w_return s = (case s of (None, off) \<Rightarrow> (off, None) | (Some d, off) \<Rightarrow> (if off \<le> length d then off else 0, Some d))"

definition w_run :: "writer list \<Rightarrow> bytes option \<Rightarrow> (nat \<times> bytes option) run" where
  "w_run ws data = map_option w_return (w_all ws (data, 0))"

section \<open>Serialisation and signature data\<close>

definition BRTxInputData :: "BRTxInput \<Rightarrow> bytes option \<Rightarrow> (nat \<times> bytes option) run" where
  "BRTxInputData input =
     w_run ([w_raw (UInt256Set (in_txHash input)), w_raw (UInt32SetLE (in_index input)), w_varint (in_sigLen input),
         w_ptr (in_signature input) (in_sigLen input)] @
       (if in_amount input \<noteq> 0 then [w_raw (UInt64SetLE (in_amount input))] else []) @
       [w_raw (UInt32SetLE (in_sequence input))])"

definition tx_output_writers :: "BRTxOutput \<Rightarrow> writer list" where
  "tx_output_writers output =
     [w_raw (UInt64SetLE (out_amount output)), w_varint (out_scriptLen output),
      w_ptr (out_script output) (out_scriptLen output)]"

text \<open>All outputs for an index of \<open>SIZE_MAX\<close>, else the one at the index if there is one.\<close>

definition BRTransactionOutputData :: "BRTransaction \<Rightarrow> nat \<Rightarrow> bytes option \<Rightarrow> (nat \<times> bytes option) run" where
  "BRTransactionOutputData tx index =
     w_run (concat (map tx_output_writers
       (if index = SIZE_MAX then tx_outputs tx
        else if index < length (tx_outputs tx) then [tx_outputs tx ! index] else [])))"

text \<open>The outputs at \<open>index\<close> in a buffer of the size the first call asks for.\<close>

definition tx_output_bytes :: "BRTransaction \<Rightarrow> nat \<Rightarrow> bytes run" where
  "tx_output_bytes tx index = do {
     (bufLen, _) \<leftarrow> BRTransactionOutputData tx index None;
     (bufLen, buf) \<leftarrow> BRTransactionOutputData tx index (Some (replicate bufLen 0));
     slice (the buf) 0 bufLen
   }"

definition BRTransactionWitnessData :: "BRTransaction \<Rightarrow> nat \<Rightarrow> u32 \<Rightarrow> bytes option \<Rightarrow> (nat \<times> bytes option) run" where
  "BRTransactionWitnessData tx index hashType data =
     (if index \<ge> length (tx_inputs tx) then Some (0, data)
      else do {
        let anyoneCanPay = hashType AND SIGHASH_ANYONECANPAY \<noteq> 0;
        let sigHash = hashType AND 0x1f;
        let prevouts = (if \<not> anyoneCanPay
          then BRSHA256_2 (concat (map (\<lambda>i. UInt256Set (in_txHash i) @ UInt32SetLE (in_index i)) (tx_inputs tx)))
          else UInt256Set 0);
        let sequences = (if \<not> anyoneCanPay \<and> sigHash \<noteq> SIGHASH_SINGLE \<and> sigHash \<noteq> SIGHASH_NONE
          then BRSHA256_2 (concat (map (\<lambda>i. UInt32SetLE (in_sequence i)) (tx_inputs tx)))
          else UInt256Set 0);
        let input = tx_inputs tx ! index;
        let input = input\<lparr>in_signature := in_script input, in_sigLen := in_scriptLen input\<rparr>;
        outs \<leftarrow> (if sigHash \<noteq> SIGHASH_SINGLE \<and> sigHash \<noteq> SIGHASH_NONE
          then map_option BRSHA256_2 (tx_output_bytes tx SIZE_MAX)
          else if sigHash = SIGHASH_SINGLE \<and> index < length (tx_outputs tx)
          then map_option BRSHA256_2 (tx_output_bytes tx index)
          else Some (UInt256Set 0));
        w_run [w_raw (UInt32SetLE (tx_version tx)), w_raw prevouts, w_raw sequences, w_sub (BRTxInputData input),
          w_raw outs, w_raw (UInt32SetLE (tx_lockTime tx)), w_raw (UInt32SetLE hashType)] data
      })"

text \<open>The copy of input \<open>i\<close> that is written when the data is for \<open>index\<close>.\<close>

definition tx_input_for :: "nat \<Rightarrow> u32 \<Rightarrow> nat \<Rightarrow> BRTxInput \<Rightarrow> BRTxInput" where
  "tx_input_for index sigHash i input =
     (if index = i \<or> index = SIZE_MAX \<and> in_signature input = None then
        let input = input\<lparr>in_signature := in_script input, in_sigLen := in_scriptLen input\<rparr>
        in if index = i then input\<lparr>in_amount := 0\<rparr> else input
      else if index \<noteq> SIZE_MAX then
        let input = input\<lparr>in_sigLen := 0\<rparr>;
            input = (if sigHash = SIGHASH_NONE \<or> sigHash = SIGHASH_SINGLE then input\<lparr>in_sequence := 0\<rparr> else input)
        in input\<lparr>in_amount := 0\<rparr>
      else input\<lparr>in_amount := 0\<rparr>)"

definition BRTransactionData :: "BRTransaction \<Rightarrow> nat \<Rightarrow> u32 \<Rightarrow> bytes option \<Rightarrow> (nat \<times> bytes option) run" where
  "BRTransactionData tx index hashType data =
     (let anyoneCanPay = hashType AND SIGHASH_ANYONECANPAY \<noteq> 0; sigHash = hashType AND 0x1f;
          ins = tx_inputs tx; outs = tx_outputs tx in
      if hashType AND SIGHASH_FORKID \<noteq> 0 then BRTransactionWitnessData tx index hashType data
      else if anyoneCanPay \<and> index \<ge> length ins then Some (0, data)
      else w_run ([w_raw (UInt32SetLE (tx_version tx))] @
        (if \<not> anyoneCanPay
         then w_varint (length ins) #
           map (\<lambda>i. w_sub (BRTxInputData (tx_input_for index sigHash i (ins ! i)))) [0..<length ins]
         else let input = ins ! index in
           [w_varint 1, w_sub (BRTxInputData (input\<lparr>in_signature := in_script input, in_sigLen := in_scriptLen input,
              in_amount := 0\<rparr>))]) @
        (if sigHash \<noteq> SIGHASH_SINGLE \<and> sigHash \<noteq> SIGHASH_NONE
         then [w_varint (length outs), w_sub (BRTransactionOutputData tx SIZE_MAX)]
         else if sigHash = SIGHASH_SINGLE \<and> index < length outs
         then [w_varint (index + 1)] @ concat (replicate index [w_raw (UInt64SetLE (- 1)), w_varint 0]) @
           [w_sub (BRTransactionOutputData tx index)]
         else [w_varint 0]) @
        [w_raw (UInt32SetLE (tx_lockTime tx))] @
        (if index \<noteq> SIZE_MAX then [w_raw (UInt32SetLE hashType)] else [])) data)"

definition BRTransactionNew :: BRTransaction where
  "BRTransactionNew = \<lparr>tx_hash = 0, tx_version = 1, tx_inputs = [], tx_outputs = [], tx_lockTime = 0,
     tx_blockHeight = TX_UNCONFIRMED, tx_timestamp = 0\<rparr>"

definition BRTransactionSerialize :: "BRTransaction \<Rightarrow> bytes option \<Rightarrow> (nat \<times> bytes option) run" where
  "BRTransactionSerialize tx = BRTransactionData tx SIZE_MAX SIGHASH_ALL"

section \<open>Parsing\<close>

text \<open>\<open>BRAddressFromScriptPubKey(NULL, 0, &buf[off], sLen) > 0\<close>; nothing is read for a length above
  \<open>MAX_SCRIPT_LENGTH\<close>.\<close>

definition pubkey_script_at :: "bool \<Rightarrow> bytes \<Rightarrow> u64 \<Rightarrow> u64 \<Rightarrow> bool run" where
  "pubkey_script_at testnet buf off sLen =
     (if unat sLen > MAX_SCRIPT_LENGTH then Some False
      else do {
        s \<leftarrow> slice buf (unat off) (unat sLen);
        (n, _) \<leftarrow> BRAddressFromScriptPubKey testnet None s;
        Some (n > 0)
      })"

text \<open>One input at \<open>off\<close>: the input, the offset behind it and whether it holds a signature.\<close>

definition parse_input :: "bool \<Rightarrow> bytes \<Rightarrow> u64 \<Rightarrow> (BRTxInput \<times> u64 \<times> bool) run" where
  "parse_input testnet buf off = do {
     h \<leftarrow> read_or0 32 UInt256Get buf off;
     let off = off + 32;
     idx \<leftarrow> read_or0 4 UInt32GetLE buf off;
     let off = off + 4;
     let (sLen, len) = varint_at buf off;
     let off = off + len;
     let input = tx_input_zero\<lparr>in_txHash := h, in_index := idx\<rparr>;
     pub \<leftarrow> (if fits buf off sLen then pubkey_script_at testnet buf off sLen else Some False);
     (input, off, sig) \<leftarrow>
       (if pub then do {
          s \<leftarrow> slice buf (unat off) (unat sLen);
          input \<leftarrow> BRTxInputSetScript testnet input (Some s);
          amount \<leftarrow> read_or0 8 UInt64GetLE buf (off + sLen);
          Some (input\<lparr>in_amount := amount\<rparr>, off + 8, False)
        } else if fits buf off sLen then do {
          s \<leftarrow> slice buf (unat off) (unat sLen);
          input \<leftarrow> BRTxInputSetSignature testnet input (Some s);
          Some (input, off, True)
        } else Some (input, off, True));
     let off = off + sLen;
     sequence \<leftarrow> read_or0 4 UInt32GetLE buf off;
     let off = off + 4;
     Some (input\<lparr>in_sequence := sequence\<rparr>, off, sig)
   }"

fun parse_inputs :: "bool \<Rightarrow> bytes \<Rightarrow> nat \<Rightarrow> u64 \<Rightarrow> bool \<Rightarrow> (BRTxInput list \<times> u64 \<times> bool) run" where
  "parse_inputs testnet buf 0 off isS = Some ([], off, isS)"
| "parse_inputs testnet buf (Suc n) off isS =
     (if off \<le> of_nat (length buf) then do {
        (input, off, sig) \<leftarrow> parse_input testnet buf off;
        (inputs, off, isS) \<leftarrow> parse_inputs testnet buf n off (isS \<and> sig);
        Some (input # inputs, off, isS)
      } else Some (replicate (Suc n) tx_input_zero, off, isS))"

definition parse_output :: "bool \<Rightarrow> bytes \<Rightarrow> u64 \<Rightarrow> (BRTxOutput \<times> u64) run" where
  "parse_output testnet buf off = do {
     amount \<leftarrow> read_or0 8 UInt64GetLE buf off;
     let off = off + 8;
     let (sLen, len) = varint_at buf off;
     let off = off + len;
     let output = BR_TX_OUTPUT_NONE\<lparr>out_amount := amount\<rparr>;
     output \<leftarrow> (if fits buf off sLen then do {
          s \<leftarrow> slice buf (unat off) (unat sLen);
          BRTxOutputSetScript testnet output (Some s)
        } else Some output);
     Some (output, off + sLen)
   }"

fun parse_outputs :: "bool \<Rightarrow> bytes \<Rightarrow> nat \<Rightarrow> u64 \<Rightarrow> (BRTxOutput list \<times> u64) run" where
  "parse_outputs testnet buf 0 off = Some ([], off)"
| "parse_outputs testnet buf (Suc n) off =
     (if off \<le> of_nat (length buf) then do {
        (output, off) \<leftarrow> parse_output testnet buf off;
        (outputs, off) \<leftarrow> parse_outputs testnet buf n off;
        Some (output # outputs, off)
      } else Some (replicate (Suc n) BR_TX_OUTPUT_NONE, off))"

text \<open>\<open>array_set_count\<close> asserts that the array could grow; \<open>sz\<close> is the size of an element.\<close>

definition array_fits :: "u64 \<Rightarrow> nat \<Rightarrow> unit run" where
  "array_fits n sz = (if unat n * sz + 16 < 2 ^ 63 then Some () else None)"

definition BRTransactionParse :: "bool \<Rightarrow> bytes option \<Rightarrow> BRTransaction option run" where
  "BRTransactionParse testnet buf =
     (case buf of
        None \<Rightarrow> Some None
      | Some b \<Rightarrow> do {
          version \<leftarrow> read_or0 4 UInt32GetLE b 0;
          let off = 0 + 4;
          let (inCount, len) = varint_at b off;
          let off = off + len;
          _ \<leftarrow> array_fits inCount 120;
          (inputs, off, isSigned) \<leftarrow> parse_inputs testnet b (unat inCount) off True;
          let (outCount, len) = varint_at b off;
          let off = off + len;
          _ \<leftarrow> array_fits outCount 64;
          (outputs, off) \<leftarrow> parse_outputs testnet b (unat outCount) off;
          lockTime \<leftarrow> read_or0 4 UInt32GetLE b off;
          let off = off + 4;
          Some (if inCount = 0 \<or> off > of_nat (length b) then None
            else Some (BRTransactionNew\<lparr>tx_version := version, tx_inputs := inputs, tx_outputs := outputs,
              tx_lockTime := lockTime,
              tx_hash := (if isSigned then UInt256Get (BRSHA256_2 (take (unat off) b)) else 0)\<rparr>))
        })"

section \<open>Building, sizes and fees\<close>

definition BRTransactionAddInput ::
  "bool \<Rightarrow> BRTransaction \<Rightarrow> uint256 \<Rightarrow> u32 \<Rightarrow> u64 \<Rightarrow> bytes option \<Rightarrow> bytes option \<Rightarrow> u32 \<Rightarrow> BRTransaction run" where
  "BRTransactionAddInput testnet tx h idx amount script signature sequence = do {
     let input = tx_input_zero\<lparr>in_txHash := h, in_index := idx, in_amount := amount, in_sequence := sequence\<rparr>;
     input \<leftarrow> (case script of None \<Rightarrow> Some input | Some s \<Rightarrow> BRTxInputSetScript testnet input (Some s));
     input \<leftarrow> (case signature of None \<Rightarrow> Some input | Some s \<Rightarrow> BRTxInputSetSignature testnet input (Some s));
     Some (tx\<lparr>tx_inputs := tx_inputs tx @ [input]\<rparr>)
   }"

definition BRTransactionAddOutput :: "bool \<Rightarrow> BRTransaction \<Rightarrow> u64 \<Rightarrow> bytes option \<Rightarrow> BRTransaction run" where
  "BRTransactionAddOutput testnet tx amount script = do {
     output \<leftarrow> BRTxOutputSetScript testnet (BR_TX_OUTPUT_NONE\<lparr>out_amount := amount\<rparr>) script;
     Some (tx\<lparr>tx_outputs := tx_outputs tx @ [output]\<rparr>)
   }"

text \<open>The loop of the shuffle at \<open>i\<close>, \<open>n\<close> turns from the end.\<close>

fun shuffle_loop :: "nat \<Rightarrow> u32 \<Rightarrow> BRTxOutput list \<Rightarrow> u32 list \<Rightarrow> (BRTxOutput list \<times> u32 list) run" where
  "shuffle_loop 0 i outs rs = Some (outs, rs)"
| "shuffle_loop (Suc n) i outs rs = do {
     (r, rs) \<leftarrow> BRRand (of_nat (length outs) - i) rs;
     let j = i + r;
     outs \<leftarrow> (if j \<noteq> i then do {
         a \<leftarrow> rd outs (unat i);
         b \<leftarrow> rd outs (unat j);
         Some (outs[unat i := b, unat j := a])
       } else Some outs);
     shuffle_loop n (i + 1) outs rs
   }"

definition BRTransactionShuffleOutputs :: "BRTransaction \<Rightarrow> u32 list \<Rightarrow> (BRTransaction \<times> u32 list) run" where
  "BRTransactionShuffleOutputs tx rs = do {
     (outs, rs) \<leftarrow> shuffle_loop (length (tx_outputs tx) - 1) 0 (tx_outputs tx) rs;
     Some (tx\<lparr>tx_outputs := outs\<rparr>, rs)
   }"

definition tx_input_size :: "BRTxInput \<Rightarrow> nat" where
  "tx_input_size i =
     (if in_signature i \<noteq> None then 32 + 4 + BRVarIntSize (of_nat (in_sigLen i)) + in_sigLen i + 4 else TX_INPUT_SIZE)"

definition tx_output_size :: "BRTxOutput \<Rightarrow> nat" where
  "tx_output_size p = 8 + BRVarIntSize (of_nat (out_scriptLen p)) + out_scriptLen p"

definition BRTransactionSize :: "BRTransaction \<Rightarrow> nat" where
  "BRTransactionSize tx =
     (let n = 8 + BRVarIntSize (of_nat (length (tx_inputs tx))) + BRVarIntSize (of_nat (length (tx_outputs tx)));
          n = foldl (\<lambda>n i. n + tx_input_size i) n (tx_inputs tx)
      in foldl (\<lambda>n p. n + tx_output_size p) n (tx_outputs tx))"

definition BRTransactionStandardFee :: "BRTransaction \<Rightarrow> nat" where
  "BRTransactionStandardFee tx = ((BRTransactionSize tx + 999) div 1000) * TX_FEE_PER_KB"

fun signed_loop :: "BRTxInput list \<Rightarrow> bool" where
  "signed_loop [] = True"
| "signed_loop (i # is) = (if in_signature i = None then False else signed_loop is)"

definition BRTransactionIsSigned :: "BRTransaction \<Rightarrow> bool" where
  "BRTransactionIsSigned tx = signed_loop (tx_inputs tx)"

definition BRTransactionIsStandard :: "BRTransaction \<Rightarrow> bool" where
  "BRTransactionIsStandard tx = True"

definition BRTransactionHash :: "BRTransaction \<Rightarrow> nat" where
  "BRTransactionHash tx = unat (lane32 (tx_hash tx) 0)"

definition BRTransactionEq :: "BRTransaction \<Rightarrow> BRTransaction \<Rightarrow> bool" where
  "BRTransactionEq tx other \<longleftrightarrow> UInt256Eq (tx_hash tx) (tx_hash other)"

section \<open>Signing\<close>

text \<open>The key operations: the address of a key (\<open>None\<close> when \<open>BRKeyAddress\<close> returns zero), its public key
  and its signature of a digest.\<close>

record 'k key_ops =
  key_address :: "'k \<Rightarrow> bytes option"
  key_pub :: "'k \<Rightarrow> bytes"
  key_sign :: "'k \<Rightarrow> uint256 \<Rightarrow> bytes"

definition sign_addrs :: "'k key_ops \<Rightarrow> 'k list \<Rightarrow> bytes list" where
  "sign_addrs ops ks = map (\<lambda>k. case key_address ops k of None \<Rightarrow> no_address | Some a \<Rightarrow> a) ks"

text \<open>\<open>while (j < keysCount && ! BRAddressEq(&addrs[j], &address)) j++\<close>\<close>

fun find_key :: "bytes list \<Rightarrow> bytes \<Rightarrow> nat" where
  "find_key [] address = 0"
| "find_key (a # as) address = (if BRAddressEq a address then 0 else find_key as address + 1)"

text \<open>The data is sized by a first call and written by a second.\<close>

definition tx_data_bytes :: "BRTransaction \<Rightarrow> nat \<Rightarrow> u32 \<Rightarrow> bytes run" where
  "tx_data_bytes tx index hashType = do {
     (n, _) \<leftarrow> BRTransactionData tx index hashType None;
     (n, data) \<leftarrow> BRTransactionData tx index hashType (Some (replicate n 0));
     slice (the data) 0 n
   }"

text \<open>Pushes into a local array, one behind the other.\<close>

definition push_all :: "nat \<Rightarrow> bytes list \<Rightarrow> bytes run" where
  "push_all n xs = do {
     (script, scriptLen) \<leftarrow> w_all (map (\<lambda>x. w_sub (\<lambda>b. Some (BRScriptPushData b x))) xs) (Some (replicate n 0), 0);
     slice (the script) 0 scriptLen
   }"

definition sign_input :: "bool \<Rightarrow> 'k key_ops \<Rightarrow> 'k list \<Rightarrow> bytes list \<Rightarrow> u32 \<Rightarrow> BRTransaction \<Rightarrow> nat \<Rightarrow> BRTransaction run" where
  "sign_input testnet ops keys addrs forkId tx i =
     (let input = tx_inputs tx ! i in
      case in_script input of
        None \<Rightarrow> Some tx
      | Some s \<Rightarrow> do {
          s \<leftarrow> slice s 0 (in_scriptLen input);
          (n, address) \<leftarrow> BRAddressFromScriptPubKey testnet (Some no_address) s;
          let j = find_key addrs (the address);
          (if n = 0 \<or> j \<ge> length keys then Some tx
           else do {
             let (count, elems) = script_elems s;
             let pubKey = key_pub ops (keys ! j);
             data \<leftarrow> tx_data_bytes tx i (forkId OR SIGHASH_ALL);
             let md = UInt256Get (BRSHA256_2 data);
             let sig = key_sign ops (keys ! j) md @ [ucast (forkId OR SIGHASH_ALL)];
             script \<leftarrow> push_all (1 + 73 + 1 + length pubKey)
               (if count \<ge> 2 \<and> elem_op s elems (count - 2) = OP_EQUALVERIFY then [sig, pubKey] else [sig]);
             input \<leftarrow> BRTxInputSetSignature testnet input (Some script);
             Some (tx\<lparr>tx_inputs := (tx_inputs tx)[i := input]\<rparr>)
           })
        })"

fun sign_loop :: "bool \<Rightarrow> 'k key_ops \<Rightarrow> 'k list \<Rightarrow> bytes list \<Rightarrow> u32 \<Rightarrow> nat list \<Rightarrow> BRTransaction \<Rightarrow> BRTransaction run" where
  "sign_loop testnet ops keys addrs forkId [] tx = Some tx"
| "sign_loop testnet ops keys addrs forkId (i # is) tx =
     sign_input testnet ops keys addrs forkId tx i \<bind> sign_loop testnet ops keys addrs forkId is"

definition BRTransactionSign ::
  "bool \<Rightarrow> 'k key_ops \<Rightarrow> BRTransaction \<Rightarrow> u32 \<Rightarrow> 'k list \<Rightarrow> (bool \<times> BRTransaction) run" where
  "BRTransactionSign testnet ops tx forkId keys = do {
     tx \<leftarrow> sign_loop testnet ops keys (sign_addrs ops keys) forkId [0..<length (tx_inputs tx)] tx;
     (if BRTransactionIsSigned tx then do {
        data \<leftarrow> tx_data_bytes tx SIZE_MAX 0;
        Some (True, tx\<lparr>tx_hash := UInt256Get (BRSHA256_2 data)\<rparr>)
      } else Some (False, tx))
   }"

end
