(* ===== verification/TxSpec.thy ===== *)
theory TxSpec
  imports Transaction SetRefine "HOL-Library.Multiset"
begin

text \<open>
  Properties of the transaction model: what each serialiser writes, the round trip with the parser, the
  data a signature covers, sizes and fees, shuffling and signing.
\<close>

interpretation transaction_set: hash_contract BRTransactionHash BRTransactionEq
  by unfold_locales (auto simp: BRTransactionHash_def BRTransactionEq_def)

section \<open>What a writer writes\<close>

text \<open>\<open>writes w x\<close>: with room for them the writer stores the bytes \<open>x\<close>, and it always advances by their
  number when it only counts. \<open>emits f x\<close> is the same for a function with a size as its result.\<close>

definition writes :: "writer \<Rightarrow> bytes \<Rightarrow> bool" where
  "writes w x \<longleftrightarrow> (\<forall>off. w (None, off) = Some (None, off + length x)) \<and>
     (\<forall>d off. off + length x \<le> length d \<longrightarrow> w (Some d, off) = Some (Some (put d off x), off + length x))"

definition emits :: "(bytes option \<Rightarrow> (nat \<times> bytes option) run) \<Rightarrow> bytes \<Rightarrow> bool" where
  "emits f x \<longleftrightarrow> f None = Some (length x, None) \<and>
     (\<forall>d. length x \<le> length d \<longrightarrow> f (Some d) = Some (length x, Some (put d 0 x)))"

lemma writes_raw: "writes (w_raw x) x"
  by (simp add: writes_def w_raw_def)

lemma writes_sub:
  assumes "emits f x"
  shows "writes (w_sub f) x"
proof -
  have "take off d @ put (drop off d) 0 x = put d off x" for d off
    by (simp add: put_def add.commute)
  then show ?thesis using assms by (simp add: writes_def w_sub_def emits_def)
qed

lemma writes_varint: "v < 2 ^ 64 \<Longrightarrow> writes (w_varint v) (varint_bytes (of_nat v))"
  unfolding w_varint_def by (rule writes_sub) (simp add: emits_def varint_set_eq store_if_fits_def)

text \<open>The object behind a pointer with a length beside it.\<close>

definition ptr_bytes :: "bytes option \<Rightarrow> nat \<Rightarrow> bytes" where
  "ptr_bytes p n = (case p of None \<Rightarrow> [] | Some x \<Rightarrow> take n x)"

definition ptr_ok :: "bytes option \<Rightarrow> nat \<Rightarrow> bool" where
  "ptr_ok p n \<longleftrightarrow> n < 2 ^ 32 \<and> (case p of None \<Rightarrow> n = 0 | Some x \<Rightarrow> n \<le> length x)"

lemma length_ptr_bytes: "ptr_ok p n \<Longrightarrow> length (ptr_bytes p n) = n"
  by (auto simp: ptr_ok_def ptr_bytes_def split: option.splits)

lemma writes_ptr:
  assumes "ptr_ok p n"
  shows "writes (w_ptr p n) (ptr_bytes p n)"
proof -
  have "(case p of None \<Rightarrow> if n = 0 then Some [] else None | Some x \<Rightarrow> slice x 0 n) = Some (ptr_bytes p n)"
    using assms by (auto simp: ptr_ok_def ptr_bytes_def slice_def split: option.splits)
  then show ?thesis using length_ptr_bytes [OF assms] by (simp add: writes_def w_ptr_def)
qed

lemma writes_Nil: "writes (w_all []) []"
  by (simp add: writes_def)

lemma writes_Cons: "writes w x \<Longrightarrow> writes (w_all ws) y \<Longrightarrow> writes (w_all (w # ws)) (x @ y)"
  by (simp add: writes_def put_put_adjacent add.assoc)

lemma w_all_append: "w_all (vs @ ws) s = w_all vs s \<bind> w_all ws"
proof (induction vs arbitrary: s)
  case Nil
  then show ?case by simp
next
  case (Cons v vs)
  then have "w_all (vs @ ws) = (\<lambda>s. w_all vs s \<bind> w_all ws)" by (intro ext)
  then show ?case by simp
qed

lemma writes_last: "writes w x \<Longrightarrow> writes (w_all [w]) x"
  using writes_Cons [OF _ writes_Nil, of w x] by simp

lemma writes_append: "writes (w_all vs) x \<Longrightarrow> writes (w_all ws) y \<Longrightarrow> writes (w_all (vs @ ws)) (x @ y)"
  by (simp add: writes_def w_all_append put_put_adjacent add.assoc)

lemma writes_concat:
  "(\<And>v. v \<in> set vs \<Longrightarrow> writes (w_all (f v)) (g v)) \<Longrightarrow> writes (w_all (concat (map f vs))) (concat (map g vs))"
  by (induction vs) (simp_all add: writes_Nil writes_append)

lemma writes_map:
  "(\<And>v. v \<in> set vs \<Longrightarrow> writes (f v) (g v)) \<Longrightarrow> writes (w_all (map f vs)) (concat (map g vs))"
  by (induction vs) (simp_all add: writes_Nil writes_Cons)

lemma emits_run: "writes (w_all ws) x \<Longrightarrow> emits (w_run ws) x"
  by (simp add: emits_def writes_def w_run_def w_return_def)

lemmas writes_intros = writes_raw writes_varint writes_ptr writes_sub writes_Nil writes_last writes_Cons

section \<open>The bytes of inputs, outputs and transactions\<close>

definition input_image :: "BRTxInput \<Rightarrow> bytes" where
  "input_image i = UInt256Set (in_txHash i) @ UInt32SetLE (in_index i) @ varint_bytes (of_nat (in_sigLen i)) @
     ptr_bytes (in_signature i) (in_sigLen i) @ (if in_amount i \<noteq> 0 then UInt64SetLE (in_amount i) else []) @
     UInt32SetLE (in_sequence i)"

definition output_image :: "BRTxOutput \<Rightarrow> bytes" where
  "output_image p = UInt64SetLE (out_amount p) @ varint_bytes (of_nat (out_scriptLen p)) @
     ptr_bytes (out_script p) (out_scriptLen p)"

definition outputs_image :: "BRTransaction \<Rightarrow> bytes" where
  "outputs_image tx = varint_bytes (of_nat (length (tx_outputs tx))) @ concat (map output_image (tx_outputs tx))"

text \<open>Pointers of a transaction are as long as their lengths say.\<close>

definition tx_ptrs :: "BRTransaction \<Rightarrow> bool" where
  "tx_ptrs tx \<longleftrightarrow> length (tx_inputs tx) < 2 ^ 32 \<and> length (tx_outputs tx) < 2 ^ 32 \<and>
     (\<forall>i \<in> set (tx_inputs tx). ptr_ok (in_script i) (in_scriptLen i) \<and> ptr_ok (in_signature i) (in_sigLen i)) \<and>
     (\<forall>p \<in> set (tx_outputs tx). ptr_ok (out_script p) (out_scriptLen p))"

lemma emits_input: "ptr_ok (in_signature i) (in_sigLen i) \<Longrightarrow> emits (BRTxInputData i) (input_image i)"
  unfolding BRTxInputData_def input_image_def
  by (rule emits_run) (auto intro!: writes_intros simp: ptr_ok_def)

lemma writes_output: "ptr_ok (out_script p) (out_scriptLen p) \<Longrightarrow> writes (w_all (tx_output_writers p)) (output_image p)"
  unfolding tx_output_writers_def output_image_def
  using writes_Cons [OF writes_raw writes_Cons [OF writes_varint writes_Cons [OF writes_ptr writes_Nil]]]
  by (simp add: ptr_ok_def)

lemma emits_outputs:
  assumes "tx_ptrs tx"
  shows "emits (BRTransactionOutputData tx SIZE_MAX) (concat (map output_image (tx_outputs tx)))"
    "k < length (tx_outputs tx) \<Longrightarrow> emits (BRTransactionOutputData tx k) (output_image (tx_outputs tx ! k))"
proof -
  have w: "writes (w_all (tx_output_writers p)) (output_image p)" if "p \<in> set (tx_outputs tx)" for p
    using that assms by (intro writes_output) (simp add: tx_ptrs_def)
  show "emits (BRTransactionOutputData tx SIZE_MAX) (concat (map output_image (tx_outputs tx)))"
    unfolding BRTransactionOutputData_def by (intro emits_run) (simp add: writes_concat w)
  assume k: "k < length (tx_outputs tx)"
  then have "k \<noteq> SIZE_MAX" using assms by (auto simp: tx_ptrs_def)
  then show "emits (BRTransactionOutputData tx k) (output_image (tx_outputs tx ! k))"
    unfolding BRTransactionOutputData_def using k w [of "tx_outputs tx ! k"] by (intro emits_run) simp
qed

text \<open>An input as it goes on the wire: signed, or with its script and amount in place of the signature.\<close>

definition wire_input :: "BRTxInput \<Rightarrow> BRTxInput" where
  "wire_input i =
     (if in_signature i = None then i\<lparr>in_signature := in_script i, in_sigLen := in_scriptLen i\<rparr> else i\<lparr>in_amount := 0\<rparr>)"

definition tx_image :: "BRTransaction \<Rightarrow> bytes" where
  "tx_image tx = UInt32SetLE (tx_version tx) @ varint_bytes (of_nat (length (tx_inputs tx))) @
     concat (map (input_image \<circ> wire_input) (tx_inputs tx)) @ outputs_image tx @ UInt32SetLE (tx_lockTime tx)"

text \<open>The input under signature carries its script, the others no script at all.\<close>

definition signed_input :: "nat \<Rightarrow> nat \<Rightarrow> BRTxInput \<Rightarrow> BRTxInput" where
  "signed_input index k i =
     (if k = index then i\<lparr>in_signature := in_script i, in_sigLen := in_scriptLen i, in_amount := 0\<rparr>
      else i\<lparr>in_signature := None, in_sigLen := 0, in_amount := 0\<rparr>)"

definition sighash_image :: "BRTransaction \<Rightarrow> nat \<Rightarrow> bytes" where
  "sighash_image tx index = UInt32SetLE (tx_version tx) @ varint_bytes (of_nat (length (tx_inputs tx))) @
     concat (map (\<lambda>k. input_image (signed_input index k (tx_inputs tx ! k))) [0..<length (tx_inputs tx)]) @
     outputs_image tx @ UInt32SetLE (tx_lockTime tx) @ UInt32SetLE SIGHASH_ALL"

text \<open>The digest preimage of BIP143 for \<open>SIGHASH_ALL\<close> with a fork id.\<close>

definition bip143_image :: "BRTransaction \<Rightarrow> nat \<Rightarrow> u32 \<Rightarrow> bytes" where
  "bip143_image tx index hashType =
     (let i = tx_inputs tx ! index in
      UInt32SetLE (tx_version tx) @
      BRSHA256_2 (concat (map (\<lambda>i. UInt256Set (in_txHash i) @ UInt32SetLE (in_index i)) (tx_inputs tx))) @
      BRSHA256_2 (concat (map (\<lambda>i. UInt32SetLE (in_sequence i)) (tx_inputs tx))) @
      UInt256Set (in_txHash i) @ UInt32SetLE (in_index i) @
      varint_bytes (of_nat (in_scriptLen i)) @ ptr_bytes (in_script i) (in_scriptLen i) @
      UInt64SetLE (in_amount i) @ UInt32SetLE (in_sequence i) @
      BRSHA256_2 (concat (map output_image (tx_outputs tx))) @
      UInt32SetLE (tx_lockTime tx) @ UInt32SetLE hashType)"

lemma tx_input_for_wire: "k \<noteq> SIZE_MAX \<Longrightarrow> tx_input_for SIZE_MAX sh k i = wire_input i"
  by (simp add: tx_input_for_def wire_input_def Let_def)

lemma tx_input_for_image:
  "index \<noteq> SIZE_MAX \<Longrightarrow> sh \<noteq> SIGHASH_NONE \<Longrightarrow> sh \<noteq> SIGHASH_SINGLE \<Longrightarrow>
   input_image (tx_input_for index sh k i) = input_image (signed_input index k i)"
  by (simp add: tx_input_for_def signed_input_def input_image_def ptr_bytes_def Let_def split: option.splits)

lemma tx_input_for_ok:
  "ptr_ok (in_script i) (in_scriptLen i) \<Longrightarrow> ptr_ok (in_signature i) (in_sigLen i) \<Longrightarrow>
   ptr_ok (in_signature (tx_input_for index sh k i)) (in_sigLen (tx_input_for index sh k i))"
  by (auto simp: tx_input_for_def ptr_ok_def Let_def split: option.splits)

lemma writes_inputs:
  assumes "tx_ptrs tx"
  shows "writes (w_all (map (\<lambda>k. w_sub (BRTxInputData (tx_input_for index sh k (tx_inputs tx ! k)))) [0..<length (tx_inputs tx)]))
    (concat (map (\<lambda>k. input_image (tx_input_for index sh k (tx_inputs tx ! k))) [0..<length (tx_inputs tx)]))"
  using assms by (intro writes_map writes_sub emits_input tx_input_for_ok) (auto simp: tx_ptrs_def)

text \<open>The writers of the data without a witness, for all outputs.\<close>

lemma emits_tx_data:
  assumes "tx_ptrs tx" "hashType AND SIGHASH_FORKID = 0" "hashType AND SIGHASH_ANYONECANPAY = 0"
    "hashType AND 0x1f \<noteq> SIGHASH_SINGLE" "hashType AND 0x1f \<noteq> SIGHASH_NONE"
  shows "emits (BRTransactionData tx index hashType) (UInt32SetLE (tx_version tx) @
    varint_bytes (of_nat (length (tx_inputs tx))) @
    concat (map (\<lambda>k. input_image (tx_input_for index (hashType AND 0x1f) k (tx_inputs tx ! k))) [0..<length (tx_inputs tx)]) @
    outputs_image tx @ UInt32SetLE (tx_lockTime tx) @ (if index \<noteq> SIZE_MAX then UInt32SetLE hashType else []))"
    (is "emits _ ?x")
proof -
  let ?ws = "[w_raw (UInt32SetLE (tx_version tx))] @
    (w_varint (length (tx_inputs tx)) #
      map (\<lambda>k. w_sub (BRTxInputData (tx_input_for index (hashType AND 0x1f) k (tx_inputs tx ! k)))) [0..<length (tx_inputs tx)]) @
    [w_varint (length (tx_outputs tx)), w_sub (BRTransactionOutputData tx SIZE_MAX)] @
    [w_raw (UInt32SetLE (tx_lockTime tx))] @ (if index \<noteq> SIZE_MAX then [w_raw (UInt32SetLE hashType)] else [])"
  have "BRTransactionData tx index hashType = w_run ?ws"
    using assms(2-) by (intro ext) (simp add: BRTransactionData_def Let_def)
  moreover have "writes (w_all ?ws) (UInt32SetLE (tx_version tx) @
      (varint_bytes (of_nat (length (tx_inputs tx))) @
        concat (map (\<lambda>k. input_image (tx_input_for index (hashType AND 0x1f) k (tx_inputs tx ! k))) [0..<length (tx_inputs tx)])) @
      outputs_image tx @ UInt32SetLE (tx_lockTime tx) @ (if index \<noteq> SIZE_MAX then UInt32SetLE hashType else []))"
    unfolding outputs_image_def
    by (intro writes_append writes_Cons writes_last writes_raw writes_varint writes_inputs writes_sub emits_outputs)
      (use assms(1) in \<open>auto simp: tx_ptrs_def intro: writes_last writes_raw writes_Nil\<close>)
  ultimately show ?thesis using emits_run by (simp only: append_assoc)
qed

lemma map_nth_wire: "map (\<lambda>k. f (xs ! k)) [0..<length xs] = map f xs"
  by (rule nth_equalityI) simp_all

lemma emits_whole_tx:
  assumes "tx_ptrs tx" "hashType AND SIGHASH_FORKID = 0" "hashType AND SIGHASH_ANYONECANPAY = 0"
    "hashType AND 0x1f \<noteq> SIGHASH_SINGLE" "hashType AND 0x1f \<noteq> SIGHASH_NONE"
  shows "emits (BRTransactionData tx SIZE_MAX hashType) (tx_image tx)"
proof -
  have "map (\<lambda>k. input_image (tx_input_for SIZE_MAX (hashType AND 0x1f) k (tx_inputs tx ! k))) [0..<length (tx_inputs tx)] =
      map (\<lambda>k. input_image (wire_input (tx_inputs tx ! k))) [0..<length (tx_inputs tx)]"
    using assms(1) by (intro map_cong) (auto simp: tx_input_for_wire tx_ptrs_def)
  then show ?thesis
    using emits_tx_data [OF assms, of SIZE_MAX]
    by (simp add: tx_image_def map_nth_wire [where f = "input_image \<circ> wire_input", simplified])
qed

lemma emits_serialize: "tx_ptrs tx \<Longrightarrow> emits (BRTransactionSerialize tx) (tx_image tx)"
  by (simp add: BRTransactionSerialize_def emits_whole_tx)

lemma emits_sighash:
  assumes "tx_ptrs tx" "index < length (tx_inputs tx)"
  shows "emits (BRTransactionData tx index SIGHASH_ALL) (sighash_image tx index)"
proof -
  have i: "index \<noteq> SIZE_MAX" using assms by (auto simp: tx_ptrs_def)
  then have m: "map (\<lambda>k. input_image (tx_input_for index 1 k (tx_inputs tx ! k))) [0..<length (tx_inputs tx)] =
      map (\<lambda>k. input_image (signed_input index k (tx_inputs tx ! k))) [0..<length (tx_inputs tx)]"
    by (intro map_cong) (auto simp: tx_input_for_image)
  then show ?thesis
    using emits_tx_data [OF assms(1), of SIGHASH_ALL index] i unfolding sighash_image_def m [symmetric] by simp
qed

lemma tx_output_bytes_all: "tx_ptrs tx \<Longrightarrow> tx_output_bytes tx SIZE_MAX = Some (concat (map output_image (tx_outputs tx)))"
  using emits_outputs(1) [of tx] by (simp add: tx_output_bytes_def emits_def slice_def put_0)

lemma emits_bip143:
  assumes "tx_ptrs tx" "index < length (tx_inputs tx)" "in_amount (tx_inputs tx ! index) \<noteq> 0"
  shows "emits (BRTransactionData tx index (SIGHASH_FORKID OR SIGHASH_ALL)) (bip143_image tx index (SIGHASH_FORKID OR SIGHASH_ALL))"
proof -
  let ?i = "tx_inputs tx ! index"
  let ?j = "?i\<lparr>in_signature := in_script ?i, in_sigLen := in_scriptLen ?i\<rparr>"
  let ?ws = "[w_raw (UInt32SetLE (tx_version tx)),
      w_raw (BRSHA256_2 (concat (map (\<lambda>i. UInt256Set (in_txHash i) @ UInt32SetLE (in_index i)) (tx_inputs tx)))),
      w_raw (BRSHA256_2 (concat (map (\<lambda>i. UInt32SetLE (in_sequence i)) (tx_inputs tx)))), w_sub (BRTxInputData ?j),
      w_raw (BRSHA256_2 (concat (map output_image (tx_outputs tx)))), w_raw (UInt32SetLE (tx_lockTime tx)),
      w_raw (UInt32SetLE (SIGHASH_FORKID OR SIGHASH_ALL))]"
  have "BRTransactionData tx index (SIGHASH_FORKID OR SIGHASH_ALL) = w_run ?ws"
    using assms(2) by (intro ext) (simp add: BRTransactionData_def BRTransactionWitnessData_def tx_output_bytes_all [OF assms(1)] Let_def)
  moreover have "ptr_ok (in_signature ?j) (in_sigLen ?j)" using assms(1,2) by (simp add: tx_ptrs_def)
  note emits_input [OF this]
  then have "writes (w_all ?ws) (UInt32SetLE (tx_version tx) @
      BRSHA256_2 (concat (map (\<lambda>i. UInt256Set (in_txHash i) @ UInt32SetLE (in_index i)) (tx_inputs tx))) @
      BRSHA256_2 (concat (map (\<lambda>i. UInt32SetLE (in_sequence i)) (tx_inputs tx))) @ input_image ?j @
      BRSHA256_2 (concat (map output_image (tx_outputs tx))) @ UInt32SetLE (tx_lockTime tx) @
      UInt32SetLE (SIGHASH_FORKID OR SIGHASH_ALL))"
    by (intro writes_intros)
  ultimately show ?thesis
    using emits_run assms(3) by (simp only: bip143_image_def input_image_def Let_def append_assoc) simp
qed

text \<open>A transaction with one signed input and one output.\<close>

definition example_tx :: BRTransaction where
  "example_tx = BRTransactionNew\<lparr>
     tx_inputs := [tx_input_zero\<lparr>in_txHash := 7, in_amount := 5000, in_signature := Some [1, 2, 3], in_sigLen := 3,
       in_sequence := TXIN_SEQUENCE\<rparr>],
     tx_outputs := [BR_TX_OUTPUT_NONE\<lparr>out_amount := 4000, out_script := Some [0x51], out_scriptLen := 1\<rparr>]\<rparr>"

lemma example_tx_ptrs: "tx_ptrs example_tx"
  by (simp add: tx_ptrs_def example_tx_def BRTransactionNew_def ptr_ok_def tx_input_zero_def BR_TX_OUTPUT_NONE_def)

section \<open>Sizes\<close>

lemma foldl_add: "foldl (\<lambda>n i. n + f i) m xs = m + sum_list (map f xs)" for m :: nat
  by (induction xs arbitrary: m) simp_all

lemma length_concat_map: "length (concat (map f xs)) = sum_list (map (\<lambda>x. length (f x)) xs)"
  by (induction xs) simp_all

lemma signed_loop_iff: "signed_loop is \<longleftrightarrow> (\<forall>i \<in> set is. in_signature i \<noteq> None)"
  by (induction "is") auto

lemma length_signed_input:
  assumes "in_signature i \<noteq> None" "ptr_ok (in_signature i) (in_sigLen i)"
  shows "length (input_image (wire_input i)) = tx_input_size i"
  using assms length_ptr_bytes [OF assms(2)] by (auto simp: input_image_def wire_input_def tx_input_size_def varint_size_eq)

lemma length_output_image:
  "ptr_ok (out_script p) (out_scriptLen p) \<Longrightarrow> length (output_image p) = tx_output_size p"
  by (simp add: output_image_def tx_output_size_def varint_size_eq length_ptr_bytes)

lemma tx_size_eq:
  assumes "tx_ptrs tx" "BRTransactionIsSigned tx"
  shows "BRTransactionSize tx = length (tx_image tx)"
proof -
  have i: "(\<Sum>i\<leftarrow>tx_inputs tx. length (input_image (wire_input i))) = sum_list (map tx_input_size (tx_inputs tx))"
    using assms by (intro arg_cong [where f = sum_list] map_cong) (auto simp: tx_ptrs_def BRTransactionIsSigned_def signed_loop_iff length_signed_input)
  have p: "(\<Sum>p\<leftarrow>tx_outputs tx. length (output_image p)) = sum_list (map tx_output_size (tx_outputs tx))"
    using assms by (intro arg_cong [where f = sum_list] map_cong) (auto simp: tx_ptrs_def length_output_image)
  show ?thesis
    by (simp add: i p BRTransactionSize_def tx_image_def outputs_image_def foldl_add length_concat_map varint_size_eq Let_def)
qed

text \<open>For a signed transaction the size is the number of bytes the serialiser writes, and the
  standard fee is the least multiple of the fee per kilobyte that pays for every started kilobyte.\<close>

theorem tx_size_is_serialised_size:
  assumes "tx_ptrs tx" "BRTransactionIsSigned tx"
  shows "BRTransactionSerialize tx None = Some (BRTransactionSize tx, None) \<and>
    (\<exists>k. BRTransactionStandardFee tx = k * TX_FEE_PER_KB \<and> BRTransactionSize tx \<le> k * 1000 \<and> k * 1000 < BRTransactionSize tx + 1000)"
proof -
  let ?n = "BRTransactionSize tx"
  have "?n \<le> (?n + 999) div 1000 * 1000" "(?n + 999) div 1000 * 1000 < ?n + 1000" by linarith+
  moreover have "BRTransactionSerialize tx None = Some (?n, None)"
    using emits_serialize [OF assms(1)] tx_size_eq [OF assms] by (simp add: emits_def)
  ultimately show ?thesis unfolding BRTransactionStandardFee_def by blast
qed

theorem tx_size_is_serialised_size_witness:
  "BRTransactionSerialize example_tx None = Some (BRTransactionSize example_tx, None)"
  using tx_size_is_serialised_size [OF example_tx_ptrs]
  by (simp add: example_tx_def BRTransactionIsSigned_def)

section \<open>Buffers without room, and messages that lie about their lengths\<close>

text \<open>How a writer moves the offset in a buffer of \<open>n\<close> bytes, whether or not its fields fit.\<close>

definition tracks :: "writer \<Rightarrow> (nat \<Rightarrow> nat \<Rightarrow> nat) \<Rightarrow> bool" where
  "tracks w f \<longleftrightarrow> (\<forall>d off. \<exists>d'. w (Some d, off) = Some (Some d', f (length d) off) \<and> length d' = length d)"

definition returns :: "(bytes option \<Rightarrow> (nat \<times> bytes option) run) \<Rightarrow> (nat \<Rightarrow> nat) \<Rightarrow> bool" where
  "returns f r \<longleftrightarrow> (\<forall>d. \<exists>d'. f (Some d) = Some (r (length d), Some d') \<and> length d' = length d)"

lemma returnsD: "returns f r \<Longrightarrow> r (length d) = k \<Longrightarrow> \<exists>d'. f (Some d) = Some (k, Some d')"
  unfolding returns_def by blast

lemma tracks_raw: "tracks (w_raw x) (\<lambda>n off. off + length x)"
  by (simp add: tracks_def w_raw_def)

lemma tracks_ptr: "ptr_ok p k \<Longrightarrow> tracks (w_ptr p k) (\<lambda>n off. off + k)"
  by (auto simp: tracks_def w_ptr_def ptr_ok_def slice_def split: option.splits)

lemma tracks_sub:
  assumes "returns f r"
  shows "tracks (w_sub f) (\<lambda>n off. off + r (n - off))"
  unfolding tracks_def
proof (intro allI)
  fix d :: bytes and off
  obtain d' where "f (Some (drop off d)) = Some (r (length d - off), Some d')" "length d' = length d - off"
    using assms unfolding returns_def by (metis length_drop)
  then show "\<exists>d'. w_sub f (Some d, off) = Some (Some d', off + r (length d - off)) \<and> length d' = length d"
    by (simp add: w_sub_def)
qed

text \<open>The bytes a varint takes in what is left of the buffer.\<close>

definition varint_room :: "nat \<Rightarrow> nat \<Rightarrow> nat" where
  "varint_room v room = (let k = length (varint_bytes (of_nat v)) in if k \<le> room then k else 0)"

lemma tracks_varint:
  "tracks (w_varint v) (\<lambda>n off. off + varint_room v (n - off))"
  unfolding w_varint_def varint_room_def by (rule tracks_sub) (simp add: returns_def varint_set_eq store_if_fits_def Let_def)

lemma tracks_Nil: "tracks (w_all []) (\<lambda>n off. off)"
  by (simp add: tracks_def)

lemma tracks_Cons: "tracks w f \<Longrightarrow> tracks (w_all ws) g \<Longrightarrow> tracks (w_all (w # ws)) (\<lambda>n off. g n (f n off))"
  unfolding tracks_def by simp (metis bind.bind_lunit)

lemma returns_run: "tracks (w_all ws) f \<Longrightarrow> returns (w_run ws) (\<lambda>n. if f n 0 \<le> n then f n 0 else 0)"
  unfolding tracks_def returns_def w_run_def w_return_def by (fastforce split: if_splits)

lemmas tracks_intros = tracks_raw tracks_ptr tracks_sub tracks_varint tracks_Nil tracks_Cons

lemma returns_input:
  assumes "ptr_ok (in_signature i) (in_sigLen i)" "in_amount i = 0"
  shows "returns (BRTxInputData i) (\<lambda>n. let off = 36 + varint_room (in_sigLen i) (n - 36) + in_sigLen i + 4
    in if off \<le> n then off else 0)"
  using returns_run [OF tracks_Cons [OF tracks_raw [of "UInt256Set (in_txHash i)"] tracks_Cons [OF tracks_raw [of "UInt32SetLE (in_index i)"]
      tracks_Cons [OF tracks_varint [of "in_sigLen i"] tracks_Cons [OF tracks_ptr [OF assms(1)] tracks_Cons [OF tracks_raw [of "UInt32SetLE (in_sequence i)"] tracks_Nil]]]]]]
    assms(2)
  unfolding BRTxInputData_def Let_def by (simp add: ac_simps cong: if_cong)

lemma returns_output:
  assumes "ptr_ok (out_script p) (out_scriptLen p)"
  shows "returns (w_run (tx_output_writers p)) (\<lambda>n. let off = 8 + varint_room (out_scriptLen p) (n - 8) + out_scriptLen p
    in if off \<le> n then off else 0)"
  using returns_run [OF tracks_Cons [OF tracks_raw [of "UInt64SetLE (out_amount p)"]
      tracks_Cons [OF tracks_varint [of "out_scriptLen p"] tracks_Cons [OF tracks_ptr [OF assms] tracks_Nil]]]]
  unfolding tx_output_writers_def Let_def by (simp add: ac_simps cong: if_cong)

text \<open>Every serialiser stays inside whatever buffer it gets and returns at most its size.\<close>

lemma tracks_all: "\<forall>w \<in> set ws. \<exists>f. tracks w f \<Longrightarrow> \<exists>f. tracks (w_all ws) f"
  by (induction ws) (auto intro: tracks_Nil tracks_Cons)

definition stays :: "(bytes option \<Rightarrow> (nat \<times> bytes option) run) \<Rightarrow> bool" where
  "stays f \<longleftrightarrow> (\<exists>r. returns f r \<and> (\<forall>n. r n \<le> n))"

lemma stays_run: "\<forall>w \<in> set ws. \<exists>f. tracks w f \<Longrightarrow> stays (w_run ws)"
proof -
  assume "\<forall>w \<in> set ws. \<exists>f. tracks w f"
  then obtain f where "tracks (w_all ws) f" using tracks_all by blast
  then have "returns (w_run ws) (\<lambda>n. if f n 0 \<le> n then f n 0 else 0)" by (rule returns_run)
  then show ?thesis unfolding stays_def by (intro exI) auto
qed

lemma staysD: "stays f \<Longrightarrow> \<exists>n d'. f (Some d) = Some (n, Some d') \<and> length d' = length d \<and> n \<le> length d"
  unfolding stays_def returns_def by metis

lemma tracks_stays: "stays f \<Longrightarrow> \<exists>g. tracks (w_sub f) g"
  unfolding stays_def using tracks_sub by blast

lemma stays_input: "ptr_ok (in_signature i) (in_sigLen i) \<Longrightarrow> stays (BRTxInputData i)"
  unfolding BRTxInputData_def by (rule stays_run) (auto intro: tracks_raw tracks_ptr tracks_varint)

lemma stays_outputs:
  assumes "tx_ptrs tx"
  shows "stays (BRTransactionOutputData tx index)"
  unfolding BRTransactionOutputData_def
proof (rule stays_run, rule ballI)
  let ?outs = "if index = SIZE_MAX then tx_outputs tx else if index < length (tx_outputs tx) then [tx_outputs tx ! index] else []"
  fix w assume "w \<in> set (concat (map tx_output_writers ?outs))"
  then obtain p where p: "p \<in> set (tx_outputs tx)" "w \<in> set (tx_output_writers p)"
    by (auto split: if_splits intro: nth_mem)
  then have "ptr_ok (out_script p) (out_scriptLen p)" using assms by (simp add: tx_ptrs_def)
  then show "\<exists>f. tracks w f" using p(2) by (auto simp: tx_output_writers_def intro: tracks_raw tracks_ptr tracks_varint)
qed

lemma input_for_ptr:
  assumes "ptr_ok (in_script x) (in_scriptLen x)" "ptr_ok (in_signature x) (in_sigLen x)"
  shows "ptr_ok (in_signature (tx_input_for index h k x)) (in_sigLen (tx_input_for index h k x))"
  using assms by (auto simp: tx_input_for_def ptr_ok_def Let_def split: option.splits)

lemma stays_tx_data:
  assumes "tx_ptrs tx"
  shows "stays (BRTransactionData tx index SIGHASH_ALL)"
proof -
  have i: "\<exists>f. tracks (w_sub (BRTxInputData (tx_input_for index h k (tx_inputs tx ! k)))) f" if "k < length (tx_inputs tx)" for h k
    using assms(1) that by (intro tracks_stays stays_input input_for_ptr) (auto simp: tx_ptrs_def)
  have o: "\<exists>f. tracks (w_sub (BRTransactionOutputData tx SIZE_MAX)) f" by (rule tracks_stays [OF stays_outputs [OF assms(1)]])
  let ?ws = "[w_raw (UInt32SetLE (tx_version tx))] @
      (w_varint (length (tx_inputs tx)) #
        map (\<lambda>k. w_sub (BRTxInputData (tx_input_for index (SIGHASH_ALL AND 0x1f) k (tx_inputs tx ! k)))) [0..<length (tx_inputs tx)]) @
      [w_varint (length (tx_outputs tx)), w_sub (BRTransactionOutputData tx SIZE_MAX)] @
      [w_raw (UInt32SetLE (tx_lockTime tx))] @ (if index \<noteq> SIZE_MAX then [w_raw (UInt32SetLE SIGHASH_ALL)] else [])"
  have "BRTransactionData tx index SIGHASH_ALL = w_run ?ws"
    by (rule ext) (simp add: BRTransactionData_def Let_def)
  moreover have "stays (w_run ?ws)" by (rule stays_run) (auto intro: tracks_raw tracks_varint o i)
  ultimately show ?thesis by simp
qed

text \<open>C28: serialising a transaction whose scripts and signatures have the stated lengths, whatever mix of signed
  and unsigned inputs it has, writes exactly its wire image: the call with a null buffer returns its length, a call
  with a buffer of at least that length writes it at the front and returns the same length. A call with a
  shorter buffer stays inside it, and returns some number that is not above its size (which need not be zero).
  The data to sign for an input is the preimage of the original signature hash, with the script of that
  input only, and stays inside short buffers in the same way; with a fork id it is the preimage of BIP143, for a
  non-zero amount.\<close>

theorem tx_serialisers_write_images:
  assumes "tx_ptrs tx"
  shows "emits (BRTransactionSerialize tx) (tx_image tx) \<and>
    (\<forall>d. \<exists>n d'. BRTransactionSerialize tx (Some d) = Some (n, Some d') \<and> length d' = length d \<and> n \<le> length d) \<and>
    (\<forall>index < length (tx_inputs tx). emits (BRTransactionData tx index SIGHASH_ALL) (sighash_image tx index) \<and>
      (\<forall>d. \<exists>n d'. BRTransactionData tx index SIGHASH_ALL (Some d) = Some (n, Some d') \<and> length d' = length d \<and> n \<le> length d) \<and>
      (in_amount (tx_inputs tx ! index) \<noteq> 0 \<longrightarrow>
        emits (BRTransactionData tx index (SIGHASH_FORKID OR SIGHASH_ALL))
          (bip143_image tx index (SIGHASH_FORKID OR SIGHASH_ALL))))"
proof -
  have "stays (BRTransactionSerialize tx)"
    unfolding BRTransactionSerialize_def by (rule stays_tx_data [OF assms])
  then show ?thesis
    using emits_serialize emits_sighash emits_bip143 assms staysD [OF stays_tx_data [OF assms]] staysD by blast
qed

theorem tx_serialisers_write_images_witness:
  "BRTransactionSerialize example_tx None = Some (length (tx_image example_tx), None)"
  using tx_serialisers_write_images [OF example_tx_ptrs] by (simp add: emits_def)

definition big_input :: BRTxInput where
  "big_input = tx_input_zero\<lparr>in_signature := Some (replicate 100 1), in_sigLen := 100\<rparr>"

definition small_output :: BRTxOutput where
  "small_output = BR_TX_OUTPUT_NONE\<lparr>out_script := Some [0x51], out_scriptLen := 1\<rparr>"

definition big_input_tx :: BRTransaction where
  "big_input_tx = BRTransactionNew\<lparr>tx_inputs := [big_input], tx_outputs := [small_output]\<rparr>"

text \<open>Serialising into a buffer that is too small does not always report it. A transaction of 161
  bytes written to a buffer of 60 returns 20: the input does not fit and contributes nothing, neither
  bytes nor length, and what comes behind it still fits.\<close>

theorem tx_serialize_small_buffer:
  "BRTransactionSerialize big_input_tx None = Some (161, None) \<and>
   (\<exists>d. BRTransactionSerialize big_input_tx (Some (replicate 60 0)) = Some (20, Some d))"
proof
  have ok: "ptr_ok (in_signature big_input) (in_sigLen big_input)" "ptr_ok (in_script big_input) (in_scriptLen big_input)"
    "ptr_ok (out_script small_output) (out_scriptLen small_output)"
    by (simp_all add: big_input_def small_output_def ptr_ok_def tx_input_zero_def BR_TX_OUTPUT_NONE_def)
  have f: "in_amount big_input = 0" "in_signature big_input \<noteq> None" "in_sigLen big_input = 100" "out_scriptLen small_output = 1"
    "tx_inputs big_input_tx = [big_input]" "tx_outputs big_input_tx = [small_output]"
    by (simp_all add: big_input_def small_output_def big_input_tx_def tx_input_zero_def)
  have r: "varint_room 1 n = (if 1 \<le> n then 1 else 0)" "varint_room 100 n = (if 1 \<le> n then 1 else 0)" for n
    by (simp_all add: varint_room_def varint_length Let_def)
  have "tx_ptrs big_input_tx" "BRTransactionIsSigned big_input_tx" "BRTransactionSize big_input_tx = 161"
    using ok f by (simp_all add: tx_ptrs_def BRTransactionIsSigned_def BRTransactionSize_def tx_input_size_def
        tx_output_size_def varint_size_eq varint_length Let_def)
  then show "BRTransactionSerialize big_input_tx None = Some (161, None)"
    using tx_size_is_serialised_size [of big_input_tx] by simp
  have i: "returns (BRTxInputData big_input) (\<lambda>n. if 140 + varint_room 100 (n - 36) \<le> n then 140 + varint_room 100 (n - 36) else 0)"
    using returns_input [OF ok(1) f(1)] unfolding f Let_def by (simp add: ac_simps cong: if_cong)
  have p: "returns (BRTransactionOutputData big_input_tx SIZE_MAX) (\<lambda>n. if 9 + varint_room 1 (n - 8) \<le> n then 9 + varint_room 1 (n - 8) else 0)"
    using returns_output [OF ok(3)] unfolding BRTransactionOutputData_def f Let_def by (simp add: ac_simps cong: if_cong)
  have "tx_input_for SIZE_MAX 1 0 big_input = big_input" using f(1,2) by (cases big_input) (auto simp: tx_input_for_def)
  then have "BRTransactionSerialize big_input_tx = w_run [w_raw (UInt32SetLE (tx_version big_input_tx)), w_varint 1,
      w_sub (BRTxInputData big_input), w_varint 1, w_sub (BRTransactionOutputData big_input_tx SIZE_MAX),
      w_raw (UInt32SetLE (tx_lockTime big_input_tx))]"
    by (intro ext) (simp add: BRTransactionSerialize_def BRTransactionData_def f Let_def)
  then show "\<exists>d. BRTransactionSerialize big_input_tx (Some (replicate 60 0)) = Some (20, Some d)"
    by (simp only:) (rule returnsD [OF returns_run [OF tracks_Cons [OF tracks_raw tracks_Cons [OF tracks_varint
      tracks_Cons [OF tracks_sub [OF i] tracks_Cons [OF tracks_varint tracks_Cons [OF tracks_sub [OF p]
      tracks_Cons [OF tracks_raw tracks_Nil]]]]]]]], simp add: r r [simplified])
qed

text \<open>C38: an input whose declared script length is just below \<open>2 ^ 64\<close> moves the offset in front of the
  buffer, and the bound check of its sequence number wraps around: the parser reads outside.\<close>

theorem tx_parse_wraps:
  assumes "length version = 4" "length outpoint = 36"
  shows "BRTransactionParse testnet
    (Some (version @ [1] @ outpoint @ [0xff, 0xcc, 0xff, 0xff, 0xff, 0xff, 0xff, 0xff, 0xff])) = None"
proof -
  define t :: bytes where "t = [0xff, 0xcc, 0xff, 0xff, 0xff, 0xff, 0xff, 0xff, 0xff]"
  define b where "b = version @ [1] @ outpoint @ t"
  have len: "length b = 50" using assms by (simp add: b_def t_def)
  have d: "drop 4 b = 1 # outpoint @ t" "drop 41 b = t" using assms by (simp_all add: b_def)
  have v: "varint_at b 4 = (1, 1)" "varint_at b 41 = (0xffffffffffffffcc, 9)"
    by (simp_all add: varint_at_def BRVarInt_def d) (simp_all add: t_def UInt64GetLE_def)
  have r: "read_or0 4 UInt32GetLE b 0xfffffffffffffffe = None" "\<not> fits b 50 0xffffffffffffffcc"
    "read_or0 32 UInt256Get b 5 \<noteq> None" "read_or0 4 UInt32GetLE b 37 \<noteq> None" "read_or0 4 UInt32GetLE b 0 \<noteq> None"
    by (simp_all add: read_or0_def fits_def get_at_def slice_def len)
  then have p: "parse_input testnet b 5 = None"
    unfolding parse_input_def Let_def by (auto simp: v)
  then have "BRTransactionParse testnet (Some b) = None"
    using r(5) unfolding BRTransactionParse_def option.case Let_def by (auto simp: v array_fits_def p len)
  then show ?thesis by (simp only: b_def t_def)
qed

theorem tx_parse_wraps_witness:
  "BRTransactionParse False
    (Some (replicate 4 0 @ [1] @ replicate 36 0 @ [0xff, 0xcc, 0xff, 0xff, 0xff, 0xff, 0xff, 0xff, 0xff])) = None"
  by (rule tx_parse_wraps) simp_all

section \<open>Round trip\<close>

text \<open>\<open>is_pubkey_script\<close>: a script an address can be read from. The parser takes such a script in an input
  for the script of the output it spends, and anything else for a signature.\<close>

definition is_pubkey_script :: "bool \<Rightarrow> bytes \<Rightarrow> bool" where
  "is_pubkey_script testnet s \<longleftrightarrow> fst (the (BRAddressFromScriptPubKey testnet None s)) > 0"

definition pubkey_address :: "bool \<Rightarrow> bytes \<Rightarrow> bytes" where
  "pubkey_address testnet s = the (snd (the (BRAddressFromScriptPubKey testnet (Some no_address) s)))"

definition sig_address :: "bool \<Rightarrow> bytes \<Rightarrow> bytes" where
  "sig_address testnet s = the (snd (the (BRAddressFromScriptSig testnet (Some no_address) s)))"

definition signed_form :: "bool \<Rightarrow> BRTxInput \<Rightarrow> bool" where
  "signed_form testnet i \<longleftrightarrow> (\<exists>s. in_signature i = Some s \<and> in_sigLen i = length s \<and> length s < 2 ^ 32 \<and>
     \<not> is_pubkey_script testnet s \<and> in_script i = None \<and> in_scriptLen i = 0 \<and> in_amount i = 0 \<and>
     in_address i = sig_address testnet s)"

definition unsigned_form :: "bool \<Rightarrow> BRTxInput \<Rightarrow> bool" where
  "unsigned_form testnet i \<longleftrightarrow> (\<exists>s. in_script i = Some s \<and> in_scriptLen i = length s \<and> is_pubkey_script testnet s \<and>
     in_signature i = None \<and> in_sigLen i = 0 \<and> in_amount i \<noteq> 0 \<and> in_address i = pubkey_address testnet s)"

definition output_form :: "bool \<Rightarrow> BRTxOutput \<Rightarrow> bool" where
  "output_form testnet p \<longleftrightarrow> (\<exists>s. out_script p = Some s \<and> out_scriptLen p = length s \<and> length s < 2 ^ 32 \<and>
     out_address p = pubkey_address testnet s)"

lemma pubkey_defined: "\<exists>n a. BRAddressFromScriptPubKey testnet addr s = Some (n, a)"
  and sig_defined: "\<exists>n a. BRAddressFromScriptSig testnet addr s = Some (n, a)"
  using address_from_script_defined [of testnet addr s] by auto

lemma pubkey_script_short: "is_pubkey_script testnet s \<Longrightarrow> length s \<le> 256"
  by (rule ccontr) (simp add: is_pubkey_script_def BRAddressFromScriptPubKey_def)

lemma pubkey_script_at_eq:
  assumes "slice buf (unat off) (unat n) = Some s"
  shows "pubkey_script_at testnet buf off n = Some (is_pubkey_script testnet s)"
proof -
  have "length s = unat n" using assms by (auto simp: slice_eq_Some_iff)
  moreover obtain k a where "BRAddressFromScriptPubKey testnet None s = Some (k, a)"
    using pubkey_defined by blast
  moreover have "\<not> is_pubkey_script testnet s" if "256 < length s"
    using pubkey_script_short [of testnet s] that by auto
  ultimately show ?thesis
    using assms by (cases "256 < length s") (auto simp: pubkey_script_at_def is_pubkey_script_def)
qed

lemma set_script_eq:
  "BRTxInputSetScript testnet i (Some s) =
    Some (i\<lparr>in_script := Some s, in_scriptLen := length s, in_address := pubkey_address testnet s\<rparr>)"
  using pubkey_defined [of testnet "Some no_address" s] by (auto simp: BRTxInputSetScript_def pubkey_address_def)

lemma set_output_eq:
  "BRTxOutputSetScript testnet p (Some s) =
    Some (p\<lparr>out_script := Some s, out_scriptLen := length s, out_address := pubkey_address testnet s\<rparr>)"
  using pubkey_defined [of testnet "Some no_address" s] by (auto simp: BRTxOutputSetScript_def pubkey_address_def)

lemma set_signature_eq:
  "in_address i = no_address \<Longrightarrow> BRTxInputSetSignature testnet i (Some s) =
    Some (i\<lparr>in_signature := Some s, in_sigLen := length s, in_address := sig_address testnet s\<rparr>)"
  using sig_defined [of testnet "Some no_address" s] by (auto simp: BRTxInputSetSignature_def sig_address_def)

text \<open>Offsets of a parser inside a buffer below half the address space.\<close>

lemma fits_at:
  assumes "at buf o' x" "length buf < 2 ^ 63" "unat n = length x"
  shows "fits buf (of_nat o') n" "slice buf (unat (of_nat o' :: u64)) (unat n) = Some x"
proof -
  have o': "o' + length x \<le> length buf" using assms(1) by (simp add: at_def)
  then have u: "unat (of_nat o' :: u64) = o'" using assms(2) by (simp add: unat_of_nat)
  then show "fits buf (of_nat o') n" using o' assms by (subst fits_plain) simp_all
  show "slice buf (unat (of_nat o' :: u64)) (unat n) = Some x"
    using at_slice [OF assms(1)] assms(3) by (simp add: u)
qed

lemma of_nat_length: "length x < 2 ^ 64 \<Longrightarrow> unat (of_nat (length x) :: u64) = length x"
  by (simp add: unat_of_nat)

lemma parse_signed_input:
  assumes i: "signed_form testnet i" and "at buf o' (input_image (wire_input i))" "length buf < 2 ^ 63"
  shows "parse_input testnet buf (of_nat o') = Some (i, of_nat (o' + length (input_image (wire_input i))), True)"
proof -
  obtain s where s: "in_signature i = Some s" "in_sigLen i = length s" "length s < 2 ^ 32" "\<not> is_pubkey_script testnet s"
    "in_script i = None" "in_scriptLen i = 0" "in_amount i = 0" "in_address i = sig_address testnet s"
    using i by (auto simp: signed_form_def)
  define v where "v = length (varint_bytes (of_nat (length s)))"
  define n :: u64 where "n = of_nat (length s)"
  have a: "at buf o' (UInt256Set (in_txHash i))" "at buf (o' + 32) (UInt32SetLE (in_index i))"
    "at buf (o' + 32 + 4) (varint_bytes n)" "at buf (o' + 32 + 4 + v) s" "at buf (o' + 32 + 4 + v + length s) (UInt32SetLE (in_sequence i))"
    using assms(2) s by (simp_all add: wire_input_def input_image_def ptr_bytes_def at_append v_def n_def ac_simps)
  have len: "length (input_image (wire_input i)) = 32 + 4 + v + length s + 4"
    using s by (simp add: wire_input_def input_image_def ptr_bytes_def v_def)
  have b: "length buf < 2 ^ 64" using assms(3) by simp
  have n: "unat n = length s" using s(3) by (simp add: n_def unat_of_nat)
  have r: "read_or0 32 UInt256Get buf (of_nat o') = Some (in_txHash i)"
    "read_or0 4 UInt32GetLE buf (of_nat o' + 32) = Some (in_index i)"
    "varint_at buf (of_nat o' + 32 + 4) = (n, of_nat v)"
    "read_or0 4 UInt32GetLE buf (of_nat o' + 32 + 4 + of_nat v + n) = Some (in_sequence i)"
    using read_or0_at [OF a(1) _ b refl, of 32 UInt256Get] read_or0_at [OF a(2) _ b refl, of 4 UInt32GetLE]
      varint_at_at [OF a(3) b refl] read_or0_at [OF a(5) _ b refl, of 4 UInt32GetLE]
    by (simp_all add: v_def n_def)
  have f: "fits buf (of_nat o' + 32 + 4 + of_nat v) n" "slice buf (unat (of_nat o' + 32 + 4 + of_nat v :: u64)) (unat n) = Some s"
    using fits_at [OF a(4) assms(3) n] by simp_all
  let ?i = "tx_input_zero\<lparr>in_txHash := in_txHash i, in_index := in_index i\<rparr>"
  have "BRTxInputSetSignature testnet ?i (Some s) =
      Some (?i\<lparr>in_signature := Some s, in_sigLen := length s, in_address := sig_address testnet s\<rparr>)"
    by (rule set_signature_eq) (simp add: tx_input_zero_def)
  then have "parse_input testnet buf (of_nat o') = Some (?i\<lparr>in_signature := Some s, in_sigLen := length s,
      in_address := sig_address testnet s, in_sequence := in_sequence i\<rparr>, of_nat o' + 32 + 4 + of_nat v + n + 4, True)"
    unfolding parse_input_def Let_def r(1-3) bind.bind_lunit prod.case
    by (simp only: r f s(4) pubkey_script_at_eq [OF f(2)] bind.bind_lunit prod.case if_True if_False)
  moreover have "?i\<lparr>in_signature := Some s, in_sigLen := length s,
      in_address := sig_address testnet s, in_sequence := in_sequence i\<rparr> = i"
    using s by (cases i) (simp add: tx_input_zero_def)
  ultimately show ?thesis unfolding len by (simp add: n_def ac_simps)
qed

lemma parse_unsigned_input:
  assumes i: "unsigned_form testnet i" and "at buf o' (input_image (wire_input i))" "length buf < 2 ^ 63"
  shows "parse_input testnet buf (of_nat o') = Some (i, of_nat (o' + length (input_image (wire_input i))), False)"
proof -
  obtain s where s: "in_script i = Some s" "in_scriptLen i = length s" "is_pubkey_script testnet s"
    "in_signature i = None" "in_sigLen i = 0" "in_amount i \<noteq> 0" "in_address i = pubkey_address testnet s"
    using i by (auto simp: unsigned_form_def)
  define v where "v = length (varint_bytes (of_nat (length s)))"
  define n :: u64 where "n = of_nat (length s)"
  have a: "at buf o' (UInt256Set (in_txHash i))" "at buf (o' + 32) (UInt32SetLE (in_index i))"
    "at buf (o' + 32 + 4) (varint_bytes n)" "at buf (o' + 32 + 4 + v) s"
    "at buf (o' + 32 + 4 + v + length s) (UInt64SetLE (in_amount i))"
    "at buf (o' + 32 + 4 + v + 8 + length s) (UInt32SetLE (in_sequence i))"
    using assms(2) s by (simp_all add: wire_input_def input_image_def ptr_bytes_def at_append v_def n_def ac_simps)
  have len: "length (input_image (wire_input i)) = 32 + 4 + v + 8 + length s + 4"
    using s by (simp add: wire_input_def input_image_def ptr_bytes_def v_def)
  have b: "length buf < 2 ^ 64" using assms(3) by simp
  have n: "unat n = length s" using pubkey_script_short [OF s(3)] by (simp add: n_def unat_of_nat)
  have r: "read_or0 32 UInt256Get buf (of_nat o') = Some (in_txHash i)"
    "read_or0 4 UInt32GetLE buf (of_nat o' + 32) = Some (in_index i)"
    "varint_at buf (of_nat o' + 32 + 4) = (n, of_nat v)"
    "read_or0 8 UInt64GetLE buf (of_nat o' + 32 + 4 + of_nat v + n) = Some (in_amount i)"
    "read_or0 4 UInt32GetLE buf (of_nat o' + 32 + 4 + of_nat v + 8 + n) = Some (in_sequence i)"
    using read_or0_at [OF a(1) _ b refl, of 32 UInt256Get] read_or0_at [OF a(2) _ b refl, of 4 UInt32GetLE]
      varint_at_at [OF a(3) b refl] read_or0_at [OF a(5) _ b refl, of 8 UInt64GetLE]
      read_or0_at [OF a(6) _ b refl, of 4 UInt32GetLE]
    by (simp_all add: v_def n_def)
  have f: "fits buf (of_nat o' + 32 + 4 + of_nat v) n" "slice buf (unat (of_nat o' + 32 + 4 + of_nat v :: u64)) (unat n) = Some s"
    using fits_at [OF a(4) assms(3) n] by simp_all
  let ?i = "tx_input_zero\<lparr>in_txHash := in_txHash i, in_index := in_index i\<rparr>"
  have "parse_input testnet buf (of_nat o') = Some (?i\<lparr>in_script := Some s, in_scriptLen := length s,
      in_address := pubkey_address testnet s, in_amount := in_amount i, in_sequence := in_sequence i\<rparr>,
      of_nat o' + 32 + 4 + of_nat v + 8 + n + 4, False)"
    unfolding parse_input_def Let_def r(1-3) bind.bind_lunit prod.case
    by (simp only: r f s(3) pubkey_script_at_eq [OF f(2)] set_script_eq bind.bind_lunit prod.case if_True if_False)
  moreover have "?i\<lparr>in_script := Some s, in_scriptLen := length s, in_address := pubkey_address testnet s,
      in_amount := in_amount i, in_sequence := in_sequence i\<rparr> = i"
    using s by (cases i) (simp add: tx_input_zero_def)
  ultimately show ?thesis unfolding len by (simp add: n_def ac_simps)
qed

lemma parse_output_at:
  assumes p: "output_form testnet p" and "at buf o' (output_image p)" "length buf < 2 ^ 63"
  shows "parse_output testnet buf (of_nat o') = Some (p, of_nat (o' + length (output_image p)))"
proof -
  obtain s where s: "out_script p = Some s" "out_scriptLen p = length s" "length s < 2 ^ 32" "out_address p = pubkey_address testnet s"
    using p by (auto simp: output_form_def)
  define v where "v = length (varint_bytes (of_nat (length s)))"
  define n :: u64 where "n = of_nat (length s)"
  have a: "at buf o' (UInt64SetLE (out_amount p))" "at buf (o' + 8) (varint_bytes n)" "at buf (o' + 8 + v) s"
    using assms(2) s by (simp_all add: output_image_def ptr_bytes_def at_append v_def n_def ac_simps)
  have len: "length (output_image p) = 8 + v + length s"
    using s by (simp add: output_image_def ptr_bytes_def v_def)
  have b: "length buf < 2 ^ 64" using assms(3) by simp
  have n: "unat n = length s" using s(3) by (simp add: n_def unat_of_nat)
  have r: "read_or0 8 UInt64GetLE buf (of_nat o') = Some (out_amount p)" "varint_at buf (of_nat o' + 8) = (n, of_nat v)"
    using read_or0_at [OF a(1) _ b refl, of 8 UInt64GetLE] varint_at_at [OF a(2) b refl] by (simp_all add: v_def n_def)
  have f: "fits buf (of_nat o' + 8 + of_nat v) n" "slice buf (unat (of_nat o' + 8 + of_nat v :: u64)) (unat n) = Some s"
    using fits_at [OF a(3) assms(3) n] by simp_all
  have "parse_output testnet buf (of_nat o') = Some (BR_TX_OUTPUT_NONE\<lparr>out_amount := out_amount p, out_script := Some s,
      out_scriptLen := length s, out_address := pubkey_address testnet s\<rparr>, of_nat o' + 8 + of_nat v + n)"
    unfolding parse_output_def Let_def r bind.bind_lunit prod.case
    by (simp only: r f set_output_eq bind.bind_lunit prod.case if_True if_False)
  moreover have "BR_TX_OUTPUT_NONE\<lparr>out_amount := out_amount p, out_script := Some s,
      out_scriptLen := length s, out_address := pubkey_address testnet s\<rparr> = p"
    using s by (cases p) (simp add: BR_TX_OUTPUT_NONE_def)
  ultimately show ?thesis unfolding len by (simp add: n_def ac_simps)
qed

lemma le_of_nat_at: "at buf o' x \<Longrightarrow> length buf < 2 ^ 63 \<Longrightarrow> (of_nat o' :: u64) \<le> of_nat (length buf)"
  by (simp add: at_def word_le_nat_alt unat_of_nat)

lemma parse_inputs_at:
  assumes "length buf < 2 ^ 63"
  shows "at buf o' (concat (map (input_image \<circ> wire_input) ins)) \<Longrightarrow>
    (\<And>i. i \<in> set ins \<Longrightarrow> signed_form testnet i \<or> unsigned_form testnet i) \<Longrightarrow>
    parse_inputs testnet buf (length ins) (of_nat o') sg =
      Some (ins, of_nat (o' + length (concat (map (input_image \<circ> wire_input) ins))), sg \<and> (\<forall>i \<in> set ins. signed_form testnet i))"
proof (induction ins arbitrary: o' sg)
  case Nil
  then show ?case by simp
next
  case (Cons i ins)
  have a: "at buf o' (input_image (wire_input i))"
    "at buf (o' + length (input_image (wire_input i))) (concat (map (input_image \<circ> wire_input) ins))"
    using Cons.prems(1) by (simp_all add: at_append comp_def)
  have excl: "\<not> (signed_form testnet i \<and> unsigned_form testnet i)"
    by (auto simp: signed_form_def unsigned_form_def)
  have "parse_input testnet buf (of_nat o') =
      Some (i, of_nat (o' + length (input_image (wire_input i))), signed_form testnet i)"
    using Cons.prems(2) [of i] parse_signed_input [OF _ a(1) assms, of testnet] parse_unsigned_input [OF _ a(1) assms, of testnet] excl
    by auto
  moreover note Cons.IH [OF a(2), of "sg \<and> signed_form testnet i"]
  ultimately show ?case
    using le_of_nat_at [OF a(1) assms] Cons.prems(2) by (simp add: add.assoc conj_assoc del: of_nat_add)
qed

lemma parse_outputs_at:
  assumes "length buf < 2 ^ 63"
  shows "at buf o' (concat (map output_image outs)) \<Longrightarrow> (\<And>p. p \<in> set outs \<Longrightarrow> output_form testnet p) \<Longrightarrow>
    parse_outputs testnet buf (length outs) (of_nat o') = Some (outs, of_nat (o' + length (concat (map output_image outs))))"
proof (induction outs arbitrary: o')
  case Nil
  then show ?case by simp
next
  case (Cons p outs)
  have a: "at buf o' (output_image p)" "at buf (o' + length (output_image p)) (concat (map output_image outs))"
    using Cons.prems(1) by (simp_all add: at_append)
  have "parse_output testnet buf (of_nat o') = Some (p, of_nat (o' + length (output_image p)))"
    using parse_output_at [OF _ a(1) assms] Cons.prems(2) by simp
  then show ?case
    using Cons.IH [OF a(2)] le_of_nat_at [OF a(1) assms] Cons.prems(2) by (simp add: add.assoc del: of_nat_add)
qed

text \<open>Transactions in the form the parser produces.\<close>

definition tx_form :: "bool \<Rightarrow> BRTransaction \<Rightarrow> bool" where
  "tx_form testnet tx \<longleftrightarrow> tx_inputs tx \<noteq> [] \<and> length (tx_inputs tx) < 2 ^ 32 \<and> length (tx_outputs tx) < 2 ^ 32 \<and>
     (\<forall>i \<in> set (tx_inputs tx). signed_form testnet i \<or> unsigned_form testnet i) \<and>
     (\<forall>p \<in> set (tx_outputs tx). output_form testnet p)"

lemma tx_form_ptrs: "tx_form testnet tx \<Longrightarrow> tx_ptrs tx"
  using pubkey_script_short
  by (fastforce simp: tx_form_def tx_ptrs_def signed_form_def unsigned_form_def output_form_def ptr_ok_def)

lemma tx_form_signed:
  "tx_form testnet tx \<Longrightarrow> BRTransactionIsSigned tx \<longleftrightarrow> (\<forall>i \<in> set (tx_inputs tx). signed_form testnet i)"
  by (fastforce simp: tx_form_def BRTransactionIsSigned_def signed_loop_iff signed_form_def unsigned_form_def)

lemma tx_parse_image:
  assumes "tx_form testnet tx" "length (tx_image tx) < 2 ^ 63"
  shows "BRTransactionParse testnet (Some (tx_image tx)) = Some (Some (tx\<lparr>
    tx_hash := (if BRTransactionIsSigned tx then UInt256Get (BRSHA256_2 (tx_image tx)) else 0),
    tx_blockHeight := TX_UNCONFIRMED, tx_timestamp := 0\<rparr>))"
proof -
  let ?b = "tx_image tx" and ?n = "length (tx_inputs tx)" and ?m = "length (tx_outputs tx)"
  define v where "v = length (varint_bytes (of_nat ?n))"
  define w where "w = length (varint_bytes (of_nat ?m))"
  define I where "I = concat (map (input_image \<circ> wire_input) (tx_inputs tx))"
  define P where "P = concat (map output_image (tx_outputs tx))"
  have b: "?b = UInt32SetLE (tx_version tx) @ varint_bytes (of_nat ?n) @ I @ varint_bytes (of_nat ?m) @ P @ UInt32SetLE (tx_lockTime tx)"
    by (simp add: tx_image_def outputs_image_def I_def P_def)
  have "at ?b 0 ?b" by (simp add: at_def)
  then have a: "at ?b 0 (UInt32SetLE (tx_version tx))" "at ?b 4 (varint_bytes (of_nat ?n))" "at ?b (4 + v) I"
    "at ?b (4 + v + length I) (varint_bytes (of_nat ?m))" "at ?b (4 + v + length I + w) P"
    "at ?b (4 + v + length I + w + length P) (UInt32SetLE (tx_lockTime tx))"
    by (simp_all add: b at_append v_def w_def ac_simps)
  have len: "length ?b = 4 + v + length I + w + length P + 4" by (simp add: b v_def w_def)
  have l64: "length ?b < 2 ^ 64" using assms(2) by simp
  have n: "unat (of_nat ?n :: u64) = ?n" "unat (of_nat ?m :: u64) = ?m" "0 < ?n"
    using assms(1) by (simp_all add: tx_form_def unat_of_nat)
  have nz: "(of_nat ?n :: u64) \<noteq> 0" using n by (metis unat_0 less_irrefl)
  have fit: "array_fits (of_nat ?n) 120 = Some ()" "array_fits (of_nat ?m) 64 = Some ()"
    using assms(1) n by (simp_all add: array_fits_def tx_form_def)
  have r: "read_or0 4 UInt32GetLE ?b 0 = Some (tx_version tx)" "varint_at ?b (0 + 4) = (of_nat ?n, of_nat v)"
    "varint_at ?b (of_nat (4 + v + length I)) = (of_nat ?m, of_nat w)"
    "read_or0 4 UInt32GetLE ?b (of_nat (4 + v + length I + w + length P)) = Some (tx_lockTime tx)"
    using read_or0_at [OF a(1) _ l64, of 4 0 UInt32GetLE] varint_at_at [OF a(2) l64, of 4] varint_at_at [OF a(4) l64 refl]
      read_or0_at [OF a(6) _ l64 refl, of 4 UInt32GetLE]
    by (simp_all add: v_def w_def)
  have ins: "parse_inputs testnet ?b ?n (of_nat (4 + v)) True =
      Some (tx_inputs tx, of_nat (4 + v + length I), BRTransactionIsSigned tx)"
    using parse_inputs_at [OF assms(2) a(3) [unfolded I_def], of testnet True] assms(1) tx_form_signed [OF assms(1)]
    unfolding I_def by (simp add: tx_form_def)
  have outs: "parse_outputs testnet ?b ?m (of_nat (4 + v + length I + w)) = Some (tx_outputs tx, of_nat (4 + v + length I + w + length P))"
    using parse_outputs_at [OF assms(2) a(5) [unfolded P_def], of testnet] assms(1)
    unfolding P_def by (simp add: tx_form_def)
  have o': "(of_nat (4 + v + length I + w + length P) :: u64) + 4 = of_nat (length ?b)" by (simp add: len)
  have off: "0 + 4 + of_nat v = (of_nat (4 + v) :: u64)" "of_nat (4 + v + length I) + of_nat w = (of_nat (4 + v + length I + w) :: u64)"
    by simp_all
  have t: "take (unat (of_nat (length ?b) :: u64)) ?b = ?b" using l64 by (simp add: unat_of_nat)
  have "BRTransactionParse testnet (Some ?b) = Some (Some (BRTransactionNew\<lparr>tx_version := tx_version tx,
      tx_inputs := tx_inputs tx, tx_outputs := tx_outputs tx, tx_lockTime := tx_lockTime tx,
      tx_hash := (if BRTransactionIsSigned tx then UInt256Get (BRSHA256_2 ?b) else 0)\<rparr>))"
    unfolding BRTransactionParse_def option.case Let_def r(1,2) prod.case bind.bind_lunit fit(1) n off(1) ins r(3) fit(2) off(2) outs
      r(4) o' t using nz by simp
  then show ?thesis by (cases tx) (simp add: BRTransactionNew_def)
qed

text \<open>C11: a transaction in the form the parser produces, with signed and unsigned inputs in any mix, is
  written with the reported size and read back unchanged but for the fields that are not on the wire:
  block height, timestamp, and the hash, which is recomputed when every input is signed and zero
  otherwise.\<close>

theorem tx_wire_roundtrip:
  assumes "tx_form testnet tx" "length (tx_image tx) \<le> length buf" "length buf < 2 ^ 63"
  shows "\<exists>n d. BRTransactionSerialize tx None = Some (n, None) \<and> n \<le> length buf \<and>
    BRTransactionSerialize tx (Some buf) = Some (n, Some d) \<and> drop n d = drop n buf \<and>
    BRTransactionParse testnet (Some (take n d)) = Some (Some (tx\<lparr>
      tx_hash := (if BRTransactionIsSigned tx then UInt256Get (BRSHA256_2 (take n d)) else 0),
      tx_blockHeight := TX_UNCONFIRMED, tx_timestamp := 0\<rparr>))"
proof -
  have e: "BRTransactionSerialize tx None = Some (length (tx_image tx), None)"
    "BRTransactionSerialize tx (Some buf) = Some (length (tx_image tx), Some (put buf 0 (tx_image tx)))"
    using emits_serialize [OF tx_form_ptrs [OF assms(1)]] assms(2) by (simp_all add: emits_def)
  moreover have "take (length (tx_image tx)) (put buf 0 (tx_image tx)) = tx_image tx"
    "drop (length (tx_image tx)) (put buf 0 (tx_image tx)) = drop (length (tx_image tx)) buf"
    by (simp_all add: put_0)
  moreover have "length (tx_image tx) < 2 ^ 63" using assms(2,3) by simp
  ultimately show ?thesis using tx_parse_image [OF assms(1)] assms(2) by auto
qed

theorem tx_wire_roundtrip_witness:
  "\<exists>tx n d. tx_form False tx \<and> BRTransactionSerialize tx (Some (replicate 1000 0)) = Some (n, Some d) \<and>
     BRTransactionParse False (Some (take n d)) \<noteq> Some None"
proof -
  let ?s = "replicate 300 1 :: bytes"
  let ?i = "tx_input_zero\<lparr>in_txHash := 7, in_signature := Some ?s, in_sigLen := 300, in_address := sig_address False ?s\<rparr>"
  let ?p = "BR_TX_OUTPUT_NONE\<lparr>out_amount := 4000, out_script := Some [0x51], out_scriptLen := 1,
    out_address := pubkey_address False [0x51]\<rparr>"
  let ?tx = "BRTransactionNew\<lparr>tx_inputs := [?i], tx_outputs := [?p]\<rparr>"
  have "\<not> is_pubkey_script False ?s" using pubkey_script_short [of False ?s] by auto
  then have f: "tx_form False ?tx"
    by (simp add: tx_form_def signed_form_def output_form_def tx_input_zero_def BRTransactionNew_def)
  moreover have "length (tx_image ?tx) \<le> 1000"
    by (simp add: tx_image_def outputs_image_def input_image_def output_image_def wire_input_def ptr_bytes_def
        varint_length tx_input_zero_def BRTransactionNew_def)
  ultimately show ?thesis
    using tx_wire_roundtrip [OF f, of "replicate 1000 0"] by fastforce
qed

section \<open>Shuffling\<close>

lemma rand_loop_bound: "0 < bound \<Longrightarrow> rand_loop bound rs = Some (r, rs') \<Longrightarrow> r < bound"
  by (induction rs) (auto split: if_splits simp: word_mod_less_divisor)

lemma BRRand_bound: "BRRand ub rs = Some (r, rs') \<Longrightarrow> 0 < ub \<Longrightarrow> r < ub"
  using rand_loop_bound [of ub rs r rs'] rand_loop_bound [of BR_RAND_MAX rs r rs']
  by (auto simp: BRRand_def Let_def not_less split: if_splits)

text \<open>A value that is not below the bound is never rejected.\<close>

lemma BRRand_accepts:
  assumes "0 < ub" "ub \<le> BR_RAND_MAX" "ub \<le> r"
  shows "\<exists>k. BRRand ub (r # rs) = Some (k, rs) \<and> k < ub"
proof -
  have "((0xffffffff - ub * 2) + 1) mod ub < ub" using assms(1) by (rule word_mod_less_divisor)
  then have "\<not> r < ((0xffffffff - ub * 2) + 1) mod ub" using assms(3) by (simp only: not_less)
  then show ?thesis
    using assms by (auto simp: BRRand_def Let_def word_mod_less_divisor)
qed

lemma shuffle_loop_perm:
  assumes "length outs < 2 ^ 31"
  shows "n + unat i < length outs \<or> n = 0 \<Longrightarrow> n \<le> length rs \<Longrightarrow> (\<forall>r \<in> set rs. length outs \<le> unat r) \<Longrightarrow>
    \<exists>outs' rs'. shuffle_loop n i outs rs = Some (outs', rs') \<and> mset outs' = mset outs"
  using assms
proof (induction n arbitrary: i outs rs)
  case 0
  then show ?case by simp
next
  case (Suc n)
  then obtain r rs' where rs: "rs = r # rs'" by (cases rs) auto
  let ?N = "of_nat (length outs) :: u32"
  have N: "unat ?N = length outs" using Suc.prems(4) by (simp add: unat_of_nat)
  have i: "Suc n + unat i < length outs" using Suc.prems(1) by simp
  then have sub: "unat (?N - i) = length outs - unat i" using N by (simp add: unat_sub word_le_nat_alt)
  obtain k where k: "BRRand (?N - i) (r # rs') = Some (k, rs')" "k < ?N - i"
  proof -
    have "0 < ?N - i" "?N - i \<le> BR_RAND_MAX" "?N - i \<le> r"
      using sub i Suc.prems(3,4) rs by (auto simp: word_less_nat_alt word_le_nat_alt)
    from BRRand_accepts [OF this, of rs'] show thesis using that by blast
  qed
  have k': "unat k < length outs - unat i" using k(2) sub by (simp add: word_less_nat_alt)
  then have j: "unat (i + k) = unat i + unat k" "unat (i + k) < length outs"
    using i Suc.prems(4) by (simp_all add: unat_word_ariths)
  define outs1 where "outs1 = (if i + k \<noteq> i then outs[unat i := outs ! unat (i + k), unat (i + k) := outs ! unat i] else outs)"
  have m: "mset outs1 = mset outs" "length outs1 = length outs"
    using mset_swap [of "unat (i + k)" outs "unat i"] i j(2) by (simp_all add: outs1_def)
  have i1: "unat (i + 1) = unat i + 1" using i Suc.prems(4) by (simp add: unat_word_ariths)
  have "shuffle_loop (Suc n) i outs rs = shuffle_loop n (i + 1) outs1 rs'"
    using k(1) i j(2) by (simp add: rs rd_def outs1_def Let_def)
  then show ?case
    using Suc.IH [of "i + 1" outs1 rs'] Suc.prems rs m i1 i by auto
qed

text \<open>A random number is below its bound, and shuffling the outputs of a transaction permutes them
  and changes nothing else. It returns as soon as the random source yields one value per turn that is
  not below the number of outputs (smaller ones may be rejected and drawn again).\<close>

theorem tx_shuffle_permutes:
  assumes "length (tx_outputs tx) < 2 ^ 31" "length (tx_outputs tx) \<le> length rs" "\<forall>r \<in> set rs. length (tx_outputs tx) \<le> unat r"
  shows "\<exists>tx' rs'. BRTransactionShuffleOutputs tx rs = Some (tx', rs') \<and> mset (tx_outputs tx') = mset (tx_outputs tx) \<and>
    tx' = tx\<lparr>tx_outputs := tx_outputs tx'\<rparr>"
proof -
  obtain outs rs' where "shuffle_loop (length (tx_outputs tx) - 1) 0 (tx_outputs tx) rs = Some (outs, rs')"
    "mset outs = mset (tx_outputs tx)"
    using shuffle_loop_perm [OF assms(1), of "length (tx_outputs tx) - 1" 0 rs] assms(2,3)
    by (cases "tx_outputs tx") auto
  then show ?thesis by (simp add: BRTransactionShuffleOutputs_def)
qed

theorem tx_shuffle_permutes_witness:
  "\<exists>tx' rs'. BRTransactionShuffleOutputs (BRTransactionNew\<lparr>tx_outputs := [small_output, BR_TX_OUTPUT_NONE]\<rparr>) [5, 6] = Some (tx', rs') \<and>
     mset (tx_outputs tx') = mset [small_output, BR_TX_OUTPUT_NONE]"
  using tx_shuffle_permutes [of "BRTransactionNew\<lparr>tx_outputs := [small_output, BR_TX_OUTPUT_NONE]\<rparr>" "[5, 6]"] by auto

section \<open>Signing\<close>

text \<open>The signature script of a pay-to-pubkey-hash input: the signature of the double hash of the data to
  sign, with the hash type behind it, and the public key.\<close>

definition p2pkh_sig :: "'k key_ops \<Rightarrow> 'k \<Rightarrow> BRTransaction \<Rightarrow> nat \<Rightarrow> bytes" where
  "p2pkh_sig ops k tx i = key_sign ops k (UInt256Get (BRSHA256_2 (sighash_image tx i))) @ [1]"

definition p2pkh_sig_script :: "'k key_ops \<Rightarrow> 'k \<Rightarrow> BRTransaction \<Rightarrow> nat \<Rightarrow> bytes" where
  "p2pkh_sig_script ops k tx i =
     push_head (length (p2pkh_sig ops k tx i)) @ p2pkh_sig ops k tx i @ push_head (length (key_pub ops k)) @ key_pub ops k"

definition sign_key :: "bool \<Rightarrow> 'k key_ops \<Rightarrow> 'k list \<Rightarrow> BRTxInput \<Rightarrow> nat" where
  "sign_key testnet ops keys i = find_key (sign_addrs ops keys) (pubkey_address testnet (the (in_script i)))"

text \<open>Inputs that spend a pay-to-pubkey-hash output of one of the keys.\<close>

definition signable :: "bool \<Rightarrow> 'k key_ops \<Rightarrow> 'k list \<Rightarrow> BRTxInput \<Rightarrow> bool" where
  "signable testnet ops keys i \<longleftrightarrow> (\<exists>h. length h = 20 \<and> in_script i = Some (p2pkh_script h) \<and> in_scriptLen i = 25 \<and>
     in_address i ! 0 \<noteq> 0 \<and> sign_key testnet ops keys i < length keys)"

text \<open>The first key whose address is that of the script of an input, and the signature script the code makes with it:
  the public key is pushed behind the signature when the last but one element of the script is \<open>OP_EQUALVERIFY\<close>.\<close>

definition input_key :: "bool \<Rightarrow> 'k key_ops \<Rightarrow> 'k list \<Rightarrow> BRTxInput \<Rightarrow> nat option" where
  "input_key testnet ops keys x = (case in_script x of
       None \<Rightarrow> None
     | Some s \<Rightarrow>
         let (n, a) = the (BRAddressFromScriptPubKey testnet (Some no_address) (take (in_scriptLen x) s));
             j = find_key (sign_addrs ops keys) (the a)
         in if n = 0 \<or> length keys \<le> j then None else Some j)"

definition sig_pushes :: "'k key_ops \<Rightarrow> 'k \<Rightarrow> bytes \<Rightarrow> BRTransaction \<Rightarrow> nat \<Rightarrow> bytes list" where
  "sig_pushes ops key s tx i = (let (count, elems) = script_elems s in
     if count \<ge> 2 \<and> elem_op s elems (count - 2) = OP_EQUALVERIFY
     then [p2pkh_sig ops key tx i, key_pub ops key] else [p2pkh_sig ops key tx i])"

definition sig_script :: "'k key_ops \<Rightarrow> 'k \<Rightarrow> bytes \<Rightarrow> BRTransaction \<Rightarrow> nat \<Rightarrow> bytes" where
  "sig_script ops key s tx i = concat (map (\<lambda>x. push_head (length x) @ x) (sig_pushes ops key s tx i))"

text \<open>What the key library promises: signatures of at most 72 bytes, public keys of at most 65.\<close>

definition key_lengths :: "'k key_ops \<Rightarrow> bool" where
  "key_lengths ops \<longleftrightarrow> (\<forall>k md. length (key_sign ops k md) \<le> 72 \<and> length (key_pub ops k) \<le> 65)"

lemma emits_bytes: "emits (BRTransactionData tx index ht) x \<Longrightarrow> tx_data_bytes tx index ht = Some x"
  by (simp add: tx_data_bytes_def emits_def slice_def put_0)

lemma writes_push: "writes (w_sub (\<lambda>b. Some (BRScriptPushData b x))) (push_head (length x) @ x)"
  by (rule writes_sub) (simp add: emits_def push_data_eq store_if_fits_def)

lemma push_all_eq:
  assumes "length (concat (map (\<lambda>x. push_head (length x) @ x) xs)) \<le> n"
  shows "push_all n xs = Some (concat (map (\<lambda>x. push_head (length x) @ x) xs))"
proof -
  have "writes (w_all (map (\<lambda>x. w_sub (\<lambda>b. Some (BRScriptPushData b x))) xs)) (concat (map (\<lambda>x. push_head (length x) @ x) xs))"
    by (intro writes_map writes_push)
  then show ?thesis using assms by (simp add: writes_def push_all_def slice_def put_0)
qed

lemma p2pkh_is_pubkey: "length h = 20 \<Longrightarrow> is_pubkey_script testnet (p2pkh_script h)"
  by (simp add: is_pubkey_script_def p2pkh_address check_encode_correct)

lemma length_push_head_short: "n < 76 \<Longrightarrow> length (push_head n) = 1"
  by (simp add: push_head_def)

definition with_sig :: "BRTxInput \<Rightarrow> bytes \<Rightarrow> BRTxInput" where
  "with_sig i s = i\<lparr>in_signature := Some s, in_sigLen := length s\<rparr>"

lemma with_sig_simps [simp]:
  "in_script (with_sig i s) = in_script i" "in_scriptLen (with_sig i s) = in_scriptLen i"
  "in_signature (with_sig i s) = Some s" "in_sigLen (with_sig i s) = length s"
  by (simp_all add: with_sig_def)

text \<open>An input as the call leaves it: signed when there is a key for it, else as it was.\<close>

definition signed_as :: "bool \<Rightarrow> 'k key_ops \<Rightarrow> 'k list \<Rightarrow> BRTransaction \<Rightarrow> nat \<Rightarrow> BRTxInput" where
  "signed_as testnet ops keys tx i = (let x = tx_inputs tx ! i in case input_key testnet ops keys x of
       None \<Rightarrow> x
     | Some j \<Rightarrow> with_sig x (sig_script ops (keys ! j) (take (in_scriptLen x) (the (in_script x))) tx i))"

lemma signable_key:
  assumes "signable testnet ops keys x"
  shows "input_key testnet ops keys x = Some (sign_key testnet ops keys x)"
    and "sig_script ops key (take (in_scriptLen x) (the (in_script x))) tx i = p2pkh_sig_script ops key tx i"
proof -
  obtain h where h: "length h = 20" "in_script x = Some (p2pkh_script h)" "in_scriptLen x = 25"
    "sign_key testnet ops keys x < length keys"
    using assms by (auto simp: signable_def)
  note nth = p2pkh_nth [OF h(1)]
  have t: "take (in_scriptLen x) (p2pkh_script h) = p2pkh_script h" using nth(6) by (simp add: h(3))
  obtain n a where a: "BRAddressFromScriptPubKey testnet (Some no_address) (p2pkh_script h) = Some (n, a)" "n \<noteq> 0"
    using address_string_fits [OF h(1), of "pubkey_prefix testnet"]
    by (auto simp: p2pkh_address [OF h(1)] check_encode_correct)
  have j: "find_key (sign_addrs ops keys) (the a) = sign_key testnet ops keys x"
    by (simp add: sign_key_def h(2) pubkey_address_def a(1))
  show "input_key testnet ops keys x = Some (sign_key testnet ops keys x)"
    using h(2,4) a j t by (simp add: input_key_def)
  have "script_elems (p2pkh_script h) = (5, [0, 1, 2, 23, 24])" "elem_op (p2pkh_script h) [0, 1, 2, 23, 24] 3 = OP_EQUALVERIFY"
    using p2pkh_elems [OF h(1)] nth by (simp_all add: elem_op_def)
  then show "sig_script ops key (take (in_scriptLen x) (the (in_script x))) tx i = p2pkh_sig_script ops key tx i"
    using t h(2) by (simp add: sig_script_def sig_pushes_def p2pkh_sig_script_def)
qed

lemma length_sig_script: "key_lengths ops \<Longrightarrow> length (sig_script ops key s tx i) \<le> 75 + length (key_pub ops key)"
proof -
  assume "key_lengths ops"
  then have "length (p2pkh_sig ops key tx i) \<le> 73" "length (key_pub ops key) \<le> 65" by (simp_all add: p2pkh_sig_def key_lengths_def)
  then show ?thesis by (auto simp: sig_script_def sig_pushes_def length_push_head_short split: prod.split)
qed

lemma sign_input_eq:
  fixes keys :: "'k list" and tx :: BRTransaction
  assumes "tx_ptrs tx" "k < length (tx_inputs tx)" "key_lengths ops"
    "input_key testnet ops keys (tx_inputs tx ! k) \<noteq> None \<longrightarrow> in_address (tx_inputs tx ! k) ! 0 \<noteq> 0"
  shows "sign_input testnet ops keys (sign_addrs ops keys) 0 tx k =
    Some (tx\<lparr>tx_inputs := (tx_inputs tx)[k := signed_as testnet ops keys tx k]\<rparr>)"
proof -
  let ?x = "tx_inputs tx ! k"
  have ptr: "ptr_ok (in_script ?x) (in_scriptLen ?x)" using assms(1,2) by (simp add: tx_ptrs_def)
  show ?thesis
  proof (cases "in_script ?x")
    case None
    then show ?thesis by (simp add: sign_input_def signed_as_def input_key_def)
  next
    case (Some s)
    define t where "t = take (in_scriptLen ?x) s"
    have sl: "slice s 0 (in_scriptLen ?x) = Some t" using ptr Some by (simp add: slice_def ptr_ok_def t_def)
    obtain n a where a: "BRAddressFromScriptPubKey testnet (Some no_address) t = Some (n, a)" using pubkey_defined by blast
    let ?j = "find_key (sign_addrs ops keys) (the a)"
    have key: "input_key testnet ops keys ?x = (if n = 0 \<or> length keys \<le> ?j then None else Some ?j)"
      using Some by (simp add: input_key_def a t_def [symmetric])
    show ?thesis
    proof (cases "n = 0 \<or> length keys \<le> ?j")
      case True
      then show ?thesis
        unfolding sign_input_def Let_def Some option.case sl bind.bind_lunit a prod.case
        by (simp add: signed_as_def key Let_def)
    next
      case False
      let ?key = "keys ! ?j" and ?sig = "p2pkh_sig ops (keys ! ?j) tx k"
      have data: "tx_data_bytes tx k (0 OR SIGHASH_ALL) = Some (sighash_image tx k)"
        using emits_bytes [OF emits_sighash [OF assms(1,2)]] by simp
      have sig: "key_sign ops ?key (UInt256Get (BRSHA256_2 (sighash_image tx k))) @ [ucast (0 OR SIGHASH_ALL :: u32)] = ?sig"
        by (simp add: p2pkh_sig_def)
      obtain count elems where e: "script_elems t = (count, elems)" by fastforce
      have pushes: "(if count \<ge> 2 \<and> elem_op t elems (count - 2) = OP_EQUALVERIFY then [?sig, key_pub ops ?key] else [?sig]) =
          sig_pushes ops ?key t tx k"
        by (simp add: sig_pushes_def e)
      have push: "push_all (1 + 73 + 1 + length (key_pub ops ?key)) (sig_pushes ops ?key t tx k) = Some (sig_script ops ?key t tx k)"
        unfolding sig_script_def
        by (rule push_all_eq) (use length_sig_script [OF assms(3), of ?key t tx k] in \<open>simp add: sig_script_def\<close>)
      have set: "BRTxInputSetSignature testnet ?x (Some y) = Some (with_sig ?x y)" for y
        using assms(4) False by (simp add: BRTxInputSetSignature_def with_sig_def key)
      show ?thesis
        unfolding sign_input_def Let_def Some option.case sl bind.bind_lunit a prod.case e data sig pushes push set
        using False by (simp add: signed_as_def key Some t_def Let_def)
    qed
  qed
qed

text \<open>The data to sign does not depend on the signatures the other inputs already have.\<close>

lemma sighash_image_with_sig:
  assumes "length ins = length (tx_inputs tx)" "\<And>k. k < length ins \<Longrightarrow> ins ! k = tx_inputs tx ! k \<or> (\<exists>s. ins ! k = with_sig (tx_inputs tx ! k) s)"
  shows "sighash_image (tx\<lparr>tx_inputs := ins\<rparr>) index = sighash_image tx index"
proof -
  have "input_image (signed_input index k (ins ! k)) = input_image (signed_input index k (tx_inputs tx ! k))" if "k < length ins" for k
    using assms(2) [OF that] by (auto simp: input_image_def signed_input_def with_sig_def)
  then have m: "map (\<lambda>k. input_image (signed_input index k (ins ! k))) [0..<length ins] =
      map (\<lambda>k. input_image (signed_input index k (tx_inputs tx ! k))) [0..<length (tx_inputs tx)]"
    using assms(1) by (intro map_cong) auto
  show ?thesis unfolding sighash_image_def m [symmetric] using assms(1) by (simp add: outputs_image_def)
qed

text \<open>The inputs after the first \<open>k\<close> turns of the signing loop.\<close>

definition signed_inputs :: "bool \<Rightarrow> 'k key_ops \<Rightarrow> 'k list \<Rightarrow> BRTransaction \<Rightarrow> nat \<Rightarrow> BRTxInput list" where
  "signed_inputs testnet ops keys tx k =
     map (\<lambda>i. if i < k then signed_as testnet ops keys tx i else tx_inputs tx ! i) [0..<length (tx_inputs tx)]"

lemma signed_inputs_nth:
  "i < length (tx_inputs tx) \<Longrightarrow> signed_inputs testnet ops keys tx k ! i =
    (if i < k then signed_as testnet ops keys tx i else tx_inputs tx ! i)"
  by (simp add: signed_inputs_def)

lemma length_signed_inputs [simp]: "length (signed_inputs testnet ops keys tx k) = length (tx_inputs tx)"
  by (simp add: signed_inputs_def)

lemma signed_as_cases:
  obtains "input_key testnet ops keys (tx_inputs tx ! i) = None" "signed_as testnet ops keys tx i = tx_inputs tx ! i"
  | j where "input_key testnet ops keys (tx_inputs tx ! i) = Some j"
    "signed_as testnet ops keys tx i = with_sig (tx_inputs tx ! i) (sig_script ops (keys ! j)
      (take (in_scriptLen (tx_inputs tx ! i)) (the (in_script (tx_inputs tx ! i)))) tx i)"
  by (cases "input_key testnet ops keys (tx_inputs tx ! i)") (simp_all add: signed_as_def Let_def)

lemma signed_inputs_ptrs:
  assumes "tx_ptrs tx" "key_lengths ops"
  shows "tx_ptrs (tx\<lparr>tx_inputs := signed_inputs testnet ops keys tx k\<rparr>)"
proof -
  have "ptr_ok (in_script x) (in_scriptLen x) \<and> ptr_ok (in_signature x) (in_sigLen x)"
    if x: "x \<in> set (signed_inputs testnet ops keys tx k)" for x
  proof -
    obtain i where i: "i < length (tx_inputs tx)" "x = signed_inputs testnet ops keys tx k ! i"
      using x by (metis in_set_conv_nth length_signed_inputs)
    have old: "ptr_ok (in_script (tx_inputs tx ! i)) (in_scriptLen (tx_inputs tx ! i))"
      "ptr_ok (in_signature (tx_inputs tx ! i)) (in_sigLen (tx_inputs tx ! i))"
      using assms(1) i(1) by (simp_all add: tx_ptrs_def)
    have "length (sig_script ops key s tx i) < 2 ^ 32" for key s
    proof -
      have "length (key_pub ops key) \<le> 65" using assms(2) by (simp add: key_lengths_def)
      then show ?thesis using length_sig_script [OF assms(2), of key s tx i] by simp
    qed
    then have "ptr_ok (in_script (signed_as testnet ops keys tx i)) (in_scriptLen (signed_as testnet ops keys tx i)) \<and>
        ptr_ok (in_signature (signed_as testnet ops keys tx i)) (in_sigLen (signed_as testnet ops keys tx i))"
      using old by (cases rule: signed_as_cases [of testnet ops keys tx i]) (simp_all add: ptr_ok_def)
    then show ?thesis using old unfolding i(2) signed_inputs_nth [OF i(1)] by simp
  qed
  then show ?thesis using assms(1) by (simp add: tx_ptrs_def)
qed

lemma signed_inputs_step:
  fixes tx :: BRTransaction
  assumes "tx_ptrs tx" "key_lengths ops" "k < length (tx_inputs tx)"
    "input_key testnet ops keys (tx_inputs tx ! k) \<noteq> None \<longrightarrow> in_address (tx_inputs tx ! k) ! 0 \<noteq> 0"
  shows "sign_input testnet ops keys (sign_addrs ops keys) 0 (tx\<lparr>tx_inputs := signed_inputs testnet ops keys tx k\<rparr>) k =
    Some (tx\<lparr>tx_inputs := signed_inputs testnet ops keys tx (Suc k)\<rparr>)"
proof -
  let ?ins = "signed_inputs testnet ops keys tx"
  let ?tx = "tx\<lparr>tx_inputs := ?ins k\<rparr>" and ?x = "tx_inputs tx ! k"
  have x: "?ins k ! k = ?x" using assms(3) by (simp add: signed_inputs_nth)
  have "sighash_image ?tx k = sighash_image tx k"
  proof (rule sighash_image_with_sig)
    fix i assume "i < length (?ins k)"
    then show "?ins k ! i = tx_inputs tx ! i \<or> (\<exists>s. ?ins k ! i = with_sig (tx_inputs tx ! i) s)"
      by (cases rule: signed_as_cases [of testnet ops keys tx i]) (auto simp: signed_inputs_nth)
  qed simp
  then have "p2pkh_sig ops key ?tx k = p2pkh_sig ops key tx k" for key by (simp only: p2pkh_sig_def)
  then have "sig_script ops key s ?tx k = sig_script ops key s tx k" for key s
    by (simp add: sig_script_def sig_pushes_def cong: if_cong)
  then have "signed_as testnet ops keys ?tx k = signed_as testnet ops keys tx k"
    by (simp add: signed_as_def x Let_def split: option.split)
  moreover have "(?ins k)[k := signed_as testnet ops keys tx k] = ?ins (Suc k)"
    using assms(3) by (intro nth_equalityI) (auto simp: nth_list_update signed_inputs_nth less_Suc_eq)
  ultimately show ?thesis
    using sign_input_eq [where tx = ?tx and k = k and testnet = testnet and keys = keys and ops = ops,
        OF signed_inputs_ptrs [OF assms(1,2)]] assms(2-4) by (simp add: x)
qed

lemma sign_inputs:
  fixes tx :: BRTransaction
  assumes "tx_ptrs tx" "key_lengths ops"
    "\<forall>x \<in> set (tx_inputs tx). input_key testnet ops keys x \<noteq> None \<longrightarrow> in_address x ! 0 \<noteq> 0"
  shows "\<exists>r tx'. BRTransactionSign testnet ops tx 0 keys = Some (r, tx') \<and> tx_outputs tx' = tx_outputs tx \<and>
    length (tx_inputs tx') = length (tx_inputs tx) \<and>
    (\<forall>i < length (tx_inputs tx). tx_inputs tx' ! i = signed_as testnet ops keys tx i) \<and>
    (r \<longleftrightarrow> (\<forall>x \<in> set (tx_inputs tx). in_signature x \<noteq> None \<or> input_key testnet ops keys x \<noteq> None)) \<and>
    tx_hash tx' = (if r then UInt256Get (BRSHA256_2 (tx_image tx')) else tx_hash tx)"
proof -
  let ?ins = "signed_inputs testnet ops keys tx" and ?n = "length (tx_inputs tx)"
  have loop: "sign_loop testnet ops keys (sign_addrs ops keys) 0 [k..<?n] (tx\<lparr>tx_inputs := ?ins k\<rparr>) =
      Some (tx\<lparr>tx_inputs := ?ins ?n\<rparr>)" if "k \<le> ?n" for k
    using that
  proof (induction k rule: inc_induct)
    case base
    then show ?case by simp
  next
    case (step k)
    then show ?case
      using signed_inputs_step [OF assms(1,2) step.hyps(2)] assms(3) by (simp add: upt_conv_Cons)
  qed
  have "?ins 0 = tx_inputs tx" by (rule nth_equalityI) (simp_all add: signed_inputs_nth)
  then have l: "sign_loop testnet ops keys (sign_addrs ops keys) 0 [0..<?n] tx = Some (tx\<lparr>tx_inputs := ?ins ?n\<rparr>)"
    using loop [of 0] by simp
  let ?tx = "tx\<lparr>tx_inputs := ?ins ?n\<rparr>"
  have p: "tx_ptrs ?tx" by (rule signed_inputs_ptrs [OF assms(1,2)])
  have one: "in_signature (signed_as testnet ops keys tx i) \<noteq> None \<longleftrightarrow>
      in_signature (tx_inputs tx ! i) \<noteq> None \<or> input_key testnet ops keys (tx_inputs tx ! i) \<noteq> None" for i
    by (cases rule: signed_as_cases [of testnet ops keys tx i]) auto
  have "BRTransactionIsSigned ?tx \<longleftrightarrow> (\<forall>i < ?n. in_signature (signed_as testnet ops keys tx i) \<noteq> None)"
    by (auto simp: BRTransactionIsSigned_def signed_loop_iff all_set_conv_all_nth signed_inputs_nth)
  then have sg: "BRTransactionIsSigned ?tx \<longleftrightarrow>
      (\<forall>x \<in> set (tx_inputs tx). in_signature x \<noteq> None \<or> input_key testnet ops keys x \<noteq> None)"
    unfolding one all_set_conv_all_nth .
  have "emits (BRTransactionData ?tx SIZE_MAX 0) (tx_image ?tx)"
    by (rule emits_whole_tx [OF p]) simp_all
  then have "tx_data_bytes ?tx SIZE_MAX 0 = Some (tx_image ?tx)"
    by (rule emits_bytes)
  then have "BRTransactionSign testnet ops tx 0 keys = Some (BRTransactionIsSigned ?tx,
      if BRTransactionIsSigned ?tx then ?tx\<lparr>tx_hash := UInt256Get (BRSHA256_2 (tx_image ?tx))\<rparr> else ?tx)"
    by (simp add: BRTransactionSign_def l)
  moreover have "tx_image (?tx\<lparr>tx_hash := u\<rparr>) = tx_image ?tx" for u
    by (simp add: tx_image_def outputs_image_def)
  ultimately show ?thesis
    unfolding sg [symmetric]
    by (cases "BRTransactionIsSigned ?tx") (auto simp: signed_inputs_nth)
qed

lemma sign_all_inputs:
  fixes tx :: BRTransaction
  assumes "tx_ptrs tx" "key_lengths ops" "\<forall>x \<in> set (tx_inputs tx). signable testnet ops keys x"
  shows "\<exists>tx'. BRTransactionSign testnet ops tx 0 keys = Some (True, tx') \<and> tx_outputs tx' = tx_outputs tx \<and>
    length (tx_inputs tx') = length (tx_inputs tx) \<and>
    (\<forall>i < length (tx_inputs tx). let x = tx_inputs tx ! i in tx_inputs tx' ! i =
      with_sig x (p2pkh_sig_script ops (keys ! sign_key testnet ops keys x) tx i)) \<and>
    tx_hash tx' = UInt256Get (BRSHA256_2 (tx_image tx'))"
proof -
  have a: "\<forall>x \<in> set (tx_inputs tx). input_key testnet ops keys x \<noteq> None \<longrightarrow> in_address x ! 0 \<noteq> 0"
    using assms(3) by (auto simp: signable_def)
  have s: "signed_as testnet ops keys tx i = with_sig (tx_inputs tx ! i)
      (p2pkh_sig_script ops (keys ! sign_key testnet ops keys (tx_inputs tx ! i)) tx i)" if "i < length (tx_inputs tx)" for i
  proof -
    have "signable testnet ops keys (tx_inputs tx ! i)" using assms(3) that by simp
    from signable_key [OF this] show ?thesis by (simp add: signed_as_def Let_def)
  qed
  show ?thesis
    using sign_inputs [OF assms(1,2) a] assms(3) s by (auto simp: signable_key Let_def)
qed

text \<open>C25: signing for bitcoin (fork id zero), in a transaction whose scripts and signatures have the stated lengths and whose
  inputs with a key have their address set, never fails to return. Each input whose script pays the address of one of the
  keys gets the signature of its own digest, made by the first such key, with that key's public key behind it when the script is
  pay-to-pubkey-hash (its last element but one is \<open>OP_EQUALVERIFY\<close>); every other input, before or after it, and all
  outputs stay as they were. The result is true exactly when every input had a signature or a key, and exactly
  then the hash of the transaction becomes the double hash of the signed wire image.\<close>

theorem tx_sign_all_inputs:
  fixes tx :: BRTransaction
  assumes "tx_ptrs tx" "key_lengths ops"
    "\<forall>x \<in> set (tx_inputs tx). input_key testnet ops keys x \<noteq> None \<longrightarrow> in_address x ! 0 \<noteq> 0"
  shows "\<exists>r tx'. BRTransactionSign testnet ops tx 0 keys = Some (r, tx') \<and> tx_outputs tx' = tx_outputs tx \<and>
    length (tx_inputs tx') = length (tx_inputs tx) \<and>
    (\<forall>i < length (tx_inputs tx). tx_inputs tx' ! i = signed_as testnet ops keys tx i) \<and>
    (\<forall>x \<in> set (tx_inputs tx). \<forall>key i. signable testnet ops keys x \<longrightarrow> input_key testnet ops keys x = Some (sign_key testnet ops keys x) \<and>
      sig_script ops key (take (in_scriptLen x) (the (in_script x))) tx i = p2pkh_sig_script ops key tx i) \<and>
    (r \<longleftrightarrow> (\<forall>x \<in> set (tx_inputs tx). in_signature x \<noteq> None \<or> input_key testnet ops keys x \<noteq> None)) \<and>
    tx_hash tx' = (if r then UInt256Get (BRSHA256_2 (tx_image tx')) else tx_hash tx)"
proof -
  have s: "\<forall>x \<in> set (tx_inputs tx). \<forall>key i. signable testnet ops keys x \<longrightarrow>
      input_key testnet ops keys x = Some (sign_key testnet ops keys x) \<and>
      sig_script ops key (take (in_scriptLen x) (the (in_script x))) tx i = p2pkh_sig_script ops key tx i"
    by (simp add: signable_key)
  from sign_inputs [OF assms] s show ?thesis by blast
qed

lemma pubkey_address_starts:
  assumes "length h = 20"
  shows "pubkey_address testnet (p2pkh_script h) ! 0 \<noteq> 0"
proof -
  let ?s = "b58check_string (pubkey_prefix testnet # h)"
  have "length ?s + 1 \<le> 36" using address_string_fits [OF assms, of "pubkey_prefix testnet"] by simp
  then have a: "pubkey_address testnet (p2pkh_script h) = put no_address 0 (?s @ [0])"
    by (simp add: pubkey_address_def p2pkh_address [OF assms] check_encode_correct)
  have "?s \<noteq> []" "0 \<notin> set ?s"
    using b58_string_long [of "(pubkey_prefix testnet # h) @ take 4 (BRSHA256_2 (pubkey_prefix testnet # h))"]
    by (auto simp: b58check_string_def b58_string_no_nul)
  then obtain c cs where "?s = c # cs" "c \<noteq> 0" by (cases ?s) auto
  then show ?thesis by (simp add: a put_def)
qed

text \<open>One input that spends an output of the only key.\<close>

definition example_key :: "unit key_ops" where
  "example_key = \<lparr>key_address = (\<lambda>_. Some (pubkey_address False (p2pkh_script (replicate 20 7)))),
     key_pub = (\<lambda>_. replicate 33 2), key_sign = (\<lambda>_ md. replicate 38 0x30 @ UInt256Set md)\<rparr>"

definition example_unsigned :: BRTransaction where
  "example_unsigned = BRTransactionNew\<lparr>tx_inputs := [tx_input_zero\<lparr>in_script := Some (p2pkh_script (replicate 20 7)),
     in_scriptLen := 25, in_address := pubkey_address False (p2pkh_script (replicate 20 7)), in_amount := 5000\<rparr>]\<rparr>"

theorem tx_sign_all_inputs_witness:
  "\<exists>tx'. BRTransactionSign False example_key example_unsigned 0 [()] = Some (True, tx') \<and>
    in_signature (tx_inputs tx' ! 0) = Some (p2pkh_sig_script example_key () example_unsigned 0)"
proof -
  have "length (p2pkh_script (replicate 20 (7 :: u8))) = 25" by (rule p2pkh_nth) simp
  then have p: "tx_ptrs example_unsigned"
    by (simp add: tx_ptrs_def example_unsigned_def BRTransactionNew_def ptr_ok_def tx_input_zero_def)
  have k: "key_lengths example_key" by (simp add: key_lengths_def example_key_def)
  let ?i = "tx_input_zero\<lparr>in_script := Some (p2pkh_script (replicate 20 7)),
     in_scriptLen := 25, in_address := pubkey_address False (p2pkh_script (replicate 20 7)), in_amount := 5000\<rparr>"
  have i: "tx_inputs example_unsigned = [?i]" by (simp add: example_unsigned_def BRTransactionNew_def)
  have "sign_key False example_key [()] ?i = 0"
    by (simp add: sign_key_def sign_addrs_def example_key_def BRAddressEq_def)
  then have s: "signable False example_key [()] ?i"
    unfolding signable_def by (intro exI [of _ "replicate 20 7"]) (simp add: pubkey_address_starts)
  have "input_key False example_key [()] ?i = Some 0" using signable_key(1) [OF s] \<open>sign_key False example_key [()] ?i = 0\<close> by simp
  moreover have "in_address ?i ! 0 \<noteq> 0" by (simp add: pubkey_address_starts)
  ultimately show ?thesis
    using tx_sign_all_inputs [OF p k, of False "[()]"] s
    unfolding i signed_as_def Let_def by auto
qed

end
