(* ===== verification/Wallet.thy ===== *)
theory Wallet
  imports Transaction
begin

text \<open>
  \<^verbatim>\<open>BRWallet.c\<close> and \<^verbatim>\<open>BRWallet.h\<close>: the transactions of a wallet, its unspent outputs, its balance and its
  address chains. The hash sets are sets and \<open>allTx\<close> is a map, which is what \<^verbatim>\<open>BRSet.c\<close> implements
  (theory SetRefine; the contracts of the hash functions used here are interpretations in WalletSpec).
  Addresses are members by their string. A pointer to a transaction of the wallet is its hash: the hash
  never changes, \<open>allTx\<close> holds one transaction for it, and that map is the store in which block heights
  and timestamps are updated. A hash in \<open>transactions\<close> that is not in the store is a dangling pointer,
  and using it is \<open>None\<close>. Callbacks are the events an operation returns. The mutex has no counterpart.
\<close>

section \<open>State\<close>

record BRUTXO =
  utxo_hash :: uint256
  utxo_n :: u32

definition BRUTXOHash :: "BRUTXO \<Rightarrow> nat" where
  "BRUTXOHash utxo = unat ((lane32 (utxo_hash utxo) 0 XOR utxo_n utxo) * 0x01000193)"

definition BRUTXOEq :: "BRUTXO \<Rightarrow> BRUTXO \<Rightarrow> bool" where
  "BRUTXOEq utxo otherUtxo \<longleftrightarrow> utxo = otherUtxo \<or>
     UInt256Eq (utxo_hash utxo) (utxo_hash otherUtxo) \<and> utxo_n utxo = utxo_n otherUtxo"

type_synonym tx_store = "uint256 \<Rightarrow> BRTransaction option"

record BRWallet =
  wal_balance :: u64
  wal_totalSent :: u64
  wal_totalReceived :: u64
  wal_feePerKb :: u64
  wal_balanceHist :: "u64 list"
  wal_blockHeight :: u32
  wal_utxos :: "BRUTXO list"
  wal_transactions :: "uint256 list"
  wal_internalChain :: "BRAddress list"
  wal_externalChain :: "BRAddress list"
  wal_allTx :: tx_store
  wal_invalidTx :: "uint256 set"
  wal_pendingTx :: "uint256 set"
  wal_spentOutputs :: "BRUTXO set"
  wal_usedAddrs :: "bytes set"
  wal_allAddrs :: "bytes set"

datatype wallet_event =
    BalanceChanged u64
  | TxAdded uint256
  | TxUpdated "uint256 list" u32 u32
  | TxDeleted uint256 bool bool

text \<open>What the wallet uses from elsewhere: the network, \<open>BRBIP32PubKey\<close> with \<open>BRKeySetPubKey\<close> and
  \<open>BRKeyAddress\<close> (\<open>None\<close> when one of them fails) for a chain and an index, the clock, and whether
  \<open>realloc\<close> moved a chain.\<close>

record wallet_env =
  env_testnet :: bool
  env_derive :: "u32 \<Rightarrow> u32 \<Rightarrow> BRAddress option"
  env_now :: int
  env_moved :: "bool \<Rightarrow> bool"

abbreviation TX_MIN_OUTPUT_AMOUNT :: u64 where "TX_MIN_OUTPUT_AMOUNT \<equiv> 546"
abbreviation TX_MAX_LOCK_HEIGHT :: u32 where "TX_MAX_LOCK_HEIGHT \<equiv> 500000000"
abbreviation DEFAULT_FEE_PER_KB :: u64 where "DEFAULT_FEE_PER_KB \<equiv> 50000"
abbreviation MIN_FEE_PER_KB :: u64 where "MIN_FEE_PER_KB \<equiv> 5236"
abbreviation SEQUENCE_GAP_LIMIT_EXTERNAL :: nat where "SEQUENCE_GAP_LIMIT_EXTERNAL \<equiv> 10"
abbreviation SEQUENCE_GAP_LIMIT_INTERNAL :: nat where "SEQUENCE_GAP_LIMIT_INTERNAL \<equiv> 5"
abbreviation SEQUENCE_EXTERNAL_CHAIN :: u32 where "SEQUENCE_EXTERNAL_CHAIN \<equiv> 0"
abbreviation SEQUENCE_INTERNAL_CHAIN :: u32 where "SEQUENCE_INTERNAL_CHAIN \<equiv> 1"

section \<open>Loops that may not return\<close>

text \<open>A loop over a list that ends early on true.\<close>

fun any_run :: "('a \<Rightarrow> bool run) \<Rightarrow> 'a list \<Rightarrow> bool run" where
  "any_run f [] = Some False"
| "any_run f (x # xs) = do { b \<leftarrow> f x; if b then Some True else any_run f xs }"

lemma any_run_mono [partial_function_mono]:
  assumes "\<And>x. mono_option (\<lambda>f. F f x)"
  shows "mono_option (\<lambda>f. any_run (F f) xs)"
proof (induction xs)
  case Nil
  then show ?case by (simp add: option.const_mono)
next
  case (Cons x xs)
  show ?case unfolding any_run.simps
    by (intro bind_mono if_mono assms option.const_mono Cons.IH)
qed

lemma fold_run_mono [partial_function_mono]:
  assumes "\<And>x s. mono_option (\<lambda>f. F f x s)"
  shows "mono_option (\<lambda>f. fold_run (F f) xs s)"
proof (induction xs arbitrary: s)
  case Nil
  then show ?case by (simp add: option.const_mono)
next
  case (Cons x xs)
  show ?case unfolding fold_run.simps
    by (intro bind_mono assms Cons.IH)
qed

lemma map_option_mono [partial_function_mono]:
  assumes "mono_option F"
  shows "mono_option (\<lambda>f. map_option g (F f))"
proof -
  have "(\<lambda>f. map_option g (F f)) = (\<lambda>f. F f \<bind> (\<lambda>x. Some (g x)))" by (auto simp: fun_eq_iff map_conv_bind_option comp_def)
  then show ?thesis using bind_mono [OF assms option.const_mono] by simp
qed

section \<open>Fees and order\<close>

definition txFee :: "u64 \<Rightarrow> nat \<Rightarrow> u64" where
  "txFee feePerKb sz =
     (let standardFee = ((of_nat sz + 999) div 1000) * of_nat TX_FEE_PER_KB;
          fee = ((of_nat sz * feePerKb div 1000 + 99) div 100) * 100
      in if fee > standardFee then fee else standardFee)"

text \<open>The position in the chain, from its end, and \<open>SIZE_MAX\<close> for none.\<close>

fun chain_index_loop :: "BRTransaction \<Rightarrow> BRAddress list \<Rightarrow> nat \<Rightarrow> nat" where
  "chain_index_loop tx chain 0 = SIZE_MAX"
| "chain_index_loop tx chain (Suc i) =
     (if list_ex (\<lambda>p. BRAddressEq (out_address p) (chain ! i)) (tx_outputs tx) then i else chain_index_loop tx chain i)"

definition txChainIndex :: "BRTransaction \<Rightarrow> BRAddress list \<Rightarrow> nat" where
  "txChainIndex tx chain = chain_index_loop tx chain (length chain)"

text \<open>A transaction without ancestors in the store is \<open>None\<close>, the null pointer of \<open>BRSetGet\<close>.\<close>

partial_function (option) BRWalletTxIsAscending ::
  "tx_store \<Rightarrow> BRTransaction option \<Rightarrow> BRTransaction option \<Rightarrow> bool run" where
  "BRWalletTxIsAscending all tx1 tx2 =
     (case tx1 of None \<Rightarrow> Some False | Some t1 \<Rightarrow> case tx2 of None \<Rightarrow> Some False | Some t2 \<Rightarrow>
        if tx_blockHeight t1 > tx_blockHeight t2 then Some True
        else if tx_blockHeight t1 < tx_blockHeight t2 then Some False
        else if list_ex (\<lambda>i. UInt256Eq (in_txHash i) (tx_hash t2)) (tx_inputs t1) then Some True
        else if list_ex (\<lambda>i. UInt256Eq (in_txHash i) (tx_hash t1)) (tx_inputs t2) then Some False
        else any_run (\<lambda>i. BRWalletTxIsAscending all (all (in_txHash i)) (Some t2)) (tx_inputs t1))"

definition BRWalletTxCompare :: "BRWallet \<Rightarrow> BRTransaction \<Rightarrow> BRTransaction \<Rightarrow> int run" where
  "BRWalletTxCompare w tx1 tx2 = do {
     a \<leftarrow> BRWalletTxIsAscending (wal_allTx w) (Some tx1) (Some tx2);
     if a then Some 1
     else do {
       b \<leftarrow> BRWalletTxIsAscending (wal_allTx w) (Some tx2) (Some tx1);
       if b then Some (- 1)
       else do {
         let i = txChainIndex tx1 (wal_internalChain w);
         let j = txChainIndex tx2 (if i = SIZE_MAX then wal_externalChain w else wal_internalChain w);
         let i = (if i = SIZE_MAX \<and> j \<noteq> SIZE_MAX then txChainIndex tx1 (wal_externalChain w) else i);
         Some (if i \<noteq> SIZE_MAX \<and> j \<noteq> SIZE_MAX \<and> i \<noteq> j then (if i > j then 1 else - 1) else 0)
       }
     }
   }"

text \<open>The loop at \<open>i\<close>, moving entries up by one, and the store at the position it stops at.\<close>

fun insert_tx_loop :: "BRWallet \<Rightarrow> BRTransaction \<Rightarrow> nat \<Rightarrow> uint256 list \<Rightarrow> uint256 list run" where
  "insert_tx_loop w tx 0 xs = Some (xs[0 := tx_hash tx])"
| "insert_tx_loop w tx (Suc i) xs = do {
     t \<leftarrow> wal_allTx w (xs ! i);
     c \<leftarrow> BRWalletTxCompare w t tx;
     if c > 0 then insert_tx_loop w tx i (xs[Suc i := xs ! i]) else Some (xs[Suc i := tx_hash tx])
   }"

definition BRWalletInsertTx :: "BRWallet \<Rightarrow> BRTransaction \<Rightarrow> BRWallet run" where
  "BRWalletInsertTx w tx = do {
     xs \<leftarrow> insert_tx_loop w tx (length (wal_transactions w)) (wal_transactions w @ [0]);
     Some (w\<lparr>wal_transactions := xs\<rparr>)
   }"

section \<open>Membership and balance\<close>

definition wallet_address :: "BRWallet \<Rightarrow> BRAddress \<Rightarrow> bool" where
  "wallet_address w a \<longleftrightarrow> addr_str a \<in> wal_allAddrs w"

text \<open>The output an input spends, if its transaction is known and has it.\<close>

definition spent_output :: "tx_store \<Rightarrow> BRTxInput \<Rightarrow> BRTxOutput option" where
  "spent_output all i = (case all (in_txHash i) of
     None \<Rightarrow> None
   | Some t \<Rightarrow> if unat (in_index i) < length (tx_outputs t) then Some (tx_outputs t ! unat (in_index i)) else None)"

definition BRWalletContainsTx :: "BRWallet \<Rightarrow> BRTransaction \<Rightarrow> bool" where
  "BRWalletContainsTx w tx \<longleftrightarrow>
     list_ex (\<lambda>p. wallet_address w (out_address p)) (tx_outputs tx) \<or>
     list_ex (\<lambda>i. case spent_output (wal_allTx w) i of None \<Rightarrow> False | Some p \<Rightarrow> wallet_address w (out_address p))
       (tx_inputs tx)"

definition input_utxo :: "BRTxInput \<Rightarrow> BRUTXO" where
  "input_utxo i = \<lparr>utxo_hash = in_txHash i, utxo_n = in_index i\<rparr>"

definition tx_input_invalid :: "BRWallet \<Rightarrow> BRTransaction \<Rightarrow> bool" where
  "tx_input_invalid w tx \<longleftrightarrow>
     list_ex (\<lambda>i. input_utxo i \<in> wal_spentOutputs w \<or> in_txHash i \<in> wal_invalidTx w) (tx_inputs tx)"

text \<open>Replace-by-fee, and a lock time that has not come yet.\<close>

definition input_locked :: "u32 \<Rightarrow> int \<Rightarrow> BRTransaction \<Rightarrow> BRTxInput \<Rightarrow> bool" where
  "input_locked height now tx i \<longleftrightarrow>
     in_sequence i < 0xffffffff - 1 \<or>
     in_sequence i < 0xffffffff \<and> tx_lockTime tx < TX_MAX_LOCK_HEIGHT \<and> tx_lockTime tx > height + 1 \<or>
     in_sequence i < 0xffffffff \<and> uint (tx_lockTime tx) > now"

definition tx_is_pending :: "BRWallet \<Rightarrow> int \<Rightarrow> BRTransaction \<Rightarrow> bool" where
  "tx_is_pending w now tx \<longleftrightarrow>
     BRTransactionSize tx > TX_MAX_SIZE \<or>
     list_ex (\<lambda>p. out_amount p < TX_MIN_OUTPUT_AMOUNT) (tx_outputs tx) \<or>
     list_ex (\<lambda>i. input_locked (wal_blockHeight w) now tx i \<or> in_txHash i \<in> wal_pendingTx w) (tx_inputs tx)"

text \<open>The outputs of \<open>h\<close> from the one at \<open>j\<close>.\<close>

fun add_outputs :: "uint256 \<Rightarrow> nat \<Rightarrow> BRTxOutput list \<Rightarrow> BRWallet \<times> u64 \<Rightarrow> BRWallet \<times> u64" where
  "add_outputs h j [] s = s"
| "add_outputs h j (p # ps) (w, balance) =
     add_outputs h (Suc j) ps
       (if out_address p ! 0 \<noteq> 0 then
          let w = w\<lparr>wal_usedAddrs := insert (addr_str (out_address p)) (wal_usedAddrs w)\<rparr> in
          if wallet_address w (out_address p)
          then (w\<lparr>wal_utxos := wal_utxos w @ [\<lparr>utxo_hash = h, utxo_n = of_nat j\<rparr>]\<rparr>, balance + out_amount p)
          else (w, balance)
        else (w, balance))"

text \<open>The unspent outputs below \<open>j\<close>, from the last, with those that are spent removed.\<close>

fun remove_spent :: "BRWallet \<Rightarrow> nat \<Rightarrow> BRUTXO list \<Rightarrow> u64 \<Rightarrow> (BRUTXO list \<times> u64) run" where
  "remove_spent w 0 us balance = Some (us, balance)"
| "remove_spent w (Suc j) us balance =
     (if us ! j \<notin> wal_spentOutputs w then remove_spent w j us balance
      else do {
        t \<leftarrow> wal_allTx w (utxo_hash (us ! j));
        p \<leftarrow> rd (tx_outputs t) (unat (utxo_n (us ! j)));
        remove_spent w j (take j us @ drop (Suc j) us) (balance - out_amount p)
      })"

text \<open>One turn of the loop over the transactions, with the wallet, \<open>balance\<close> and \<open>prevBalance\<close>.\<close>

definition balance_turn :: "int \<Rightarrow> uint256 \<Rightarrow> BRWallet \<times> u64 \<times> u64 \<Rightarrow> (BRWallet \<times> u64 \<times> u64) run" where
  "balance_turn now h s = do {
     let (w, balance, prevBalance) = s;
     tx \<leftarrow> wal_allTx w h;
     if tx_blockHeight tx = TX_UNCONFIRMED \<and> tx_input_invalid w tx
     then Some (w\<lparr>wal_invalidTx := insert h (wal_invalidTx w), wal_balanceHist := wal_balanceHist w @ [balance]\<rparr>,
       balance, prevBalance)
     else do {
       let w = w\<lparr>wal_spentOutputs := foldl (\<lambda>s i. insert (input_utxo i) s) (wal_spentOutputs w) (tx_inputs tx)\<rparr>;
       if tx_blockHeight tx = TX_UNCONFIRMED \<and> tx_is_pending w now tx
       then Some (w\<lparr>wal_pendingTx := insert h (wal_pendingTx w), wal_balanceHist := wal_balanceHist w @ [balance]\<rparr>,
         balance, prevBalance)
       else do {
         let (w, balance) = add_outputs h 0 (tx_outputs tx) (w, balance);
         (us, balance) \<leftarrow> remove_spent w (length (wal_utxos w)) (wal_utxos w) balance;
         let w = w\<lparr>wal_utxos := us,
           wal_totalReceived := (if prevBalance < balance then wal_totalReceived w + (balance - prevBalance) else wal_totalReceived w),
           wal_totalSent := (if balance < prevBalance then wal_totalSent w + (prevBalance - balance) else wal_totalSent w),
           wal_balanceHist := wal_balanceHist w @ [balance]\<rparr>;
         Some (w, balance, balance)
       }
     }
   }"

definition BRWalletUpdateBalance :: "int \<Rightarrow> BRWallet \<Rightarrow> BRWallet run" where
  "BRWalletUpdateBalance now w = do {
     let w = w\<lparr>wal_utxos := [], wal_balanceHist := [], wal_spentOutputs := {}, wal_invalidTx := {}, wal_pendingTx := {},
       wal_usedAddrs := {}, wal_totalSent := 0, wal_totalReceived := 0\<rparr>;
     (w, balance, _) \<leftarrow> fold_run (balance_turn now) (wal_transactions w) (w, 0, 0);
     Some (w\<lparr>wal_balance := balance\<rparr>)
   }"

section \<open>Address chains\<close>

definition wallet_chain :: "BRWallet \<Rightarrow> bool \<Rightarrow> BRAddress list" where
  "wallet_chain w internal = (if internal then wal_internalChain w else wal_externalChain w)"

text \<open>The start of the trailing block of unused addresses, at most \<open>i\<close>.\<close>

fun unused_from :: "bytes set \<Rightarrow> BRAddress list \<Rightarrow> nat \<Rightarrow> nat" where
  "unused_from usedAddrs chain 0 = 0"
| "unused_from usedAddrs chain (Suc i) = (if addr_str (chain ! i) \<notin> usedAddrs then unused_from usedAddrs chain i else Suc i)"

partial_function (option) generate_addrs ::
  "(u32 \<Rightarrow> BRAddress option) \<Rightarrow> bytes set \<Rightarrow> nat \<Rightarrow> nat \<Rightarrow> BRAddress list \<Rightarrow> (nat \<times> BRAddress list) run" where
  "generate_addrs derive usedAddrs gapLimit i chain =
     (if i + gapLimit > length chain then
        (case derive (of_nat (length chain)) of
           None \<Rightarrow> Some (i, chain)
         | Some address \<Rightarrow>
             if BRAddressEq address no_address then Some (i, chain)
             else generate_addrs derive usedAddrs gapLimit (if addr_str address \<in> usedAddrs then length chain + 1 else i) (chain @ [address]))
      else Some (i, chain))"

text \<open>The addresses written (none for a null \<open>addrs\<close>, which is \<open>False\<close>) and the wallet.\<close>

definition BRWalletUnusedAddrs :: "wallet_env \<Rightarrow> BRWallet \<Rightarrow> bool \<Rightarrow> nat \<Rightarrow> bool \<Rightarrow> (BRAddress list \<times> BRWallet) run" where
  "BRWalletUnusedAddrs env w addrs gapLimit internal = do {
     let chain = wallet_chain w internal;
     let startCount = length chain;
     (i, chain) \<leftarrow> generate_addrs
       (env_derive env (if internal then SEQUENCE_INTERNAL_CHAIN else SEQUENCE_EXTERNAL_CHAIN)) (wal_usedAddrs w) gapLimit
       (unused_from (wal_usedAddrs w) chain startCount) chain;
     let written = (if addrs \<and> i + gapLimit \<le> length chain then take gapLimit (drop i chain) else []);
     let w = (if internal then w\<lparr>wal_internalChain := chain\<rparr> else w\<lparr>wal_externalChain := chain\<rparr>);
     Some (written,
       if \<not> env_moved env internal
       then w\<lparr>wal_allAddrs := foldl (\<lambda>s a. insert (addr_str a) s) (wal_allAddrs w) (drop startCount chain)\<rparr>
       else w\<lparr>wal_allAddrs := foldl (\<lambda>s a. insert (addr_str a) s)
         (foldl (\<lambda>s a. insert (addr_str a) s) {} (rev (wal_internalChain w))) (rev (wal_externalChain w))\<rparr>)
   }"

definition BRWalletReceiveAddress :: "wallet_env \<Rightarrow> BRWallet \<Rightarrow> (BRAddress \<times> BRWallet) run" where
  "BRWalletReceiveAddress env w = do {
     (written, w) \<leftarrow> BRWalletUnusedAddrs env w True 1 False;
     Some (case written of [] \<Rightarrow> no_address | a # _ \<Rightarrow> a, w)
   }"

text \<open>The addresses written, for a buffer of \<open>addrsCount\<close> entries; for a null buffer (\<open>None\<close>) the number.\<close>

definition BRWalletAllAddrs :: "BRWallet \<Rightarrow> nat option \<Rightarrow> nat \<times> BRAddress list" where
  "BRWalletAllAddrs w addrsCount =
     (case addrsCount of
        None \<Rightarrow> (length (wal_internalChain w) + length (wal_externalChain w), [])
      | Some n \<Rightarrow>
          let internalCount = (if length (wal_internalChain w) < n then length (wal_internalChain w) else n);
              externalCount = (if length (wal_externalChain w) < n - internalCount then length (wal_externalChain w)
                else n - internalCount)
          in (internalCount + externalCount,
              take internalCount (wal_internalChain w) @ take externalCount (wal_externalChain w)))"

definition BRWalletContainsAddress :: "BRWallet \<Rightarrow> BRAddress \<Rightarrow> bool" where
  "BRWalletContainsAddress w addr \<longleftrightarrow> addr_str addr \<in> wal_allAddrs w"

definition BRWalletAddressIsUsed :: "BRWallet \<Rightarrow> BRAddress \<Rightarrow> bool" where
  "BRWalletAddressIsUsed w addr \<longleftrightarrow> addr_str addr \<in> wal_usedAddrs w"

section \<open>A new wallet\<close>

definition wallet_empty :: BRWallet where
  "wallet_empty = \<lparr>wal_balance = 0, wal_totalSent = 0, wal_totalReceived = 0, wal_feePerKb = DEFAULT_FEE_PER_KB,
     wal_balanceHist = [], wal_blockHeight = 0, wal_utxos = [], wal_transactions = [], wal_internalChain = [],
     wal_externalChain = [], wal_allTx = Map.empty, wal_invalidTx = {}, wal_pendingTx = {}, wal_spentOutputs = {},
     wal_usedAddrs = {}, wal_allAddrs = {}\<rparr>"

definition new_turn :: "BRTransaction \<Rightarrow> BRWallet \<Rightarrow> BRWallet run" where
  "new_turn tx w =
     (if \<not> BRTransactionIsSigned tx \<or> wal_allTx w (tx_hash tx) \<noteq> None then Some w
      else do {
        w \<leftarrow> BRWalletInsertTx (w\<lparr>wal_allTx := (wal_allTx w)(tx_hash tx \<mapsto> tx)\<rparr>) tx;
        Some (w\<lparr>wal_usedAddrs := foldl (\<lambda>s p. if out_address p ! 0 \<noteq> 0 then insert (addr_str (out_address p)) s else s)
          (wal_usedAddrs w) (tx_outputs tx)\<rparr>)
      })"

definition BRWalletNew :: "wallet_env \<Rightarrow> BRTransaction list \<Rightarrow> BRWallet option run" where
  "BRWalletNew env transactions = do {
     w \<leftarrow> fold_run new_turn transactions wallet_empty;
     (_, w) \<leftarrow> BRWalletUnusedAddrs env w False SEQUENCE_GAP_LIMIT_EXTERNAL False;
     (_, w) \<leftarrow> BRWalletUnusedAddrs env w False SEQUENCE_GAP_LIMIT_INTERNAL True;
     w \<leftarrow> BRWalletUpdateBalance (env_now env) w;
     Some (if transactions \<noteq> [] \<and> \<not> BRWalletContainsTx w (hd transactions) then None else Some w)
   }"

section \<open>Queries\<close>

definition BRWalletUTXOs :: "BRWallet \<Rightarrow> nat option \<Rightarrow> nat \<times> BRUTXO list" where
  "BRWalletUTXOs w utxosCount =
     (let n = (case utxosCount of None \<Rightarrow> length (wal_utxos w)
         | Some k \<Rightarrow> if length (wal_utxos w) < k then length (wal_utxos w) else k)
      in (n, if utxosCount = None then [] else take n (wal_utxos w)))"

definition BRWalletTransactions :: "BRWallet \<Rightarrow> nat option \<Rightarrow> nat \<times> uint256 list" where
  "BRWalletTransactions w txCount =
     (let n = (case txCount of None \<Rightarrow> length (wal_transactions w)
         | Some k \<Rightarrow> if length (wal_transactions w) < k then length (wal_transactions w) else k)
      in (n, if txCount = None then [] else take n (wal_transactions w)))"

text \<open>How many transactions at the end, first to last in the given list, satisfy a test of their block height.\<close>

fun heights_while :: "tx_store \<Rightarrow> (u32 \<Rightarrow> bool) \<Rightarrow> uint256 list \<Rightarrow> nat run" where
  "heights_while all P [] = Some 0"
| "heights_while all P (h # hs) = do {
     t \<leftarrow> all h;
     if P (tx_blockHeight t) then map_option Suc (heights_while all P hs) else Some 0
   }"

definition BRWalletTxUnconfirmedBefore :: "BRWallet \<Rightarrow> nat option \<Rightarrow> u32 \<Rightarrow> (nat \<times> uint256 list) run" where
  "BRWalletTxUnconfirmedBefore w txCount blockHeight = do {
     let total = length (wal_transactions w);
     n \<leftarrow> heights_while (wal_allTx w) (\<lambda>height. height \<ge> blockHeight) (rev (wal_transactions w));
     let count = (case txCount of None \<Rightarrow> n | Some k \<Rightarrow> if n < k then n else k);
     Some (count, if txCount = None then [] else take count (drop (total - n) (wal_transactions w)))
   }"

definition BRWalletBalance :: "BRWallet \<Rightarrow> u64" where "BRWalletBalance w = wal_balance w"
definition BRWalletTotalSent :: "BRWallet \<Rightarrow> u64" where "BRWalletTotalSent w = wal_totalSent w"
definition BRWalletTotalReceived :: "BRWallet \<Rightarrow> u64" where "BRWalletTotalReceived w = wal_totalReceived w"
definition BRWalletFeePerKb :: "BRWallet \<Rightarrow> u64" where "BRWalletFeePerKb w = wal_feePerKb w"

definition BRWalletSetFeePerKb :: "BRWallet \<Rightarrow> u64 \<Rightarrow> BRWallet" where
  "BRWalletSetFeePerKb w feePerKb = w\<lparr>wal_feePerKb := feePerKb\<rparr>"

definition BRWalletTransactionForHash :: "BRWallet \<Rightarrow> uint256 \<Rightarrow> BRTransaction option" where
  "BRWalletTransactionForHash w txHash = wal_allTx w txHash"

definition BRWalletContainsTransaction :: "BRWallet \<Rightarrow> BRTransaction \<Rightarrow> bool" where
  "BRWalletContainsTransaction w tx = BRWalletContainsTx w tx"

partial_function (option) BRWalletTransactionIsValid :: "BRWallet \<Rightarrow> BRTransaction \<Rightarrow> bool run" where
  "BRWalletTransactionIsValid w tx =
     (if tx_blockHeight tx \<noteq> TX_UNCONFIRMED then Some True
      else if (if wal_allTx w (tx_hash tx) = None
               then list_ex (\<lambda>i. input_utxo i \<in> wal_spentOutputs w) (tx_inputs tx)
               else tx_hash tx \<in> wal_invalidTx w) then Some False
      else map_option Not (any_run (\<lambda>i. case wal_allTx w (in_txHash i) of
          None \<Rightarrow> Some False
        | Some t \<Rightarrow> map_option Not (BRWalletTransactionIsValid w t)) (tx_inputs tx)))"

partial_function (option) BRWalletTransactionIsPending :: "int \<Rightarrow> BRWallet \<Rightarrow> BRTransaction \<Rightarrow> bool run" where
  "BRWalletTransactionIsPending now w tx =
     (if tx_blockHeight tx \<noteq> TX_UNCONFIRMED then Some False
      else if BRTransactionSize tx > TX_MAX_SIZE \<or>
        list_ex (input_locked (wal_blockHeight w) now tx) (tx_inputs tx) \<or>
        list_ex (\<lambda>p. out_amount p < TX_MIN_OUTPUT_AMOUNT) (tx_outputs tx) then Some True
      else any_run (\<lambda>i. case wal_allTx w (in_txHash i) of
          None \<Rightarrow> Some False
        | Some t \<Rightarrow> BRWalletTransactionIsPending now w t) (tx_inputs tx))"

partial_function (option) BRWalletTransactionIsVerified :: "int \<Rightarrow> BRWallet \<Rightarrow> BRTransaction \<Rightarrow> bool run" where
  "BRWalletTransactionIsVerified now w tx =
     (if tx_blockHeight tx \<noteq> TX_UNCONFIRMED then Some True
      else do {
        bad \<leftarrow> (if tx_timestamp tx = 0 then Some True
          else do {
            valid \<leftarrow> BRWalletTransactionIsValid w tx;
            if \<not> valid then Some True else BRWalletTransactionIsPending now w tx
          });
        if bad then Some False
        else map_option Not (any_run (\<lambda>i. case wal_allTx w (in_txHash i) of
            None \<Rightarrow> Some False
          | Some t \<Rightarrow> map_option Not (BRWalletTransactionIsVerified now w t)) (tx_inputs tx))
      })"

section \<open>Registering, removing and confirming transactions\<close>

text \<open>The result, the wallet and the callbacks. An unsigned transaction is refused.\<close>

definition BRWalletRegisterTransaction ::
  "wallet_env \<Rightarrow> BRWallet \<Rightarrow> BRTransaction \<Rightarrow> (bool \<times> BRWallet \<times> wallet_event list) run" where
  "BRWalletRegisterTransaction env w tx =
     (if \<not> BRTransactionIsSigned tx then Some (False, w, [])
      else if wal_allTx w (tx_hash tx) \<noteq> None then Some (True, w, [])
      else if BRWalletContainsTx w tx then do {
        w \<leftarrow> BRWalletInsertTx (w\<lparr>wal_allTx := (wal_allTx w)(tx_hash tx \<mapsto> tx)\<rparr>) tx;
        w \<leftarrow> BRWalletUpdateBalance (env_now env) w;
        (_, w) \<leftarrow> BRWalletUnusedAddrs env w False SEQUENCE_GAP_LIMIT_EXTERNAL False;
        (_, w) \<leftarrow> BRWalletUnusedAddrs env w False SEQUENCE_GAP_LIMIT_INTERNAL True;
        Some (True, w, [BalanceChanged (wal_balance w), TxAdded (tx_hash tx)])
      }
      else Some (False, if tx_blockHeight tx = TX_UNCONFIRMED then w\<lparr>wal_allTx := (wal_allTx w)(tx_hash tx \<mapsto> tx)\<rparr> else w, []))"

definition BRWalletAmountReceivedFromTx :: "BRWallet \<Rightarrow> BRTransaction \<Rightarrow> u64" where
  "BRWalletAmountReceivedFromTx w tx =
     foldl (\<lambda>amount p. if wallet_address w (out_address p) then amount + out_amount p else amount) 0 (tx_outputs tx)"

definition BRWalletAmountSentByTx :: "BRWallet \<Rightarrow> BRTransaction \<Rightarrow> u64" where
  "BRWalletAmountSentByTx w tx =
     foldl (\<lambda>amount i. case spent_output (wal_allTx w) i of
         None \<Rightarrow> amount
       | Some p \<Rightarrow> if wallet_address w (out_address p) then amount + out_amount p else amount) 0 (tx_inputs tx)"

text \<open>The transactions that spend an output of \<open>tx\<close>, over the list from its end.\<close>

fun dependent_txs :: "tx_store \<Rightarrow> BRTransaction \<Rightarrow> uint256 \<Rightarrow> uint256 list \<Rightarrow> uint256 list run" where
  "dependent_txs all tx txHash [] = Some []"
| "dependent_txs all tx txHash (h # hs) = do {
     t \<leftarrow> all h;
     if tx_blockHeight t < tx_blockHeight tx then Some []
     else if BRTransactionEq tx t then dependent_txs all tx txHash hs
     else if list_ex (\<lambda>i. UInt256Eq (in_txHash i) txHash) (tx_inputs t)
     then map_option (Cons (tx_hash t)) (dependent_txs all tx txHash hs)
     else dependent_txs all tx txHash hs
   }"

text \<open>The last entry for \<open>h\<close> removed.\<close>

fun remove_last :: "uint256 \<Rightarrow> nat \<Rightarrow> uint256 list \<Rightarrow> uint256 list" where
  "remove_last h 0 xs = xs"
| "remove_last h (Suc i) xs = (if xs ! i \<noteq> h then remove_last h i xs else take i xs @ drop (Suc i) xs)"

definition remove_leaf :: "int \<Rightarrow> BRWallet \<Rightarrow> BRTransaction \<Rightarrow> uint256 \<Rightarrow> (BRWallet \<times> wallet_event list) run" where
  "remove_leaf now w tx txHash = do {
     w \<leftarrow> BRWalletUpdateBalance now (w\<lparr>wal_allTx := (wal_allTx w)(txHash := None),
       wal_transactions := remove_last txHash (length (wal_transactions w)) (wal_transactions w)\<rparr>);
     notify \<leftarrow> (if BRWalletAmountSentByTx w tx > 0 then BRWalletTransactionIsValid w tx else Some False);
     let rescan = (notify \<and> list_all (\<lambda>i. case wal_allTx w (in_txHash i) of
         None \<Rightarrow> False | Some t \<Rightarrow> tx_blockHeight t \<noteq> TX_UNCONFIRMED) (tx_inputs tx));
     Some (w, [BalanceChanged (wal_balance w), TxDeleted txHash notify rescan])
   }"

partial_function (option) BRWalletRemoveTransaction ::
  "int \<Rightarrow> BRWallet \<Rightarrow> uint256 \<Rightarrow> (BRWallet \<times> wallet_event list) run" where
  "BRWalletRemoveTransaction now w txHash =
     (case wal_allTx w txHash of
        None \<Rightarrow> Some (w, [])
      | Some tx \<Rightarrow> do {
          hashes \<leftarrow> dependent_txs (wal_allTx w) tx txHash (rev (wal_transactions w));
          if hashes \<noteq> [] then
            fold_run (\<lambda>h s. do {
              (w', ev') \<leftarrow> BRWalletRemoveTransaction now (fst s) h;
              Some (w', snd s @ ev')
            }) (rev hashes @ [txHash]) (w, [])
          else remove_leaf now w tx txHash
        })"

text \<open>One hash of \<open>BRWalletUpdateTransactions\<close>, with the wallet, the hashes reported and \<open>needsUpdate\<close>.\<close>

definition update_turn ::
  "u32 \<Rightarrow> u32 \<Rightarrow> uint256 \<Rightarrow> BRWallet \<times> uint256 list \<times> bool \<Rightarrow> BRWallet \<times> uint256 list \<times> bool" where
  "update_turn blockHeight timestamp h s =
     (case s of (w, hashes, needsUpdate) \<Rightarrow>
      case wal_allTx w h of
        None \<Rightarrow> s
      | Some tx \<Rightarrow>
          if tx_blockHeight tx = blockHeight \<and> tx_timestamp tx = timestamp then s
          else
            let tx = tx\<lparr>tx_timestamp := timestamp, tx_blockHeight := blockHeight\<rparr>;
                w = w\<lparr>wal_allTx := (wal_allTx w)(h \<mapsto> tx)\<rparr>
            in if BRWalletContainsTx w tx
               then (w, hashes @ [h], needsUpdate \<or> h \<in> wal_pendingTx w \<or> h \<in> wal_invalidTx w)
               else if blockHeight \<noteq> TX_UNCONFIRMED then (w\<lparr>wal_allTx := (wal_allTx w)(h := None)\<rparr>, hashes, needsUpdate)
               else (w, hashes, needsUpdate))"

definition BRWalletUpdateTransactions ::
  "int \<Rightarrow> BRWallet \<Rightarrow> uint256 list \<Rightarrow> u32 \<Rightarrow> u32 \<Rightarrow> (BRWallet \<times> wallet_event list) run" where
  "BRWalletUpdateTransactions now w txHashes blockHeight timestamp = do {
     let w = (if blockHeight > wal_blockHeight w then w\<lparr>wal_blockHeight := blockHeight\<rparr> else w);
     let (w, hashes, needsUpdate) = foldl (\<lambda>s h. update_turn blockHeight timestamp h s) (w, [], False) txHashes;
     w \<leftarrow> (if needsUpdate then BRWalletUpdateBalance now w else Some w);
     Some (w, if hashes \<noteq> [] then [TxUpdated hashes blockHeight timestamp] else [])
   }"

definition set_unconfirmed :: "uint256 \<Rightarrow> tx_store \<Rightarrow> tx_store" where
  "set_unconfirmed h all = all(h := map_option (\<lambda>t. t\<lparr>tx_blockHeight := TX_UNCONFIRMED\<rparr>) (all h))"

definition BRWalletSetTxUnconfirmedAfter :: "int \<Rightarrow> BRWallet \<Rightarrow> u32 \<Rightarrow> (BRWallet \<times> wallet_event list) run" where
  "BRWalletSetTxUnconfirmedAfter now w blockHeight = do {
     let w = w\<lparr>wal_blockHeight := blockHeight\<rparr>;
     count \<leftarrow> heights_while (wal_allTx w) (\<lambda>height. height > blockHeight) (rev (wal_transactions w));
     let hashes = drop (length (wal_transactions w) - count) (wal_transactions w);
     let w = w\<lparr>wal_allTx := fold set_unconfirmed hashes (wal_allTx w)\<rparr>;
     w \<leftarrow> (if count > 0 then BRWalletUpdateBalance now w else Some w);
     Some (w, if count > 0 then [TxUpdated hashes TX_UNCONFIRMED 0] else [])
   }"

section \<open>Fees and amounts\<close>

text \<open>\<open>UINT64_MAX\<close> marks an unknown input and ends the loop, also when a sum reaches it.\<close>

fun fee_inputs :: "tx_store \<Rightarrow> BRTxInput list \<Rightarrow> u64 \<Rightarrow> u64" where
  "fee_inputs all [] amount = amount"
| "fee_inputs all (i # is) amount =
     (if amount = - 1 then amount
      else fee_inputs all is (case spent_output all i of None \<Rightarrow> - 1 | Some p \<Rightarrow> amount + out_amount p))"

fun fee_outputs :: "BRTxOutput list \<Rightarrow> u64 \<Rightarrow> u64" where
  "fee_outputs [] amount = amount"
| "fee_outputs (p # ps) amount = (if amount = - 1 then amount else fee_outputs ps (amount - out_amount p))"

definition BRWalletFeeForTx :: "BRWallet \<Rightarrow> BRTransaction \<Rightarrow> u64" where
  "BRWalletFeeForTx w tx = fee_outputs (tx_outputs tx) (fee_inputs (wal_allTx w) (tx_inputs tx) 0)"

fun balance_after_loop :: "BRWallet \<Rightarrow> BRTransaction \<Rightarrow> nat \<Rightarrow> u64 run" where
  "balance_after_loop w tx 0 = Some (wal_balance w)"
| "balance_after_loop w tx (Suc i) = do {
     t \<leftarrow> wal_allTx w (wal_transactions w ! i);
     if \<not> BRTransactionEq tx t then balance_after_loop w tx i else rd (wal_balanceHist w) i
   }"

definition BRWalletBalanceAfterTx :: "BRWallet \<Rightarrow> BRTransaction \<Rightarrow> u64 run" where
  "BRWalletBalanceAfterTx w tx = balance_after_loop w tx (length (wal_transactions w))"

definition BRWalletFeeForTxSize :: "BRWallet \<Rightarrow> nat \<Rightarrow> u64" where
  "BRWalletFeeForTxSize w sz = txFee (wal_feePerKb w) sz"

definition BRWalletMinOutputAmount :: "BRWallet \<Rightarrow> u64" where
  "BRWalletMinOutputAmount w =
     (let amount = (TX_MIN_OUTPUT_AMOUNT * wal_feePerKb w + MIN_FEE_PER_KB - 1) div MIN_FEE_PER_KB
      in if amount > TX_MIN_OUTPUT_AMOUNT then amount else TX_MIN_OUTPUT_AMOUNT)"

definition utxo_output :: "tx_store \<Rightarrow> BRUTXO \<Rightarrow> BRTxOutput option" where
  "utxo_output all u = (case all (utxo_hash u) of
     None \<Rightarrow> None
   | Some t \<Rightarrow> if unat (utxo_n u) < length (tx_outputs t) then Some (tx_outputs t ! unat (utxo_n u)) else None)"

definition BRWalletMaxOutputAmount :: "BRWallet \<Rightarrow> u64" where
  "BRWalletMaxOutputAmount w =
     (let (amount, inCount) = foldl (\<lambda>(amount, inCount) u. case utxo_output (wal_allTx w) u of
              None \<Rightarrow> (amount, inCount) | Some p \<Rightarrow> (amount + out_amount p, inCount + 1)) (0, 0 :: nat) (rev (wal_utxos w));
          txSize = 8 + BRVarIntSize (of_nat inCount) + TX_INPUT_SIZE * inCount + BRVarIntSize 2 + TX_OUTPUT_SIZE * 2;
          fee = txFee (wal_feePerKb w) txSize
      in if amount > fee then amount - fee else 0)"

section \<open>Creating transactions\<close>

definition output_script_arg :: "BRTxOutput \<Rightarrow> bytes option run" where
  "output_script_arg p = (case out_script p of
     None \<Rightarrow> if out_scriptLen p = 0 then Some None else None
   | Some s \<Rightarrow> map_option Some (slice s 0 (out_scriptLen p)))"

definition add_recipient :: "bool \<Rightarrow> BRTxOutput \<Rightarrow> BRTransaction \<times> u64 \<Rightarrow> (BRTransaction \<times> u64) run" where
  "add_recipient testnet p s = do {
     script \<leftarrow> output_script_arg p;
     tx \<leftarrow> BRTransactionAddOutput testnet (fst s) (out_amount p) script;
     Some (tx, snd s + out_amount p)
   }"

text \<open>How the loop over the unspent outputs ends: with the transaction, the sum of its inputs and the fee, or
  at an input that makes it too large, with the sum and the fee before it.\<close>

datatype coin_choice = Chosen BRTransaction u64 u64 | TooLarge u64 u64

fun select_coins :: "bool \<Rightarrow> BRWallet \<Rightarrow> u64 \<Rightarrow> u64 \<Rightarrow> BRUTXO list \<Rightarrow> BRTransaction \<Rightarrow> u64 \<Rightarrow> u64 \<Rightarrow> coin_choice run" where
  "select_coins testnet w amount minAmount [] tx balance feeAmount = Some (Chosen tx balance feeAmount)"
| "select_coins testnet w amount minAmount (u # us) tx balance feeAmount =
     (case utxo_output (wal_allTx w) u of
        None \<Rightarrow> select_coins testnet w amount minAmount us tx balance feeAmount
      | Some p \<Rightarrow> do {
          script \<leftarrow> output_script_arg p;
          tx \<leftarrow> BRTransactionAddInput testnet tx (utxo_hash u) (utxo_n u) (out_amount p) script None TXIN_SEQUENCE;
          if BRTransactionSize tx + TX_OUTPUT_SIZE > TX_MAX_SIZE then Some (TooLarge balance feeAmount)
          else do {
            let balance = balance + out_amount p;
            let feeAmount = txFee (wal_feePerKb w) (BRTransactionSize tx + TX_OUTPUT_SIZE);
            let feeAmount = (if wal_balance w > amount + feeAmount
              then feeAmount + (wal_balance w - (amount + feeAmount)) mod 100 else feeAmount);
            if balance = amount + feeAmount \<or> balance \<ge> amount + feeAmount + minAmount
            then Some (Chosen tx balance feeAmount)
            else select_coins testnet w amount minAmount us tx balance feeAmount
          }
        })"

text \<open>The checks behind the loop and the change output.\<close>

definition finish_tx ::
  "wallet_env \<Rightarrow> BRWallet \<Rightarrow> nat \<Rightarrow> u64 \<Rightarrow> BRTransaction option \<Rightarrow> u64 \<Rightarrow> u64 \<Rightarrow> u32 list \<Rightarrow>
   (BRTransaction option \<times> BRWallet \<times> u32 list) run" where
  "finish_tx env w outCount minAmount transaction balance spend rs =
     (case transaction of
        None \<Rightarrow> Some (None, w, rs)
      | Some tx \<Rightarrow>
          if outCount < 1 \<or> balance < spend then Some (None, w, rs)
          else if balance - spend \<ge> minAmount then do {
            (written, w) \<leftarrow> BRWalletUnusedAddrs env w True 1 True;
            let addr = (case written of [] \<Rightarrow> no_address | a # _ \<Rightarrow> a);
            tx \<leftarrow> BRTransactionAddOutput (env_testnet env) tx (balance - spend)
              (Some (address_script (env_testnet env) (addr_str addr)));
            (tx, rs) \<leftarrow> BRTransactionShuffleOutputs tx rs;
            Some (Some tx, w, rs)
          }
          else Some (Some tx, w, rs))"

partial_function (option) BRWalletCreateTxForOutputs ::
  "wallet_env \<Rightarrow> BRWallet \<Rightarrow> BRTxOutput list \<Rightarrow> u32 list \<Rightarrow> (BRTransaction option \<times> BRWallet \<times> u32 list) run" where
  "BRWalletCreateTxForOutputs env w outputs rs = do {
     (tx, amount) \<leftarrow> fold_run (add_recipient (env_testnet env)) outputs (BRTransactionNew, 0);
     let minAmount = BRWalletMinOutputAmount w;
     c \<leftarrow> select_coins (env_testnet env) w amount minAmount (wal_utxos w) tx 0
       (txFee (wal_feePerKb w) (BRTransactionSize tx + TX_OUTPUT_SIZE));
     (case c of
        Chosen tx balance feeAmount \<Rightarrow> finish_tx env w (length outputs) minAmount (Some tx) balance (amount + feeAmount) rs
      | TooLarge balance feeAmount \<Rightarrow>
          if wal_balance w < amount + txFee (wal_feePerKb w)
            (10 + length (wal_utxos w) * TX_INPUT_SIZE + (length outputs + 1) * TX_OUTPUT_SIZE)
          then finish_tx env w (length outputs) minAmount None balance (amount + feeAmount) rs
          else do {
            last_out \<leftarrow> (if outputs = [] then None else Some (last outputs));
            (transaction, w, rs) \<leftarrow>
              (if out_amount last_out > amount + feeAmount + minAmount - balance
               then BRWalletCreateTxForOutputs env w
                 (butlast outputs @ [last_out\<lparr>out_amount := out_amount last_out - (amount + feeAmount - balance)\<rparr>]) rs
               else BRWalletCreateTxForOutputs env w (butlast outputs) rs);
            finish_tx env w (length outputs) minAmount transaction 0 0 rs
          })
   }"

definition BRWalletCreateTransaction ::
  "wallet_env \<Rightarrow> BRWallet \<Rightarrow> u64 \<Rightarrow> BRAddress \<Rightarrow> u32 list \<Rightarrow> (BRTransaction option \<times> BRWallet \<times> u32 list) run" where
  "BRWalletCreateTransaction env w amount addr rs =
     BRWalletCreateTxForOutputs env w
       [BRTxOutputSetAddress (env_testnet env) (BR_TX_OUTPUT_NONE\<lparr>out_amount := amount\<rparr>) (Some (addr_str addr))] rs"

definition dummy_script :: bytes where
  "dummy_script = [OP_DUP, OP_HASH160, 20] @ replicate 20 0 @ [OP_EQUALVERIFY, OP_CHECKSIG]"

definition BRWalletFeeForTxAmount :: "wallet_env \<Rightarrow> BRWallet \<Rightarrow> u64 \<Rightarrow> u32 list \<Rightarrow> (u64 \<times> BRWallet \<times> u32 list) run" where
  "BRWalletFeeForTxAmount env w amount rs = do {
     let maxAmount = BRWalletMaxOutputAmount w;
     p \<leftarrow> BRTxOutputSetScript (env_testnet env)
       (BR_TX_OUTPUT_NONE\<lparr>out_amount := (if amount < maxAmount then amount else maxAmount)\<rparr>) (Some dummy_script);
     (tx, w, rs) \<leftarrow> BRWalletCreateTxForOutputs env w [p] rs;
     Some (case tx of None \<Rightarrow> 0 | Some t \<Rightarrow> BRWalletFeeForTx w t, w, rs)
   }"

section \<open>Signing\<close>

text \<open>The indexes of an address in a chain, from the end of the chain.\<close>

fun chain_matches :: "BRAddress list \<Rightarrow> BRAddress \<Rightarrow> nat \<Rightarrow> u32 list" where
  "chain_matches chain a 0 = []"
| "chain_matches chain a (Suc j) =
     (if BRAddressEq a (chain ! j) then of_nat j # chain_matches chain a j else chain_matches chain a j)"

definition signing_indexes :: "BRAddress list \<Rightarrow> BRTransaction \<Rightarrow> u32 list" where
  "signing_indexes chain tx = concat (map (\<lambda>i. chain_matches chain (in_address i) (length chain)) (tx_inputs tx))"

text \<open>\<open>BRBIP32PrivKeyList\<close> derives the keys of a chain and some indexes from the seed. The indexes of each chain are
  collected, unchecked, in a local array with one entry for each input; more of them are stored behind its end. Without a
  seed the user has cancelled, and the result is -1.\<close>

definition BRWalletSignTransaction ::
  "bool \<Rightarrow> 'k key_ops \<Rightarrow> (bytes \<Rightarrow> u32 \<Rightarrow> u32 list \<Rightarrow> 'k list) \<Rightarrow> BRWallet \<Rightarrow> BRTransaction \<Rightarrow> u32 \<Rightarrow> bytes option \<Rightarrow>
   (int \<times> BRTransaction) run" where
  "BRWalletSignTransaction testnet ops privKeyList w tx forkId seed =
     (let internalIdx = signing_indexes (wal_internalChain w) tx;
          externalIdx = signing_indexes (wal_externalChain w) tx
      in if length internalIdx > length (tx_inputs tx) \<or> length externalIdx > length (tx_inputs tx) then None
      else case seed of
          None \<Rightarrow> Some (- 1, tx)
        | Some s \<Rightarrow> do {
            (r, tx) \<leftarrow> BRTransactionSign testnet ops tx forkId
              (privKeyList s SEQUENCE_INTERNAL_CHAIN internalIdx @ privKeyList s SEQUENCE_EXTERNAL_CHAIN externalIdx);
            Some (if r then 1 else 0, tx)
          })"

end
