(* ===== verification/WalletSpec.thy ===== *)
theory WalletSpec
  imports Wallet SetRefine TxSpec
begin

text \<open>
  Properties of the wallet: the contracts of its hash sets, fees, the order of its transactions, its
  address chains, the balance and the unspent outputs, registration, removal, confirmation and the
  transactions it creates.
\<close>

section \<open>The sets of the wallet\<close>

text \<open>The three hash functions meet the contract of the hash table, so that its operations on them are the
  set operations the model of the wallet uses.\<close>

interpretation utxo_set: hash_contract BRUTXOHash BRUTXOEq
  by unfold_locales (auto simp: BRUTXOHash_def BRUTXOEq_def)

interpretation tx_set: hash_contract BRTransactionHash BRTransactionEq
  by unfold_locales (auto simp: BRTransactionHash_def BRTransactionEq_def)

lemma BRUTXOEq_iff [simp]: "BRUTXOEq u v \<longleftrightarrow> u = v"
  by (auto simp: BRUTXOEq_def)

section \<open>Folds that may not return\<close>

text \<open>An invariant that may speak of the elements already visited.\<close>

lemma fold_run_invariant:
  assumes "\<And>ys x zs s. xs = ys @ x # zs \<Longrightarrow> I ys s \<Longrightarrow> \<exists>s'. f x s = Some s' \<and> I (ys @ [x]) s'" "I [] s"
  shows "\<exists>s'. fold_run f xs s = Some s' \<and> I xs s'"
proof -
  have "\<exists>s'. fold_run f zs s = Some s' \<and> I (ys @ zs) s'" if "xs = ys @ zs" "I ys s" for ys zs s
    using that
  proof (induction zs arbitrary: ys s)
    case Nil
    then show ?case by simp
  next
    case (Cons x zs)
    then obtain s' where "f x s = Some s'" "I (ys @ [x]) s'" using assms(1) by blast
    then show ?case using Cons.IH [of "ys @ [x]" s'] Cons.prems(1) by simp
  qed
  then show ?thesis using assms(2) by (metis append_Nil)
qed

lemma any_run_eq:
  assumes "\<And>x. x \<in> set xs \<Longrightarrow> f x = Some (P x)"
  shows "any_run f xs = Some (\<exists>x \<in> set xs. P x)"
  using assms by (induction xs) simp_all

section \<open>Fees\<close>

lemma ceil_mult_nat: "((n + 999) div 1000) * 1000 \<ge> (n :: nat)"
  using div_mult_mod_eq [of "n + 999" 1000] mod_less_divisor [of 1000 "n + 999"] by linarith

lemma unat_add_small: "unat x + unat y < 2 ^ 64 \<Longrightarrow> unat (x + y :: u64) = unat x + unat y"
  by (simp add: unat_word_ariths)

lemma unat_mult_small: "unat x * unat y < 2 ^ 64 \<Longrightarrow> unat (x * y :: u64) = unat x * unat y"
  by (simp add: unat_word_ariths)

lemma fee_eq:
  assumes "sz \<le> 2 ^ 20" "unat feePerKb \<le> 2 ^ 40"
  shows "unat (txFee feePerKb sz) =
    max ((sz + 999) div 1000 * 1000) ((sz * unat feePerKb div 1000 + 99) div 100 * 100)"
proof -
  let ?r = "unat feePerKb" and ?s = "of_nat sz :: u64"
  have s: "unat ?s = sz" using assms(1) by (simp add: unat_of_nat)
  have sr: "sz * ?r \<le> 2 ^ 20 * 2 ^ 40" by (rule mult_le_mono [OF assms])
  have a: "unat (?s + 999) = sz + 999" using assms(1) by (subst unat_add_small) (simp_all add: s)
  have b: "unat ((?s + 999) div 1000) = (sz + 999) div 1000" by (simp add: unat_div a)
  have bl: "(sz + 999) div 1000 * 1000 \<le> sz + 999" by simp
  have c: "unat ((?s + 999) div 1000 * 1000) = (sz + 999) div 1000 * 1000"
    using bl assms(1) by (subst unat_mult_small) (simp_all add: b)
  have d: "unat (?s * feePerKb) = sz * ?r" using sr by (subst unat_mult_small) (simp_all add: s)
  have e: "unat (?s * feePerKb div 1000) = sz * ?r div 1000" by (simp add: unat_div d)
  have el: "sz * ?r div 1000 \<le> sz * ?r" by simp
  have f: "unat (?s * feePerKb div 1000 + 99) = sz * ?r div 1000 + 99"
    using el sr by (subst unat_add_small) (simp_all add: e)
  have g: "unat ((?s * feePerKb div 1000 + 99) div 100) = (sz * ?r div 1000 + 99) div 100" by (simp add: unat_div f)
  have gl: "(sz * ?r div 1000 + 99) div 100 * 100 \<le> sz * ?r div 1000 + 99" by simp
  have h: "unat ((?s * feePerKb div 1000 + 99) div 100 * 100) = (sz * ?r div 1000 + 99) div 100 * 100"
    using gl el sr by (subst unat_mult_small) (simp_all add: g)
  show ?thesis
    unfolding txFee_def Let_def using c h by (auto simp: max_def word_less_nat_alt)
qed

lemma fee_mono:
  assumes "sz \<le> 2 ^ 20" "unat feePerKb \<le> 2 ^ 40" "sz' \<le> sz" "feePerKb' \<le> feePerKb"
  shows "txFee feePerKb' sz' \<le> txFee feePerKb sz"
proof -
  have "unat feePerKb' \<le> unat feePerKb" using assms(4) by (simp add: word_le_nat_alt)
  then have m: "sz' * unat feePerKb' \<le> sz * unat feePerKb" using assms(3) by (rule mult_le_mono [rotated])
  have "(sz' + 999) div 1000 * 1000 \<le> (sz + 999) div 1000 * 1000"
    using assms(3) by (intro mult_le_mono div_le_mono) simp_all
  moreover have "(sz' * unat feePerKb' div 1000 + 99) div 100 * 100 \<le> (sz * unat feePerKb div 1000 + 99) div 100 * 100"
    using div_le_mono [OF m, of 1000] by (intro mult_le_mono div_le_mono) simp_all
  ultimately have "unat (txFee feePerKb' sz') \<le> unat (txFee feePerKb sz)"
    using assms \<open>unat feePerKb' \<le> unat feePerKb\<close> by (simp only: fee_eq max.mono)
  then show ?thesis by (simp add: word_le_nat_alt)
qed

text \<open>For sizes up to \<open>2 ^ 20\<close> bytes (ten times the largest transaction) and rates up to \<open>2 ^ 40\<close> nothing
  wraps in the fee computation: the fee is the larger of a thousand for each kilobyte begun and the rate
  times the size, rounded down to a satoshi and then up to a hundred. It covers the rate and the standard
  fee, is a multiple of a hundred, and grows with the size and with the rate.\<close>

theorem wallet_fee_formula:
  assumes "sz \<le> 2 ^ 20" "unat feePerKb \<le> 2 ^ 40"
  shows "unat (txFee feePerKb sz) =
      max ((sz + 999) div 1000 * 1000) ((sz * unat feePerKb div 1000 + 99) div 100 * 100) \<and>
    sz * unat feePerKb div 1000 \<le> unat (txFee feePerKb sz) \<and> sz \<le> unat (txFee feePerKb sz) \<and>
    unat (txFee feePerKb sz) mod 100 = 0 \<and>
    (\<forall>sz' feePerKb'. sz' \<le> sz \<and> feePerKb' \<le> feePerKb \<longrightarrow> txFee feePerKb' sz' \<le> txFee feePerKb sz)"
proof -
  let ?k = "sz * unat feePerKb div 1000"
  have "(?k + 99) div 100 * 100 \<ge> ?k"
    using div_mult_mod_eq [of "?k + 99" 100] mod_less_divisor [of 100 "?k + 99"] by linarith
  moreover have "(m * 1000) mod 100 = 0" "(m * 100) mod 100 = 0" for m :: nat
    by (simp_all add: mod_mult_right_eq [symmetric])
  ultimately show ?thesis
    using fee_eq [OF assms] fee_mono [OF assms] ceil_mult_nat [of sz] by (auto simp: max_def)
qed

theorem wallet_fee_formula_witness: "unat (txFee DEFAULT_FEE_PER_KB 226) = 11300"
  using wallet_fee_formula [of 226 DEFAULT_FEE_PER_KB] by simp

section \<open>Balance and unspent outputs\<close>

text \<open>What every wallet satisfies: the store is keyed by the hashes, and the list holds each of its
  transactions once.\<close>

definition wallet_ok :: "BRWallet \<Rightarrow> bool" where
  "wallet_ok w \<longleftrightarrow> (\<forall>h t. wal_allTx w h = Some t \<longrightarrow> tx_hash t = h \<and> length (tx_outputs t) < 2 ^ 32) \<and>
     set (wal_transactions w) \<subseteq> dom (wal_allTx w) \<and> distinct (wal_transactions w)"

definition credited :: "BRWallet \<Rightarrow> BRTxOutput \<Rightarrow> bool" where
  "credited w p \<longleftrightarrow> out_address p ! 0 \<noteq> 0 \<and> wallet_address w (out_address p)"

text \<open>The outputs of the given transactions that pay the wallet.\<close>

definition wallet_outputs :: "BRWallet \<Rightarrow> uint256 set \<Rightarrow> BRUTXO set" where
  "wallet_outputs w H = {u. utxo_hash u \<in> H \<and> (\<exists>p. utxo_output (wal_allTx w) u = Some p \<and> credited w p)}"

definition utxo_amount :: "tx_store \<Rightarrow> BRUTXO \<Rightarrow> u64" where
  "utxo_amount all u = (case utxo_output all u of None \<Rightarrow> 0 | Some p \<Rightarrow> out_amount p)"

definition accepted :: "BRWallet \<Rightarrow> uint256 set" where
  "accepted w = set (wal_transactions w) - wal_invalidTx w - wal_pendingTx w"

definition inputs_of :: "BRWallet \<Rightarrow> uint256 set \<Rightarrow> BRUTXO set" where
  "inputs_of w H = {u. \<exists>h \<in> H. \<exists>t. wal_allTx w h = Some t \<and> u \<in> input_utxo ` set (tx_inputs t)}"

definition output_addrs :: "tx_store \<Rightarrow> bytes set" where
  "output_addrs all = {addr_str (out_address p) | h t p. all h = Some t \<and> p \<in> set (tx_outputs t)}"

lemma add_outputs_eq:
  "add_outputs h j ps (w, b) =
    (w\<lparr>wal_usedAddrs := wal_usedAddrs w \<union> addr_str ` out_address ` {p \<in> set ps. out_address p ! 0 \<noteq> 0},
      wal_utxos := wal_utxos w @ map (\<lambda>(k, p). \<lparr>utxo_hash = h, utxo_n = of_nat k\<rparr>)
        (filter (\<lambda>(k, p). credited w p) (enumerate j ps))\<rparr>,
     b + sum_list (map (\<lambda>(k, p). out_amount p) (filter (\<lambda>(k, p). credited w p) (enumerate j ps))))"
proof (induction ps arbitrary: j w b)
  case Nil
  then show ?case by simp
next
  case (Cons p ps)
  have c: "credited (w\<lparr>wal_usedAddrs := x\<rparr>) = credited w" "credited (w\<lparr>wal_usedAddrs := x, wal_utxos := y\<rparr>) = credited w" for x y
    by (simp_all add: credited_def wallet_address_def fun_eq_iff)
  have s: "{q \<in> set (p # ps). out_address q ! 0 \<noteq> 0} =
      (if out_address p ! 0 \<noteq> 0 then insert p {q \<in> set ps. out_address q ! 0 \<noteq> 0} else {q \<in> set ps. out_address q ! 0 \<noteq> 0})"
    by auto
  show ?case
    unfolding s by (auto simp: Cons.IH c Let_def credited_def wallet_address_def)
qed

lemma remove_spent_eq:
  assumes "\<And>u. u \<in> set us \<Longrightarrow> utxo_output (wal_allTx w) u \<noteq> None" "j \<le> length us"
  shows "remove_spent w j us b =
    Some (filter (\<lambda>u. u \<notin> wal_spentOutputs w) (take j us) @ drop j us,
      b - sum_list (map (utxo_amount (wal_allTx w)) (filter (\<lambda>u. u \<in> wal_spentOutputs w) (take j us))))"
  using assms
proof (induction j arbitrary: us b)
  case 0
  then show ?case by simp
next
  case (Suc j)
  let ?u = "us ! j"
  have j: "j < length us" using Suc.prems by simp
  note t = take_Suc_conv_app_nth [OF j]
  show ?case
  proof (cases "?u \<in> wal_spentOutputs w")
    case False
    then show ?thesis using Suc.IH [of us b] Suc.prems(1) j t by (simp add: Cons_nth_drop_Suc)
  next
    case True
    have "utxo_output (wal_allTx w) ?u \<noteq> None" using Suc.prems(1) j by simp
    then obtain t where u: "wal_allTx w (utxo_hash ?u) = Some t" "unat (utxo_n ?u) < length (tx_outputs t)"
      by (auto simp: utxo_output_def split: option.splits if_splits)
    let ?us = "take j us @ drop (Suc j) us"
    have "remove_spent w j ?us c =
        Some (filter (\<lambda>u. u \<notin> wal_spentOutputs w) (take j ?us) @ drop j ?us,
          c - sum_list (map (utxo_amount (wal_allTx w)) (filter (\<lambda>u. u \<in> wal_spentOutputs w) (take j ?us))))" for c
      using j by (intro Suc.IH Suc.prems(1)) (auto dest: in_set_takeD in_set_dropD)
    moreover have "utxo_amount (wal_allTx w) ?u = out_amount (tx_outputs t ! unat (utxo_n ?u))"
      using u by (simp add: utxo_amount_def utxo_output_def)
    ultimately show ?thesis
      using True u j t by (simp add: rd_def algebra_simps)
  qed
qed

lemma foldl_insert: "foldl (\<lambda>s x. insert (f x) s) A xs = A \<union> f ` set xs"
  by (induction xs arbitrary: A) auto

text \<open>The transactions up to the last of \<open>good\<close>.\<close>

definition settled :: "uint256 set \<Rightarrow> uint256 list \<Rightarrow> uint256 list" where
  "settled good ys = rev (dropWhile (\<lambda>h. h \<notin> good) (rev ys))"

lemma settled_snoc: "settled good (ys @ [h]) = (if h \<in> good then ys @ [h] else settled good ys)"
  by (simp add: settled_def)

lemma settled_subset: "set (settled good ys) \<subseteq> set ys"
  by (auto simp: settled_def dest: set_dropWhileD)

lemma settled_cong: "good \<inter> set ys = good' \<inter> set ys \<Longrightarrow> settled good ys = settled good' ys"
  unfolding settled_def by (intro arg_cong [where f = rev] dropWhile_cong) auto

lemma settled_rest: "set (settled (set ys - I) ys) - I = set ys - I"
proof (induction ys rule: rev_induct)
  case (snoc h ys)
  have "settled (set (ys @ [h]) - I) ys = settled (set ys - I) ys" if "h \<notin> set ys" using that by (intro settled_cong) auto
  then show ?case using snoc by (cases "h \<in> set ys") (auto simp: settled_snoc insert_absorb)
qed (simp add: settled_def)

text \<open>A transaction behind \<open>ys\<close> is invalid when it is unconfirmed and spends what a valid one of \<open>ys\<close> spends, or spends an
  invalid one. It is pending when it is unconfirmed and not invalid, and the code's test for its size, its outputs, its
  lock times and the pending ones of \<open>ys\<close> says so.\<close>

definition invalid_behind :: "BRWallet \<Rightarrow> uint256 set \<Rightarrow> uint256 list \<Rightarrow> BRTransaction \<Rightarrow> bool" where
  "invalid_behind w I ys t \<longleftrightarrow> tx_blockHeight t = TX_UNCONFIRMED \<and>
     (\<exists>i \<in> set (tx_inputs t). input_utxo i \<in> inputs_of w (set ys - I) \<or> in_txHash i \<in> I \<inter> set ys)"

definition pending_behind :: "int \<Rightarrow> BRWallet \<Rightarrow> uint256 set \<Rightarrow> uint256 list \<Rightarrow> BRTransaction \<Rightarrow> bool" where
  "pending_behind now w P ys t \<longleftrightarrow> tx_blockHeight t = TX_UNCONFIRMED \<and> tx_is_pending (w\<lparr>wal_pendingTx := P \<inter> set ys\<rparr>) now t"

definition classified :: "int \<Rightarrow> BRWallet \<Rightarrow> uint256 list \<Rightarrow> uint256 set \<Rightarrow> uint256 set \<Rightarrow> bool" where
  "classified now w ys I P \<longleftrightarrow> (\<forall>k t. k < length ys \<longrightarrow> wal_allTx w (ys ! k) = Some t \<longrightarrow>
     (ys ! k \<in> I \<longleftrightarrow> invalid_behind w I (take k ys) t) \<and>
     (ys ! k \<in> P \<longleftrightarrow> ys ! k \<notin> I \<and> pending_behind now w P (take k ys) t))"

lemma classified_snoc:
  assumes "classified now w ys I P" "h \<notin> set ys" "wal_allTx w h = Some t" "I' - {h} = I - {h}" "P' - {h} = P - {h}"
    and "h \<in> I' \<longleftrightarrow> invalid_behind w I ys t" "h \<in> P' \<longleftrightarrow> h \<notin> I' \<and> pending_behind now w P ys t"
  shows "classified now w (ys @ [h]) I' P'"
proof -
  have sub: "h \<notin> set xs" if "set xs \<subseteq> set ys" for xs using that assms(2) by blast
  have i: "invalid_behind w I' xs u = invalid_behind w I xs u" if "set xs \<subseteq> set ys" for xs u
  proof -
    have "I' \<inter> set xs = I \<inter> set xs" "set xs - I' = set xs - I" using sub [OF that] assms(4) by blast+
    then show ?thesis by (simp add: invalid_behind_def)
  qed
  have p: "pending_behind now w P' xs u = pending_behind now w P xs u" if "set xs \<subseteq> set ys" for xs u
  proof -
    have "P' \<inter> set xs = P \<inter> set xs" using sub [OF that] assms(5) by blast
    then show ?thesis by (simp add: pending_behind_def)
  qed
  have m: "x \<in> I' \<longleftrightarrow> x \<in> I" "x \<in> P' \<longleftrightarrow> x \<in> P" if "x \<in> set ys" for x using that assms(2,4,5) by blast+
  show ?thesis
    unfolding classified_def
  proof (intro allI impI)
    fix k u assume k: "k < length (ys @ [h])" "wal_allTx w ((ys @ [h]) ! k) = Some u"
    show "((ys @ [h]) ! k \<in> I' \<longleftrightarrow> invalid_behind w I' (take k (ys @ [h])) u) \<and>
      ((ys @ [h]) ! k \<in> P' \<longleftrightarrow> (ys @ [h]) ! k \<notin> I' \<and> pending_behind now w P' (take k (ys @ [h])) u)"
    proof (cases "k = length ys")
      case True
      then show ?thesis using k assms(3,6,7) by (simp add: i p)
    next
      case False
      then have "k < length ys" using k by simp
      moreover have "set (take k ys) \<subseteq> set ys" by (rule set_take_subset)
      ultimately show ?thesis using k assms(1) by (simp add: nth_append m i p classified_def)
    qed
  qed
qed

text \<open>What holds after the transactions \<open>ys\<close> of \<open>w0\<close> have been visited.\<close>

definition balance_inv :: "int \<Rightarrow> BRWallet \<Rightarrow> uint256 list \<Rightarrow> BRWallet \<times> u64 \<times> u64 \<Rightarrow> bool" where
  "balance_inv now w0 ys s \<longleftrightarrow> (case s of (w, b, p) \<Rightarrow>
     let good = set ys - wal_invalidTx w - wal_pendingTx w in
     wal_allTx w = wal_allTx w0 \<and> wal_allAddrs w = wal_allAddrs w0 \<and> wal_transactions w = wal_transactions w0 \<and>
     wal_internalChain w = wal_internalChain w0 \<and> wal_externalChain w = wal_externalChain w0 \<and>
     wal_feePerKb w = wal_feePerKb w0 \<and> wal_blockHeight w = wal_blockHeight w0 \<and>
     wal_usedAddrs w \<subseteq> output_addrs (wal_allTx w0) \<and>
     p = b \<and> b = sum_list (map (utxo_amount (wal_allTx w0)) (wal_utxos w)) \<and>
     wal_totalReceived w - wal_totalSent w = b \<and>
     length (wal_balanceHist w) = length ys \<and> (ys \<noteq> [] \<longrightarrow> last (wal_balanceHist w) = b) \<and>
     wal_invalidTx w \<union> wal_pendingTx w \<subseteq> set ys \<and> wal_invalidTx w \<inter> wal_pendingTx w = {} \<and>
     (\<forall>h \<in> wal_invalidTx w \<union> wal_pendingTx w. \<exists>t. wal_allTx w0 h = Some t \<and> tx_blockHeight t = TX_UNCONFIRMED) \<and>
     wal_spentOutputs w = inputs_of w0 (set ys - wal_invalidTx w) \<and>
     distinct (wal_utxos w) \<and> set (wal_utxos w) \<subseteq> wallet_outputs w0 good \<and>
     wallet_outputs w0 good - wal_spentOutputs w \<subseteq> set (wal_utxos w) \<and>
     set (wal_utxos w) = wallet_outputs w0 good - inputs_of w0 (set (settled good ys) - wal_invalidTx w) \<and>
     classified now w0 ys (wal_invalidTx w) (wal_pendingTx w))"

lemma inputs_of_mono: "A \<subseteq> B \<Longrightarrow> inputs_of w A \<subseteq> inputs_of w B"
  by (auto simp: inputs_of_def)

lemma inputs_of_insert:
  "wal_allTx w h = Some t \<Longrightarrow> inputs_of w (insert h H) = inputs_of w H \<union> input_utxo ` set (tx_inputs t)"
  by (auto simp: inputs_of_def)

lemma spent_of_insert: "foldl (\<lambda>s i. insert (input_utxo i) s) A (tx_inputs t) = A \<union> input_utxo ` set (tx_inputs t)"
  by (rule foldl_insert)

text \<open>The unspent outputs a transaction adds.\<close>

definition new_utxos :: "BRWallet \<Rightarrow> uint256 \<Rightarrow> BRTransaction \<Rightarrow> BRUTXO list" where
  "new_utxos w h t = map (\<lambda>(k, p). \<lparr>utxo_hash = h, utxo_n = of_nat k\<rparr>) (filter (\<lambda>(k, p). credited w p) (enumerate 0 (tx_outputs t)))"

lemma new_utxos:
  assumes "wal_allTx w h = Some t" "length (tx_outputs t) < 2 ^ 32"
  shows "set (new_utxos w h t) = wallet_outputs w {h}"
    and "distinct (new_utxos w h t)"
    and "sum_list (map (\<lambda>(k, p). out_amount p) (filter (\<lambda>(k, p). credited w p) (enumerate 0 (tx_outputs t)))) =
      sum_list (map (utxo_amount (wal_allTx w)) (new_utxos w h t))"
proof -
  let ?ps = "tx_outputs t"
  have n: "unat (of_nat k :: u32) = k" if "k < length ?ps" for k using that assms(2) by (simp add: unat_of_nat)
  have mem: "(k, p) \<in> set (enumerate 0 ?ps) \<longleftrightarrow> k < length ?ps \<and> p = ?ps ! k" for k p
    by (auto simp: in_set_enumerate_eq)
  show "set (new_utxos w h t) = wallet_outputs w {h}"
  proof (intro set_eqI iffI)
    fix u assume "u \<in> set (new_utxos w h t)"
    then show "u \<in> wallet_outputs w {h}"
      by (auto simp: new_utxos_def mem wallet_outputs_def utxo_output_def assms(1) n)
  next
    fix u assume "u \<in> wallet_outputs w {h}"
    then have u: "utxo_hash u = h" "unat (utxo_n u) < length ?ps" "credited w (?ps ! unat (utxo_n u))"
      using assms(1) by (auto simp: wallet_outputs_def utxo_output_def split: option.splits if_splits)
    then have "u = \<lparr>utxo_hash = h, utxo_n = of_nat (unat (utxo_n u))\<rparr>" by (cases u) simp
    then show "u \<in> set (new_utxos w h t)" using u by (force simp: new_utxos_def mem)
  qed
  have "distinct (map (\<lambda>k. \<lparr>utxo_hash = h, utxo_n = of_nat k\<rparr>) (map fst (filter (\<lambda>(k, p). credited w p) (enumerate 0 ?ps))))"
    unfolding distinct_map
    by (auto simp: inj_on_def mem distinct_map_filter dest!: arg_cong [where f = unat] simp: n)
  then show "distinct (new_utxos w h t)" by (simp add: new_utxos_def comp_def case_prod_unfold)
  show "sum_list (map (\<lambda>(k, p). out_amount p) (filter (\<lambda>(k, p). credited w p) (enumerate 0 ?ps))) =
      sum_list (map (utxo_amount (wal_allTx w)) (new_utxos w h t))"
    unfolding new_utxos_def map_map
    by (intro arg_cong [where f = sum_list] map_cong) (auto simp: mem utxo_amount_def utxo_output_def assms(1) n)
qed

lemma inputs_of_cong: "wal_allTx w = wal_allTx w0 \<Longrightarrow> inputs_of w = inputs_of w0"
  by (simp add: inputs_of_def fun_eq_iff)

lemma wallet_outputs_cong:
  "wal_allTx w = wal_allTx w0 \<Longrightarrow> wal_allAddrs w = wal_allAddrs w0 \<Longrightarrow> wallet_outputs w = wallet_outputs w0"
  by (intro ext) (simp add: wallet_outputs_def credited_def wallet_address_def)

lemma wallet_outputs_insert: "wallet_outputs w (insert h H) = wallet_outputs w H \<union> wallet_outputs w {h}"
  by (auto simp: wallet_outputs_def)

lemma sum_list_partition:
  fixes f :: "'a \<Rightarrow> u64"
  shows "sum_list (map f xs) - sum_list (map f (filter P xs)) = sum_list (map f (filter (\<lambda>x. \<not> P x) xs))"
  by (induction xs) (simp_all add: algebra_simps)

lemma balance_turn_invariant:
  assumes ok: "wallet_ok w0" and xs: "wal_transactions w0 = ys @ h # zs" and inv: "balance_inv now w0 ys (w, b, p)"
  shows "\<exists>s'. balance_turn now h (w, b, p) = Some s' \<and> balance_inv now w0 (ys @ [h]) s'"
proof -
  have "h \<in> dom (wal_allTx w0)" and h: "h \<notin> set ys" using ok xs by (auto simp: wallet_ok_def)
  then obtain t where t: "wal_allTx w0 h = Some t" by blast
  have len: "length (tx_outputs t) < 2 ^ 32" using ok t by (auto simp: wallet_ok_def)
  note I = inv [unfolded balance_inv_def Let_def prod.case]
  have all: "wal_allTx w = wal_allTx w0" and addrs: "wal_allAddrs w = wal_allAddrs w0" using I by simp_all
  let ?inv = "wal_invalidTx w" and ?pend = "wal_pendingTx w" and ?spent = "wal_spentOutputs w" and ?us = "wal_utxos w"
  have hn: "h \<notin> ?inv" "h \<notin> ?pend" using I h by auto
  have spent: "?spent = inputs_of w0 (set ys - ?inv)" using I by simp
  have cls: "classified now w0 ys ?inv ?pend" and sub: "?inv \<union> ?pend \<subseteq> set ys" using I by simp_all
  have t0: "wal_allTx w0 h = Some t" by (rule t)
  have bad: "tx_input_invalid w t \<longleftrightarrow> (\<exists>i \<in> set (tx_inputs t). input_utxo i \<in> inputs_of w0 (set ys - ?inv) \<or> in_txHash i \<in> ?inv \<inter> set ys)"
    using sub by (auto simp: tx_input_invalid_def spent list_ex_iff)
  have set_h: "h \<notin> set (settled A ys)" for A using settled_subset h by blast
  have utx: "set ?us = wallet_outputs w0 (set ys - ?inv - ?pend) - inputs_of w0 (set (settled (set ys - ?inv - ?pend) ys) - ?inv)"
    using I by simp
  show ?thesis
  proof (cases "tx_blockHeight t = TX_UNCONFIRMED \<and> tx_input_invalid w t")
    case True
    have sets: "set ys - insert h ?inv = set ys - ?inv" using h by auto
    have cl: "classified now w0 (ys @ [h]) (insert h ?inv) ?pend"
      by (rule classified_snoc [OF cls h t0]) (use True bad hn in \<open>auto simp: invalid_behind_def\<close>)
    have st: "settled (set ys - ?inv - ?pend) (ys @ [h]) = settled (set ys - ?inv - ?pend) ys"
      "set (settled A ys) - insert h ?inv = set (settled A ys) - ?inv" for A
      using h set_h [of A] by (auto simp: settled_snoc)
    have "balance_turn now h (w, b, p) =
        Some (w\<lparr>wal_invalidTx := insert h ?inv, wal_balanceHist := wal_balanceHist w @ [b]\<rparr>, b, p)"
      using True by (simp add: balance_turn_def all t)
    moreover have "balance_inv now w0 (ys @ [h]) (w\<lparr>wal_invalidTx := insert h ?inv, wal_balanceHist := wal_balanceHist w @ [b]\<rparr>, b, p)"
      using I True t hn unfolding balance_inv_def Let_def prod.case by (simp add: sets cl st) blast
    ultimately show ?thesis by blast
  next
    case False
    define w1 where "w1 = w\<lparr>wal_spentOutputs := ?spent \<union> input_utxo ` set (tx_inputs t)\<rparr>"
    have spent': "?spent \<union> input_utxo ` set (tx_inputs t) = inputs_of w0 (insert h (set ys - ?inv))"
      by (simp add: inputs_of_insert [OF t] spent)
    have pb: "tx_is_pending w1 now t \<longleftrightarrow> tx_is_pending (w0\<lparr>wal_pendingTx := ?pend \<inter> set ys\<rparr>) now t"
    proof -
      have "?pend \<inter> set ys = ?pend" "wal_blockHeight w = wal_blockHeight w0" using I by auto
      then show ?thesis by (simp add: tx_is_pending_def w1_def)
    qed
    show ?thesis
    proof (cases "tx_blockHeight t = TX_UNCONFIRMED \<and> tx_is_pending w1 now t")
      case pend: True
      have sets: "insert h (set ys) - ?inv = insert h (set ys - ?inv)"
        "set ys - ?inv - insert h ?pend = set ys - ?inv - ?pend" using h hn by auto
      have cl: "classified now w0 (ys @ [h]) ?inv (insert h ?pend)"
        by (rule classified_snoc [OF cls h t0]) (use False pend bad hn pb in \<open>auto simp: invalid_behind_def pending_behind_def\<close>)
      have st: "settled (set ys - ?inv - ?pend) (ys @ [h]) = settled (set ys - ?inv - ?pend) ys"
        using h by (simp add: settled_snoc)
      let ?w = "w1\<lparr>wal_pendingTx := insert h ?pend, wal_balanceHist := wal_balanceHist w @ [b]\<rparr>"
      have "balance_turn now h (w, b, p) = Some (?w, b, p)"
        using False pend by (simp add: balance_turn_def all t spent_of_insert w1_def [symmetric]) (simp add: w1_def)
      moreover have "balance_inv now w0 (ys @ [h]) (?w, b, p)"
        using I pend t hn unfolding balance_inv_def Let_def prod.case by (simp add: sets w1_def inputs_of_insert [OF t] cl st) blast
      ultimately show ?thesis by blast
    next
      case acc: False
      let ?new = "new_utxos w0 h t" and ?sp = "?spent \<union> input_utxo ` set (tx_inputs t)"
      let ?good = "set ys - ?inv - ?pend"
      have cred: "credited w1 = credited w0" by (simp add: credited_def wallet_address_def fun_eq_iff w1_def addrs)
      note new = new_utxos [OF t len]
      have known: "\<forall>u \<in> set (?us @ ?new). utxo_output (wal_allTx w0) u \<noteq> None"
        using I new(1) by (auto simp: wallet_outputs_def)
      define us where "us = filter (\<lambda>u. u \<notin> ?sp) (?us @ ?new)"
      define b' where "b' = sum_list (map (utxo_amount (wal_allTx w0)) us)"
      have sum: "b + sum_list (map (utxo_amount (wal_allTx w0)) ?new) -
          sum_list (map (utxo_amount (wal_allTx w0)) (filter (\<lambda>u. u \<in> ?sp) (?us @ ?new))) = b'"
        using I unfolding b'_def us_def by (subst sum_list_partition [symmetric]) simp
      let ?w2 = "w1\<lparr>wal_usedAddrs := wal_usedAddrs w \<union> addr_str ` out_address ` {p \<in> set (tx_outputs t). out_address p ! 0 \<noteq> 0},
        wal_utxos := ?us @ ?new\<rparr>"
      have out: "add_outputs h 0 (tx_outputs t) (w1, b) = (?w2, b + sum_list (map (utxo_amount (wal_allTx w0)) ?new))"
        unfolding add_outputs_eq cred new(3) [symmetric] by (simp add: new_utxos_def w1_def)
      have "remove_spent ?w2 (length (?us @ ?new)) (?us @ ?new) c =
          Some (us, c - sum_list (map (utxo_amount (wal_allTx w0)) (filter (\<lambda>u. u \<in> ?sp) (?us @ ?new))))" for c
        using remove_spent_eq [of "?us @ ?new" ?w2 "length (?us @ ?new)" c] known by (simp add: w1_def all us_def)
      then have rem: "remove_spent ?w2 (length (?us @ ?new)) (?us @ ?new)
          (b + sum_list (map (utxo_amount (wal_allTx w0)) ?new)) = Some (us, b')"
        using sum by simp
      define w3 where "w3 = ?w2\<lparr>wal_utxos := us,
        wal_totalReceived := (if p < b' then wal_totalReceived w + (b' - p) else wal_totalReceived w),
        wal_totalSent := (if b' < p then wal_totalSent w + (p - b') else wal_totalSent w),
        wal_balanceHist := wal_balanceHist w @ [b']\<rparr>"
      have "balance_turn now h (w, b, p) = Some (w3, b', b')"
        unfolding balance_turn_def Let_def prod.case all t bind.bind_lunit if_not_P [OF False] spent_of_insert
          w1_def [symmetric] if_not_P [OF acc] out
        by (simp add: rem [unfolded length_append]) (simp add: w3_def w1_def)
      moreover have "balance_inv now w0 (ys @ [h]) (w3, b', b')"
      proof -
        have sets: "insert h (set ys) - ?inv = insert h (set ys - ?inv)" "insert h (set ys - ?inv) - ?pend = insert h ?good"
          using hn by (simp_all add: insert_Diff_if)
        have out: "wallet_outputs w0 (insert h ?good) = wallet_outputs w0 ?good \<union> set ?new"
          unfolding new(1) by (rule wallet_outputs_insert)
        have us: "set us = (set ?us \<union> set ?new) - ?sp" by (auto simp: us_def)
        have cl: "classified now w0 (ys @ [h]) ?inv ?pend"
          by (rule classified_snoc [OF cls h t0]) (use False acc bad hn pb in \<open>auto simp: invalid_behind_def pending_behind_def\<close>)
        have st: "settled (insert h ?good) (ys @ [h]) = ys @ [h]" by (simp add: settled_snoc)
        have "inputs_of w0 (set (settled ?good ys) - ?inv) \<subseteq> inputs_of w0 (insert h (set ys - ?inv))"
          using settled_subset [of ?good ys] by (intro inputs_of_mono) blast
        have sp: "?sp = inputs_of w0 (insert h (set ys - ?inv))" using spent' by simp
        from \<open>inputs_of w0 (set (settled ?good ys) - ?inv) \<subseteq> _\<close> have ux: "set us = wallet_outputs w0 (insert h ?good) - inputs_of w0 (insert h (set ys - ?inv))"
          unfolding us utx out spent' [unfolded spent] using spent spent' by auto
        have dist: "distinct us"
        proof -
          have "set ?us \<inter> set ?new = {}" using I new(1) h by (auto simp: wallet_outputs_def)
          then have "distinct (?us @ ?new)" using I new(2) by simp
          then show ?thesis unfolding us_def by (rule distinct_filter)
        qed
        have tot: "wal_totalReceived w3 - wal_totalSent w3 = b'"
        proof -
          have "wal_totalReceived w = p + wal_totalSent w" using I by (simp add: algebra_simps)
          then show ?thesis by (cases p b' rule: linorder_cases) (simp_all add: w3_def less_not_sym)
        qed
        have f: "wal_invalidTx w3 = ?inv" "wal_pendingTx w3 = ?pend" "wal_spentOutputs w3 = ?sp" "wal_utxos w3 = us"
          "wal_balanceHist w3 = wal_balanceHist w @ [b']" "wal_allTx w3 = wal_allTx w" "wal_allAddrs w3 = wal_allAddrs w"
          "wal_transactions w3 = wal_transactions w" "wal_internalChain w3 = wal_internalChain w"
          "wal_externalChain w3 = wal_externalChain w" "wal_feePerKb w3 = wal_feePerKb w" "wal_blockHeight w3 = wal_blockHeight w"
          by (simp_all add: w3_def w1_def)
        have addr: "wal_usedAddrs w3 \<subseteq> output_addrs (wal_allTx w0)"
          using I t by (auto simp: w3_def output_addrs_def)
        show ?thesis
          unfolding balance_inv_def Let_def prod.case f
          using I tot dist addr sub sp by (simp add: sets cl st ux b'_def) blast
      qed
      ultimately show ?thesis by blast
    qed
  qed
qed

lemma update_balance_inv:
  assumes "wallet_ok w"
  shows "\<exists>w' b. BRWalletUpdateBalance now w = Some (w'\<lparr>wal_balance := b\<rparr>) \<and> balance_inv now w (wal_transactions w) (w', b, b)"
proof -
  let ?w = "w\<lparr>wal_utxos := [], wal_balanceHist := [], wal_spentOutputs := {}, wal_invalidTx := {}, wal_pendingTx := {},
    wal_usedAddrs := {}, wal_totalSent := 0, wal_totalReceived := 0\<rparr>"
  have "balance_inv now w [] (?w, 0, 0)"
    by (simp add: balance_inv_def Let_def inputs_of_def wallet_outputs_def classified_def)
  then have "\<exists>s'. fold_run (balance_turn now) (wal_transactions w) (?w, 0, 0) = Some s' \<and> balance_inv now w (wal_transactions w) s'"
    by (rule fold_run_invariant [rotated]) (use balance_turn_invariant [OF assms] in \<open>auto simp del: split_paired_All\<close>)
  then obtain w' b p where "fold_run (balance_turn now) (wal_transactions w) (?w, 0, 0) = Some (w', b, p)"
    "balance_inv now w (wal_transactions w) (w', b, p)" by (metis prod_cases3)
  moreover from this have "p = b" by (simp add: balance_inv_def Let_def)
  ultimately show ?thesis by (auto simp: BRWalletUpdateBalance_def Let_def)
qed

text \<open>C2: recomputing the balance of a wallet whose store is keyed by hash and whose list holds stored transactions once
  always succeeds. A transaction of the list is invalid exactly when it is unconfirmed and spends an output that a
  valid one before it spends, or spends an invalid one before it; it is pending exactly when it is unconfirmed, valid
  and the tests of its size, outputs, lock times and pending parents say so; the others are accepted. The spent
  outputs are the inputs of all that are not invalid. The unspent outputs, each listed once, are exactly the outputs of
  accepted transactions that pay the wallet, without the inputs of the valid (accepted or pending) transactions up to
  the last accepted one; so what only a pending transaction at the end of the list spends is still listed, and when nothing is
  pending no listed output is spent. The balance is their sum and the difference of the totals received and sent, and
  the history has one entry for each transaction and ends with the balance.\<close>

theorem wallet_balance_spec:
  assumes "wallet_ok w"
  shows "\<exists>w'. BRWalletUpdateBalance now w = Some w' \<and> wal_transactions w' = wal_transactions w \<and> wal_allTx w' = wal_allTx w \<and>
    wal_balance w' = sum_list (map (utxo_amount (wal_allTx w)) (wal_utxos w')) \<and>
    wal_totalReceived w' - wal_totalSent w' = wal_balance w' \<and>
    length (wal_balanceHist w') = length (wal_transactions w) \<and>
    (wal_transactions w \<noteq> [] \<longrightarrow> last (wal_balanceHist w') = wal_balance w') \<and>
    wal_invalidTx w' \<union> wal_pendingTx w' \<subseteq> set (wal_transactions w) \<and>
    (\<forall>k t. k < length (wal_transactions w) \<longrightarrow> wal_allTx w (wal_transactions w ! k) = Some t \<longrightarrow>
      (wal_transactions w ! k \<in> wal_invalidTx w' \<longleftrightarrow> invalid_behind w (wal_invalidTx w') (take k (wal_transactions w)) t) \<and>
      (wal_transactions w ! k \<in> wal_pendingTx w' \<longleftrightarrow> wal_transactions w ! k \<notin> wal_invalidTx w' \<and>
        pending_behind now w (wal_pendingTx w') (take k (wal_transactions w)) t)) \<and>
    wal_spentOutputs w' = inputs_of w (set (wal_transactions w) - wal_invalidTx w') \<and>
    distinct (wal_utxos w') \<and>
    set (wal_utxos w') = wallet_outputs w (accepted w') -
      inputs_of w (set (settled (accepted w') (wal_transactions w)) - wal_invalidTx w') \<and>
    (wal_pendingTx w' = {} \<longrightarrow> set (wal_utxos w') = wallet_outputs w (accepted w') - wal_spentOutputs w')"
proof -
  obtain w1 b where w: "BRWalletUpdateBalance now w = Some (w1\<lparr>wal_balance := b\<rparr>)"
    "balance_inv now w (wal_transactions w) (w1, b, b)" using update_balance_inv [OF assms] by blast
  note I = w(2) [unfolded balance_inv_def Let_def prod.case classified_def]
  have last: "wal_pendingTx w1 = {} \<longrightarrow> set (wal_utxos w1) = wallet_outputs w (accepted w1) - wal_spentOutputs w1"
    using I settled_rest [of "wal_transactions w" "wal_invalidTx w1"] by (auto simp: accepted_def)
  show ?thesis
    by (rule exI [of _ "w1\<lparr>wal_balance := b\<rparr>"], unfold accepted_def, intro conjI)
      (use w(1) I last in \<open>auto simp: accepted_def; fail\<close>)+
qed

section \<open>Pending spends\<close>

text \<open>An address, a confirmed transaction that pays it, and an unconfirmed one that spends its output and
  can be replaced.\<close>

definition example_addr :: BRAddress where
  "example_addr = replicate 34 0x31 @ [0, 0]"

definition paying_tx :: BRTransaction where
  "paying_tx = BRTransactionNew\<lparr>tx_hash := 1, tx_blockHeight := 100, tx_timestamp := 5,
     tx_inputs := [tx_input_zero\<lparr>in_txHash := 7, in_signature := Some [], in_sequence := TXIN_SEQUENCE\<rparr>],
     tx_outputs := [BR_TX_OUTPUT_NONE\<lparr>out_amount := 10000, out_address := example_addr\<rparr>]\<rparr>"

definition replaceable_tx :: BRTransaction where
  "replaceable_tx = BRTransactionNew\<lparr>tx_hash := 2, tx_timestamp := 6,
     tx_inputs := [tx_input_zero\<lparr>in_txHash := 1, in_signature := Some [], in_sequence := 0\<rparr>],
     tx_outputs := [BR_TX_OUTPUT_NONE\<lparr>out_amount := 9000\<rparr>]\<rparr>"

definition example_wallet :: "BRTransaction list \<Rightarrow> BRWallet" where
  "example_wallet ts = wallet_empty\<lparr>wal_externalChain := [example_addr], wal_allAddrs := {addr_str example_addr},
     wal_transactions := map tx_hash ts, wal_allTx := map_of (map (\<lambda>t. (tx_hash t, t)) ts)\<rparr>"

theorem wallet_balance_spec_witness:
  "\<exists>w'. BRWalletUpdateBalance 0 (example_wallet [paying_tx, replaceable_tx]) = Some w' \<and> length (wal_balanceHist w') = 2"
proof -
  have "wallet_ok (example_wallet [paying_tx, replaceable_tx])"
    by (auto simp: wallet_ok_def example_wallet_def paying_tx_def replaceable_tx_def BRTransactionNew_def split: if_splits)
  then obtain w' where "BRWalletUpdateBalance 0 (example_wallet [paying_tx, replaceable_tx]) = Some w'"
    "length (wal_balanceHist w') = length (wal_transactions (example_wallet [paying_tx, replaceable_tx]))"
    using wallet_balance_spec [of "example_wallet [paying_tx, replaceable_tx]" 0] by blast
  then show ?thesis by (simp add: example_wallet_def)
qed

definition second_payment :: BRTransaction where
  "second_payment = paying_tx\<lparr>tx_hash := 3, tx_blockHeight := TX_UNCONFIRMED,
     tx_inputs := [tx_input_zero\<lparr>in_txHash := 8, in_signature := Some [], in_sequence := TXIN_SEQUENCE\<rparr>],
     tx_outputs := [BR_TX_OUTPUT_NONE\<lparr>out_amount := 5000, out_address := example_addr\<rparr>]\<rparr>"

lemma example_addr_first: "example_addr ! 0 = 0x31"
  by (simp add: example_addr_def nth_append)

lemmas example_txs = paying_tx_def replaceable_tx_def second_payment_def BRTransactionNew_def tx_input_zero_def BR_TX_OUTPUT_NONE_def

text \<open>A pending transaction marks the outputs it spends but they are removed from the unspent outputs only
  when a later transaction is accepted. So a wallet whose last transaction is a replaceable spend of
  its only coin still lists the coin, counts it in the balance and can spend it again; and when a second
  payment of 5000 arrives the balance falls from 10000 to 5000.\<close>

theorem wallet_pending_spend_counted:
  "(\<exists>w. BRWalletUpdateBalance 0 (example_wallet [paying_tx, replaceable_tx]) = Some w \<and> wal_balance w = 10000 \<and>
     wal_utxos w = [\<lparr>utxo_hash = 1, utxo_n = 0\<rparr>] \<and> \<lparr>utxo_hash = 1, utxo_n = 0\<rparr> \<in> wal_spentOutputs w) \<and>
   (\<exists>w. BRWalletUpdateBalance 0 (example_wallet [paying_tx, replaceable_tx, second_payment]) = Some w \<and> wal_balance w = 5000)"
  by (simp add: BRWalletUpdateBalance_def example_wallet_def wallet_empty_def example_txs balance_turn_def Let_def
    tx_input_invalid_def tx_is_pending_def input_locked_def input_utxo_def BRTransactionSize_def tx_input_size_def
    tx_output_size_def varint_size_eq varint_length wallet_address_def example_addr_first rd_def)

section \<open>The order of transactions\<close>

text \<open>No transaction of the store is its own ancestor. Hashes guarantee it, so it is stated by a rank.\<close>

definition ranked :: "(uint256 \<Rightarrow> nat) \<Rightarrow> tx_store \<Rightarrow> bool" where
  "ranked rank all \<longleftrightarrow> (\<forall>h t. all h = Some t \<longrightarrow> (\<forall>i \<in> set (tx_inputs t). all (in_txHash i) \<noteq> None \<longrightarrow> rank (in_txHash i) < rank h))"

definition acyclic_txs :: "tx_store \<Rightarrow> bool" where
  "acyclic_txs all \<longleftrightarrow> (\<exists>rank. ranked rank all)"

text \<open>Recursion over the known inputs of a transaction ends.\<close>

lemma ancestor_induct [consumes 1, case_names tx]:
  assumes "acyclic_txs all"
    and step: "\<And>t. (\<And>i t'. i \<in> set (tx_inputs t) \<Longrightarrow> all (in_txHash i) = Some t' \<Longrightarrow> P t') \<Longrightarrow> P t"
  shows "P t"
proof -
  obtain rank where rank: "ranked rank all" using assms(1) by (auto simp: acyclic_txs_def)
  have known: "P t" if "all h = Some t" for h t
    using that
  proof (induction "rank h" arbitrary: h t rule: less_induct)
    case less
    show ?case
    proof (rule step)
      fix i t' assume "i \<in> set (tx_inputs t)" "all (in_txHash i) = Some t'"
      then show "P t'" using less.hyps [of "in_txHash i" t'] less.prems rank by (auto simp: ranked_def)
    qed
  qed
  show ?thesis by (rule step) (rule known)
qed

lemma any_run_returns:
  assumes "\<And>x. x \<in> set xs \<Longrightarrow> \<exists>b. f x = Some b"
  shows "\<exists>b. any_run f xs = Some b"
  using assms
proof (induction xs)
  case Nil
  then show ?case by (simp add: ex_bool_eq)
next
  case (Cons x xs)
  obtain b c where "f x = Some b" "any_run f xs = Some c" using Cons by fastforce
  then show ?case by (simp add: ex_bool_eq)
qed

lemma ascending_returns:
  assumes "acyclic_txs all"
  shows "\<exists>b. BRWalletTxIsAscending all (Some t1) (Some t2) = Some b"
  using assms
proof (induction t1 rule: ancestor_induct)
  case (tx t1)
  have "\<exists>b. BRWalletTxIsAscending all (all (in_txHash i)) (Some t2) = Some b" if "i \<in> set (tx_inputs t1)" for i
    using tx.IH [OF that] by (cases "all (in_txHash i)") (auto simp: BRWalletTxIsAscending.simps)
  then have "\<exists>b. any_run (\<lambda>i. BRWalletTxIsAscending all (all (in_txHash i)) (Some t2)) (tx_inputs t1) = Some b"
    by (rule any_run_returns)
  then show ?case by (subst BRWalletTxIsAscending.simps) (simp add: ex_bool_eq)
qed

lemma ascending_heights:
  "tx_blockHeight t1 > tx_blockHeight t2 \<Longrightarrow> BRWalletTxIsAscending all (Some t1) (Some t2) = Some True"
  "tx_blockHeight t1 < tx_blockHeight t2 \<Longrightarrow> BRWalletTxIsAscending all (Some t1) (Some t2) = Some False"
  by (subst BRWalletTxIsAscending.simps; simp)+

definition spends :: "BRTransaction \<Rightarrow> BRTransaction \<Rightarrow> bool" where
  "spends t parent \<longleftrightarrow> tx_hash parent \<in> in_txHash ` set (tx_inputs t)"

lemma ascending_parent:
  assumes "tx_blockHeight t = tx_blockHeight parent" "spends t parent"
  shows "BRWalletTxIsAscending all (Some t) (Some parent) = Some True"
    "\<not> spends parent t \<Longrightarrow> BRWalletTxIsAscending all (Some parent) (Some t) = Some False"
  using assms by (subst BRWalletTxIsAscending.simps; force simp: spends_def list_ex_iff)+

lemma compare_returns:
  assumes "acyclic_txs (wal_allTx w)"
  shows "\<exists>c. BRWalletTxCompare w t1 t2 = Some c"
  using ascending_returns [OF assms, of t1 t2] ascending_returns [OF assms, of t2 t1]
  by (auto simp: BRWalletTxCompare_def Let_def)

lemma compare_heights:
  "tx_blockHeight t1 > tx_blockHeight t2 \<Longrightarrow> BRWalletTxCompare w t1 t2 = Some 1"
  "tx_blockHeight t1 < tx_blockHeight t2 \<Longrightarrow> BRWalletTxCompare w t1 t2 = Some (- 1)"
  by (simp_all add: BRWalletTxCompare_def ascending_heights)

lemma compare_parent:
  assumes "spends t parent" "\<not> spends parent t" "tx_blockHeight parent \<le> tx_blockHeight t"
  shows "BRWalletTxCompare w parent t = Some (- 1)"
proof (cases "tx_blockHeight parent = tx_blockHeight t")
  case True
  then show ?thesis using assms ascending_parent [of t parent] by (simp add: BRWalletTxCompare_def)
next
  case False
  then show ?thesis using assms(3) by (intro compare_heights) simp
qed

text \<open>The insertion position: everything behind it compares greater, and the entry before it does not.\<close>

lemma insert_tx_loop_eq:
  assumes "\<And>m. m < length xs \<Longrightarrow> \<exists>t. wal_allTx w (xs ! m) = Some t \<and> BRWalletTxCompare w t tx = Some (c m)"
    "i \<le> length xs"
  shows "\<exists>k \<le> i. insert_tx_loop w tx i (take i xs @ [y] @ drop i xs) = Some (take k xs @ [tx_hash tx] @ drop k xs) \<and>
    (k = 0 \<or> c (k - 1) \<le> 0) \<and> (\<forall>m. k \<le> m \<and> m < i \<longrightarrow> c m > 0)"
  using assms(2)
proof (induction i arbitrary: y)
  case 0
  then show ?case by simp
next
  case (Suc i)
  then obtain t where t: "wal_allTx w (xs ! i) = Some t" "BRWalletTxCompare w t tx = Some (c i)"
    using assms(1) [of i] by auto
  have nth: "(take (Suc i) xs @ [y] @ drop (Suc i) xs) ! i = xs ! i" using Suc.prems by (simp add: nth_append)
  have upd: "(take (Suc i) xs @ [y] @ drop (Suc i) xs)[Suc i := z] = take (Suc i) xs @ [z] @ drop (Suc i) xs" for z
    using Suc.prems by (simp add: list_update_append)
  have shift: "take (Suc i) xs @ [xs ! i] @ drop (Suc i) xs = take i xs @ [xs ! i] @ drop i xs"
    using Suc.prems by (simp add: take_Suc_conv_app_nth Cons_nth_drop_Suc)
  show ?case
  proof (cases "c i > 0")
    case True
    obtain k where "k \<le> i" "insert_tx_loop w tx i (take i xs @ [xs ! i] @ drop i xs) = Some (take k xs @ [tx_hash tx] @ drop k xs)"
      "k = 0 \<or> c (k - 1) \<le> 0" "\<forall>m. k \<le> m \<and> m < i \<longrightarrow> c m > 0"
      using Suc.IH [of "xs ! i"] Suc.prems by auto
    then show ?thesis using t True unfolding insert_tx_loop.simps nth upd shift
      by (intro exI [of _ k]) (auto simp: less_Suc_eq)
  next
    case False
    then show ?thesis using t unfolding insert_tx_loop.simps nth upd by (intro exI [of _ "Suc i"]) auto
  qed
qed

definition height_of :: "tx_store \<Rightarrow> uint256 \<Rightarrow> u32" where
  "height_of all h = (case all h of None \<Rightarrow> 0 | Some t \<Rightarrow> tx_blockHeight t)"

definition in_order :: "BRWallet \<Rightarrow> bool" where
  "in_order w \<longleftrightarrow> sorted (map (height_of (wal_allTx w)) (wal_transactions w))"

lemma acyclic_spends:
  assumes "acyclic_txs all" "all (tx_hash t) = Some t" "all (tx_hash u) = Some u" "spends t u"
  shows "\<not> spends u t"
proof
  assume "spends u t"
  obtain rank where rank: "ranked rank all" using assms(1) by (auto simp: acyclic_txs_def)
  have "rank (tx_hash u) < rank (tx_hash t)" "rank (tx_hash t) < rank (tx_hash u)"
    using rank assms \<open>spends u t\<close> by (auto simp: ranked_def spends_def)
  then show False by simp
qed

lemma insert_tx_position:
  assumes ok: "wallet_ok w" "acyclic_txs (wal_allTx w)"
  obtains c k where "\<And>m. m < length (wal_transactions w) \<Longrightarrow> \<exists>t. wal_allTx w (wal_transactions w ! m) = Some t \<and>
      tx_hash t = wal_transactions w ! m \<and> BRWalletTxCompare w t tx = Some (c m)"
    "k \<le> length (wal_transactions w)" "k = 0 \<or> c (k - 1) \<le> (0 :: int)"
    "\<And>m. k \<le> m \<Longrightarrow> m < length (wal_transactions w) \<Longrightarrow> c m > 0"
    "BRWalletInsertTx w tx = Some (w\<lparr>wal_transactions := take k (wal_transactions w) @ [tx_hash tx] @ drop k (wal_transactions w)\<rparr>)"
proof -
  let ?xs = "wal_transactions w"
  have "\<exists>t c. wal_allTx w (?xs ! m) = Some t \<and> tx_hash t = ?xs ! m \<and> BRWalletTxCompare w t tx = Some c"
    if "m < length ?xs" for m
  proof -
    have "?xs ! m \<in> dom (wal_allTx w)" using ok(1) nth_mem [OF that] by (auto simp: wallet_ok_def)
    then obtain t where t: "wal_allTx w (?xs ! m) = Some t" by blast
    moreover have "tx_hash t = ?xs ! m" using ok(1) t by (simp add: wallet_ok_def)
    ultimately show ?thesis using compare_returns [OF ok(2), of t tx] by blast
  qed
  then obtain c where c: "\<exists>t. wal_allTx w (?xs ! m) = Some t \<and> tx_hash t = ?xs ! m \<and> BRWalletTxCompare w t tx = Some (c m)"
    if "m < length ?xs" for m by metis
  have c': "\<exists>t. wal_allTx w (?xs ! m) = Some t \<and> BRWalletTxCompare w t tx = Some (c m)" if "m < length ?xs" for m
    using c [OF that] by blast
  obtain k where "k \<le> length ?xs" "k = 0 \<or> c (k - 1) \<le> 0" "\<forall>m. k \<le> m \<and> m < length ?xs \<longrightarrow> c m > 0"
    "insert_tx_loop w tx (length ?xs) (?xs @ [0]) = Some (take k ?xs @ [tx_hash tx] @ drop k ?xs)"
    using insert_tx_loop_eq [of ?xs w tx c "length ?xs" 0, OF c'] by auto
  then show ?thesis using that [OF c, of k] by (auto simp: BRWalletInsertTx_def)
qed

lemma sorted_insert_at:
  assumes "sorted xs" "k \<le> length xs" "k = 0 \<or> xs ! (k - 1) \<le> x" "\<And>m. k \<le> m \<Longrightarrow> m < length xs \<Longrightarrow> x \<le> xs ! m"
  shows "sorted (take k xs @ x # drop k xs)"
proof -
  have "\<forall>y \<in> set (take k xs). y \<le> x"
  proof
    fix y assume "y \<in> set (take k xs)"
    then obtain m where "m < k" "m < length xs" "y = xs ! m" by (auto simp: in_set_conv_nth)
    then show "y \<le> x" using assms(1,2,3) sorted_nth_mono [of xs m "k - 1"] by (cases k) auto
  qed
  moreover have "\<forall>y \<in> set (drop k xs). x \<le> y"
    using assms(4) by (auto simp: in_set_conv_nth)
  moreover have "\<forall>y \<in> set (take k xs). \<forall>z \<in> set (drop k xs). y \<le> z" using calculation by fastforce
  ultimately show ?thesis using assms(1) by (auto simp: sorted_append sorted_wrt_take sorted_wrt_drop)
qed

lemma insert_keeps_order:
  assumes "wallet_ok w" "acyclic_txs (wal_allTx w)" "wal_allTx w (tx_hash tx) = Some tx" "in_order w"
  shows "\<exists>k \<le> length (wal_transactions w). \<exists>w'. BRWalletInsertTx w tx = Some w' \<and>
    w' = w\<lparr>wal_transactions := take k (wal_transactions w) @ [tx_hash tx] @ drop k (wal_transactions w)\<rparr> \<and> in_order w' \<and>
    (\<forall>m < length (wal_transactions w). \<forall>parent. wal_allTx w (wal_transactions w ! m) = Some parent \<and> spends tx parent \<and>
      tx_blockHeight parent \<le> tx_blockHeight tx \<longrightarrow> m < k)"
proof -
  let ?xs = "wal_transactions w" and ?h = "height_of (wal_allTx w)"
  obtain c k where c: "\<And>m. m < length ?xs \<Longrightarrow> \<exists>t. wal_allTx w (?xs ! m) = Some t \<and> tx_hash t = ?xs ! m \<and>
      BRWalletTxCompare w t tx = Some (c m)"
    and k: "k \<le> length ?xs" "k = 0 \<or> c (k - 1) \<le> (0 :: int)" "\<And>m. k \<le> m \<Longrightarrow> m < length ?xs \<Longrightarrow> c m > 0"
    and ins: "BRWalletInsertTx w tx = Some (w\<lparr>wal_transactions := take k ?xs @ [tx_hash tx] @ drop k ?xs\<rparr>)"
    by (rule insert_tx_position [OF assms(1,2), of tx]) (rule that)
  have less: "?h (?xs ! m) < tx_blockHeight tx \<Longrightarrow> c m = - 1" and greater: "tx_blockHeight tx < ?h (?xs ! m) \<Longrightarrow> c m = 1"
    if "m < length ?xs" for m
    using c [OF that] by (auto simp: height_of_def compare_heights)
  have "sorted (take k (map ?h ?xs) @ ?h (tx_hash tx) # drop k (map ?h ?xs))"
  proof (rule sorted_insert_at)
    show "sorted (map ?h ?xs)" using assms(4) by (simp add: in_order_def)
    show "k \<le> length (map ?h ?xs)" using k by simp
    have own: "?h (tx_hash tx) = tx_blockHeight tx" using assms(3) by (simp add: height_of_def)
    show "k = 0 \<or> map ?h ?xs ! (k - 1) \<le> ?h (tx_hash tx)"
      using k(1,2) greater [of "k - 1"] by (cases k) (auto simp: own not_less [symmetric])
    show "?h (tx_hash tx) \<le> map ?h ?xs ! m" if "k \<le> m" "m < length (map ?h ?xs)" for m
      using k(3) [of m] less [of m] that by (auto simp: own not_less [symmetric])
  qed
  then have "in_order (w\<lparr>wal_transactions := take k ?xs @ [tx_hash tx] @ drop k ?xs\<rparr>)"
    by (simp add: in_order_def take_map drop_map)
  moreover have "m < k" if m: "m < length ?xs" "wal_allTx w (?xs ! m) = Some parent" "spends tx parent"
    "tx_blockHeight parent \<le> tx_blockHeight tx" for m parent
  proof (rule ccontr)
    assume "\<not> m < k"
    then have "c m > 0" using k(3) m(1) by simp
    moreover have "tx_hash parent = ?xs ! m" "BRWalletTxCompare w parent tx = Some (c m)" using c [OF m(1)] m(2) by auto
    moreover have "\<not> spends parent tx"
      using acyclic_spends [OF assms(2,3) _ m(3)] calculation m(2) by simp
    ultimately show False using compare_parent [OF m(3) _ m(4), of w] by simp
  qed
  ultimately show ?thesis using k(1) ins by blast
qed

text \<open>C26: inserting a transaction of the store always returns, adds it at one position and leaves the others
  in their order. If the list is ordered by block height it stays so, and the transaction comes behind
  every transaction it spends that is not confirmed later than itself.\<close>

theorem wallet_insert_keeps_order:
  assumes "wallet_ok w" "acyclic_txs (wal_allTx w)" "wal_allTx w (tx_hash tx) = Some tx" "in_order w"
  shows "\<exists>k \<le> length (wal_transactions w). \<exists>w'. BRWalletInsertTx w tx = Some w' \<and>
    w' = w\<lparr>wal_transactions := take k (wal_transactions w) @ [tx_hash tx] @ drop k (wal_transactions w)\<rparr> \<and> in_order w' \<and>
    (\<forall>m < length (wal_transactions w). \<forall>parent. wal_allTx w (wal_transactions w ! m) = Some parent \<and> spends tx parent \<and>
      tx_blockHeight parent \<le> tx_blockHeight tx \<longrightarrow> m < k)"
  using assms by (rule insert_keeps_order)

lemma wallet_okD:
  "wallet_ok w \<Longrightarrow> set (wal_transactions w) \<subseteq> dom (wal_allTx w)"
  "wallet_ok w \<Longrightarrow> distinct (wal_transactions w)"
  "wallet_ok w \<Longrightarrow> wal_allTx w h = Some t \<Longrightarrow> tx_hash t = h"
  by (simp_all add: wallet_ok_def)

lemma wallet_ok_list:
  "wallet_ok w \<Longrightarrow> set xs \<subseteq> dom (wal_allTx w) \<Longrightarrow> distinct xs \<Longrightarrow> wallet_ok (w\<lparr>wal_transactions := xs\<rparr>)"
  by (auto simp: wallet_ok_def)

lemma wallet_ok_subset:
  "wallet_ok w \<Longrightarrow> set xs \<subseteq> set (wal_transactions w) \<Longrightarrow> distinct xs \<Longrightarrow> wallet_ok (w\<lparr>wal_transactions := xs\<rparr>)"
  by (auto simp: wallet_ok_def)

lemma example_wallet_ok: "wallet_ok (example_wallet [paying_tx, replaceable_tx])"
  by (auto simp: wallet_ok_def example_wallet_def example_txs split: if_splits)

lemma example_wallet_acyclic: "acyclic_txs (wal_allTx (example_wallet [paying_tx, replaceable_tx]))"
  unfolding acyclic_txs_def
  by (rule exI [of _ unat]) (auto simp: ranked_def example_wallet_def example_txs split: if_splits)

theorem wallet_insert_keeps_order_witness:
  "\<exists>w'. BRWalletInsertTx ((example_wallet [paying_tx, replaceable_tx])\<lparr>wal_transactions := [1]\<rparr>) replaceable_tx = Some w' \<and>
     in_order w' \<and> wal_transactions w' = [1, 2]"
proof -
  let ?w = "(example_wallet [paying_tx, replaceable_tx])\<lparr>wal_transactions := [1]\<rparr>"
  have all: "wal_allTx ?w = [1 \<mapsto> paying_tx, 2 \<mapsto> replaceable_tx]"
    by (auto simp: example_wallet_def example_txs fun_eq_iff)
  have "wallet_ok ?w"
    by (rule wallet_ok_subset [OF example_wallet_ok]) (simp_all add: example_wallet_def example_txs)
  moreover have "acyclic_txs (wal_allTx ?w)" using example_wallet_acyclic by simp
  moreover have "wal_allTx ?w (tx_hash replaceable_tx) = Some replaceable_tx" "in_order ?w"
    unfolding all by (simp_all add: in_order_def replaceable_tx_def BRTransactionNew_def)
  ultimately obtain k w' where k: "k \<le> 1" "BRWalletInsertTx ?w replaceable_tx = Some w'" "in_order w'"
    "wal_transactions w' = take k [1] @ [tx_hash replaceable_tx] @ drop k [1]" "spends replaceable_tx paying_tx \<and>
      tx_blockHeight paying_tx \<le> tx_blockHeight replaceable_tx \<longrightarrow> 0 < k"
    using wallet_insert_keeps_order [of ?w replaceable_tx] unfolding all by fastforce
  moreover have "spends replaceable_tx paying_tx" "tx_blockHeight paying_tx \<le> tx_blockHeight replaceable_tx"
    "tx_hash replaceable_tx = 2"
    by (simp_all add: spends_def example_txs)
  ultimately have "k = 1" by simp
  then show ?thesis using k \<open>tx_hash replaceable_tx = 2\<close> by auto
qed

section \<open>Address chains\<close>

definition chains_ok :: "BRWallet \<Rightarrow> bool" where
  "chains_ok w \<longleftrightarrow> wal_allAddrs w = addr_str ` (set (wal_internalChain w) \<union> set (wal_externalChain w))"

text \<open>The addresses from \<open>i\<close> on are unused, and the one before is not.\<close>

definition unused_tail :: "bytes set \<Rightarrow> BRAddress list \<Rightarrow> nat \<Rightarrow> bool" where
  "unused_tail taken chain i \<longleftrightarrow> i \<le> length chain \<and> (\<forall>k. i \<le> k \<and> k < length chain \<longrightarrow> addr_str (chain ! k) \<notin> taken) \<and>
     (i = 0 \<or> addr_str (chain ! (i - 1)) \<in> taken)"

lemma unused_from_tail: "unused_tail taken chain (unused_from taken chain (length chain))"
proof -
  have "unused_from taken chain n \<le> n \<and> (\<forall>k. unused_from taken chain n \<le> k \<and> k < n \<longrightarrow> addr_str (chain ! k) \<notin> taken) \<and>
      (unused_from taken chain n = 0 \<or> addr_str (chain ! (unused_from taken chain n - 1)) \<in> taken)" for n
    by (induction n) (auto simp: less_Suc_eq)
  then show ?thesis by (simp add: unused_tail_def)
qed

text \<open>The derived addresses \<open>m\<close> to \<open>m + gapLimit - 1\<close>, as far as they exist, are unused.\<close>

definition gap_at :: "(u32 \<Rightarrow> BRAddress option) \<Rightarrow> bytes set \<Rightarrow> nat \<Rightarrow> nat \<Rightarrow> bool" where
  "gap_at derive taken gapLimit m \<longleftrightarrow> (\<forall>k < gapLimit. \<forall>a. derive (of_nat (m + k)) = Some a \<longrightarrow> addr_str a \<notin> taken)"

definition derivable :: "(u32 \<Rightarrow> BRAddress option) \<Rightarrow> nat \<Rightarrow> BRAddress \<Rightarrow> bool" where
  "derivable derive n a \<longleftrightarrow> derive (of_nat n) = Some a \<and> \<not> BRAddressEq a no_address"

lemma generate_addrs_spec:
  assumes "gap_at derive taken gapLimit m" "unused_tail taken chain i" "i \<le> m" "length chain \<le> m + gapLimit"
  shows "\<exists>i' new. generate_addrs derive taken gapLimit i chain = Some (i', chain @ new) \<and> unused_tail taken (chain @ new) i' \<and>
    (\<forall>k < length new. derivable derive (length chain + k) (new ! k)) \<and>
    (i' + gapLimit \<le> length (chain @ new) \<or> (\<forall>a. \<not> derivable derive (length (chain @ new)) a))"
  using assms(2-4)
proof (induction "m + gapLimit - length chain" arbitrary: i chain rule: less_induct)
  case less
  show ?case
  proof (cases "i + gapLimit > length chain \<and> (\<exists>a. derivable derive (length chain) a)")
    case False
    then have "generate_addrs derive taken gapLimit i chain = Some (i, chain)"
      by (subst generate_addrs.simps) (auto simp: derivable_def split: option.split)
    then show ?thesis using less.prems(1) False by (intro exI [of _ i] exI [of _ "[]"]) auto
  next
    case True
    then obtain a where gap: "i + gapLimit > length chain" and a: "derivable derive (length chain) a" by blast
    let ?i = "if addr_str a \<in> taken then length chain + 1 else i"
    have step: "generate_addrs derive taken gapLimit i chain = generate_addrs derive taken gapLimit ?i (chain @ [a])"
      using gap a by (subst generate_addrs.simps) (simp add: derivable_def)
    have len: "length chain < m + gapLimit" using gap less.prems(2) by simp
    have "?i \<le> m"
    proof (cases "addr_str a \<in> taken")
      case True
      have "length chain < m"
      proof (rule ccontr)
        assume "\<not> length chain < m"
        then have "m + (length chain - m) = length chain" "length chain - m < gapLimit" using len by auto
        then show False using assms(1) a True by (metis derivable_def gap_at_def)
      qed
      then show ?thesis using True by simp
    qed (use less.prems in simp)
    moreover have "unused_tail taken (chain @ [a]) ?i"
      using less.prems(1) by (auto simp: unused_tail_def nth_append less_Suc_eq)
    moreover have dec: "m + gapLimit - length (chain @ [a]) < m + gapLimit - length chain" "length (chain @ [a]) \<le> m + gapLimit"
      using len by simp_all
    ultimately obtain i' new where IH: "generate_addrs derive taken gapLimit ?i (chain @ [a]) = Some (i', (chain @ [a]) @ new)"
      "unused_tail taken ((chain @ [a]) @ new) i'" "\<forall>k < length new. derivable derive (length (chain @ [a]) + k) (new ! k)"
      "i' + gapLimit \<le> length ((chain @ [a]) @ new) \<or> (\<forall>b. \<not> derivable derive (length ((chain @ [a]) @ new)) b)"
      using less.hyps [OF dec(1), of ?i] by auto
    have "\<forall>k < length (a # new). derivable derive (length chain + k) ((a # new) ! k)"
    proof (intro allI impI)
      fix k assume "k < length (a # new)"
      then show "derivable derive (length chain + k) ((a # new) ! k)" using IH(3) a by (cases k) auto
    qed
    then show ?thesis using IH(1,2,4) by (intro exI [of _ i'] exI [of _ "a # new"]) (simp add: step)
  qed
qed

abbreviation chain_id :: "bool \<Rightarrow> u32" where
  "chain_id internal \<equiv> (if internal then SEQUENCE_INTERNAL_CHAIN else SEQUENCE_EXTERNAL_CHAIN)"

definition with_chain :: "BRWallet \<Rightarrow> bool \<Rightarrow> BRAddress list \<Rightarrow> BRWallet" where
  "with_chain w internal new =
     (if internal then w\<lparr>wal_internalChain := wal_internalChain w @ new, wal_allAddrs := wal_allAddrs w \<union> addr_str ` set new\<rparr>
      else w\<lparr>wal_externalChain := wal_externalChain w @ new, wal_allAddrs := wal_allAddrs w \<union> addr_str ` set new\<rparr>)"

lemma with_chain_simps [simp]:
  "wallet_chain (with_chain w internal new) internal = wallet_chain w internal @ new"
  "wallet_chain (with_chain w internal new) (\<not> internal) = wallet_chain w (\<not> internal)"
  "wal_allTx (with_chain w internal new) = wal_allTx w" "wal_transactions (with_chain w internal new) = wal_transactions w"
  "wal_usedAddrs (with_chain w internal new) = wal_usedAddrs w" "wal_utxos (with_chain w internal new) = wal_utxos w"
  "wal_balance (with_chain w internal new) = wal_balance w"
  by (simp_all add: with_chain_def wallet_chain_def)

lemma with_chain_ok: "chains_ok w \<Longrightarrow> chains_ok (with_chain w internal new)"
  by (auto simp: chains_ok_def with_chain_def)

lemma unused_addrs:
  assumes "chains_ok w" "gap_at (env_derive env (chain_id internal)) (wal_usedAddrs w) gapLimit m"
    "length (wallet_chain w internal) \<le> m"
  obtains i new where
    "\<And>moved addrs. BRWalletUnusedAddrs (env\<lparr>env_moved := moved\<rparr>) w addrs gapLimit internal = Some
      (if addrs \<and> i + gapLimit \<le> length (wallet_chain w internal @ new) then take gapLimit (drop i (wallet_chain w internal @ new)) else [],
       with_chain w internal new)"
    "unused_tail (wal_usedAddrs w) (wallet_chain w internal @ new) i"
    "\<And>k. k < length new \<Longrightarrow> derivable (env_derive env (chain_id internal)) (length (wallet_chain w internal) + k) (new ! k)"
    "i + gapLimit \<le> length (wallet_chain w internal @ new) \<or>
      (\<forall>a. \<not> derivable (env_derive env (chain_id internal)) (length (wallet_chain w internal @ new)) a)"
proof -
  let ?c = "wallet_chain w internal" and ?u = "wal_usedAddrs w"
  have t: "unused_tail ?u ?c (unused_from ?u ?c (length ?c))" by (rule unused_from_tail)
  then have "unused_from ?u ?c (length ?c) \<le> m" using assms(3) by (simp add: unused_tail_def)
  then obtain i new where g: "generate_addrs (env_derive env (chain_id internal)) ?u gapLimit (unused_from ?u ?c (length ?c)) ?c =
      Some (i, ?c @ new)" "unused_tail ?u (?c @ new) i"
      "\<forall>k < length new. derivable (env_derive env (chain_id internal)) (length ?c + k) (new ! k)"
      "i + gapLimit \<le> length (?c @ new) \<or> (\<forall>a. \<not> derivable (env_derive env (chain_id internal)) (length (?c @ new)) a)"
    using generate_addrs_spec [OF assms(2) t] assms(3) by auto
  have "wal_allAddrs w \<union> addr_str ` set new = addr_str ` (set (wal_internalChain w @ new) \<union> set (wal_externalChain w))"
    "wal_allAddrs w \<union> addr_str ` set new = addr_str ` (set (wal_internalChain w) \<union> set (wal_externalChain w @ new))"
    using assms(1) by (auto simp: chains_ok_def)
  moreover have e: "env_derive (env\<lparr>env_moved := moved\<rparr>) = env_derive env" for moved by simp
  ultimately have "BRWalletUnusedAddrs (env\<lparr>env_moved := moved\<rparr>) w addrs gapLimit internal = Some
      (if addrs \<and> i + gapLimit \<le> length (?c @ new) then take gapLimit (drop i (?c @ new)) else [], with_chain w internal new)"
    for moved addrs
    unfolding BRWalletUnusedAddrs_def Let_def e g(1) bind.bind_lunit prod.case
    by (cases internal) (simp_all add: with_chain_def wallet_chain_def foldl_insert image_Un Un_ac)
  then show ?thesis using that g(2-4) by blast
qed

lemma nth_of_slice: "a \<in> set (take n (drop i xs)) \<Longrightarrow> \<exists>k < n. i + k < length xs \<and> a = xs ! (i + k)"
proof -
  assume "a \<in> set (take n (drop i xs))"
  then obtain k where "k < length (take n (drop i xs))" "a = take n (drop i xs) ! k" unfolding in_set_conv_nth by blast
  then show ?thesis by (intro exI [of _ k]) auto
qed

text \<open>C27: asking for addresses of a chain returns once the addresses the key derives contain a gap, and does
  not depend on whether the array was moved. The chain is extended with the next addresses derived from
  the master key, the other chain is unchanged, and the set of all addresses is again that of the two
  chains. While the derivation succeeds it writes the requested number of addresses; they are unused and
  follow the last used address of the chain.\<close>

theorem wallet_unused_addrs:
  assumes "chains_ok w" "gap_at (env_derive env (chain_id internal)) (wal_usedAddrs w) gapLimit m"
    "length (wallet_chain w internal) \<le> m" "\<forall>n. \<exists>a. derivable (env_derive env (chain_id internal)) n a"
  shows "\<exists>written w' new i. \<forall>moved.
    BRWalletUnusedAddrs (env\<lparr>env_moved := moved\<rparr>) w True gapLimit internal = Some (written, w') \<and> chains_ok w' \<and>
    wallet_chain w' internal = wallet_chain w internal @ new \<and> wallet_chain w' (\<not> internal) = wallet_chain w (\<not> internal) \<and>
    (\<forall>k < length new. derivable (env_derive env (chain_id internal)) (length (wallet_chain w internal) + k) (new ! k)) \<and>
    length written = gapLimit \<and> written = take gapLimit (drop i (wallet_chain w' internal)) \<and>
    (\<forall>a \<in> set written. addr_str a \<notin> wal_usedAddrs w) \<and>
    (i = 0 \<or> addr_str (wallet_chain w' internal ! (i - 1)) \<in> wal_usedAddrs w)"
proof -
  let ?c = "wallet_chain w internal"
  obtain i new where u: "\<And>moved addrs. BRWalletUnusedAddrs (env\<lparr>env_moved := moved\<rparr>) w addrs gapLimit internal = Some
      (if addrs \<and> i + gapLimit \<le> length (?c @ new) then take gapLimit (drop i (?c @ new)) else [], with_chain w internal new)"
    "unused_tail (wal_usedAddrs w) (?c @ new) i"
    "\<And>k. k < length new \<Longrightarrow> derivable (env_derive env (chain_id internal)) (length ?c + k) (new ! k)"
    "i + gapLimit \<le> length (?c @ new)"
    by (rule unused_addrs [OF assms(1-3)]) (use assms(4) in blast)
  have "addr_str a \<notin> wal_usedAddrs w" if a: "a \<in> set (take gapLimit (drop i (?c @ new)))" for a
  proof -
    obtain k where "k < gapLimit" "i + k < length (?c @ new)" "a = (?c @ new) ! (i + k)"
      using nth_of_slice [OF a] by blast
    then show ?thesis using u(2) by (simp add: unused_tail_def)
  qed
  then have unused: "\<forall>a \<in> set (take gapLimit (drop i (?c @ new))). addr_str a \<notin> wal_usedAddrs w" by blast
  have len: "length (take gapLimit (drop i (?c @ new))) = gapLimit" using u(4) by simp
  have before: "i = 0 \<or> addr_str ((?c @ new) ! (i - 1)) \<in> wal_usedAddrs w" using u(2) by (simp add: unused_tail_def)
  have run: "BRWalletUnusedAddrs (env\<lparr>env_moved := moved\<rparr>) w True gapLimit internal =
      Some (take gapLimit (drop i (?c @ new)), with_chain w internal new)" for moved
    using u(1) [of moved True] u(4) by simp
  show ?thesis
    by (intro exI [of _ "take gapLimit (drop i (?c @ new))"] exI [of _ "with_chain w internal new"] exI [of _ new] exI [of _ i]
        allI conjI, rule run, rule with_chain_ok [OF assms(1)], simp, simp, simp add: u(3), rule len, simp)
      (use unused before in simp_all)
qed

definition example_env :: wallet_env where
  "example_env = \<lparr>env_testnet = False, env_derive = (\<lambda>_ _. Some example_addr), env_now = 0, env_moved = (\<lambda>_. False)\<rparr>"

lemma example_derivable: "derivable (env_derive example_env c) n example_addr"
proof -
  have "addr_str example_addr = replicate 34 0x31" by (simp add: addr_str_def example_addr_def takeWhile_append)
  moreover have "addr_str no_address = []" by (simp add: addr_str_def)
  ultimately show ?thesis by (auto simp: derivable_def example_env_def BRAddressEq_def)
qed

theorem wallet_unused_addrs_witness:
  "\<exists>written w'. BRWalletUnusedAddrs example_env wallet_empty True 10 False = Some (written, w') \<and> length written = 10"
proof -
  have "chains_ok wallet_empty" "gap_at (env_derive example_env (chain_id False)) (wal_usedAddrs wallet_empty) 10 0"
    "length (wallet_chain wallet_empty False) \<le> 0"
    by (simp_all add: chains_ok_def wallet_empty_def gap_at_def wallet_chain_def)
  then obtain written w' where "\<forall>moved. BRWalletUnusedAddrs (example_env\<lparr>env_moved := moved\<rparr>) wallet_empty True 10 False = Some (written, w')"
    "length written = 10"
    using wallet_unused_addrs [of wallet_empty example_env False 10 0] example_derivable by blast
  then show ?thesis by (metis wallet_env.surjective wallet_env.update_convs(4))
qed

section \<open>Registration\<close>

lemma gap_at_mono: "gap_at derive taken n m \<Longrightarrow> taken' \<subseteq> taken \<Longrightarrow> n' \<le> n \<Longrightarrow> gap_at derive taken' n' m"
  unfolding gap_at_def by (meson order.strict_trans2 subsetD)

lemma unused_addrs_null:
  assumes "chains_ok w" "gap_at (env_derive env (chain_id internal)) (wal_usedAddrs w) gapLimit m"
    "length (wallet_chain w internal) \<le> m"
  shows "\<exists>new. BRWalletUnusedAddrs env w False gapLimit internal = Some ([], with_chain w internal new)"
proof (rule unused_addrs [OF assms])
  fix i new
  assume "\<And>moved addrs. BRWalletUnusedAddrs (env\<lparr>env_moved := moved\<rparr>) w addrs gapLimit internal = Some
    (if addrs \<and> i + gapLimit \<le> length (wallet_chain w internal @ new)
     then take gapLimit (drop i (wallet_chain w internal @ new)) else [], with_chain w internal new)"
  from this [of "env_moved env" False]
  show "\<exists>new. BRWalletUnusedAddrs env w False gapLimit internal = Some ([], with_chain w internal new)" by auto
qed

text \<open>Both chains grown by their gap limits, as after every registration.\<close>

lemma grow_chains:
  assumes "chains_ok w" "\<And>internal n. \<exists>m \<ge> n. gap_at (env_derive env (chain_id internal)) (wal_usedAddrs w) 10 m"
  shows "\<exists>ext int. BRWalletUnusedAddrs env w False SEQUENCE_GAP_LIMIT_EXTERNAL False = Some ([], with_chain w False ext) \<and>
    BRWalletUnusedAddrs env (with_chain w False ext) False SEQUENCE_GAP_LIMIT_INTERNAL True =
      Some ([], with_chain (with_chain w False ext) True int)"
proof -
  obtain m where "length (wallet_chain w False) \<le> m" "gap_at (env_derive env (chain_id False)) (wal_usedAddrs w) 10 m"
    using assms(2) by blast
  from unused_addrs_null [OF assms(1) this(2,1)] obtain ext
    where ext: "BRWalletUnusedAddrs env w False 10 False = Some ([], with_chain w False ext)" by auto
  let ?w = "with_chain w False ext"
  obtain m where m: "length (wallet_chain ?w True) \<le> m" "gap_at (env_derive env (chain_id True)) (wal_usedAddrs w) 10 m"
    using assms(2) by blast
  then have "gap_at (env_derive env (chain_id True)) (wal_usedAddrs ?w) 5 m"
    using gap_at_mono [OF m(2), of "wal_usedAddrs ?w" 5] by simp
  from unused_addrs_null [OF with_chain_ok [OF assms(1)] this m(1)] obtain int
    where "BRWalletUnusedAddrs env ?w False 5 True = Some ([], with_chain ?w True int)" by auto
  then show ?thesis using ext by auto
qed

definition balanced :: "BRWallet \<Rightarrow> bool" where
  "balanced w \<longleftrightarrow> wal_balance w = sum_list (map (utxo_amount (wal_allTx w)) (wal_utxos w)) \<and>
     wal_totalReceived w - wal_totalSent w = wal_balance w \<and> length (wal_balanceHist w) = length (wal_transactions w)"

lemma with_chain_ok_balanced:
  "wallet_ok (with_chain w b new) = wallet_ok w" "balanced (with_chain w b new) = balanced w"
  "in_order (with_chain w b new) = in_order w"
  by (simp_all add: with_chain_def wallet_ok_def balanced_def in_order_def)

lemma update_balance_facts:
  assumes "wallet_ok w"
  obtains w' where "BRWalletUpdateBalance now w = Some w'" "wal_allTx w' = wal_allTx w" "wal_transactions w' = wal_transactions w"
    "wal_internalChain w' = wal_internalChain w" "wal_externalChain w' = wal_externalChain w" "wal_allAddrs w' = wal_allAddrs w"
    "wal_blockHeight w' = wal_blockHeight w" "wal_usedAddrs w' \<subseteq> output_addrs (wal_allTx w)" "balanced w'"
proof -
  obtain w1 b where w: "BRWalletUpdateBalance now w = Some (w1\<lparr>wal_balance := b\<rparr>)"
    "balance_inv now w (wal_transactions w) (w1, b, b)" using update_balance_inv [OF assms] by blast
  show ?thesis
    by (rule that [of "w1\<lparr>wal_balance := b\<rparr>"])
      (use w in \<open>simp_all add: balance_inv_def Let_def balanced_def\<close>)
qed

text \<open>C9: a signed transaction that is unknown and concerns the wallet is registered: it is known by its hash
  and inserted in the list, behind what it spends, with the order by block height kept; the store, the
  chains and the balance are consistent again; the callbacks report the new balance and the
  transaction; and registering it a second time changes nothing.\<close>

theorem wallet_register:
  assumes "wallet_ok w" "chains_ok w" "in_order w" "acyclic_txs ((wal_allTx w)(tx_hash tx \<mapsto> tx))"
    "BRTransactionIsSigned tx" "wal_allTx w (tx_hash tx) = None" "BRWalletContainsTx w tx" "length (tx_outputs tx) < 2 ^ 32"
    "\<And>internal n. \<exists>m \<ge> n. gap_at (env_derive env (chain_id internal)) (output_addrs ((wal_allTx w)(tx_hash tx \<mapsto> tx))) 10 m"
  shows "\<exists>w' k. BRWalletRegisterTransaction env w tx = Some (True, w', [BalanceChanged (wal_balance w'), TxAdded (tx_hash tx)]) \<and>
    BRWalletTransactionForHash w' (tx_hash tx) = Some tx \<and>
    wal_transactions w' = take k (wal_transactions w) @ [tx_hash tx] @ drop k (wal_transactions w) \<and>
    wallet_ok w' \<and> chains_ok w' \<and> in_order w' \<and> balanced w' \<and>
    BRWalletRegisterTransaction env w' tx = Some (True, w', [])"
proof -
  let ?all = "(wal_allTx w)(tx_hash tx \<mapsto> tx)" and ?xs = "wal_transactions w"
  let ?w = "w\<lparr>wal_allTx := ?all\<rparr>"
  have new: "tx_hash tx \<notin> set ?xs" using wallet_okD(1) [OF assms(1)] assms(6) by auto
  have ok: "wallet_ok ?w" using assms(1,8) by (auto simp: wallet_ok_def)
  have heights: "map (height_of ?all) ?xs = map (height_of (wal_allTx w)) ?xs"
    using new by (intro map_cong) (auto simp: height_of_def)
  have ord: "in_order ?w" using assms(3) unfolding in_order_def by (simp del: map_eq_conv add: heights)
  have ac: "acyclic_txs (wal_allTx ?w)" "wal_allTx ?w (tx_hash tx) = Some tx" using assms(4) by simp_all
  obtain k w1 where "BRWalletInsertTx ?w tx = Some w1" "in_order w1"
    "w1 = ?w\<lparr>wal_transactions := take k (wal_transactions ?w) @ [tx_hash tx] @ drop k (wal_transactions ?w)\<rparr>"
    using insert_keeps_order [OF ok ac ord] by blast
  then have ins: "BRWalletInsertTx ?w tx = Some w1" "in_order w1"
    "w1 = ?w\<lparr>wal_transactions := take k ?xs @ [tx_hash tx] @ drop k ?xs\<rparr>" by simp_all
  have ok1: "wallet_ok w1"
    unfolding ins(3)
  proof (rule wallet_ok_list [OF ok])
    have x: "set (take k ?xs) \<union> set (drop k ?xs) = set ?xs" "distinct (take k ?xs @ drop k ?xs)"
      using wallet_okD(2) [OF assms(1)] by (simp_all only: set_append [symmetric] append_take_drop_id)
    then show "set (take k ?xs @ [tx_hash tx] @ drop k ?xs) \<subseteq> dom (wal_allTx ?w)"
      using wallet_okD(1) [OF assms(1)] by auto
    show "distinct (take k ?xs @ [tx_hash tx] @ drop k ?xs)" using x(2) [unfolded distinct_append] x(1) new by auto
  qed
  have ord1: "in_order w1" by (rule ins(2))
  obtain w2 where u: "BRWalletUpdateBalance (env_now env) w1 = Some w2" "wal_allTx w2 = wal_allTx w1"
    "wal_transactions w2 = wal_transactions w1" "wal_internalChain w2 = wal_internalChain w1"
    "wal_externalChain w2 = wal_externalChain w1" "wal_allAddrs w2 = wal_allAddrs w1"
    "wal_blockHeight w2 = wal_blockHeight w1" "wal_usedAddrs w2 \<subseteq> output_addrs (wal_allTx w1)" "balanced w2"
    by (rule update_balance_facts [OF ok1, of "env_now env"])
  then have upd: "wal_allTx w2 = ?all" "wal_usedAddrs w2 \<subseteq> output_addrs ?all"
    "wal_internalChain w2 = wal_internalChain w" "wal_externalChain w2 = wal_externalChain w" "wal_allAddrs w2 = wal_allAddrs w"
    by (simp_all add: ins(3))
  have chains2: "chains_ok w2" using assms(2) upd by (simp add: chains_ok_def)
  have gap: "\<exists>m \<ge> n. gap_at (env_derive env (chain_id internal)) (wal_usedAddrs w2) 10 m" for internal n
    using assms(9) [of n internal] gap_at_mono [OF _ upd(2)] by blast
  obtain ext int where grow: "BRWalletUnusedAddrs env w2 False SEQUENCE_GAP_LIMIT_EXTERNAL False = Some ([], with_chain w2 False ext)"
    "BRWalletUnusedAddrs env (with_chain w2 False ext) False SEQUENCE_GAP_LIMIT_INTERNAL True =
      Some ([], with_chain (with_chain w2 False ext) True int)"
    using grow_chains [OF chains2 gap] by blast
  let ?w' = "with_chain (with_chain w2 False ext) True int"
  have "BRWalletRegisterTransaction env w tx = Some (True, ?w', [BalanceChanged (wal_balance ?w'), TxAdded (tx_hash tx)])"
    using assms(5-7) by (simp add: BRWalletRegisterTransaction_def ins(1) u(1) grow)
  moreover have "wallet_ok ?w'" "balanced ?w'" "in_order ?w'"
    using ok1 ord1 u(2,3,9) unfolding with_chain_ok_balanced by (simp_all add: wallet_ok_def in_order_def)
  moreover have "BRWalletRegisterTransaction env ?w' tx = Some (True, ?w', [])"
    using assms(5) upd(1) by (simp add: BRWalletRegisterTransaction_def)
  ultimately show ?thesis
    using with_chain_ok [OF with_chain_ok [OF chains2]] upd(1) u(3)
    by (intro exI [of _ ?w'] exI [of _ k]) (simp add: BRWalletTransactionForHash_def ins(3))
qed

text \<open>The paying transaction registered in the wallet that only has its address.\<close>

theorem wallet_register_witness:
  "\<exists>w'. BRWalletRegisterTransaction (example_env\<lparr>env_derive := \<lambda>_ _. None\<rparr>) (example_wallet []) paying_tx =
      Some (True, w', [BalanceChanged (wal_balance w'), TxAdded 1]) \<and> balanced w' \<and> wal_transactions w' = [1]"
proof -
  let ?w = "example_wallet []"
  have w: "wal_allTx ?w = Map.empty" "wal_transactions ?w = []" by (simp_all add: example_wallet_def)
  have "wallet_ok ?w" "chains_ok ?w" "in_order ?w"
    by (simp_all add: wallet_ok_def chains_ok_def in_order_def example_wallet_def wallet_empty_def)
  moreover have "acyclic_txs ((wal_allTx ?w)(tx_hash paying_tx \<mapsto> paying_tx))"
    unfolding acyclic_txs_def by (rule exI [of _ unat]) (auto simp: ranked_def w example_txs)
  moreover have "BRTransactionIsSigned paying_tx" "wal_allTx ?w (tx_hash paying_tx) = None" "BRWalletContainsTx ?w paying_tx"
    "length (tx_outputs paying_tx) < 2 ^ 32" "tx_hash paying_tx = 1"
    by (simp_all add: BRTransactionIsSigned_def BRWalletContainsTx_def wallet_address_def example_wallet_def example_txs)
  moreover have "\<exists>m \<ge> n. gap_at (env_derive (example_env\<lparr>env_derive := \<lambda>_ _. None\<rparr>) (chain_id internal)) taken 10 m"
    for internal n taken by (simp add: gap_at_def) blast
  ultimately show ?thesis
    using wallet_register [of ?w paying_tx "example_env\<lparr>env_derive := \<lambda>_ _. None\<rparr>"] by (fastforce simp: w)
qed

text \<open>The result of a registration says whether the transaction concerns the wallet only the first time.
  An unconfirmed transaction that does not is refused but remembered, and when it is registered again
  the answer is that it belongs to the wallet, although it is not in its list.\<close>

theorem wallet_register_foreign:
  assumes "BRTransactionIsSigned tx" "tx_blockHeight tx = TX_UNCONFIRMED" "wal_allTx w (tx_hash tx) = None"
    "\<not> BRWalletContainsTx w tx"
  shows "\<exists>w'. BRWalletRegisterTransaction env w tx = Some (False, w', []) \<and> wal_transactions w' = wal_transactions w \<and>
    BRWalletRegisterTransaction env w' tx = Some (True, w', [])"
  using assms by (simp add: BRWalletRegisterTransaction_def)

theorem wallet_register_foreign_witness:
  "\<exists>w'. BRWalletRegisterTransaction example_env wallet_empty replaceable_tx = Some (False, w', [])"
  using wallet_register_foreign [of replaceable_tx wallet_empty example_env]
  by (auto simp: BRTransactionIsSigned_def BRWalletContainsTx_def wallet_address_def spent_output_def wallet_empty_def example_txs)

section \<open>Confirmation and reorganisation\<close>

definition two_payments :: BRWallet where
  "two_payments = example_wallet [paying_tx\<lparr>tx_blockHeight := TX_UNCONFIRMED\<rparr>, second_payment]"


lemma heights_while_eq:
  "\<forall>h \<in> set hs. all h \<noteq> None \<Longrightarrow> heights_while all P hs = Some (length (takeWhile (\<lambda>h. P (height_of all h)) hs))"
  by (induction hs) (auto simp: height_of_def)

lemma sorted_tail_filter:
  fixes f :: "'a \<Rightarrow> u32"
  assumes "sorted (map f xs)"
  shows "drop (length xs - length (takeWhile (\<lambda>x. b < f x) (rev xs))) xs = filter (\<lambda>x. b < f x) xs"
  using assms
proof (induction xs rule: rev_induct)
  case Nil
  then show ?case by simp
next
  case (snoc x xs)
  then have s: "sorted (map f xs)" "\<forall>y \<in> set xs. f y \<le> f x" by (auto simp: sorted_append)
  have le: "length (takeWhile (\<lambda>x. b < f x) (rev xs)) \<le> length xs"
    using length_takeWhile_le [of "\<lambda>x. b < f x" "rev xs"] by simp
  show ?case
  proof (cases "b < f x")
    case True
    then show ?thesis using snoc.IH [OF s(1)] le by (simp add: Suc_diff_le)
  next
    case False
    have "filter (\<lambda>x. b < f x) xs = []"
      using False s(2) by (auto simp: filter_empty_conv not_less intro: order_trans)
    then show ?thesis using False by simp
  qed
qed

lemma fold_set_unconfirmed:
  "fold set_unconfirmed hs all h =
    (if h \<in> set hs then map_option (\<lambda>t. t\<lparr>tx_blockHeight := TX_UNCONFIRMED\<rparr>) (all h) else all h)"
proof (induction hs arbitrary: all)
  case Nil
  then show ?case by simp
next
  case (Cons k hs)
  have "map_option (\<lambda>t :: BRTransaction. t\<lparr>tx_blockHeight := TX_UNCONFIRMED\<rparr>) (map_option (\<lambda>t. t\<lparr>tx_blockHeight := TX_UNCONFIRMED\<rparr>) x) =
      map_option (\<lambda>t. t\<lparr>tx_blockHeight := TX_UNCONFIRMED\<rparr>) x" for x by (cases x) simp_all
  then show ?case unfolding fold.simps comp_apply Cons.IH by (simp add: set_unconfirmed_def)
qed

text \<open>C37: a reorganisation to a block marks as unconfirmed, and reports in their order, exactly the transactions of
  the end of the list, back to the last one that was confirmed up to that block; nothing else of the store and of
  the order changes, and the balance is recomputed if there were any. So a transaction of a later block that stands before
  one of an earlier block keeps the block that is gone. If the list is ordered by height those marked are all that were
  confirmed after the block, and it stays ordered.\<close>

theorem wallet_reorg_marks:
  assumes "wallet_ok w"
  shows "\<exists>w' early late. BRWalletSetTxUnconfirmedAfter now w blockHeight =
      Some (w', if late = [] then [] else [TxUpdated late TX_UNCONFIRMED 0]) \<and>
    wal_transactions w = early @ late \<and> (\<forall>h \<in> set late. height_of (wal_allTx w) h > blockHeight) \<and>
    (early \<noteq> [] \<longrightarrow> height_of (wal_allTx w) (last early) \<le> blockHeight) \<and>
    wal_blockHeight w' = blockHeight \<and> wal_transactions w' = wal_transactions w \<and>
    (\<forall>h. wal_allTx w' h = (if h \<in> set late
       then map_option (\<lambda>t. t\<lparr>tx_blockHeight := TX_UNCONFIRMED\<rparr>) (wal_allTx w h) else wal_allTx w h)) \<and>
    (in_order w \<longrightarrow> late = filter (\<lambda>h. height_of (wal_allTx w) h > blockHeight) (wal_transactions w)) \<and>
    (in_order w \<and> blockHeight \<le> TX_UNCONFIRMED \<longrightarrow> in_order w') \<and> wallet_ok w' \<and> (late \<noteq> [] \<longrightarrow> balanced w')"
proof -
  let ?all = "wal_allTx w" and ?xs = "wal_transactions w" and ?P = "\<lambda>h. height_of (wal_allTx w) h > blockHeight"
  have known: "\<forall>h \<in> set (rev ?xs). ?all h \<noteq> None" using wallet_okD(1) [OF assms(1)] by auto
  define late where "late = rev (takeWhile ?P (rev ?xs))"
  define early where "early = rev (dropWhile ?P (rev ?xs))"
  have split: "?xs = early @ late" unfolding late_def early_def by (metis rev_append rev_rev_ident takeWhile_dropWhile_id)
  have high: "\<forall>h \<in> set late. ?P h" by (auto simp: late_def dest: set_takeWhileD)
  have low: "early \<noteq> [] \<longrightarrow> height_of ?all (last early) \<le> blockHeight"
    using hd_dropWhile [of ?P "rev ?xs"] by (auto simp: early_def last_rev not_less)
  have n: "length (takeWhile ?P (rev ?xs)) = length late" by (simp add: late_def)
  have all_late: "late = filter ?P ?xs" if "in_order w"
    using sorted_tail_filter [of "height_of ?all" ?xs blockHeight] that n split by (simp add: in_order_def)
  define w1 where "w1 = w\<lparr>wal_blockHeight := blockHeight, wal_allTx := fold set_unconfirmed late ?all\<rparr>"
  have "drop (length ?xs - length late) ?xs = late" by (simp add: split)
  then have run: "BRWalletSetTxUnconfirmedAfter now w blockHeight = do {
      w' \<leftarrow> (if late \<noteq> [] then BRWalletUpdateBalance now w1 else Some w1);
      Some (w', if late \<noteq> [] then [TxUpdated late TX_UNCONFIRMED 0] else []) }"
    using n by (simp add: BRWalletSetTxUnconfirmedAfter_def Let_def heights_while_eq [OF known] w1_def)
  have ok: "wallet_ok w1"
    using assms(1) unfolding wallet_ok_def w1_def
    by (auto simp: fold_set_unconfirmed split: if_splits)
  have ord: "in_order w1" if o: "in_order w" "blockHeight \<le> TX_UNCONFIRMED"
  proof -
    have h1: "height_of (wal_allTx w1) h = (if ?P h then TX_UNCONFIRMED else height_of ?all h)" if "h \<in> set ?xs" for h
      using that known all_late [OF o(1)] by (auto simp: w1_def height_of_def fold_set_unconfirmed)
    have "sorted (map (\<lambda>h. if ?P h then TX_UNCONFIRMED else height_of ?all h) ?xs)"
      unfolding sorted_map
      by (rule sorted_wrt_mono_rel [OF _ o(1) [unfolded in_order_def sorted_map]])
        (use o(2) in \<open>auto simp: not_less intro: order_trans\<close>)
    also have "map (\<lambda>h. if ?P h then TX_UNCONFIRMED else height_of ?all h) ?xs = map (height_of (wal_allTx w1)) ?xs"
      by (simp add: h1)
    finally show ?thesis by (simp add: in_order_def w1_def)
  qed
  obtain w2 where u: "BRWalletUpdateBalance now w1 = Some w2" "wal_allTx w2 = wal_allTx w1"
    "wal_transactions w2 = wal_transactions w1" "wal_internalChain w2 = wal_internalChain w1"
    "wal_externalChain w2 = wal_externalChain w1" "wal_allAddrs w2 = wal_allAddrs w1"
    "wal_blockHeight w2 = wal_blockHeight w1" "wal_usedAddrs w2 \<subseteq> output_addrs (wal_allTx w1)" "balanced w2"
    by (rule update_balance_facts [OF ok, of now])
  have r: "wallet_ok w2" "in_order w1 \<Longrightarrow> in_order w2" using ok u(2,3) by (simp_all add: wallet_ok_def in_order_def)
  show ?thesis
  proof (rule exI [of _ "if late = [] then w1 else w2"], rule exI [of _ early], rule exI [of _ late], intro conjI)
    show "BRWalletSetTxUnconfirmedAfter now w blockHeight = Some (if late = [] then w1 else w2,
        if late = [] then [] else [TxUpdated late TX_UNCONFIRMED 0])" using u(1) by (simp add: run)
    show "wal_blockHeight (if late = [] then w1 else w2) = blockHeight"
      "wal_transactions (if late = [] then w1 else w2) = ?xs" using u by (simp_all add: w1_def)
    show "\<forall>h. wal_allTx (if late = [] then w1 else w2) h = (if h \<in> set late
        then map_option (\<lambda>t. t\<lparr>tx_blockHeight := TX_UNCONFIRMED\<rparr>) (?all h) else ?all h)"
      using u(2) by (simp add: w1_def fold_set_unconfirmed)
    show "in_order w \<and> blockHeight \<le> TX_UNCONFIRMED \<longrightarrow> in_order (if late = [] then w1 else w2)"
      "wallet_ok (if late = [] then w1 else w2)" "late \<noteq> [] \<longrightarrow> balanced (if late = [] then w1 else w2)"
      using ord r ok u(9) by auto
  qed (use split high low all_late in \<open>blast+\<close>)
qed

theorem wallet_reorg_marks_witness:
  "\<exists>w'. BRWalletSetTxUnconfirmedAfter 0 (example_wallet [paying_tx]) 99 = Some (w', [TxUpdated [1] TX_UNCONFIRMED 0])"
proof -
  have ok: "wallet_ok (example_wallet [paying_tx])" "in_order (example_wallet [paying_tx])"
    by (auto simp: wallet_ok_def in_order_def example_wallet_def example_txs split: if_splits)
  have f: "filter (\<lambda>h. height_of (wal_allTx (example_wallet [paying_tx])) h > 99) (wal_transactions (example_wallet [paying_tx])) = [1]"
    by (simp add: height_of_def example_wallet_def example_txs)
  obtain w' late where "BRWalletSetTxUnconfirmedAfter 0 (example_wallet [paying_tx]) 99 =
      Some (w', if late = [] then [] else [TxUpdated late TX_UNCONFIRMED 0])" "late = [1]"
    using wallet_reorg_marks [OF ok(1), of 0 99] ok(2) unfolding f by blast
  then show ?thesis by simp
qed

section \<open>Removal\<close>

lemma remove_last_eq:
  assumes "distinct xs"
  shows "remove_last h (length xs) xs = filter (\<lambda>x. x \<noteq> h) xs"
proof -
  have "n \<le> length xs \<Longrightarrow> h \<notin> set (drop n xs) \<Longrightarrow> remove_last h n xs = filter (\<lambda>x. x \<noteq> h) xs" for n
  proof (induction n)
    case 0
    then have "filter (\<lambda>x. x \<noteq> h) xs = xs" by (auto simp: filter_id_conv)
    then show ?case by simp
  next
    case (Suc n)
    then have n: "n < length xs" by simp
    show ?case
    proof (cases "xs ! n = h")
      case True
      have xs: "xs = take n xs @ xs ! n # drop (Suc n) xs" by (rule id_take_nth_drop [OF n])
      have "h \<notin> set (take n xs)" using assms True by (subst (asm) xs) auto
      then have "filter (\<lambda>x. x \<noteq> h) (take n xs) = take n xs" "filter (\<lambda>x. x \<noteq> h) (drop (Suc n) xs) = drop (Suc n) xs"
        using Suc.prems(2) by (auto simp: filter_id_conv)
      then have "filter (\<lambda>x. x \<noteq> h) xs = take n xs @ drop (Suc n) xs" using True by (subst xs) simp
      then show ?thesis using True by simp
    next
      case False
      then have "h \<notin> set (drop n xs)" using Suc.prems(2) by (simp add: Cons_nth_drop_Suc [OF n, symmetric])
      then show ?thesis using Suc False n by simp
    qed
  qed
  then show ?thesis by simp
qed

text \<open>An older transaction stands in the list behind \<open>x\<close>, or is \<open>x\<close>.\<close>

definition older_behind :: "tx_store \<Rightarrow> u32 \<Rightarrow> uint256 list \<Rightarrow> uint256 \<Rightarrow> bool" where
  "older_behind all height xs x \<longleftrightarrow> (\<exists>as y bs u. xs = as @ y # bs \<and> x \<in> set (as @ [y]) \<and> all y = Some u \<and> tx_blockHeight u < height)"

lemma older_behind_snoc: "older_behind all height xs x \<Longrightarrow> older_behind all height (xs @ [h]) x"
  unfolding older_behind_def by fastforce

lemma older_behind_filter:
  assumes "older_behind all height xs x" "P x" "\<And>y u. y \<in> set xs \<Longrightarrow> all y = Some u \<Longrightarrow> tx_blockHeight u < height \<Longrightarrow> P y"
    and "\<And>y. y \<in> set xs \<Longrightarrow> P y \<Longrightarrow> all' y = all y"
  shows "older_behind all' height (filter P xs) x"
proof -
  obtain as y bs u where "xs = as @ y # bs" "x \<in> set (as @ [y])" "all y = Some u" "tx_blockHeight u < height"
    using assms(1) by (auto simp: older_behind_def)
  moreover from this have "P y" "all' y = all y" using assms(3,4) by auto
  ultimately show ?thesis
    using assms(2) unfolding older_behind_def
    by (intro exI [of _ "filter P as"] exI [of _ y] exI [of _ "filter P bs"] exI [of _ u]) auto
qed

lemma older_behind_cong:
  assumes "older_behind all height xs x" "\<And>y. y \<in> set xs \<Longrightarrow> all' y = all y"
  shows "older_behind all' height xs x"
  using older_behind_filter [of all height xs x "\<lambda>_. True" all'] assms by simp

lemma older_behind_in_order:
  assumes "older_behind (wal_allTx w) height (wal_transactions w) x" "in_order w" "wal_allTx w x = Some t"
  shows "tx_blockHeight t < height"
proof -
  obtain as y bs u where l: "wal_transactions w = as @ y # bs" "x \<in> set (as @ [y])" "wal_allTx w y = Some u" "tx_blockHeight u < height"
    using assms(1) by (auto simp: older_behind_def)
  then have "height_of (wal_allTx w) x \<le> height_of (wal_allTx w) y"
    using assms(2) by (auto simp: in_order_def sorted_append)
  then show ?thesis using l assms(3) by (simp add: height_of_def)
qed

text \<open>What spends a transaction, directly or through others.\<close>

definition descends :: "tx_store \<Rightarrow> uint256 \<Rightarrow> uint256 \<Rightarrow> bool" where
  "descends all h x \<longleftrightarrow> (h, x) \<in> {(a, b). \<exists>t. all b = Some t \<and> a \<in> in_txHash ` set (tx_inputs t)}\<^sup>*"

lemma descends_refl [simp]: "descends all h h"
  by (simp add: descends_def)

lemma descends_step: "all d = Some t \<Longrightarrow> h \<in> in_txHash ` set (tx_inputs t) \<Longrightarrow> descends all d x \<Longrightarrow> descends all h x"
  unfolding descends_def by (rule converse_rtrancl_into_rtrancl) auto

lemma descends_mono:
  assumes "descends all' h x" "\<And>y t. all' y = Some t \<Longrightarrow> all y = Some t"
  shows "descends all h x"
proof -
  have "{(a, b). \<exists>t. all' b = Some t \<and> a \<in> in_txHash ` set (tx_inputs t)} \<subseteq>
      {(a, b). \<exists>t. all b = Some t \<and> a \<in> in_txHash ` set (tx_inputs t)}" using assms(2) by fast
  then show ?thesis using assms(1) rtrancl_mono unfolding descends_def by blast
qed

lemma dependents_spec:
  assumes "\<forall>h \<in> set hs. all h \<noteq> None" "\<forall>h t. all h = Some t \<longrightarrow> tx_hash t = h" "tx_hash tx = txHash"
  shows "\<exists>ds. dependent_txs all tx txHash hs = Some ds \<and>
    set ds \<subseteq> {h \<in> set hs. \<exists>t. all h = Some t \<and> txHash \<in> in_txHash ` set (tx_inputs t)} \<and>
    (ds = [] \<longrightarrow> (\<forall>h \<in> set hs. \<forall>t. all h = Some t \<and> h \<noteq> txHash \<and> txHash \<in> in_txHash ` set (tx_inputs t) \<longrightarrow>
      older_behind all (tx_blockHeight tx) (rev hs) h))"
  using assms(1)
proof (induction hs)
  case Nil
  then show ?case by simp
next
  case (Cons h hs)
  then obtain t where t: "all h = Some t" by auto
  have hash: "tx_hash t = h" using assms(2) t by blast
  obtain ds where ds: "dependent_txs all tx txHash hs = Some ds"
    "set ds \<subseteq> {h \<in> set hs. \<exists>t. all h = Some t \<and> txHash \<in> in_txHash ` set (tx_inputs t)}"
    "ds = [] \<longrightarrow> (\<forall>h \<in> set hs. \<forall>t. all h = Some t \<and> h \<noteq> txHash \<and> txHash \<in> in_txHash ` set (tx_inputs t) \<longrightarrow>
      older_behind all (tx_blockHeight tx) (rev hs) h)"
    using Cons by auto
  consider "tx_blockHeight t < tx_blockHeight tx" | "\<not> tx_blockHeight t < tx_blockHeight tx" "h = txHash"
    | "\<not> tx_blockHeight t < tx_blockHeight tx" "h \<noteq> txHash" "txHash \<in> in_txHash ` set (tx_inputs t)"
    | "\<not> tx_blockHeight t < tx_blockHeight tx" "h \<noteq> txHash" "txHash \<notin> in_txHash ` set (tx_inputs t)" by blast
  then show ?case
  proof cases
    case 1
    have "older_behind all (tx_blockHeight tx) (rev (h # hs)) k" if "k \<in> set (h # hs)" for k
      using that 1 t unfolding older_behind_def
      by (intro exI [of _ "rev hs"] exI [of _ h] exI [of _ "[]"] exI [of _ t]) auto
    then show ?thesis using 1 t by auto
  next
    case 2
    then show ?thesis using ds t hash assms(3) by (auto simp: BRTransactionEq_def intro: older_behind_snoc)
  next
    case 3
    then have "list_ex (\<lambda>i. UInt256Eq (in_txHash i) txHash) (tx_inputs t)" by (auto simp: list_ex_iff)
    then show ?thesis using 3 ds t hash assms(3) by (auto simp: BRTransactionEq_def intro: older_behind_snoc)
  next
    case 4
    then have "\<not> list_ex (\<lambda>i. UInt256Eq (in_txHash i) txHash) (tx_inputs t)" by (auto simp: list_ex_iff)
    then show ?thesis using 4 ds t hash assms(3) by (auto simp: BRTransactionEq_def intro: older_behind_snoc)
  qed
qed

lemma valid_returns:
  assumes "acyclic_txs (wal_allTx w)"
  shows "\<exists>b. BRWalletTransactionIsValid w tx = Some b"
  using assms
proof (induction tx rule: ancestor_induct)
  case (tx t)
  have "\<exists>b. any_run (\<lambda>i. case wal_allTx w (in_txHash i) of None \<Rightarrow> Some False
      | Some t \<Rightarrow> map_option Not (BRWalletTransactionIsValid w t)) (tx_inputs t) = Some b"
  proof (rule any_run_returns)
    fix i assume "i \<in> set (tx_inputs t)"
    then show "\<exists>b. (case wal_allTx w (in_txHash i) of None \<Rightarrow> Some False
        | Some t \<Rightarrow> map_option Not (BRWalletTransactionIsValid w t)) = Some b"
      using tx.IH [of i] by (cases "wal_allTx w (in_txHash i)") auto
  qed
  then show ?case by (subst BRWalletTransactionIsValid.simps) auto
qed

text \<open>\<open>w'\<close> is \<open>w\<close> without some transactions, which are those the events report.\<close>

definition shrinks :: "BRWallet \<Rightarrow> BRWallet \<Rightarrow> wallet_event list \<Rightarrow> bool" where
  "shrinks w w' ev \<longleftrightarrow> wallet_ok w' \<and> (\<forall>x. wal_allTx w' x = wal_allTx w x \<or> wal_allTx w' x = None) \<and>
     wal_transactions w' = filter (\<lambda>x. wal_allTx w' x \<noteq> None) (wal_transactions w) \<and> wal_allAddrs w' = wal_allAddrs w \<and>
     (w' = w \<or> balanced w') \<and>
     (\<forall>x. (\<exists>n r. TxDeleted x n r \<in> set ev) \<longleftrightarrow> wal_allTx w x \<noteq> None \<and> wal_allTx w' x = None)"

lemma shrinks_refl: "wallet_ok w \<Longrightarrow> shrinks w w []"
proof -
  assume ok: "wallet_ok w"
  have "filter (\<lambda>x. wal_allTx w x \<noteq> None) (wal_transactions w) = wal_transactions w"
    using wallet_okD(1) [OF ok] by (auto simp: filter_id_conv)
  then show ?thesis using ok by (simp add: shrinks_def del: not_None_eq)
qed

lemma shrinks_trans:
  assumes "shrinks w w1 ev1" "shrinks w1 w2 ev2"
  shows "shrinks w w2 (ev1 @ ev2)"
proof -
  have "wal_allTx w2 x \<noteq> None \<Longrightarrow> wal_allTx w1 x \<noteq> None" for x using assms(2) by (metis shrinks_def)
  then have "filter (\<lambda>x. wal_allTx w2 x \<noteq> None) (filter (\<lambda>x. wal_allTx w1 x \<noteq> None) (wal_transactions w)) =
      filter (\<lambda>x. wal_allTx w2 x \<noteq> None) (wal_transactions w)"
    by (auto simp: filter_filter intro: filter_cong)
  moreover have "wal_allTx w2 x = wal_allTx w x \<or> wal_allTx w2 x = None" for x using assms by (metis shrinks_def)
  moreover have "(\<exists>n r. TxDeleted x n r \<in> set (ev1 @ ev2)) \<longleftrightarrow> wal_allTx w x \<noteq> None \<and> wal_allTx w2 x = None" for x
  proof -
    have "(\<exists>n r. TxDeleted x n r \<in> set (ev1 @ ev2)) \<longleftrightarrow> (\<exists>n r. TxDeleted x n r \<in> set ev1) \<or> (\<exists>n r. TxDeleted x n r \<in> set ev2)"
      by auto
    then show ?thesis using assms unfolding shrinks_def by metis
  qed
  ultimately show ?thesis using assms unfolding shrinks_def by auto
qed

lemma shrinks_keeps:
  assumes "shrinks w w' ev"
  shows "acyclic_txs (wal_allTx w) \<Longrightarrow> acyclic_txs (wal_allTx w')" "ranked rank (wal_allTx w) \<Longrightarrow> ranked rank (wal_allTx w')"
    "in_order w \<Longrightarrow> in_order w'" "set (wal_transactions w') \<subseteq> set (wal_transactions w)"
    "length (wal_transactions w') \<le> length (wal_transactions w)"
proof -
  have sub: "wal_allTx w' x = Some t \<Longrightarrow> wal_allTx w x = Some t" for x t using assms by (metis option.distinct(1) shrinks_def)
  have list: "wal_transactions w' = filter (\<lambda>x. wal_allTx w' x \<noteq> None) (wal_transactions w)" using assms by (simp add: shrinks_def)
  show r: "ranked rank (wal_allTx w) \<Longrightarrow> ranked rank (wal_allTx w')" for rank
    using sub unfolding ranked_def by (metis not_None_eq)
  show "acyclic_txs (wal_allTx w) \<Longrightarrow> acyclic_txs (wal_allTx w')" using r by (auto simp: acyclic_txs_def)
  show "set (wal_transactions w') \<subseteq> set (wal_transactions w)" "length (wal_transactions w') \<le> length (wal_transactions w)"
    by (auto simp: list)
  assume "in_order w"
  then have "sorted (map (height_of (wal_allTx w)) (wal_transactions w'))"
    unfolding in_order_def list by (rule sorted_filter)
  moreover have "map (height_of (wal_allTx w)) (wal_transactions w') = map (height_of (wal_allTx w')) (wal_transactions w')"
    using sub by (auto simp: list height_of_def split: option.splits)
  ultimately show "in_order w'" by (simp only: in_order_def)
qed

lemma remove_leaf_spec:
  assumes "wallet_ok w" "acyclic_txs (wal_allTx w)" "wal_allTx w h = Some tx"
  shows "\<exists>w' ev. remove_leaf now w tx h = Some (w', ev) \<and> shrinks w w' ev \<and> wal_allTx w' = (wal_allTx w)(h := None)"
proof -
  let ?xs = "filter (\<lambda>x. x \<noteq> h) (wal_transactions w)"
  let ?w = "w\<lparr>wal_allTx := (wal_allTx w)(h := None), wal_transactions := ?xs\<rparr>"
  have ok: "wallet_ok ?w" using assms(1) by (auto simp: wallet_ok_def dom_def)
  obtain w' where u: "BRWalletUpdateBalance now ?w = Some w'" "wal_allTx w' = wal_allTx ?w"
    "wal_transactions w' = wal_transactions ?w" "wal_internalChain w' = wal_internalChain ?w"
    "wal_externalChain w' = wal_externalChain ?w" "wal_allAddrs w' = wal_allAddrs ?w"
    "wal_blockHeight w' = wal_blockHeight ?w" "wal_usedAddrs w' \<subseteq> output_addrs (wal_allTx ?w)" "balanced w'"
    by (rule update_balance_facts [OF ok, of now])
  obtain rank where "ranked rank (wal_allTx w)" using assms(2) by (auto simp: acyclic_txs_def)
  then have "ranked rank (wal_allTx w')" by (auto simp: u(2) ranked_def)
  then have "acyclic_txs (wal_allTx w')" by (auto simp: acyclic_txs_def)
  then obtain b where b: "BRWalletTransactionIsValid w' tx = Some b" using valid_returns by blast
  have list: "remove_last h (length (wal_transactions w)) (wal_transactions w) = ?xs"
    by (rule remove_last_eq [OF wallet_okD(2) [OF assms(1)]])
  obtain n r where run: "remove_leaf now w tx h = Some (w', [BalanceChanged (wal_balance w'), TxDeleted h n r])"
    by (cases "0 < BRWalletAmountSentByTx w' tx") (simp_all add: remove_leaf_def list u(1) b)
  have "shrinks w w' [BalanceChanged (wal_balance w'), TxDeleted h n r]"
    using wallet_okD(1) [OF assms(1)] ok u assms(3)
    by (auto simp: shrinks_def wallet_ok_def intro!: filter_cong)
  then show ?thesis using run u(2) by auto
qed

definition removal :: "(uint256 \<Rightarrow> nat) \<Rightarrow> BRWallet \<Rightarrow> uint256 \<Rightarrow> BRWallet \<Rightarrow> wallet_event list \<Rightarrow> bool" where
  "removal rank w h w' ev \<longleftrightarrow> shrinks w w' ev \<and> wal_allTx w' h = None \<and>
     (\<forall>x. wal_allTx w x \<noteq> None \<and> wal_allTx w' x = None \<longrightarrow> rank h \<le> rank x \<and> descends (wal_allTx w) h x) \<and>
     (\<forall>tx. wal_allTx w h = Some tx \<longrightarrow> (\<forall>x \<in> set (wal_transactions w'). \<forall>t. wal_allTx w x = Some t \<and>
       h \<in> in_txHash ` set (tx_inputs t) \<longrightarrow> older_behind (wal_allTx w) (tx_blockHeight tx) (wal_transactions w') x))"

lemma remove_spec:
  assumes "wallet_ok w" "ranked rank (wal_allTx w)"
  shows "\<exists>w' ev. BRWalletRemoveTransaction now w h = Some (w', ev) \<and> removal rank w h w' ev"
  using assms
proof (induction "(w, h)" arbitrary: w h rule: wf_induct_rule [OF wf_measures [of "[\<lambda>(w, h). length (wal_transactions w),
    \<lambda>(w, h). card {x \<in> set (wal_transactions w). rank h < rank x}]"]])
  case (1 w h)
  let ?xs = "wal_transactions w"
  have IH: "\<exists>w2 ev. BRWalletRemoveTransaction now w1 d = Some (w2, ev) \<and> removal rank w1 d w2 ev"
    if "length (wal_transactions w1) < length ?xs \<or> length (wal_transactions w1) = length ?xs \<and>
      card {x \<in> set (wal_transactions w1). rank d < rank x} < card {x \<in> set ?xs. rank h < rank x}"
      "wallet_ok w1" "ranked rank (wal_allTx w1)" for w1 d
    using 1(1) [of w1 d] that by auto
  show ?case
  proof (cases "wal_allTx w h")
    case None
    then show ?thesis
      using shrinks_refl [OF 1(2)] by (subst BRWalletRemoveTransaction.simps) (auto simp: removal_def)
  next
    case (Some tx)
    have known: "\<forall>h \<in> set (rev ?xs). wal_allTx w h \<noteq> None" using wallet_okD(1) [OF 1(2)] by auto
    have hash: "\<forall>x t. wal_allTx w x = Some t \<longrightarrow> tx_hash t = x" using wallet_okD(3) [OF 1(2)] by blast
    obtain ds where ds: "dependent_txs (wal_allTx w) tx h (rev ?xs) = Some ds"
      "set ds \<subseteq> {x \<in> set (rev ?xs). \<exists>t. wal_allTx w x = Some t \<and> h \<in> in_txHash ` set (tx_inputs t)}"
      "ds = [] \<longrightarrow> (\<forall>x \<in> set (rev ?xs). \<forall>t. wal_allTx w x = Some t \<and> x \<noteq> h \<and> h \<in> in_txHash ` set (tx_inputs t) \<longrightarrow>
        older_behind (wal_allTx w) (tx_blockHeight tx) (rev (rev ?xs)) x)"
      using dependents_spec [OF known hash wallet_okD(3) [OF 1(2) Some]] by (elim exE conjE) (rule that)
    show ?thesis
    proof (cases "ds = []")
      case True
      have "acyclic_txs (wal_allTx w)" using 1(3) by (auto simp: acyclic_txs_def)
      then obtain w' ev where leaf: "remove_leaf now w tx h = Some (w', ev)" "shrinks w w' ev" "wal_allTx w' = (wal_allTx w)(h := None)"
        using remove_leaf_spec [OF 1(2) _ Some] by blast
      have list: "wal_transactions w' = filter (\<lambda>x. wal_allTx w' x \<noteq> None) ?xs" using leaf(2) by (simp add: shrinks_def)
      have old: "older_behind (wal_allTx w) (tx_blockHeight tx) (wal_transactions w') x"
        if x: "x \<in> set (wal_transactions w')" "wal_allTx w x = Some t" "h \<in> in_txHash ` set (tx_inputs t)" for x t
      proof -
        have "x \<in> set ?xs" "x \<noteq> h" using x(1) leaf(3) by (auto simp: list)
        then have "older_behind (wal_allTx w) (tx_blockHeight tx) ?xs x" using ds(3) True x(2,3) by simp
        then show ?thesis
          unfolding list by (rule older_behind_filter) (use x(1) leaf(3) Some in \<open>auto simp: list\<close>)
      qed
      have "removal rank w h w' ev"
        using leaf old Some by (auto simp: removal_def)
      moreover have "BRWalletRemoveTransaction now w h = Some (w', ev)"
        using True by (subst BRWalletRemoveTransaction.simps) (simp add: Some ds(1) leaf(1))
      ultimately show ?thesis by blast
    next
      case False
      let ?f = "\<lambda>h s. do { (w', ev') \<leftarrow> BRWalletRemoveTransaction now (fst s) h; Some (w', snd s @ ev') }"
      define I where "I ys s \<longleftrightarrow> shrinks w (fst s) (snd s) \<and> (\<forall>d \<in> set ys. wal_allTx (fst s) d = None) \<and>
        (\<forall>x. wal_allTx w x \<noteq> None \<and> wal_allTx (fst s) x = None \<longrightarrow> rank h < rank x \<and> descends (wal_allTx w) h x)" for ys :: "uint256 list" and s
      have d: "d \<in> set ?xs \<and> rank h < rank d" if mem: "d \<in> set ds" for d
      proof -
        obtain t i where "d \<in> set ?xs" "wal_allTx w d = Some t" "i \<in> set (tx_inputs t)" "in_txHash i = h"
          using ds(2) mem by fastforce
        then show ?thesis using 1(3) Some unfolding ranked_def by (metis option.distinct(1))
      qed
      have step: "\<exists>s'. ?f d s = Some s' \<and> I (ys @ [d]) s'" if split: "rev ds = ys @ d # zs" "I ys s" for ys d zs s
      proof -
        have "d \<in> set (rev ds)" using split(1) by simp
        then have d: "d \<in> set ?xs" "rank h < rank d" using d by simp_all
        obtain td where td: "wal_allTx w d = Some td" "h \<in> in_txHash ` set (tx_inputs td)" using ds(2) \<open>d \<in> set (rev ds)\<close> by auto
        let ?w1 = "fst s"
        have sh: "shrinks w ?w1 (snd s)" and gone: "\<forall>d \<in> set ys. wal_allTx ?w1 d = None"
          and high: "\<forall>x. wal_allTx w x \<noteq> None \<and> wal_allTx ?w1 x = None \<longrightarrow> rank h < rank x \<and> descends (wal_allTx w) h x"
          using split(2) by (simp_all add: I_def)
        have sub1: "wal_allTx w y = Some t" if "wal_allTx ?w1 y = Some t" for y t using that sh by (metis option.distinct(1) shrinks_def)
        have down: "descends (wal_allTx w) h x" if "descends (wal_allTx ?w1) d x" for x
          by (rule descends_step [of "wal_allTx w" d td]) (use td that sub1 in \<open>auto intro: descends_mono\<close>)
        note keep = shrinks_keeps [OF sh]
        have "{x \<in> set (wal_transactions ?w1). rank d < rank x} \<subset> {x \<in> set ?xs. rank h < rank x}"
          using d keep(4) by auto
        then have "card {x \<in> set (wal_transactions ?w1). rank d < rank x} < card {x \<in> set ?xs. rank h < rank x}"
          by (intro psubset_card_mono) simp_all
        then obtain w2 ev2 where rm: "BRWalletRemoveTransaction now ?w1 d = Some (w2, ev2)" "removal rank ?w1 d w2 ev2"
          using IH [of ?w1 d] keep(2) [OF 1(3)] keep(5) sh by (fastforce simp: shrinks_def le_less)
        then have sh2: "shrinks ?w1 w2 ev2" "wal_allTx w2 d = None"
          "\<forall>x. wal_allTx ?w1 x \<noteq> None \<and> wal_allTx w2 x = None \<longrightarrow> rank d \<le> rank x \<and> descends (wal_allTx ?w1) d x"
          by (simp_all add: removal_def)
        have "wal_allTx ?w1 x = None \<Longrightarrow> wal_allTx w2 x = None" for x using sh2(1) by (metis shrinks_def)
        moreover have "\<forall>x. wal_allTx w x \<noteq> None \<and> wal_allTx w2 x = None \<longrightarrow> rank h < rank x \<and> descends (wal_allTx w) h x"
          using high sh2(3) d(2) down by (meson less_le_trans)
        ultimately have "I (ys @ [d]) (w2, snd s @ ev2)"
          using shrinks_trans [OF sh sh2(1)] gone sh2(2) unfolding I_def by auto
        then show ?thesis using rm(1) by auto
      qed
      have "\<exists>s'. fold_run ?f (rev ds) (w, []) = Some s' \<and> I (rev ds) s'"
        by (rule fold_run_invariant [of "rev ds" I, OF step]) (auto simp: I_def shrinks_refl [OF 1(2)])
      then obtain w1 ev1 where w1: "fold_run ?f (rev ds) (w, []) = Some (w1, ev1)" "I (rev ds) (w1, ev1)" by auto
      have sh: "shrinks w w1 ev1"
        and high: "\<forall>x. wal_allTx w x \<noteq> None \<and> wal_allTx w1 x = None \<longrightarrow> rank h < rank x \<and> descends (wal_allTx w) h x"
        using w1(2) by (simp_all add: I_def)
      note keep = shrinks_keeps [OF sh]
      have still: "wal_allTx w1 h = Some tx" using high sh Some by (metis less_irrefl option.distinct(1) shrinks_def)
      obtain d where "d \<in> set ds" "wal_allTx w1 d = None" "d \<in> set ?xs" using False w1(2) d by (cases ds) (auto simp: I_def)
      then have "length (wal_transactions w1) < length ?xs"
        using sh by (auto simp: shrinks_def length_filter_less)
      then obtain w2 ev2 where rm: "BRWalletRemoveTransaction now w1 h = Some (w2, ev2)" "removal rank w1 h w2 ev2"
        using IH [of w1 h] keep(2) [OF 1(3)] sh by (auto simp: shrinks_def)
      then have sh2: "shrinks w1 w2 ev2" by (simp add: removal_def)
      have "BRWalletRemoveTransaction now w h = Some (w2, ev1 @ ev2)"
        using False by (subst BRWalletRemoveTransaction.simps) (simp add: Some ds(1) fold_run_append w1(1) rm(1))
      moreover have "removal rank w h w2 (ev1 @ ev2)"
      proof -
        have in_w1: "wal_allTx w1 x = wal_allTx w x" if "x \<in> set (wal_transactions w2)" for x
        proof -
          have "wal_allTx w2 x \<noteq> None" using that sh2 by (simp add: shrinks_def)
          then have "wal_allTx w1 x \<noteq> None" using sh2 by (metis shrinks_def)
          then show ?thesis using sh by (metis shrinks_def)
        qed
        have sub: "wal_allTx w y = Some t" if "wal_allTx w1 y = Some t" for y t using that sh by (metis option.distinct(1) shrinks_def)
        have "rank h \<le> rank x \<and> descends (wal_allTx w) h x" if x: "wal_allTx w x \<noteq> None" "wal_allTx w2 x = None" for x
        proof (cases "wal_allTx w1 x")
          case None
          then show ?thesis using high x(1) less_imp_le by blast
        next
          case (Some t)
          then have "rank h \<le> rank x" "descends (wal_allTx w1) h x" using rm(2) x(2) by (auto simp: removal_def)
          then show ?thesis using descends_mono sub by blast
        qed
        moreover have "older_behind (wal_allTx w) (tx_blockHeight tx) (wal_transactions w2) x"
          if x: "x \<in> set (wal_transactions w2)" "wal_allTx w x = Some t" "h \<in> in_txHash ` set (tx_inputs t)" for x t
        proof -
          have "older_behind (wal_allTx w1) (tx_blockHeight tx) (wal_transactions w2) x"
            using rm(2) x still in_w1 unfolding removal_def by metis
          then show ?thesis using sub unfolding older_behind_def by blast
        qed
        ultimately show ?thesis
          using shrinks_trans [OF sh sh2] rm(2) Some unfolding removal_def by simp blast
      qed
      ultimately show ?thesis by blast
    qed
  qed
qed



end
