(* ===== verification/WalletSpend.thy ===== *)
theory WalletSpend
  imports WalletSpec
begin

text \<open>
  The transactions a wallet creates: the choice of unspent outputs, the fee, the change output and the
  amounts that can be sent.
\<close>

section \<open>Creating transactions\<close>

definition script_ok :: "BRTxOutput \<Rightarrow> bool" where
  "script_ok p \<longleftrightarrow> (\<exists>s. out_script p = Some s \<and> out_scriptLen p = length s)"

text \<open>The output that pays \<open>p\<close> and the input that spends the unspent output \<open>u\<close>.\<close>

definition paying_output :: "bool \<Rightarrow> BRTxOutput \<Rightarrow> BRTxOutput" where
  "paying_output testnet p = p\<lparr>out_address := pubkey_address testnet (the (out_script p))\<rparr>"

definition spending_input :: "bool \<Rightarrow> tx_store \<Rightarrow> BRUTXO \<Rightarrow> BRTxInput" where
  "spending_input testnet all u = (let s = the (out_script (the (utxo_output all u))) in
     tx_input_zero\<lparr>in_txHash := utxo_hash u, in_index := utxo_n u, in_amount := utxo_amount all u, in_script := Some s,
       in_scriptLen := length s, in_address := pubkey_address testnet s, in_sequence := TXIN_SEQUENCE\<rparr>)"

lemma add_output_eq:
  assumes "script_ok p"
  shows "output_script_arg p \<bind> BRTransactionAddOutput testnet tx (out_amount p) =
    Some (tx\<lparr>tx_outputs := tx_outputs tx @ [paying_output testnet p]\<rparr>)"
proof -
  obtain s where s: "out_script p = Some s" "out_scriptLen p = length s" using assms by (auto simp: script_ok_def)
  have "BRTxOutputSetScript testnet (BR_TX_OUTPUT_NONE\<lparr>out_amount := out_amount p\<rparr>) (Some s) = Some (paying_output testnet p)"
    unfolding set_output_eq by (cases p) (use s in \<open>simp add: paying_output_def BR_TX_OUTPUT_NONE_def\<close>)
  then show ?thesis by (simp add: output_script_arg_def s slice_def BRTransactionAddOutput_def)
qed

lemma add_recipients_eq:
  assumes "\<forall>p \<in> set ps. script_ok p"
  shows "fold_run (add_recipient testnet) ps (tx, amount) =
    Some (tx\<lparr>tx_outputs := tx_outputs tx @ map (paying_output testnet) ps\<rparr>, amount + sum_list (map out_amount ps))"
  using assms
proof (induction ps arbitrary: tx amount)
  case Nil
  then show ?case by simp
next
  case (Cons p ps)
  have "add_recipient testnet p (tx, amount) =
      map_option (\<lambda>tx. (tx, amount + out_amount p)) (output_script_arg p \<bind> BRTransactionAddOutput testnet tx (out_amount p))"
    by (cases "output_script_arg p") (simp_all add: add_recipient_def map_conv_bind_option comp_def)
  then have "add_recipient testnet p (tx, amount) =
      Some (tx\<lparr>tx_outputs := tx_outputs tx @ [paying_output testnet p]\<rparr>, amount + out_amount p)"
    using Cons.prems by (simp add: add_output_eq)
  then show ?case using Cons by (simp add: add.assoc)
qed

lemma add_input_eq:
  assumes "utxo_output all u = Some p" "script_ok p"
  shows "output_script_arg p \<bind> (\<lambda>s. BRTransactionAddInput testnet tx (utxo_hash u) (utxo_n u) (out_amount p) s None TXIN_SEQUENCE) =
    Some (tx\<lparr>tx_inputs := tx_inputs tx @ [spending_input testnet all u]\<rparr>)"
proof -
  obtain s where s: "out_script p = Some s" "out_scriptLen p = length s" using assms(2) by (auto simp: script_ok_def)
  show ?thesis
    by (simp add: output_script_arg_def s slice_def BRTransactionAddInput_def set_script_eq spending_input_def Let_def
      assms(1) utxo_amount_def tx_input_zero_def)
qed

text \<open>The size of a transaction with \<open>n\<close> unsigned inputs.\<close>

definition unsigned_size :: "nat \<Rightarrow> BRTxOutput list \<Rightarrow> nat" where
  "unsigned_size n outs = 8 + BRVarIntSize (of_nat n) + BRVarIntSize (of_nat (length outs)) + TX_INPUT_SIZE * n +
     sum_list (map tx_output_size outs)"

lemma foldl_plus: "foldl (\<lambda>n x. n + f x) (a :: nat) xs = a + sum_list (map f xs)"
  by (induction xs arbitrary: a) simp_all

lemma size_unsigned:
  assumes "\<forall>i \<in> set (tx_inputs tx). in_signature i = None"
  shows "BRTransactionSize tx = unsigned_size (length (tx_inputs tx)) (tx_outputs tx)"
proof -
  have "map tx_input_size (tx_inputs tx) = map (\<lambda>_. TX_INPUT_SIZE) (tx_inputs tx)"
    using assms by (intro map_cong) (simp_all add: tx_input_size_def)
  then have "sum_list (map tx_input_size (tx_inputs tx)) = TX_INPUT_SIZE * length (tx_inputs tx)"
    by (simp only: sum_list_triv map_replicate_const [symmetric]) (simp add: sum_list_replicate)
  then show ?thesis by (simp add: BRTransactionSize_def Let_def foldl_plus unsigned_size_def)
qed

lemma varint_size_le: "BRVarIntSize v \<le> 9"
  by (simp add: varint_size_eq varint_length)

lemma unsigned_size_bound:
  "n \<le> 600 \<Longrightarrow> sum_list (map tx_output_size outs) \<le> 10000 \<Longrightarrow> unsigned_size n outs + TX_OUTPUT_SIZE \<le> TX_MAX_SIZE"
  using varint_size_le [of "of_nat n"] varint_size_le [of "of_nat (length outs)"] by (simp add: unsigned_size_def)

lemma fee_bound:
  assumes "sz \<le> 2 ^ 20" "unat feePerKb \<le> 2 ^ 40"
  shows "unat (txFee feePerKb sz) < 2 ^ 52"
proof -
  have "sz * unat feePerKb \<le> 2 ^ 20 * 2 ^ 40" by (rule mult_le_mono [OF assms])
  then have "(sz * unat feePerKb div 1000 + 99) div 100 * 100 < 2 ^ 52" "(sz + 999) div 1000 * 1000 < 2 ^ 52"
    using assms(1) by simp_all
  then show ?thesis unfolding fee_eq [OF assms] by simp
qed

text \<open>The choice of coins: a prefix of the unspent outputs is added, the fee covers the transaction with a
  change output, and the choice ends early only when the change is nothing or worth an output.\<close>

lemma select_coins_spec:
  assumes us: "\<forall>u \<in> set us. \<exists>p. utxo_output (wal_allTx w) u = Some p \<and> script_ok p"
    and tx: "\<forall>i \<in> set (tx_inputs tx). in_signature i = None"
    and n: "length (tx_inputs tx) + length us \<le> 600" "sum_list (map tx_output_size (tx_outputs tx)) \<le> 10000"
    and fee: "txFee (wal_feePerKb w) (BRTransactionSize tx + TX_OUTPUT_SIZE) \<le> fee"
      "unat fee < unat (txFee (wal_feePerKb w) (BRTransactionSize tx + TX_OUTPUT_SIZE)) + 100"
    and rate: "unat (wal_feePerKb w) \<le> 2 ^ 40"
  shows "\<exists>k tx' balance' fee'. select_coins testnet w amount minAmount us tx balance fee = Some (Chosen tx' balance' fee') \<and>
    k \<le> length us \<and> tx' = tx\<lparr>tx_inputs := tx_inputs tx @ map (spending_input testnet (wal_allTx w)) (take k us)\<rparr> \<and>
    balance' = balance + sum_list (map (utxo_amount (wal_allTx w)) (take k us)) \<and>
    txFee (wal_feePerKb w) (BRTransactionSize tx' + TX_OUTPUT_SIZE) \<le> fee' \<and>
    unat fee' < unat (txFee (wal_feePerKb w) (BRTransactionSize tx' + TX_OUTPUT_SIZE)) + 100 \<and>
    (k = length us \<or> balance' = amount + fee' \<or> balance' \<ge> amount + fee' + minAmount)"
  using us tx n fee
proof (induction us arbitrary: tx balance fee)
  case Nil
  then show ?case by simp
next
  case (Cons u us)
  let ?all = "wal_allTx w" and ?r = "wal_feePerKb w"
  obtain p where p: "utxo_output ?all u = Some p" "script_ok p" using Cons.prems(1) by auto
  let ?tx = "tx\<lparr>tx_inputs := tx_inputs tx @ [spending_input testnet ?all u]\<rparr>"
  have unsigned: "\<forall>i \<in> set (tx_inputs ?tx). in_signature i = None"
    using Cons.prems(2) by (auto simp: spending_input_def tx_input_zero_def Let_def)
  have size: "BRTransactionSize ?tx + TX_OUTPUT_SIZE \<le> TX_MAX_SIZE"
    unfolding size_unsigned [OF unsigned] using Cons.prems(3,4) by (intro unsigned_size_bound) simp_all
  let ?base = "txFee ?r (BRTransactionSize ?tx + TX_OUTPUT_SIZE)" and ?balance = "balance + utxo_amount ?all u"
  have small: "unat ?base < 2 ^ 52" using size rate by (intro fee_bound) simp_all
  define fee1 where "fee1 = (if wal_balance w > amount + ?base then ?base + (wal_balance w - (amount + ?base)) mod 100 else ?base)"
  have "unat ((wal_balance w - (amount + ?base)) mod 100) < 100" by (simp add: unat_mod)
  then have fee1: "?base \<le> fee1" "unat fee1 < unat ?base + 100"
    using small unfolding fee1_def by (auto simp: word_le_nat_alt unat_add_small)
  obtain s where s: "output_script_arg p = Some s"
    "BRTransactionAddInput testnet tx (utxo_hash u) (utxo_n u) (out_amount p) s None TXIN_SEQUENCE = Some ?tx"
    using add_input_eq [OF p, of testnet tx] by (auto simp: bind_eq_Some_conv)
  have amt: "out_amount p = utxo_amount ?all u" by (simp add: utxo_amount_def p(1))
  have step: "select_coins testnet w amount minAmount (u # us) tx balance fee =
      (if ?balance = amount + fee1 \<or> ?balance \<ge> amount + fee1 + minAmount then Some (Chosen ?tx ?balance fee1)
       else select_coins testnet w amount minAmount us ?tx ?balance fee1)"
    using size unfolding select_coins.simps p(1) option.case s bind.bind_lunit Let_def fee1_def [symmetric] amt [symmetric]
    by (simp add: amt)
  show ?case
  proof (cases "?balance = amount + fee1 \<or> ?balance \<ge> amount + fee1 + minAmount")
    case True
    then show ?thesis
      unfolding step using fee1 by (intro exI [of _ 1] exI [of _ ?tx] exI [of _ ?balance] exI [of _ fee1]) auto
  next
    case False
    obtain k tx' balance' fee' where IH: "select_coins testnet w amount minAmount us ?tx ?balance fee1 = Some (Chosen tx' balance' fee')"
      "k \<le> length us" "tx' = ?tx\<lparr>tx_inputs := tx_inputs ?tx @ map (spending_input testnet ?all) (take k us)\<rparr>"
      "balance' = ?balance + sum_list (map (utxo_amount ?all) (take k us))"
      "txFee ?r (BRTransactionSize tx' + TX_OUTPUT_SIZE) \<le> fee'"
      "unat fee' < unat (txFee ?r (BRTransactionSize tx' + TX_OUTPUT_SIZE)) + 100"
      "k = length us \<or> balance' = amount + fee' \<or> balance' \<ge> amount + fee' + minAmount"
      using Cons.IH [of ?tx fee1 ?balance] Cons.prems unsigned fee1 by auto
    then show ?thesis
      unfolding step using False
      by (intro exI [of _ "Suc k"] exI [of _ tx'] exI [of _ balance'] exI [of _ fee']) (simp add: add.assoc)
  qed
qed

definition coins :: "tx_store \<Rightarrow> BRUTXO list \<Rightarrow> nat" where
  "coins all us = sum_list (map (\<lambda>u. unat (utxo_amount all u)) us)"

definition pays :: "BRTxOutput list \<Rightarrow> nat" where
  "pays ps = sum_list (map (\<lambda>p. unat (out_amount p)) ps)"

lemma unat_sum_list:
  fixes f :: "'a \<Rightarrow> u64"
  assumes "sum_list (map (\<lambda>x. unat (f x)) xs) < 2 ^ 64"
  shows "unat (sum_list (map f xs)) = sum_list (map (\<lambda>x. unat (f x)) xs)"
  using assms by (induction xs) (simp_all add: unat_add_small)

lemma coins_take_le: "coins all (take k us) \<le> coins all us"
proof -
  have "coins all us = coins all (take k us) + coins all (drop k us)"
    unfolding coins_def by (metis append_take_drop_id map_append sum_list_append)
  then show ?thesis by simp
qed

lemma unsigned_size_mset: "mset outs = mset outs' \<Longrightarrow> unsigned_size n outs = unsigned_size n outs'"
  unfolding unsigned_size_def by (metis mset_map size_mset sum_mset_sum_list)

lemma pays_mset: "mset outs = mset outs' \<Longrightarrow> pays outs = pays outs'"
  unfolding pays_def by (metis mset_map sum_mset_sum_list)

lemma unsigned_size_change:
  "length outs < 252 \<Longrightarrow> tx_output_size c \<le> TX_OUTPUT_SIZE \<Longrightarrow>
   unsigned_size n (outs @ [c]) \<le> unsigned_size n outs + TX_OUTPUT_SIZE \<and> unsigned_size n outs \<le> unsigned_size n (outs @ [c])"
proof -
  assume a: "length outs < 252" "tx_output_size c \<le> TX_OUTPUT_SIZE"
  then have "unat (of_nat (length (outs @ [c])) :: u64) = length outs + 1" "unat (of_nat (length outs) :: u64) = length outs"
    by (simp_all only: length_append list.size unat_of_nat) simp_all
  then show ?thesis using a by (simp add: unsigned_size_def varint_size_eq varint_length del: length_append of_nat_add)
qed

lemma length_address_script: "length (address_script testnet s) \<le> 25"
proof -
  obtain n d where d: "BRBase58CheckDecode (Some (replicate 21 0)) s = (n, d)" by fastforce
  have a: "address_script testnet s = the (snd (BRAddressScriptPubKey testnet (Some (replicate (fst (BRAddressScriptPubKey testnet None s)) 0)) s))"
    by (rule address_script_def)
  have t: "length (take 20 (drop 1 (the d))) \<le> 20" by simp
  consider "n \<noteq> 21" | "n = 21" "the d ! 0 = pubkey_prefix testnet" | "n = 21" "the d ! 0 \<noteq> pubkey_prefix testnet" "the d ! 0 = script_prefix testnet"
    | "n = 21" "the d ! 0 \<noteq> pubkey_prefix testnet" "the d ! 0 \<noteq> script_prefix testnet" by blast
  then show ?thesis
    by cases (use t in \<open>simp_all add: a BRAddressScriptPubKey_def d store_if_fits_def put_def Let_def\<close>)
qed

lemma min_amount:
  assumes "unat (wal_feePerKb w) \<le> 2 ^ 40"
  shows "546 \<le> unat (BRWalletMinOutputAmount w)" "unat (BRWalletMinOutputAmount w) < 2 ^ 40"
proof -
  let ?r = "unat (wal_feePerKb w)"
  have "unat (546 * wal_feePerKb w) = 546 * ?r" using assms by (subst unat_mult_small) simp_all
  then have "unat (546 * wal_feePerKb w + 5235) = 546 * ?r + 5235"
    using assms by (subst unat_add_small) simp_all
  moreover have "546 * wal_feePerKb w + 5236 - 1 = 546 * wal_feePerKb w + 5235" by simp
  ultimately have "unat (546 * wal_feePerKb w + 5236 - 1) = 546 * ?r + 5235" by (simp only:)
  then have d: "unat ((546 * wal_feePerKb w + 5236 - 1) div 5236) = (546 * ?r + 5235) div 5236" by (simp add: unat_div)
  then show "546 \<le> unat (BRWalletMinOutputAmount w)" "unat (BRWalletMinOutputAmount w) < 2 ^ 40"
    using assms by (auto simp: BRWalletMinOutputAmount_def Let_def word_less_nat_alt)
qed

lemma add_change_eq:
  "BRTransactionAddOutput testnet tx amount (Some s) = Some (tx\<lparr>tx_outputs := tx_outputs tx @
     [BR_TX_OUTPUT_NONE\<lparr>out_amount := amount, out_script := Some s, out_scriptLen := length s, out_address := pubkey_address testnet s\<rparr>]\<rparr>)"
  by (simp add: BRTransactionAddOutput_def set_output_eq)

lemma shuffle_returns:
  assumes "length (tx_outputs tx) < 2 ^ 31" "length (tx_outputs tx) \<le> length rs" "\<forall>r \<in> set rs. length (tx_outputs tx) \<le> unat r"
  shows "\<exists>outs rs'. BRTransactionShuffleOutputs tx rs = Some (tx\<lparr>tx_outputs := outs\<rparr>, rs') \<and> mset outs = mset (tx_outputs tx)"
proof -
  obtain outs rs' where "shuffle_loop (length (tx_outputs tx) - 1) 0 (tx_outputs tx) rs = Some (outs, rs')"
    "mset outs = mset (tx_outputs tx)"
    using shuffle_loop_perm [OF assms(1), of "length (tx_outputs tx) - 1" 0 rs] assms(2,3)
    by (cases "tx_outputs tx") auto
  then show ?thesis by (intro exI [of _ outs] exI [of _ rs']) (simp add: BRTransactionShuffleOutputs_def)
qed

text \<open>The change output: one more output of at most the usual size, in some place.\<close>

lemma finish_change:
  assumes "chains_ok w" "gap_at (env_derive env 1) (wal_usedAddrs w) 1 m" "length (wal_internalChain w) \<le> m"
    "0 < outCount" "spend \<le> balance" "minAmount \<le> balance - spend"
    "length (tx_outputs tx) < 252" "length (tx_outputs tx) < length rs" "\<forall>r \<in> set rs. 300 \<le> unat r"
  shows "\<exists>outs c w' rs'. finish_tx env w outCount minAmount (Some tx) balance spend rs = Some (Some (tx\<lparr>tx_outputs := outs\<rparr>), w', rs') \<and>
    mset outs = mset (tx_outputs tx @ [c]) \<and> out_amount c = balance - spend \<and> tx_output_size c \<le> TX_OUTPUT_SIZE"
proof -
  have gap: "gap_at (env_derive env (chain_id True)) (wal_usedAddrs w) 1 m" "length (wallet_chain w True) \<le> m"
    using assms(2,3) by (simp_all add: wallet_chain_def)
  obtain written w' where u: "BRWalletUnusedAddrs env w True 1 True = Some (written, w')"
  proof (rule unused_addrs [OF assms(1) gap])
    fix i new
    assume r: "\<And>moved addrs. BRWalletUnusedAddrs (env\<lparr>env_moved := moved\<rparr>) w addrs 1 True = Some
      (if addrs \<and> i + 1 \<le> length (wallet_chain w True @ new) then take 1 (drop i (wallet_chain w True @ new)) else [],
       with_chain w True new)"
    show thesis using r [of "env_moved env" True] that by auto
  qed
  let ?s = "address_script (env_testnet env) (addr_str (case written of [] \<Rightarrow> no_address | a # _ \<Rightarrow> a))"
  let ?c = "BR_TX_OUTPUT_NONE\<lparr>out_amount := balance - spend, out_script := Some ?s, out_scriptLen := length ?s,
    out_address := pubkey_address (env_testnet env) ?s\<rparr>"
  have len: "length ?s \<le> 25" by (rule length_address_script)
  then have "tx_output_size ?c \<le> TX_OUTPUT_SIZE"
    by (simp add: tx_output_size_def varint_size_eq varint_length unat_of_nat)
  moreover obtain outs rs' where "BRTransactionShuffleOutputs (tx\<lparr>tx_outputs := tx_outputs tx @ [?c]\<rparr>) rs =
      Some (tx\<lparr>tx_outputs := outs\<rparr>, rs')" "mset outs = mset (tx_outputs tx @ [?c])"
    using shuffle_returns [of "tx\<lparr>tx_outputs := tx_outputs tx @ [?c]\<rparr>" rs] assms(7-9) by force
  ultimately show ?thesis
    using assms(4-6) by (intro exI [of _ outs] exI [of _ ?c] exI [of _ w'] exI [of _ rs'])
      (simp add: finish_tx_def u [unfolded One_nat_def] add_change_eq Let_def)
qed

text \<open>The assumptions under which everything fits one transaction.\<close>

definition ordinary :: "wallet_env \<Rightarrow> BRWallet \<Rightarrow> BRTxOutput list \<Rightarrow> u32 list \<Rightarrow> bool" where
  "ordinary env w outputs rs \<longleftrightarrow>
     chains_ok w \<and> (\<exists>m \<ge> length (wal_internalChain w). gap_at (env_derive env 1) (wal_usedAddrs w) 1 m) \<and>
     (\<forall>u \<in> set (wal_utxos w). \<exists>p. utxo_output (wal_allTx w) u = Some p \<and> script_ok p) \<and>
     length (wal_utxos w) \<le> 600 \<and> coins (wal_allTx w) (wal_utxos w) < 2 ^ 62 \<and> unat (wal_feePerKb w) \<le> 2 ^ 40 \<and>
     outputs \<noteq> [] \<and> length outputs < 252 \<and> (\<forall>p \<in> set outputs. script_ok p) \<and>
     sum_list (map tx_output_size outputs) \<le> 10000 \<and> pays outputs < 2 ^ 62 \<and>
     length outputs < length rs \<and> (\<forall>r \<in> set rs. 300 \<le> unat r)"

lemma tx_output_size_paying: "tx_output_size (paying_output testnet p) = tx_output_size p" "out_amount (paying_output testnet p) = out_amount p"
  by (simp_all add: paying_output_def tx_output_size_def)

lemma unsigned_size_paying: "unsigned_size n (map (paying_output testnet) ps) = unsigned_size n ps"
  by (simp add: unsigned_size_def tx_output_size_paying comp_def)

lemma pays_paying: "pays (map (paying_output testnet) ps) = pays ps"
  by (simp add: pays_def tx_output_size_paying comp_def)

lemma spending_unsigned: "i \<in> spending_input testnet all ` S \<Longrightarrow> in_signature i = None"
  by (auto simp: spending_input_def Let_def tx_input_zero_def)

text \<open>The call up to the checks behind the loop.\<close>

lemma create_tx_choice:
  assumes "ordinary env w outputs rs"
  obtains k fee where "k \<le> length (wal_utxos w)"
    "BRWalletCreateTxForOutputs env w outputs rs = finish_tx env w (length outputs) (BRWalletMinOutputAmount w)
      (Some (BRTransactionNew\<lparr>tx_outputs := map (paying_output (env_testnet env)) outputs,
        tx_inputs := map (spending_input (env_testnet env) (wal_allTx w)) (take k (wal_utxos w))\<rparr>))
      (sum_list (map (utxo_amount (wal_allTx w)) (take k (wal_utxos w)))) (sum_list (map out_amount outputs) + fee) rs"
    "txFee (wal_feePerKb w) (unsigned_size k outputs + TX_OUTPUT_SIZE) \<le> fee"
    "unat fee < unat (txFee (wal_feePerKb w) (unsigned_size k outputs + TX_OUTPUT_SIZE)) + 100"
    "k = length (wal_utxos w) \<or> sum_list (map (utxo_amount (wal_allTx w)) (take k (wal_utxos w))) = sum_list (map out_amount outputs) + fee \<or>
      sum_list (map (utxo_amount (wal_allTx w)) (take k (wal_utxos w))) \<ge> sum_list (map out_amount outputs) + fee + BRWalletMinOutputAmount w"
proof -
  note A = assms [unfolded ordinary_def]
  let ?t = "env_testnet env" and ?amount = "sum_list (map out_amount outputs)" and ?min = "BRWalletMinOutputAmount w"
  let ?tx = "BRTransactionNew\<lparr>tx_outputs := map (paying_output ?t) outputs\<rparr>"
  let ?fee = "txFee (wal_feePerKb w) (BRTransactionSize ?tx + TX_OUTPUT_SIZE)"
  have rec: "fold_run (add_recipient ?t) outputs (BRTransactionNew, 0) = Some (?tx, ?amount)"
    using add_recipients_eq [of outputs ?t BRTransactionNew 0] A by (simp add: BRTransactionNew_def)
  have sizes: "sum_list (map tx_output_size (tx_outputs ?tx)) = sum_list (map tx_output_size outputs)"
    by (simp add: tx_output_size_paying comp_def)
  obtain k tx' balance' fee where sel:
    "select_coins ?t w ?amount ?min (wal_utxos w) ?tx 0 ?fee = Some (Chosen tx' balance' fee)" "k \<le> length (wal_utxos w)"
    "tx' = ?tx\<lparr>tx_inputs := tx_inputs ?tx @ map (spending_input ?t (wal_allTx w)) (take k (wal_utxos w))\<rparr>"
    "balance' = 0 + sum_list (map (utxo_amount (wal_allTx w)) (take k (wal_utxos w)))"
    "txFee (wal_feePerKb w) (BRTransactionSize tx' + TX_OUTPUT_SIZE) \<le> fee"
    "unat fee < unat (txFee (wal_feePerKb w) (BRTransactionSize tx' + TX_OUTPUT_SIZE)) + 100"
    "k = length (wal_utxos w) \<or> balance' = ?amount + fee \<or> balance' \<ge> ?amount + fee + ?min"
    using select_coins_spec [of "wal_utxos w" w ?tx ?fee ?t ?amount ?min 0] A sizes by (auto simp: BRTransactionNew_def)
  have "\<forall>i \<in> set (tx_inputs tx'). in_signature i = None"
    by (auto simp: sel(3) BRTransactionNew_def dest: spending_unsigned [OF imageI])
  then have size: "BRTransactionSize tx' = unsigned_size k outputs"
    using sel(2) by (simp add: size_unsigned sel(3) BRTransactionNew_def unsigned_size_paying)
  have "BRWalletCreateTxForOutputs env w outputs rs = finish_tx env w (length outputs) ?min (Some tx') balance' (?amount + fee) rs"
    by (subst BRWalletCreateTxForOutputs.simps) (simp add: rec sel(1) Let_def)
  then show thesis
    using that [of k fee] sel size by (simp add: BRTransactionNew_def)
qed


definition coin_tx :: BRTransaction where
  "coin_tx = paying_tx\<lparr>tx_outputs := [BR_TX_OUTPUT_NONE\<lparr>out_address := example_addr, out_amount := 10000, out_script := Some dummy_script, out_scriptLen := 25\<rparr>]\<rparr>"

definition funded_wallet :: BRWallet where
  "funded_wallet = wallet_empty\<lparr>wal_allTx := [1 \<mapsto> coin_tx], wal_transactions := [1], wal_feePerKb := 5000, wal_balance := 10000,
     wal_utxos := [\<lparr>utxo_hash = 1, utxo_n = 0\<rparr>]\<rparr>"

definition small_payment :: BRTxOutput where
  "small_payment = BR_TX_OUTPUT_NONE\<lparr>out_amount := 1000, out_script := Some dummy_script, out_scriptLen := 25\<rparr>"


end
