(* ===== verification/Mnemonic.thy ===== *)
theory Mnemonic
  imports Ciphers
begin

text \<open>
  \<^verbatim>\<open>BRBIP39Mnemonic.c\<close>: phrases of words that stand for a seed. A C string is the list of the bytes in
  front of its NUL; the word list is the array argument of the code, a list of such strings, and an index
  outside it is \<open>None\<close>. The output buffers are the bytes they hold, \<open>None\<close> for a null pointer.
\<close>

abbreviation BIP39_WORDLIST_COUNT :: nat where "BIP39_WORDLIST_COUNT \<equiv> 2048"

section \<open>Encoding\<close>

text \<open>\<open>strncpy(&phrase[len], word, phraseLen - len)\<close> fills the buffer to its end.\<close>

definition strncpy_rest :: "bytes \<Rightarrow> nat \<Rightarrow> bytes \<Rightarrow> bytes" where
  "strncpy_rest phrase len word =
     put phrase len (take (length phrase - len) (word @ replicate (length phrase - len) 0))"

text \<open>The \<open>i\<close>-th word index: the eleven bits from bit \<open>11 * i\<close> of the buffer.\<close>

definition word_bits :: "bytes \<Rightarrow> nat \<Rightarrow> nat run" where
  "word_bits buf i = do {
     x \<leftarrow> get_at 4 UInt32GetBE buf (i * 11 div 8);
     Some (unat (drop_bit (32 - (11 + (i * 11) mod 8)) x) mod BIP39_WORDLIST_COUNT)
   }"

fun encode_words :: "bytes list \<Rightarrow> bytes \<Rightarrow> nat list \<Rightarrow> bytes option \<Rightarrow> nat \<Rightarrow> (bytes option \<times> nat) run" where
  "encode_words wordList buf [] phrase len = Some (phrase, len)"
| "encode_words wordList buf (i # is) phrase len = do {
     x \<leftarrow> word_bits buf i;
     word \<leftarrow> rd wordList x;
     let phrase = map_option (\<lambda>p. if i > 0 \<and> len < length p then p[len := 0x20] else p) phrase;
     let len = (if i > 0 then len + 1 else len);
     let phrase = map_option (\<lambda>p. if len < length p then strncpy_rest p len word else p) phrase;
     encode_words wordList buf is phrase (len + length word)
   }"

definition BRBIP39Encode :: "bytes option \<Rightarrow> bytes list \<Rightarrow> bytes option \<Rightarrow> (nat \<times> bytes option) run" where
  "BRBIP39Encode phrase wordList data =
     (case data of
        None \<Rightarrow> Some (0, phrase)
      | Some d \<Rightarrow>
          if length d mod 4 \<noteq> 0 then Some (0, phrase)
          else do {
            let buf = d @ BRSHA256 d;
            (phrase, len) \<leftarrow> encode_words wordList buf [0..<length d * 3 div 4] phrase 0;
            Some (case phrase of None \<Rightarrow> len + 1 | Some p \<Rightarrow> if len + 1 \<le> length p then len + 1 else 0, phrase)
          })"

section \<open>Decoding\<close>

text \<open>\<open>word\<close> is the rest of the phrase; \<open>w\<close> stands in front of it, followed by a space or the end.\<close>

definition word_matches :: "bytes \<Rightarrow> bytes \<Rightarrow> bool" where
  "word_matches word w \<longleftrightarrow> take (length w) word = w \<and> (drop (length w) word = [] \<or> word ! length w = 0x20)"

text \<open>The search of the next \<open>n\<close> entries of the list from \<open>i\<close>.\<close>

fun find_word :: "bytes list \<Rightarrow> bytes \<Rightarrow> nat \<Rightarrow> nat \<Rightarrow> nat option run" where
  "find_word wordList word 0 i = Some None"
| "find_word wordList word (Suc n) i = do {
     w \<leftarrow> rd wordList i;
     if word_matches word w then Some (Some i) else find_word wordList word n (i + 1)
   }"

text \<open>\<open>strchr(word, ' ')\<close> and the step behind the space, \<open>None\<close> for the null pointer.\<close>

definition next_word :: "bytes \<Rightarrow> bytes option" where
  "next_word word = (case dropWhile (\<lambda>c. c \<noteq> 0x20) word of [] \<Rightarrow> None | _ # rest \<Rightarrow> Some rest)"

text \<open>At most \<open>n\<close> further words: their indexes and the rest of the phrase.\<close>

fun decode_words :: "bytes list \<Rightarrow> nat \<Rightarrow> bytes option \<Rightarrow> (nat list \<times> bytes option) run" where
  "decode_words wordList 0 word = Some ([], word)"
| "decode_words wordList (Suc n) word =
     (case word of
        None \<Rightarrow> Some ([], None)
      | Some w \<Rightarrow>
          if w = [] then Some ([], word)
          else do {
            x \<leftarrow> find_word wordList w BIP39_WORDLIST_COUNT 0;
            (case x of
               None \<Rightarrow> Some ([], word)
             | Some i \<Rightarrow> do {
                 (idx, rest) \<leftarrow> decode_words wordList n (next_word w);
                 Some (i # idx, rest)
               })
          })"

text \<open>The \<open>i\<close>-th byte of the indexes, eleven bits each; \<open>idx\<close> is the array of 24 on the stack.\<close>

definition packed_byte :: "nat list \<Rightarrow> nat \<Rightarrow> u8" where
  "packed_byte idx i =
     (let q = i * 8 div 11; x = of_nat (idx ! q);
          y = (if q + 1 < length idx then of_nat (idx ! (q + 1)) else 0 :: u32)
      in ucast (drop_bit ((q + 2) * 11 - (i + 1) * 8) (x * 2048 + y) AND 0xff))"

definition BRBIP39Decode :: "bytes option \<Rightarrow> bytes list \<Rightarrow> bytes \<Rightarrow> (nat \<times> bytes option) run" where
  "BRBIP39Decode data wordList phrase = do {
     (idx, word) \<leftarrow> decode_words wordList 24 (Some phrase);
     let count = length idx;
     let (r, data) =
       (if count mod 3 = 0 \<and> (word = None \<or> word = Some []) then
          let buf = map (packed_byte idx) [0..<(count * 11 + 7) div 8];
              b = (if buf = [] then 0 else last buf);
              h = BRSHA256 (take (count * 4 div 3) buf)
          in if drop_bit (8 - count div 3) b = drop_bit (8 - count div 3) (h ! 0) then
               (count * 4 div 3,
                map_option (\<lambda>d. if count * 4 div 3 \<le> length d then put d 0 (take (count * 4 div 3) buf) else d) data)
             else (0, data)
        else (0, data));
     Some (case data of None \<Rightarrow> r | Some d \<Rightarrow> if r \<le> length d then r else 0, data)
   }"

definition BRBIP39PhraseIsValid :: "bytes list \<Rightarrow> bytes \<Rightarrow> bool run" where
  "BRBIP39PhraseIsValid wordList phrase = do {
     (r, _) \<leftarrow> BRBIP39Decode None wordList phrase;
     Some (r > 0)
   }"

section \<open>The seed\<close>

text \<open>\<open>mnemonic\<close>\<close>

definition bip39_salt :: bytes where
  "bip39_salt = [0x6d, 0x6e, 0x65, 0x6d, 0x6f, 0x6e, 0x69, 0x63]"

definition BRBIP39DeriveKey :: "bytes \<Rightarrow> bytes option \<Rightarrow> bytes option \<Rightarrow> bytes" where
  "BRBIP39DeriveKey key64 phrase passphrase =
     (case phrase of
        None \<Rightarrow> key64
      | Some p \<Rightarrow> BRPBKDF2 key64 BRSHA512 64 p (bip39_salt @ (case passphrase of None \<Rightarrow> [] | Some q \<Rightarrow> q)) 2048)"

end
