(* ===== verification/MnemonicSpec.thy ===== *)
theory MnemonicSpec
  imports Mnemonic HashSpec
begin

text \<open>
  The phrases of \<^verbatim>\<open>BRBIP39Mnemonic.c\<close>: they are the sequences of words whose indexes hold the data and
  its checksum, and encoding and decoding are inverse to each other.
\<close>

section \<open>Words and phrases\<close>

definition words_ok :: "bytes list \<Rightarrow> bool" where
  "words_ok wl \<longleftrightarrow> length wl = BIP39_WORDLIST_COUNT \<and> distinct wl \<and> (\<forall>w \<in> set wl. w \<noteq> [] \<and> 0x20 \<notin> set w \<and> 0 \<notin> set w)"

definition phrase_of :: "bytes list \<Rightarrow> nat list \<Rightarrow> bytes" where
  "phrase_of wl idx = (case idx of [] \<Rightarrow> [] | i # is \<Rightarrow> wl ! i @ concat (map (\<lambda>i. 0x20 # wl ! i) is))"

lemma phrase_of_Cons: "phrase_of wl (i # is) = wl ! i @ (if is = [] then [] else 0x20 # phrase_of wl is)"
  by (cases "is") (simp_all add: phrase_of_def)

lemma words_okD:
  assumes "words_ok wl" "i < 2048"
  shows "wl ! i \<noteq> []" "0x20 \<notin> set (wl ! i)" "0 \<notin> set (wl ! i)" "rd wl i = Some (wl ! i)"
  using assms nth_mem [of i wl] by (auto simp: words_ok_def rd_def)

lemma word_matches_front:
  assumes "words_ok wl" "i < 2048" "j < 2048" "rest = [] \<or> hd rest = 0x20"
  shows "word_matches (wl ! i @ rest) (wl ! j) \<longleftrightarrow> i = j"
proof
  assume m: "word_matches (wl ! i @ rest) (wl ! j)"
  have sp: "0x20 \<notin> set (wl ! i)" "0x20 \<notin> set (wl ! j)" using words_okD assms by blast+
  have "wl ! i = wl ! j"
  proof (rule ccontr)
    assume ne: "wl ! i \<noteq> wl ! j"
    have t: "take (length (wl ! j)) (wl ! i @ rest) = wl ! j" using m by (simp add: word_matches_def)
    show False
    proof (cases "length (wl ! j) \<le> length (wl ! i)")
      case True
      then have "length (wl ! j) < length (wl ! i)" using t ne by (cases "length (wl ! j) = length (wl ! i)") simp_all
      then show False using m sp(1) nth_mem [of "length (wl ! j)" "wl ! i"] by (auto simp: word_matches_def nth_append)
    next
      case False
      then have r: "rest \<noteq> []" and eq: "wl ! j = wl ! i @ take (length (wl ! j) - length (wl ! i)) rest"
        using t by (auto simp: take_all_iff)
      have "hd rest \<in> set (take (length (wl ! j) - length (wl ! i)) rest)" using r False by (cases rest) (simp_all add: take_Cons')
      then have "hd rest \<in> set (wl ! j)" using arg_cong [OF eq, of set] by auto
      then show False using r assms(4) sp(2) by auto
    qed
  qed
  then show "i = j" using assms by (simp add: words_ok_def nth_eq_iff_index_eq)
next
  assume "i = j"
  then show "word_matches (wl ! i @ rest) (wl ! j)"
    using assms(4) by (cases rest) (auto simp: word_matches_def nth_append)
qed

lemma find_word_unique:
  assumes "words_ok wl" "\<And>j. j < 2048 \<Longrightarrow> word_matches word (wl ! j) \<longleftrightarrow> j = i" "k + n = 2048" "k \<le> i" "i < 2048"
  shows "find_word wl word n k = Some (Some i)"
  using assms(3,4)
proof (induction n arbitrary: k)
  case 0
  then show ?case using assms(5) by simp
next
  case (Suc n)
  then show ?case using words_okD [OF assms(1), of k] assms(2) [of k] by auto
qed

lemma find_word_sound:
  assumes "words_ok wl" "k + n = 2048"
  obtains "find_word wl word n k = Some None"
    | i where "find_word wl word n k = Some (Some i)" "i < 2048" "word_matches word (wl ! i)"
  using assms(2)
proof (induction n arbitrary: k thesis)
  case 0
  then show ?case by simp
next
  case (Suc n)
  have rd: "rd wl k = Some (wl ! k)" using words_okD [OF assms(1), of k] Suc.prems(3) by simp
  show ?case
  proof (cases "word_matches word (wl ! k)")
    case True
    then show ?thesis using Suc.prems rd by simp
  next
    case False
    then show ?thesis using Suc.IH [of "k + 1"] Suc.prems rd by auto
  qed
qed

lemma next_word_front:
  assumes "0x20 \<notin> set w"
  shows "next_word w = None" "next_word (w @ 0x20 # rest) = Some rest"
proof -
  have "dropWhile (\<lambda>c. c \<noteq> 0x20) w = []" using assms by auto
  then show "next_word w = None" "next_word (w @ 0x20 # rest) = Some rest"
    by (simp_all add: next_word_def dropWhile_append del: dropWhile_eq_Nil_conv)
qed

section \<open>Decoding the words of a phrase\<close>

lemma decode_phrase:
  assumes wl: "words_ok wl" and "length idx \<le> n" "\<forall>i \<in> set idx. i < 2048"
  shows "decode_words wl n (Some (phrase_of wl idx)) = Some (idx, if idx = [] then Some [] else None)"
  using assms(2,3)
proof (induction idx arbitrary: n)
  case Nil
  then show ?case by (cases n) (simp_all add: phrase_of_def)
next
  case (Cons i "is")
  then obtain m where n: "n = Suc m" by (cases n) auto
  let ?p = "phrase_of wl (i # is)"
  have i: "i < 2048" using Cons.prems by simp
  have "word_matches ?p (wl ! j) \<longleftrightarrow> j = i" if "j < 2048" for j
    unfolding phrase_of_Cons using word_matches_front [OF wl i that, of "if is = [] then [] else 0x20 # phrase_of wl is"] by auto
  then have "find_word wl ?p BIP39_WORDLIST_COUNT 0 = Some (Some i)" using i by (intro find_word_unique [OF wl]) auto
  moreover have "?p \<noteq> []" using words_okD(1) [OF wl i] by (simp add: phrase_of_Cons)
  moreover have "decode_words wl m (next_word ?p) = Some (is, None)"
  proof (cases "is = []")
    case True
    then show ?thesis using next_word_front(1) [OF words_okD(2) [OF wl i]] by (cases m) (simp_all add: phrase_of_Cons)
  next
    case False
    then have "next_word ?p = Some (phrase_of wl is)"
      using next_word_front(2) [OF words_okD(2) [OF wl i]] by (simp add: phrase_of_Cons)
    then show ?thesis using Cons False n by simp
  qed
  ultimately show ?case by (simp add: n)
qed

lemma decode_words_sound:
  assumes wl: "words_ok wl"
  shows "\<exists>idx rest. decode_words wl n (Some p) = Some (idx, rest) \<and> length idx \<le> n \<and> (\<forall>i \<in> set idx. i < 2048) \<and>
    (rest = None \<longrightarrow> idx \<noteq> [] \<and> p = phrase_of wl idx) \<and>
    (rest = Some [] \<longrightarrow> (if idx = [] then p = [] else p = phrase_of wl idx @ [0x20]))"
proof (induction n arbitrary: p)
  case 0
  then show ?case by simp
next
  case (Suc n)
  show ?case
  proof (cases "p = []")
    case True
    then show ?thesis by simp
  next
    case False
    show ?thesis
    proof (rule find_word_sound [OF wl, of 0 2048 p])
      show "0 + 2048 = (2048 :: nat)" by simp
    next
      assume "find_word wl p 2048 0 = Some None"
      then show ?thesis using False by (auto intro!: exI [of _ "[]"])
    next
      fix i assume i: "find_word wl p 2048 0 = Some (Some i)" "i < 2048" "word_matches p (wl ! i)"
      obtain r where r: "p = wl ! i @ r" "r = [] \<or> hd r = 0x20"
        using i(3) unfolding word_matches_def
        by (metis append_take_drop_id hd_drop_conv_nth not_less take_all_iff drop_eq_Nil)
      have sp: "0x20 \<notin> set (wl ! i)" using words_okD [OF wl i(2)] by simp
      show ?thesis
      proof (cases r)
        case Nil
        then have "next_word p = None" using r next_word_front(1) [OF sp] by simp
        then have "decode_words wl (Suc n) (Some p) = Some ([i], None)" using False i(1) by (cases n) simp_all
        then show ?thesis using r Nil i(2) by (auto simp: phrase_of_def intro!: exI [of _ "[i]"])
      next
        case (Cons c q)
        then have nw: "next_word p = Some q" using r next_word_front(2) [OF sp] by simp
        obtain idx rest where IH: "decode_words wl n (Some q) = Some (idx, rest)" "length idx \<le> n" "\<forall>i \<in> set idx. i < 2048"
          "rest = None \<longrightarrow> idx \<noteq> [] \<and> q = phrase_of wl idx"
          "rest = Some [] \<longrightarrow> (if idx = [] then q = [] else q = phrase_of wl idx @ [0x20])" using Suc.IH by blast
        have "decode_words wl (Suc n) (Some p) = Some (i # idx, rest)" using False i(1) IH(1) nw by simp
        then show ?thesis using r Cons i(2) IH(2-5)
          by (intro exI [of _ "i # idx"] exI [of _ rest]) (auto simp: phrase_of_Cons split: if_splits)
      qed
    qed
  qed
qed

section \<open>Bits\<close>

definition byte_bit :: "bytes \<Rightarrow> nat \<Rightarrow> bool" where
  "byte_bit bs k = bit (bs ! (k div 8)) (7 - k mod 8)"

definition index_bit :: "nat list \<Rightarrow> nat \<Rightarrow> bool" where
  "index_bit idx k = bit (idx ! (k div 11)) (10 - k mod 11)"

lemma bytes_eqI:
  assumes "length xs = length ys" "\<And>k. k < 8 * length xs \<Longrightarrow> byte_bit xs k = byte_bit ys k"
  shows "xs = ys"
proof (rule nth_equalityI [OF assms(1)])
  fix i assume i: "i < length xs"
  show "xs ! i = ys ! i"
  proof (rule bit_word_eqI)
    fix n assume n: "n < LENGTH(8)"
    define j where "j = 7 - n"
    have j: "j < 8" "7 - j = n" using n by (auto simp: j_def)
    then have "(8 * i + j) div 8 = i" "(8 * i + j) mod 8 = j" "8 * i + j < 8 * length xs" using i by auto
    then show "bit (xs ! i) n = bit (ys ! i) n" using assms(2) [of "8 * i + j"] j(2) by (simp add: byte_bit_def)
  qed
qed

lemma indexes_eqI:
  assumes "length xs = length ys" "\<forall>x \<in> set xs. x < 2048" "\<forall>y \<in> set ys. y < 2048"
    "\<And>k. k < 11 * length xs \<Longrightarrow> index_bit xs k = index_bit ys k"
  shows "xs = ys"
proof (rule nth_equalityI [OF assms(1)])
  fix i assume i: "i < length xs"
  have le: "xs ! i < 2 ^ 11" "ys ! i < 2 ^ 11" using assms(1-3) i by (auto simp: set_conv_nth)
  show "xs ! i = ys ! i"
  proof (rule bit_eqI)
    fix n
    show "bit (xs ! i) n = bit (ys ! i) n"
    proof (cases "n < 11")
      case True
      define j where "j = 10 - n"
      have j: "j < 11" "10 - j = n" using True by (auto simp: j_def)
      then have "(11 * i + j) div 11 = i" "(11 * i + j) mod 11 = j" "11 * i + j < 11 * length xs" using i by auto
      then show ?thesis using assms(4) [of "11 * i + j"] j(2) by (simp add: index_bit_def)
    next
      case False
      then show ?thesis using bit_nat_less le by blast
    qed
  qed
qed

lemma bit_UInt32GetBE:
  assumes "length b = 4" "m < 32"
  shows "bit (UInt32GetBE b) m = bit (b ! (3 - m div 8)) (m mod 8)"
  using assms by (auto simp: UInt32GetBE_eq be_word_def bit_le_word rev_nth)

text \<open>An encoded word index holds eleven bits of the buffer.\<close>

lemma word_bits_eq:
  assumes "i * 11 div 8 + 4 \<le> length buf"
  obtains x where "word_bits buf i = Some x" "x < 2048" "\<And>j. j < 11 \<Longrightarrow> bit x (10 - j) = byte_bit buf (11 * i + j)"
proof -
  define q where "q = i * 11 div 8"
  define r where "r = i * 11 mod 8"
  let ?b = "take 4 (drop q buf)"
  let ?x = "unat (drop_bit (32 - (11 + r)) (UInt32GetBE ?b)) mod 2048"
  have r: "r \<le> 7" "11 * i = 8 * q + r" by (simp_all add: q_def r_def)
  have len: "length ?b = 4" "q + 4 \<le> length buf" using assms by (simp_all add: q_def)
  have eight: "(8 * m + n) div 8 = m" "(8 * m + n) mod 8 = n" if "n < 8" for m n :: nat using that by simp_all
  have "bit ?x (10 - j) = byte_bit buf (11 * i + j)" if "j < 11" for j
  proof -
    define d where "d = (r + j) div 8"
    define e where "e = (r + j) mod 8"
    have de: "r + j = 8 * d + e" "e < 8" "d \<le> 2" using r(1) that by (auto simp: d_def e_def)
    have k0: "11 * i + j = 8 * (q + d) + e" unfolding r(2) distrib_left using de(1) by linarith
    have k: "(11 * i + j) div 8 = q + d" "(11 * i + j) mod 8 = e" unfolding k0 by (rule eight [OF de(2)])+
    have m: "32 - (11 + r) + (10 - j) = 31 - (8 * d + e)" using de(1) r(1) that by linarith
    have m8: "(31 - (8 * d + e)) div 8 = 3 - d" "(31 - (8 * d + e)) mod 8 = 7 - e"
    proof -
      have "31 - (8 * d + e) = 8 * (3 - d) + (7 - e)" "7 - e < 8" using de by auto
      then show "(31 - (8 * d + e)) div 8 = 3 - d" "(31 - (8 * d + e)) mod 8 = 7 - e" by simp_all
    qed
    have "bit (n mod 2048) (10 - j) = bit n (10 - j)" for n :: nat
      using bit_take_bit_iff [of 11 n "10 - j"] by (simp add: take_bit_eq_mod less_imp_diff_less)
    then have "bit ?x (10 - j) = bit (drop_bit (32 - (11 + r)) (UInt32GetBE ?b)) (10 - j)"
      by (simp only: bit_unsigned_iff) (auto dest: bit_imp_le_length)
    also have "\<dots> = bit (UInt32GetBE ?b) (31 - (8 * d + e))" unfolding bit_drop_bit_eq comp_def m ..
    also have "\<dots> = bit (?b ! (3 - (3 - d))) (7 - e)" using bit_UInt32GetBE [OF len(1), of "31 - (8 * d + e)"] m8 by simp
    also have "?b ! (3 - (3 - d)) = buf ! (q + d)" using de(3) len by simp
    finally show ?thesis by (simp add: byte_bit_def k)
  qed
  moreover have "word_bits buf i = Some ?x" using assms by (simp add: word_bits_def get_at_def slice_def q_def r_def)
  ultimately show thesis using that [of ?x] by simp
qed

lemma eleven: "(n :: nat) < 11 \<Longrightarrow> (11 * m + n) div 11 = m" "n < 11 \<Longrightarrow> (11 * m + n) mod 11 = n"
  by simp_all

lemma bit_unat: "bit (unat v) n = bit v n"
  by (simp add: bit_unsigned_iff)

lemma bit_low_byte: "bit (ucast (drop_bit s v) :: u8) (7 - j) = bit v (s + (7 - j))"
  by (simp only: bit_unsigned_iff bit_drop_bit_eq comp_def) (simp add: less_imp_diff_less del: Nat.add_diff_assoc)

text \<open>A decoded byte holds eight bits of the word indexes, zero behind the last.\<close>

lemma bit_packed_byte:
  assumes "i * 8 div 11 < length idx" "\<forall>x \<in> set idx. x < 2048" "j < 8"
  shows "bit (packed_byte idx i) (7 - j) \<longleftrightarrow> 8 * i + j < 11 * length idx \<and> index_bit idx (8 * i + j)"
proof -
  define q where "q = i * 8 div 11"
  define r where "r = i * 8 mod 11"
  have qr: "8 * i = 11 * q + r" "r \<le> 10" by (simp_all add: q_def r_def)
  define x where "x = idx ! q"
  define y where "y = (if q + 1 < length idx then idx ! (q + 1) else 0)"
  have xy: "x < 2048" "y < 2048" using assms(1,2) by (auto simp: x_def y_def q_def)
  let ?v = "of_nat x * 2048 + of_nat y :: u32"
  have "?v = of_nat (x * 2048 + y)" by simp
  moreover have "x * 2048 + y < 2 ^ LENGTH(32)" using xy by simp
  ultimately have v: "unat ?v = x * 2048 + y" by (simp only: unat_of_nat mod_less)
  have s: "(q + 2) * 11 - (i + 1) * 8 = 14 - r" using qr by simp
  have "packed_byte idx i = ucast (drop_bit (14 - r) ?v)"
    unfolding packed_byte_def Let_def q_def [symmetric] s ucast_and_ff x_def y_def by simp
  moreover have "14 - r + (7 - j) = 21 - r - j" using qr(2) assms(3) by simp
  ultimately have "bit (packed_byte idx i) (7 - j) = bit ?v (21 - r - j)"
    using bit_low_byte [of "14 - r" ?v j] by (simp only:)
  also have "\<dots> = bit (x * 2 ^ 11 + y) (21 - r - j)" using v bit_unat [of ?v] by (simp del: diff_diff_left)
  also have "\<dots> \<longleftrightarrow> 8 * i + j < 11 * length idx \<and> index_bit idx (8 * i + j)"
  proof (cases "r + j < 11")
    case True
    have "(x * 2 ^ 11 + y) div 2 ^ 11 = x" using xy by simp
    then have "bit (x * 2 ^ 11 + y) (11 + (10 - (r + j))) = bit x (10 - (r + j))"
      by (metis bit_drop_bit_eq comp_def drop_bit_eq_div)
    moreover have "21 - r - j = 11 + (10 - (r + j))" using True by simp
    moreover have k: "8 * i + j = 11 * q + (r + j)" using qr by simp
    have "(8 * i + j) div 11 = q" "(8 * i + j) mod 11 = r + j" unfolding k by (rule eleven [OF True])+
    moreover have "8 * i + j < 11 * length idx" using k True assms(1) by (simp add: q_def [symmetric])
    ultimately show ?thesis by (simp add: index_bit_def x_def)
  next
    case False
    define t where "t = r + j - 11"
    have t: "r + j = 11 + t" "t < 11" using False qr(2) assms(3) by (simp_all add: t_def)
    have "(x * 2 ^ 11 + y) mod 2 ^ 11 = y" using xy by simp
    then have "bit (x * 2 ^ 11 + y) (10 - t) = bit y (10 - t)"
      by (metis bit_take_bit_iff take_bit_eq_mod diff_less_Suc eval_nat_numeral(3) le_imp_less_Suc less_Suc_eq diff_le_self order.strict_trans1 lessI numeral_nat)
    moreover have "21 - r - j = 10 - t" using t by simp
    moreover have k: "8 * i + j = 11 * (q + 1) + t" using qr t by simp
    have "(8 * i + j) div 11 = q + 1" "(8 * i + j) mod 11 = t" unfolding k by (rule eleven [OF t(2)])+
    moreover have "8 * i + j < 11 * length idx \<longleftrightarrow> q + 1 < length idx" unfolding k using t(2) by auto
    ultimately show ?thesis by (simp add: index_bit_def y_def)
  qed
  finally show ?thesis .
qed

definition packed :: "nat list \<Rightarrow> bytes" where
  "packed idx = map (packed_byte idx) [0..<(length idx * 11 + 7) div 8]"

lemma byte_bit_packed:
  assumes "\<forall>x \<in> set idx. x < 2048" "k < 8 * length (packed idx)"
  shows "byte_bit (packed idx) k \<longleftrightarrow> k < 11 * length idx \<and> index_bit idx k"
proof -
  define i where "i = k div 8"
  define j where "j = k mod 8"
  have k: "k = 8 * i + j" "j < 8" by (simp_all add: i_def j_def)
  have i: "i < (length idx * 11 + 7) div 8" using assms(2) by (simp add: packed_def i_def less_mult_imp_div_less mult.commute)
  then have "i * 8 div 11 < length idx" by (simp add: div_less_iff_less_mult)
  from bit_packed_byte [OF this assms(1) k(2)] i show ?thesis
    by (simp add: byte_bit_def packed_def i_def [symmetric] j_def [symmetric] k(1) [symmetric])
qed

section \<open>The indexes of a seed\<close>

definition seed_indexes :: "bytes \<Rightarrow> nat list" where
  "seed_indexes d = map (\<lambda>i. the (word_bits (d @ BRSHA256 d) i)) [0..<length d * 3 div 4]"

lemma seed_words:
  assumes "length d = 4 * m" "m \<le> 8" "i < 3 * m"
  obtains x where "word_bits (d @ BRSHA256 d) i = Some x" "x < 2048" "seed_indexes d ! i = x"
    "\<And>j. j < 11 \<Longrightarrow> bit x (10 - j) = byte_bit (d @ BRSHA256 d) (11 * i + j)"
proof -
  have "i * 11 div 8 + 4 \<le> length (d @ BRSHA256 d)" using assms by simp
  from word_bits_eq [OF this] obtain x where x: "word_bits (d @ BRSHA256 d) i = Some x" "x < 2048"
    "\<And>j. j < 11 \<Longrightarrow> bit x (10 - j) = byte_bit (d @ BRSHA256 d) (11 * i + j)" by blast
  moreover have "seed_indexes d ! i = x" using assms x(1) by (simp add: seed_indexes_def)
  ultimately show thesis using that by blast
qed

lemma seed_indexes_spec:
  assumes "length d = 4 * m" "m \<le> 8"
  shows "length (seed_indexes d) = 3 * m" "\<forall>x \<in> set (seed_indexes d). x < 2048"
    "k < 33 * m \<Longrightarrow> index_bit (seed_indexes d) k = byte_bit (d @ BRSHA256 d) k"
proof -
  show len: "length (seed_indexes d) = 3 * m" using assms by (simp add: seed_indexes_def)
  show "\<forall>x \<in> set (seed_indexes d). x < 2048"
    using seed_words [OF assms] len by (metis in_set_conv_nth)
  assume k: "k < 33 * m"
  define i where "i = k div 11"
  define j where "j = k mod 11"
  have ij: "k = 11 * i + j" "j < 11" "i < 3 * m" using k by (simp_all add: i_def j_def div_less_iff_less_mult)
  then show "index_bit (seed_indexes d) k = byte_bit (d @ BRSHA256 d) k"
    using seed_words [OF assms ij(3)] by (metis i_def index_bit_def j_def)
qed

lemma byte_32: "(j :: nat) < 8 \<Longrightarrow> (32 * m + j) div 8 = 4 * m" "j < 8 \<Longrightarrow> (32 * m + j) mod 8 = j"
proof -
  have "32 * m + j = 8 * (4 * m) + j" by simp
  then show "j < 8 \<Longrightarrow> (32 * m + j) div 8 = 4 * m" "j < 8 \<Longrightarrow> (32 * m + j) mod 8 = j"
    by (metis div_mult_self4 div_less add_0_right zero_neq_numeral, metis mod_mult_self4 mod_less)
qed

text \<open>The bits behind the data are those of the first byte of its hash.\<close>

lemma checksum_bit:
  assumes "length d = 4 * m" "j < 8"
  shows "byte_bit (d @ BRSHA256 d) (32 * m + j) = bit (BRSHA256 d ! 0) (7 - j)"
proof -
  show ?thesis using assms(1) byte_32 [OF assms(2), of m] by (simp add: byte_bit_def nth_append)
qed

lemma length_packed:
  assumes "length idx = 3 * m" "0 < m" "m \<le> 8"
  shows "length (packed idx) = 4 * m + 1"
proof -
  have "length idx * 11 + 7 = 8 * (4 * m) + (m + 7)" "(m + 7) div 8 = 1" using assms by simp_all
  then show ?thesis by (simp add: packed_def)
qed

lemma top_bits_eq:
  fixes a b :: u8
  assumes "m \<le> 8"
  shows "drop_bit (8 - m) a = drop_bit (8 - m) b \<longleftrightarrow> (\<forall>j < m. bit a (7 - j) = bit b (7 - j))"
proof
  assume eq: "drop_bit (8 - m) a = drop_bit (8 - m) b"
  have "bit a (7 - j) = bit b (7 - j)" if "j < m" for j
  proof -
    have "7 - j = (8 - m) + (m - 1 - j)" using that assms by simp
    then show ?thesis using eq by (metis bit_drop_bit_eq comp_apply)
  qed
  then show "\<forall>j < m. bit a (7 - j) = bit b (7 - j)" by simp
next
  assume eq: "\<forall>j < m. bit a (7 - j) = bit b (7 - j)"
  show "drop_bit (8 - m) a = drop_bit (8 - m) b"
  proof (rule bit_word_eqI)
    fix n assume "n < LENGTH(8)"
    have "bit a (8 - m + n) = bit b (8 - m + n)"
    proof (cases "8 - m + n < 8")
      case True
      then have "7 - (8 - m + n) < m" "7 - (7 - (8 - m + n)) = 8 - m + n" using assms by simp_all
      then show ?thesis using eq by metis
    next
      case False
      then show ?thesis using bit_imp_le_length [of a "8 - m + n"] bit_imp_le_length [of b "8 - m + n"] by auto
    qed
    then show "bit (drop_bit (8 - m) a) n = bit (drop_bit (8 - m) b) n" by (simp add: bit_drop_bit_eq)
  qed
qed

text \<open>Packing indexes gives data whose checksum is right exactly when they are the indexes of that data.\<close>

lemma packed_checksum:
  assumes idx: "length idx = 3 * m" "\<forall>x \<in> set idx. x < 2048" and m: "0 < m" "m \<le> 8"
  defines "d \<equiv> take (4 * m) (packed idx)"
  shows "drop_bit (8 - m) (last (packed idx)) = drop_bit (8 - m) (BRSHA256 d ! 0) \<longleftrightarrow> idx = seed_indexes d"
proof -
  have len: "length (packed idx) = 4 * m + 1" "length d = 4 * m" using length_packed [OF idx(1) m] by (simp_all add: d_def)
  note S = seed_indexes_spec [OF len(2) m(2)]
  have last: "last (packed idx) = packed idx ! (4 * m)" using len(1) by (subst last_conv_nth) auto
  have low: "index_bit idx k = byte_bit (d @ BRSHA256 d) k" if "k < 32 * m" for k
  proof -
    have "k div 8 < 4 * m" using that by (simp add: div_less_iff_less_mult)
    then have "byte_bit (d @ BRSHA256 d) k = byte_bit (packed idx) k" using len by (simp add: byte_bit_def nth_append) (simp add: d_def)
    then show ?thesis using byte_bit_packed [OF idx(2), of k] that len idx(1) m by simp
  qed
  have high: "bit (last (packed idx)) (7 - j) = index_bit idx (32 * m + j)" if "j < m" for j
  proof -
    have "(32 * m + j) div 8 = 4 * m" "(32 * m + j) mod 8 = j" using that m by (auto intro: byte_32)
    then show ?thesis using byte_bit_packed [OF idx(2), of "32 * m + j"] that len idx(1) m by (simp add: byte_bit_def last)
  qed
  have "(\<forall>j < m. bit (last (packed idx)) (7 - j) = bit (BRSHA256 d ! 0) (7 - j)) \<longleftrightarrow>
      (\<forall>j < m. index_bit idx (32 * m + j) = byte_bit (d @ BRSHA256 d) (32 * m + j))"
    using high checksum_bit [OF len(2)] m by auto
  also have "\<dots> \<longleftrightarrow> (\<forall>k < 33 * m. index_bit idx k = byte_bit (d @ BRSHA256 d) k)"
    (is "?l \<longleftrightarrow> ?r")
  proof
    assume a: ?l
    have "index_bit idx k = byte_bit (d @ BRSHA256 d) k" if "k < 33 * m" for k
      using low [of k] a [rule_format, of "k - 32 * m"] that by (cases "k < 32 * m") auto
    then show ?r by blast
  next
    assume ?r
    then show ?l by simp
  qed
  also have "\<dots> \<longleftrightarrow> idx = seed_indexes d"
    using indexes_eqI [OF _ idx(2) S(2)] S(1,3) idx(1) by auto
  finally show ?thesis unfolding top_bits_eq [OF m(2)] .
qed

lemma take_packed_seed:
  assumes "length d = 4 * m" "0 < m" "m \<le> 8"
  shows "take (4 * m) (packed (seed_indexes d)) = d"
proof (rule bytes_eqI)
  note S = seed_indexes_spec [OF assms(1,3)]
  have len: "length (packed (seed_indexes d)) = 4 * m + 1" by (rule length_packed [OF S(1) assms(2,3)])
  then show "length (take (4 * m) (packed (seed_indexes d))) = length d" using assms(1) by simp
  fix k assume "k < 8 * length (take (4 * m) (packed (seed_indexes d)))"
  then have k: "k < 32 * m" using len by simp
  then have i: "k div 8 < 4 * m" by (simp add: div_less_iff_less_mult)
  have "byte_bit (take (4 * m) (packed (seed_indexes d))) k = byte_bit (packed (seed_indexes d)) k" using i len by (simp add: byte_bit_def)
  also have "\<dots> = byte_bit (d @ BRSHA256 d) k" using byte_bit_packed [OF S(2)] S(1,3) k len by simp
  also have "\<dots> = byte_bit d k" using i assms(1) by (simp add: byte_bit_def nth_append)
  finally show "byte_bit (take (4 * m) (packed (seed_indexes d))) k = byte_bit d k" .
qed

section \<open>Decoding and encoding\<close>

text \<open>What a phrase decodes to: its words must be the indexes of the data they hold.\<close>

definition phrase_data :: "nat list \<Rightarrow> bytes \<Rightarrow> bool" where
  "phrase_data idx d \<longleftrightarrow> (\<exists>m. 0 < m \<and> m \<le> 8 \<and> length idx = 3 * m \<and> d = take (4 * m) (packed idx) \<and> idx = seed_indexes d)"

definition decode_result :: "bytes option \<Rightarrow> bytes \<Rightarrow> nat \<times> bytes option" where
  "decode_result out d = (case out of None \<Rightarrow> (length d, None)
     | Some b \<Rightarrow> if length d \<le> length b then (length d, Some (put b 0 d)) else (0, Some b))"

lemma decode_core:
  assumes "decode_words wl 24 (Some p) = Some (idx, rest)" "length idx = 3 * m" "0 < m" "m \<le> 8" "rest = None \<or> rest = Some []"
    "take (4 * m) (packed idx) = d"
  shows "BRBIP39Decode out wl p = Some (if drop_bit (8 - m) (last (packed idx)) = drop_bit (8 - m) (BRSHA256 d ! 0)
    then decode_result out d else (0, out))"
proof -
  have n: "length idx div 3 = m" "length idx * 4 div 3 = 4 * m" "length idx mod 3 = 0" using assms(2) by simp_all
  have l: "length (packed idx) = 4 * m + 1" using length_packed [OF assms(2-4)] .
  then have e: "packed idx \<noteq> []" by auto
  have ld: "length d = 4 * m" using assms(6) l by auto
  define c where "c = (drop_bit (8 - m) (last (packed idx)) = drop_bit (8 - m) (BRSHA256 d ! 0))"
  have "(length idx mod 3 = 0 \<and> (rest = None \<or> rest = Some [])) = True" using n assms(5) by simp
  then show ?thesis
    unfolding BRBIP39Decode_def assms(1) bind.bind_lunit prod.case Let_def packed_def [symmetric] n assms(6)
    by (simp only: if_True if_not_P [OF e] c_def [symmetric]) (cases c; cases out; simp add: decode_result_def ld)
qed

lemma decode_eq:
  assumes D: "decode_words wl 24 (Some p) = Some (idx, rest)" "length idx \<le> 24" "\<forall>x \<in> set idx. x < 2048"
  shows "(rest = None \<or> rest = Some []) \<and> phrase_data idx d \<Longrightarrow> BRBIP39Decode out wl p = Some (decode_result out d)"
    "\<not> (\<exists>d. (rest = None \<or> rest = Some []) \<and> phrase_data idx d) \<Longrightarrow> BRBIP39Decode out wl p = Some (0, out)"
proof -
  assume a: "(rest = None \<or> rest = Some []) \<and> phrase_data idx d"
  then obtain m where m: "0 < m" "m \<le> 8" "length idx = 3 * m" "d = take (4 * m) (packed idx)" "idx = seed_indexes d"
    unfolding phrase_data_def by blast
  have "idx = seed_indexes (take (4 * m) (packed idx))" using m(4,5) by metis
  then have c: "drop_bit (8 - m) (last (packed idx)) = drop_bit (8 - m) (BRSHA256 d ! 0)"
    using packed_checksum [OF m(3) D(3) m(1,2)] m(4) by metis
  show "BRBIP39Decode out wl p = Some (decode_result out d)"
    using decode_core [OF D(1) m(3,1,2) conjunct1 [OF a] m(4) [symmetric]] c by simp
next
  assume a: "\<not> (\<exists>d. (rest = None \<or> rest = Some []) \<and> phrase_data idx d)"
  show "BRBIP39Decode out wl p = Some (0, out)"
  proof (cases "length idx mod 3 = 0 \<and> (rest = None \<or> rest = Some [])")
    case False
    then have "(length idx mod 3 = 0 \<and> (rest = None \<or> rest = Some [])) = False" by simp
    then show ?thesis
      unfolding BRBIP39Decode_def D(1) bind.bind_lunit prod.case Let_def by (simp only: if_False prod.case) (cases out; simp)
  next
    case True
    define m where "m = length idx div 3"
    have m: "length idx = 3 * m" "m \<le> 8" using True D(2) by (auto simp: m_def)
    show ?thesis
    proof (cases "m = 0")
      case m0: True
      then have "idx = []" using m by simp
      then show ?thesis using True by (cases out) (auto simp: BRBIP39Decode_def D(1) put_def)
    next
      case False
      then have "0 < m" by simp
      let ?d = "take (4 * m) (packed idx)"
      have "idx \<noteq> seed_indexes ?d"
      proof
        assume "idx = seed_indexes ?d"
        then have "phrase_data idx ?d" unfolding phrase_data_def using \<open>0 < m\<close> m by metis
        then show False using a True by blast
      qed
      then have "drop_bit (8 - m) (last (packed idx)) \<noteq> drop_bit (8 - m) (BRSHA256 ?d ! 0)"
        using packed_checksum [OF m(1) D(3) \<open>0 < m\<close> m(2)] by blast
      then show ?thesis using decode_core [OF D(1) m(1) \<open>0 < m\<close> m(2) conjunct2 [OF True] refl] by simp
    qed
  qed
qed

lemma phrase_data_iff: "phrase_data idx d \<longleftrightarrow> (\<exists>m. 0 < m \<and> m \<le> 8 \<and> length d = 4 * m \<and> idx = seed_indexes d)"
proof
  assume "phrase_data idx d"
  then obtain m where m: "0 < m" "m \<le> 8" "length idx = 3 * m" "d = take (4 * m) (packed idx)" "idx = seed_indexes d"
    unfolding phrase_data_def by blast
  have "length d = 4 * m" using arg_cong [OF m(4), of length] length_packed [OF m(3,1,2)] by simp
  then show "\<exists>m. 0 < m \<and> m \<le> 8 \<and> length d = 4 * m \<and> idx = seed_indexes d"
    using m(1,2,5) by (intro exI [of _ m] conjI)
next
  assume "\<exists>m. 0 < m \<and> m \<le> 8 \<and> length d = 4 * m \<and> idx = seed_indexes d"
  then obtain m where m: "0 < m" "m \<le> 8" "length d = 4 * m" "idx = seed_indexes d" by blast
  show "phrase_data idx d"
    unfolding phrase_data_def
  proof (intro exI conjI)
    show "0 < m" "m \<le> 8" "idx = seed_indexes d" by (fact m)+
    show "length idx = 3 * m" using seed_indexes_spec(1) [OF m(3,2)] m(4) by simp
    show "d = take (4 * m) (packed idx)" unfolding m(4) using take_packed_seed [OF m(3,1,2)] by simp
  qed
qed

text \<open>A buffer that holds \<open>c\<close> and zeros behind it, cut to its length.\<close>

definition held :: "nat \<Rightarrow> bytes \<Rightarrow> bytes" where
  "held L c = take L (c @ replicate L 0)"

lemma length_held [simp]: "length (held L c) = L"
  by (simp add: held_def)

lemma held_space: "(if length c < L then (held L c)[length c := 0x20] else held L c) = held L (c @ [0x20])"
  by (rule nth_equalityI) (auto simp: held_def nth_append nth_list_update)

lemma strncpy_held: "length c < L \<Longrightarrow> take (length c) p = c \<Longrightarrow> length p = L \<Longrightarrow> strncpy_rest p (length c) w = held L (c @ w)"
  by (simp add: strncpy_rest_def put_def held_def min_def)

lemma held_word:
  "(if length c < L then strncpy_rest (held L c) (length c) w else held L c) = held L (c @ w)"
proof (cases "length c < L")
  case True
  then show ?thesis using strncpy_held [OF True, of "held L c" w] by (simp add: held_def)
qed (simp add: held_def)

lemma encode_rest:
  assumes wl: "words_ok wl" and "\<forall>i \<in> set is. 0 < i \<and> (\<exists>x < 2048. word_bits buf i = Some x)"
  shows "encode_words wl buf is None n = Some (None, n + length (concat (map (\<lambda>i. 0x20 # wl ! the (word_bits buf i)) is)))"
    "encode_words wl buf is (Some (held L c)) (length c) =
       (let c' = c @ concat (map (\<lambda>i. 0x20 # wl ! the (word_bits buf i)) is) in Some (Some (held L c'), length c'))"
  using assms(2)
proof (induction "is" arbitrary: n c)
  case Nil
  { case 1 show ?case by simp next case 2 show ?case by simp }
next
  case (Cons i "is")
  { case 1
    then obtain x where x: "0 < i" "x < 2048" "word_bits buf i = Some x" by auto
    then show ?case using words_okD(4) [OF wl x(2)] 1 Cons.IH(1) by simp
  next
    case 2
    then obtain x where x: "0 < i" "x < 2048" "word_bits buf i = Some x" by auto
    note rd = words_okD(4) [OF wl x(2)]
    have sp: "map_option (\<lambda>p. if i > 0 \<and> length c < length p then p[length c := 0x20] else p) (Some (held L c)) = Some (held L (c @ [0x20]))"
      using held_space [of c L] x(1) by simp
    have wd: "(if Suc (length c) < L then strncpy_rest (held L (c @ [0x20])) (Suc (length c)) (wl ! x) else held L (c @ [0x20]))
        = held L (c @ 0x20 # wl ! x)"
      using held_word [of "c @ [0x20]" L "wl ! x"] by (auto split: if_splits)
    have "encode_words wl buf (i # is) (Some (held L c)) (length c) = encode_words wl buf is (Some (held L ((c @ [0x20]) @ wl ! x))) (length ((c @ [0x20]) @ wl ! x))"
      using x(1) unfolding encode_words.simps x(3) bind.bind_lunit rd Let_def sp
      by (cases "Suc (length c) < L") (use wd in simp_all)
    then show ?case using Cons.IH(2) [of "(c @ [0x20]) @ wl ! x"] 2 x by (simp add: Let_def)
  }
qed

lemma encode_eq:
  assumes wl: "words_ok wl" and d: "length d = 4 * m" "0 < m" "m \<le> 8"
  defines "p \<equiv> phrase_of wl (seed_indexes d)"
  shows "BRBIP39Encode None wl (Some d) = Some (length p + 1, None)"
    "BRBIP39Encode (Some buf) wl (Some d) = Some (if length p + 1 \<le> length buf then length p + 1 else 0, Some (held (length buf) p))"
proof -
  let ?b = "d @ BRSHA256 d"
  let ?tl = "concat (map (\<lambda>i. 0x20 # wl ! the (word_bits ?b i)) [1..<3 * m])"
  have n: "length d * 3 div 4 = 3 * m" "length d mod 4 = 0" using d by simp_all
  have up: "[0..<3 * m] = 0 # [1..<3 * m]" using d(2) by (simp add: upt_rec)
  have ws: "\<exists>x < 2048. word_bits ?b i = Some x" if "i < 3 * m" for i using seed_words [OF d(1,3) that] by metis
  then have r: "\<forall>i \<in> set [1..<3 * m]. 0 < i \<and> (\<exists>x < 2048. word_bits ?b i = Some x)" by simp
  obtain x where x: "word_bits ?b 0 = Some x" "x < 2048" using ws [of 0] d(2) by auto
  have "seed_indexes d = map (\<lambda>i. the (word_bits ?b i)) [0..<3 * m]" unfolding seed_indexes_def n ..
  then have p: "p = wl ! x @ ?tl" using x(1) unfolding p_def up by (simp add: phrase_of_def comp_def)
  note rd = words_okD(4) [OF wl x(2)]
  show "BRBIP39Encode None wl (Some d) = Some (length p + 1, None)"
    using encode_rest(1) [OF wl r, of "length (wl ! x)"] x(1) rd by (simp add: BRBIP39Encode_def n up p del: upt_Suc)
  have w0: "(if 0 < length buf then strncpy_rest buf 0 (wl ! x) else buf) = held (length buf) (wl ! x)"
    using strncpy_held [of "[]" "length buf" buf "wl ! x"] by (auto simp: held_def)
  show "BRBIP39Encode (Some buf) wl (Some d) = Some (if length p + 1 \<le> length buf then length p + 1 else 0, Some (held (length buf) p))"
    using encode_rest(2) [OF wl r, of "length buf" "wl ! x"] x(1) rd
    by (simp add: BRBIP39Encode_def n up p w0 [simplified] Let_def del: upt_Suc)
qed

section \<open>The properties\<close>

lemma seed_length:
  assumes "length d mod 4 = 0" "0 < length d" "length d \<le> 32"
  obtains m where "length d = 4 * m" "0 < m" "m \<le> 8"
proof -
  have "length d = 4 * (length d div 4)" using assms(1) by presburger
  then show thesis using that [of "length d div 4"] assms(2,3) by linarith
qed

lemma phrase_chars:
  assumes "words_ok wl" "\<forall>x \<in> set idx. x < 2048"
  shows "0 \<notin> set (phrase_of wl idx)"
  using assms(2)
proof (induction idx)
  case Nil
  then show ?case by (simp add: phrase_of_def)
next
  case (Cons i "is")
  then show ?case using words_okD(3) [OF assms(1)] by (auto simp: phrase_of_Cons)
qed

lemma phrase_decode_encoded:
  assumes wl: "words_ok wl" and d: "length d = 4 * m" "0 < m" "m \<le> 8" and p: "p \<in> {phrase_of wl (seed_indexes d), phrase_of wl (seed_indexes d) @ [0x20]}"
    and rest: "decode_words wl 24 (Some p) = Some (seed_indexes d, rest)" "rest = None \<or> rest = Some []"
  shows "BRBIP39Decode out wl p = Some (decode_result out d)"
proof -
  note S = seed_indexes_spec [OF d(1,3)]
  have "phrase_data (seed_indexes d) d" unfolding phrase_data_iff using d by blast
  then show ?thesis using decode_eq(1) [OF rest(1)] S(1,2) d(3) rest(2) by simp
qed

lemma decode_phrase_space:
  assumes wl: "words_ok wl" and "idx \<noteq> []" "length idx \<le> n" "\<forall>i \<in> set idx. i < 2048"
  shows "decode_words wl n (Some (phrase_of wl idx @ [0x20])) = Some (idx, Some [])"
  using assms(2-4)
proof (induction idx arbitrary: n)
  case Nil
  then show ?case by simp
next
  case (Cons i "is")
  then obtain m where n: "n = Suc m" by (cases n) auto
  let ?p = "phrase_of wl (i # is) @ [0x20]" and ?r = "if is = [] then [0x20] else 0x20 # phrase_of wl is @ [0x20]"
  have i: "i < 2048" using Cons.prems by simp
  have p: "?p = wl ! i @ ?r" by (simp add: phrase_of_Cons)
  have "word_matches ?p (wl ! j) \<longleftrightarrow> j = i" if "j < 2048" for j
    unfolding p using word_matches_front [OF wl i that, of ?r] by auto
  then have "find_word wl ?p BIP39_WORDLIST_COUNT 0 = Some (Some i)" using i by (intro find_word_unique [OF wl]) auto
  moreover have "decode_words wl m (next_word ?p) = Some (is, Some [])"
  proof (cases "is = []")
    case True
    then have "next_word ?p = Some []" unfolding p using next_word_front(2) [OF words_okD(2) [OF wl i], of "[]"] by simp
    then show ?thesis using True by (cases m) simp_all
  next
    case False
    then have "next_word ?p = Some (phrase_of wl is @ [0x20])" using next_word_front(2) [OF words_okD(2) [OF wl i]] by (simp add: p)
    then show ?thesis using Cons False n by simp
  qed
  ultimately show ?case by (simp add: n)
qed

text \<open>C7: for every word list of 2048 different words without spaces and every seed of 4 to 32 bytes in whole
  words of 32 bits, encoding gives a phrase without NUL and the size reported for it; the phrase is
  written with its NUL into every buffer that holds it, and 0 is returned for every other; and decoding
  the phrase gives the seed back, with the same care for the size of the buffer.\<close>

theorem bip39_roundtrip:
  assumes "words_ok wl" "length d mod 4 = 0" "0 < length d" "length d \<le> 32"
  shows "\<exists>p. 0 \<notin> set p \<and> BRBIP39Encode None wl (Some d) = Some (length p + 1, None) \<and>
    (\<forall>buf. length p < length buf \<longrightarrow>
      BRBIP39Encode (Some buf) wl (Some d) = Some (length p + 1, Some (p @ replicate (length buf - length p) 0))) \<and>
    (\<forall>buf. length buf \<le> length p \<longrightarrow> map_option fst (BRBIP39Encode (Some buf) wl (Some d)) = Some 0) \<and>
    BRBIP39Decode None wl p = Some (length d, None) \<and>
    (\<forall>out. BRBIP39Decode (Some out) wl p =
      Some (if length d \<le> length out then (length d, Some (d @ drop (length d) out)) else (0, Some out))) \<and>
    BRBIP39PhraseIsValid wl p = Some True"
proof -
  obtain m where m: "length d = 4 * m" "0 < m" "m \<le> 8" using seed_length [OF assms(2-4)] .
  note S = seed_indexes_spec [OF m(1,3)]
  let ?p = "phrase_of wl (seed_indexes d)"
  have ne: "seed_indexes d \<noteq> []" using S(1) m(2) by auto
  have "decode_words wl 24 (Some ?p) = Some (seed_indexes d, None)"
    using decode_phrase [OF assms(1) _ S(2)] S(1) m(3) ne by simp
  then have dec: "BRBIP39Decode out wl ?p = Some (decode_result out d)" for out
    by (intro phrase_decode_encoded [OF assms(1) m]) auto
  note E = encode_eq [OF assms(1) m]
  show ?thesis
    using phrase_chars [OF assms(1) S(2)] E dec assms(3)
    by (intro exI [of _ ?p]) (auto simp: held_def decode_result_def BRBIP39PhraseIsValid_def put_0)
qed

definition example_words :: "bytes list" where
  "example_words = map (\<lambda>i. [of_nat (33 + i div 64), of_nat (33 + i mod 64)]) [0..<2048]"

lemma example_words_ok: "words_ok example_words"
proof -
  have small: "unat (of_nat (33 + k) :: u8) = 33 + k" if "k < 64" for k using that by (simp only: unat_of_nat) simp
  have k: "i div 64 < 64" "i mod 64 < 64" if "i < 2048" for i :: nat using that by (auto simp: div_less_iff_less_mult)
  have "inj_on (\<lambda>i. [of_nat (33 + i div 64), of_nat (33 + i mod 64) :: u8]) {0..<2048}"
  proof (rule inj_onI)
    fix i j :: nat assume ij: "i \<in> {0..<2048}" "j \<in> {0..<2048}"
      "[of_nat (33 + i div 64), of_nat (33 + i mod 64) :: u8] = [of_nat (33 + j div 64), of_nat (33 + j mod 64)]"
    then have "33 + i div 64 = 33 + j div 64" "33 + i mod 64 = 33 + j mod 64" using small k by (metis atLeastLessThan_iff list.inject)+
    then show "i = j" by (metis add_left_cancel div_mult_mod_eq)
  qed
  moreover have "(of_nat (33 + k) :: u8) \<noteq> 0x20 \<and> (of_nat (33 + k) :: u8) \<noteq> 0" if "k < 64" for k
  proof -
    have "x \<noteq> 0x20 \<and> x \<noteq> 0" if "33 \<le> unat x" for x :: u8 using that by auto
    then show ?thesis using small [OF that] by simp
  qed
  ultimately show ?thesis
    using k by (auto simp: words_ok_def example_words_def distinct_map)
qed

text \<open>C24: a phrase is valid exactly when it is the encoding of a seed of 4 to 32 bytes, alone or followed by one
  space; the check returns for every string.\<close>

theorem bip39_valid_iff:
  assumes "words_ok wl"
  shows "\<exists>v. BRBIP39PhraseIsValid wl p = Some v \<and> (v \<longleftrightarrow> (\<exists>d q. length d mod 4 = 0 \<and> 0 < length d \<and> length d \<le> 32 \<and>
    BRBIP39Encode (Some (replicate (length q + 1) 0)) wl (Some d) = Some (length q + 1, Some (q @ [0])) \<and>
    (p = q \<or> p = q @ [0x20])))"
proof -
  obtain idx rest where D: "decode_words wl 24 (Some p) = Some (idx, rest)" "length idx \<le> 24" "\<forall>i \<in> set idx. i < 2048"
    "rest = None \<longrightarrow> idx \<noteq> [] \<and> p = phrase_of wl idx"
    "rest = Some [] \<longrightarrow> (if idx = [] then p = [] else p = phrase_of wl idx @ [0x20])"
    using decode_words_sound [OF assms, of 24 p] by blast
  have enc: "BRBIP39Encode (Some (replicate (length q + 1) 0)) wl (Some d) = Some (length q + 1, Some (q @ [0])) \<longleftrightarrow>
      q = phrase_of wl (seed_indexes d)" if "length d = 4 * m" "0 < m" "m \<le> 8" for d m q
    using encode_eq(2) [OF assms that, of "replicate (length q + 1) 0"] by (auto simp: held_def)
  show ?thesis
  proof (cases "\<exists>d. (rest = None \<or> rest = Some []) \<and> phrase_data idx d")
    case True
    then obtain d m where d: "rest = None \<or> rest = Some []" "phrase_data idx d" "0 < m" "m \<le> 8" "length d = 4 * m" "idx = seed_indexes d"
      using phrase_data_iff by blast
    then have valid: "BRBIP39PhraseIsValid wl p = Some True"
      using decode_eq(1) [OF D(1-3)] by (auto simp: BRBIP39PhraseIsValid_def decode_result_def)
    have "idx \<noteq> []" using seed_indexes_spec(1) [OF d(5,4)] d(3,6) by auto
    then have "p = phrase_of wl idx \<or> p = phrase_of wl idx @ [0x20]" using D(4,5) d(1) by auto
    moreover have "length d mod 4 = 0" "0 < length d" "length d \<le> 32" using d(3-5) by auto
    moreover have "BRBIP39Encode (Some (replicate (length (phrase_of wl idx) + 1) 0)) wl (Some d) =
        Some (length (phrase_of wl idx) + 1, Some (phrase_of wl idx @ [0]))"
      unfolding enc [OF d(5,3,4)] d(6) [symmetric] ..
    ultimately have "\<exists>d q. length d mod 4 = 0 \<and> 0 < length d \<and> length d \<le> 32 \<and>
        BRBIP39Encode (Some (replicate (length q + 1) 0)) wl (Some d) = Some (length q + 1, Some (q @ [0])) \<and>
        (p = q \<or> p = q @ [0x20])" by (intro exI [of _ d] exI [of _ "phrase_of wl idx"] conjI)
    then show ?thesis using valid by (intro exI [of _ True] conjI iffI TrueI)
  next
    case False
    then have inv: "BRBIP39PhraseIsValid wl p = Some False"
      using decode_eq(2) [OF D(1-3)] by (simp add: BRBIP39PhraseIsValid_def)
    have no: False if d: "length d mod 4 = 0" "0 < length d" "length d \<le> 32"
      and e: "BRBIP39Encode (Some (replicate (length q + 1) 0)) wl (Some d) = Some (length q + 1, Some (q @ [0]))"
      and pq: "p = q \<or> p = q @ [0x20]" for d q
    proof -
      obtain m where m: "length d = 4 * m" "0 < m" "m \<le> 8" using seed_length [OF d] .
      note S = seed_indexes_spec [OF m(1,3)]
      have ne: "seed_indexes d \<noteq> []" using S(1) m(2) by auto
      have q: "q = phrase_of wl (seed_indexes d)" using enc [OF m] e by blast
      have "decode_words wl 24 (Some p) = Some (seed_indexes d, if p = q then None else Some [])"
        using pq decode_phrase [OF assms _ S(2), of 24] decode_phrase_space [OF assms ne _ S(2), of 24] S(1) m(3) ne by (auto simp: q)
      then have "idx = seed_indexes d" "rest = None \<or> rest = Some []" using D(1) by auto
      then show False using False phrase_data_iff m by blast
    qed
    show ?thesis
      by (rule exI [of _ False], rule conjI [OF inv]) (metis no)
  qed
qed

lemma bip39_roundtrip_witness: "\<exists>p. BRBIP39Encode None example_words (Some [1, 2, 3, 4]) = Some (length p + 1, None) \<and>
    BRBIP39Decode None example_words p = Some (4, None)"
  using bip39_roundtrip [OF example_words_ok, of "[1, 2, 3, 4]"] by auto

lemma bip39_valid_iff_witness: "\<exists>v. BRBIP39PhraseIsValid example_words [0x41, 0x42] = Some v"
  using bip39_valid_iff [OF example_words_ok, of "[0x41, 0x42]"] by blast

end
