(* ===== verification/Keys.thy ===== *)
theory Keys
  imports Address
begin

text \<open>
  \<^verbatim>\<open>BRKey.c\<close>: private and public keys, their import formats, addresses and signatures. The curve library
  \<^verbatim>\<open>libsecp256k1\<close> is a parameter: a record of the functions the code calls, over its own types of points and
  signatures. A call that gives the library an argument it rejects by its callback, which ends the program,
  is \<open>None\<close>. A 256 bit integer is given to the library as the 32 bytes it has in memory.
\<close>

section \<open>The curve library\<close>

text \<open>\<open>ec_privkey_tweak_add\<close> and \<open>ec_privkey_tweak_mul\<close> return whether they succeeded and what they store. The
  flag of \<open>ec_pubkey_serialize\<close> is \<open>SECP256K1_EC_COMPRESSED\<close>. A recoverable signature is its 64 compact bytes
  and its recovery id.\<close>

record ('p, 's) secp256k1 =
  ec_seckey_verify :: "uint256 \<Rightarrow> bool"
  ec_privkey_tweak_add :: "uint256 \<Rightarrow> uint256 \<Rightarrow> bool \<times> uint256"
  ec_privkey_tweak_mul :: "uint256 \<Rightarrow> uint256 \<Rightarrow> bool \<times> uint256"
  ec_pubkey_create :: "uint256 \<Rightarrow> 'p option"
  ec_pubkey_parse :: "bytes \<Rightarrow> 'p option"
  ec_pubkey_serialize :: "bool \<Rightarrow> 'p \<Rightarrow> bytes"
  ec_pubkey_tweak_add :: "'p \<Rightarrow> uint256 \<Rightarrow> 'p option"
  ec_pubkey_tweak_mul :: "'p \<Rightarrow> uint256 \<Rightarrow> 'p option"
  ec_sign :: "uint256 \<Rightarrow> uint256 \<Rightarrow> 's option"
  ec_signature_der :: "'s \<Rightarrow> bytes"
  ec_signature_parse_der :: "bytes \<Rightarrow> 's option"
  ec_verify :: "'s \<Rightarrow> uint256 \<Rightarrow> 'p \<Rightarrow> bool"
  ec_sign_recoverable :: "uint256 \<Rightarrow> uint256 \<Rightarrow> (bytes \<times> nat) option"
  ec_recover :: "bytes \<Rightarrow> nat \<Rightarrow> uint256 \<Rightarrow> 'p option"

section \<open>Arithmetic of scalars and points\<close>

text \<open>Points are the 33 bytes of their compressed form. The failed branches of the point operations leave
  what is stored at \<open>p\<close> as it was.\<close>

definition BRSecp256k1ModAdd :: "('p, 's) secp256k1 \<Rightarrow> uint256 \<Rightarrow> uint256 \<Rightarrow> bool \<times> uint256" where
  "BRSecp256k1ModAdd ec a b = ec_privkey_tweak_add ec a b"

definition BRSecp256k1ModMul :: "('p, 's) secp256k1 \<Rightarrow> uint256 \<Rightarrow> uint256 \<Rightarrow> bool \<times> uint256" where
  "BRSecp256k1ModMul ec a b = ec_privkey_tweak_mul ec a b"

definition BRSecp256k1PointGen :: "('p, 's) secp256k1 \<Rightarrow> bytes \<Rightarrow> uint256 \<Rightarrow> bool \<times> bytes" where
  "BRSecp256k1PointGen ec p i =
     (case ec_pubkey_create ec i of None \<Rightarrow> (False, p) | Some pk \<Rightarrow> (True, ec_pubkey_serialize ec True pk))"

definition BRSecp256k1PointAdd :: "('p, 's) secp256k1 \<Rightarrow> bytes \<Rightarrow> uint256 \<Rightarrow> bool \<times> bytes" where
  "BRSecp256k1PointAdd ec p i =
     (case ec_pubkey_parse ec p of None \<Rightarrow> (False, p) | Some pk \<Rightarrow>
      case ec_pubkey_tweak_add ec pk i of None \<Rightarrow> (False, p) | Some pk \<Rightarrow> (True, ec_pubkey_serialize ec True pk))"

definition BRSecp256k1PointMul :: "('p, 's) secp256k1 \<Rightarrow> bytes \<Rightarrow> uint256 \<Rightarrow> bool \<times> bytes" where
  "BRSecp256k1PointMul ec p i =
     (case ec_pubkey_parse ec p of None \<Rightarrow> (False, p) | Some pk \<Rightarrow>
      case ec_pubkey_tweak_mul ec pk i of None \<Rightarrow> (False, p) | Some pk \<Rightarrow> (True, ec_pubkey_serialize ec True pk))"

section \<open>Private key strings\<close>

definition privkey_prefix :: "bool \<Rightarrow> u8" where
  "privkey_prefix testnet = (if testnet then 239 else 128)"

definition is_hex :: "u8 \<Rightarrow> bool" where
  "is_hex c \<longleftrightarrow> 48 \<le> c \<and> c \<le> 57 \<or> 65 \<le> c \<and> c \<le> 70 \<or> 97 \<le> c \<and> c \<le> 102"

definition mini_key :: "bytes \<Rightarrow> bool" where
  "mini_key privKey \<longleftrightarrow> (length privKey = 30 \<or> length privKey = 22) \<and> privKey ! 0 = 0x53"

definition BRPrivKeyIsValid :: "bool \<Rightarrow> bytes \<Rightarrow> bool" where
  "BRPrivKeyIsValid testnet privKey =
     (let (dataLen, data) = BRBase58CheckDecode (Some (replicate 34 0)) privKey in
      if dataLen = 33 \<or> dataLen = 34 then the data ! 0 = privkey_prefix testnet
      else if mini_key privKey then BRSHA256 (privKey @ [0x3f]) ! 0 = 0
      else length (takeWhile is_hex privKey) = 64)"

text \<open>\<open>sscanf(s, "%2hhx", &b)\<close>: white space is skipped, then at most two characters are read: two digits, one
  digit in front of something else, or a sign and a digit.\<close>

definition is_space :: "u8 \<Rightarrow> bool" where
  "is_space c \<longleftrightarrow> c = 32 \<or> 9 \<le> c \<and> c \<le> 13"

definition sscanf_2hhx :: "bytes \<Rightarrow> u8 option" where
  "sscanf_2hhx s =
     (case dropWhile is_space s of
        [] \<Rightarrow> None
      | c # r \<Rightarrow>
          let d = (case r of [] \<Rightarrow> 0 | d # _ \<Rightarrow> d) in
          if is_hex c then
            if is_hex d then Some (16 * hexu c + hexu d)
            else if c = 0x30 \<and> (d = 0x78 \<or> d = 0x58) then None
            else Some (hexu c)
          else if (c = 0x2b \<or> c = 0x2d) \<and> is_hex d then Some (if c = 0x2d then - hexu d else hexu d)
          else None)"

text \<open>The next \<open>n\<close> bytes of a hex string, from the one at \<open>len\<close>.\<close>

fun hex_bytes :: "bytes \<Rightarrow> nat \<Rightarrow> nat \<Rightarrow> bytes \<Rightarrow> nat \<times> bytes" where
  "hex_bytes privKey 0 len data = (len, data)"
| "hex_bytes privKey (Suc n) len data =
     (if len * 2 + 1 < length privKey then
        case sscanf_2hhx (drop (len * 2) privKey) of
          None \<Rightarrow> (len, data)
        | Some b \<Rightarrow> hex_bytes privKey n (len + 1) (data[len := b])
      else (len, data))"

section \<open>Keys\<close>

record BRKey =
  key_secret :: uint256
  key_pubKey :: bytes
  key_compressed :: bool

definition BRKeyClean :: BRKey where
  "BRKeyClean = \<lparr>key_secret = 0, key_pubKey = replicate 65 0, key_compressed = False\<rparr>"

definition BRKeySetSecret :: "('p, 's) secp256k1 \<Rightarrow> uint256 \<Rightarrow> bool \<Rightarrow> bool \<times> BRKey" where
  "BRKeySetSecret ec secret compressed =
     (ec_seckey_verify ec secret, BRKeyClean\<lparr>key_secret := secret, key_compressed := compressed\<rparr>)"

text \<open>The bytes a string stands for that is not a mini key, in the 34 bytes of \<open>data\<close>.\<close>

definition privkey_data :: "bytes \<Rightarrow> nat \<times> bytes" where
  "privkey_data privKey =
     (let (len, data) = BRBase58CheckDecode (Some (replicate 34 0)) privKey;
          (len, data) = (if len = 0 \<or> len = 28 then BRBase58Decode data privKey else (len, data));
          data = the data
      in if len < 32 \<or> len > 34 then hex_bytes privKey 34 0 data else (len, data))"

definition BRKeySetPrivKey :: "('p, 's) secp256k1 \<Rightarrow> bool \<Rightarrow> BRKey \<Rightarrow> bytes \<Rightarrow> bool \<times> BRKey" where
  "BRKeySetPrivKey ec testnet key privKey =
     (if mini_key privKey then
        if \<not> BRPrivKeyIsValid testnet privKey then (False, key)
        else BRKeySetSecret ec (UInt256Get (BRSHA256 privKey)) False
      else
        let (len, data) = privkey_data privKey in
        if (len = 33 \<or> len = 34) \<and> data ! 0 = privkey_prefix testnet
        then BRKeySetSecret ec (UInt256Get (drop 1 data)) (len = 34)
        else if len = 32 then BRKeySetSecret ec (UInt256Get data) False
        else (False, key))"

text \<open>A longer public key than 65 bytes would be written behind the array.\<close>

definition BRKeySetPubKey :: "('p, 's) secp256k1 \<Rightarrow> bytes \<Rightarrow> (bool \<times> BRKey) run" where
  "BRKeySetPubKey ec pubKey =
     (if length pubKey > 65 then None
      else Some (ec_pubkey_parse ec pubKey \<noteq> None,
        BRKeyClean\<lparr>key_pubKey := put (replicate 65 0) 0 pubKey, key_compressed := (length pubKey \<le> 33)\<rparr>))"

definition BRKeyPrivKey :: "('p, 's) secp256k1 \<Rightarrow> bool \<Rightarrow> BRKey \<Rightarrow> bytes option \<Rightarrow> nat \<times> bytes option" where
  "BRKeyPrivKey ec testnet key privKey =
     (if ec_seckey_verify ec (key_secret key) then
        BRBase58CheckEncode privKey
          (privkey_prefix testnet # UInt256Set (key_secret key) @ (if key_compressed key then [1] else []))
      else (0, privKey))"

text \<open>The size of the public key, computed when it is not there yet, and the key that keeps it.\<close>

definition key_fill :: "('p, 's) secp256k1 \<Rightarrow> BRKey \<Rightarrow> nat \<times> BRKey" where
  "key_fill ec key =
     (let sz = (if key_compressed key then 33 else 65) in
      if take sz (key_pubKey key) = replicate sz 0 then
        case ec_pubkey_create ec (key_secret key) of
          None \<Rightarrow> (0, key)
        | Some pk \<Rightarrow>
            let b = ec_pubkey_serialize ec (key_compressed key) pk
            in (length b, key\<lparr>key_pubKey := put (key_pubKey key) 0 b\<rparr>)
      else (sz, key))"

definition BRKeyPubKey :: "('p, 's) secp256k1 \<Rightarrow> BRKey \<Rightarrow> bytes option \<Rightarrow> nat \<times> bytes option \<times> BRKey" where
  "BRKeyPubKey ec key pubKey =
     (let (sz, key) = key_fill ec key; (n, pubKey) = store_if_fits pubKey (take sz (key_pubKey key))
      in (n, pubKey, key))"

definition BRKeyHash160 :: "('p, 's) secp256k1 \<Rightarrow> BRKey \<Rightarrow> uint160 \<times> BRKey" where
  "BRKeyHash160 ec key =
     (let (len, _, key) = BRKeyPubKey ec key None;
          pk = take len (key_pubKey key)
      in (if len > 0 \<and> ec_pubkey_parse ec pk \<noteq> None then UInt160Get (BRHash160 pk) else 0, key))"

definition BRKeyAddress :: "('p, 's) secp256k1 \<Rightarrow> bool \<Rightarrow> BRKey \<Rightarrow> bytes option \<Rightarrow> nat \<times> bytes option \<times> BRKey" where
  "BRKeyAddress ec testnet key addr =
     (let (hash, key) = BRKeyHash160 ec key in
      if \<not> UInt160IsZero hash then
        let (n, addr) = BRBase58CheckEncode addr (pubkey_prefix testnet # UInt160Set hash) in (n, addr, key)
      else (0, addr, key))"

section \<open>Signatures\<close>

text \<open>The library rejects a null pointer for \<open>sig\<close>, and writes nothing when the signature does not fit.\<close>

definition BRKeySign :: "('p, 's) secp256k1 \<Rightarrow> BRKey \<Rightarrow> bytes option \<Rightarrow> uint256 \<Rightarrow> (nat \<times> bytes option) run" where
  "BRKeySign ec key sig md =
     (case ec_sign ec md (key_secret key) of
        None \<Rightarrow> Some (0, sig)
      | Some s \<Rightarrow> case sig of None \<Rightarrow> None | Some _ \<Rightarrow> Some (store_if_fits sig (ec_signature_der ec s)))"

definition BRKeyVerify :: "('p, 's) secp256k1 \<Rightarrow> BRKey \<Rightarrow> uint256 \<Rightarrow> bytes \<Rightarrow> bool \<times> BRKey" where
  "BRKeyVerify ec key md sig =
     (let (len, _, key) = BRKeyPubKey ec key None in
      (len > 0 \<and> (case ec_pubkey_parse ec (take len (key_pubKey key)) of None \<Rightarrow> False | Some pk \<Rightarrow>
         case ec_signature_parse_der ec sig of None \<Rightarrow> False | Some s \<Rightarrow> ec_verify ec s md pk), key))"

definition BRKeyCompactSign :: "('p, 's) secp256k1 \<Rightarrow> BRKey \<Rightarrow> bytes option \<Rightarrow> uint256 \<Rightarrow> nat \<times> bytes option" where
  "BRKeyCompactSign ec key compactSig md =
     (if UInt256IsZero (key_secret key) then (0, compactSig)
      else case compactSig of
        None \<Rightarrow> (65, None)
      | Some b \<Rightarrow>
          if length b < 65 then (0, Some b)
          else case ec_sign_recoverable ec md (key_secret key) of
            None \<Rightarrow> (0, Some b)
          | Some (s, recid) \<Rightarrow>
              (65, Some (put b 0 (of_nat (27 + recid + (if key_compressed key then 4 else 0)) # s))))"

text \<open>The recovery id is a remainder with the sign of the first byte minus 27, and the library rejects a
  negative one.\<close>

definition BRKeyRecoverPubKey :: "('p, 's) secp256k1 \<Rightarrow> BRKey \<Rightarrow> uint256 \<Rightarrow> bytes \<Rightarrow> (bool \<times> BRKey) run" where
  "BRKeyRecoverPubKey ec key md compactSig =
     (if length compactSig \<noteq> 65 then Some (False, key)
      else
        let v = uint (compactSig ! 0) - 27; compressed = (v \<ge> 4);
            recid = (if v < 0 then - ((- v) mod 4) else v mod 4)
        in if recid < 0 then None
           else case ec_recover ec (drop 1 compactSig) (nat recid) md of
             None \<Rightarrow> Some (False, key)
           | Some pk \<Rightarrow> BRKeySetPubKey ec (ec_pubkey_serialize ec compressed pk))"

end
