(* ===== verification/Sequence.thy ===== *)
theory Sequence
  imports Keys Ciphers
begin

text \<open>
  \<^verbatim>\<open>BRBIP32Sequence.c\<close>: the hierarchy of keys derived from a seed. A derivation step on a private key hashes
  the buffer that \<open>BRSecp256k1PointGen\<close> should have filled; when that call fails the bytes are uninitialised,
  and the step is \<open>None\<close>. The results of the additions are stored whether they succeeded or not, as in the
  code. The functions for serialised master keys are stubs in the code and have no definition here.
\<close>

abbreviation BIP32_HARD :: u32 where "BIP32_HARD \<equiv> 0x80000000"

text \<open>\<open>Bitcoin seed\<close>\<close>

definition BIP32_SEED_KEY :: bytes where
  "BIP32_SEED_KEY = [0x42, 0x69, 0x74, 0x63, 0x6f, 0x69, 0x6e, 0x20, 0x73, 0x65, 0x65, 0x64]"

section \<open>Derivation steps\<close>

definition CKDpriv :: "('p, 's) secp256k1 \<Rightarrow> u32 \<Rightarrow> uint256 \<times> uint256 \<Rightarrow> (uint256 \<times> uint256) run" where
  "CKDpriv ec i kc =
     (let (k, c) = kc in do {
        buf \<leftarrow> (if i AND BIP32_HARD \<noteq> 0 then Some (0 # UInt256Set k)
          else let (ok, p) = BRSecp256k1PointGen ec (replicate 33 0) k in if ok then Some p else None);
        let I = BRHMAC BRSHA512 64 (UInt256Set c) (buf @ UInt32SetBE i);
        Some (snd (BRSecp256k1ModAdd ec k (UInt256Get I)), UInt256Get (drop 32 I))
      })"

definition CKDpub :: "('p, 's) secp256k1 \<Rightarrow> u32 \<Rightarrow> bytes \<times> uint256 \<Rightarrow> bytes \<times> uint256" where
  "CKDpub ec i Kc =
     (let (K, c) = Kc in
      if i AND BIP32_HARD = BIP32_HARD then (K, c)
      else let I = BRHMAC BRSHA512 64 (UInt256Set c) (K @ UInt32SetBE i)
        in (snd (BRSecp256k1PointAdd ec K (UInt256Get I)), UInt256Get (drop 32 I)))"

section \<open>The master key\<close>

record BRMasterPubKey =
  mpk_fingerPrint :: u32
  mpk_chainCode :: uint256
  mpk_pubKey :: bytes

definition BR_MASTER_PUBKEY_NONE :: BRMasterPubKey where
  "BR_MASTER_PUBKEY_NONE = \<lparr>mpk_fingerPrint = 0, mpk_chainCode = 0, mpk_pubKey = replicate 33 0\<rparr>"

text \<open>The secret and the chain code of a seed.\<close>

definition seed_secret :: "bytes \<Rightarrow> uint256 \<times> uint256" where
  "seed_secret seed = (let I = BRHMAC BRSHA512 64 BIP32_SEED_KEY seed in (UInt256Get I, UInt256Get (drop 32 I)))"

definition BRBIP32MasterPubKey :: "('p, 's) secp256k1 \<Rightarrow> bytes \<Rightarrow> BRMasterPubKey run" where
  "BRBIP32MasterPubKey ec seed = do {
     let (secret, chain) = seed_secret seed;
     let (_, key) = BRKeySetSecret ec secret True;
     let (h, _) = BRKeyHash160 ec key;
     (secret, chain) \<leftarrow> CKDpriv ec (0 OR BIP32_HARD) (secret, chain);
     let (_, key) = BRKeySetSecret ec secret True;
     let (_, pubKey, _) = BRKeyPubKey ec key (Some (replicate 33 0));
     Some \<lparr>mpk_fingerPrint = lane32 h 0, mpk_chainCode = chain, mpk_pubKey = the pubKey\<rparr>
   }"

definition BRBIP32PubKey ::
  "('p, 's) secp256k1 \<Rightarrow> bytes option \<Rightarrow> BRMasterPubKey \<Rightarrow> u32 \<Rightarrow> u32 \<Rightarrow> nat \<times> bytes option" where
  "BRBIP32PubKey ec pubKey mpk chain index =
     (case pubKey of
        None \<Rightarrow> (33, None)
      | Some b \<Rightarrow>
          if 33 \<le> length b then
            (33, Some (put b 0 (fst (CKDpub ec index (CKDpub ec chain (mpk_pubKey mpk, mpk_chainCode mpk))))))
          else (0, Some b))"

section \<open>Private keys\<close>

text \<open>The steps of a path from the seed on.\<close>

fun derive_path :: "('p, 's) secp256k1 \<Rightarrow> u32 list \<Rightarrow> uint256 \<times> uint256 \<Rightarrow> (uint256 \<times> uint256) run" where
  "derive_path ec [] kc = Some kc"
| "derive_path ec (i # is) kc = CKDpriv ec i kc \<bind> derive_path ec is"

definition BRBIP32PrivKeyPath :: "('p, 's) secp256k1 \<Rightarrow> bytes \<Rightarrow> u32 list \<Rightarrow> BRKey run" where
  "BRBIP32PrivKeyPath ec seed path = do {
     (secret, _) \<leftarrow> derive_path ec path (seed_secret seed);
     Some (snd (BRKeySetSecret ec secret True))
   }"

definition BRBIP32PrivKey :: "('p, 's) secp256k1 \<Rightarrow> bytes \<Rightarrow> u32 \<Rightarrow> u32 \<Rightarrow> BRKey run" where
  "BRBIP32PrivKey ec seed chain index = BRBIP32PrivKeyPath ec seed [0 OR BIP32_HARD, chain, index]"

fun derive_list :: "('p, 's) secp256k1 \<Rightarrow> uint256 \<times> uint256 \<Rightarrow> u32 list \<Rightarrow> BRKey list run" where
  "derive_list ec kc [] = Some []"
| "derive_list ec kc (i # is) = do {
     (s, _) \<leftarrow> CKDpriv ec i kc;
     keys \<leftarrow> derive_list ec kc is;
     Some (snd (BRKeySetSecret ec s True) # keys)
   }"

definition BRBIP32PrivKeyList :: "('p, 's) secp256k1 \<Rightarrow> bytes \<Rightarrow> u32 \<Rightarrow> u32 list \<Rightarrow> BRKey list run" where
  "BRBIP32PrivKeyList ec seed chain indexes =
     (if indexes = [] then Some []
      else derive_path ec [0 OR BIP32_HARD, chain] (seed_secret seed) \<bind> (\<lambda>kc. derive_list ec kc indexes))"

definition BRBIP32APIAuthKey :: "('p, 's) secp256k1 \<Rightarrow> bytes \<Rightarrow> BRKey run" where
  "BRBIP32APIAuthKey ec seed = BRBIP32PrivKeyPath ec seed [1 OR BIP32_HARD, 0]"

definition BRBIP32BitIDKey :: "('p, 's) secp256k1 \<Rightarrow> bytes \<Rightarrow> u32 \<Rightarrow> bytes \<Rightarrow> BRKey run" where
  "BRBIP32BitIDKey ec seed index uri =
     (let h = BRSHA256 (UInt32SetLE index @ uri)
      in BRBIP32PrivKeyPath ec seed ((13 OR BIP32_HARD) # map (\<lambda>j. UInt32GetLE (drop (4 * j) h) OR BIP32_HARD) [0..<4]))"

end
