(* ===== verification/KeySpec.thy ===== *)
theory KeySpec
  imports Keys Base58Spec
begin

text \<open>
  The keys of \<^verbatim>\<open>BRKey.c\<close>: what the import formats stand for, what the functions keep of a key, and the
  agreement of the two sides of a signature, from the documented behaviour of the curve library.
\<close>

section \<open>The documented behaviour of the curve library\<close>

text \<open>Valid secrets, of which zero is none, have a public key; a point is parsed from both of its encodings, which do not start with
  zero; adding a tweak to a secret and to its point fails for the same tweaks and gives corresponding
  results; signatures of a valid secret exist, fit 72 bytes, are parsed again and are verified; and the
  point is recovered from a recoverable signature.\<close>

definition ec_laws :: "('p, 's) secp256k1 \<Rightarrow> bool" where
  "ec_laws ec \<longleftrightarrow>
     ec_pubkey_create ec 0 = None \<and> (\<forall>k. ec_seckey_verify ec k \<longleftrightarrow> ec_pubkey_create ec k \<noteq> None) \<and>
     (\<forall>c p. length (ec_pubkey_serialize ec c p) = (if c then 33 else 65) \<and> ec_pubkey_serialize ec c p ! 0 \<noteq> 0 \<and>
        ec_pubkey_parse ec (ec_pubkey_serialize ec c p) = Some p) \<and>
     (\<forall>k p t. ec_pubkey_create ec k = Some p \<longrightarrow> (case ec_pubkey_tweak_add ec p t of
        None \<Rightarrow> \<not> fst (ec_privkey_tweak_add ec k t)
      | Some q \<Rightarrow> fst (ec_privkey_tweak_add ec k t) \<and> ec_pubkey_create ec (snd (ec_privkey_tweak_add ec k t)) = Some q)) \<and>
     (\<forall>k p md. ec_pubkey_create ec k = Some p \<longrightarrow> (\<exists>s. ec_sign ec md k = Some s \<and> length (ec_signature_der ec s) \<le> 72 \<and>
        ec_signature_der ec s \<noteq> [] \<and> ec_signature_parse_der ec (ec_signature_der ec s) = Some s \<and> ec_verify ec s md p)) \<and>
     (\<forall>k p md. ec_pubkey_create ec k = Some p \<longrightarrow> (\<exists>s r. ec_sign_recoverable ec md k = Some (s, r) \<and> length s = 64 \<and> r \<le> 3 \<and>
        ec_recover ec s r md = Some p))"

lemma ec_lawsD:
  assumes "ec_laws ec"
  shows "ec_pubkey_create ec 0 = None" "ec_seckey_verify ec k \<longleftrightarrow> ec_pubkey_create ec k \<noteq> None"
    "length (ec_pubkey_serialize ec c p) = (if c then 33 else 65)" "ec_pubkey_serialize ec c p ! 0 \<noteq> 0"
    "ec_pubkey_parse ec (ec_pubkey_serialize ec c p) = Some p"
    "ec_pubkey_create ec k = Some p \<Longrightarrow> ec_pubkey_tweak_add ec p t = Some q \<Longrightarrow>
      \<exists>k'. ec_privkey_tweak_add ec k t = (True, k') \<and> ec_pubkey_create ec k' = Some q"
    "ec_pubkey_create ec k = Some p \<Longrightarrow> ec_pubkey_tweak_add ec p t = None \<Longrightarrow> \<not> fst (ec_privkey_tweak_add ec k t)"
    "ec_pubkey_create ec k = Some p \<Longrightarrow> \<exists>s. ec_sign ec md k = Some s \<and> length (ec_signature_der ec s) \<le> 72 \<and>
        ec_signature_der ec s \<noteq> [] \<and> ec_signature_parse_der ec (ec_signature_der ec s) = Some s \<and> ec_verify ec s md p"
    "ec_pubkey_create ec k = Some p \<Longrightarrow> \<exists>s r. ec_sign_recoverable ec md k = Some (s, r) \<and> length s = 64 \<and> r \<le> 3 \<and>
        ec_recover ec s r md = Some p"
proof -
  note L = assms [unfolded ec_laws_def]
  show "ec_pubkey_create ec 0 = None" "ec_seckey_verify ec k \<longleftrightarrow> ec_pubkey_create ec k \<noteq> None"
    "length (ec_pubkey_serialize ec c p) = (if c then 33 else 65)" "ec_pubkey_serialize ec c p ! 0 \<noteq> 0"
    "ec_pubkey_parse ec (ec_pubkey_serialize ec c p) = Some p"
    using L by blast+
  note T = L [THEN conjunct2, THEN conjunct2, THEN conjunct2, THEN conjunct1, rule_format, of k p t]
  show "\<exists>k'. ec_privkey_tweak_add ec k t = (True, k') \<and> ec_pubkey_create ec k' = Some q"
    if "ec_pubkey_create ec k = Some p" "ec_pubkey_tweak_add ec p t = Some q"
    using T [OF that(1)] that(2) by (cases "ec_privkey_tweak_add ec k t") simp
  show "\<not> fst (ec_privkey_tweak_add ec k t)" if "ec_pubkey_create ec k = Some p" "ec_pubkey_tweak_add ec p t = None"
    using T [OF that(1)] that(2) by simp
  show "\<exists>s. ec_sign ec md k = Some s \<and> length (ec_signature_der ec s) \<le> 72 \<and>
        ec_signature_der ec s \<noteq> [] \<and> ec_signature_parse_der ec (ec_signature_der ec s) = Some s \<and> ec_verify ec s md p"
    if "ec_pubkey_create ec k = Some p" using L that by blast
  show "\<exists>s r. ec_sign_recoverable ec md k = Some (s, r) \<and> length s = 64 \<and> r \<le> 3 \<and> ec_recover ec s r md = Some p"
    if "ec_pubkey_create ec k = Some p" using L that by blast
qed

text \<open>A library with these laws: points are the secrets, addition is that of 256 bit words, and a signature is
  the secret. It has nothing of the security of the curve, but it computes.\<close>

definition toy_ec :: "(uint256, uint256) secp256k1" where
  "toy_ec = \<lparr>ec_seckey_verify = (\<lambda>k. k \<noteq> 0), ec_privkey_tweak_add = (\<lambda>k t. (k + t \<noteq> 0, k + t)),
     ec_privkey_tweak_mul = (\<lambda>k t. (k * t \<noteq> 0, k * t)), ec_pubkey_create = (\<lambda>k. if k \<noteq> 0 then Some k else None),
     ec_pubkey_parse = (\<lambda>b. Some (le_word (take 32 (drop 1 b)))),
     ec_pubkey_serialize = (\<lambda>c p. (if c then 2 else 4) # le_bytes 32 p @ (if c then [] else replicate 32 0)),
     ec_pubkey_tweak_add = (\<lambda>p t. if p + t \<noteq> 0 then Some (p + t) else None),
     ec_pubkey_tweak_mul = (\<lambda>p t. if p * t \<noteq> 0 then Some (p * t) else None),
     ec_sign = (\<lambda>md k. if k \<noteq> 0 then Some k else None), ec_signature_der = le_bytes 32,
     ec_signature_parse_der = (\<lambda>b. Some (le_word b)), ec_verify = (\<lambda>s md p. s = p),
     ec_sign_recoverable = (\<lambda>md k. if k \<noteq> 0 then Some (le_bytes 32 k @ replicate 32 0, 0) else None),
     ec_recover = (\<lambda>s r md. Some (le_word (take 32 s)))\<rparr>"

lemma toy_ec_laws: "ec_laws toy_ec"
proof -
  have ne: "le_bytes 32 x \<noteq> []" for x :: uint256
    using length_le_bytes [of 32 x] by (metis list.size(3) zero_neq_numeral)
  show ?thesis by (simp add: ec_laws_def toy_ec_def codec_simps ne)
qed

section \<open>What a key is\<close>

text \<open>The public key array has its 65 bytes, and what is stored in it belongs to the secret unless there is no
  secret.\<close>

definition key_size :: "BRKey \<Rightarrow> nat" where
  "key_size key = (if key_compressed key then 33 else 65)"

definition key_ok :: "('p, 's) secp256k1 \<Rightarrow> BRKey \<Rightarrow> bool" where
  "key_ok ec key \<longleftrightarrow> length (key_pubKey key) = 65 \<and>
     (take (key_size key) (key_pubKey key) = replicate (key_size key) 0 \<or> key_secret key = 0 \<or>
      map_option (ec_pubkey_serialize ec (key_compressed key)) (ec_pubkey_create ec (key_secret key)) =
        Some (take (key_size key) (key_pubKey key)))"

lemma key_fill_ok:
  assumes "ec_laws ec" "key_ok ec key"
  shows "key_ok ec (snd (key_fill ec key))" "fst (key_fill ec key) \<le> key_size key"
    "key_secret (snd (key_fill ec key)) = key_secret key" "key_compressed (snd (key_fill ec key)) = key_compressed key"
proof -
  show "key_ok ec (snd (key_fill ec key))" "fst (key_fill ec key) \<le> key_size key"
    "key_secret (snd (key_fill ec key)) = key_secret key" "key_compressed (snd (key_fill ec key)) = key_compressed key"
    using assms(2) ec_lawsD(3) [OF assms(1)]
    by (auto simp: key_fill_def key_ok_def key_size_def put_0 Let_def split: option.splits)
qed

lemma set_secret_ok: "key_ok ec (snd (BRKeySetSecret ec secret compressed))"
  by (simp add: BRKeySetSecret_def BRKeyClean_def key_ok_def key_size_def)

lemma key_fill_public:
  assumes "ec_laws ec" "key_ok ec key" "ec_pubkey_create ec (key_secret key) = Some p"
  obtains key' where "key_fill ec key = (key_size key, key')" "key_fill ec key' = (key_size key, key')" "key_ok ec key'"
    "take (key_size key) (key_pubKey key') = ec_pubkey_serialize ec (key_compressed key) p"
    "key_secret key' = key_secret key" "key_compressed key' = key_compressed key"
proof -
  let ?c = "key_compressed key" and ?n = "key_size key"
  have n: "(if ?c then 33 else 65) = ?n" "0 < ?n" by (simp_all add: key_size_def)
  have ser: "length (ec_pubkey_serialize ec ?c p) = ?n" "ec_pubkey_serialize ec ?c p ! 0 \<noteq> 0"
    using ec_lawsD(3,4) [OF assms(1)] n by simp_all
  have nz: "ec_pubkey_serialize ec ?c p \<noteq> replicate ?n 0" using ser(2) n(2) by auto
  have len: "length (key_pubKey key) = 65" "?n \<le> 65" using assms(2) by (simp_all add: key_ok_def key_size_def)
  show thesis
  proof (cases "take ?n (key_pubKey key) = replicate ?n 0")
    case True
    let ?k = "key\<lparr>key_pubKey := put (key_pubKey key) 0 (ec_pubkey_serialize ec ?c p)\<rparr>"
    have t: "take ?n (key_pubKey ?k) = ec_pubkey_serialize ec ?c p" using ser(1) by (simp add: put_0)
    have f: "key_fill ec key = (?n, ?k)" using True assms(3) ser(1) by (simp add: key_fill_def n Let_def)
    have "key_size ?k = ?n" by (simp add: key_size_def)
    then have "key_fill ec ?k = (?n, ?k)" using t nz by (simp add: key_fill_def n Let_def)
    moreover have "key_ok ec ?k" using key_fill_ok(1) [OF assms(1,2)] f by simp
    ultimately show thesis using that [of ?k] f t by simp
  next
    case False
    then have "key_fill ec key = (?n, key)" by (simp add: key_fill_def n Let_def)
    moreover have "take ?n (key_pubKey key) = ec_pubkey_serialize ec ?c p"
      using False assms ec_lawsD(1) [OF assms(1)] by (auto simp: key_ok_def)
    ultimately show thesis using that [of key] assms(2) by simp
  qed
qed

text \<open>C20: the functions of a key preserve that its public key array has 65 bytes and holds, once computed, the
  public key of its secret; the ones that import a key establish it; and the ones that only ask for the
  public key, its hash, the address or a verification keep the secret and the form.\<close>

theorem keys_stay_well_formed:
  assumes "ec_laws ec" "key_ok ec key"
  shows "key_ok ec BRKeyClean \<and> key_ok ec (snd (BRKeySetSecret ec secret compressed)) \<and>
    key_ok ec (snd (BRKeySetPrivKey ec testnet key str)) \<and>
    (\<forall>pk r key'. BRKeySetPubKey ec pk = Some (r, key') \<longrightarrow> key_ok ec key') \<and>
    (\<forall>r key'. BRKeyRecoverPubKey ec key md sig = Some (r, key') \<longrightarrow> key_ok ec key') \<and>
    (\<forall>key' \<in> {snd (snd (BRKeyPubKey ec key buf)), snd (BRKeyHash160 ec key), snd (snd (BRKeyAddress ec testnet key buf)),
        snd (BRKeyVerify ec key md sig)}.
      key_ok ec key' \<and> key_secret key' = key_secret key \<and> key_compressed key' = key_compressed key)"
proof -
  have clean: "key_ok ec BRKeyClean" by (simp add: BRKeyClean_def key_ok_def key_size_def)
  have secret: "key_ok ec (snd (BRKeySetSecret ec s c))" for s c by (rule set_secret_ok)
  have priv: "key_ok ec (snd (BRKeySetPrivKey ec testnet key str))"
    using assms(2) secret by (simp add: BRKeySetPrivKey_def split: prod.splits)
  have pub: "key_ok ec key'" if "BRKeySetPubKey ec pk = Some (r, key')" for pk r key'
    using that by (auto simp: BRKeySetPubKey_def BRKeyClean_def key_ok_def split: if_splits)
  have rec: "key_ok ec key'" if "BRKeyRecoverPubKey ec key md sig = Some (r, key')" for r key'
    using that pub assms(2) by (auto simp: BRKeyRecoverPubKey_def Let_def split: if_splits option.splits)
  have fill: "snd (snd (BRKeyPubKey ec key b)) = snd (key_fill ec key)" for b
    by (simp add: BRKeyPubKey_def Let_def split: prod.splits)
  moreover have "snd (BRKeyHash160 ec key) = snd (key_fill ec key)" "snd (BRKeyVerify ec key md sig) = snd (key_fill ec key)"
    "snd (snd (BRKeyAddress ec testnet key buf)) = snd (key_fill ec key)"
    using fill [of None] by (cases "BRKeyPubKey ec key None";
        auto simp: BRKeyHash160_def BRKeyVerify_def BRKeyAddress_def Let_def split: prod.splits)+
  ultimately show ?thesis using clean secret priv pub rec key_fill_ok [OF assms] by simp
qed

definition toy_key :: BRKey where
  "toy_key = BRKeyClean\<lparr>key_secret := 5, key_compressed := True\<rparr>"

lemma toy_key_ok: "key_ok toy_ec toy_key"
  using set_secret_ok [of toy_ec 5 True] by (simp add: BRKeySetSecret_def toy_key_def)

lemma keys_stay_well_formed_witness: "key_ok toy_ec (snd (BRKeyHash160 toy_ec toy_key))"
  using keys_stay_well_formed [OF toy_ec_laws toy_key_ok] by blast

text \<open>A key with a valid secret reports the size of its public key for \<open>NULL\<close>, writes the encoding of the
  point of its secret into every buffer that holds it, hashes that encoding, and its address is the
  base58check string of the hash. Asking again changes nothing, whether the public key was there or not.\<close>

theorem key_public_functions:
  assumes "ec_laws ec" "key_ok ec key" "ec_pubkey_create ec (key_secret key) = Some p"
  shows "\<exists>key'. key_ok ec key' \<and> (let pk = ec_pubkey_serialize ec (key_compressed key) p in
    (\<forall>k \<in> {key, key'}. BRKeyPubKey ec k None = (length pk, None, key') \<and>
      (\<forall>buf. length pk \<le> length buf \<longrightarrow> BRKeyPubKey ec k (Some buf) = (length pk, Some (put buf 0 pk), key')) \<and>
      (\<forall>buf. length buf < length pk \<longrightarrow> BRKeyPubKey ec k (Some buf) = (0, Some buf, key')) \<and>
      BRKeyHash160 ec k = (UInt160Get (BRHash160 pk), key') \<and>
      (UInt160Get (BRHash160 pk) \<noteq> 0 \<longrightarrow> BRKeyAddress ec testnet k addr =
        (fst (BRBase58CheckEncode addr (pubkey_prefix testnet # BRHash160 pk)),
         snd (BRBase58CheckEncode addr (pubkey_prefix testnet # BRHash160 pk)), key'))))"
proof -
  let ?pk = "ec_pubkey_serialize ec (key_compressed key) p"
  obtain key' where k: "key_fill ec key = (key_size key, key')" "key_fill ec key' = (key_size key, key')" "key_ok ec key'"
    "take (key_size key) (key_pubKey key') = ?pk"
    using key_fill_public [OF assms] by metis
  have len: "length ?pk = key_size key" "0 < key_size key" using ec_lawsD(3) [OF assms(1)] by (simp_all add: key_size_def)
  have parse: "ec_pubkey_parse ec ?pk = Some p" using ec_lawsD(5) [OF assms(1)] .
  have set: "UInt160Set (UInt160Get (BRHash160 ?pk)) = BRHash160 ?pk" by (simp add: UInt160Set_eq UInt160Get_eq codec_simps)
  have pub: "BRKeyPubKey ec k buf = (fst (store_if_fits buf ?pk), snd (store_if_fits buf ?pk), key')" if "k \<in> {key, key'}" for k buf
    using that k by (auto simp: BRKeyPubKey_def split: prod.splits)
  then have hash: "BRKeyHash160 ec k = (UInt160Get (BRHash160 ?pk), key')" if "k \<in> {key, key'}" for k
    using that k(4) len parse by (simp add: BRKeyHash160_def store_if_fits_def)
  have addr: "BRKeyAddress ec testnet k addr =
        (fst (BRBase58CheckEncode addr (pubkey_prefix testnet # BRHash160 ?pk)),
         snd (BRBase58CheckEncode addr (pubkey_prefix testnet # BRHash160 ?pk)), key')"
    if "k \<in> {key, key'}" "UInt160Get (BRHash160 ?pk) \<noteq> 0" for k
    using that(2) hash [OF that(1)] by (simp add: BRKeyAddress_def set split: prod.splits)
  show ?thesis
    unfolding Let_def using k(3) pub hash addr by (intro exI [of _ key']) (auto simp: store_if_fits_def)
qed

lemma key_public_functions_witness: "\<exists>key'. BRKeyPubKey toy_ec toy_key None = (33, None, key')"
proof -
  have "ec_pubkey_create toy_ec (key_secret toy_key) = Some 5" "length (ec_pubkey_serialize toy_ec (key_compressed toy_key) 5) = 33"
    by (simp_all add: toy_ec_def toy_key_def)
  with key_public_functions [OF toy_ec_laws toy_key_ok this(1), unfolded Let_def] show ?thesis by fastforce
qed

section \<open>Import formats\<close>

lemma UInt256_roundtrip [simp]: "UInt256Get (UInt256Set k @ rest) = k"
proof -
  have "UInt256Get (UInt256Set k @ rest) = UInt256Get (UInt256Set k)"
    unfolding UInt256Get_def by (rule arg_cong [of _ _ le_word], rule map_cong) (auto simp: UInt256Set_eq nth_append)
  then show ?thesis by (simp add: UInt256Set_eq UInt256Get_eq codec_simps)
qed

lemma not_mini_key: "30 < length s \<Longrightarrow> \<not> mini_key s"
  by (simp add: mini_key_def)

text \<open>C21: the wallet import format of a key with a valid secret is accepted by the check, and importing it
  gives the secret and the form of the key back, on both networks and whatever the key held before.\<close>

theorem key_wif_roundtrip:
  assumes "ec_seckey_verify ec (key_secret key)" "BRKeyPrivKey ec testnet key (Some buf) = (n, Some buf')" "n \<noteq> 0"
  shows "BRPrivKeyIsValid testnet (take (n - 1) buf') \<and> 0 \<notin> set (take (n - 1) buf') \<and> buf' ! (n - 1) = 0 \<and>
    BRKeySetPrivKey ec testnet old (take (n - 1) buf') =
      (True, BRKeyClean\<lparr>key_secret := key_secret key, key_compressed := key_compressed key\<rparr>) \<and>
    BRKeyPrivKey ec testnet key None = (n, None)"
proof -
  let ?d = "privkey_prefix testnet # UInt256Set (key_secret key) @ (if key_compressed key then [1] else [])"
  let ?s = "b58check_string ?d"
  have len: "length ?d = (if key_compressed key then 34 else 33)" by (simp add: UInt256Set_eq)
  have n: "n = length ?s + 1" "buf' = put buf 0 (?s @ [0])" "length ?s + 1 \<le> length buf"
    using assms by (auto simp: BRKeyPrivKey_def check_encode_correct split: if_splits)
  then have s: "take (n - 1) buf' = ?s" "buf' ! (n - 1) = 0" by (simp_all add: put_def nth_append)
  have dec: "BRBase58CheckDecode (Some (replicate 34 0)) ?s = (length ?d, Some (put (replicate 34 0) 0 ?d))"
    using check_roundtrip [of ?d "Some (replicate 34 0)"] len by auto
  have "length (?d @ take 4 (BRSHA256_2 ?d)) \<le> length ?s" unfolding b58check_string_def by (rule b58_string_long)
  then have long: "\<not> mini_key ?s" using len by (intro not_mini_key) (simp split: if_splits)
  have "BRPrivKeyIsValid testnet ?s" using dec len by (simp add: BRPrivKeyIsValid_def put_0)
  moreover have data: "privkey_data ?s = (length ?d, put (replicate 34 0) 0 ?d)"
    using dec len by (simp add: privkey_data_def)
  have "BRKeySetPrivKey ec testnet old ?s = BRKeySetSecret ec (key_secret key) (key_compressed key)"
    using long data len by (auto simp: BRKeySetPrivKey_def put_0)
  then have "BRKeySetPrivKey ec testnet old ?s = (True, BRKeyClean\<lparr>key_secret := key_secret key, key_compressed := key_compressed key\<rparr>)"
    using assms(1) by (simp add: BRKeySetSecret_def)
  moreover have "0 \<notin> set ?s" unfolding b58check_string_def by (rule b58_string_no_nul)
  moreover have "BRKeyPrivKey ec testnet key None = (n, None)" using assms(1) n(1) by (simp add: BRKeyPrivKey_def check_encode_correct)
  ultimately show ?thesis using s by simp
qed

lemma key_wif_roundtrip_witness:
  "\<exists>n buf buf'. BRKeyPrivKey toy_ec False toy_key (Some buf) = (n, Some buf') \<and> n \<noteq> 0 \<and>
    BRKeySetPrivKey toy_ec False BRKeyClean (take (n - 1) buf') = (True, toy_key)"
proof -
  let ?s = "b58check_string (privkey_prefix False # UInt256Set 5 @ [1])"
  have v: "ec_seckey_verify toy_ec (key_secret toy_key)" by (simp add: toy_ec_def toy_key_def)
  then have "BRKeyPrivKey toy_ec False toy_key (Some (replicate (length ?s + 1) 0)) =
      (length ?s + 1, Some (put (replicate (length ?s + 1) 0) 0 (?s @ [0])))"
    by (simp add: BRKeyPrivKey_def check_encode_correct toy_key_def)
  then obtain n buf buf' where e: "BRKeyPrivKey toy_ec False toy_key (Some buf) = (n, Some buf')" "n \<noteq> 0" by (metis Suc_eq_plus1 nat.distinct(1))
  have k: "BRKeyClean\<lparr>key_secret := key_secret toy_key, key_compressed := key_compressed toy_key\<rparr> = toy_key"
    by (simp add: toy_key_def BRKeyClean_def)
  show ?thesis
    using key_wif_roundtrip [OF v e, of BRKeyClean, unfolded k] e by blast
qed

text \<open>Hex strings.\<close>

lemma BRKeySetPrivKey_32:
  "\<not> mini_key s \<Longrightarrow> privkey_data s = (32, data) \<Longrightarrow> BRKeySetPrivKey ec testnet key s = BRKeySetSecret ec (UInt256Get data) False"
  by (simp add: BRKeySetPrivKey_def)

lemma hex_not_space: "is_hex c \<Longrightarrow> \<not> is_space c"
  by (auto simp: is_hex_def is_space_def word_le_nat_alt)

lemma hex_bytes_digits:
  assumes "\<forall>c \<in> set h. is_hex c" "length h = 2 * m" "len \<le> m" "m < len + n" "length data \<ge> m"
    "\<forall>i < len. data ! i = 16 * hexu (h ! (2 * i)) + hexu (h ! (2 * i + 1))"
  shows "\<exists>data'. hex_bytes h n len data = (m, data') \<and> length data' = length data \<and>
    (\<forall>i < m. data' ! i = 16 * hexu (h ! (2 * i)) + hexu (h ! (2 * i + 1)))"
  using assms(3-6)
proof (induction n arbitrary: len data)
  case 0
  then show ?case by simp
next
  case (Suc n)
  show ?case
  proof (cases "len = m")
    case True
    then show ?thesis using Suc.prems assms(2) by simp
  next
    case False
    then have l: "len < m" using Suc.prems by simp
    then have h: "is_hex (h ! (2 * len))" "is_hex (h ! (2 * len + 1))" using assms(1,2) by auto
    have "drop (len * 2) h = h ! (2 * len) # h ! (2 * len + 1) # drop (len * 2 + 2) h"
      using l assms(2) by (simp add: Cons_nth_drop_Suc mult.commute)
    then have "sscanf_2hhx (drop (len * 2) h) = Some (16 * hexu (h ! (2 * len)) + hexu (h ! (2 * len + 1)))"
      using h hex_not_space by (simp add: sscanf_2hhx_def)
    moreover have "len * 2 + 1 < length h" using l assms(2) by simp
    ultimately have step: "hex_bytes h (Suc n) len data =
        hex_bytes h n (len + 1) (data[len := 16 * hexu (h ! (2 * len)) + hexu (h ! (2 * len + 1))])" by simp
    have "\<exists>data'. hex_bytes h n (len + 1) (data[len := 16 * hexu (h ! (2 * len)) + hexu (h ! (2 * len + 1))]) = (m, data') \<and>
        length data' = length (data[len := 16 * hexu (h ! (2 * len)) + hexu (h ! (2 * len + 1))]) \<and>
        (\<forall>i < m. data' ! i = 16 * hexu (h ! (2 * i)) + hexu (h ! (2 * i + 1)))"
      using Suc.prems l by (intro Suc.IH) (auto simp: nth_list_update less_Suc_eq)
    then show ?thesis unfolding step by simp
  qed
qed

text \<open>The checked decoder returns nothing, or four bytes less than the plain one.\<close>

lemma b58_decode_len:
  "fst (BRBase58Decode (Some out) str) = (let n = fst (BRBase58Decode None str) in if n \<le> length out then n else 0)"
  by (simp add: BRBase58Decode_def Let_def)

lemma length_b58_decode_fold: "length (fst (fold b58_decode_digit js st)) = length (fst st)"
  by (induction js arbitrary: st) (simp_all add: b58_decode_digit_def Let_def split: prod.splits)

lemma length_b58_decode_loop [simp]: "length (b58_decode_loop s buf) = length buf"
  by (induction s arbitrary: buf) (simp_all add: b58_decode_char_def length_b58_decode_fold)

lemma b58_decode_short: "fst (BRBase58Decode None str) \<le> length str"
proof -
  define z where "z = length (takeWhile (\<lambda>c. c = base58chars ! 0) str)"
  define r where "r = drop z str"
  define buf where "buf = b58_decode_loop r (replicate (length r * 733 div 1000 + 1) 0)"
  have z: "z + length r = length str" by (simp add: z_def r_def length_takeWhile_le)
  have f: "fst (BRBase58Decode None str) = z + length buf - length (takeWhile (\<lambda>b. b = 0) buf)"
    by (simp add: BRBase58Decode_def Let_def z_def r_def buf_def)
  show ?thesis
  proof (cases "r = []")
    case True
    then have "buf = [0]" by (simp add: buf_def)
    then show ?thesis using f z by simp
  next
    case False
    then have "0 < length r" by simp
    then have "length r * 733 div 1000 + 1 \<le> length r" by linarith
    then show ?thesis using f z by (simp add: buf_def)
  qed
qed

lemma b58_decode_keeps:
  assumes "BRBase58Decode (Some d) str = (l, Some b)"
  shows "length b = length d" "l \<noteq> 0 \<Longrightarrow> l \<le> length d' \<Longrightarrow> \<exists>b'. BRBase58Decode (Some d') str = (l, Some b') \<and> take l b' = take l b"
proof -
  define z where "z = length (takeWhile (\<lambda>c. c = base58chars ! 0) str)"
  define buf where "buf = b58_decode_loop (drop z str) (replicate (length (drop z str) * 733 div 1000 + 1) 0)"
  define i where "i = length (takeWhile (\<lambda>b. b = 0) buf)"
  have i: "i \<le> length buf" by (simp add: i_def length_takeWhile_le)
  have D: "BRBase58Decode (Some d) str = (if z + length buf - i \<le> length d
      then (z + length buf - i, Some (put (put d 0 (replicate z 0)) z (drop i buf))) else (0, Some d))" for d
    unfolding BRBase58Decode_def Let_def z_def [symmetric] buf_def [symmetric] i_def [symmetric] by simp
  then show "length b = length d" using assms i by (auto split: if_splits)
  have t: "take (z + length buf - i) (put (put d 0 (replicate z 0)) z (drop i buf)) = replicate z 0 @ drop i buf"
    if "z + length buf - i \<le> length d" for d using that i by (simp add: put_def)
  show "\<exists>b'. BRBase58Decode (Some d') str = (l, Some b') \<and> take l b' = take l b" if "l \<noteq> 0" "l \<le> length d'"
    using assms D [of d] D [of d'] t that by (auto split: if_splits)
qed

lemma check_decode_len:
  obtains out where "BRBase58CheckDecode (Some (replicate 34 0)) str = (0, Some out)" "length out = 34"
  | out where "BRBase58CheckDecode (Some (replicate 34 0)) str = (fst (BRBase58Decode None str) - 4, Some out)" "length out = 34"
      "fst (BRBase58Decode None str) - 4 \<le> 34"
proof -
  have "fst (BRBase58Decode (Some (replicate (length str) 0)) str) = fst (BRBase58Decode None str)"
    using b58_decode_short [of str] by (simp add: b58_decode_len Let_def)
  then obtain buf where d: "BRBase58Decode (Some (replicate (length str) 0)) str = (fst (BRBase58Decode None str), Some buf)"
    using decode_some [of "replicate (length str) 0" str] by auto
  define n where "n = fst (BRBase58Decode None str)"
  define ok where "ok = (take 4 (drop (n - 4) buf) = take 4 (BRSHA256_2 (take (n - 4) buf)))"
  have l: "length (put (replicate 34 0) 0 (take k buf)) = 34" if "k \<le> 34" for k
    using that by (simp add: put_def)
  have D: "BRBase58CheckDecode (Some (replicate 34 0)) str =
      (if 4 \<le> n \<and> ok \<and> n - 4 \<le> 34 then (n - 4, Some (put (replicate 34 0) 0 (take (n - 4) buf)))
       else (0, Some (replicate 34 0)))"
    unfolding BRBase58CheckDecode_def Let_def d prod.case option.sel n_def [symmetric] ok_def [symmetric]
    by (cases "4 \<le> n"; cases ok; cases "n - 4 \<le> 34") (simp_all add: put_0)
  show thesis
  proof (cases "4 \<le> n \<and> ok \<and> n - 4 \<le> 34")
    case True
    then show thesis using D l [of "n - 4"] by (intro that(2)) (auto simp: n_def)
  next
    case False
    then show thesis using D by (intro that(1)) auto
  qed
qed

text \<open>The value of a hex string, first digit first.\<close>

definition hex_value :: "bytes \<Rightarrow> bytes" where
  "hex_value h = map (\<lambda>i. 16 * hexu (h ! (2 * i)) + hexu (h ! (2 * i + 1))) [0..<32]"

lemma hex_key:
  assumes "\<forall>c \<in> set h. is_hex c" "length h = 64" "length data = 34"
  obtains data' where "hex_bytes h 34 0 data = (32, data')" "UInt256Get data' = UInt256Get (hex_value h)"
proof -
  obtain data' where h: "hex_bytes h 34 0 data = (32, data')"
      "\<forall>i < 32. data' ! i = 16 * hexu (h ! (2 * i)) + hexu (h ! (2 * i + 1))"
    using hex_bytes_digits [OF assms(1), of 32 0 34 data] assms(2,3) by auto
  have "UInt256Get data' = UInt256Get (hex_value h)"
    unfolding UInt256Get_def hex_value_def by (rule arg_cong [of _ _ le_word], rule map_cong) (simp_all add: h(2) del: upt_Suc)
  then show thesis using that h(1) by blast
qed

text \<open>How a string of 64 hex digits is imported depends on the number of bytes the base 58 decoder reads from
  it, up to the first digit 0. If that cannot be mistaken for a key, the key is the value of the digits. If
  it is 32 the key is those bytes instead, whatever the digits say.\<close>

theorem key_hex_import:
  assumes "length h = 64" "\<forall>c \<in> set h. is_hex c"
  shows "let n = fst (BRBase58Decode None h) in
    (n \<notin> {32, 33, 34, 36, 37, 38} \<longrightarrow>
      BRKeySetPrivKey ec testnet key h = BRKeySetSecret ec (UInt256Get (hex_value h)) False) \<and>
    (n = 32 \<longrightarrow> (\<exists>b. BRBase58Decode (Some (replicate 34 0)) h = (32, Some b) \<and>
      BRKeySetPrivKey ec testnet key h = BRKeySetSecret ec (UInt256Get b) False))"
proof -
  define n where "n = fst (BRBase58Decode None h)"
  have mini: "\<not> mini_key h" using assms(1) by (simp add: not_mini_key)
  obtain len out where c: "BRBase58CheckDecode (Some (replicate 34 0)) h = (len, Some out)" "length out = 34" "len = 0 \<or> len = n - 4" "len \<le> 34"
    using check_decode_len [of h] unfolding n_def by (metis le0)
  obtain out' where plain: "BRBase58Decode (Some out) h = (if n \<le> 34 then n else 0, Some out')" "length out' = 34"
  proof -
    obtain l b where lb: "BRBase58Decode (Some out) h = (l, Some b)" using decode_some by blast
    then have "l = (if n \<le> 34 then n else 0)" using b58_decode_len [of out h] c(2) by (simp add: n_def Let_def)
    moreover have "length b = 34" using b58_decode_keeps [OF lb] c(2) by simp
    ultimately show thesis using that lb by blast
  qed
  show ?thesis
    unfolding Let_def n_def [symmetric]
  proof (intro conjI impI)
    assume n: "n \<notin> {32, 33, 34, 36, 37, 38}"
    have "\<exists>l d. privkey_data h = (if l < 32 \<or> l > 34 then hex_bytes h 34 0 d else (l, d)) \<and> length d = 34 \<and> (l < 32 \<or> l > 34)"
    proof (cases "len = 0 \<or> len = 28")
      case True
      then show ?thesis using c plain n by (intro exI [of _ "if n \<le> 34 then n else 0"] exI [of _ out']) (auto simp: privkey_data_def)
    next
      case False
      then show ?thesis using c n by (intro exI [of _ len] exI [of _ out]) (auto simp: privkey_data_def)
    qed
    then obtain d where "privkey_data h = hex_bytes h 34 0 d" "length d = 34" by auto
    then show "BRKeySetPrivKey ec testnet key h = BRKeySetSecret ec (UInt256Get (hex_value h)) False"
      using hex_key [OF assms(2,1)] mini by (metis (no_types, lifting) BRKeySetPrivKey_32)
  next
    assume n: "n = 32"
    then have "privkey_data h = (32, out')" using c plain by (auto simp: privkey_data_def)
    then have "BRKeySetPrivKey ec testnet key h = BRKeySetSecret ec (UInt256Get out') False"
      using mini by (simp add: BRKeySetPrivKey_32)
    moreover have "BRBase58Decode (Some out) h = (32, Some out')" using plain(1) n by simp
    from b58_decode_keeps(2) [OF this, of "replicate 34 0"] obtain b where
      b: "BRBase58Decode (Some (replicate 34 0)) h = (32, Some b)" "take 32 b = take 32 out'" by auto
    have "UInt256Get b = UInt256Get out'"
      unfolding UInt256Get_def by (rule arg_cong [of _ _ le_word], rule map_cong) (simp_all, metis b(2) nth_take)
    ultimately show "\<exists>b. BRBase58Decode (Some (replicate 34 0)) h = (32, Some b) \<and>
      BRKeySetPrivKey ec testnet key h = BRKeySetSecret ec (UInt256Get b) False"
      using b(1) by auto
  qed
qed

lemma key_hex_import_witness:
  "BRKeySetPrivKey toy_ec False toy_key (replicate 64 0x30) = BRKeySetSecret toy_ec (UInt256Get (hex_value (replicate 64 0x30))) False"
proof -
  have "b58_digit 0x30 \<ge> 58" by code_simp
  then have "b58_decode_loop (replicate 64 0x30) buf = buf" for buf by (simp add: numeral_eq_Suc)
  moreover have "base58chars ! 0 \<noteq> 0x30" by code_simp
  ultimately have "fst (BRBase58Decode None (replicate 64 0x30)) = 0"
    by (simp add: BRBase58Decode_def Let_def)
  then show ?thesis using key_hex_import [of "replicate 64 0x30" toy_ec False toy_key] by (simp add: is_hex_def Let_def)
qed

definition misread_key :: bytes where
  "misread_key = replicate 31 0x31 @ 0x32 # replicate 32 0x30"

lemma misread_decode:
  "BRBase58Decode (Some (replicate 34 0)) misread_key = (32, Some (replicate 31 0 @ [1, 0, 0]))"
  "fst (BRBase58Decode None misread_key) = 32"
proof -
  have c: "base58chars ! 0 = 0x31" "\<not> b58_digit 0x32 \<ge> 58" "b58_digit 0x32 = 1" "b58_digit 0x30 \<ge> 58" by code_simp+
  have z: "length (takeWhile (\<lambda>c. c = base58chars ! 0) misread_key) = 31"
    unfolding misread_key_def c(1) by (subst takeWhile_append2) simp_all
  have r: "drop 31 misread_key = 0x32 # replicate 32 0x30" by (simp add: misread_key_def)
  let ?b = "replicate 25 0 :: bytes"
  have e: "b58_decode_loop (0x32 # replicate 32 0x30) ?b = b58_decode_char 1 ?b"
    using c(2-4) by (simp add: numeral_eq_Suc)
  have d: "val 256 (nats (b58_decode_char 1 ?b)) = 1 \<and> length (b58_decode_char 1 ?b) = 25"
    using decode_char_correct [of ?b 1] by simp
  have "nats (b58_decode_char 1 ?b) = nats (replicate 24 0 @ [1])"
    by (rule val_inject [where B = 256]) (use d unat_u8_less in \<open>auto simp: val_zeros val_Cons map_replicate\<close>)
  moreover have "inj (unat :: u8 \<Rightarrow> nat)" by (simp add: inj_def unat_eq_iff)
  ultimately have "b58_decode_char 1 ?b = replicate 24 0 @ [1]" by (metis inj_map_eq_map)
  with e have l: "b58_decode_loop (0x32 # replicate 32 0x30) ?b = replicate 24 0 @ [1]" by simp
  have t: "length (takeWhile (\<lambda>b. b = 0) (replicate 24 0 @ [1 :: u8])) = 24" by (subst takeWhile_append2) simp_all
  have n: "length (0x32 # replicate 32 0x30 :: bytes) * 733 div 1000 + 1 = 25" by simp
  show "BRBase58Decode (Some (replicate 34 0)) misread_key = (32, Some (replicate 31 0 @ [1, 0, 0]))"
    "fst (BRBase58Decode None misread_key) = 32"
    unfolding BRBase58Decode_def Let_def z r n l t by (simp_all add: put_def numeral_eq_Suc)
qed

text \<open>A string of 64 hex digits passes the check and is imported as another key than the one it denotes: the
  digits 1...120...0 (31 times 1, then 2) give the secret 1, because the base 58 decoder stops at the first 0
  and has read 32 bytes by then.\<close>

theorem key_hex_misread:
  "BRPrivKeyIsValid testnet misread_key \<and> length misread_key = 64 \<and> list_all is_hex misread_key \<and>
   hex_value misread_key = replicate 15 0x11 @ [0x12] @ replicate 16 0 \<and>
   BRKeySetPrivKey ec testnet key misread_key = BRKeySetSecret ec (UInt256Get (replicate 31 0 @ [1])) False \<and>
   UInt256Get (replicate 31 0 @ [1]) \<noteq> UInt256Get (hex_value misread_key)"
proof -
  note dec = misread_decode
  have h: "length misread_key = 64" "\<forall>c \<in> set misread_key. is_hex c" by (simp_all add: misread_key_def is_hex_def)
  have v: "hex_value misread_key = replicate 15 0x11 @ [0x12] @ replicate 16 0" by code_simp
  have mini: "\<not> mini_key misread_key" using h(1) by (simp add: not_mini_key)
  obtain len out where c: "BRBase58CheckDecode (Some (replicate 34 0)) misread_key = (len, Some out)" "len = 0 \<or> len = 28"
    by (rule check_decode_len [of misread_key]) (use dec(2) in simp_all)
  have tw: "length (takeWhile is_hex misread_key) = 64" using h by (metis takeWhile_eq_all_conv)
  then have valid: "BRPrivKeyIsValid testnet misread_key" using c mini by (auto simp: BRPrivKeyIsValid_def)
  have secret: "UInt256Get (replicate 31 0 @ [1, 0, 0]) = UInt256Get (replicate 31 0 @ [1])"
    unfolding UInt256Get_def by (rule arg_cong [of _ _ le_word], rule map_cong) (auto simp: nth_append)
  have ne: "replicate 31 0 @ [1] \<noteq> replicate 15 0x11 @ [0x12] @ replicate 16 (0 :: u8)" by (simp add: numeral_eq_Suc)
  have "le_word (replicate 31 0 @ [1]) \<noteq> (le_word (replicate 15 0x11 @ [0x12] @ replicate 16 0) :: uint256)"
  proof
    assume "le_word (replicate 31 0 @ [1]) = (le_word (replicate 15 0x11 @ [0x12] @ replicate 16 0) :: uint256)"
    from arg_cong [OF this, of "le_bytes 32"] show False using ne by (simp add: codec_simps)
  qed
  then have "UInt256Get (replicate 31 0 @ [1]) \<noteq> UInt256Get (replicate 15 0x11 @ [0x12] @ replicate 16 0)"
    by (simp add: UInt256Get_eq)
  then show ?thesis
    using key_hex_import [OF h, of ec testnet key] valid h v secret dec unfolding Let_def list_all_iff by auto
qed

section \<open>Signatures\<close>

text \<open>C23: a signature of a key with a valid secret is written into every buffer of 72 bytes and more, it is
  verified with the same key, and the public key that a compact signature gives back is that of the key,
  in the same form.\<close>

theorem key_signatures_verify:
  assumes "ec_laws ec" "key_ok ec key" "ec_pubkey_create ec (key_secret key) = Some p" "72 \<le> length buf"
  shows "(\<exists>n buf'. BRKeySign ec key (Some buf) md = Some (n, Some buf') \<and> 0 < n \<and> n \<le> 72 \<and> drop n buf' = drop n buf \<and>
      fst (BRKeyVerify ec key md (take n buf'))) \<and>
    (\<exists>sig. length sig = 65 \<and> (\<forall>b. 65 \<le> length b \<longrightarrow> BRKeyCompactSign ec key (Some b) md = (65, Some (put b 0 sig))) \<and>
      (\<exists>key'. BRKeyRecoverPubKey ec old md sig = Some (True, key') \<and> key_compressed key' = key_compressed key \<and>
        key_secret key' = 0 \<and> take (key_size key) (key_pubKey key') = ec_pubkey_serialize ec (key_compressed key) p))"
proof
  note L = ec_lawsD [OF assms(1)]
  obtain s where s: "ec_sign ec md (key_secret key) = Some s" "length (ec_signature_der ec s) \<le> 72" "ec_signature_der ec s \<noteq> []"
    "ec_signature_parse_der ec (ec_signature_der ec s) = Some s" "ec_verify ec s md p"
    using L(8) [OF assms(3), of md] by blast
  let ?d = "ec_signature_der ec s"
  obtain key' where k: "key_fill ec key = (key_size key, key')"
    "take (key_size key) (key_pubKey key') = ec_pubkey_serialize ec (key_compressed key) p" "length (key_pubKey key') = 65"
    using key_fill_public [OF assms(1-3)] unfolding key_ok_def by metis
  have "0 < key_size key" "key_size key \<le> 65" "length (ec_pubkey_serialize ec (key_compressed key) p) = key_size key"
    using L(3) by (simp_all add: key_size_def)
  then have "fst (BRKeyVerify ec key md ?d)"
    using k s L(5) by (simp add: BRKeyVerify_def BRKeyPubKey_def store_if_fits_def min_absorb2)
  moreover have "BRKeySign ec key (Some buf) md = Some (length ?d, Some (put buf 0 ?d))"
    using s assms(4) by (simp add: BRKeySign_def store_if_fits_def)
  ultimately show "\<exists>n buf'. BRKeySign ec key (Some buf) md = Some (n, Some buf') \<and> 0 < n \<and> n \<le> 72 \<and> drop n buf' = drop n buf \<and>
      fst (BRKeyVerify ec key md (take n buf'))"
    using s(2,3) by (intro exI [of _ "length ?d"] exI [of _ "put buf 0 ?d"]) (simp add: put_0)
next
  note L = ec_lawsD [OF assms(1)]
  let ?c = "key_compressed key"
  obtain s r where s: "ec_sign_recoverable ec md (key_secret key) = Some (s, r)" "length s = 64" "r \<le> 3" "ec_recover ec s r md = Some p"
    using L(9) [OF assms(3), of md] by blast
  let ?h = "of_nat (27 + r + (if ?c then 4 else 0)) :: u8"
  have "27 + r + (if ?c then 4 else 0) < 2 ^ LENGTH(8)" using s(3) by simp
  then have "unat ?h = 27 + r + (if ?c then 4 else 0)" by (simp only: unat_of_nat mod_less)
  then have h: "uint ?h = 27 + int r + (if ?c then 4 else 0)" unfolding uint_nat by simp
  have "\<not> UInt256IsZero (key_secret key)" using assms(3) L(1) by auto
  then have "\<forall>b. 65 \<le> length b \<longrightarrow> BRKeyCompactSign ec key (Some b) md = (65, Some (put b 0 (?h # s)))"
    using s by (simp add: BRKeyCompactSign_def)
  moreover have "r \<in> {0, 1, 2, 3}" using s(3) by auto
  then have "nat ((int r + (if ?c then 4 else 0)) mod 4) = r" by auto
  then have "BRKeyRecoverPubKey ec old md (?h # s) = BRKeySetPubKey ec (ec_pubkey_serialize ec ?c p)"
    using s h by (cases ?c) (simp_all add: BRKeyRecoverPubKey_def Let_def)
  moreover have "BRKeySetPubKey ec (ec_pubkey_serialize ec ?c p) = Some (True,
      BRKeyClean\<lparr>key_pubKey := put (replicate 65 0) 0 (ec_pubkey_serialize ec ?c p), key_compressed := ?c\<rparr>)"
    using L(3,5) by (simp add: BRKeySetPubKey_def)
  ultimately show "\<exists>sig. length sig = 65 \<and> (\<forall>b. 65 \<le> length b \<longrightarrow> BRKeyCompactSign ec key (Some b) md = (65, Some (put b 0 sig))) \<and>
      (\<exists>key'. BRKeyRecoverPubKey ec old md sig = Some (True, key') \<and> key_compressed key' = ?c \<and>
        key_secret key' = 0 \<and> take (key_size key) (key_pubKey key') = ec_pubkey_serialize ec ?c p)"
    using s(2) L(3) by (intro exI [of _ "?h # s"]) (auto simp: BRKeyClean_def put_0 key_size_def)
qed

lemma key_signatures_verify_witness:
  "\<exists>n buf'. BRKeySign toy_ec toy_key (Some (replicate 72 0)) 9 = Some (n, Some buf') \<and> fst (BRKeyVerify toy_ec toy_key 9 (take n buf'))"
proof -
  have "ec_pubkey_create toy_ec (key_secret toy_key) = Some 5" by (simp add: toy_ec_def toy_key_def)
  from key_signatures_verify [OF toy_ec_laws toy_key_ok this, of "replicate 72 0" 9 toy_key] show ?thesis by auto
qed

end
