(* ===== verification/SequenceSpec.thy ===== *)
theory SequenceSpec
  imports Sequence KeySpec MacSpec WalletSpend
begin

text \<open>
  Key derivation: the public and the private branch of \<^verbatim>\<open>BRBIP32Sequence.c\<close> lead to the same keys, and
  what follows for the wallet: the addresses it hands out are those of keys it can sign for.
\<close>

section \<open>Public and private derivation\<close>

text \<open>A failed addition leaves zero in place of the secret.\<close>

definition ec_zeroes :: "('p, 's) secp256k1 \<Rightarrow> bool" where
  "ec_zeroes ec \<longleftrightarrow> (\<forall>k t. \<not> fst (ec_privkey_tweak_add ec k t) \<longrightarrow> snd (ec_privkey_tweak_add ec k t) = 0)"

lemma toy_ec_zeroes: "ec_zeroes toy_ec"
  by (simp add: ec_zeroes_def toy_ec_def)

definition pub_of :: "('p, 's) secp256k1 \<Rightarrow> uint256 \<Rightarrow> bytes option" where
  "pub_of ec k = map_option (ec_pubkey_serialize ec True) (ec_pubkey_create ec k)"

lemma CKD_agree:
  assumes laws: "ec_laws ec" and soft: "i AND BIP32_HARD = 0"
    and priv: "CKDpriv ec i (k, c) = Some (k', c')" and valid: "pub_of ec k' = Some K'"
    and z: "ec_zeroes ec"
  obtains K where "pub_of ec k = Some K" "CKDpub ec i (K, c) = (K', c')"
proof -
  note L = ec_lawsD [OF laws]
  obtain p where p: "ec_pubkey_create ec k = Some p"
    using priv soft by (auto simp: CKDpriv_def BRSecp256k1PointGen_def split: option.splits)
  let ?K = "ec_pubkey_serialize ec True p"
  let ?I = "BRHMAC BRSHA512 64 (UInt256Set c) (?K @ UInt32SetBE i)"
  have k': "k' = snd (ec_privkey_tweak_add ec k (UInt256Get ?I))" "c' = UInt256Get (drop 32 ?I)"
    using priv soft p by (auto simp: CKDpriv_def BRSecp256k1PointGen_def BRSecp256k1ModAdd_def Let_def)
  have "ec_pubkey_tweak_add ec p (UInt256Get ?I) \<noteq> None"
  proof
    assume "ec_pubkey_tweak_add ec p (UInt256Get ?I) = None"
    then have "k' = 0" using L(7) [OF p] z k'(1) by (simp add: ec_zeroes_def)
    then show False using valid L(1) by (simp add: pub_of_def)
  qed
  then obtain q where q: "ec_pubkey_tweak_add ec p (UInt256Get ?I) = Some q" by auto
  then have "ec_pubkey_create ec k' = Some q" using L(6) [OF p] k'(1) by force
  then have "K' = ec_pubkey_serialize ec True q" using valid by (simp add: pub_of_def)
  moreover have "i AND BIP32_HARD \<noteq> BIP32_HARD" using soft by auto
  ultimately have "CKDpub ec i (?K, c) = (K', c')"
    using q k'(2) L(5) by (simp add: CKDpub_def BRSecp256k1PointAdd_def Let_def)
  then show thesis using that p by (simp add: pub_of_def)
qed

lemma set_secret_pub:
  assumes "ec_laws ec" "pub_of ec k = Some K"
  shows "\<exists>key'. BRKeyPubKey ec (snd (BRKeySetSecret ec k True)) (Some buf) =
      (if 33 \<le> length buf then (33, Some (put buf 0 K), key') else (0, Some buf, key'))"
proof -
  obtain p where p: "ec_pubkey_create ec k = Some p" "K = ec_pubkey_serialize ec True p" using assms(2) by (auto simp: pub_of_def)
  let ?key = "snd (BRKeySetSecret ec k True)"
  have k: "key_secret ?key = k" "key_compressed ?key" by (simp_all add: BRKeySetSecret_def)
  obtain key' where f: "key_fill ec ?key = (key_size ?key, key')" "take (key_size ?key) (key_pubKey key') = K"
    using key_fill_public [OF assms(1) set_secret_ok, of k True p] p k by auto
  have "key_size ?key = 33" "length K = 33" using k(2) ec_lawsD(3) [OF assms(1)] p(2) by (simp_all add: key_size_def)
  then show ?thesis using f by (auto simp: BRKeyPubKey_def store_if_fits_def)
qed

lemma address_parts:
  "fst (BRKeyAddress ec testnet key addr) = (let h = fst (BRKeyHash160 ec key) in
     if h = 0 then 0 else fst (BRBase58CheckEncode addr (pubkey_prefix testnet # UInt160Set h)))"
  "fst (snd (BRKeyAddress ec testnet key addr)) = (let h = fst (BRKeyHash160 ec key) in
     if h = 0 then addr else snd (BRBase58CheckEncode addr (pubkey_prefix testnet # UInt160Set h)))"
  by (cases "BRKeyHash160 ec key", simp add: BRKeyAddress_def Let_def split: prod.splits)+

lemma addresses_of_public_key:
  assumes "ec_laws ec" "pub_of ec k = Some pk"
  obtains key2 where "BRKeySetPubKey ec pk = Some (True, key2)"
    "\<And>testnet addr. fst (BRKeyAddress ec testnet key2 addr) = fst (BRKeyAddress ec testnet (snd (BRKeySetSecret ec k True)) addr)"
    "\<And>testnet addr. fst (snd (BRKeyAddress ec testnet key2 addr)) = fst (snd (BRKeyAddress ec testnet (snd (BRKeySetSecret ec k True)) addr))"
proof -
  note L = ec_lawsD [OF assms(1)]
  obtain p where p: "ec_pubkey_create ec k = Some p" "pk = ec_pubkey_serialize ec True p" using assms(2) by (auto simp: pub_of_def)
  have pk: "length pk = 33" "pk \<noteq> replicate 33 0" "ec_pubkey_parse ec pk = Some p"
    using L(3) [of True p] L(4) [of True p] L(5) [of True p] by (auto simp: p(2))
  let ?key = "snd (BRKeySetSecret ec k True)" and ?key2 = "BRKeyClean\<lparr>key_pubKey := put (replicate 65 0) 0 pk, key_compressed := True\<rparr>"
  have k: "key_secret ?key = k" "key_compressed ?key" "key_size ?key = 33" by (simp_all add: BRKeySetSecret_def key_size_def)
  obtain key' where f: "key_fill ec ?key = (33, key')" "take 33 (key_pubKey key') = pk"
    using key_fill_public [OF assms(1) set_secret_ok, of k True p] p k by auto
  have f2: "key_fill ec ?key2 = (33, ?key2)" "take 33 (key_pubKey ?key2) = pk"
    using pk(1,2) by (simp_all add: key_fill_def BRKeyClean_def put_0)
  have l: "length (key_pubKey key') \<ge> 33" using pk(1) f(2) by (metis length_take min.cobounded1)
  have hash: "fst (BRKeyHash160 ec ?key2) = fst (BRKeyHash160 ec ?key)"
    using f f2 pk l by (simp add: BRKeyHash160_def BRKeyPubKey_def store_if_fits_def BRKeyClean_def min_absorb2)
  have "BRKeySetPubKey ec pk = Some (True, ?key2)" using pk by (simp add: BRKeySetPubKey_def)
  then show thesis using hash by (intro that [of ?key2]) (simp_all add: address_parts)
qed

text \<open>The steps of a private key \<open>m/0H/chain/index\<close>.\<close>

lemma path_steps:
  assumes "ec_laws ec" "ec_zeroes ec" "chain AND BIP32_HARD = 0" "index AND BIP32_HARD = 0"
    "BRBIP32PrivKey ec seed chain index = Some key" "ec_seckey_verify ec (key_secret key)"
  obtains k1 c1 K1 c K where "CKDpriv ec BIP32_HARD (seed_secret seed) = Some (k1, c1)" "pub_of ec k1 = Some K1"
    "CKDpub ec index (CKDpub ec chain (K1, c1)) = (K, c)" "pub_of ec (key_secret key) = Some K"
    "key = snd (BRKeySetSecret ec (key_secret key) True)"
proof -
  obtain k1 c1 k2 c2 k3 c3 where s: "CKDpriv ec BIP32_HARD (seed_secret seed) = Some (k1, c1)" "CKDpriv ec chain (k1, c1) = Some (k2, c2)"
    "CKDpriv ec index (k2, c2) = Some (k3, c3)" and key: "key = snd (BRKeySetSecret ec k3 True)"
    using assms(5) by (auto simp: BRBIP32PrivKey_def BRBIP32PrivKeyPath_def bind_eq_Some_conv)
  have sec: "key_secret key = k3" by (simp add: key BRKeySetSecret_def)
  obtain K3 where K3: "pub_of ec k3 = Some K3"
    using assms(6) ec_lawsD(2) [OF assms(1)] by (auto simp: sec pub_of_def)
  obtain K2 where K2: "pub_of ec k2 = Some K2" "CKDpub ec index (K2, c2) = (K3, c3)"
    using CKD_agree [OF assms(1,4) s(3) K3 assms(2)] .
  obtain K1 where K1: "pub_of ec k1 = Some K1" "CKDpub ec chain (K1, c1) = (K2, c2)"
    using CKD_agree [OF assms(1,3) s(2) K2(1) assms(2)] .
  show thesis using that [OF s(1) K1(1), of K3 c3] K1 K2 K3 sec key by simp
qed

lemma master_key:
  assumes "ec_laws ec" "CKDpriv ec BIP32_HARD (seed_secret seed) = Some (k1, c1)" "pub_of ec k1 = Some K1"
  shows "\<exists>fp. BRBIP32MasterPubKey ec seed = Some \<lparr>mpk_fingerPrint = fp, mpk_chainCode = c1, mpk_pubKey = K1\<rparr>"
proof -
  obtain key' where "BRKeyPubKey ec (snd (BRKeySetSecret ec k1 True)) (Some (replicate 33 0)) = (33, Some (put (replicate 33 0) 0 K1), key')"
    using set_secret_pub [OF assms(1,3), of "replicate 33 0"] by auto
  moreover have "length K1 = 33" using assms(3) ec_lawsD(3) [OF assms(1)] by (auto simp: pub_of_def)
  ultimately show ?thesis
    using assms(2) by (cases "seed_secret seed") (simp add: BRBIP32MasterPubKey_def BRKeySetSecret_def Let_def put_0 split: prod.splits)
qed

lemma public_derivation:
  assumes "ec_laws ec" "ec_zeroes ec" "chain AND BIP32_HARD = 0" "index AND BIP32_HARD = 0"
    "BRBIP32PrivKey ec seed chain index = Some key" "ec_seckey_verify ec (key_secret key)"
  obtains mpk pk where "BRBIP32MasterPubKey ec seed = Some mpk" "pub_of ec (key_secret key) = Some pk" "length pk = 33"
    "\<And>buf. 33 \<le> length buf \<Longrightarrow> BRBIP32PubKey ec (Some buf) mpk chain index = (33, Some (put buf 0 pk))"
    "key = snd (BRKeySetSecret ec (key_secret key) True)"
proof -
  obtain k1 c1 K1 c K where s: "CKDpriv ec BIP32_HARD (seed_secret seed) = Some (k1, c1)" "pub_of ec k1 = Some K1"
    "CKDpub ec index (CKDpub ec chain (K1, c1)) = (K, c)" "pub_of ec (key_secret key) = Some K"
    "key = snd (BRKeySetSecret ec (key_secret key) True)"
    using path_steps [OF assms] .
  obtain fp where m: "BRBIP32MasterPubKey ec seed = Some \<lparr>mpk_fingerPrint = fp, mpk_chainCode = c1, mpk_pubKey = K1\<rparr>"
    using master_key [OF assms(1) s(1,2)] by blast
  have "length K = 33" using s(4) ec_lawsD(3) [OF assms(1)] by (auto simp: pub_of_def)
  then show thesis using that [OF m s(4)] s(3,5) by (simp add: BRBIP32PubKey_def)
qed

text \<open>C6: for every seed, chain and index below the hardened range, if the private key derived for them is valid
  then the public key derived from the master public key alone is the public key of that private key, and
  the key made of it has the same address.\<close>

theorem bip32_public_private:
  assumes "ec_laws ec" "ec_zeroes ec" "chain AND BIP32_HARD = 0" "index AND BIP32_HARD = 0"
    "BRBIP32PrivKey ec seed chain index = Some key" "ec_seckey_verify ec (key_secret key)" "33 \<le> length buf"
  shows "\<exists>mpk pk key'. BRBIP32MasterPubKey ec seed = Some mpk \<and> length pk = 33 \<and>
    BRBIP32PubKey ec (Some buf) mpk chain index = (33, Some (put buf 0 pk)) \<and>
    BRKeyPubKey ec key (Some buf) = (33, Some (put buf 0 pk), key') \<and>
    (\<exists>key2. BRKeySetPubKey ec pk = Some (True, key2) \<and>
      fst (BRKeyAddress ec testnet key2 addr) = fst (BRKeyAddress ec testnet key addr) \<and>
      fst (snd (BRKeyAddress ec testnet key2 addr)) = fst (snd (BRKeyAddress ec testnet key addr)))"
proof -
  obtain mpk pk where d: "BRBIP32MasterPubKey ec seed = Some mpk" "pub_of ec (key_secret key) = Some pk" "length pk = 33"
    "BRBIP32PubKey ec (Some buf) mpk chain index = (33, Some (put buf 0 pk))"
    "key = snd (BRKeySetSecret ec (key_secret key) True)"
    using public_derivation [OF assms(1-6)] assms(7) by metis
  obtain key' where "BRKeyPubKey ec key (Some buf) = (33, Some (put buf 0 pk), key')"
    using set_secret_pub [OF assms(1) d(2), of buf] assms(7) d(5) by auto
  then show ?thesis
    using addresses_of_public_key [OF assms(1) d(2)] d by metis
qed

end
