(* ===== verification/WalletKeys.thy ===== *)
theory WalletKeys
  imports SequenceSpec
begin

text \<open>
  The wallet with real keys: the address derivation of \<open>BRWalletUnusedAddrs\<close> and the key functions that
  \<open>BRTransactionSign\<close> calls, both by the models of \<^verbatim>\<open>BRBIP32Sequence.c\<close> and \<^verbatim>\<open>BRKey.c\<close>, and the theorem that
  a wallet signs every input that pays one of its addresses.
\<close>

section \<open>The callers' sides\<close>

text \<open>One turn of the loop of \<open>BRWalletUnusedAddrs\<close>: the address, or none when a call fails.\<close>

definition derive_address :: "('p, 's) secp256k1 \<Rightarrow> bool \<Rightarrow> BRMasterPubKey \<Rightarrow> u32 \<Rightarrow> u32 \<Rightarrow> BRAddress option" where
  "derive_address ec testnet mpk chain idx =
     (let (len, pubKey) = BRBIP32PubKey ec (Some (replicate (fst (BRBIP32PubKey ec None mpk chain idx)) 0)) mpk chain idx in
      case BRKeySetPubKey ec (take len (the pubKey)) of
        None \<Rightarrow> None
      | Some (ok, key) \<Rightarrow>
          if \<not> ok then None
          else let (n, address, _) = BRKeyAddress ec testnet key (Some (replicate 36 0))
            in if n = 0 then None else address)"

text \<open>The buffers of \<open>BRTransactionSign\<close>: an address of 36 bytes, a public key of the size reported, a signature
  of at most 72 bytes.\<close>

definition brkey_ops :: "('p, 's) secp256k1 \<Rightarrow> bool \<Rightarrow> BRKey key_ops" where
  "brkey_ops ec testnet =
     \<lparr>key_address = (\<lambda>k. let (n, a, _) = BRKeyAddress ec testnet k (Some (replicate 36 0)) in if n = 0 then None else a),
      key_pub = (\<lambda>k. let (n, b, _) = BRKeyPubKey ec k (Some (replicate (fst (BRKeyPubKey ec k None)) 0)) in take n (the b)),
      key_sign = (\<lambda>k md. case BRKeySign ec k (Some (replicate 72 0)) md of None \<Rightarrow> [] | Some (n, b) \<Rightarrow> take n (the b))\<rparr>"

definition wallet_derives :: "('p, 's) secp256k1 \<Rightarrow> bool \<Rightarrow> BRMasterPubKey \<Rightarrow> BRWallet \<Rightarrow> bool" where
  "wallet_derives ec testnet mpk w \<longleftrightarrow>
     (\<forall>internal. \<forall>j < length (wallet_chain w internal).
        derive_address ec testnet mpk (if internal then SEQUENCE_INTERNAL_CHAIN else SEQUENCE_EXTERNAL_CHAIN) (of_nat j) =
          Some (wallet_chain w internal ! j)) \<and>
     length (wal_internalChain w) < 2 ^ 31 \<and> length (wal_externalChain w) < 2 ^ 31"

section \<open>Signing\<close>

lemma brkey_lengths:
  assumes "ec_laws ec"
  shows "key_lengths (brkey_ops ec testnet)"
proof -
  have a: "length (take n (the b)) \<le> length buf" if "store_if_fits (Some buf) x = (n, b)" for n b buf x
    using that by (auto simp: store_if_fits_def split: if_splits)
  have "length (key_sign (brkey_ops ec testnet) k md) \<le> 72" for k md
    using a [of "replicate 72 0"] by (auto simp: brkey_ops_def BRKeySign_def split: option.splits)
  moreover have "length (key_pub (brkey_ops ec testnet) k) \<le> 65" for k
  proof -
    obtain sz key' where f: "key_fill ec k = (sz, key')" by fastforce
    have "sz \<le> 65" using f ec_lawsD(3) [OF assms] by (auto simp: key_fill_def Let_def split: if_splits option.splits)
    then show ?thesis
      by (simp add: brkey_ops_def BRKeyPubKey_def f store_if_fits_def split: prod.splits)
  qed
  ultimately show ?thesis by (simp add: key_lengths_def)
qed

lemma find_key_found: "a \<in> set as \<Longrightarrow> BRAddressEq a address \<Longrightarrow> find_key as address < length as"
  by (induction as) auto

lemma chain_matches_mem: "j < n \<Longrightarrow> BRAddressEq a (chain ! j) \<Longrightarrow> of_nat j \<in> set (chain_matches chain a n)"
  by (induction n) (auto simp: less_Suc_eq)

text \<open>No address stands twice in a chain. Then an input has at most one index in each chain, and the arrays suffice.\<close>

definition chains_distinct :: "BRWallet \<Rightarrow> bool" where
  "chains_distinct w \<longleftrightarrow> (\<forall>internal. distinct (map addr_str (wallet_chain w internal)))"

lemma chain_matches_one:
  assumes "distinct (map addr_str chain)" "n \<le> length chain"
  shows "length (chain_matches chain a n) \<le> 1"
  using assms(2)
proof (induction n)
  case (Suc n)
  have "chain_matches chain a k = []" if "BRAddressEq a (chain ! n)" "k \<le> n" for k
    using that(2)
  proof (induction k)
    case (Suc k)
    then have "addr_str (chain ! k) \<noteq> addr_str (chain ! n)"
      using assms(1) \<open>Suc n \<le> length chain\<close> nth_eq_iff_index_eq [of "map addr_str chain" k n] by simp
    then show ?case using Suc that(1) by (auto simp: BRAddressEq_def)
  qed simp
  then show ?case using Suc by auto
qed simp

lemma signing_indexes_fit:
  assumes "distinct (map addr_str chain)"
  shows "length (signing_indexes chain tx) \<le> length (tx_inputs tx)"
proof -
  have "length (concat (map (\<lambda>i. chain_matches chain (in_address i) (length chain)) xs)) \<le> length xs" for xs
  proof (induction xs)
    case (Cons x xs)
    then show ?case using chain_matches_one [OF assms le_refl, of "in_address x"] by simp
  qed simp
  then show ?thesis by (simp add: signing_indexes_def)
qed

lemma soft_index: "j < 2 ^ 31 \<Longrightarrow> (of_nat j :: u32) AND BIP32_HARD = 0"
proof (rule bit_word_eqI)
  fix n assume j: "j < 2 ^ 31" and n: "n < LENGTH(32)"
  have "BIP32_HARD = push_bit 31 1" by (simp add: push_bit_eq_mult)
  then have "bit BIP32_HARD n \<Longrightarrow> n = 31" by (simp only: bit_push_bit_iff) (use n in \<open>auto simp: bit_1_iff\<close>)
  moreover have "\<not> bit (of_nat j :: u32) 31"
    using bit_nat_less [OF j, of 31] by (auto simp: bit_of_nat_iff)
  ultimately show "bit ((of_nat j :: u32) AND BIP32_HARD) n = bit 0 n" by (auto simp: bit_and_iff)
qed

lemma derive_list_keys:
  "derive_list ec kc is = Some ks \<Longrightarrow> i \<in> set is \<Longrightarrow>
   \<exists>s c. CKDpriv ec i kc = Some (s, c) \<and> snd (BRKeySetSecret ec s True) \<in> set ks"
  by (induction "is" arbitrary: ks) (auto simp: bind_eq_Some_conv)

lemma key_list_keys:
  assumes "BRBIP32PrivKeyList ec seed chain is = Some ks" "i \<in> set is"
  obtains key where "BRBIP32PrivKey ec seed chain i = Some key" "key \<in> set ks"
proof -
  obtain kc where kc: "derive_path ec [0 OR BIP32_HARD, chain] (seed_secret seed) = Some kc" "derive_list ec kc is = Some ks"
    using assms by (auto simp: BRBIP32PrivKeyList_def bind_eq_Some_conv split: if_splits)
  obtain s c where s: "CKDpriv ec i kc = Some (s, c)" "snd (BRKeySetSecret ec s True) \<in> set ks"
    using derive_list_keys [OF kc(2) assms(2)] by blast
  then have "BRBIP32PrivKey ec seed chain i = Some (snd (BRKeySetSecret ec s True))"
    using kc(1) by (auto simp: BRBIP32PrivKey_def BRBIP32PrivKeyPath_def bind_eq_Some_conv)
  then show thesis using that s(2) by blast
qed

text \<open>The address derived from the master public key is that of the private key.\<close>

lemma derived_key_address:
  assumes "ec_laws ec" "ec_zeroes ec" "chain AND BIP32_HARD = 0" "idx AND BIP32_HARD = 0"
    "BRBIP32PrivKey ec seed chain idx = Some key" "ec_seckey_verify ec (key_secret key)" "BRBIP32MasterPubKey ec seed = Some mpk"
  shows "key_address (brkey_ops ec testnet) key = derive_address ec testnet mpk chain idx"
proof -
  obtain pk where d: "pub_of ec (key_secret key) = Some pk" "length pk = 33"
    "BRBIP32PubKey ec (Some (replicate 33 0)) mpk chain idx = (33, Some (put (replicate 33 0) 0 pk))"
    "key = snd (BRKeySetSecret ec (key_secret key) True)"
    using public_derivation [OF assms(1-6)] assms(7) by (metis length_replicate option.inject order_refl)
  obtain key2 where k: "BRKeySetPubKey ec pk = Some (True, key2)"
    "\<And>addr. fst (BRKeyAddress ec testnet key2 addr) = fst (BRKeyAddress ec testnet key addr)"
    "\<And>addr. fst (snd (BRKeyAddress ec testnet key2 addr)) = fst (snd (BRKeyAddress ec testnet key addr))"
    using addresses_of_public_key [OF assms(1) d(1)] d(4) by metis
  have "fst (BRBIP32PubKey ec None mpk chain idx) = 33" by (simp add: BRBIP32PubKey_def)
  then have "derive_address ec testnet mpk chain idx = (let (n, address, _) = BRKeyAddress ec testnet key2 (Some (replicate 36 0))
      in if n = 0 then None else address)"
    using d(2,3) k(1) by (simp add: derive_address_def put_0)
  then show ?thesis
    using k(2,3) [of "Some (replicate 36 0)"]
    by (cases "BRKeyAddress ec testnet key2 (Some (replicate 36 0))"; cases "BRKeyAddress ec testnet key (Some (replicate 36 0))")
      (simp add: brkey_ops_def)
qed

text \<open>An input that pays an address of the wallet can be signed by one of the keys of its indexes.\<close>

definition own_input :: "bool \<Rightarrow> BRWallet \<Rightarrow> BRTxInput \<Rightarrow> bool" where
  "own_input testnet w x \<longleftrightarrow> (\<exists>h. length h = 20 \<and> in_script x = Some (p2pkh_script h) \<and> in_scriptLen x = 25 \<and>
     in_address x = pubkey_address testnet (p2pkh_script h)) \<and>
     (\<exists>internal. \<exists>j < length (wallet_chain w internal). BRAddressEq (in_address x) (wallet_chain w internal ! j))"

lemma own_input_signable:
  assumes laws: "ec_laws ec" "ec_zeroes ec" and mpk: "BRBIP32MasterPubKey ec seed = Some mpk" "wallet_derives ec testnet mpk w"
    and own: "own_input testnet w x" "x \<in> set (tx_inputs tx)"
    and keys: "BRBIP32PrivKeyList ec seed SEQUENCE_INTERNAL_CHAIN (signing_indexes (wal_internalChain w) tx) = Some ks1"
      "BRBIP32PrivKeyList ec seed SEQUENCE_EXTERNAL_CHAIN (signing_indexes (wal_externalChain w) tx) = Some ks2"
      "\<forall>k \<in> set (ks1 @ ks2). ec_seckey_verify ec (key_secret k)"
  shows "signable testnet (brkey_ops ec testnet) (ks1 @ ks2) x"
proof -
  obtain h where h: "length h = 20" "in_script x = Some (p2pkh_script h)" "in_scriptLen x = 25"
    "in_address x = pubkey_address testnet (p2pkh_script h)" using own(1) by (auto simp: own_input_def)
  obtain internal j where j: "j < length (wallet_chain w internal)" "BRAddressEq (in_address x) (wallet_chain w internal ! j)"
    using own(1) by (auto simp: own_input_def)
  let ?c = "if internal then SEQUENCE_INTERNAL_CHAIN else SEQUENCE_EXTERNAL_CHAIN"
  let ?ks = "if internal then ks1 else ks2"
  have small: "j < 2 ^ 31" using j(1) mpk(2) by (auto simp: wallet_derives_def wallet_chain_def split: if_splits)
  have "of_nat j \<in> set (signing_indexes (wallet_chain w internal) tx)"
    using chain_matches_mem [OF j] own(2) by (auto simp: signing_indexes_def)
  moreover have "BRBIP32PrivKeyList ec seed ?c (signing_indexes (wallet_chain w internal) tx) = Some ?ks"
    using keys(1,2) by (simp add: wallet_chain_def)
  ultimately obtain key where key: "BRBIP32PrivKey ec seed ?c (of_nat j) = Some key" "key \<in> set ?ks"
    using key_list_keys by metis
  then have mem: "key \<in> set (ks1 @ ks2)" by (auto split: if_splits)
  have "key_address (brkey_ops ec testnet) key = derive_address ec testnet mpk ?c (of_nat j)"
    using derived_key_address [OF laws _ soft_index [OF small] key(1) _ mpk(1)] keys(3) mem by (auto split: if_splits)
  also have "\<dots> = Some (wallet_chain w internal ! j)" using mpk(2) j(1) by (simp add: wallet_derives_def)
  finally have "wallet_chain w internal ! j \<in> set (sign_addrs (brkey_ops ec testnet) (ks1 @ ks2))"
    using mem by (force simp: sign_addrs_def)
  moreover have "BRAddressEq (wallet_chain w internal ! j) (pubkey_address testnet (p2pkh_script h))"
    using j(2) h(4) by (auto simp: BRAddressEq_def)
  ultimately have "sign_key testnet (brkey_ops ec testnet) (ks1 @ ks2) x < length (ks1 @ ks2)"
    using find_key_found by (fastforce simp: sign_key_def h(2) sign_addrs_def)
  then show ?thesis using h pubkey_address_starts [OF h(1), of testnet] by (auto simp: signable_def)
qed

text \<open>C5: a wallet whose chains hold the addresses derived from the master public key, none of them twice, signs every transaction
  whose inputs all spend pay-to-pubkey-hash outputs to such addresses, with the private keys derived from the seed: the call returns 1, every
  input is signed, and the transaction is otherwise unchanged.\<close>

theorem wallet_signs_own_inputs:
  assumes "ec_laws ec" "ec_zeroes ec" "BRBIP32MasterPubKey ec seed = Some mpk" "wallet_derives ec testnet mpk w"
    "\<forall>x \<in> set (tx_inputs tx). own_input testnet w x" "tx_ptrs tx"
    "BRBIP32PrivKeyList ec seed SEQUENCE_INTERNAL_CHAIN (signing_indexes (wal_internalChain w) tx) = Some ks1"
    "BRBIP32PrivKeyList ec seed SEQUENCE_EXTERNAL_CHAIN (signing_indexes (wal_externalChain w) tx) = Some ks2"
    "\<forall>k \<in> set (ks1 @ ks2). ec_seckey_verify ec (key_secret k)" "chains_distinct w"
  shows "\<exists>tx'. BRWalletSignTransaction testnet (brkey_ops ec testnet) (\<lambda>s c is. the (BRBIP32PrivKeyList ec s c is)) w tx 0 (Some seed) =
      Some (1, tx') \<and> tx_outputs tx' = tx_outputs tx \<and> length (tx_inputs tx') = length (tx_inputs tx) \<and>
    (\<forall>i < length (tx_inputs tx). \<exists>s. tx_inputs tx' ! i = with_sig (tx_inputs tx ! i) s) \<and> BRTransactionIsSigned tx'"
proof -
  have "\<forall>x \<in> set (tx_inputs tx). signable testnet (brkey_ops ec testnet) (ks1 @ ks2) x"
    using own_input_signable [OF assms(1-4) _ _ assms(7-9)] assms(5) by blast
  from sign_all_inputs [OF assms(6) brkey_lengths [OF assms(1)] this]
  obtain tx' where tx': "BRTransactionSign testnet (brkey_ops ec testnet) tx 0 (ks1 @ ks2) = Some (True, tx')"
    "tx_outputs tx' = tx_outputs tx" "length (tx_inputs tx') = length (tx_inputs tx)"
    "\<forall>i < length (tx_inputs tx). \<exists>s. tx_inputs tx' ! i = with_sig (tx_inputs tx ! i) s"
    unfolding Let_def by blast
  moreover have "BRTransactionIsSigned tx'"
    unfolding BRTransactionIsSigned_def signed_loop_iff
  proof
    fix x assume "x \<in> set (tx_inputs tx')"
    then obtain i where i: "i < length (tx_inputs tx)" "x = tx_inputs tx' ! i" using tx'(3) by (auto simp: in_set_conv_nth)
    then obtain s where "x = with_sig (tx_inputs tx ! i) s" using tx'(4) by blast
    then show "in_signature x \<noteq> None" by simp
  qed
  moreover have "length (signing_indexes (wal_internalChain w) tx) \<le> length (tx_inputs tx)"
    "length (signing_indexes (wal_externalChain w) tx) \<le> length (tx_inputs tx)"
    using assms(10) [unfolded chains_distinct_def] by (auto simp: wallet_chain_def intro!: signing_indexes_fit split: if_splits)
  ultimately show ?thesis
    using assms(7,8) by (auto simp: BRWalletSignTransaction_def)
qed

text \<open>A library whose group has one element: every derivation succeeds.\<close>

definition one_ec :: "(unit, unit) secp256k1" where
  "one_ec = \<lparr>ec_seckey_verify = (\<lambda>k. k \<noteq> 0), ec_privkey_tweak_add = (\<lambda>k t. (True, 1)), ec_privkey_tweak_mul = (\<lambda>k t. (True, 1)),
     ec_pubkey_create = (\<lambda>k. if k \<noteq> 0 then Some () else None), ec_pubkey_parse = (\<lambda>b. Some ()),
     ec_pubkey_serialize = (\<lambda>c p. if c then 2 # replicate 32 0 else 4 # replicate 64 0),
     ec_pubkey_tweak_add = (\<lambda>p t. Some ()), ec_pubkey_tweak_mul = (\<lambda>p t. Some ()),
     ec_sign = (\<lambda>md k. if k \<noteq> 0 then Some () else None), ec_signature_der = (\<lambda>_. [0x30]),
     ec_signature_parse_der = (\<lambda>b. Some ()), ec_verify = (\<lambda>s md p. True),
     ec_sign_recoverable = (\<lambda>md k. if k \<noteq> 0 then Some (replicate 64 0, 0) else None), ec_recover = (\<lambda>s r md. Some ())\<rparr>"

lemma one_ec_laws: "ec_laws one_ec" "ec_zeroes one_ec"
  by (simp_all add: ec_laws_def ec_zeroes_def one_ec_def)

definition one_mpk :: "bytes \<Rightarrow> BRMasterPubKey" where
  "one_mpk seed = the (BRBIP32MasterPubKey one_ec seed)"

lemma one_steps: "\<exists>c'. CKDpriv one_ec BIP32_HARD (k, c) = Some (1, c')" "\<exists>c'. CKDpriv one_ec i (1, c) = Some (1, c')"
  by (auto simp: CKDpriv_def BRSecp256k1PointGen_def BRSecp256k1ModAdd_def one_ec_def)

lemma one_master: "BRBIP32MasterPubKey one_ec seed = Some (one_mpk seed)"
proof -
  obtain k c where "seed_secret seed = (k, c)" by fastforce
  moreover obtain c' where "CKDpriv one_ec BIP32_HARD (k, c) = Some (1, c')" using one_steps(1) by blast
  ultimately have "BRBIP32MasterPubKey one_ec seed \<noteq> None"
    by (simp add: BRBIP32MasterPubKey_def Let_def split: prod.splits)
  then show ?thesis by (auto simp: one_mpk_def)
qed

lemma one_keys:
  "\<exists>ks. BRBIP32PrivKeyList one_ec seed chain is = Some ks \<and> (\<forall>k \<in> set ks. ec_seckey_verify one_ec (key_secret k))"
proof -
  obtain k c where s: "seed_secret seed = (k, c)" by fastforce
  obtain c1 where c1: "CKDpriv one_ec BIP32_HARD (k, c) = Some (1, c1)" using one_steps(1) by blast
  obtain c2 where c2: "CKDpriv one_ec chain (1, c1) = Some (1, c2)" using one_steps(2) by blast
  have "\<exists>ks. derive_list one_ec (1, c2) is = Some ks \<and> (\<forall>k \<in> set ks. ec_seckey_verify one_ec (key_secret k))"
  proof (induction "is")
    case Nil
    then show ?case by simp
  next
    case (Cons i "is")
    obtain c3 where "CKDpriv one_ec i (1, c2) = Some (1, c3)" using one_steps(2) by blast
    moreover have "ec_seckey_verify one_ec 1" by (simp add: one_ec_def)
    ultimately show ?case using Cons by (auto simp: BRKeySetSecret_def)
  qed
  then show ?thesis using s c1 c2 by (auto simp: BRBIP32PrivKeyList_def)
qed

text \<open>The wallet has the first external address, if there is one, and the transaction spends an output to it.\<close>

definition one_wallet :: BRWallet where
  "one_wallet = wallet_empty\<lparr>wal_externalChain := (case derive_address one_ec False (one_mpk [1, 2, 3]) 0 0 of None \<Rightarrow> [] | Some a \<Rightarrow> [a])\<rparr>"

definition one_hash :: bytes where
  "one_hash = BRHash160 (2 # replicate 32 0)"

definition one_spend :: BRTransaction where
  "one_spend = BRTransactionNew\<lparr>tx_inputs := map (\<lambda>_. tx_input_zero\<lparr>in_script := Some (p2pkh_script one_hash), in_scriptLen := 25,
     in_address := pubkey_address False (p2pkh_script one_hash), in_amount := 5000\<rparr>) (wal_externalChain one_wallet)\<rparr>"

lemma one_address:
  assumes "derive_address one_ec False (one_mpk [1, 2, 3]) 0 0 = Some a"
  shows "a = pubkey_address False (p2pkh_script one_hash)"
proof -
  let ?pk = "2 # replicate 32 0 :: bytes"
  let ?key = "BRKeyClean\<lparr>key_pubKey := put (replicate 65 0) 0 ?pk, key_compressed := True\<rparr>"
  have "fst (CKDpub one_ec 0 x) = ?pk" for x
    by (simp add: CKDpub_def BRSecp256k1PointAdd_def one_ec_def split: prod.splits)
  then have pub: "BRBIP32PubKey one_ec (Some (replicate 33 0)) mpk 0 0 = (33, Some ?pk)" for mpk
    by (simp add: BRBIP32PubKey_def put_0)
  have set: "BRKeySetPubKey one_ec ?pk = Some (True, ?key)" by (simp add: BRKeySetPubKey_def one_ec_def)
  have "take 33 (key_pubKey ?key) = ?pk" by (simp add: put_0)
  moreover have "?pk \<noteq> replicate 33 0" by (simp add: numeral_eq_Suc)
  then have "key_fill one_ec ?key = (33, ?key)" by (simp add: key_fill_def put_0)
  ultimately have hash: "fst (BRKeyHash160 one_ec ?key) = UInt160Get one_hash"
    by (simp add: BRKeyHash160_def BRKeyPubKey_def store_if_fits_def one_hash_def put_0 one_ec_def)
  have h: "length one_hash = 20" by (simp add: one_hash_def)
  have "fst (BRBIP32PubKey one_ec None mpk 0 0) = 33" for mpk by (simp add: BRBIP32PubKey_def)
  then have "derive_address one_ec False mpk 0 0 = (if fst (BRKeyAddress one_ec False ?key (Some (replicate 36 0))) = 0 then None
      else fst (snd (BRKeyAddress one_ec False ?key (Some (replicate 36 0)))))" for mpk
    by (simp add: derive_address_def pub set split: prod.splits)
  then have "a = the (snd (BRBase58CheckEncode (Some (replicate 36 0)) (pubkey_prefix False # one_hash)))"
    using assms h by (auto simp: address_parts hash Let_def UInt160Set_eq UInt160Get_eq codec_simps split: if_splits)
  then show ?thesis by (simp add: pubkey_address_def p2pkh_address [OF h])
qed

lemma wallet_signs_own_inputs_witness:
  "\<exists>tx'. BRWalletSignTransaction False (brkey_ops one_ec False) (\<lambda>s c is. the (BRBIP32PrivKeyList one_ec s c is)) one_wallet one_spend 0
     (Some [1, 2, 3]) = Some (1, tx') \<and> BRTransactionIsSigned tx'"
proof -
  have h: "length one_hash = 20" by (simp add: one_hash_def)
  then have script: "length (p2pkh_script one_hash) = 25" by (rule p2pkh_nth)
  have ext: "wal_externalChain one_wallet = [] \<or> (\<exists>a. wal_externalChain one_wallet = [a] \<and>
      derive_address one_ec False (one_mpk [1, 2, 3]) 0 0 = Some a)" "wal_internalChain one_wallet = []"
    by (auto simp: one_wallet_def wallet_empty_def split: option.splits)
  then have w: "wallet_derives one_ec False (one_mpk [1, 2, 3]) one_wallet" by (auto simp: wallet_derives_def wallet_chain_def)
  have own: "\<forall>x \<in> set (tx_inputs one_spend). own_input False one_wallet x"
    using ext one_address h by (auto simp: one_spend_def own_input_def wallet_chain_def BRAddressEq_def)
  have ptrs: "tx_ptrs one_spend"
    using ext script by (auto simp: tx_ptrs_def one_spend_def BRTransactionNew_def ptr_ok_def tx_input_zero_def)
  obtain ks1 ks2 where "BRBIP32PrivKeyList one_ec [1, 2, 3] SEQUENCE_INTERNAL_CHAIN (signing_indexes (wal_internalChain one_wallet) one_spend) = Some ks1"
    "BRBIP32PrivKeyList one_ec [1, 2, 3] SEQUENCE_EXTERNAL_CHAIN (signing_indexes (wal_externalChain one_wallet) one_spend) = Some ks2"
    "\<forall>k \<in> set (ks1 @ ks2). ec_seckey_verify one_ec (key_secret k)"
    using one_keys by (metis Un_iff set_append)
  moreover have "chains_distinct one_wallet" using ext by (auto simp: chains_distinct_def wallet_chain_def)
  ultimately show ?thesis using wallet_signs_own_inputs [OF one_ec_laws one_master w own ptrs] by blast
qed

lemma bip32_public_private_witness:
  "\<exists>key mpk pk key'. BRBIP32PrivKey one_ec [1, 2, 3] 0 7 = Some key \<and> BRBIP32MasterPubKey one_ec [1, 2, 3] = Some mpk \<and>
     BRBIP32PubKey one_ec (Some (replicate 33 0)) mpk 0 7 = (33, Some (put (replicate 33 0) 0 pk)) \<and>
     BRKeyPubKey one_ec key (Some (replicate 33 0)) = (33, Some (put (replicate 33 0) 0 pk), key')"
proof -
  obtain k c where s: "seed_secret [1, 2, 3] = (k, c)" by fastforce
  obtain c1 where c1: "CKDpriv one_ec BIP32_HARD (k, c) = Some (1, c1)" using one_steps(1) by blast
  obtain c2 where c2: "CKDpriv one_ec 0 (1, c1) = Some (1, c2)" using one_steps(2) by blast
  obtain c3 where c3: "CKDpriv one_ec 7 (1, c2) = Some (1, c3)" using one_steps(2) by blast
  have key: "BRBIP32PrivKey one_ec [1, 2, 3] 0 7 = Some (snd (BRKeySetSecret one_ec 1 True))"
    using s c1 c2 c3 by (simp add: BRBIP32PrivKey_def BRBIP32PrivKeyPath_def)
  have "ec_seckey_verify one_ec (key_secret (snd (BRKeySetSecret one_ec 1 True)))" by (simp add: one_ec_def BRKeySetSecret_def)
  from bip32_public_private [OF one_ec_laws _ _ key this, where buf = "replicate 33 0" and testnet = False and addr = None] key
  show ?thesis by auto
qed

end
