(* ===== verification/Bip38.thy ===== *)
theory Bip38
  imports Keys Ciphers
begin

text \<open>
  \<^verbatim>\<open>BRBIP38Key.c\<close>: private keys encrypted with a passphrase, and the AES-256 block cipher they use. The
  arrays of 32 bit words that the cipher works on are read as bytes in the code, and are byte lists here.
  The functions for intermediate codes are stubs in the code and have no definition.
\<close>

section \<open>AES-256\<close>

definition sbox :: bytes where
  "sbox = [
    0x63, 0x7c, 0x77, 0x7b, 0xf2, 0x6b, 0x6f, 0xc5, 0x30, 0x01, 0x67, 0x2b, 0xfe, 0xd7, 0xab, 0x76,
    0xca, 0x82, 0xc9, 0x7d, 0xfa, 0x59, 0x47, 0xf0, 0xad, 0xd4, 0xa2, 0xaf, 0x9c, 0xa4, 0x72, 0xc0,
    0xb7, 0xfd, 0x93, 0x26, 0x36, 0x3f, 0xf7, 0xcc, 0x34, 0xa5, 0xe5, 0xf1, 0x71, 0xd8, 0x31, 0x15,
    0x04, 0xc7, 0x23, 0xc3, 0x18, 0x96, 0x05, 0x9a, 0x07, 0x12, 0x80, 0xe2, 0xeb, 0x27, 0xb2, 0x75,
    0x09, 0x83, 0x2c, 0x1a, 0x1b, 0x6e, 0x5a, 0xa0, 0x52, 0x3b, 0xd6, 0xb3, 0x29, 0xe3, 0x2f, 0x84,
    0x53, 0xd1, 0x00, 0xed, 0x20, 0xfc, 0xb1, 0x5b, 0x6a, 0xcb, 0xbe, 0x39, 0x4a, 0x4c, 0x58, 0xcf,
    0xd0, 0xef, 0xaa, 0xfb, 0x43, 0x4d, 0x33, 0x85, 0x45, 0xf9, 0x02, 0x7f, 0x50, 0x3c, 0x9f, 0xa8,
    0x51, 0xa3, 0x40, 0x8f, 0x92, 0x9d, 0x38, 0xf5, 0xbc, 0xb6, 0xda, 0x21, 0x10, 0xff, 0xf3, 0xd2,
    0xcd, 0x0c, 0x13, 0xec, 0x5f, 0x97, 0x44, 0x17, 0xc4, 0xa7, 0x7e, 0x3d, 0x64, 0x5d, 0x19, 0x73,
    0x60, 0x81, 0x4f, 0xdc, 0x22, 0x2a, 0x90, 0x88, 0x46, 0xee, 0xb8, 0x14, 0xde, 0x5e, 0x0b, 0xdb,
    0xe0, 0x32, 0x3a, 0x0a, 0x49, 0x06, 0x24, 0x5c, 0xc2, 0xd3, 0xac, 0x62, 0x91, 0x95, 0xe4, 0x79,
    0xe7, 0xc8, 0x37, 0x6d, 0x8d, 0xd5, 0x4e, 0xa9, 0x6c, 0x56, 0xf4, 0xea, 0x65, 0x7a, 0xae, 0x08,
    0xba, 0x78, 0x25, 0x2e, 0x1c, 0xa6, 0xb4, 0xc6, 0xe8, 0xdd, 0x74, 0x1f, 0x4b, 0xbd, 0x8b, 0x8a,
    0x70, 0x3e, 0xb5, 0x66, 0x48, 0x03, 0xf6, 0x0e, 0x61, 0x35, 0x57, 0xb9, 0x86, 0xc1, 0x1d, 0x9e,
    0xe1, 0xf8, 0x98, 0x11, 0x69, 0xd9, 0x8e, 0x94, 0x9b, 0x1e, 0x87, 0xe9, 0xce, 0x55, 0x28, 0xdf,
    0x8c, 0xa1, 0x89, 0x0d, 0xbf, 0xe6, 0x42, 0x68, 0x41, 0x99, 0x2d, 0x0f, 0xb0, 0x54, 0xbb, 0x16]"

definition sboxi :: bytes where
  "sboxi = [
    0x52, 0x09, 0x6a, 0xd5, 0x30, 0x36, 0xa5, 0x38, 0xbf, 0x40, 0xa3, 0x9e, 0x81, 0xf3, 0xd7, 0xfb,
    0x7c, 0xe3, 0x39, 0x82, 0x9b, 0x2f, 0xff, 0x87, 0x34, 0x8e, 0x43, 0x44, 0xc4, 0xde, 0xe9, 0xcb,
    0x54, 0x7b, 0x94, 0x32, 0xa6, 0xc2, 0x23, 0x3d, 0xee, 0x4c, 0x95, 0x0b, 0x42, 0xfa, 0xc3, 0x4e,
    0x08, 0x2e, 0xa1, 0x66, 0x28, 0xd9, 0x24, 0xb2, 0x76, 0x5b, 0xa2, 0x49, 0x6d, 0x8b, 0xd1, 0x25,
    0x72, 0xf8, 0xf6, 0x64, 0x86, 0x68, 0x98, 0x16, 0xd4, 0xa4, 0x5c, 0xcc, 0x5d, 0x65, 0xb6, 0x92,
    0x6c, 0x70, 0x48, 0x50, 0xfd, 0xed, 0xb9, 0xda, 0x5e, 0x15, 0x46, 0x57, 0xa7, 0x8d, 0x9d, 0x84,
    0x90, 0xd8, 0xab, 0x00, 0x8c, 0xbc, 0xd3, 0x0a, 0xf7, 0xe4, 0x58, 0x05, 0xb8, 0xb3, 0x45, 0x06,
    0xd0, 0x2c, 0x1e, 0x8f, 0xca, 0x3f, 0x0f, 0x02, 0xc1, 0xaf, 0xbd, 0x03, 0x01, 0x13, 0x8a, 0x6b,
    0x3a, 0x91, 0x11, 0x41, 0x4f, 0x67, 0xdc, 0xea, 0x97, 0xf2, 0xcf, 0xce, 0xf0, 0xb4, 0xe6, 0x73,
    0x96, 0xac, 0x74, 0x22, 0xe7, 0xad, 0x35, 0x85, 0xe2, 0xf9, 0x37, 0xe8, 0x1c, 0x75, 0xdf, 0x6e,
    0x47, 0xf1, 0x1a, 0x71, 0x1d, 0x29, 0xc5, 0x89, 0x6f, 0xb7, 0x62, 0x0e, 0xaa, 0x18, 0xbe, 0x1b,
    0xfc, 0x56, 0x3e, 0x4b, 0xc6, 0xd2, 0x79, 0x20, 0x9a, 0xdb, 0xc0, 0xfe, 0x78, 0xcd, 0x5a, 0xf4,
    0x1f, 0xdd, 0xa8, 0x33, 0x88, 0x07, 0xc7, 0x31, 0xb1, 0x12, 0x10, 0x59, 0x27, 0x80, 0xec, 0x5f,
    0x60, 0x51, 0x7f, 0xa9, 0x19, 0xb5, 0x4a, 0x0d, 0x2d, 0xe5, 0x7a, 0x9f, 0x93, 0xc9, 0x9c, 0xef,
    0xa0, 0xe0, 0x3b, 0x4d, 0xae, 0x2a, 0xf5, 0xb0, 0xc8, 0xeb, 0xbb, 0x3c, 0x83, 0x53, 0x99, 0x61,
    0x17, 0x2b, 0x04, 0x7e, 0xba, 0x77, 0xd6, 0x26, 0xe1, 0x69, 0x14, 0x63, 0x55, 0x21, 0x0c, 0x7d]"

definition sub :: "u8 \<Rightarrow> u8" where
  "sub b = sbox ! unat b"

definition unsub :: "u8 \<Rightarrow> u8" where
  "unsub b = sboxi ! unat b"

definition xt :: "u8 \<Rightarrow> u8" where
  "xt x = push_bit 1 x XOR (drop_bit 7 x AND 1) * 0x1b"

definition xors :: "bytes \<Rightarrow> bytes \<Rightarrow> bytes" where
  "xors xs ys = map (\<lambda>(x, y). x XOR y) (zip xs ys)"

text \<open>Four bytes of the key, and four bytes added to it.\<close>

definition key_word :: "nat \<Rightarrow> bytes \<Rightarrow> bytes" where
  "key_word j k = take 4 (drop j k)"

definition xor_at :: "nat \<Rightarrow> bytes \<Rightarrow> bytes \<Rightarrow> bytes" where
  "xor_at j w k = put k j (xors (key_word j k) w)"

definition chain_word :: "nat \<Rightarrow> bytes \<Rightarrow> bytes" where
  "chain_word j k = xor_at j (key_word (j - 4) k) k"

definition first_word :: "u8 \<Rightarrow> bytes \<Rightarrow> bytes" where
  "first_word r k = xor_at 0 [sub (k ! 29) XOR r, sub (k ! 30), sub (k ! 31), sub (k ! 28)] k"

definition middle_word :: "bytes \<Rightarrow> bytes" where
  "middle_word k = xor_at 16 (map sub (key_word 12 k)) k"

definition expand_key :: "bytes \<times> u8 \<Rightarrow> bytes \<times> u8" where
  "expand_key kr =
     (let (k, r) = kr;
          k = first_word r k; r = xt r;
          k = fold chain_word [4, 8, 12] k;
          k = middle_word k
      in (fold chain_word [20, 24, 28] k, r))"

definition unexpand_key :: "bytes \<times> u8 \<Rightarrow> bytes \<times> u8" where
  "unexpand_key kr =
     (let (k, r) = kr;
          k = fold chain_word [28, 24, 20] k;
          k = middle_word k;
          k = fold chain_word [12, 8, 4] k;
          r = drop_bit 1 r XOR (r AND 1) * 0x8d
      in (first_word r k, r))"

definition add_round_key :: "nat \<Rightarrow> bytes \<Rightarrow> bytes \<Rightarrow> bytes" where
  "add_round_key i k x = xors x (take 16 (drop (i mod 2 * 16) k))"

definition shift_rows :: "bytes \<Rightarrow> bytes" where
  "shift_rows x = map ((!) x) [0, 5, 10, 15, 4, 9, 14, 3, 8, 13, 2, 7, 12, 1, 6, 11]"

definition unshift_rows :: "bytes \<Rightarrow> bytes" where
  "unshift_rows x = map ((!) x) [0, 13, 10, 7, 4, 1, 14, 11, 8, 5, 2, 15, 12, 9, 6, 3]"

definition mix_column :: "bytes \<Rightarrow> nat \<Rightarrow> bytes" where
  "mix_column x j =
     (let a = x ! j; b = x ! (j + 1); c = x ! (j + 2); d = x ! (j + 3); e = a XOR b XOR c XOR d
      in [a XOR e XOR xt (a XOR b), b XOR e XOR xt (b XOR c), c XOR e XOR xt (c XOR d), d XOR e XOR xt (d XOR a)])"

definition unmix_column :: "bytes \<Rightarrow> nat \<Rightarrow> bytes" where
  "unmix_column x j =
     (let a = x ! j; b = x ! (j + 1); c = x ! (j + 2); d = x ! (j + 3); e = a XOR b XOR c XOR d;
          h = xt e; f = e XOR xt (xt (h XOR a XOR c)); g = e XOR xt (xt (h XOR b XOR d))
      in [a XOR f XOR xt (a XOR b), b XOR g XOR xt (b XOR c), c XOR f XOR xt (c XOR d), d XOR g XOR xt (d XOR a)])"

definition mix_columns :: "bytes \<Rightarrow> bytes" where
  "mix_columns x = concat (map (mix_column x) [0, 4, 8, 12])"

definition unmix_columns :: "bytes \<Rightarrow> bytes" where
  "unmix_columns x = concat (map (unmix_column x) [0, 4, 8, 12])"

definition encrypt_round :: "nat \<Rightarrow> bytes \<times> bytes \<times> u8 \<Rightarrow> bytes \<times> bytes \<times> u8" where
  "encrypt_round i st =
     (let (x, kr) = st;
          x = add_round_key i (fst kr) x;
          x = shift_rows (map sub x);
          x = (if i < 13 then mix_columns x else x)
      in (x, if i mod 2 \<noteq> 0 then expand_key kr else kr))"

definition BRAES256ECBEncrypt :: "bytes \<Rightarrow> bytes \<Rightarrow> bytes" where
  "BRAES256ECBEncrypt key32 buf16 =
     (let (x, k, _) = fold encrypt_round [0..<14] (buf16, key32, 1) in add_round_key 0 k x)"

definition decrypt_round :: "nat \<Rightarrow> bytes \<times> bytes \<times> u8 \<Rightarrow> bytes \<times> bytes \<times> u8" where
  "decrypt_round i st =
     (let (x, kr) = st;
          x = add_round_key i (fst kr) x;
          x = (if i > 0 then unmix_columns x else x);
          x = map unsub (unshift_rows x)
      in (x, if i mod 2 = 0 then unexpand_key kr else kr))"

definition BRAES256ECBDecrypt :: "bytes \<Rightarrow> bytes \<Rightarrow> bytes" where
  "BRAES256ECBDecrypt key32 buf16 =
     (let (x, k, _) = fold decrypt_round [0..<14] (buf16, (expand_key ^^ 7) (key32, 1)) in add_round_key 0 k x)"

section \<open>Derived keys\<close>

abbreviation BIP38_NOEC_PREFIX :: u16 where "BIP38_NOEC_PREFIX \<equiv> 0x0142"
abbreviation BIP38_EC_PREFIX :: u16 where "BIP38_EC_PREFIX \<equiv> 0x0143"
abbreviation BIP38_NOEC_FLAG :: u8 where "BIP38_NOEC_FLAG \<equiv> 0xc0"
abbreviation BIP38_COMPRESSED_FLAG :: u8 where "BIP38_COMPRESSED_FLAG \<equiv> 0x20"
abbreviation BIP38_LOTSEQUENCE_FLAG :: u8 where "BIP38_LOTSEQUENCE_FLAG \<equiv> 0x04"
abbreviation BIP38_INVALID_FLAG :: u8 where "BIP38_INVALID_FLAG \<equiv> 0x1b"

definition BRBIP38DerivePassfactor :: "u8 \<Rightarrow> bytes \<Rightarrow> bytes \<Rightarrow> uint256 run" where
  "BRBIP38DerivePassfactor flag entropy passphrase = do {
     prefactor \<leftarrow> BRScrypt (replicate 32 0) passphrase
       (take (if flag AND BIP38_LOTSEQUENCE_FLAG \<noteq> 0 then 4 else 8) entropy) 16384 8 8;
     Some (UInt256Get (if flag AND BIP38_LOTSEQUENCE_FLAG \<noteq> 0 then BRSHA256_2 (prefactor @ take 8 entropy) else prefactor))
   }"

definition BRBIP38DeriveKey :: "bytes \<Rightarrow> bytes \<Rightarrow> bytes \<Rightarrow> bytes run" where
  "BRBIP38DeriveKey passpoint addresshash entropy =
     BRScrypt (replicate 64 0) passpoint (take 4 addresshash @ take 8 entropy) 1024 1 1"

section \<open>Encrypted keys\<close>

definition BRBIP38KeyIsValid :: "bytes \<Rightarrow> bool" where
  "BRBIP38KeyIsValid bip38Key =
     (let (len, data) = BRBase58CheckDecode (Some (replicate 39 0)) bip38Key in
      if len \<noteq> 39 then False
      else let prefix = UInt16GetBE (the data); flag = the data ! 2 in
        if prefix = BIP38_NOEC_PREFIX
        then flag AND BIP38_NOEC_FLAG = BIP38_NOEC_FLAG \<and> flag AND BIP38_LOTSEQUENCE_FLAG = 0 \<and> flag AND BIP38_INVALID_FLAG = 0
        else if prefix = BIP38_EC_PREFIX then flag AND BIP38_NOEC_FLAG = 0 \<and> flag AND BIP38_INVALID_FLAG = 0
        else False)"

text \<open>\<open>data = prefix + flag + addresshash + encrypted1 + encrypted2\<close>\<close>

definition noec_secret :: "bytes \<Rightarrow> bytes \<Rightarrow> uint256 run" where
  "noec_secret data passphrase = do {
     let addresshash = drop 3 data;
     derived \<leftarrow> BRScrypt (replicate 64 0) passphrase (take 4 addresshash) 16384 8 8;
     let derived1 = take 32 derived;
     let derived2 = drop 32 derived;
     let encrypted1 = BRAES256ECBDecrypt derived2 (take 16 (drop 7 data));
     let encrypted2 = BRAES256ECBDecrypt derived2 (take 16 (drop 23 data));
     Some (UInt256Get (xors encrypted1 (take 16 derived1) @ xors encrypted2 (drop 16 derived1)))
   }"

text \<open>\<open>data = prefix + flag + addresshash + entropy + encrypted1[0...7] + encrypted2\<close>\<close>

definition ec_secret :: "('p, 's) secp256k1 \<Rightarrow> bytes \<Rightarrow> bytes \<Rightarrow> uint256 run" where
  "ec_secret ec data passphrase = do {
     let addresshash = drop 3 data;
     let entropy = drop 7 data;
     passfactor \<leftarrow> BRBIP38DerivePassfactor (data ! 2) entropy passphrase;
     let (ok, passpoint) = BRSecp256k1PointGen ec (replicate 33 0) passfactor;
     derived \<leftarrow> (if ok then BRBIP38DeriveKey passpoint addresshash entropy else None);
     let derived1 = take 32 derived;
     let derived2 = drop 32 derived;
     let encrypted2 = BRAES256ECBDecrypt derived2 (take 16 (drop 23 data));
     let encrypted1 = take 8 (drop 15 data) @ xors (take 8 encrypted2) (take 8 (drop 16 derived1));
     let seedb2 = xors (drop 8 encrypted2) (drop 24 derived1);
     let encrypted1 = BRAES256ECBDecrypt derived2 encrypted1;
     let factorb = BRSHA256_2 (xors encrypted1 (take 16 derived1) @ seedb2);
     Some (snd (BRSecp256k1ModMul ec passfactor (UInt256Get factorb)))
   }"

text \<open>Another prefix leaves the secret uninitialised.\<close>

definition BRKeySetBIP38Key :: "('p, 's) secp256k1 \<Rightarrow> bool \<Rightarrow> BRKey \<Rightarrow> bytes \<Rightarrow> bytes \<Rightarrow> (bool \<times> BRKey) run" where
  "BRKeySetBIP38Key ec testnet key bip38Key passphrase =
     (let (len, data) = BRBase58CheckDecode (Some (replicate 39 0)) bip38Key; data = the data in
      if len \<noteq> 39 then Some (False, key)
      else do {
        let prefix = UInt16GetBE data;
        let flag = data ! 2;
        let addresshash = drop 3 data;
        secret \<leftarrow> (if prefix = BIP38_NOEC_PREFIX then noec_secret data passphrase
          else if prefix = BIP38_EC_PREFIX then ec_secret ec data passphrase else None);
        let (_, key) = BRKeySetSecret ec secret (flag AND BIP38_COMPRESSED_FLAG \<noteq> 0);
        let (_, address, key) = BRKeyAddress ec testnet key (Some (replicate 36 0));
        let h = BRSHA256_2 (takeWhile (\<lambda>c. c \<noteq> 0) (the address));
        Some (\<not> (the address ! 0 = 0 \<or> take 4 h \<noteq> take 4 addresshash), key)
      })"

text \<open>The address is uninitialised when the key has none.\<close>

definition BRKeyBIP38Key :: "('p, 's) secp256k1 \<Rightarrow> bool \<Rightarrow> BRKey \<Rightarrow> bytes option \<Rightarrow> bytes \<Rightarrow> (nat \<times> bytes option \<times> BRKey) run" where
  "BRKeyBIP38Key ec testnet key bip38Key passphrase =
     (case bip38Key of
        None \<Rightarrow> Some (43 * 138 div 100 + 2, None, key)
      | Some _ \<Rightarrow> do {
          let flag = (if key_compressed key then BIP38_NOEC_FLAG OR BIP38_COMPRESSED_FLAG else BIP38_NOEC_FLAG);
          let (n, address, key) = BRKeyAddress ec testnet key (Some (replicate 36 0));
          address \<leftarrow> (if n = 0 then None else address);
          let salt = take 4 (BRSHA256_2 (takeWhile (\<lambda>c. c \<noteq> 0) address));
          derived \<leftarrow> BRScrypt (replicate 64 0) passphrase salt 16384 8 8;
          let derived1 = take 32 derived;
          let derived2 = drop 32 derived;
          let secret = UInt256Set (key_secret key);
          let encrypted1 = BRAES256ECBEncrypt derived2 (xors (take 16 secret) (take 16 derived1));
          let encrypted2 = BRAES256ECBEncrypt derived2 (xors (drop 16 secret) (drop 16 derived1));
          let buf = UInt16SetBE BIP38_NOEC_PREFIX @ [flag] @ salt @ encrypted1 @ encrypted2;
          let (n, bip38Key) = BRBase58CheckEncode bip38Key buf;
          Some (n, bip38Key, key)
        })"

end
