(* ===== verification/Bip38Spec.thy ===== *)
theory Bip38Spec
  imports Bip38 KeySpec ScryptSpec
begin

text \<open>
  Properties of the block cipher and of the encrypted keys: each step of a decryption round undoes the
  step of an encryption round, the reversed key schedule goes back through the same keys, and so
  decryption undoes encryption; a key that was encrypted is imported again with the same passphrase.
\<close>

section \<open>Exclusive or of byte lists\<close>

lemma length_xors [simp]: "length (xors xs ys) = min (length xs) (length ys)"
  by (simp add: xors_def)

lemma xors_twice: "length xs = length ys \<Longrightarrow> xors (xors xs ys) ys = xs"
  by (rule nth_equalityI) (simp_all add: xors_def xor.assoc)

lemma length_key_word [simp]: "j + 4 \<le> length k \<Longrightarrow> length (key_word j k) = 4"
  by (simp add: key_word_def)

lemma length_xor_at [simp]: "j + 4 \<le> length k \<Longrightarrow> length w = 4 \<Longrightarrow> length (xor_at j w k) = length k"
  by (simp add: xor_at_def)

lemma key_word_xor_at: "j + 4 \<le> length k \<Longrightarrow> length w = 4 \<Longrightarrow> key_word j (xor_at j w k) = xors (key_word j k) w"
  by (simp add: xor_at_def key_word_def put_def)

lemma put_put: "length xs = length ys \<Longrightarrow> j + length xs \<le> length k \<Longrightarrow> put (put k j xs) j ys = put k j ys"
  by (simp add: put_def)

lemma xor_at_twice:
  assumes "j + 4 \<le> length k" "length w = 4"
  shows "xor_at j w (xor_at j w k) = k"
proof -
  have "xor_at j w (xor_at j w k) = put (xor_at j w k) j (key_word j k)"
    unfolding xor_at_def [of j w "xor_at j w k"] key_word_xor_at [OF assms]
    using assms by (simp add: xors_twice)
  also have "\<dots> = put k j (key_word j k)"
    using assms by (simp add: xor_at_def put_put)
  also have "\<dots> = k"
    using assms by (simp add: put_def key_word_def) (metis append_take_drop_id drop_drop add.commute)
  finally show ?thesis .
qed

lemma nth_xor_at: "j + 4 \<le> length k \<Longrightarrow> length w = 4 \<Longrightarrow> i < j \<or> j + 4 \<le> i \<Longrightarrow> xor_at j w k ! i = k ! i"
  by (auto simp: xor_at_def nth_put)

lemma other_key_word:
  assumes "j + 4 \<le> length k" "length w = 4" "i + 4 \<le> j"
  shows "key_word i (xor_at j w k) = key_word i k"
  by (rule nth_equalityI) (use assms in \<open>auto simp: key_word_def nth_xor_at\<close>)

section \<open>The substitution and the columns\<close>

lemma unsub_sub_table: "map unsub sbox = map of_nat [0..<256]"
  by code_simp

lemma length_sbox: "length sbox = 256"
  by (simp add: sbox_def)

lemma unsub_sub [simp]: "unsub (sub b) = b"
proof -
  have b: "unat b < 256" using unsigned_less [of b] by simp
  then have "unsub (sub b) = map unsub sbox ! unat b"
    by (simp add: sub_def length_sbox)
  also have "\<dots> = b"
    using b by (simp add: unsub_sub_table)
  finally show ?thesis .
qed

lemma xt_if: "xt x = push_bit 1 x XOR (if bit x 7 then 0x1b else 0)"
proof -
  have "drop_bit 7 x AND 1 = of_bool (bit x 7)"
    by (simp add: and_one_eq mod_2_eq_odd bit_iff_odd_drop_bit)
  then show ?thesis by (simp add: xt_def)
qed

lemma xt_xor: "xt (x XOR y) = xt x XOR xt y"
  by (simp add: xt_if push_bit_xor bit_xor_iff ac_simps del: push_bit_of_1 push_bit_numeral)

lemma xor_self_left [simp]: "(x :: 'a::len word) XOR (x XOR y) = y"
  by (simp flip: xor.assoc)

lemma xt_0 [simp]: "xt 0 = 0"
  by (simp add: xt_def)

lemma unmix_mix_column:
  "unmix_column (mix_column x j) 0 = [x ! j, x ! (j + 1), x ! (j + 2), x ! (j + 3)]"
  by (simp add: unmix_column_def mix_column_def Let_def xt_xor ac_simps numeral_eq_Suc)

lemma length_mix [simp]: "length (mix_column x j) = 4" "length (mix_columns x) = 16"
    "length (shift_rows x) = 16" "length (unshift_rows x) = 16" "length (unmix_columns x) = 16"
  by (simp_all add: mix_column_def mix_columns_def shift_rows_def unshift_rows_def unmix_columns_def unmix_column_def Let_def)

lemma length_16: "length xs = 16 \<Longrightarrow> xs = map ((!) xs) [0..<16]"
  by (metis map_nth)

lemma unshift_shift_rows: "length x = 16 \<Longrightarrow> unshift_rows (shift_rows x) = x"
  by (subst (3) length_16) (simp_all add: unshift_rows_def shift_rows_def upt_rec numeral_eq_Suc)

lemma unmix_column_cong: "take 4 (drop i x) = take 4 (drop j y) \<Longrightarrow> i + 4 \<le> length x \<Longrightarrow> j + 4 \<le> length y
  \<Longrightarrow> unmix_column x i = unmix_column y j"
proof -
  assume eq: "take 4 (drop i x) = take 4 (drop j y)" and len: "i + 4 \<le> length x" "j + 4 \<le> length y"
  have nth: "x ! (i + l) = y ! (j + l)" if "l < 4" for l
    using arg_cong [OF eq, of "\<lambda>z. z ! l"] that len by simp
  show ?thesis
    using nth [of 0] nth [of 1] nth [of 2] nth [of 3] by (simp add: unmix_column_def)
qed

lemma unmix_mix_columns:
  assumes "length x = 16"
  shows "unmix_columns (mix_columns x) = x"
proof -
  have "unmix_column (mix_columns x) j = [x ! j, x ! (j + 1), x ! (j + 2), x ! (j + 3)]" if "j \<in> {0, 4, 8, 12}" for j
  proof -
    have "take 4 (drop j (mix_columns x)) = take 4 (drop 0 (mix_column x j))"
      using that by (auto simp: mix_columns_def)
    then have "unmix_column (mix_columns x) j = unmix_column (mix_column x j) 0"
      using that by (intro unmix_column_cong) auto
    then show ?thesis by (simp only: unmix_mix_column)
  qed
  then show ?thesis
    by (subst (2) length_16) (simp_all add: assms unmix_columns_def upt_rec numeral_eq_Suc)
qed

section \<open>The key schedule\<close>

lemma length_chain_word [simp]: "j + 4 \<le> length k \<Longrightarrow> length (chain_word j k) = length k"
  by (simp add: chain_word_def)

lemma chain_word_twice: "4 \<le> j \<Longrightarrow> j + 4 \<le> length k \<Longrightarrow> chain_word j (chain_word j k) = k"
  by (simp add: chain_word_def other_key_word xor_at_twice)

lemma length_first_word [simp]: "4 \<le> length k \<Longrightarrow> length (first_word r k) = length k"
  by (simp add: first_word_def)

lemma length_middle_word [simp]: "20 \<le> length k \<Longrightarrow> length (middle_word k) = length k"
  by (simp add: middle_word_def)

lemma first_word_twice: "length k = 32 \<Longrightarrow> first_word r (first_word r k) = k"
  by (simp add: first_word_def nth_xor_at xor_at_twice)

lemma middle_word_twice: "length k = 32 \<Longrightarrow> middle_word (middle_word k) = k"
  by (simp add: middle_word_def other_key_word xor_at_twice)

lemma length_expand_key [simp]: "length (fst kr) = 32 \<Longrightarrow> length (fst (expand_key kr)) = 32"
  by (simp add: expand_key_def Let_def split_beta)

lemma rcon_table: "list_all (\<lambda>i. drop_bit 1 (xt (of_nat i)) XOR (xt (of_nat i) AND 1) * 0x8d = of_nat i) [0..<256]"
  by code_simp

lemma rcon_back: "drop_bit 1 (xt r) XOR (xt r AND 1) * 0x8d = r"
proof -
  have "unat r < 256" using unsigned_less [of r] by simp
  then have "drop_bit 1 (xt (of_nat (unat r))) XOR (xt (of_nat (unat r)) AND 1) * 0x8d = of_nat (unat r)"
    using rcon_table unfolding list_all_iff by (metis atLeastLessThan_iff atLeastLessThan_upt le0)
  then show ?thesis by simp
qed

lemma unexpand_expand_key: "length (fst kr) = 32 \<Longrightarrow> unexpand_key (expand_key kr) = kr"
  by (simp add: expand_key_def unexpand_key_def Let_def split_beta chain_word_twice first_word_twice middle_word_twice
      rcon_back [unfolded One_nat_def])

lemma length_schedule: "length key = 32 \<Longrightarrow> length (fst ((expand_key ^^ n) (key, 1))) = 32"
  by (induction n) simp_all

section \<open>The cipher\<close>

text \<open>The key and the round constant before round \<open>i\<close> of the encryption, and the state of that round after
  its key was added.\<close>

definition round_key :: "bytes \<Rightarrow> nat \<Rightarrow> bytes \<times> u8" where
  "round_key key i = (expand_key ^^ (i div 2)) (key, 1)"

definition keyed_state :: "bytes \<Rightarrow> bytes \<Rightarrow> nat \<Rightarrow> bytes" where
  "keyed_state key x i =
     add_round_key i (fst (round_key key i)) (fst (fold encrypt_round [0..<i] (x, key, 1)))"

lemma length_round_key [simp]: "length key = 32 \<Longrightarrow> length (fst (round_key key i)) = 32"
  by (simp add: round_key_def length_schedule)

lemma length_add_round_key [simp]: "length k = 32 \<Longrightarrow> length x = 16 \<Longrightarrow> length (add_round_key i k x) = 16"
  by (simp add: add_round_key_def)

lemma add_round_key_twice:
  "length k = 32 \<Longrightarrow> length x = 16 \<Longrightarrow> add_round_key i k (add_round_key i k x) = x"
  by (simp add: add_round_key_def xors_twice)

lemma round_key_Suc: "round_key key (Suc i) = (if i mod 2 \<noteq> 0 then expand_key (round_key key i) else round_key key i)"
proof -
  have "i mod 2 \<noteq> 0 \<Longrightarrow> Suc i div 2 = Suc (i div 2)" "i mod 2 = 0 \<Longrightarrow> Suc i div 2 = i div 2" by presburger+
  then show ?thesis by (simp add: round_key_def)
qed

lemma encrypt_rounds_key: "snd (fold encrypt_round [0..<i] (x, key, 1)) = round_key key i"
proof (induction i)
  case (Suc i)
  then show ?case by (simp add: encrypt_round_def Let_def split_beta round_key_Suc)
qed (simp add: round_key_def)

lemma encrypt_rounds_step:
  "fst (fold encrypt_round [0..<Suc i] (x, key, 1)) =
     (let y = shift_rows (map sub (keyed_state key x i)) in if i < 13 then mix_columns y else y)"
  using encrypt_rounds_key [of i x key]
  by (simp add: encrypt_round_def keyed_state_def Let_def split_beta)

lemma length_encrypt_rounds: "length x = 16 \<Longrightarrow> length (fst (fold encrypt_round [0..<i] (x, key, 1))) = 16"
proof (cases i)
  case (Suc j)
  then show ?thesis by (simp only: encrypt_rounds_step) (simp add: Let_def)
qed simp

lemma decrypt_round_undoes:
  assumes "length key = 32" "length x = 16" "i + j = 13"
  shows "decrypt_round j (keyed_state key x (Suc i), round_key key (Suc i)) = (keyed_state key x i, round_key key i)"
proof -
  have odd: "j mod 2 = 0 \<longleftrightarrow> i mod 2 \<noteq> 0" using assms(3) by presburger
  let ?y = "shift_rows (map sub (keyed_state key x i))"
  let ?z = "fst (fold encrypt_round [0..<Suc i] (x, key, 1))"
  have len: "length (keyed_state key x i) = 16"
    using assms by (simp add: keyed_state_def length_encrypt_rounds)
  have "Suc i mod 2 = j mod 2" using assms(3) by presburger
  then have par: "add_round_key j = add_round_key (Suc i)"
    by (intro ext) (simp only: add_round_key_def)
  have add: "add_round_key j (fst (round_key key (Suc i))) (keyed_state key x (Suc i)) = ?z"
    unfolding par keyed_state_def by (rule add_round_key_twice) (simp_all add: assms length_encrypt_rounds del: upt_Suc)
  have "j > 0 \<longleftrightarrow> i < 13" using assms(3) by linarith
  then have "(if j > 0 then unmix_columns ?z else ?z) = ?y" by (simp only: encrypt_rounds_step) (simp add: Let_def unmix_mix_columns len)
  moreover have "map unsub (unshift_rows ?y) = keyed_state key x i"
    by (simp add: unshift_shift_rows len map_idI)
  moreover have "(if j mod 2 = 0 then unexpand_key (round_key key (Suc i)) else round_key key (Suc i)) = round_key key i"
    using assms(3) odd by (simp add: round_key_Suc unexpand_expand_key assms)
  ultimately show ?thesis
    by (simp only: decrypt_round_def Let_def prod.case fst_conv snd_conv add)
qed

lemma decrypt_rounds_undo:
  assumes "length key = 32" "length x = 16" "j \<le> 14"
  shows "fold decrypt_round [0..<j] (keyed_state key x 14, round_key key 14) = (keyed_state key x (14 - j), round_key key (14 - j))"
  using assms(3)
proof (induction j)
  case (Suc j)
  then have "14 - j = Suc (14 - Suc j)" "14 - Suc j + j = 13" by simp_all
  with Suc show ?case by (simp add: decrypt_round_undoes assms)
qed simp

lemma decrypt_encrypt:
  assumes "length key = 32" "length x = 16"
  shows "BRAES256ECBDecrypt key (BRAES256ECBEncrypt key x) = x"
proof -
  obtain y k r where st: "fold encrypt_round [0..<14] (x, key, 1) = (y, k, r)" by (metis surj_pair)
  have enc: "BRAES256ECBEncrypt key x = keyed_state key x 14"
    using encrypt_rounds_key [of 14 x key]
    unfolding BRAES256ECBEncrypt_def keyed_state_def st by (simp add: add_round_key_def split_beta)
  have "(expand_key ^^ 7) (key, 1) = round_key key 14"
    by (simp add: round_key_def)
  then have "BRAES256ECBDecrypt key (keyed_state key x 14) = add_round_key 0 (fst (round_key key 0)) (keyed_state key x 0)"
    unfolding BRAES256ECBDecrypt_def by (simp only: decrypt_rounds_undo [OF assms, of 14]) (simp add: split_beta)
  also have "\<dots> = x"
    by (simp add: keyed_state_def round_key_def add_round_key_twice assms)
  finally show ?thesis by (simp add: enc)
qed

section \<open>Sizes of base58 strings\<close>

lemma b58_string_short: "length (b58_string data) \<le> length data * 138 div 100 + 1"
proof -
  let ?n = "length data - zeros data"
  have "256 ^ length (drop (zeros data) data) \<le> (58 :: nat) ^ (?n * 138 div 100 + 1)"
    using encode_room [of ?n] by simp
  note c = encode_bytes_correct [OF this]
  have "length (b58_digits data) \<le> ?n * 138 div 100 + 1"
    unfolding b58_digits_def strip_def using c by (metis length_dropWhile_le length_map)
  then have "length (b58_string data) \<le> zeros data + ?n * 138 div 100 + 1" by (simp add: b58_string_def)
  also have "\<dots> \<le> length data * 138 div 100 + 1" using zeros_le [of data] by linarith
  finally show ?thesis .
qed

lemma b58check_short: "length (b58check_string data) \<le> (length data + 4) * 138 div 100 + 1"
  using b58_string_short [of "data @ take 4 (BRSHA256_2 data)"] by (simp add: b58check_string_def)

section \<open>The address of a key\<close>

definition address_string :: "bool \<Rightarrow> bytes \<Rightarrow> bytes" where
  "address_string testnet pk = b58check_string (pubkey_prefix testnet # BRHash160 pk)"

lemma address_string_parts: "address_string testnet pk \<noteq> []" "0 \<notin> set (address_string testnet pk)" "length (address_string testnet pk) \<le> 35"
proof -
  have len: "length (pubkey_prefix testnet # BRHash160 pk) = 21" by simp
  have "length ((pubkey_prefix testnet # BRHash160 pk) @ take 4 (BRSHA256_2 (pubkey_prefix testnet # BRHash160 pk))) \<le> length (address_string testnet pk)"
    unfolding address_string_def b58check_string_def by (rule b58_string_long)
  then show "address_string testnet pk \<noteq> []" by auto
  show "0 \<notin> set (address_string testnet pk)"
    unfolding address_string_def b58check_string_def by (rule b58_string_no_nul)
  show "length (address_string testnet pk) \<le> 35"
    using b58check_short [of "pubkey_prefix testnet # BRHash160 pk"] unfolding len address_string_def by simp
qed

lemma key_address:
  assumes "ec_laws ec" "key_ok ec key" "ec_pubkey_create ec (key_secret key) = Some p"
  obtains key' where "key_ok ec key'" "key_secret key' = key_secret key" "key_compressed key' = key_compressed key"
    "BRKeyAddress ec testnet key (Some (replicate 36 0)) =
      (let pk = ec_pubkey_serialize ec (key_compressed key) p; s = address_string testnet pk
       in if UInt160Get (BRHash160 pk) = 0 then (0, Some (replicate 36 0), key')
          else (length s + 1, Some (put (replicate 36 0) 0 (s @ [0])), key'))"
proof -
  let ?pk = "ec_pubkey_serialize ec (key_compressed key) p"
  obtain key' where k: "key_fill ec key = (key_size key, key')" "key_ok ec key'"
    "take (key_size key) (key_pubKey key') = ?pk" "key_secret key' = key_secret key" "key_compressed key' = key_compressed key"
    using key_fill_public [OF assms] by metis
  have len: "length ?pk = key_size key" "0 < key_size key" using ec_lawsD(3) [OF assms(1)] by (simp_all add: key_size_def)
  have set: "UInt160Set (UInt160Get (BRHash160 ?pk)) = BRHash160 ?pk" by (simp add: UInt160Set_eq UInt160Get_eq codec_simps)
  have "min (length (key_pubKey key')) (key_size key) = key_size key"
    using arg_cong [OF k(3), of length] len(1) by (simp only: length_take)
  then have "BRKeyPubKey ec key None = (key_size key, None, key')"
    using k len by (simp add: BRKeyPubKey_def store_if_fits_def)
  then have hash: "BRKeyHash160 ec key = (UInt160Get (BRHash160 ?pk), key')"
    using k(3) len ec_lawsD(5) [OF assms(1)] by (simp add: BRKeyHash160_def)
  show thesis
    by (rule that [of key'])
      (use k hash address_string_parts(3) [of testnet ?pk] in
        \<open>simp_all add: BRKeyAddress_def set Let_def check_encode_correct address_string_def\<close>)
qed

lemma c_string: "0 \<notin> set s \<Longrightarrow> takeWhile (\<lambda>c. c \<noteq> 0) (put buf 0 (s @ [0])) = (s :: bytes)"
  by (auto simp: put_0 takeWhile_append)

section \<open>Encrypted keys\<close>

lemma bip38_scrypt:
  obtains d where "BRScrypt (replicate 64 0) pw salt 16384 8 8 = Some d" "length d = 64"
  using scrypt_correct [of 16384 14 8 8 "replicate 64 0" pw salt] length_pbkdf2
  by (simp add: rfc7914_scrypt_def Let_def)

lemma aes_block: "length k = 32 \<Longrightarrow> length x = 16 \<Longrightarrow> length (BRAES256ECBEncrypt k x) = 16"
proof -
  assume len: "length k = 32" "length x = 16"
  obtain y k' r where st: "fold encrypt_round [0..<14] (x, k, 1) = (y, k', r)" by (metis surj_pair)
  then have "length y = 16" "length k' = 32"
    using length_encrypt_rounds [OF len(2), of 14 k] encrypt_rounds_key [of 14 x k] length_round_key [OF len(1), of 14]
    by (metis fst_conv snd_conv)+
  then show ?thesis unfolding BRAES256ECBEncrypt_def st by simp
qed

text \<open>The 39 bytes of an encrypted key and what is read from them.\<close>

definition bip38_bytes :: "bool \<Rightarrow> bytes \<Rightarrow> bytes \<Rightarrow> bytes \<Rightarrow> bytes" where
  "bip38_bytes compressed salt derived secret =
     UInt16SetBE BIP38_NOEC_PREFIX @ [if compressed then BIP38_NOEC_FLAG OR BIP38_COMPRESSED_FLAG else BIP38_NOEC_FLAG] @ salt @
     BRAES256ECBEncrypt (drop 32 derived) (xors (take 16 secret) (take 16 (take 32 derived))) @
     BRAES256ECBEncrypt (drop 32 derived) (xors (drop 16 secret) (drop 16 (take 32 derived)))"

lemma bip38_bytes_parts:
  assumes "length salt = 4" "length derived = 64" "length secret = 32"
  shows "length (bip38_bytes c salt derived secret) = 39"
    "UInt16GetBE (bip38_bytes c salt derived secret) = BIP38_NOEC_PREFIX"
    "bip38_bytes c salt derived secret ! 2 = (if c then BIP38_NOEC_FLAG OR BIP38_COMPRESSED_FLAG else BIP38_NOEC_FLAG)"
    "take 4 (drop 3 (bip38_bytes c salt derived secret)) = salt"
    "take 16 (drop 7 (bip38_bytes c salt derived secret)) =
      BRAES256ECBEncrypt (drop 32 derived) (xors (take 16 secret) (take 16 (take 32 derived)))"
    "take 16 (drop 23 (bip38_bytes c salt derived secret)) =
      BRAES256ECBEncrypt (drop 32 derived) (xors (drop 16 secret) (drop 16 (take 32 derived)))"
  using assms aes_block
  by (auto simp: bip38_bytes_def UInt16SetBE_def UInt16GetBE_def)

lemma noec_secret_back:
  assumes "length derived = 64" "length salt = 4" "BRScrypt (replicate 64 0) pw salt 16384 8 8 = Some derived"
  shows "noec_secret (bip38_bytes c salt derived (UInt256Set k)) pw = Some k"
proof -
  let ?s = "UInt256Set k"
  have len: "length ?s = 32" by (simp add: UInt256Set_eq)
  have k: "length (drop 32 derived) = 32" using assms(1) by simp
  have enc: "BRAES256ECBDecrypt (drop 32 derived) (BRAES256ECBEncrypt (drop 32 derived) x) = x" if "length x = 16" for x
    using decrypt_encrypt [OF k that] .
  have "xors (take 16 ?s) (take 16 (take 32 derived)) = xors (take 16 ?s) (take 16 derived)" by simp
  have "length (xors (take 16 ?s) (take 16 (take 32 derived))) = 16" "length (xors (drop 16 ?s) (drop 16 (take 32 derived))) = 16"
    using len assms(1) by simp_all
  note e = this [THEN enc]
  have b: "xors (xors (take 16 ?s) (take 16 (take 32 derived))) (take 16 (take 32 derived)) = take 16 ?s"
    "xors (xors (drop 16 ?s) (drop 16 (take 32 derived))) (drop 16 (take 32 derived)) = drop 16 ?s"
    using len assms(1) by (intro xors_twice; simp)+
  show ?thesis
    using assms(3) UInt256_roundtrip [of k "[]"]
    by (simp only: noec_secret_def Let_def bip38_bytes_parts [OF assms(2,1) len] bind.bind_lunit e b append_take_drop_id append_Nil2)
qed

text \<open>C22: decryption undoes encryption for every 256 bit key and every block: each step of a round is undone by
  its counterpart, and the key schedule that decryption runs backwards goes through the same round keys.\<close>

theorem aes_decryption_undoes_encryption:
  assumes "length key32 = 32" and "length buf16 = 16"
  shows "BRAES256ECBDecrypt key32 (BRAES256ECBEncrypt key32 buf16) = buf16 \<and> length (BRAES256ECBEncrypt key32 buf16) = 16"
  using decrypt_encrypt [OF assms] aes_block [OF assms] by (rule conjI)

theorem aes_decryption_undoes_encryption_witness:
  "BRAES256ECBDecrypt (replicate 32 1) (BRAES256ECBEncrypt (replicate 32 1) (replicate 16 9)) = replicate 16 9"
  using aes_decryption_undoes_encryption [of "replicate 32 1" "replicate 16 9"] by simp

text \<open>C8: a key with a valid secret is encrypted, for every passphrase, into a string that fits the announced 61
  bytes and is accepted by the check, and decrypting that string with the passphrase succeeds and gives the
  secret and the form of the key back; only when the hash of its public key is zero, and the key has no
  address, does the encryption read an uninitialised address.\<close>

theorem bip38_roundtrip:
  assumes "ec_laws ec" and "key_ok ec key" and "ec_pubkey_create ec (key_secret key) = Some p" and "61 \<le> length buf"
  shows "BRKeyBIP38Key ec testnet key None pw = Some (61, None, key) \<and>
    (if UInt160Get (BRHash160 (ec_pubkey_serialize ec (key_compressed key) p)) = 0
     then BRKeyBIP38Key ec testnet key (Some buf) pw = None
     else \<exists>n buf' key' new.
       BRKeyBIP38Key ec testnet key (Some buf) pw = Some (n, Some buf', key') \<and> key_ok ec key' \<and>
       0 < n \<and> n \<le> 61 \<and> buf' ! (n - 1) = 0 \<and> 0 \<notin> set (take (n - 1) buf') \<and>
       BRBIP38KeyIsValid (take (n - 1) buf') \<and>
       BRKeySetBIP38Key ec testnet old (take (n - 1) buf') pw = Some (True, new) \<and>
       key_ok ec new \<and> key_secret new = key_secret key \<and> key_compressed new = key_compressed key)"
proof -
  let ?c = "key_compressed key" and ?k = "key_secret key"
  let ?pk = "ec_pubkey_serialize ec ?c p"
  let ?a = "address_string testnet ?pk"
  let ?salt = "take 4 (BRSHA256_2 ?a)"
  obtain key' where key': "key_ok ec key'" "key_secret key' = ?k" "key_compressed key' = ?c"
    "BRKeyAddress ec testnet key (Some (replicate 36 0)) =
      (let pk = ?pk; s = address_string testnet pk
       in if UInt160Get (BRHash160 pk) = 0 then (0, Some (replicate 36 0), key')
          else (length s + 1, Some (put (replicate 36 0) 0 (s @ [0])), key'))"
    by (rule key_address [OF assms(1-3)])
  let ?set = "snd (BRKeySetSecret ec ?k ?c)"
  have set: "key_secret ?set = ?k" "key_compressed ?set = ?c" "key_ok ec ?set"
    by (simp_all add: BRKeySetSecret_def BRKeyClean_def key_ok_def key_size_def)
  obtain new where new: "key_ok ec new" "key_secret new = ?k" "key_compressed new = ?c"
    "BRKeyAddress ec testnet ?set (Some (replicate 36 0)) =
      (let pk = ?pk; s = address_string testnet pk
       in if UInt160Get (BRHash160 pk) = 0 then (0, Some (replicate 36 0), new)
          else (length s + 1, Some (put (replicate 36 0) 0 (s @ [0])), new))"
    using key_address [OF assms(1) set(3), of p testnet] set assms(3) by auto
  show ?thesis
  proof (cases "UInt160Get (BRHash160 ?pk) = 0")
    case True
    then show ?thesis using key'(4) by (simp add: BRKeyBIP38Key_def)
  next
    case False
    obtain d where d: "BRScrypt (replicate 64 0) pw ?salt 16384 8 8 = Some d" "length d = 64" by (rule bip38_scrypt)
    let ?data = "bip38_bytes ?c ?salt d (UInt256Set ?k)"
    let ?s = "b58check_string ?data"
    let ?str = "put buf 0 (?s @ [0])"
    have salt: "length ?salt = 4" by simp
    have len: "length (UInt256Set ?k) = 32" by (simp add: UInt256Set_eq)
    note parts = bip38_bytes_parts [OF salt d(2) len, of ?c]
    note a = address_string_parts [of testnet ?pk]
    have short: "length ?s \<le> 60" using b58check_short [of ?data] parts(1) by simp
    have ka: "BRKeyAddress ec testnet key (Some (replicate 36 0)) = (length ?a + 1, Some (put (replicate 36 0) 0 (?a @ [0])), key')"
      "BRKeyAddress ec testnet ?set (Some (replicate 36 0)) = (length ?a + 1, Some (put (replicate 36 0) 0 (?a @ [0])), new)"
      using key'(4) new(4) False by (simp_all add: Let_def)
    have enc: "BRKeyBIP38Key ec testnet key (Some buf) pw = Some (length ?s + 1, Some ?str, key')"
      using ka(1) c_string [OF a(2)] d(1) short assms(4)
      by (cases ?c) (simp_all add: BRKeyBIP38Key_def check_encode_correct key'(2) Let_def bip38_bytes_def)
    have s: "take (length ?s) ?str = ?s" "?str ! length ?s = 0" by (simp_all add: put_0 nth_append)
    have dec: "BRBase58CheckDecode (Some (replicate 39 0)) ?s = (39, Some ?data)"
    proof -
      have "?data \<noteq> []" using parts(1) by (metis list.size(3) zero_neq_numeral)
      from check_roundtrip [OF this, of "Some (replicate 39 0)"] show ?thesis using parts(1) by (simp add: put_0)
    qed
    have valid: "BRBIP38KeyIsValid ?s"
      using dec parts(2,3) by (simp add: BRBIP38KeyIsValid_def)
    have flag: "(?data ! 2 AND BIP38_COMPRESSED_FLAG \<noteq> 0) = ?c" using parts(3) by simp
    have nz: "put (replicate 36 0) 0 (?a @ [0]) ! 0 \<noteq> 0"
      using a(1,2) by (cases ?a) (auto simp: put_0)
    have again: "BRKeySetBIP38Key ec testnet old ?s pw = Some (True, new)"
      using dec parts(2,4) noec_secret_back [OF d(2) salt d(1), of ?c ?k] ka(2) c_string [OF a(2)] flag nz
      by (simp add: BRKeySetBIP38Key_def split_beta)
    have "0 \<notin> set ?s" unfolding b58check_string_def by (rule b58_string_no_nul)
    then have "BRKeyBIP38Key ec testnet key (Some buf) pw = Some (length ?s + 1, Some ?str, key') \<and> key_ok ec key' \<and>
       0 < length ?s + 1 \<and> length ?s + 1 \<le> 61 \<and> ?str ! (length ?s + 1 - 1) = 0 \<and> 0 \<notin> set (take (length ?s + 1 - 1) ?str) \<and>
       BRBIP38KeyIsValid (take (length ?s + 1 - 1) ?str) \<and>
       BRKeySetBIP38Key ec testnet old (take (length ?s + 1 - 1) ?str) pw = Some (True, new) \<and>
       key_ok ec new \<and> key_secret new = ?k \<and> key_compressed new = ?c"
      using enc key'(1) short s valid again new(1-3) by simp
    moreover have "BRKeyBIP38Key ec testnet key None pw = Some (61, None, key)" by (simp add: BRKeyBIP38Key_def)
    ultimately show ?thesis using False by metis
  qed
qed

lemma bip38_roundtrip_witness:
  "if UInt160Get (BRHash160 (ec_pubkey_serialize toy_ec True 5)) = 0
   then BRKeyBIP38Key toy_ec False toy_key (Some (replicate 61 0)) [112, 119] = None
   else \<exists>n buf' key' new. BRKeyBIP38Key toy_ec False toy_key (Some (replicate 61 0)) [112, 119] = Some (n, Some buf', key') \<and>
     BRKeySetBIP38Key toy_ec False BRKeyClean (take (n - 1) buf') [112, 119] = Some (True, new) \<and> key_secret new = 5"
proof -
  have k: "ec_pubkey_create toy_ec (key_secret toy_key) = Some 5" "key_compressed toy_key" "key_secret toy_key = 5"
    by (simp_all add: toy_ec_def toy_key_def)
  have "(61 :: nat) \<le> length (replicate 61 (0 :: u8))" by simp
  from bip38_roundtrip [OF toy_ec_laws toy_key_ok k(1) this, of False "[112, 119]" BRKeyClean] show ?thesis
    using k(2,3) by (simp split: if_splits) blast
qed

end
