(* ===== verification/Protobuf.thy ===== *)
theory Protobuf
  imports Transaction
begin

text \<open>
  The protocol buffer primitives of \<^verbatim>\<open>BRPaymentProtocol.c\<close>: fields of a message are read through a pointer and a
  claimed length, and written by the guarded writers of Transaction. A pointer is \<open>NULL\<close> or a position in an
  object; the claimed length and the offset are \<open>size_t\<close> values from the message, their sums wrap around, and a
  read outside the object is \<open>None\<close>. The growable arrays are lists; a \<open>char *\<close> array is the list of its bytes
  in front of the NUL that ends it. Memory the code frees is not modelled.
\<close>

type_synonym pb_ptr = "(bytes \<times> nat) option"

definition whole :: "bytes \<Rightarrow> pb_ptr" where
  "whole b = Some (b, 0)"

text \<open>\<open>memcpy\<close> of \<open>n\<close> bytes from a pointer.\<close>

definition pb_copy :: "pb_ptr \<Rightarrow> u64 \<Rightarrow> bytes option run" where
  "pb_copy p n = (case p of None \<Rightarrow> Some None | Some (b, pos) \<Rightarrow> map_option Some (slice b pos (unat n)))"

text \<open>The bytes of a C string in front of its end.\<close>

definition c_str :: "bytes \<Rightarrow> bytes" where
  "c_str s = takeWhile (\<lambda>c. c \<noteq> 0) s"

section \<open>Reading\<close>

text \<open>The \<open>i\<close>-th byte of the loop; a shift by 64 bits or more is undefined.\<close>

function varint_loop :: "bytes \<times> nat \<Rightarrow> u64 \<Rightarrow> u64 \<Rightarrow> nat \<Rightarrow> u64 \<Rightarrow> (u64 \<times> u64) run" where
  "varint_loop v len off i varInt =
     (if off < len then do {
        b \<leftarrow> rd (fst v) (snd v + unat off);
        if 7 * i \<ge> 64 then None
        else let varInt = varInt + push_bit (7 * i) (ucast (b AND 0x7f))
          in if b AND 0x80 \<noteq> 0 then varint_loop v len (off + 1) (i + 1) varInt else Some (varInt, off + 1)
      }
      else Some (0, off))"
  by pat_completeness auto
termination by (relation "measure (\<lambda>(_, _, _, i, _). 10 - i)") auto

declare varint_loop.simps [simp del]

definition ProtoBufVarInt :: "pb_ptr \<Rightarrow> u64 \<Rightarrow> u64 \<Rightarrow> (u64 \<times> u64) run" where
  "ProtoBufVarInt buf bufLen off = (case buf of None \<Rightarrow> Some (0, off) | Some v \<Rightarrow> varint_loop v bufLen off 0 0)"

text \<open>The data, its length and the offset behind it.\<close>

definition ProtoBufLenDelim :: "pb_ptr \<Rightarrow> u64 \<Rightarrow> u64 \<Rightarrow> (pb_ptr \<times> u64 \<times> u64) run" where
  "ProtoBufLenDelim buf len off = do {
     (dataLen, off) \<leftarrow> ProtoBufVarInt buf len off;
     let data = (case buf of None \<Rightarrow> None | Some (b, pos) \<Rightarrow> if off + dataLen \<le> len then Some (b, pos + unat off) else None);
     Some (data, dataLen, off + dataLen)
   }"

definition ProtoBufFixed :: "pb_ptr \<Rightarrow> u64 \<Rightarrow> u64 \<Rightarrow> nat \<Rightarrow> (u64 \<times> u64) run" where
  "ProtoBufFixed buf bufLen off n = do {
     i \<leftarrow> (case buf of None \<Rightarrow> Some 0 | Some (b, pos) \<Rightarrow>
       if off + of_nat n \<le> bufLen \<and> n \<le> 8 then map_option le_word (slice b (pos + unat off) n) else Some 0);
     Some (i, off + of_nat n)
   }"

abbreviation PROTOBUF_VARINT :: u64 where "PROTOBUF_VARINT \<equiv> 0"
abbreviation PROTOBUF_64BIT :: u64 where "PROTOBUF_64BIT \<equiv> 1"
abbreviation PROTOBUF_LENDELIM :: u64 where "PROTOBUF_LENDELIM \<equiv> 2"
abbreviation PROTOBUF_32BIT :: u64 where "PROTOBUF_32BIT \<equiv> 5"

text \<open>Key, integer, data and its length, and the offset behind the field. The integer and the data are zero and
  \<open>NULL\<close> before, as every caller has them; the length stays the one of the message unless there is data.\<close>

definition ProtoBufField :: "pb_ptr \<Rightarrow> u64 \<Rightarrow> u64 \<Rightarrow> (u64 \<times> u64 \<times> pb_ptr \<times> u64 \<times> u64) run" where
  "ProtoBufField buf len off = do {
     (key, off) \<leftarrow> ProtoBufVarInt buf len off;
     if key AND 7 = PROTOBUF_VARINT then do {
       (i, off) \<leftarrow> ProtoBufVarInt buf len off; Some (key, i, None, len, off) }
     else if key AND 7 = PROTOBUF_64BIT then do {
       (i, off) \<leftarrow> ProtoBufFixed buf len off 8; Some (key, i, None, len, off) }
     else if key AND 7 = PROTOBUF_LENDELIM then do {
       (data, len, off) \<leftarrow> ProtoBufLenDelim buf len off; Some (key, 0, data, len, off) }
     else if key AND 7 = PROTOBUF_32BIT then do {
       (i, off) \<leftarrow> ProtoBufFixed buf len off 4; Some (key, i, None, len, off) }
     else Some (key, 0, None, len, off)
   }"

text \<open>The loop of a parser over the fields, with what it does with one. It may never return.\<close>

partial_function (option) pb_loop ::
  "(u64 \<Rightarrow> u64 \<Rightarrow> pb_ptr \<Rightarrow> u64 \<Rightarrow> 's \<Rightarrow> 's option) \<Rightarrow> pb_ptr \<Rightarrow> u64 \<Rightarrow> u64 \<Rightarrow> 's \<Rightarrow> 's option" where
  "pb_loop h buf bufLen off s =
     (if off < bufLen then do {
        (key, i, data, dataLen, off) \<leftarrow> ProtoBufField buf bufLen off;
        s \<leftarrow> h key i data dataLen s;
        pb_loop h buf bufLen off s
      }
      else Some s)"

text \<open>\<open>while (buf && off < bufLen)\<close>\<close>

definition pb_parse ::
  "(u64 \<Rightarrow> u64 \<Rightarrow> pb_ptr \<Rightarrow> u64 \<Rightarrow> 's \<Rightarrow> 's run) \<Rightarrow> pb_ptr \<Rightarrow> u64 \<Rightarrow> 's \<Rightarrow> 's run" where
  "pb_parse h buf bufLen s = (case buf of None \<Rightarrow> Some s | Some _ \<Rightarrow> pb_loop h buf bufLen 0 s)"

definition ProtoBufString :: "bytes option \<Rightarrow> pb_ptr \<Rightarrow> u64 \<Rightarrow> bytes option run" where
  "ProtoBufString str data dataLen =
     (if data \<noteq> None \<or> dataLen = 0 then do {
        d \<leftarrow> pb_copy data dataLen;
        Some (Some (case d of None \<Rightarrow> [] | Some d \<Rightarrow> d))
      }
      else Some str)"

text \<open>The array and its count.\<close>

definition ProtoBufBytes :: "bytes option \<Rightarrow> pb_ptr \<Rightarrow> u64 \<Rightarrow> (bytes option \<times> nat) run" where
  "ProtoBufBytes bs data dataLen = do {
     bs \<leftarrow> ProtoBufString bs data dataLen;
     Some (bs, case bs of None \<Rightarrow> 0 | Some b \<Rightarrow> length b)
   }"

section \<open>Writing\<close>

lemma drop_bit_7_less: "0 < drop_bit 7 i \<Longrightarrow> unat (drop_bit 7 i) < unat (i :: u64)"
  by (cases "i = 0") (auto simp: drop_bit_eq_div unat_div word_gt_0 unat_gt_0)

function ProtoBufSetVarInt :: "u64 \<Rightarrow> writer" where
  "ProtoBufSetVarInt i s =
     (let b = ucast (i AND 0x7f); i = drop_bit 7 i in
      if i > 0 then w_raw [b OR 0x80] s \<bind> ProtoBufSetVarInt i else w_raw [b] s)"
  by pat_completeness auto

termination by (relation "measure (\<lambda>(i, _). unat i)") (auto intro: drop_bit_7_less)

declare ProtoBufSetVarInt.simps [simp del]

definition ProtoBufSetLenDelim :: "bytes option \<Rightarrow> nat \<Rightarrow> writer" where
  "ProtoBufSetLenDelim data dataLen =
     (if data \<noteq> None \<or> dataLen = 0 then w_all [ProtoBufSetVarInt (of_nat dataLen), w_ptr data dataLen] else Some)"

definition ProtoBufSetFixed :: "u64 \<Rightarrow> nat \<Rightarrow> writer" where
  "ProtoBufSetFixed i n = w_raw (le_bytes n i)"

definition pb_key :: "u64 \<Rightarrow> u64 \<Rightarrow> u64" where
  "pb_key key wire = push_bit 3 key OR wire"

definition ProtoBufSetBytes :: "bytes option \<Rightarrow> nat \<Rightarrow> u64 \<Rightarrow> writer" where
  "ProtoBufSetBytes bs bytesLen key =
     w_all [ProtoBufSetVarInt (pb_key key PROTOBUF_LENDELIM), ProtoBufSetLenDelim bs bytesLen]"

definition ProtoBufSetString :: "bytes option \<Rightarrow> u64 \<Rightarrow> writer" where
  "ProtoBufSetString str key =
     ProtoBufSetBytes (map_option c_str str) (case str of None \<Rightarrow> 0 | Some s \<Rightarrow> length (c_str s)) key"

definition ProtoBufSetInt :: "u64 \<Rightarrow> u64 \<Rightarrow> writer" where
  "ProtoBufSetInt i key = w_all [ProtoBufSetVarInt (pb_key key PROTOBUF_VARINT), ProtoBufSetVarInt i]"

text \<open>A serialised object written to a scratch buffer of at least \<open>cap\<close> bytes and from there to the field.\<close>

definition pb_nested :: "nat \<Rightarrow> (bytes option \<Rightarrow> (nat \<times> bytes option) run) \<Rightarrow> u64 \<Rightarrow> writer" where
  "pb_nested cap f key s = do {
     (l, _) \<leftarrow> f None;
     (l, b) \<leftarrow> f (Some (replicate (max cap l) 0));
     ProtoBufSetBytes b l key s
   }"

section \<open>Unknown fields\<close>

text \<open>Which known fields have their default value, and the other fields of a message.\<close>

record ProtoBufContext =
  ctx_defaults :: "bool list"
  ctx_unknown :: "bytes option"

definition new_ctx :: "nat \<Rightarrow> ProtoBufContext" where
  "new_ctx n = \<lparr>ctx_defaults = replicate (n + 1) False, ctx_unknown = None\<rparr>"

definition set_default :: "nat \<Rightarrow> bool \<Rightarrow> ProtoBufContext \<Rightarrow> ProtoBufContext" where
  "set_default k d ctx = ctx\<lparr>ctx_defaults := (ctx_defaults ctx)[k := d]\<rparr>"

text \<open>\<open>if (ctx->unknown) { ... }\<close> at the end of a message.\<close>

definition unknown_writers :: "ProtoBufContext \<Rightarrow> writer list" where
  "unknown_writers ctx = (case ctx_unknown ctx of None \<Rightarrow> [] | Some u \<Rightarrow> [w_raw u])"

text \<open>A block of \<open>m\<close> bytes that does not fit at \<open>off\<close> leaves uninitialised bytes in front of the end \<open>n\<close>.\<close>

definition leaves_gap :: "nat \<Rightarrow> nat \<Rightarrow> nat \<Rightarrow> bool" where
  "leaves_gap off m n \<longleftrightarrow> off < n \<and> n < off + m"

text \<open>The bytes of an unknown field, in a buffer of ten bytes and the length of the data.\<close>

definition unknown_field :: "u64 \<Rightarrow> u64 \<Rightarrow> pb_ptr \<Rightarrow> u64 \<Rightarrow> bytes run" where
  "unknown_field key i data dataLen =
     (let wire = key AND 7; bufLen = 10 + (if wire = PROTOBUF_LENDELIM then dataLen else 0); n = unat bufLen in
      if bufLen > 0x1000 \<and> \<not> malloc_ok bufLen then None
      else do {
        (buf, off) \<leftarrow> ProtoBufSetVarInt key (Some (replicate n 0), 0);
        (buf, off) \<leftarrow>
          (if wire = PROTOBUF_VARINT then ProtoBufSetVarInt i (buf, off)
           else if wire = PROTOBUF_64BIT then if leaves_gap off 8 n then None else ProtoBufSetFixed i 8 (buf, off)
           else if wire = PROTOBUF_LENDELIM then do {
             d \<leftarrow> pb_copy data dataLen;
             (case d of
                None \<Rightarrow> ProtoBufSetLenDelim None (unat dataLen) (buf, off)
              | Some d \<Rightarrow> do {
                  (_, start) \<leftarrow> ProtoBufSetVarInt dataLen (buf, off);
                  if leaves_gap start (length d) n then None else ProtoBufSetLenDelim (Some d) (length d) (buf, off)
                })
           }
           else if wire = PROTOBUF_32BIT then if leaves_gap off 4 n then None else ProtoBufSetFixed i 4 (buf, off)
           else Some (buf, off));
        Some (take off (the buf))
      })"

text \<open>The position where the loop stops, and the end of the field there when it has the key.\<close>

partial_function (option) unknown_pos :: "bytes \<Rightarrow> u64 \<Rightarrow> u64 \<Rightarrow> u64 \<Rightarrow> (u64 \<times> u64 option) option" where
  "unknown_pos u key off start =
     (if off < of_nat (length u) then do {
        (k, _, _, _, next) \<leftarrow> ProtoBufField (whole u) (of_nat (length u)) off;
        if k = key then Some (off, Some next) else if k > key then Some (off, None) else unknown_pos u key next off
      }
      else Some (start, None))"

definition ProtoBufUnknown :: "bytes option \<Rightarrow> u64 \<Rightarrow> u64 \<Rightarrow> pb_ptr \<Rightarrow> u64 \<Rightarrow> bytes option run" where
  "ProtoBufUnknown unknown key i data dataLen = do {
     field \<leftarrow> unknown_field key i data dataLen;
     let u = (case unknown of None \<Rightarrow> [] | Some u \<Rightarrow> u);
     (start, next) \<leftarrow> unknown_pos u key 0 0;
     u \<leftarrow> (case next of
        None \<Rightarrow> Some u
      | Some next \<Rightarrow> if start \<le> next \<and> unat next \<le> length u then Some (take (unat start) u @ drop (unat next) u) else None);
     Some (Some (take (unat start) u @ field @ drop (unat start) u))
   }"

definition keep_unknown :: "u64 \<Rightarrow> u64 \<Rightarrow> pb_ptr \<Rightarrow> u64 \<Rightarrow> ProtoBufContext \<Rightarrow> ProtoBufContext run" where
  "keep_unknown key i data dataLen ctx =
     map_option (\<lambda>u. ctx\<lparr>ctx_unknown := u\<rparr>) (ProtoBufUnknown (ctx_unknown ctx) key i data dataLen)"

end
