(* ===== verification/PaymentProtocol.thy ===== *)
theory PaymentProtocol
  imports Protobuf Keys Ciphers
begin

text \<open>
  The messages of \<^verbatim>\<open>BRPaymentProtocol.c\<close>: payment details, requests, payments and their acknowledgements,
  invoice requests, and plain and encrypted messages, each with its constructor, parser and serialiser. A
  struct is a record with the context that the code keeps behind it as its last field; the context of an
  output, which the code keeps behind its script, is paired with it.
\<close>

text \<open>The position of the field in the message, \<open>key >> 3\<close>.\<close>

definition field_no :: "u64 \<Rightarrow> nat" where
  "field_no key = unat (drop_bit 3 key)"

definition str_main :: bytes where "str_main = [0x6d, 0x61, 0x69, 0x6e]"
definition str_none :: bytes where "str_none = [0x6e, 0x6f, 0x6e, 0x65]"
definition x509_sha1 :: bytes where "x509_sha1 = [0x78, 0x35, 0x30, 0x39, 0x2b, 0x73, 0x68, 0x61, 0x31]"
definition x509_sha256 :: bytes where
  "x509_sha256 = [0x78, 0x35, 0x30, 0x39, 0x2b, 0x73, 0x68, 0x61, 0x32, 0x35, 0x36]"

text \<open>\<open>_ProtoBufBytes\<close> of an argument that may be \<open>NULL\<close>.\<close>

definition bytes_arg :: "bytes option \<Rightarrow> bytes option \<times> nat" where
  "bytes_arg b = (b, case b of None \<Rightarrow> 0 | Some x \<Rightarrow> length x)"

section \<open>Outputs\<close>

type_synonym pb_output = "BRTxOutput \<times> ProtoBufContext"

definition BRPaymentProtocolOutput :: "bool \<Rightarrow> u64 \<Rightarrow> bytes option \<Rightarrow> pb_output run" where
  "BRPaymentProtocolOutput testnet amount script = do {
     out \<leftarrow> BRTxOutputSetScript testnet (BR_TX_OUTPUT_NONE\<lparr>out_amount := amount\<rparr>) script;
     let out = (if out_script out = None then out\<lparr>out_script := Some []\<rparr> else out);
     Some (out, new_ctx 2)
   }"

definition output_field :: "bool \<Rightarrow> u64 \<Rightarrow> u64 \<Rightarrow> pb_ptr \<Rightarrow> u64 \<Rightarrow> pb_output \<Rightarrow> pb_output run" where
  "output_field testnet key i data dataLen oc =
     (let (out, ctx) = oc; k = field_no key in
      if k = 1 then Some (out\<lparr>out_amount := i\<rparr>, set_default 1 False ctx)
      else if k = 2 then do {
        s \<leftarrow> pb_copy data dataLen;
        out \<leftarrow> BRTxOutputSetScript testnet out s;
        Some (out, ctx)
      }
      else do { ctx \<leftarrow> keep_unknown key i data dataLen ctx; Some (out, ctx) })"

text \<open>This loop does not look whether the buffer is \<open>NULL\<close>.\<close>

definition BRPaymentProtocolOutputParse :: "bool \<Rightarrow> pb_ptr \<Rightarrow> u64 \<Rightarrow> pb_output run" where
  "BRPaymentProtocolOutputParse testnet buf bufLen = do {
     (out, ctx) \<leftarrow> pb_loop (output_field testnet) buf bufLen 0
       (BR_TX_OUTPUT_NONE\<lparr>out_amount := 0\<rparr>, set_default 1 True (new_ctx 2));
     Some (if out_script out = None then BR_TX_OUTPUT_NONE else out, ctx)
   }"

definition BRPaymentProtocolOutputSerialize :: "pb_output \<Rightarrow> bytes option \<Rightarrow> (nat \<times> bytes option) run" where
  "BRPaymentProtocolOutputSerialize oc =
     (let (out, ctx) = oc in
      w_run ((if ctx_defaults ctx ! 1 then [] else [ProtoBufSetInt (out_amount out) 1]) @
        (if ctx_defaults ctx ! 2 then [] else [ProtoBufSetBytes (out_script out) (out_scriptLen out) 2]) @
        unknown_writers ctx))"

text \<open>The outputs of an array argument, copied.\<close>

fun copy_outputs :: "bool \<Rightarrow> BRTxOutput list \<Rightarrow> pb_output list run" where
  "copy_outputs testnet [] = Some []"
| "copy_outputs testnet (out # outs) = do {
     s \<leftarrow> (case out_script out of None \<Rightarrow> Some None | Some s \<Rightarrow> map_option Some (slice s 0 (out_scriptLen out)));
     oc \<leftarrow> BRPaymentProtocolOutput testnet (out_amount out) s;
     rest \<leftarrow> copy_outputs testnet outs;
     Some (oc # rest)
   }"

section \<open>Details\<close>

record BRPaymentProtocolDetails =
  pd_network :: "bytes option"
  pd_outputs :: "pb_output list"
  pd_outCount :: nat
  pd_time :: u64
  pd_expires :: u64
  pd_memo :: "bytes option"
  pd_paymentURL :: "bytes option"
  pd_merchantData :: "bytes option"
  pd_merchDataLen :: nat
  pd_ctx :: ProtoBufContext

definition details_zero :: "ProtoBufContext \<Rightarrow> BRPaymentProtocolDetails" where
  "details_zero ctx = \<lparr>pd_network = None, pd_outputs = [], pd_outCount = 0, pd_time = 0, pd_expires = 0, pd_memo = None,
     pd_paymentURL = None, pd_merchantData = None, pd_merchDataLen = 0, pd_ctx = ctx\<rparr>"

text \<open>The number of the outputs stays zero.\<close>

definition BRPaymentProtocolDetailsNew ::
  "bool \<Rightarrow> bytes option \<Rightarrow> BRTxOutput list \<Rightarrow> u64 \<Rightarrow> u64 \<Rightarrow> bytes option \<Rightarrow> bytes option \<Rightarrow> bytes option \<Rightarrow>
   BRPaymentProtocolDetails run"
where
  "BRPaymentProtocolDetailsNew testnet network outputs time expires memo paymentURL merchantData = do {
     let details = details_zero (new_ctx 7);
     let details = (case network of
       None \<Rightarrow> details\<lparr>pd_network := Some str_main, pd_ctx := set_default 1 True (pd_ctx details)\<rparr>
     | Some n \<Rightarrow> details\<lparr>pd_network := Some n\<rparr>);
     outs \<leftarrow> copy_outputs testnet outputs;
     let (md, mdLen) = bytes_arg merchantData;
     Some (details\<lparr>pd_outputs := outs, pd_time := time, pd_expires := expires, pd_memo := memo,
       pd_paymentURL := paymentURL, pd_merchantData := md, pd_merchDataLen := mdLen\<rparr>)
   }"

definition details_field :: "bool \<Rightarrow> u64 \<Rightarrow> u64 \<Rightarrow> pb_ptr \<Rightarrow> u64 \<Rightarrow> BRPaymentProtocolDetails \<Rightarrow> BRPaymentProtocolDetails run" where
  "details_field testnet key i data dLen d =
     (let k = field_no key in
      if k = 1 then map_option (\<lambda>s. d\<lparr>pd_network := s\<rparr>) (ProtoBufString (pd_network d) data dLen)
      else if k = 2 then do {
        out \<leftarrow> BRPaymentProtocolOutputParse testnet data dLen;
        Some (if out_script (fst out) = None then d else d\<lparr>pd_outputs := pd_outputs d @ [out]\<rparr>)
      }
      else if k = 3 then Some (d\<lparr>pd_time := i, pd_ctx := set_default 3 False (pd_ctx d)\<rparr>)
      else if k = 4 then Some (d\<lparr>pd_expires := i, pd_ctx := set_default 4 False (pd_ctx d)\<rparr>)
      else if k = 5 then map_option (\<lambda>s. d\<lparr>pd_memo := s\<rparr>) (ProtoBufString (pd_memo d) data dLen)
      else if k = 6 then map_option (\<lambda>s. d\<lparr>pd_paymentURL := s\<rparr>) (ProtoBufString (pd_paymentURL d) data dLen)
      else if k = 7 then
        map_option (\<lambda>(b, n). d\<lparr>pd_merchantData := b, pd_merchDataLen := n\<rparr>) (ProtoBufBytes (pd_merchantData d) data dLen)
      else map_option (\<lambda>c. d\<lparr>pd_ctx := c\<rparr>) (keep_unknown key i data dLen (pd_ctx d)))"

definition details_at :: "bool \<Rightarrow> pb_ptr \<Rightarrow> u64 \<Rightarrow> BRPaymentProtocolDetails run" where
  "details_at testnet buf bufLen = do {
     d \<leftarrow> pb_parse (details_field testnet) buf bufLen (details_zero (set_default 4 True (set_default 3 True (new_ctx 7))));
     let d = d\<lparr>pd_outCount := length (pd_outputs d)\<rparr>;
     Some (if pd_network d = None then d\<lparr>pd_network := Some str_main, pd_ctx := set_default 1 True (pd_ctx d)\<rparr> else d)
   }"

text \<open>A parser called on a whole buffer, which may be \<open>NULL\<close>.\<close>

definition on_buffer :: "(pb_ptr \<Rightarrow> u64 \<Rightarrow> 'a run) \<Rightarrow> bytes option \<Rightarrow> 'a run" where
  "on_buffer f buf = (case buf of None \<Rightarrow> f None 0 | Some b \<Rightarrow> f (whole b) (of_nat (length b)))"

definition BRPaymentProtocolDetailsParse :: "bool \<Rightarrow> bytes option \<Rightarrow> BRPaymentProtocolDetails run" where
  "BRPaymentProtocolDetailsParse testnet = on_buffer (details_at testnet)"

definition opt_string :: "bytes option \<Rightarrow> u64 \<Rightarrow> writer list" where
  "opt_string str key = (case str of None \<Rightarrow> [] | Some _ \<Rightarrow> [ProtoBufSetString str key])"

definition opt_bytes :: "bytes option \<Rightarrow> nat \<Rightarrow> u64 \<Rightarrow> writer list" where
  "opt_bytes bs n key = (case bs of None \<Rightarrow> [] | Some _ \<Rightarrow> [ProtoBufSetBytes bs n key])"

definition BRPaymentProtocolDetailsSerialize :: "BRPaymentProtocolDetails \<Rightarrow> bytes option \<Rightarrow> (nat \<times> bytes option) run" where
  "BRPaymentProtocolDetailsSerialize d =
     w_run ((if ctx_defaults (pd_ctx d) ! 1 then [] else [ProtoBufSetString (pd_network d) 1]) @
       map (\<lambda>out. pb_nested 0x100 (BRPaymentProtocolOutputSerialize out) 2) (take (pd_outCount d) (pd_outputs d)) @
       (if ctx_defaults (pd_ctx d) ! 3 then [] else [ProtoBufSetInt (pd_time d) 3]) @
       (if ctx_defaults (pd_ctx d) ! 4 then [] else [ProtoBufSetInt (pd_expires d) 4]) @
       opt_string (pd_memo d) 5 @ opt_string (pd_paymentURL d) 6 @ opt_bytes (pd_merchantData d) (pd_merchDataLen d) 7 @
       unknown_writers (pd_ctx d))"

section \<open>Requests\<close>

record BRPaymentProtocolRequest =
  pr_version :: u32
  pr_pkiType :: "bytes option"
  pr_pkiData :: "bytes option"
  pr_pkiDataLen :: nat
  pr_details :: "BRPaymentProtocolDetails option"
  pr_signature :: "bytes option"
  pr_sigLen :: nat
  pr_ctx :: ProtoBufContext

definition request_zero :: "ProtoBufContext \<Rightarrow> BRPaymentProtocolRequest" where
  "request_zero ctx = \<lparr>pr_version = 0, pr_pkiType = None, pr_pkiData = None, pr_pkiDataLen = 0, pr_details = None,
     pr_signature = None, pr_sigLen = 0, pr_ctx = ctx\<rparr>"

text \<open>\<open>if (! req->details) { free; req = NULL; }\<close>\<close>

definition BRPaymentProtocolRequestNew ::
  "u32 \<Rightarrow> bytes option \<Rightarrow> bytes option \<Rightarrow> BRPaymentProtocolDetails option \<Rightarrow> bytes option \<Rightarrow> BRPaymentProtocolRequest option"
where
  "BRPaymentProtocolRequestNew version pkiType pkiData details signature =
     (let req = request_zero (new_ctx 5);
          req = (if version = 0 then req\<lparr>pr_version := 1, pr_ctx := set_default 1 True (pr_ctx req)\<rparr>
            else req\<lparr>pr_version := version\<rparr>);
          req = (case pkiType of
            None \<Rightarrow> req\<lparr>pr_pkiType := Some str_none, pr_ctx := set_default 2 True (pr_ctx req)\<rparr>
          | Some t \<Rightarrow> req\<lparr>pr_pkiType := Some t\<rparr>);
          (pd, pdLen) = bytes_arg pkiData; (sig, sigLen) = bytes_arg signature;
          req = req\<lparr>pr_pkiData := pd, pr_pkiDataLen := pdLen, pr_details := details, pr_signature := sig, pr_sigLen := sigLen\<rparr>
      in if details = None then None else Some req)"

definition request_field :: "bool \<Rightarrow> u64 \<Rightarrow> u64 \<Rightarrow> pb_ptr \<Rightarrow> u64 \<Rightarrow> BRPaymentProtocolRequest \<Rightarrow> BRPaymentProtocolRequest run" where
  "request_field testnet key i data dataLen req =
     (let k = field_no key in
      if k = 1 then Some (req\<lparr>pr_version := ucast i, pr_ctx := set_default 1 False (pr_ctx req)\<rparr>)
      else if k = 2 then map_option (\<lambda>s. req\<lparr>pr_pkiType := s\<rparr>) (ProtoBufString (pr_pkiType req) data dataLen)
      else if k = 3 then
        map_option (\<lambda>(b, n). req\<lparr>pr_pkiData := b, pr_pkiDataLen := n\<rparr>) (ProtoBufBytes (pr_pkiData req) data dataLen)
      else if k = 4 then map_option (\<lambda>d. req\<lparr>pr_details := Some d\<rparr>) (details_at testnet data dataLen)
      else if k = 5 then
        map_option (\<lambda>(b, n). req\<lparr>pr_signature := b, pr_sigLen := n\<rparr>) (ProtoBufBytes (pr_signature req) data dataLen)
      else map_option (\<lambda>c. req\<lparr>pr_ctx := c\<rparr>) (keep_unknown key i data dataLen (pr_ctx req)))"

definition request_at :: "bool \<Rightarrow> pb_ptr \<Rightarrow> u64 \<Rightarrow> BRPaymentProtocolRequest option run" where
  "request_at testnet buf bufLen = do {
     req \<leftarrow> pb_parse (request_field testnet) buf bufLen ((request_zero (set_default 1 True (new_ctx 5)))\<lparr>pr_version := 1\<rparr>);
     let req = (if pr_pkiType req = None
       then req\<lparr>pr_pkiType := Some str_none, pr_ctx := set_default 2 True (pr_ctx req)\<rparr> else req);
     Some (if pr_details req = None then None else Some req)
   }"

definition BRPaymentProtocolRequestParse :: "bool \<Rightarrow> bytes option \<Rightarrow> BRPaymentProtocolRequest option run" where
  "BRPaymentProtocolRequestParse testnet = on_buffer (request_at testnet)"

definition BRPaymentProtocolRequestSerialize :: "BRPaymentProtocolRequest \<Rightarrow> bytes option \<Rightarrow> (nat \<times> bytes option) run" where
  "BRPaymentProtocolRequestSerialize req =
     w_run ((if ctx_defaults (pr_ctx req) ! 1 then [] else [ProtoBufSetInt (ucast (pr_version req)) 1]) @
       (if ctx_defaults (pr_ctx req) ! 2 then [] else [ProtoBufSetString (pr_pkiType req) 2]) @
       opt_bytes (pr_pkiData req) (pr_pkiDataLen req) 3 @
       (case pr_details req of None \<Rightarrow> [] | Some d \<Rightarrow> [pb_nested 0 (BRPaymentProtocolDetailsSerialize d) 4]) @
       opt_bytes (pr_signature req) (pr_sigLen req) 5 @ unknown_writers (pr_ctx req))"

text \<open>The loop over the certificates of \<open>pkiData\<close>: the one found, or what is left of the index.\<close>

partial_function (option) find_cert :: "bytes \<Rightarrow> u64 \<Rightarrow> u64 \<Rightarrow> nat \<Rightarrow> ((pb_ptr \<times> u64) option \<times> nat) option" where
  "find_cert b bLen off idx =
     (if off < bLen then do {
        (key, _, data, dataLen, off) \<leftarrow> ProtoBufField (whole b) bLen off;
        if field_no key = 1 \<and> data \<noteq> None then
          if idx = 0 then Some (Some (data, dataLen), 0) else find_cert b bLen off (idx - 1)
        else find_cert b bLen off idx
      }
      else Some (None, idx))"

definition cert_of :: "bytes option \<Rightarrow> nat \<Rightarrow> bytes option \<Rightarrow> nat \<Rightarrow> (nat \<times> bytes option) run" where
  "cert_of pkiData pkiDataLen cert idx =
     (case pkiData of
        None \<Rightarrow> Some (0, cert)
      | Some b \<Rightarrow> do {
          (found, idx) \<leftarrow> find_cert b (of_nat pkiDataLen) 0 idx;
          (case found of
             None \<Rightarrow> Some (0, cert)
           | Some (data, dataLen) \<Rightarrow>
               (case cert of
                  None \<Rightarrow> Some (unat dataLen, None)
                | Some c \<Rightarrow>
                    if unat dataLen \<le> length c then do {
                      d \<leftarrow> pb_copy data dataLen;
                      Some (unat dataLen, Some (put c 0 (the d)))
                    }
                    else Some (0, Some c)))
        })"

definition BRPaymentProtocolRequestCert :: "BRPaymentProtocolRequest \<Rightarrow> bytes option \<Rightarrow> nat \<Rightarrow> (nat \<times> bytes option) run" where
  "BRPaymentProtocolRequestCert req cert idx = cert_of (pr_pkiData req) (pr_pkiDataLen req) cert idx"

text \<open>The serialised object behind a call for the size and a call with a buffer of that size.\<close>

definition serialised :: "(bytes option \<Rightarrow> (nat \<times> bytes option) run) \<Rightarrow> bytes run" where
  "serialised f = do {
     (n, _) \<leftarrow> f None;
     (n, b) \<leftarrow> f (Some (replicate n 0));
     Some (take n (the b))
   }"

definition BRPaymentProtocolRequestDigest ::
  "BRPaymentProtocolRequest \<Rightarrow> bytes option \<Rightarrow> (nat \<times> bytes option \<times> BRPaymentProtocolRequest) run"
where
  "BRPaymentProtocolRequestDigest req md = do {
     let req = req\<lparr>pr_sigLen := 0\<rparr>;
     buf \<leftarrow> serialised (BRPaymentProtocolRequestSerialize req);
     let digest = (case pr_pkiType req of None \<Rightarrow> [] | Some t \<Rightarrow>
       if c_str t = x509_sha256 then BRSHA256 buf else if c_str t = x509_sha1 then BRSHA1 buf else []);
     let (n, md) = store_if_fits md digest;
     Some (n, md, (case pr_signature req of None \<Rightarrow> req | Some s \<Rightarrow> req\<lparr>pr_sigLen := length s\<rparr>))
   }"

section \<open>Payments\<close>

record BRPaymentProtocolPayment =
  pp_merchantData :: "bytes option"
  pp_merchDataLen :: nat
  pp_transactions :: "BRTransaction list"
  pp_txCount :: nat
  pp_refundTo :: "pb_output list"
  pp_refundToCount :: nat
  pp_memo :: "bytes option"
  pp_ctx :: ProtoBufContext

definition payment_zero :: "ProtoBufContext \<Rightarrow> BRPaymentProtocolPayment" where
  "payment_zero ctx = \<lparr>pp_merchantData = None, pp_merchDataLen = 0, pp_transactions = [], pp_txCount = 0,
     pp_refundTo = [], pp_refundToCount = 0, pp_memo = None, pp_ctx = ctx\<rparr>"

fun refund_outputs :: "bool \<Rightarrow> (u64 \<times> bytes) list \<Rightarrow> pb_output list run" where
  "refund_outputs testnet [] = Some []"
| "refund_outputs testnet ((amount, address) # refunds) = do {
     oc \<leftarrow> BRPaymentProtocolOutput testnet amount (Some (address_script testnet address));
     rest \<leftarrow> refund_outputs testnet refunds;
     Some (oc # rest)
   }"

definition BRPaymentProtocolPaymentNew ::
  "bool \<Rightarrow> bytes option \<Rightarrow> BRTransaction list option \<Rightarrow> (u64 \<times> bytes) list \<Rightarrow> bytes option \<Rightarrow> BRPaymentProtocolPayment run"
where
  "BRPaymentProtocolPaymentNew testnet merchantData transactions refundTo memo = do {
     let (md, mdLen) = bytes_arg merchantData;
     let txs = (case transactions of None \<Rightarrow> [] | Some txs \<Rightarrow> txs);
     outs \<leftarrow> refund_outputs testnet refundTo;
     Some ((payment_zero (new_ctx 4))\<lparr>pp_merchantData := md, pp_merchDataLen := mdLen, pp_transactions := txs,
       pp_txCount := length txs, pp_refundTo := outs, pp_refundToCount := length outs, pp_memo := memo\<rparr>)
   }"

text \<open>A transaction is parsed from the bytes at the pointer.\<close>

definition payment_field :: "bool \<Rightarrow> u64 \<Rightarrow> u64 \<Rightarrow> pb_ptr \<Rightarrow> u64 \<Rightarrow> BRPaymentProtocolPayment \<Rightarrow> BRPaymentProtocolPayment run" where
  "payment_field testnet key i data dLen p =
     (let k = field_no key in
      if k = 2 then do {
        b \<leftarrow> pb_copy data dLen;
        tx \<leftarrow> BRTransactionParse testnet b;
        Some (case tx of None \<Rightarrow> p | Some tx \<Rightarrow> p\<lparr>pp_transactions := pp_transactions p @ [tx]\<rparr>)
      }
      else if k = 3 then do {
        out \<leftarrow> BRPaymentProtocolOutputParse testnet data dLen;
        Some (if out_script (fst out) = None then p else p\<lparr>pp_refundTo := pp_refundTo p @ [out]\<rparr>)
      }
      else if k = 4 then map_option (\<lambda>s. p\<lparr>pp_memo := s\<rparr>) (ProtoBufString (pp_memo p) data dLen)
      else if k = 1 then
        map_option (\<lambda>(b, n). p\<lparr>pp_merchantData := b, pp_merchDataLen := n\<rparr>) (ProtoBufBytes (pp_merchantData p) data dLen)
      else map_option (\<lambda>c. p\<lparr>pp_ctx := c\<rparr>) (keep_unknown key i data dLen (pp_ctx p)))"

definition payment_at :: "bool \<Rightarrow> pb_ptr \<Rightarrow> u64 \<Rightarrow> BRPaymentProtocolPayment run" where
  "payment_at testnet buf bufLen = do {
     p \<leftarrow> pb_parse (payment_field testnet) buf bufLen (payment_zero (new_ctx 4));
     Some (p\<lparr>pp_txCount := length (pp_transactions p), pp_refundToCount := length (pp_refundTo p)\<rparr>)
   }"

definition BRPaymentProtocolPaymentParse :: "bool \<Rightarrow> bytes option \<Rightarrow> BRPaymentProtocolPayment run" where
  "BRPaymentProtocolPaymentParse testnet = on_buffer (payment_at testnet)"

definition BRPaymentProtocolPaymentSerialize :: "BRPaymentProtocolPayment \<Rightarrow> bytes option \<Rightarrow> (nat \<times> bytes option) run" where
  "BRPaymentProtocolPaymentSerialize p =
     w_run (opt_bytes (pp_merchantData p) (pp_merchDataLen p) 1 @
       map (\<lambda>tx. pb_nested 0x100 (BRTransactionSerialize tx) 2) (take (pp_txCount p) (pp_transactions p)) @
       map (\<lambda>out. pb_nested 0 (BRPaymentProtocolOutputSerialize out) 3) (take (pp_refundToCount p) (pp_refundTo p)) @
       opt_string (pp_memo p) 4 @ unknown_writers (pp_ctx p))"

section \<open>Acknowledgements\<close>

record BRPaymentProtocolACK =
  pa_payment :: "BRPaymentProtocolPayment option"
  pa_memo :: "bytes option"
  pa_ctx :: ProtoBufContext

definition BRPaymentProtocolACKNew :: "BRPaymentProtocolPayment option \<Rightarrow> bytes option \<Rightarrow> BRPaymentProtocolACK option" where
  "BRPaymentProtocolACKNew payment memo =
     (if payment = None then None else Some \<lparr>pa_payment = payment, pa_memo = memo, pa_ctx = new_ctx 2\<rparr>)"

definition ack_field :: "bool \<Rightarrow> u64 \<Rightarrow> u64 \<Rightarrow> pb_ptr \<Rightarrow> u64 \<Rightarrow> BRPaymentProtocolACK \<Rightarrow> BRPaymentProtocolACK run" where
  "ack_field testnet key i data dataLen ack =
     (let k = field_no key in
      if k = 1 then map_option (\<lambda>p. ack\<lparr>pa_payment := Some p\<rparr>) (payment_at testnet data dataLen)
      else if k = 2 then map_option (\<lambda>s. ack\<lparr>pa_memo := s\<rparr>) (ProtoBufString (pa_memo ack) data dataLen)
      else map_option (\<lambda>c. ack\<lparr>pa_ctx := c\<rparr>) (keep_unknown key i data dataLen (pa_ctx ack)))"

definition ack_at :: "bool \<Rightarrow> pb_ptr \<Rightarrow> u64 \<Rightarrow> BRPaymentProtocolACK option run" where
  "ack_at testnet buf bufLen = do {
     ack \<leftarrow> pb_parse (ack_field testnet) buf bufLen \<lparr>pa_payment = None, pa_memo = None, pa_ctx = new_ctx 2\<rparr>;
     Some (if pa_payment ack = None then None else Some ack)
   }"

definition BRPaymentProtocolACKParse :: "bool \<Rightarrow> bytes option \<Rightarrow> BRPaymentProtocolACK option run" where
  "BRPaymentProtocolACKParse testnet = on_buffer (ack_at testnet)"

definition BRPaymentProtocolACKSerialize :: "BRPaymentProtocolACK \<Rightarrow> bytes option \<Rightarrow> (nat \<times> bytes option) run" where
  "BRPaymentProtocolACKSerialize ack =
     w_run ((case pa_payment ack of None \<Rightarrow> [] | Some p \<Rightarrow> [pb_nested 0 (BRPaymentProtocolPaymentSerialize p) 1]) @
       opt_string (pa_memo ack) 2 @ unknown_writers (pa_ctx ack))"

section \<open>Invoice requests\<close>

record BRPaymentProtocolInvoiceRequest =
  pi_senderPubKey :: BRKey
  pi_amount :: u64
  pi_pkiType :: "bytes option"
  pi_pkiData :: "bytes option"
  pi_pkiDataLen :: nat
  pi_memo :: "bytes option"
  pi_notifyUrl :: "bytes option"
  pi_signature :: "bytes option"
  pi_sigLen :: nat
  pi_ctx :: ProtoBufContext

definition invoice_zero :: "ProtoBufContext \<Rightarrow> BRPaymentProtocolInvoiceRequest" where
  "invoice_zero ctx = \<lparr>pi_senderPubKey = BRKeyClean, pi_amount = 0, pi_pkiType = None, pi_pkiData = None, pi_pkiDataLen = 0,
     pi_memo = None, pi_notifyUrl = None, pi_signature = None, pi_sigLen = 0, pi_ctx = ctx\<rparr>"

text \<open>The public key of a key, as bytes, and the key that keeps it.\<close>

definition pubkey_of :: "('p, 's) secp256k1 \<Rightarrow> BRKey \<Rightarrow> bytes \<times> BRKey" where
  "pubkey_of ec key = (let (n, pk, key) = BRKeyPubKey ec key (Some (replicate 65 0)) in (take n (the pk), key))"

text \<open>The request and the key of the caller.\<close>

definition BRPaymentProtocolInvoiceRequestNew ::
  "('p, 's) secp256k1 \<Rightarrow> BRKey \<Rightarrow> u64 \<Rightarrow> bytes option \<Rightarrow> bytes option \<Rightarrow> bytes option \<Rightarrow> bytes option \<Rightarrow> bytes option \<Rightarrow>
   (BRPaymentProtocolInvoiceRequest \<times> BRKey) run"
where
  "BRPaymentProtocolInvoiceRequestNew ec senderPubKey amount pkiType pkiData memo notifyUrl signature = do {
     let (pk, senderPubKey) = pubkey_of ec senderPubKey;
     (_, key) \<leftarrow> BRKeySetPubKey ec pk;
     let req = (invoice_zero (new_ctx 7))\<lparr>pi_senderPubKey := key, pi_amount := amount\<rparr>;
     let req = (case pkiType of
       None \<Rightarrow> req\<lparr>pi_pkiType := Some str_none, pi_ctx := set_default 3 True (pi_ctx req)\<rparr>
     | Some t \<Rightarrow> req\<lparr>pi_pkiType := Some t\<rparr>);
     let (pd, pdLen) = bytes_arg pkiData;
     let (sig, sigLen) = bytes_arg signature;
     Some (req\<lparr>pi_pkiData := pd, pi_pkiDataLen := pdLen, pi_memo := memo, pi_notifyUrl := notifyUrl,
       pi_signature := sig, pi_sigLen := sigLen\<rparr>, senderPubKey)
   }"

text \<open>\<open>BRKeySetPubKey\<close> on the data of a field; a null pointer is read there.\<close>

definition key_field :: "('p, 's) secp256k1 \<Rightarrow> pb_ptr \<Rightarrow> u64 \<Rightarrow> (bool \<times> BRKey) run" where
  "key_field ec data dataLen = do {
     b \<leftarrow> pb_copy data dataLen;
     (case b of None \<Rightarrow> None | Some pk \<Rightarrow> BRKeySetPubKey ec pk)
   }"

definition invoice_field ::
  "('p, 's) secp256k1 \<Rightarrow> u64 \<Rightarrow> u64 \<Rightarrow> pb_ptr \<Rightarrow> u64 \<Rightarrow> BRPaymentProtocolInvoiceRequest \<times> bool \<Rightarrow>
   (BRPaymentProtocolInvoiceRequest \<times> bool) run"
where
  "invoice_field ec key i data dataLen st =
     (let (req, gotSenderPK) = st; k = field_no key in
      if k = 1 then map_option (\<lambda>(got, pk). (req\<lparr>pi_senderPubKey := pk\<rparr>, got)) (key_field ec data dataLen)
      else map_option (\<lambda>req. (req, gotSenderPK))
       (if k = 2 then Some (req\<lparr>pi_amount := i, pi_ctx := set_default 2 False (pi_ctx req)\<rparr>)
        else if k = 3 then map_option (\<lambda>s. req\<lparr>pi_pkiType := s\<rparr>) (ProtoBufString (pi_pkiType req) data dataLen)
        else if k = 4 then
          map_option (\<lambda>(b, n). req\<lparr>pi_pkiData := b, pi_pkiDataLen := n\<rparr>) (ProtoBufBytes (pi_pkiData req) data dataLen)
        else if k = 5 then map_option (\<lambda>s. req\<lparr>pi_memo := s\<rparr>) (ProtoBufString (pi_memo req) data dataLen)
        else if k = 6 then map_option (\<lambda>s. req\<lparr>pi_notifyUrl := s\<rparr>) (ProtoBufString (pi_notifyUrl req) data dataLen)
        else if k = 7 then
          map_option (\<lambda>(b, n). req\<lparr>pi_signature := b, pi_sigLen := n\<rparr>) (ProtoBufBytes (pi_signature req) data dataLen)
        else map_option (\<lambda>c. req\<lparr>pi_ctx := c\<rparr>) (keep_unknown key i data dataLen (pi_ctx req))))"

definition invoice_at :: "('p, 's) secp256k1 \<Rightarrow> pb_ptr \<Rightarrow> u64 \<Rightarrow> BRPaymentProtocolInvoiceRequest option run" where
  "invoice_at ec buf bufLen = do {
     (req, gotSenderPK) \<leftarrow> pb_parse (invoice_field ec) buf bufLen (invoice_zero (set_default 2 True (new_ctx 7)), False);
     let req = (if pi_pkiType req = None
       then req\<lparr>pi_pkiType := Some str_none, pi_ctx := set_default 3 True (pi_ctx req)\<rparr> else req);
     Some (if gotSenderPK then Some req else None)
   }"

definition BRPaymentProtocolInvoiceRequestParse ::
  "('p, 's) secp256k1 \<Rightarrow> bytes option \<Rightarrow> BRPaymentProtocolInvoiceRequest option run"
where
  "BRPaymentProtocolInvoiceRequestParse ec = on_buffer (invoice_at ec)"

text \<open>The size, the buffer, and the request, whose key may have computed its public key.\<close>

definition BRPaymentProtocolInvoiceRequestSerialize ::
  "('p, 's) secp256k1 \<Rightarrow> BRPaymentProtocolInvoiceRequest \<Rightarrow> bytes option \<Rightarrow>
   (nat \<times> bytes option \<times> BRPaymentProtocolInvoiceRequest) run"
where
  "BRPaymentProtocolInvoiceRequestSerialize ec req buf =
     (let (pk, key) = pubkey_of ec (pi_senderPubKey req); req = req\<lparr>pi_senderPubKey := key\<rparr> in
      map_option (\<lambda>(n, b). (n, b, req))
       (w_run ([ProtoBufSetBytes (Some pk) (length pk) 1] @
          (if ctx_defaults (pi_ctx req) ! 2 then [] else [ProtoBufSetInt (pi_amount req) 2]) @
          (if ctx_defaults (pi_ctx req) ! 3 then [] else [ProtoBufSetString (pi_pkiType req) 3]) @
          opt_bytes (pi_pkiData req) (pi_pkiDataLen req) 4 @ opt_string (pi_memo req) 5 @ opt_string (pi_notifyUrl req) 6 @
          opt_bytes (pi_signature req) (pi_sigLen req) 7 @ unknown_writers (pi_ctx req)) buf))"

definition BRPaymentProtocolInvoiceRequestCert ::
  "BRPaymentProtocolInvoiceRequest \<Rightarrow> bytes option \<Rightarrow> nat \<Rightarrow> (nat \<times> bytes option) run"
where
  "BRPaymentProtocolInvoiceRequestCert req cert idx = cert_of (pi_pkiData req) (pi_pkiDataLen req) cert idx"

text \<open>The object behind the two calls, when the serialiser returns the changed object too.\<close>

definition serialised_with :: "('a \<Rightarrow> bytes option \<Rightarrow> (nat \<times> bytes option \<times> 'a) run) \<Rightarrow> 'a \<Rightarrow> (bytes \<times> 'a) run" where
  "serialised_with f x = do {
     (n, _, x) \<leftarrow> f x None;
     (n, b, x) \<leftarrow> f x (Some (replicate n 0));
     Some (take n (the b), x)
   }"

definition BRPaymentProtocolInvoiceRequestDigest ::
  "('p, 's) secp256k1 \<Rightarrow> BRPaymentProtocolInvoiceRequest \<Rightarrow> bytes option \<Rightarrow>
   (nat \<times> bytes option \<times> BRPaymentProtocolInvoiceRequest) run"
where
  "BRPaymentProtocolInvoiceRequestDigest ec req md = do {
     (buf, req) \<leftarrow> serialised_with (BRPaymentProtocolInvoiceRequestSerialize ec) (req\<lparr>pi_sigLen := 0\<rparr>);
     let digest = (case pi_pkiType req of None \<Rightarrow> [] | Some t \<Rightarrow> if c_str t = x509_sha256 then BRSHA256 buf else []);
     let (n, md) = store_if_fits md digest;
     Some (n, md, (case pi_signature req of None \<Rightarrow> req | Some s \<Rightarrow> req\<lparr>pi_sigLen := length s\<rparr>))
   }"

section \<open>Messages\<close>

record BRPaymentProtocolMessage =
  pm_msgType :: u32
  pm_message :: "bytes option"
  pm_msgLen :: nat
  pm_statusCode :: u64
  pm_statusMsg :: "bytes option"
  pm_identifier :: "bytes option"
  pm_identLen :: nat
  pm_ctx :: ProtoBufContext

definition message_zero :: "ProtoBufContext \<Rightarrow> BRPaymentProtocolMessage" where
  "message_zero ctx = \<lparr>pm_msgType = 0, pm_message = None, pm_msgLen = 0, pm_statusCode = 0, pm_statusMsg = None,
     pm_identifier = None, pm_identLen = 0, pm_ctx = ctx\<rparr>"

definition BRPaymentProtocolMessageNew ::
  "u32 \<Rightarrow> bytes option \<Rightarrow> u64 \<Rightarrow> bytes option \<Rightarrow> bytes option \<Rightarrow> BRPaymentProtocolMessage option"
where
  "BRPaymentProtocolMessageNew msgType message statusCode statusMsg identifier =
     (let (m, mLen) = bytes_arg message; (ident, identLen) = bytes_arg identifier
      in if m = None then None
         else Some \<lparr>pm_msgType = msgType, pm_message = m, pm_msgLen = mLen, pm_statusCode = statusCode, pm_statusMsg = statusMsg,
           pm_identifier = ident, pm_identLen = identLen, pm_ctx = new_ctx 5\<rparr>)"

definition message_field ::
  "u64 \<Rightarrow> u64 \<Rightarrow> pb_ptr \<Rightarrow> u64 \<Rightarrow> BRPaymentProtocolMessage \<times> bool \<Rightarrow> (BRPaymentProtocolMessage \<times> bool) run"
where
  "message_field key i data dataLen st =
     (let (msg, gotMsgType) = st; k = field_no key in
      if k = 1 then Some (msg\<lparr>pm_msgType := ucast i\<rparr>, True)
      else map_option (\<lambda>msg. (msg, gotMsgType))
       (if k = 2 then map_option (\<lambda>(b, n). msg\<lparr>pm_message := b, pm_msgLen := n\<rparr>) (ProtoBufBytes (pm_message msg) data dataLen)
        else if k = 3 then Some (msg\<lparr>pm_statusCode := i, pm_ctx := set_default 3 False (pm_ctx msg)\<rparr>)
        else if k = 4 then map_option (\<lambda>s. msg\<lparr>pm_statusMsg := s\<rparr>) (ProtoBufString (pm_statusMsg msg) data dataLen)
        else if k = 5 then
          map_option (\<lambda>(b, n). msg\<lparr>pm_identifier := b, pm_identLen := n\<rparr>) (ProtoBufBytes (pm_identifier msg) data dataLen)
        else map_option (\<lambda>c. msg\<lparr>pm_ctx := c\<rparr>) (keep_unknown key i data dataLen (pm_ctx msg))))"

definition message_at :: "pb_ptr \<Rightarrow> u64 \<Rightarrow> BRPaymentProtocolMessage option run" where
  "message_at buf bufLen = do {
     (msg, gotMsgType) \<leftarrow> pb_parse message_field buf bufLen (message_zero (set_default 3 True (new_ctx 5)), False);
     Some (if \<not> gotMsgType \<or> pm_message msg = None then None else Some msg)
   }"

definition BRPaymentProtocolMessageParse :: "bytes option \<Rightarrow> BRPaymentProtocolMessage option run" where
  "BRPaymentProtocolMessageParse = on_buffer message_at"

definition BRPaymentProtocolMessageSerialize :: "BRPaymentProtocolMessage \<Rightarrow> bytes option \<Rightarrow> (nat \<times> bytes option) run" where
  "BRPaymentProtocolMessageSerialize msg =
     w_run ([ProtoBufSetInt (ucast (pm_msgType msg)) 1, ProtoBufSetBytes (pm_message msg) (pm_msgLen msg) 2] @
       (if ctx_defaults (pm_ctx msg) ! 3 then [] else [ProtoBufSetInt (pm_statusCode msg) 3]) @
       opt_string (pm_statusMsg msg) 4 @ opt_bytes (pm_identifier msg) (pm_identLen msg) 5 @ unknown_writers (pm_ctx msg))"

section \<open>Encrypted messages\<close>

record BRPaymentProtocolEncryptedMessage =
  pe_msgType :: u32
  pe_message :: "bytes option"
  pe_msgLen :: nat
  pe_receiverPubKey :: BRKey
  pe_senderPubKey :: BRKey
  pe_nonce :: u64
  pe_signature :: "bytes option"
  pe_sigLen :: nat
  pe_identifier :: "bytes option"
  pe_identLen :: nat
  pe_statusCode :: u64
  pe_statusMsg :: "bytes option"
  pe_ctx :: ProtoBufContext

definition encrypted_zero :: "ProtoBufContext \<Rightarrow> BRPaymentProtocolEncryptedMessage" where
  "encrypted_zero ctx = \<lparr>pe_msgType = 0, pe_message = None, pe_msgLen = 0, pe_receiverPubKey = BRKeyClean,
     pe_senderPubKey = BRKeyClean, pe_nonce = 0, pe_signature = None, pe_sigLen = 0, pe_identifier = None, pe_identLen = 0,
     pe_statusCode = 0, pe_statusMsg = None, pe_ctx = ctx\<rparr>"

text \<open>The shared secret, and the public key, which may be computed on the way. Without a public key the point is
  uninitialised; a failed multiplication leaves the point as it was.\<close>

definition BRECDH :: "('p, 's) secp256k1 \<Rightarrow> BRKey \<Rightarrow> BRKey \<Rightarrow> (bytes \<times> BRKey) run" where
  "BRECDH ec privKey pubKey =
     (let (p, pubKey) = pubkey_of ec pubKey in
      if p = [] then None
      else
        let p = (if length p = 65 then p[0 := if p ! 64 mod 2 \<noteq> 0 then 3 else 2] else p);
            (_, q) = BRSecp256k1PointMul ec (take 33 p) (key_secret privKey)
        in Some (take 32 (drop 1 q), pubKey))"

text \<open>Key and nonce of the cipher, and the message and the private key with their public keys.\<close>

definition EncryptedMessageCEK ::
  "('p, 's) secp256k1 \<Rightarrow> BRPaymentProtocolEncryptedMessage \<Rightarrow> BRKey \<Rightarrow>
   (bytes \<times> bytes \<times> BRPaymentProtocolEncryptedMessage \<times> BRKey) run"
where
  "EncryptedMessageCEK ec msg privKey = do {
     let (pk, privKey) = pubkey_of ec privKey;
     let (rpk, rkey) = pubkey_of ec (pe_receiverPubKey msg);
     let msg = msg\<lparr>pe_receiverPubKey := rkey\<rparr>;
     (secret, msg) \<leftarrow>
       (if pk \<noteq> rpk then map_option (\<lambda>(s, k). (s, msg\<lparr>pe_receiverPubKey := k\<rparr>)) (BRECDH ec privKey (pe_receiverPubKey msg))
        else map_option (\<lambda>(s, k). (s, msg\<lparr>pe_senderPubKey := k\<rparr>)) (BRECDH ec privKey (pe_senderPubKey msg)));
     let (cek, K, V) = BRHMACDRBG (replicate 32 0) [] [] BRSHA256 32 (Some (BRSHA512 secret)) (Some (UInt64SetBE (pe_nonce msg))) None;
     let (iv, _, _) = BRHMACDRBG (replicate 12 0) K V BRSHA256 32 None None None;
     Some (cek, iv, msg, privKey)
   }"

definition BRPaymentProtocolEncryptedMessageSerialize ::
  "('p, 's) secp256k1 \<Rightarrow> BRPaymentProtocolEncryptedMessage \<Rightarrow> bytes option \<Rightarrow>
   (nat \<times> bytes option \<times> BRPaymentProtocolEncryptedMessage) run"
where
  "BRPaymentProtocolEncryptedMessageSerialize ec msg buf =
     (let (rpk, rkey) = pubkey_of ec (pe_receiverPubKey msg); (spk, skey) = pubkey_of ec (pe_senderPubKey msg);
          msg = msg\<lparr>pe_receiverPubKey := rkey, pe_senderPubKey := skey\<rparr> in
      map_option (\<lambda>(n, b). (n, b, msg))
       (w_run ([ProtoBufSetInt (ucast (pe_msgType msg)) 1, ProtoBufSetBytes (pe_message msg) (pe_msgLen msg) 2,
           ProtoBufSetBytes (Some rpk) (length rpk) 3, ProtoBufSetBytes (Some spk) (length spk) 4, ProtoBufSetInt (pe_nonce msg) 5] @
          opt_bytes (pe_signature msg) (pe_sigLen msg) 6 @ opt_bytes (pe_identifier msg) (pe_identLen msg) 7 @
          (if ctx_defaults (pe_ctx msg) ! 8 then [] else [ProtoBufSetInt (pe_statusCode msg) 8]) @
          opt_string (pe_statusMsg msg) 9 @ unknown_writers (pe_ctx msg)) buf))"

text \<open>The digits of \<open>%PRIu64\<close>, and \<open>snprintf(ad, adLen, "%PRIu64%s", statusCode, statusMsg)\<close> with its limit.\<close>

fun decimal :: "nat \<Rightarrow> bytes" where
  "decimal n = (if n < 10 then [0x30 + of_nat n] else decimal (n div 10) @ [0x30 + of_nat (n mod 10)])"

declare decimal.simps [simp del]

definition status_ad :: "u64 \<Rightarrow> bytes option \<Rightarrow> bytes" where
  "status_ad statusCode statusMsg =
     (let s = (case statusMsg of None \<Rightarrow> [] | Some s \<Rightarrow> c_str s) in take (20 + length s) (decimal (unat statusCode) @ s))"

text \<open>The hash of the message without its signature, and the message.\<close>

definition encrypted_digest ::
  "('p, 's) secp256k1 \<Rightarrow> BRPaymentProtocolEncryptedMessage \<Rightarrow> (uint256 \<times> BRPaymentProtocolEncryptedMessage) run"
where
  "encrypted_digest ec msg = do {
     (buf, msg) \<leftarrow> serialised_with (BRPaymentProtocolEncryptedMessageSerialize ec) msg;
     Some (UInt256Get (BRSHA256 buf), msg)
   }"

text \<open>The message and the keys of the receiver and the sender.\<close>

definition BRPaymentProtocolEncryptedMessageNew ::
  "('p, 's) secp256k1 \<Rightarrow> bool \<Rightarrow> u32 \<Rightarrow> bytes \<Rightarrow> BRKey \<Rightarrow> BRKey \<Rightarrow> u64 \<Rightarrow> bytes option \<Rightarrow> u64 \<Rightarrow> bytes option \<Rightarrow>
   (BRPaymentProtocolEncryptedMessage \<times> BRKey \<times> BRKey) run"
where
  "BRPaymentProtocolEncryptedMessageNew ec testnet msgType message receiverKey senderKey nonce identifier statusCode statusMsg = do {
     let (rpk, receiverKey) = pubkey_of ec receiverKey;
     (_, rkey) \<leftarrow> BRKeySetPubKey ec rpk;
     let (spk, senderKey) = pubkey_of ec senderKey;
     (_, skey) \<leftarrow> BRKeySetPubKey ec spk;
     let (ident, identLen) = bytes_arg identifier;
     let msg = (encrypted_zero (new_ctx 9))\<lparr>pe_msgType := msgType, pe_receiverPubKey := rkey, pe_senderPubKey := skey,
       pe_nonce := nonce, pe_identifier := ident, pe_identLen := identLen, pe_statusCode := statusCode, pe_statusMsg := statusMsg\<rparr>;
     let receives = (fst (BRKeyPrivKey ec testnet receiverKey None) \<noteq> 0);
     (cek, iv, msg, privKey) \<leftarrow> EncryptedMessageCEK ec msg (if receives then receiverKey else senderKey);
     let (n, buf) = BRChacha20Poly1305AEADEncrypt (Some (replicate (length message + 16) 0)) cek iv message (status_ad statusCode statusMsg);
     let msg = msg\<lparr>pe_message := Some (take n (the buf)), pe_msgLen := n\<rparr>;
     (md, msg) \<leftarrow> encrypted_digest ec (msg\<lparr>pe_signature := Some []\<rparr>);
     (sigLen, sig) \<leftarrow> BRKeySign ec privKey (Some (replicate 73 0)) md;
     Some (msg\<lparr>pe_signature := Some (take sigLen (the sig)), pe_sigLen := sigLen\<rparr>,
       if receives then privKey else receiverKey, if receives then senderKey else privKey)
   }"

text \<open>What was found of the message type, the receiver's and the sender's key and the nonce.\<close>

definition encrypted_field ::
  "('p, 's) secp256k1 \<Rightarrow> u64 \<Rightarrow> u64 \<Rightarrow> pb_ptr \<Rightarrow> u64 \<Rightarrow>
   BRPaymentProtocolEncryptedMessage \<times> bool \<times> bool \<times> bool \<times> bool \<Rightarrow>
   (BRPaymentProtocolEncryptedMessage \<times> bool \<times> bool \<times> bool \<times> bool) run"
where
  "encrypted_field ec key i data dataLen st =
     (let (msg, gotType, gotRpk, gotSpk, gotNonce) = st; k = field_no key in
      if k = 1 then Some (msg\<lparr>pe_msgType := ucast i\<rparr>, True, gotRpk, gotSpk, gotNonce)
      else if k = 3 then
        map_option (\<lambda>(got, pk). (msg\<lparr>pe_receiverPubKey := pk\<rparr>, gotType, got, gotSpk, gotNonce)) (key_field ec data dataLen)
      else if k = 4 then
        map_option (\<lambda>(got, pk). (msg\<lparr>pe_senderPubKey := pk\<rparr>, gotType, gotRpk, got, gotNonce)) (key_field ec data dataLen)
      else if k = 5 then Some (msg\<lparr>pe_nonce := i\<rparr>, gotType, gotRpk, gotSpk, True)
      else map_option (\<lambda>msg. (msg, gotType, gotRpk, gotSpk, gotNonce))
       (if k = 2 then map_option (\<lambda>(b, n). msg\<lparr>pe_message := b, pe_msgLen := n\<rparr>) (ProtoBufBytes (pe_message msg) data dataLen)
        else if k = 6 then
          map_option (\<lambda>(b, n). msg\<lparr>pe_signature := b, pe_sigLen := n\<rparr>) (ProtoBufBytes (pe_signature msg) data dataLen)
        else if k = 7 then
          map_option (\<lambda>(b, n). msg\<lparr>pe_identifier := b, pe_identLen := n\<rparr>) (ProtoBufBytes (pe_identifier msg) data dataLen)
        else if k = 8 then Some (msg\<lparr>pe_statusCode := i, pe_ctx := set_default 8 False (pe_ctx msg)\<rparr>)
        else if k = 9 then map_option (\<lambda>s. msg\<lparr>pe_statusMsg := s\<rparr>) (ProtoBufString (pe_statusMsg msg) data dataLen)
        else map_option (\<lambda>c. msg\<lparr>pe_ctx := c\<rparr>) (keep_unknown key i data dataLen (pe_ctx msg))))"

definition encrypted_at :: "('p, 's) secp256k1 \<Rightarrow> pb_ptr \<Rightarrow> u64 \<Rightarrow> BRPaymentProtocolEncryptedMessage option run" where
  "encrypted_at ec buf bufLen = do {
     (msg, gotType, gotRpk, gotSpk, gotNonce) \<leftarrow> pb_parse (encrypted_field ec) buf bufLen
       (encrypted_zero (set_default 8 True (new_ctx 9)), False, False, False, False);
     Some (if gotType \<and> pe_message msg \<noteq> None \<and> gotRpk \<and> gotSpk \<and> gotNonce then Some msg else None)
   }"

definition BRPaymentProtocolEncryptedMessageParse ::
  "('p, 's) secp256k1 \<Rightarrow> bytes option \<Rightarrow> BRPaymentProtocolEncryptedMessage option run"
where
  "BRPaymentProtocolEncryptedMessageParse ec = on_buffer (encrypted_at ec)"

text \<open>Without a signature the library is given a null pointer, which it rejects.\<close>

definition BRPaymentProtocolEncryptedMessageVerify ::
  "('p, 's) secp256k1 \<Rightarrow> BRPaymentProtocolEncryptedMessage \<Rightarrow> BRKey \<Rightarrow> (bool \<times> BRPaymentProtocolEncryptedMessage \<times> BRKey) run"
where
  "BRPaymentProtocolEncryptedMessageVerify ec msg pubKey = do {
     (md, msg') \<leftarrow> encrypted_digest ec (msg\<lparr>pe_sigLen := 0\<rparr>);
     let msg' = msg'\<lparr>pe_sigLen := pe_sigLen msg\<rparr>;
     (case pe_signature msg' of
        None \<Rightarrow>
          let (pk, pubKey) = pubkey_of ec pubKey
          in if pk \<noteq> [] \<and> ec_pubkey_parse ec pk \<noteq> None then None else Some (False, msg', pubKey)
      | Some s \<Rightarrow> do {
          sig \<leftarrow> slice s 0 (pe_sigLen msg');
          let (ok, pubKey) = BRKeyVerify ec pubKey md sig;
          Some (ok, msg', pubKey)
        })
   }"

definition BRPaymentProtocolEncryptedMessageDecrypt ::
  "('p, 's) secp256k1 \<Rightarrow> BRPaymentProtocolEncryptedMessage \<Rightarrow> bytes option \<Rightarrow> BRKey \<Rightarrow>
   (nat \<times> bytes option \<times> BRPaymentProtocolEncryptedMessage \<times> BRKey) run"
where
  "BRPaymentProtocolEncryptedMessageDecrypt ec msg out privKey =
     (if out = None then Some (if pe_msgLen msg < 16 then 0 else pe_msgLen msg - 16, None, msg, privKey)
      else do {
        (cek, iv, msg, privKey) \<leftarrow> EncryptedMessageCEK ec msg privKey;
        let ad = (if \<not> ctx_defaults (pe_ctx msg) ! 8 then status_ad (pe_statusCode msg) (pe_statusMsg msg)
          else case pe_statusMsg msg of None \<Rightarrow> [] | Some s \<Rightarrow> c_str s);
        data \<leftarrow> (case pe_message msg of None \<Rightarrow> None | Some m \<Rightarrow> slice m 0 (pe_msgLen msg));
        let (n, out) = BRChacha20Poly1305AEADDecrypt out cek iv data ad;
        Some (n, out, msg, privKey)
      })"

end
