(* ===== verification/ProtobufSpec.thy ===== *)
theory ProtobufSpec
  imports Protobuf TxSpec
begin

text \<open>
  What the protocol buffer primitives write and read: the bytes of integers and of fields, the round trip of a
  single field, and the loop of a parser over the fields of a message, which does one step of an abstract
  handler for each.
\<close>

section \<open>Integers\<close>

function pb_varint :: "u64 \<Rightarrow> bytes" where
  "pb_varint i =
     (let b = ucast (i AND 0x7f); j = drop_bit 7 i in if j > 0 then (b OR 0x80) # pb_varint j else [b])"
  by pat_completeness auto

termination by (relation "measure unat") (auto intro: drop_bit_7_less)

declare pb_varint.simps [simp del]

lemma w_all_single: "w_all [w] = w"
proof
  have "w_all [] = Some" by (intro ext) simp
  then show "w_all [w] s = w s" for s by simp
qed

lemma writes_pb_varint: "writes (ProtoBufSetVarInt i) (pb_varint i)"
proof (induction i rule: pb_varint.induct)
  case (1 i)
  let ?b = "ucast (i AND 0x7f) :: u8" and ?j = "drop_bit 7 i"
  show ?case
  proof (cases "?j > 0")
    case True
    then have "ProtoBufSetVarInt i = w_all [w_raw [?b OR 0x80], ProtoBufSetVarInt ?j]"
      by (intro ext) (simp add: ProtoBufSetVarInt.simps [of i] Let_def w_all_single)
    moreover have "pb_varint i = [?b OR 0x80] @ pb_varint ?j @ []"
      using True by (simp add: pb_varint.simps [of i] Let_def)
    ultimately show ?thesis
      using writes_Cons [OF writes_raw [of "[?b OR 0x80]"] writes_last [OF 1 [OF refl refl True]]]
      by (simp only: append_Nil2)
  next
    case False
    then have "ProtoBufSetVarInt i = w_raw [?b]" "pb_varint i = [?b]"
      by (auto simp: fun_eq_iff ProtoBufSetVarInt.simps [of i] pb_varint.simps [of i] Let_def)
    then show ?thesis using writes_raw by simp
  qed
qed

lemma pb_varint_nonempty [simp]: "pb_varint i \<noteq> []"
  by (subst pb_varint.simps) (simp add: Let_def)

lemma pb_varint_length: "unat i < 2 ^ (7 * Suc n) \<Longrightarrow> length (pb_varint i) \<le> Suc n"
proof (induction n arbitrary: i)
  case 0
  then have "unat (drop_bit 7 i) = 0" by (simp add: drop_bit_eq_div unat_div)
  then show ?case by (subst pb_varint.simps) (simp add: unat_eq_0)
next
  case (Suc n)
  have "unat (drop_bit 7 i) < 2 ^ (7 * Suc n)"
    using Suc.prems by (simp add: drop_bit_eq_div unat_div div_less_iff_less_mult power_add)
  then show ?case using Suc.IH by (subst pb_varint.simps) (simp add: Let_def)
qed

lemma pb_varint_at_most_10: "length (pb_varint i) \<le> 10"
proof -
  have "unat i < 2 ^ 64" using unsigned_less [of i] by simp
  also have "\<dots> \<le> 2 ^ (7 * Suc 9)" by (rule power_increasing) simp_all
  finally show ?thesis using pb_varint_length [of i 9] by simp
qed

lemma seven_bits: "(i AND 0x7f) + push_bit 7 (drop_bit 7 i) = (i :: u64)"
proof -
  have "i AND 0x7f = take_bit 7 i" by (simp add: take_bit_eq_mask mask_eq_exp_minus_1)
  then show ?thesis using bits_ident [of 7 i] by (simp add: add.commute)
qed

text \<open>What the top bit of a byte says, and what is left without it.\<close>

lemma seven_bits_back:
  "ucast (i AND 0x7f) AND (0x7f :: u8) = ucast (i AND 0x7f)" "(ucast (i AND 0x7f) OR 0x80) AND (0x7f :: u8) = ucast (i AND 0x7f)"
  "ucast (i AND 0x7f) AND (0x80 :: u8) = 0" "(ucast (i AND 0x7f) OR 0x80) AND (0x80 :: u8) \<noteq> 0"
  "ucast (ucast (i AND 0x7f) :: u8) = i AND 0x7f"
  for i :: u64
proof -
  have m: "(0x7f :: u8) = mask 7" "(0x7f :: u64) = mask 7"
    by (simp_all add: mask_eq_exp_minus_1)
  have "(0x80 :: int) = push_bit 7 1" by simp
  then have b: "bit (0x80 :: int) n \<longleftrightarrow> n = 7" for n by (simp only: bit_push_bit_iff bit_1_iff) auto
  show "ucast (i AND 0x7f) AND (0x7f :: u8) = ucast (i AND 0x7f)"
    "(ucast (i AND 0x7f) OR 0x80) AND (0x7f :: u8) = ucast (i AND 0x7f)"
    "ucast (i AND 0x7f) AND (0x80 :: u8) = 0" "ucast (ucast (i AND 0x7f) :: u8) = i AND 0x7f"
    unfolding m by (auto intro!: bit_word_eqI simp: bit_simps b)
  have "bit ((ucast (i AND 0x7f) OR 0x80) AND (0x80 :: u8)) 7" unfolding m by (simp add: bit_simps b)
  then show "(ucast (i AND 0x7f) OR 0x80) AND (0x80 :: u8) \<noteq> 0" by (metis bit_0_eq bot_apply bot_bool_def)
qed

text \<open>Reading an integer from where it stands.\<close>

lemma varint_loop_at:
  assumes "at b (pos + unat off) (pb_varint i)" "unat off + length (pb_varint i) \<le> unat len" "k + length (pb_varint i) \<le> 10"
  shows "varint_loop (b, pos) len off k acc = Some (acc + push_bit (7 * k) i, off + of_nat (length (pb_varint i)))"
  using assms
proof (induction i arbitrary: off k acc rule: pb_varint.induct)
  case (1 i)
  let ?c = "ucast (i AND 0x7f) :: u8" and ?j = "drop_bit 7 i"
  have "1 \<le> length (pb_varint i)" using pb_varint_nonempty [of i] by (cases "pb_varint i") auto
  then have k: "k \<le> 9" and lt: "off < len" using "1.prems"(2,3) by (simp_all add: word_less_nat_alt)
  have un: "unat (off + 1) = unat off + 1"
  proof -
    have "unat len < 2 ^ 64" using unsigned_less [of len] by simp
    then show ?thesis using lt by (simp add: unat_word_ariths word_less_nat_alt)
  qed
  have head: "rd b (pos + unat off) = Some (hd (pb_varint i))"
    using "1.prems"(1) by (cases "pb_varint i") (auto simp: at_def rd_def take_Suc hd_drop_conv_nth)
  have shift: "7 * k < 64" using k by simp
  have sum: "acc + push_bit (7 * k) (i AND 0x7f) + push_bit (7 * (k + 1)) ?j = acc + push_bit (7 * k) i"
    using arg_cong [OF seven_bits [of i], of "push_bit (7 * k)"] by (simp add: push_bit_add push_bit_push_bit ac_simps)
  show ?case
  proof (cases "?j > 0")
    case True
    then have img: "pb_varint i = (?c OR 0x80) # pb_varint ?j" by (subst pb_varint.simps) (simp add: Let_def)
    then have "at b (pos + unat (off + 1)) (pb_varint ?j)"
      using "1.prems"(1) at_append [of b "pos + unat off" "[?c OR 0x80]" "pb_varint ?j"] by (simp add: un)
    then have "varint_loop (b, pos) len (off + 1) (k + 1) (acc + push_bit (7 * k) (i AND 0x7f)) =
        Some (acc + push_bit (7 * k) (i AND 0x7f) + push_bit (7 * (k + 1)) ?j, off + 1 + of_nat (length (pb_varint ?j)))"
      using "1.prems"(2,3) img un by (intro "1.IH" [OF refl refl True]) simp_all
    then show ?thesis
      using lt head shift by (subst varint_loop.simps) (simp add: img seven_bits_back sum [simplified] Let_def add.assoc)
  next
    case False
    then have img: "pb_varint i = [?c]" by (subst pb_varint.simps) (simp add: Let_def)
    have "push_bit (7 * (k + 1)) ?j = 0" using False by (simp add: word_gt_0)
    then show ?thesis
      using lt head shift sum by (subst varint_loop.simps) (simp add: img seven_bits_back Let_def)
  qed
qed

section \<open>Fields\<close>

text \<open>The fields that the code writes, an integer or a block of bytes, with the bytes that stand for them.\<close>

datatype pfield = FInt u64 u64 | FBytes u64 bytes

fun field_image :: "pfield \<Rightarrow> bytes" where
  "field_image (FInt k i) = pb_varint (pb_key k 0) @ pb_varint i"
| "field_image (FBytes k x) = pb_varint (pb_key k 2) @ pb_varint (of_nat (length x)) @ x"

definition fields_image :: "pfield list \<Rightarrow> bytes" where
  "fields_image fs = concat (map field_image fs)"

lemma fields_image_simps [simp]:
  "fields_image [] = []" "fields_image (f # fs) = field_image f @ fields_image fs"
  "fields_image (fs @ gs) = fields_image fs @ fields_image gs"
  by (simp_all add: fields_image_def)

lemma field_image_nonempty [simp]: "field_image f \<noteq> []"
  by (cases f) simp_all

lemma writes_pb_int: "writes (ProtoBufSetInt i k) (field_image (FInt k i))"
  using writes_Cons [OF writes_pb_varint writes_last [OF writes_pb_varint]]
  by (simp add: ProtoBufSetInt_def)

text \<open>A pointer with the number of bytes behind it.\<close>

definition ptr_fits :: "bytes option \<Rightarrow> nat \<Rightarrow> bool" where
  "ptr_fits p n \<longleftrightarrow> (case p of None \<Rightarrow> n = 0 | Some x \<Rightarrow> n = length x)"

lemma writes_pb_bytes:
  assumes "ptr_fits bs n"
  shows "writes (ProtoBufSetBytes bs n k) (field_image (FBytes k (ptr_bytes bs n)))"
proof -
  have p: "writes (w_ptr bs n) (ptr_bytes bs n)" "length (ptr_bytes bs n) = n"
    "ProtoBufSetLenDelim bs n = w_all [ProtoBufSetVarInt (of_nat n), w_ptr bs n]"
    using assms by (cases bs; simp add: ptr_fits_def ptr_bytes_def writes_def w_ptr_def slice_def ProtoBufSetLenDelim_def)+
  then show ?thesis
    using writes_Cons [OF writes_pb_varint writes_last [OF writes_Cons [OF writes_pb_varint writes_last [OF p(1)]]]]
    by (simp add: ProtoBufSetBytes_def)
qed

lemma writes_pb_string: "writes (ProtoBufSetString (Some s) k) (field_image (FBytes k (c_str s)))"
  using writes_pb_bytes [of "Some (c_str s)" "length (c_str s)" k]
  by (simp add: ProtoBufSetString_def ptr_fits_def ptr_bytes_def)

lemma writes_pb_nested:
  assumes "emits f x"
  shows "writes (pb_nested cap f k) (field_image (FBytes k x))"
proof -
  let ?b = "put (replicate (max cap (length x)) 0) 0 x"
  have "w_ptr (Some ?b) (length x) s = w_ptr (Some x) (length x) s" for s
    by (cases s; cases "fst s") (simp_all add: w_ptr_def slice_def put_0)
  then have w: "w_ptr (Some ?b) (length x) = w_ptr (Some x) (length x)" by (rule ext)
  have "pb_nested cap f k = ProtoBufSetBytes (Some ?b) (length x) k"
    using assms by (intro ext) (simp add: pb_nested_def emits_def)
  also have "\<dots> = ProtoBufSetBytes (Some x) (length x) k"
    by (simp add: ProtoBufSetBytes_def ProtoBufSetLenDelim_def w)
  finally show ?thesis
    using writes_pb_bytes [of "Some x" "length x" k] by (simp add: ptr_fits_def ptr_bytes_def)
qed

text \<open>The wire type of a key.\<close>

lemma pb_key_wire: "pb_key k 0 AND 7 = 0" "pb_key k 2 AND 7 = 2"
proof -
  have m: "(7 :: u64) = mask 3" by (simp add: mask_eq_exp_minus_1)
  have "push_bit 3 k AND mask 3 = 0"
    by (rule bit_word_eqI) (auto simp: bit_simps)
  then show "pb_key k 0 AND 7 = 0" "pb_key k 2 AND 7 = 2"
    unfolding pb_key_def by (simp_all add: m bit.conj_disj_distrib2 flip: m)
qed

text \<open>The number of a key.\<close>

lemma pb_key_number:
  assumes "k < 2 ^ 61" "w < 8"
  shows "drop_bit 3 (pb_key k w) = k"
proof -
  have "unat k < 2 ^ 61" "unat w < 2 ^ 3" using assms by (simp_all add: word_less_nat_alt)
  then have "bit k n \<Longrightarrow> n < 61" "bit w n \<Longrightarrow> n < 3" for n
    using bit_nat_less [of "unat k" 61 n] bit_nat_less [of "unat w" 3 n] by (simp_all add: bit_unsigned_iff)
  then show ?thesis unfolding pb_key_def by (intro bit_word_eqI) (fastforce simp: bit_simps)
qed

text \<open>The parser's view of a field at a position of a buffer.\<close>

fun field_data :: "bytes \<Rightarrow> nat \<Rightarrow> u64 \<Rightarrow> pfield \<Rightarrow> u64 \<times> u64 \<times> pb_ptr \<times> u64" where
  "field_data b p len (FInt k i) = (pb_key k 0, i, None, len)"
| "field_data b p len (FBytes k x) =
     (pb_key k 2, 0, Some (b, p + length (pb_varint (pb_key k 2)) + length (pb_varint (of_nat (length x)))), of_nat (length x))"

lemma pb_varint_at:
  assumes "at b (p + unat off) (pb_varint i)" "unat off + length (pb_varint i) \<le> unat len"
  shows "ProtoBufVarInt (Some (b, p)) len off = Some (i, off + of_nat (length (pb_varint i)))"
  using varint_loop_at [OF assms, of 0 0] pb_varint_at_most_10 [of i] by (simp add: ProtoBufVarInt_def)

lemma unat_offset:
  fixes off len :: u64
  assumes "unat off + n \<le> unat len"
  shows "unat (off + of_nat n) = unat off + n"
proof -
  have "unat len < 2 ^ 64" using unsigned_less [of len] by simp
  then show ?thesis using assms by (simp add: unat_word_ariths unat_of_nat)
qed

lemma field_at:
  assumes a: "at b (p + unat off) (field_image f)" and l: "unat off + length (field_image f) \<le> unat len"
  shows "ProtoBufField (Some (b, p)) len off =
    (case field_data b (p + unat off) len f of (key, i, data, n) \<Rightarrow> Some (key, i, data, n, off + of_nat (length (field_image f))))"
proof (cases f)
  case (FInt k i)
  let ?h = "pb_varint (pb_key k 0)"
  have un: "unat (off + of_nat (length ?h)) = unat off + length ?h"
    using l FInt by (intro unat_offset [of off _ len]) simp
  have "ProtoBufVarInt (Some (b, p)) len off = Some (pb_key k 0, off + of_nat (length ?h))"
    using a l FInt by (intro pb_varint_at) (simp_all add: at_append)
  moreover have "ProtoBufVarInt (Some (b, p)) len (off + of_nat (length ?h)) =
      Some (i, off + of_nat (length ?h) + of_nat (length (pb_varint i)))"
    using a l FInt by (intro pb_varint_at) (simp_all add: at_append un add.assoc)
  ultimately show ?thesis using FInt by (simp add: ProtoBufField_def pb_key_wire add.assoc)
next
  case (FBytes k x)
  let ?h = "pb_varint (pb_key k 2)" and ?n = "of_nat (length x) :: u64"
  let ?l = "pb_varint ?n"
  have "unat len < 2 ^ 64" using unsigned_less [of len] by simp
  then have n: "unat ?n = length x" using l FBytes by (simp add: unat_of_nat)
  have un: "unat (off + of_nat (length ?h)) = unat off + length ?h"
    "unat (off + of_nat (length ?h) + of_nat (length ?l)) = unat off + length ?h + length ?l"
    "unat (off + of_nat (length ?h) + of_nat (length ?l) + ?n) = unat off + length ?h + length ?l + length x"
    using l FBytes unat_offset [of off "length ?h" len] unat_offset [of off "length ?h + length ?l" len]
      unat_offset [of off "length ?h + length ?l + length x" len] by (simp_all add: add.assoc)
  have "ProtoBufVarInt (Some (b, p)) len off = Some (pb_key k 2, off + of_nat (length ?h))"
    using a l FBytes by (intro pb_varint_at) (simp_all add: at_append)
  moreover have "ProtoBufVarInt (Some (b, p)) len (off + of_nat (length ?h)) =
      Some (?n, off + of_nat (length ?h) + of_nat (length ?l))"
    using a l FBytes by (intro pb_varint_at) (simp_all add: at_append un add.assoc)
  moreover have "off + of_nat (length ?h) + of_nat (length ?l) + ?n \<le> len"
    using l FBytes un by (simp add: word_le_nat_alt)
  ultimately show ?thesis
    using FBytes un by (simp add: ProtoBufField_def ProtoBufLenDelim_def pb_key_wire add.assoc)
qed

section \<open>The loop over the fields of a message\<close>

text \<open>The handler of a parser takes one step for a field, wherever its data stands and however long the message is.\<close>

type_synonym 's pb_handler = "u64 \<Rightarrow> u64 \<Rightarrow> pb_ptr \<Rightarrow> u64 \<Rightarrow> 's \<Rightarrow> 's run"

fun takes :: "'s pb_handler \<Rightarrow> pfield \<Rightarrow> 's \<Rightarrow> 's \<Rightarrow> bool" where
  "takes h (FInt k i) s t \<longleftrightarrow> (\<forall>len. h (pb_key k 0) i None len s = Some t)"
| "takes h (FBytes k x) s t \<longleftrightarrow> (\<forall>b p. at b p x \<longrightarrow> length x < 2 ^ 32 \<longrightarrow> h (pb_key k 2) 0 (Some (b, p)) (of_nat (length x)) s = Some t)"

inductive reads :: "'s pb_handler \<Rightarrow> pfield list \<Rightarrow> 's \<Rightarrow> 's \<Rightarrow> bool" for h where
  reads_Nil: "reads h [] s s"
| reads_Cons: "takes h f s t \<Longrightarrow> reads h fs t u \<Longrightarrow> reads h (f # fs) s u"

lemma reads_append: "reads h fs s t \<Longrightarrow> reads h gs t u \<Longrightarrow> reads h (fs @ gs) s u"
  by (induction rule: reads.induct) (auto intro: reads.intros)

lemma reads_one: "takes h f s t \<Longrightarrow> reads h [f] s t"
  by (blast intro: reads.intros)

lemma reads_unless: "(\<not> c \<Longrightarrow> takes h f s t) \<Longrightarrow> (c \<Longrightarrow> s = t) \<Longrightarrow> reads h (if c then [] else [f]) s t"
  by (simp add: reads_one reads_Nil)

lemma reads_option:
  "(\<And>x. a = Some x \<Longrightarrow> takes h (f x) s t) \<Longrightarrow> (a = None \<Longrightarrow> s = t) \<Longrightarrow> reads h (case a of None \<Rightarrow> [] | Some x \<Rightarrow> [f x]) s t"
  by (cases a) (simp_all add: reads_one reads_Nil)

lemma reads_map:
  "(\<And>x s. x \<in> set xs \<Longrightarrow> takes h (f x) s (g x s)) \<Longrightarrow> reads h (map f xs) s (fold g xs s)"
  by (induction xs arbitrary: s) (auto intro: reads.intros)

lemma takes_at:
  assumes "takes h f s t" "at b p (field_image f)" "length (field_image f) < 2 ^ 32"
  shows "(case field_data b p len f of (key, i, data, n) \<Rightarrow> h key i data n s) = Some t"
  using assms by (cases f) (simp_all add: at_append)

lemma pb_loop_reads:
  assumes "reads h fs s t" "at b (p + unat off) (fields_image fs)" "unat off + length (fields_image fs) = unat len"
    "length (fields_image fs) < 2 ^ 32"
  shows "pb_loop h (Some (b, p)) len off s = Some t"
  using assms
proof (induction arbitrary: off rule: reads.induct)
  case (reads_Nil s)
  then have "off = len" by (simp add: unat_eq_iff)
  then show ?case by (subst pb_loop.simps) simp
next
  case (reads_Cons f s t fs u)
  let ?n = "length (field_image f)"
  have lt: "off < len" using reads_Cons.prems by (cases "field_image f") (simp_all add: word_less_nat_alt)
  have un: "unat (off + of_nat ?n) = unat off + ?n"
    using reads_Cons.prems by (intro unat_offset [of off _ len]) simp
  have f: "at b (p + unat off) (field_image f)" and fs: "at b (p + unat (off + of_nat ?n)) (fields_image fs)"
    using reads_Cons.prems un by (simp_all add: at_append add.assoc)
  obtain key i data n where d: "field_data b (p + unat off) len f = (key, i, data, n)"
    by (cases "field_data b (p + unat off) len f") auto
  have "ProtoBufField (Some (b, p)) len off = Some (key, i, data, n, off + of_nat ?n)"
    using reads_Cons.prems by (subst field_at [OF f]) (simp_all add: d)
  moreover have "h key i data n s = Some t" using takes_at [OF reads_Cons.hyps(1) f, of len] d reads_Cons.prems by simp
  moreover have "pb_loop h (Some (b, p)) len (off + of_nat ?n) t = Some u"
    using fs reads_Cons.prems by (intro reads_Cons.IH) (simp_all add: un)
  ultimately show ?case using lt by (subst pb_loop.simps) simp
qed

lemma pb_parse_reads:
  assumes "reads h fs s t" "at b p (fields_image fs)" "length (fields_image fs) < 2 ^ 32"
  shows "pb_parse h (Some (b, p)) (of_nat (length (fields_image fs))) s = Some t"
proof -
  have "unat (of_nat (length (fields_image fs)) :: u64) = length (fields_image fs)"
    using assms(3) by (simp add: unat_of_nat)
  then show ?thesis using pb_loop_reads [OF assms(1), of b p 0] assms(2,3) by (simp add: pb_parse_def)
qed

section \<open>What a handler does with its data\<close>

lemma pb_copy_at: "at b p x \<Longrightarrow> length x < 2 ^ 32 \<Longrightarrow> pb_copy (Some (b, p)) (of_nat (length x)) = Some (Some x)"
  using at_slice [of b p x "length x"] by (simp add: pb_copy_def unat_of_nat)

lemma pb_string_at:
  "at b p x \<Longrightarrow> length x < 2 ^ 32 \<Longrightarrow> ProtoBufString s (Some (b, p)) (of_nat (length x)) = Some (Some x)"
  by (simp add: ProtoBufString_def pb_copy_at)

lemma pb_bytes_at:
  "at b p x \<Longrightarrow> length x < 2 ^ 32 \<Longrightarrow> ProtoBufBytes s (Some (b, p)) (of_nat (length x)) = Some (Some x, length x)"
  by (simp add: ProtoBufBytes_def pb_string_at)


end
