(* ===== verification/PaymentSpec.thy ===== *)
theory PaymentSpec
  imports PaymentProtocol ProtobufSpec
begin

text \<open>
  What the messages of PaymentProtocol write and read: every message has a list of fields, its serialiser writes
  their bytes, and its parser gives the message back from them, with the objects nested in it.
\<close>

section \<open>Objects with a serialiser and a parser\<close>

text \<open>What every message promises: for a well-formed object the serialiser writes its image, and the parser gives
  the object back from wherever the image stands.\<close>

locale pb_codec =
  fixes wf :: "'a \<Rightarrow> bool" and image :: "'a \<Rightarrow> bytes"
    and serialize :: "'a \<Rightarrow> bytes option \<Rightarrow> (nat \<times> bytes option) run" and parse :: "pb_ptr \<Rightarrow> u64 \<Rightarrow> 'b run" and result :: "'a \<Rightarrow> 'b"
  assumes emits: "wf m \<Longrightarrow> emits (serialize m) (image m)"
    and parses: "wf m \<Longrightarrow> at b p (image m) \<Longrightarrow> length (image m) < 2 ^ 32 \<Longrightarrow>
      parse (Some (b, p)) (of_nat (length (image m))) = Some (result m)"
begin

lemma serialised_image: "wf m \<Longrightarrow> serialised (serialize m) = Some (image m)"
  using emits by (simp add: serialised_def emits_def put_0)

lemma parses_buffer: "wf m \<Longrightarrow> length (image m) < 2 ^ 32 \<Longrightarrow> on_buffer parse (Some (image m)) = Some (result m)"
  using parses [of m "image m" 0] by (simp add: on_buffer_def whole_def at_def)

lemma nested: "wf m \<Longrightarrow> writes (pb_nested cap (serialize m) k) (field_image (FBytes k (image m)))"
  by (rule writes_pb_nested [OF emits])

lemma nested_map:
  "(\<And>m. m \<in> set ms \<Longrightarrow> wf m) \<Longrightarrow>
   writes (w_all (map (\<lambda>m. pb_nested cap (serialize m) k) ms)) (fields_image (map (\<lambda>m. FBytes k (image m)) ms))"
  unfolding fields_image_def map_map comp_def by (rule writes_map) (rule nested)

end

section \<open>Strings, blocks and contexts\<close>

text \<open>A string without a NUL, and a block with its length.\<close>

definition str_ok :: "bytes option \<Rightarrow> bool" where
  "str_ok s = (case s of None \<Rightarrow> True | Some x \<Rightarrow> c_str x = x)"

definition str_field :: "bytes option \<Rightarrow> u64 \<Rightarrow> pfield list" where
  "str_field s k = (case s of None \<Rightarrow> [] | Some x \<Rightarrow> [FBytes k x])"

text \<open>A context without unknown fields.\<close>

definition ctx_is :: "bool list \<Rightarrow> ProtoBufContext \<Rightarrow> bool" where
  "ctx_is ds c \<longleftrightarrow> c = \<lparr>ctx_defaults = ds, ctx_unknown = None\<rparr>"

lemma ctx_is_unknown: "ctx_is ds c \<Longrightarrow> ctx_unknown c = None"
  by (simp add: ctx_is_def)

declare field_image.simps [simp del] fields_image_simps [simp del]

lemma fields_image_one: "fields_image [f] = field_image f" "fields_image [] = []"
  by (simp_all add: fields_image_simps)

lemma writes_fields:
  "writes (w_all vs) (fields_image fs) \<Longrightarrow> writes (w_all ws) (fields_image gs) \<Longrightarrow>
    writes (w_all (vs @ ws)) (fields_image (fs @ gs))"
  by (simp add: fields_image_simps writes_append)

lemma writes_field: "writes w (field_image f) \<Longrightarrow> writes (w_all [w]) (fields_image [f])"
  by (simp add: fields_image_one writes_last)

text \<open>The last field, with the unknown ones, of which there are none, behind it.\<close>

lemma writes_end:
  "writes (w_all vs) (fields_image fs) \<Longrightarrow> ctx_unknown c = None \<Longrightarrow> writes (w_all (vs @ unknown_writers c)) (fields_image fs)"
  using writes_append [OF _ writes_Nil] by (fastforce simp: unknown_writers_def)

lemma writes_unless:
  "(\<not> c \<Longrightarrow> writes w (field_image f)) \<Longrightarrow> writes (w_all (if c then [] else [w])) (fields_image (if c then [] else [f]))"
  by (simp add: fields_image_one writes_Nil writes_last)

lemma writes_opt_string: "str_ok s \<Longrightarrow> writes (w_all (opt_string s k)) (fields_image (str_field s k))"
  using writes_field [OF writes_pb_string [of "the s" k]]
  by (auto simp: opt_string_def str_field_def str_ok_def writes_Nil fields_image_one split: option.splits)

lemma writes_opt_bytes: "ptr_fits b n \<Longrightarrow> writes (w_all (opt_bytes b n k)) (fields_image (str_field b k))"
  using writes_field [OF writes_pb_bytes [of b n k]]
  by (auto simp: opt_bytes_def str_field_def ptr_fits_def ptr_bytes_def writes_Nil fields_image_one split: option.splits)

lemmas writes_message = writes_fields writes_field writes_end writes_unless writes_opt_string writes_opt_bytes writes_pb_int
  writes_pb_bytes

lemma reads_str:
  "(\<And>x. s = Some x \<Longrightarrow> takes h (FBytes k x) t u) \<Longrightarrow> (s = None \<Longrightarrow> t = u) \<Longrightarrow> reads h (str_field s k) t u"
  unfolding str_field_def by (rule reads_option)

lemma field_no_simps [simp]:
  "field_no (pb_key 1 0) = 1" "field_no (pb_key 2 0) = 2" "field_no (pb_key 3 0) = 3" "field_no (pb_key 4 0) = 4"
  "field_no (pb_key 5 0) = 5" "field_no (pb_key 6 0) = 6" "field_no (pb_key 7 0) = 7" "field_no (pb_key 8 0) = 8"
  "field_no (pb_key 1 2) = 1" "field_no (pb_key 2 2) = 2" "field_no (pb_key 3 2) = 3" "field_no (pb_key 4 2) = 4"
  "field_no (pb_key 5 2) = 5" "field_no (pb_key 6 2) = 6" "field_no (pb_key 7 2) = 7" "field_no (pb_key 9 2) = 9"
  by (simp_all add: field_no_def pb_key_number)

section \<open>Outputs\<close>

fun output_fields :: "pb_output \<Rightarrow> pfield list" where
  "output_fields (out, c) = (if ctx_defaults c ! 1 then [] else [FInt 1 (out_amount out)]) @
     [FBytes 2 (ptr_bytes (out_script out) (out_scriptLen out))]"

fun output_wf :: "bool \<Rightarrow> pb_output \<Rightarrow> bool" where
  "output_wf testnet (out, c) \<longleftrightarrow> ctx_is [False, ctx_defaults c ! 1, False] c \<and> (ctx_defaults c ! 1 \<longrightarrow> out_amount out = 0) \<and>
     (case out_script out of None \<Rightarrow> False
      | Some s \<Rightarrow> out_scriptLen out = length s \<and> out_address out = pubkey_address testnet s)"

lemma pb_loop_whole:
  assumes "reads h fs s t" "at b p (fields_image fs)" "length (fields_image fs) < 2 ^ 32"
  shows "pb_loop h (Some (b, p)) (of_nat (length (fields_image fs))) 0 s = Some t"
  using pb_parse_reads [OF assms] by (simp add: pb_parse_def)

lemma ctx_defaults_simps [simp]:
  "ctx_defaults (set_default k d c) = (ctx_defaults c)[k := d]" "ctx_unknown (set_default k d c) = ctx_unknown c"
  "set_default k d \<lparr>ctx_defaults = ds, ctx_unknown = u\<rparr> = \<lparr>ctx_defaults = ds[k := d], ctx_unknown = u\<rparr>"
  by (simp_all add: set_default_def)

lemma list_update_numeral [simp]: "(x # xs)[numeral v := y] = x # xs[pred_numeral v := y]"
  by (simp add: numeral_eq_Suc)

lemma new_ctx_simps [simp]:
  "new_ctx 2 = \<lparr>ctx_defaults = [False, False, False], ctx_unknown = None\<rparr>"
  "new_ctx 4 = \<lparr>ctx_defaults = [False, False, False, False, False], ctx_unknown = None\<rparr>"
  "new_ctx 5 = \<lparr>ctx_defaults = [False, False, False, False, False, False], ctx_unknown = None\<rparr>"
  "new_ctx 7 = \<lparr>ctx_defaults = [False, False, False, False, False, False, False, False], ctx_unknown = None\<rparr>"
  "new_ctx 9 = \<lparr>ctx_defaults = [False, False, False, False, False, False, False, False, False, False], ctx_unknown = None\<rparr>"
  by (simp_all add: new_ctx_def numeral_eq_Suc)

interpretation pb_out: pb_codec "output_wf testnet" "\<lambda>oc. fields_image (output_fields oc)" BRPaymentProtocolOutputSerialize
  "BRPaymentProtocolOutputParse testnet" "\<lambda>oc. oc" for testnet
proof
  fix oc b p
  assume wf: "output_wf testnet oc"
  obtain out c where oc: "oc = (out, c)" by (cases oc)
  obtain s d where s: "out_script out = Some s" "out_scriptLen out = length s" "out_address out = pubkey_address testnet s"
    and c: "c = \<lparr>ctx_defaults = [False, d, False], ctx_unknown = None\<rparr>" and d: "d \<Longrightarrow> out_amount out = 0"
    using wf unfolding oc by (auto simp: ctx_is_def split: option.splits)
  have p: "ptr_fits (out_script out) (out_scriptLen out)" "ptr_bytes (out_script out) (out_scriptLen out) = s"
    using s by (simp_all add: ptr_fits_def ptr_bytes_def)
  have "writes (ProtoBufSetBytes (out_script out) (out_scriptLen out) 2) (field_image (FBytes 2 s))"
    using writes_pb_bytes [OF p(1)] by (simp add: p)
  then show "emits (BRPaymentProtocolOutputSerialize oc) (fields_image (output_fields oc))"
    unfolding BRPaymentProtocolOutputSerialize_def oc Let_def prod.case output_fields.simps p
    by (intro emits_run writes_message; simp add: c writes_field)
  let ?z = "(BR_TX_OUTPUT_NONE\<lparr>out_amount := 0\<rparr>, set_default 1 True (new_ctx 2))"
  let ?o = "BR_TX_OUTPUT_NONE\<lparr>out_amount := out_amount out\<rparr>"
  have "reads (output_field testnet) (if d then [] else [FInt 1 (out_amount out)]) ?z (?o, c)"
    using d by (intro reads_unless) (auto simp: c output_field_def set_default_def)
  moreover have "?o\<lparr>out_script := Some s, out_scriptLen := length s, out_address := pubkey_address testnet s\<rparr> = out"
    using s by (cases out) (simp add: BR_TX_OUTPUT_NONE_def)
  then have "takes (output_field testnet) (FBytes 2 s) (?o, c) oc"
    by (simp add: oc output_field_def pb_copy_at set_output_eq)
  ultimately have r: "reads (output_field testnet) (output_fields oc) ?z oc"
    unfolding oc output_fields.simps p by (intro reads_append [OF _ reads_one]) (simp_all add: c)
  assume a: "at b p (fields_image (output_fields oc))" and l: "length (fields_image (output_fields oc)) < 2 ^ 32"
  show "BRPaymentProtocolOutputParse testnet (Some (b, p)) (of_nat (length (fields_image (output_fields oc)))) = Some oc"
    unfolding BRPaymentProtocolOutputParse_def pb_loop_whole [OF r a l] bind.bind_lunit using s by (simp add: oc)
qed

lemma output_wf_script: "output_wf testnet oc \<Longrightarrow> out_script (fst oc) \<noteq> None"
  by (cases oc) (auto split: option.splits)

declare output_fields.simps [simp del] output_wf.simps [simp del]

section \<open>Details\<close>

definition details_fields :: "BRPaymentProtocolDetails \<Rightarrow> pfield list" where
  "details_fields d = (let ds = ctx_defaults (pd_ctx d) in
     (if ds ! 1 then [] else [FBytes 1 (the (pd_network d))]) @
     map (\<lambda>oc. FBytes 2 (fields_image (output_fields oc))) (pd_outputs d) @
     (if ds ! 3 then [] else [FInt 3 (pd_time d)]) @ (if ds ! 4 then [] else [FInt 4 (pd_expires d)]) @
     str_field (pd_memo d) 5 @ str_field (pd_paymentURL d) 6 @ str_field (pd_merchantData d) 7)"

text \<open>Details as they are read: a default that stands for a field has its value.\<close>

definition details_wf :: "bool \<Rightarrow> BRPaymentProtocolDetails \<Rightarrow> bool" where
  "details_wf testnet d \<longleftrightarrow> (let ds = ctx_defaults (pd_ctx d) in
     ctx_is [False, ds ! 1, False, ds ! 3, ds ! 4, False, False, False] (pd_ctx d) \<and>
     (case pd_network d of None \<Rightarrow> False | Some n \<Rightarrow> c_str n = n \<and> (ds ! 1 \<longrightarrow> n = str_main)) \<and>
     list_all (output_wf testnet) (pd_outputs d) \<and> pd_outCount d = length (pd_outputs d) \<and>
     (ds ! 3 \<longrightarrow> pd_time d = 0) \<and> (ds ! 4 \<longrightarrow> pd_expires d = 0) \<and> str_ok (pd_memo d) \<and> str_ok (pd_paymentURL d) \<and>
     ptr_fits (pd_merchantData d) (pd_merchDataLen d))"

lemma details_outputs_fold:
  "fold (\<lambda>oc d. d\<lparr>pd_outputs := pd_outputs d @ [oc]\<rparr>) ocs d = d\<lparr>pd_outputs := pd_outputs d @ ocs\<rparr>"
  by (induction ocs arbitrary: d) simp_all

lemma details_emits:
  assumes "details_wf testnet d"
  shows "emits (BRPaymentProtocolDetailsSerialize d) (fields_image (details_fields d))"
proof -
  obtain n where n: "pd_network d = Some n" "c_str n = n"
    using assms by (auto simp: details_wf_def Let_def split: option.splits)
  have outs: "writes (w_all (map (\<lambda>oc. pb_nested 0x100 (BRPaymentProtocolOutputSerialize oc) 2) (pd_outputs d)))
      (fields_image (map (\<lambda>oc. FBytes 2 (fields_image (output_fields oc))) (pd_outputs d)))"
    using assms by (intro pb_out.nested_map [of _ testnet]) (auto simp: details_wf_def Let_def list_all_iff)
  have net: "writes (ProtoBufSetString (pd_network d) 1) (field_image (FBytes 1 (the (pd_network d))))"
    using writes_pb_string [of n 1] n by simp
  have c: "pd_outCount d = length (pd_outputs d)" "ctx_unknown (pd_ctx d) = None"
    "str_ok (pd_memo d)" "str_ok (pd_paymentURL d)" "ptr_fits (pd_merchantData d) (pd_merchDataLen d)"
    using assms by (auto simp: details_wf_def Let_def dest: ctx_is_unknown)
  show ?thesis
    unfolding BRPaymentProtocolDetailsSerialize_def details_fields_def Let_def c take_all [OF order_refl]
    by (intro emits_run writes_message outs net c)
qed

lemma details_parses:
  assumes wf: "details_wf testnet d" and a: "at b p (fields_image (details_fields d))"
    and l: "length (fields_image (details_fields d)) < 2 ^ 32"
  shows "details_at testnet (Some (b, p)) (of_nat (length (fields_image (details_fields d)))) = Some d"
proof -
  obtain n d1 d3 d4 where n: "pd_network d = Some n" "d1 \<Longrightarrow> n = str_main"
    and c: "pd_ctx d = \<lparr>ctx_defaults = [False, d1, False, d3, d4, False, False, False], ctx_unknown = None\<rparr>"
    and w: "list_all (output_wf testnet) (pd_outputs d)" "pd_outCount d = length (pd_outputs d)"
      "d3 \<Longrightarrow> pd_time d = 0" "d4 \<Longrightarrow> pd_expires d = 0" "ptr_fits (pd_merchantData d) (pd_merchDataLen d)"
    using wf by (auto simp: details_wf_def Let_def ctx_is_def split: option.splits)
  let ?h = "details_field testnet"
  let ?z = "details_zero (set_default 4 True (set_default 3 True (new_ctx 7)))"
  let ?s1 = "?z\<lparr>pd_network := if d1 then None else Some n\<rparr>"
  let ?s2 = "?s1\<lparr>pd_outputs := pd_outputs d\<rparr>"
  let ?s3 = "?s2\<lparr>pd_time := pd_time d, pd_ctx := set_default 3 d3 (pd_ctx ?s2)\<rparr>"
  let ?s4 = "?s3\<lparr>pd_expires := pd_expires d, pd_ctx := set_default 4 d4 (pd_ctx ?s3)\<rparr>"
  let ?s5 = "?s4\<lparr>pd_memo := pd_memo d\<rparr>"
  let ?s6 = "?s5\<lparr>pd_paymentURL := pd_paymentURL d\<rparr>"
  let ?s7 = "?s6\<lparr>pd_merchantData := pd_merchantData d, pd_merchDataLen := pd_merchDataLen d\<rparr>"
  note h = details_field_def details_zero_def
  have r1: "reads ?h (if d1 then [] else [FBytes 1 n]) ?z ?s1"
    by (intro reads_unless) (simp_all add: h pb_string_at)
  have "takes ?h (FBytes 2 (fields_image (output_fields oc))) s (s\<lparr>pd_outputs := pd_outputs s @ [oc]\<rparr>)"
    if "oc \<in> set (pd_outputs d)" for oc s
    using w(1) that pb_out.parses [of testnet oc] output_wf_script [of testnet oc] by (auto simp: h list_all_iff)
  then have r2: "reads ?h (map (\<lambda>oc. FBytes 2 (fields_image (output_fields oc))) (pd_outputs d)) ?s1 ?s2"
    using reads_map [of "pd_outputs d" ?h _ "\<lambda>oc s. s\<lparr>pd_outputs := pd_outputs s @ [oc]\<rparr>" ?s1]
    by (simp add: details_outputs_fold details_zero_def)
  have r3: "reads ?h (if d3 then [] else [FInt 3 (pd_time d)]) ?s2 ?s3"
    using w(3) by (intro reads_unless) (simp_all add: h)
  have r4: "reads ?h (if d4 then [] else [FInt 4 (pd_expires d)]) ?s3 ?s4"
    using w(4) by (intro reads_unless) (simp_all add: h)
  have r5: "reads ?h (str_field (pd_memo d) 5) ?s4 ?s5" by (intro reads_str) (simp_all add: h pb_string_at)
  have r6: "reads ?h (str_field (pd_paymentURL d) 6) ?s5 ?s6" by (intro reads_str) (simp_all add: h pb_string_at)
  have r7: "reads ?h (str_field (pd_merchantData d) 7) ?s6 ?s7"
    using w(5) by (intro reads_str) (simp_all add: h pb_bytes_at ptr_fits_def)
  note all = reads_append [OF r1 reads_append [OF r2 reads_append [OF r3 reads_append [OF r4
    reads_append [OF r5 reads_append [OF r6 r7]]]]]]
  have r: "reads ?h (details_fields d) ?z ?s7"
    using all unfolding details_fields_def Let_def n option.sel by (simp add: c)
  show ?thesis
    unfolding details_at_def pb_parse_reads [OF r a l] bind.bind_lunit Let_def
    using n w(2) c by (cases d; cases d1) (simp_all add: details_zero_def)
qed

interpretation pb_details: pb_codec "details_wf testnet" "\<lambda>d. fields_image (details_fields d)" BRPaymentProtocolDetailsSerialize
  "details_at testnet" "\<lambda>d. d" for testnet
  by unfold_locales (rule details_emits, assumption, rule details_parses)

section \<open>Requests\<close>

definition request_fields :: "BRPaymentProtocolRequest \<Rightarrow> pfield list" where
  "request_fields r = (let ds = ctx_defaults (pr_ctx r) in
     (if ds ! 1 then [] else [FInt 1 (ucast (pr_version r))]) @ (if ds ! 2 then [] else [FBytes 2 (the (pr_pkiType r))]) @
     str_field (pr_pkiData r) 3 @ [FBytes 4 (fields_image (details_fields (the (pr_details r))))] @ str_field (pr_signature r) 5)"

definition request_wf :: "bool \<Rightarrow> BRPaymentProtocolRequest \<Rightarrow> bool" where
  "request_wf testnet r \<longleftrightarrow> (let ds = ctx_defaults (pr_ctx r) in
     ctx_is [False, ds ! 1, ds ! 2, False, False, False] (pr_ctx r) \<and> (ds ! 1 \<longrightarrow> pr_version r = 1) \<and>
     (case pr_pkiType r of None \<Rightarrow> False | Some t \<Rightarrow> c_str t = t \<and> (ds ! 2 \<longrightarrow> t = str_none)) \<and>
     ptr_fits (pr_pkiData r) (pr_pkiDataLen r) \<and> (case pr_details r of None \<Rightarrow> False | Some d \<Rightarrow> details_wf testnet d) \<and>
     ptr_fits (pr_signature r) (pr_sigLen r))"

lemma u32_in_u64 [simp]: "ucast (ucast v :: u64) = (v :: u32)"
  by (rule bit_word_eqI) (simp add: bit_simps)

lemma request_emits:
  assumes "request_wf testnet r"
  shows "emits (BRPaymentProtocolRequestSerialize r) (fields_image (request_fields r))"
proof -
  obtain t d where t: "pr_pkiType r = Some t" "c_str t = t" and d: "pr_details r = Some d" "details_wf testnet d"
    using assms by (auto simp: request_wf_def Let_def split: option.splits)
  have type: "writes (ProtoBufSetString (pr_pkiType r) 2) (field_image (FBytes 2 t))"
    using writes_pb_string [of t 2] t by simp
  have c: "ctx_unknown (pr_ctx r) = None" "ptr_fits (pr_pkiData r) (pr_pkiDataLen r)" "ptr_fits (pr_signature r) (pr_sigLen r)"
    using assms by (auto simp: request_wf_def Let_def dest: ctx_is_unknown)
  show ?thesis
    unfolding BRPaymentProtocolRequestSerialize_def request_fields_def Let_def t(1) d(1) option.case option.sel
    by (intro emits_run writes_message pb_details.nested [OF d(2)] type [unfolded t(1)] c)
qed

lemma request_parses:
  assumes wf: "request_wf testnet r" and a: "at b p (fields_image (request_fields r))"
    and l: "length (fields_image (request_fields r)) < 2 ^ 32"
  shows "request_at testnet (Some (b, p)) (of_nat (length (fields_image (request_fields r)))) = Some (Some r)"
proof -
  obtain t d d1 d2 where t: "pr_pkiType r = Some t" "d2 \<Longrightarrow> t = str_none"
    and d: "pr_details r = Some d" "details_wf testnet d"
    and c: "pr_ctx r = \<lparr>ctx_defaults = [False, d1, d2, False, False, False], ctx_unknown = None\<rparr>"
    and w: "d1 \<Longrightarrow> pr_version r = 1" "ptr_fits (pr_pkiData r) (pr_pkiDataLen r)" "ptr_fits (pr_signature r) (pr_sigLen r)"
    using wf by (auto simp: request_wf_def Let_def ctx_is_def split: option.splits)
  let ?h = "request_field testnet"
  let ?z = "(request_zero (set_default 1 True (new_ctx 5)))\<lparr>pr_version := 1\<rparr>"
  let ?s1 = "?z\<lparr>pr_version := pr_version r, pr_ctx := set_default 1 d1 (pr_ctx ?z)\<rparr>"
  let ?s2 = "?s1\<lparr>pr_pkiType := if d2 then None else Some t\<rparr>"
  let ?s3 = "?s2\<lparr>pr_pkiData := pr_pkiData r, pr_pkiDataLen := pr_pkiDataLen r\<rparr>"
  let ?s4 = "?s3\<lparr>pr_details := Some d\<rparr>"
  let ?s5 = "?s4\<lparr>pr_signature := pr_signature r, pr_sigLen := pr_sigLen r\<rparr>"
  note h = request_field_def request_zero_def
  have r1: "reads ?h (if d1 then [] else [FInt 1 (ucast (pr_version r))]) ?z ?s1"
    using w(1) by (intro reads_unless) (simp_all add: h)
  have r2: "reads ?h (if d2 then [] else [FBytes 2 t]) ?s1 ?s2" by (intro reads_unless) (simp_all add: h pb_string_at)
  have r3: "reads ?h (str_field (pr_pkiData r) 3) ?s2 ?s3"
    using w(2) by (intro reads_str) (simp_all add: h pb_bytes_at ptr_fits_def)
  have r4: "reads ?h [FBytes 4 (fields_image (details_fields d))] ?s3 ?s4"
    using pb_details.parses [OF d(2)] by (intro reads_one) (simp add: h)
  have r5: "reads ?h (str_field (pr_signature r) 5) ?s4 ?s5"
    using w(3) by (intro reads_str) (simp_all add: h pb_bytes_at ptr_fits_def)
  note all = reads_append [OF r1 reads_append [OF r2 reads_append [OF r3 reads_append [OF r4 r5]]]]
  have r: "reads ?h (request_fields r) ?z ?s5"
    using all unfolding request_fields_def Let_def t(1) d(1) option.sel by (simp add: c)
  show ?thesis
    unfolding request_at_def pb_parse_reads [OF r a l] bind.bind_lunit Let_def
    using t d(1) c by (cases r; cases d2) (simp_all add: request_zero_def)
qed

interpretation pb_request: pb_codec "request_wf testnet" "\<lambda>r. fields_image (request_fields r)" BRPaymentProtocolRequestSerialize
  "request_at testnet" Some for testnet
  by unfold_locales (rule request_emits, assumption, rule request_parses)

section \<open>Payments and acknowledgements\<close>

definition payment_fields :: "BRPaymentProtocolPayment \<Rightarrow> pfield list" where
  "payment_fields p = str_field (pp_merchantData p) 1 @ map (\<lambda>tx. FBytes 2 (tx_image tx)) (pp_transactions p) @
     map (\<lambda>oc. FBytes 3 (fields_image (output_fields oc))) (pp_refundTo p) @ str_field (pp_memo p) 4"

text \<open>A transaction as it is parsed: its hash is computed, and it is not in a block yet.\<close>

definition parsed_tx :: "bool \<Rightarrow> BRTransaction \<Rightarrow> bool" where
  "parsed_tx testnet tx \<longleftrightarrow> tx_form testnet tx \<and> tx_blockHeight tx = TX_UNCONFIRMED \<and> tx_timestamp tx = 0 \<and>
     tx_hash tx = (if BRTransactionIsSigned tx then UInt256Get (BRSHA256_2 (tx_image tx)) else 0)"

definition payment_wf :: "bool \<Rightarrow> BRPaymentProtocolPayment \<Rightarrow> bool" where
  "payment_wf testnet p \<longleftrightarrow> ctx_is [False, False, False, False, False] (pp_ctx p) \<and>
     ptr_fits (pp_merchantData p) (pp_merchDataLen p) \<and> list_all (parsed_tx testnet) (pp_transactions p) \<and>
     pp_txCount p = length (pp_transactions p) \<and> list_all (output_wf testnet) (pp_refundTo p) \<and>
     pp_refundToCount p = length (pp_refundTo p) \<and> str_ok (pp_memo p)"

lemma payment_fold:
  "fold (\<lambda>tx p. p\<lparr>pp_transactions := pp_transactions p @ [tx]\<rparr>) txs p = p\<lparr>pp_transactions := pp_transactions p @ txs\<rparr>"
  "fold (\<lambda>oc p. p\<lparr>pp_refundTo := pp_refundTo p @ [oc]\<rparr>) ocs p = p\<lparr>pp_refundTo := pp_refundTo p @ ocs\<rparr>"
  by (induction txs arbitrary: p, simp_all) (induction ocs arbitrary: p, simp_all)

lemma payment_emits:
  assumes "payment_wf testnet p"
  shows "emits (BRPaymentProtocolPaymentSerialize p) (fields_image (payment_fields p))"
proof -
  have c: "ctx_unknown (pp_ctx p) = None" "ptr_fits (pp_merchantData p) (pp_merchDataLen p)" "str_ok (pp_memo p)"
    and n: "pp_txCount p = length (pp_transactions p)" "pp_refundToCount p = length (pp_refundTo p)"
    using assms by (auto simp: payment_wf_def dest: ctx_is_unknown)
  have txs: "writes (w_all (map (\<lambda>tx. pb_nested 0x100 (BRTransactionSerialize tx) 2) (pp_transactions p)))
      (fields_image (map (\<lambda>tx. FBytes 2 (tx_image tx)) (pp_transactions p)))"
    unfolding fields_image_def map_map comp_def using assms
    by (intro writes_map writes_pb_nested emits_serialize) (auto simp: payment_wf_def list_all_iff parsed_tx_def intro: tx_form_ptrs)
  have outs: "writes (w_all (map (\<lambda>oc. pb_nested 0 (BRPaymentProtocolOutputSerialize oc) 3) (pp_refundTo p)))
      (fields_image (map (\<lambda>oc. FBytes 3 (fields_image (output_fields oc))) (pp_refundTo p)))"
    using assms by (intro pb_out.nested_map [of _ testnet]) (auto simp: payment_wf_def list_all_iff)
  show ?thesis
    unfolding BRPaymentProtocolPaymentSerialize_def payment_fields_def n take_all [OF order_refl]
    by (intro emits_run writes_message txs outs c)
qed

lemma payment_parses:
  assumes wf: "payment_wf testnet q" and a: "at b p (fields_image (payment_fields q))"
    and l: "length (fields_image (payment_fields q)) < 2 ^ 32"
  shows "payment_at testnet (Some (b, p)) (of_nat (length (fields_image (payment_fields q)))) = Some q"
proof -
  have c: "pp_ctx q = \<lparr>ctx_defaults = [False, False, False, False, False], ctx_unknown = None\<rparr>"
    and w: "ptr_fits (pp_merchantData q) (pp_merchDataLen q)" "list_all (parsed_tx testnet) (pp_transactions q)"
      "pp_txCount q = length (pp_transactions q)" "list_all (output_wf testnet) (pp_refundTo q)"
      "pp_refundToCount q = length (pp_refundTo q)"
    using wf by (simp_all add: payment_wf_def ctx_is_def)
  let ?h = "payment_field testnet"
  let ?z = "payment_zero (new_ctx 4)"
  let ?s1 = "?z\<lparr>pp_merchantData := pp_merchantData q, pp_merchDataLen := pp_merchDataLen q\<rparr>"
  let ?s2 = "?s1\<lparr>pp_transactions := pp_transactions q\<rparr>"
  let ?s3 = "?s2\<lparr>pp_refundTo := pp_refundTo q\<rparr>"
  let ?s4 = "?s3\<lparr>pp_memo := pp_memo q\<rparr>"
  note h = payment_field_def payment_zero_def
  have r1: "reads ?h (str_field (pp_merchantData q) 1) ?z ?s1"
    using w(1) by (intro reads_str) (simp_all add: h pb_bytes_at ptr_fits_def)
  have "takes ?h (FBytes 2 (tx_image tx)) s (s\<lparr>pp_transactions := pp_transactions s @ [tx]\<rparr>)"
    if "tx \<in> set (pp_transactions q)" for tx s
  proof -
    have f: "tx_form testnet tx" and "tx\<lparr>tx_hash := (if BRTransactionIsSigned tx then UInt256Get (BRSHA256_2 (tx_image tx)) else 0),
        tx_blockHeight := TX_UNCONFIRMED, tx_timestamp := 0\<rparr> = tx"
      using w(2) that by (auto simp: list_all_iff parsed_tx_def)
    then have "length (tx_image tx) < 2 ^ 32 \<Longrightarrow> BRTransactionParse testnet (Some (tx_image tx)) = Some (Some tx)"
      using tx_parse_image [OF f] by simp
    then show ?thesis by (simp add: h pb_copy_at)
  qed
  then have r2: "reads ?h (map (\<lambda>tx. FBytes 2 (tx_image tx)) (pp_transactions q)) ?s1 ?s2"
    using reads_map [of "pp_transactions q" ?h _ "\<lambda>tx s. s\<lparr>pp_transactions := pp_transactions s @ [tx]\<rparr>" ?s1]
    by (simp add: payment_fold payment_zero_def)
  have "takes ?h (FBytes 3 (fields_image (output_fields oc))) s (s\<lparr>pp_refundTo := pp_refundTo s @ [oc]\<rparr>)"
    if "oc \<in> set (pp_refundTo q)" for oc s
    using w(4) that pb_out.parses [of testnet oc] output_wf_script [of testnet oc] by (auto simp: h list_all_iff)
  then have r3: "reads ?h (map (\<lambda>oc. FBytes 3 (fields_image (output_fields oc))) (pp_refundTo q)) ?s2 ?s3"
    using reads_map [of "pp_refundTo q" ?h _ "\<lambda>oc s. s\<lparr>pp_refundTo := pp_refundTo s @ [oc]\<rparr>" ?s2]
    by (simp add: payment_fold payment_zero_def)
  have r4: "reads ?h (str_field (pp_memo q) 4) ?s3 ?s4" by (intro reads_str) (simp_all add: h pb_string_at)
  have r: "reads ?h (payment_fields q) ?z ?s4"
    unfolding payment_fields_def by (rule reads_append [OF r1 reads_append [OF r2 reads_append [OF r3 r4]]])
  show ?thesis
    unfolding payment_at_def pb_parse_reads [OF r a l] bind.bind_lunit
    using w(3,5) c by (cases q) (simp add: payment_zero_def)
qed

interpretation pb_payment: pb_codec "payment_wf testnet" "\<lambda>p. fields_image (payment_fields p)" BRPaymentProtocolPaymentSerialize
  "payment_at testnet" "\<lambda>p. p" for testnet
  by unfold_locales (rule payment_emits, assumption, rule payment_parses)

definition ack_fields :: "BRPaymentProtocolACK \<Rightarrow> pfield list" where
  "ack_fields a = [FBytes 1 (fields_image (payment_fields (the (pa_payment a))))] @ str_field (pa_memo a) 2"

definition ack_wf :: "bool \<Rightarrow> BRPaymentProtocolACK \<Rightarrow> bool" where
  "ack_wf testnet a \<longleftrightarrow> ctx_is [False, False, False] (pa_ctx a) \<and>
     (case pa_payment a of None \<Rightarrow> False | Some p \<Rightarrow> payment_wf testnet p) \<and> str_ok (pa_memo a)"

lemma ack_emits:
  assumes "ack_wf testnet a"
  shows "emits (BRPaymentProtocolACKSerialize a) (fields_image (ack_fields a))"
proof -
  obtain p where p: "pa_payment a = Some p" "payment_wf testnet p" and c: "ctx_unknown (pa_ctx a) = None" "str_ok (pa_memo a)"
    using assms by (auto simp: ack_wf_def dest: ctx_is_unknown split: option.splits)
  show ?thesis
    unfolding BRPaymentProtocolACKSerialize_def ack_fields_def p(1) option.case option.sel
    by (intro emits_run writes_message pb_payment.nested [OF p(2)] c)
qed

lemma ack_parses:
  assumes wf: "ack_wf testnet a" and i: "at b p (fields_image (ack_fields a))" and l: "length (fields_image (ack_fields a)) < 2 ^ 32"
  shows "ack_at testnet (Some (b, p)) (of_nat (length (fields_image (ack_fields a)))) = Some (Some a)"
proof -
  obtain q where q: "pa_payment a = Some q" "payment_wf testnet q"
    and c: "pa_ctx a = \<lparr>ctx_defaults = [False, False, False], ctx_unknown = None\<rparr>"
    using wf by (auto simp: ack_wf_def ctx_is_def split: option.splits)
  let ?h = "ack_field testnet"
  let ?z = "\<lparr>pa_payment = None, pa_memo = None, pa_ctx = new_ctx 2\<rparr>"
  have r1: "reads ?h [FBytes 1 (fields_image (payment_fields q))] ?z (?z\<lparr>pa_payment := Some q\<rparr>)"
    using pb_payment.parses [OF q(2)] by (intro reads_one) (simp add: ack_field_def)
  have r2: "reads ?h (str_field (pa_memo a) 2) (?z\<lparr>pa_payment := Some q\<rparr>) (?z\<lparr>pa_payment := Some q, pa_memo := pa_memo a\<rparr>)"
    by (intro reads_str) (simp_all add: ack_field_def pb_string_at)
  have r: "reads ?h (ack_fields a) ?z (?z\<lparr>pa_payment := Some q, pa_memo := pa_memo a\<rparr>)"
    unfolding ack_fields_def q(1) option.sel by (rule reads_append [OF r1 r2])
  show ?thesis
    unfolding ack_at_def pb_parse_reads [OF r i l] bind.bind_lunit using q(1) c by (cases a) simp
qed

interpretation pb_ack: pb_codec "ack_wf testnet" "\<lambda>a. fields_image (ack_fields a)" BRPaymentProtocolACKSerialize
  "ack_at testnet" Some for testnet
  by unfold_locales (rule ack_emits, assumption, rule ack_parses)

section \<open>Messages\<close>

definition message_fields :: "BRPaymentProtocolMessage \<Rightarrow> pfield list" where
  "message_fields m = [FInt 1 (ucast (pm_msgType m)), FBytes 2 (the (pm_message m))] @
     (if ctx_defaults (pm_ctx m) ! 3 then [] else [FInt 3 (pm_statusCode m)]) @
     str_field (pm_statusMsg m) 4 @ str_field (pm_identifier m) 5"

definition message_wf :: "BRPaymentProtocolMessage \<Rightarrow> bool" where
  "message_wf m \<longleftrightarrow> (let ds = ctx_defaults (pm_ctx m) in
     ctx_is [False, False, False, ds ! 3, False, False] (pm_ctx m) \<and> pm_message m \<noteq> None \<and>
     ptr_fits (pm_message m) (pm_msgLen m) \<and> (ds ! 3 \<longrightarrow> pm_statusCode m = 0) \<and> str_ok (pm_statusMsg m) \<and>
     ptr_fits (pm_identifier m) (pm_identLen m))"

lemma message_emits:
  assumes "message_wf m"
  shows "emits (BRPaymentProtocolMessageSerialize m) (fields_image (message_fields m))"
proof -
  obtain x where x: "pm_message m = Some x" "pm_msgLen m = length x"
    using assms by (auto simp: message_wf_def Let_def ptr_fits_def split: option.splits)
  have c: "ctx_unknown (pm_ctx m) = None" "str_ok (pm_statusMsg m)" "ptr_fits (pm_identifier m) (pm_identLen m)"
    using assms by (auto simp: message_wf_def Let_def dest: ctx_is_unknown)
  have m: "writes (ProtoBufSetBytes (pm_message m) (pm_msgLen m) 2) (field_image (FBytes 2 (the (pm_message m))))"
    using writes_pb_bytes [of "Some x" "length x" 2] by (simp add: x ptr_fits_def ptr_bytes_def)
  have head: "writes (w_all [ProtoBufSetInt (ucast (pm_msgType m)) 1, ProtoBufSetBytes (pm_message m) (pm_msgLen m) 2])
      (fields_image [FInt 1 (ucast (pm_msgType m)), FBytes 2 (the (pm_message m))])"
    using writes_fields [OF writes_field [OF writes_pb_int] writes_field [OF m]] by simp
  show ?thesis
    unfolding BRPaymentProtocolMessageSerialize_def message_fields_def
    by (intro emits_run writes_fields [OF head] writes_message c)
qed

lemma message_parses:
  assumes wf: "message_wf m" and a: "at b p (fields_image (message_fields m))" and l: "length (fields_image (message_fields m)) < 2 ^ 32"
  shows "message_at (Some (b, p)) (of_nat (length (fields_image (message_fields m)))) = Some (Some m)"
proof -
  obtain x d3 where x: "pm_message m = Some x" "pm_msgLen m = length x"
    and c: "pm_ctx m = \<lparr>ctx_defaults = [False, False, False, d3, False, False], ctx_unknown = None\<rparr>"
    and w: "d3 \<Longrightarrow> pm_statusCode m = 0" "ptr_fits (pm_identifier m) (pm_identLen m)"
    using wf by (auto simp: message_wf_def Let_def ctx_is_def ptr_fits_def split: option.splits)
  let ?z = "message_zero (set_default 3 True (new_ctx 5))"
  let ?s1 = "?z\<lparr>pm_msgType := pm_msgType m\<rparr>"
  let ?s2 = "?s1\<lparr>pm_message := Some x, pm_msgLen := length x\<rparr>"
  let ?s3 = "?s2\<lparr>pm_statusCode := pm_statusCode m, pm_ctx := set_default 3 d3 (pm_ctx ?s2)\<rparr>"
  let ?s4 = "?s3\<lparr>pm_statusMsg := pm_statusMsg m\<rparr>"
  let ?s5 = "?s4\<lparr>pm_identifier := pm_identifier m, pm_identLen := pm_identLen m\<rparr>"
  note h = message_field_def message_zero_def
  have r1: "reads message_field [FInt 1 (ucast (pm_msgType m)), FBytes 2 x] (?z, False) (?s2, True)"
    by (rule reads_Cons [of _ _ _ "(?s1, True)"], simp add: h, rule reads_one) (simp add: h pb_bytes_at)
  have r2: "reads message_field (if d3 then [] else [FInt 3 (pm_statusCode m)]) (?s2, True) (?s3, True)"
    using w(1) by (intro reads_unless) (simp_all add: h)
  have r3: "reads message_field (str_field (pm_statusMsg m) 4) (?s3, True) (?s4, True)"
    by (intro reads_str) (simp_all add: h pb_string_at)
  have r4: "reads message_field (str_field (pm_identifier m) 5) (?s4, True) (?s5, True)"
    using w(2) by (intro reads_str) (simp_all add: h pb_bytes_at ptr_fits_def)
  note all = reads_append [OF r1 reads_append [OF r2 reads_append [OF r3 r4]]]
  have r: "reads message_field (message_fields m) (?z, False) (?s5, True)"
    using all unfolding message_fields_def x(1) option.sel by (simp add: c)
  show ?thesis
    unfolding message_at_def pb_parse_reads [OF r a l] bind.bind_lunit
    using x c by (cases m) (simp add: message_zero_def)
qed

interpretation pb_message: pb_codec message_wf "\<lambda>m. fields_image (message_fields m)" BRPaymentProtocolMessageSerialize
  message_at Some
  by unfold_locales (rule message_emits, assumption, rule message_parses)

section \<open>The round trips\<close>

lemma buffer_of:
  assumes "n \<le> length buf" "n = length x"
  shows "take n (put buf 0 x) = x" "drop n (put buf 0 x) = drop n buf"
  using assms by (simp_all add: put_0)

text \<open>The details with the outputs they count.\<close>

definition counted :: "BRPaymentProtocolRequest \<Rightarrow> BRPaymentProtocolRequest" where
  "counted r = r\<lparr>pr_details := map_option (\<lambda>d. d\<lparr>pd_outputs := take (pd_outCount d) (pd_outputs d)\<rparr>) (pr_details r)\<rparr>"

lemma serialize_counted: "BRPaymentProtocolRequestSerialize (counted r) = BRPaymentProtocolRequestSerialize r"
proof -
  have "BRPaymentProtocolDetailsSerialize (d\<lparr>pd_outputs := take (pd_outCount d) (pd_outputs d)\<rparr>) = BRPaymentProtocolDetailsSerialize d"
    for d by (intro ext) (simp add: BRPaymentProtocolDetailsSerialize_def)
  then show ?thesis
    by (intro ext, cases "pr_details r") (simp_all add: counted_def BRPaymentProtocolRequestSerialize_def)
qed

lemma counted_all: "pr_details r = Some d \<Longrightarrow> pd_outCount d = length (pd_outputs d) \<Longrightarrow> counted r = r"
  by (simp add: counted_def)

lemma copy_outputs_length: "copy_outputs testnet outs = Some ocs \<Longrightarrow> length ocs = length outs"
  by (induction outs arbitrary: ocs) (auto split: bind_splits)

text \<open>What the constructors make: the details count none of the outputs they are given.\<close>

lemma details_new_counts:
  assumes "BRPaymentProtocolDetailsNew testnet network outputs time expires memo paymentURL merchantData = Some d"
  shows "pd_outCount d = 0" "length (pd_outputs d) = length outputs"
  using assms
  by (cases network; auto simp: BRPaymentProtocolDetailsNew_def details_zero_def bytes_arg_def Let_def
      dest: copy_outputs_length split: bind_splits)+

lemma details_new_wf:
  assumes new: "BRPaymentProtocolDetailsNew testnet network outputs time expires memo paymentURL merchantData = Some d"
    and str: "str_ok network" "str_ok memo" "str_ok paymentURL"
  shows "details_wf testnet (d\<lparr>pd_outputs := []\<rparr>)"
proof -
  obtain outs where outs: "copy_outputs testnet outputs = Some outs"
    using new by (cases "copy_outputs testnet outputs") (simp_all add: BRPaymentProtocolDetailsNew_def Let_def)
  have de: "d = (details_zero \<lparr>ctx_defaults = [False, network = None, False, False, False, False, False, False], ctx_unknown = None\<rparr>)
      \<lparr>pd_network := Some (case network of None \<Rightarrow> str_main | Some s \<Rightarrow> s), pd_outputs := outs, pd_time := time, pd_expires := expires,
        pd_memo := memo, pd_paymentURL := paymentURL, pd_merchantData := merchantData,
        pd_merchDataLen := (case merchantData of None \<Rightarrow> 0 | Some x \<Rightarrow> length x)\<rparr>"
    using new outs by (cases network) (simp_all add: BRPaymentProtocolDetailsNew_def details_zero_def bytes_arg_def)
  show ?thesis
    using str by (cases network; cases merchantData)
      (simp_all add: de details_zero_def details_wf_def ctx_is_def str_ok_def ptr_fits_def str_main_def c_str_def)
qed

lemma request_new_wf:
  assumes new: "BRPaymentProtocolDetailsNew testnet network outputs time expires memo paymentURL merchantData = Some d"
      "BRPaymentProtocolRequestNew version pkiType pkiData (Some d) signature = Some req"
    and str: "str_ok network" "str_ok memo" "str_ok paymentURL" "str_ok pkiType"
  shows "pr_details (counted req) = Some (d\<lparr>pd_outputs := []\<rparr>)" "request_wf testnet (counted req)"
proof -
  note d = details_new_counts(1) [OF new(1)] details_new_wf [OF new(1) str(1-3)]
  have req: "pr_details req = Some d" using new(2) by (auto simp: BRPaymentProtocolRequestNew_def bytes_arg_def Let_def)
  then show details: "pr_details (counted req) = Some (d\<lparr>pd_outputs := []\<rparr>)" by (simp add: counted_def d(1))
  have "counted req = req\<lparr>pr_details := Some (d\<lparr>pd_outputs := []\<rparr>)\<rparr>" using req by (simp add: counted_def d(1))
  then show "request_wf testnet (counted req)"
    using new(2) str(4) d(2) unfolding BRPaymentProtocolRequestNew_def
    by (cases pkiType; cases pkiData; cases signature)
      (auto simp: request_wf_def request_zero_def ctx_is_def bytes_arg_def ptr_fits_def str_ok_def c_str_def str_none_def Let_def)
qed


lemma field_image_length: "length (field_image (FInt k i)) \<le> 20" "length (field_image (FBytes k x)) \<le> 20 + length x"
  using pb_varint_at_most_10 [of "pb_key k 0"] pb_varint_at_most_10 [of i] pb_varint_at_most_10 [of "pb_key k 2"]
    pb_varint_at_most_10 [of "of_nat (length x)"] by (simp_all add: field_image.simps)

lemma fields_image_length:
  "length (fields_image (f # fs)) = length (field_image f) + length (fields_image fs)" "length (fields_image []) = 0"
  by (simp_all add: fields_image_simps)

text \<open>An example: details with an output that has no address, in a request without a certificate.\<close>

definition example_details :: BRPaymentProtocolDetails where
  "example_details = \<lparr>pd_network = Some str_main,
     pd_outputs = [(\<lparr>out_address = no_address, out_amount = 5000, out_script = Some [0x6a], out_scriptLen = 1\<rparr>,
       \<lparr>ctx_defaults = [False, False, False], ctx_unknown = None\<rparr>)],
     pd_outCount = 1, pd_time = 1500000000, pd_expires = 0, pd_memo = Some [0x74, 0x65, 0x61], pd_paymentURL = None,
     pd_merchantData = Some [1, 0], pd_merchDataLen = 2,
     pd_ctx = \<lparr>ctx_defaults = [False, True, False, False, True, False, False, False], ctx_unknown = None\<rparr>\<rparr>"

definition example_request :: BRPaymentProtocolRequest where
  "example_request = \<lparr>pr_version = 1, pr_pkiType = Some str_none, pr_pkiData = None, pr_pkiDataLen = 0,
     pr_details = Some example_details, pr_signature = None, pr_sigLen = 0,
     pr_ctx = \<lparr>ctx_defaults = [False, True, True, False, False, False], ctx_unknown = None\<rparr>\<rparr>"

lemma example_address: "pubkey_address testnet [0x6a] = no_address"
  by code_simp

lemma example_details_wf: "details_wf False example_details"
  by (simp add: details_wf_def example_details_def ctx_is_def output_wf.simps example_address str_main_def c_str_def str_ok_def
    ptr_fits_def)

lemma example_request_wf: "request_wf False example_request"
  by (simp add: request_wf_def example_request_def ctx_is_def example_details_wf str_none_def c_str_def ptr_fits_def)

lemma example_request_size: "length (fields_image (request_fields example_request)) < 300"
proof -
  let ?o = "[FInt 1 5000, FBytes 2 [0x6a]]"
  let ?d = "[FBytes 2 (fields_image ?o), FInt 3 1500000000, FBytes 5 [0x74, 0x65, 0x61], FBytes 7 [1, 0]]"
  have "length (fields_image ?o) \<le> 41"
    using field_image_length(1) [of 1 5000] field_image_length(2) [of 2 "[0x6a]"] by (simp add: fields_image_length)
  then have "length (fields_image ?d) \<le> 61 + 20 + 23 + 22"
    using field_image_length(2) [of 2 "fields_image ?o"] field_image_length(1) [of 3 1500000000]
      field_image_length(2) [of 5 "[0x74, 0x65, 0x61]"] field_image_length(2) [of 7 "[1, 0]"]
    by (simp add: fields_image_length)
  moreover have "request_fields example_request = [FBytes 4 (fields_image ?d)]"
    by (simp add: request_fields_def example_request_def details_fields_def example_details_def output_fields.simps
      str_field_def ptr_bytes_def)
  ultimately show ?thesis
    using field_image_length(2) [of 4 "fields_image ?d"] by (simp add: fields_image_length)
qed


text \<open>The same for an acknowledgement with the payment it contains, the transactions of the payment and its refund
  outputs.\<close>

theorem payment_ack_roundtrip:
  assumes "ack_wf testnet ack" "BRPaymentProtocolACKSerialize ack None = Some (n, m)" "n < 2 ^ 32" "n \<le> length buf"
  shows "\<exists>d. BRPaymentProtocolACKSerialize ack (Some buf) = Some (n, Some d) \<and> drop n d = drop n buf \<and>
    BRPaymentProtocolACKParse testnet (Some (take n d)) = Some (Some ack)"
proof -
  have e: "emits (BRPaymentProtocolACKSerialize ack) (fields_image (ack_fields ack))" by (rule ack_emits [OF assms(1)])
  then have n: "n = length (fields_image (ack_fields ack))" using assms(2) by (simp add: emits_def)
  show ?thesis
    using e assms(3,4) pb_ack.parses_buffer [OF assms(1)] unfolding BRPaymentProtocolACKParse_def
    by (simp add: emits_def n buffer_of [OF _ refl])
qed

lemma tx_image_hash [simp]: "tx_image (tx\<lparr>tx_hash := h\<rparr>) = tx_image tx"
  by (simp add: tx_image_def outputs_image_def)

lemma payment_ack_roundtrip_witness:
  "\<exists>ack n d. map_option (length \<circ> pp_transactions) (pa_payment ack) = Some 1 \<and>
    BRPaymentProtocolACKSerialize ack (Some (replicate 2000 0)) = Some (n, Some d) \<and>
    BRPaymentProtocolACKParse False (Some (take n d)) = Some (Some ack)"
proof -
  let ?s = "replicate 300 1 :: bytes"
  let ?i = "tx_input_zero\<lparr>in_txHash := 7, in_signature := Some ?s, in_sigLen := 300, in_address := sig_address False ?s\<rparr>"
  let ?p = "BR_TX_OUTPUT_NONE\<lparr>out_amount := 4000, out_script := Some [0x51], out_scriptLen := 1,
    out_address := pubkey_address False [0x51]\<rparr>"
  let ?t = "BRTransactionNew\<lparr>tx_inputs := [?i], tx_outputs := [?p]\<rparr>"
  let ?tx = "?t\<lparr>tx_hash := UInt256Get (BRSHA256_2 (tx_image ?t))\<rparr>"
  let ?q = "(payment_zero (new_ctx 4))\<lparr>pp_transactions := [?tx], pp_txCount := 1, pp_memo := Some [0x74]\<rparr>"
  let ?a = "\<lparr>pa_payment = Some ?q, pa_memo = None, pa_ctx = new_ctx 2\<rparr>"
  have "\<not> is_pubkey_script False ?s" using pubkey_script_short [of False ?s] by auto
  then have f: "tx_form False ?tx"
    by (simp add: tx_form_def signed_form_def output_form_def tx_input_zero_def BRTransactionNew_def)
  have "BRTransactionIsSigned ?tx" by (simp add: BRTransactionIsSigned_def BRTransactionNew_def)
  then have "parsed_tx False ?tx" unfolding parsed_tx_def using f by (simp only: tx_image_hash) (simp add: BRTransactionNew_def)
  then have wf: "ack_wf False ?a"
    by (simp add: ack_wf_def payment_wf_def payment_zero_def ctx_is_def ptr_fits_def str_ok_def c_str_def)
  have "length (tx_image ?t) \<le> 1000"
    by (simp add: tx_image_def outputs_image_def input_image_def output_image_def wire_input_def ptr_bytes_def
        varint_length tx_input_zero_def BRTransactionNew_def)
  then have "length (fields_image (payment_fields ?q)) \<le> 1100"
    using field_image_length(2) [of 2 "tx_image ?t"] field_image_length(2) [of 4 "[0x74]"]
    by (simp add: payment_fields_def payment_zero_def str_field_def fields_image_length)
  then have "length (fields_image (ack_fields ?a)) \<le> 1200"
    using field_image_length(2) [of 1 "fields_image (payment_fields ?q)"]
    by (simp add: ack_fields_def str_field_def fields_image_length)
  moreover have "BRPaymentProtocolACKSerialize ?a None = Some (length (fields_image (ack_fields ?a)), None)"
    using ack_emits [OF wf] by (simp add: emits_def)
  ultimately obtain n d where "BRPaymentProtocolACKSerialize ?a (Some (replicate 2000 0)) = Some (n, Some d)"
    "BRPaymentProtocolACKParse False (Some (take n d)) = Some (Some ?a)"
    using payment_ack_roundtrip [OF wf, of _ None "replicate 2000 0"] by fastforce
  then show ?thesis by (intro exI [of _ ?a]) (simp add: payment_zero_def)
qed

section \<open>What the constructor of details loses\<close>

text \<open>The constructor of details never counts the outputs it is given: what it serialises parses to the same details
  with no outputs, however many were asked for (strings without NUL, data below 4 GB).\<close>

theorem details_new_loses_outputs:
  assumes new: "BRPaymentProtocolDetailsNew testnet network outputs time expires memo paymentURL merchantData = Some d"
    and str: "str_ok network" "str_ok memo" "str_ok paymentURL"
    and n: "BRPaymentProtocolDetailsSerialize d None = Some (n, m)" "n < 2 ^ 32"
  shows "\<exists>x. BRPaymentProtocolDetailsSerialize d (Some (replicate n 0)) = Some (n, Some x) \<and>
    BRPaymentProtocolDetailsParse testnet (Some x) = Some (d\<lparr>pd_outputs := []\<rparr>) \<and> length (pd_outputs d) = length outputs"
proof -
  let ?d = "d\<lparr>pd_outputs := []\<rparr>"
  note d = details_new_counts [OF new] and wf = details_new_wf [OF new str]
  have "BRPaymentProtocolDetailsSerialize d = BRPaymentProtocolDetailsSerialize ?d"
    by (intro ext) (simp add: BRPaymentProtocolDetailsSerialize_def d)
  then have e: "emits (BRPaymentProtocolDetailsSerialize d) (fields_image (details_fields ?d))"
    using details_emits [OF wf] by simp
  then have l: "n = length (fields_image (details_fields ?d))" using n(1) by (simp add: emits_def)
  show ?thesis
    using e n(2) pb_details.parses_buffer [OF wf]
    by (simp add: emits_def l put_0 d(2) BRPaymentProtocolDetailsParse_def)
qed

text \<open>With every argument null and one output.\<close>

lemma details_new_loses_outputs_witness:
  "\<exists>d n x. BRPaymentProtocolDetailsNew False None [BR_TX_OUTPUT_NONE\<lparr>out_script := Some [0x6a], out_scriptLen := 1\<rparr>] 7 0
      None None None = Some d \<and> BRPaymentProtocolDetailsSerialize d (Some (replicate n 0)) = Some (n, Some x) \<and>
    map_option pd_outputs (BRPaymentProtocolDetailsParse False (Some x)) = Some [] \<and> length (pd_outputs d) = 1"
proof -
  let ?out = "BR_TX_OUTPUT_NONE\<lparr>out_script := Some [0x6a], out_scriptLen := 1\<rparr>"
  obtain d where d: "BRPaymentProtocolDetailsNew False None [?out] 7 0 None None None = Some d"
    by (simp add: BRPaymentProtocolDetailsNew_def bytes_arg_def BRPaymentProtocolOutput_def set_output_eq slice_def Let_def)
  then have "pd_outCount d = 0" "ctx_defaults (pd_ctx d) ! 1" "\<not> ctx_defaults (pd_ctx d) ! 3" "\<not> ctx_defaults (pd_ctx d) ! 4"
    "pd_memo d = None" "pd_paymentURL d = None" "pd_merchantData d = None" "ctx_unknown (pd_ctx d) = None"
    by (auto simp: BRPaymentProtocolDetailsNew_def bytes_arg_def BRPaymentProtocolOutput_def set_output_eq slice_def details_zero_def Let_def)
  then have "BRPaymentProtocolDetailsSerialize d = w_run [ProtoBufSetInt (pd_time d) 3, ProtoBufSetInt (pd_expires d) 4]"
    by (intro ext) (simp add: BRPaymentProtocolDetailsSerialize_def opt_string_def opt_bytes_def unknown_writers_def)
  then have "emits (BRPaymentProtocolDetailsSerialize d) (field_image (FInt 3 (pd_time d)) @ field_image (FInt 4 (pd_expires d)))"
    using emits_run [OF writes_Cons [OF writes_pb_int writes_last [OF writes_pb_int]]] by simp
  then obtain n where "BRPaymentProtocolDetailsSerialize d None = Some (n, None)" "n < 2 ^ 32"
    using field_image_length(1) [of 3 "pd_time d"] field_image_length(1) [of 4 "pd_expires d"] by (auto simp: emits_def)
  then show ?thesis
    using d details_new_loses_outputs [OF d] by (fastforce simp: str_ok_def)
qed

section \<open>A parser that does not return\<close>

lemma pb_field_null: "ProtoBufField None len off = Some (0, 0, None, len, off)"
  by (simp add: ProtoBufField_def ProtoBufVarInt_def)

lemma pb_loop_null:
  assumes "pb_loop h buf bufLen off s = Some y"
  shows "buf = None \<longrightarrow> bufLen \<le> off"
proof (rule pb_loop.raw_induct [of "\<lambda>h buf bufLen off s y. buf = None \<longrightarrow> bufLen \<le> off", OF _ assms])
  show "buf = None \<longrightarrow> bufLen \<le> off"
    if IH: "\<And>h buf bufLen off s y. loop h buf bufLen off s = Some y \<Longrightarrow> buf = None \<longrightarrow> bufLen \<le> off"
      and step: "(if off < bufLen then do {
         (key, i, data, dataLen, off) \<leftarrow> ProtoBufField buf bufLen off;
         s \<leftarrow> h key i data dataLen s;
         loop h buf bufLen off s } else Some s) = Some y"
    for loop h buf bufLen off s y
  proof
    assume "buf = None"
    then show "bufLen \<le> off"
      using step IH by (cases "off < bufLen") (auto simp: pb_field_null split: bind_splits)
  qed
qed

lemma output_parse_null: "len \<noteq> 0 \<Longrightarrow> BRPaymentProtocolOutputParse testnet None len = None"
  using pb_loop_null [of "output_field testnet" None len 0]
  by (auto simp: BRPaymentProtocolOutputParse_def word_le_nat_alt unat_eq_0 split: bind_splits)

text \<open>C39: Details whose output field is an integer, whatever it is and whatever follows, make the parser hang: the output
  parser is called without a pointer and with the length of the message, and never returns.\<close>

theorem details_parse_hangs:
  assumes "length rest < 2 ^ 31"
  shows "BRPaymentProtocolDetailsParse testnet (Some (field_image (FInt 2 i) @ rest)) = None"
proof -
  let ?f = "field_image (FInt 2 i)"
  let ?b = "?f @ rest"
  let ?l = "of_nat (length ?b) :: u64"
  have "length ?b < 2 ^ 64" using assms field_image_length(1) [of 2 i] by simp
  then have n: "unat ?l = length ?b" by (simp add: unat_of_nat del: length_append of_nat_add)
  have pos: "0 < ?l" "?l \<noteq> 0"
    using n unat_0 [where 'a = 64] by (metis append_is_Nil_conv field_image_nonempty length_0_conv word_gt_0)+
  have "ProtoBufField (Some (?b, 0)) ?l 0 = Some (pb_key 2 0, i, None, ?l, of_nat (length ?f))"
    using field_at [of ?b 0 0 "FInt 2 i" ?l] n by (simp add: at_def)
  then have "pb_loop (details_field testnet) (Some (?b, 0)) ?l 0 s = None" for s
    using pos by (subst pb_loop.simps) (simp add: details_field_def output_parse_null)
  then show ?thesis
    by (simp add: BRPaymentProtocolDetailsParse_def on_buffer_def whole_def details_at_def pb_parse_def)
qed

lemma details_parse_hangs_witness: "BRPaymentProtocolDetailsParse False (Some (field_image (FInt 2 0) @ [])) = None"
  by (rule details_parse_hangs) simp

end
