(* ===== verification/PaymentCrypto.thy ===== *)
theory PaymentCrypto
  imports PaymentSpec KeySpec CipherSpec
begin

text \<open>
  Encrypted payment messages: what they write and read, and that the message one party encrypts for another is
  authenticated and decrypted by the other one.
\<close>

section \<open>Public keys in messages\<close>

text \<open>The key that holds a public key only, as it is read from its encoding.\<close>

definition pub_key :: "('p, 's) secp256k1 \<Rightarrow> bool \<Rightarrow> 'p \<Rightarrow> BRKey" where
  "pub_key ec c p = BRKeyClean\<lparr>key_pubKey := put (replicate 65 0) 0 (ec_pubkey_serialize ec c p), key_compressed := c\<rparr>"

lemma set_pub_key: "ec_laws ec \<Longrightarrow> BRKeySetPubKey ec (ec_pubkey_serialize ec c p) = Some (True, pub_key ec c p)"
  using ec_lawsD(3,5) [of ec c p] by (cases c) (simp_all add: BRKeySetPubKey_def pub_key_def)

lemma pub_key_fill:
  assumes "ec_laws ec"
  shows "key_fill ec (pub_key ec c p) = (if c then 33 else 65, pub_key ec c p)"
    "take (if c then 33 else 65) (key_pubKey (pub_key ec c p)) = ec_pubkey_serialize ec c p" "key_secret (pub_key ec c p) = 0"
    "length (key_pubKey (pub_key ec c p)) = 65"
proof -
  let ?b = "ec_pubkey_serialize ec c p"
  have l: "length ?b = (if c then 33 else 65)" "?b ! 0 \<noteq> 0" using ec_lawsD(3,4) [OF assms] by auto
  then show t: "take (if c then 33 else 65) (key_pubKey (pub_key ec c p)) = ?b" by (simp add: pub_key_def put_0)
  have "?b \<noteq> replicate (if c then 33 else 65) 0" using l by (auto split: if_splits)
  then show "key_fill ec (pub_key ec c p) = (if c then 33 else 65, pub_key ec c p)"
    using t by (simp add: key_fill_def Let_def pub_key_def)
  show "key_secret (pub_key ec c p) = 0" "length (key_pubKey (pub_key ec c p)) = 65"
    using l by (simp_all add: pub_key_def BRKeyClean_def)
qed

lemma pubkey_of_eq:
  assumes "ec_laws ec" "key_fill ec key = (n, key')" "n \<le> 65" "length (key_pubKey key') = 65"
  shows "pubkey_of ec key = (take n (key_pubKey key'), key')"
  using assms by (simp add: pubkey_of_def BRKeyPubKey_def store_if_fits_def put_0 min_absorb2)

lemma pubkey_of_pub_key: "ec_laws ec \<Longrightarrow> pubkey_of ec (pub_key ec c p) = (ec_pubkey_serialize ec c p, pub_key ec c p)"
  using pubkey_of_eq [OF _ pub_key_fill(1), of ec c p] pub_key_fill(2,4) [of ec c p] by (cases c) simp_all

lemma pubkey_of_key:
  assumes "ec_laws ec" "key_ok ec key" "ec_pubkey_create ec (key_secret key) = Some p"
  obtains key' where "pubkey_of ec key = (ec_pubkey_serialize ec (key_compressed key) p, key')"
    "pubkey_of ec key' = (ec_pubkey_serialize ec (key_compressed key) p, key')" "key_ok ec key'"
    "key_secret key' = key_secret key" "key_compressed key' = key_compressed key"
proof -
  obtain key' where k: "key_fill ec key = (key_size key, key')" "key_fill ec key' = (key_size key, key')" "key_ok ec key'"
    "take (key_size key) (key_pubKey key') = ec_pubkey_serialize ec (key_compressed key) p"
    "key_secret key' = key_secret key" "key_compressed key' = key_compressed key"
    by (rule key_fill_public [OF assms])
  have "length (key_pubKey key') = 65" "key_size key \<le> 65" using k(3) by (simp_all add: key_ok_def key_size_def)
  then show thesis
    using pubkey_of_eq [OF assms(1) k(1)] pubkey_of_eq [OF assms(1) k(2)] k(3-) that by simp
qed

section \<open>Fields of an encrypted message\<close>

definition encrypted_fields :: "('p, 's) secp256k1 \<Rightarrow> BRPaymentProtocolEncryptedMessage \<Rightarrow> pfield list" where
  "encrypted_fields ec m = [FInt 1 (ucast (pe_msgType m)), FBytes 2 (the (pe_message m)),
     FBytes 3 (fst (pubkey_of ec (pe_receiverPubKey m))), FBytes 4 (fst (pubkey_of ec (pe_senderPubKey m))), FInt 5 (pe_nonce m)] @
     str_field (pe_signature m) 6 @ str_field (pe_identifier m) 7 @
     (if ctx_defaults (pe_ctx m) ! 8 then [] else [FInt 8 (pe_statusCode m)]) @ str_field (pe_statusMsg m) 9"

definition encrypted_wf :: "BRPaymentProtocolEncryptedMessage \<Rightarrow> bool" where
  "encrypted_wf m \<longleftrightarrow> (let ds = ctx_defaults (pe_ctx m) in
     ctx_is [False, False, False, False, False, False, False, False, ds ! 8, False] (pe_ctx m) \<and> pe_message m \<noteq> None \<and>
     ptr_fits (pe_message m) (pe_msgLen m) \<and> ptr_fits (pe_signature m) (pe_sigLen m) \<and> ptr_fits (pe_identifier m) (pe_identLen m) \<and>
     (ds ! 8 \<longrightarrow> pe_statusCode m = 0) \<and> str_ok (pe_statusMsg m))"

lemma encrypted_serialises:
  assumes "encrypted_wf m" "pubkey_of ec (pe_receiverPubKey m) = (rpk, pe_receiverPubKey m)"
    "pubkey_of ec (pe_senderPubKey m) = (spk, pe_senderPubKey m)"
  defines "x \<equiv> fields_image (encrypted_fields ec m)"
  shows "BRPaymentProtocolEncryptedMessageSerialize ec m None = Some (length x, None, m)"
    "length x \<le> length d \<Longrightarrow> BRPaymentProtocolEncryptedMessageSerialize ec m (Some d) = Some (length x, Some (put d 0 x), m)"
    "serialised_with (BRPaymentProtocolEncryptedMessageSerialize ec) m = Some (x, m)"
proof -
  obtain b where b: "pe_message m = Some b" "pe_msgLen m = length b"
    using assms(1) by (auto simp: encrypted_wf_def Let_def ptr_fits_def split: option.splits)
  have c: "ctx_unknown (pe_ctx m) = None" "ptr_fits (pe_signature m) (pe_sigLen m)" "ptr_fits (pe_identifier m) (pe_identLen m)"
    "str_ok (pe_statusMsg m)"
    using assms(1) by (auto simp: encrypted_wf_def Let_def dest: ctx_is_unknown)
  have bytes: "writes (ProtoBufSetBytes (Some y) (length y) k) (field_image (FBytes k y))" for y k
    using writes_pb_bytes [of "Some y" "length y" k] by (simp add: ptr_fits_def ptr_bytes_def)
  have five: "writes (w_all [u, v, w, y, z]) (fields_image [f1, f2, f3, f4, f5])"
    if "writes u (field_image f1)" "writes v (field_image f2)" "writes w (field_image f3)" "writes y (field_image f4)"
      "writes z (field_image f5)" for u v w y z f1 f2 f3 f4 f5
    using that by (simp add: fields_image_simps writes_Cons writes_Nil del: w_all.simps append_Nil2)
  let ?ws = "[ProtoBufSetInt (ucast (pe_msgType m)) 1, ProtoBufSetBytes (pe_message m) (pe_msgLen m) 2,
      ProtoBufSetBytes (Some rpk) (length rpk) 3, ProtoBufSetBytes (Some spk) (length spk) 4, ProtoBufSetInt (pe_nonce m) 5] @
    opt_bytes (pe_signature m) (pe_sigLen m) 6 @ opt_bytes (pe_identifier m) (pe_identLen m) 7 @
    (if ctx_defaults (pe_ctx m) ! 8 then [] else [ProtoBufSetInt (pe_statusCode m) 8]) @
    opt_string (pe_statusMsg m) 9 @ unknown_writers (pe_ctx m)"
  have e: "emits (w_run ?ws) x"
    unfolding x_def encrypted_fields_def assms(2,3) fst_conv b option.sel
    by (intro emits_run writes_fields [OF five] writes_pb_int bytes writes_message c)
  have "BRPaymentProtocolEncryptedMessageSerialize ec m buf = map_option (\<lambda>(n, b). (n, b, m)) (w_run ?ws buf)" for buf
    unfolding BRPaymentProtocolEncryptedMessageSerialize_def assms(2,3) Let_def prod.case by simp
  then show n: "BRPaymentProtocolEncryptedMessageSerialize ec m None = Some (length x, None, m)"
    and d: "length x \<le> length d \<Longrightarrow> BRPaymentProtocolEncryptedMessageSerialize ec m (Some d) = Some (length x, Some (put d 0 x), m)" for d
    using e by (simp_all add: emits_def)
  show "serialised_with (BRPaymentProtocolEncryptedMessageSerialize ec) m = Some (x, m)"
    by (simp add: serialised_with_def n d put_0)
qed

lemma encrypted_parses:
  assumes ec: "ec_laws ec" and wf: "encrypted_wf m"
    and rk: "pe_receiverPubKey m = pub_key ec rc rp" and sk: "pe_senderPubKey m = pub_key ec sc sp"
    and a: "at b pos (fields_image (encrypted_fields ec m))" and l: "length (fields_image (encrypted_fields ec m)) < 2 ^ 32"
  shows "encrypted_at ec (Some (b, pos)) (of_nat (length (fields_image (encrypted_fields ec m)))) = Some (Some m)"
proof -
  let ?rpk = "ec_pubkey_serialize ec rc rp" and ?spk = "ec_pubkey_serialize ec sc sp"
  obtain x d8 where x: "pe_message m = Some x" "pe_msgLen m = length x"
    and c: "pe_ctx m = \<lparr>ctx_defaults = [False, False, False, False, False, False, False, False, d8, False], ctx_unknown = None\<rparr>"
    and w: "ptr_fits (pe_signature m) (pe_sigLen m)" "ptr_fits (pe_identifier m) (pe_identLen m)" "d8 \<Longrightarrow> pe_statusCode m = 0"
    using wf by (auto simp: encrypted_wf_def Let_def ctx_is_def ptr_fits_def split: option.splits)
  have key: "takes (encrypted_field ec) (FBytes 3 ?rpk) (n, g1, g2, g3, g4) (n\<lparr>pe_receiverPubKey := pe_receiverPubKey m\<rparr>, g1, True, g3, g4)"
    "takes (encrypted_field ec) (FBytes 4 ?spk) (n, g1, g2, g3, g4) (n\<lparr>pe_senderPubKey := pe_senderPubKey m\<rparr>, g1, g2, True, g4)"
    for n g1 g2 g3 g4
    by (simp_all add: encrypted_field_def key_field_def pb_copy_at set_pub_key [OF ec] rk sk)
  let ?h = "encrypted_field ec"
  let ?z = "encrypted_zero (set_default 8 True (new_ctx 9))"
  let ?s1 = "?z\<lparr>pe_msgType := pe_msgType m\<rparr>"
  let ?s2 = "?s1\<lparr>pe_message := Some x, pe_msgLen := length x\<rparr>"
  let ?s3 = "?s2\<lparr>pe_receiverPubKey := pe_receiverPubKey m\<rparr>"
  let ?s4 = "?s3\<lparr>pe_senderPubKey := pe_senderPubKey m\<rparr>"
  let ?s5 = "?s4\<lparr>pe_nonce := pe_nonce m\<rparr>"
  let ?s6 = "?s5\<lparr>pe_signature := pe_signature m, pe_sigLen := pe_sigLen m\<rparr>"
  let ?s7 = "?s6\<lparr>pe_identifier := pe_identifier m, pe_identLen := pe_identLen m\<rparr>"
  let ?s8 = "?s7\<lparr>pe_statusCode := pe_statusCode m, pe_ctx := set_default 8 d8 (pe_ctx ?s7)\<rparr>"
  let ?s9 = "?s8\<lparr>pe_statusMsg := pe_statusMsg m\<rparr>"
  note h = encrypted_field_def encrypted_zero_def
  have f1: "takes ?h (FInt 1 (ucast (pe_msgType m))) (?z, False, False, False, False) (?s1, True, False, False, False)"
    by (simp add: h)
  have f2: "takes ?h (FBytes 2 x) (?s1, True, False, False, False) (?s2, True, False, False, False)"
    by (simp add: h pb_bytes_at)
  have f5: "takes ?h (FInt 5 (pe_nonce m)) (?s4, True, True, True, False) (?s5, True, True, True, True)" by (simp add: h)
  note r5 = reads_Cons [OF f1 reads_Cons [OF f2 reads_Cons [OF key(1) reads_Cons [OF key(2) reads_one [OF f5]]]]]
  have r6: "reads ?h (str_field (pe_signature m) 6) (?s5, True, True, True, True) (?s6, True, True, True, True)"
    using w(1) by (intro reads_str) (simp_all add: h pb_bytes_at ptr_fits_def)
  have r7: "reads ?h (str_field (pe_identifier m) 7) (?s6, True, True, True, True) (?s7, True, True, True, True)"
    using w(2) by (intro reads_str) (simp_all add: h pb_bytes_at ptr_fits_def)
  have r8: "reads ?h (if d8 then [] else [FInt 8 (pe_statusCode m)]) (?s7, True, True, True, True) (?s8, True, True, True, True)"
    using w(3) by (intro reads_unless) (simp_all add: h)
  have r9: "reads ?h (str_field (pe_statusMsg m) 9) (?s8, True, True, True, True) (?s9, True, True, True, True)"
    by (intro reads_str) (simp_all add: h pb_string_at)
  note all = reads_append [OF r5 reads_append [OF r6 reads_append [OF r7 reads_append [OF r8 r9]]]]
  have pk: "fst (pubkey_of ec (pe_receiverPubKey m)) = ?rpk" "fst (pubkey_of ec (pe_senderPubKey m)) = ?spk"
    by (simp_all add: rk sk pubkey_of_pub_key [OF ec])
  have r: "reads ?h (encrypted_fields ec m) (?z, False, False, False, False) (?s9, True, True, True, True)"
    using all unfolding encrypted_fields_def pk x(1) option.sel by (simp add: c)
  show ?thesis
    unfolding encrypted_at_def pb_parse_reads [OF r a l] bind.bind_lunit
    using x c by (cases m) (simp add: encrypted_zero_def)
qed

section \<open>The shared secret\<close>

text \<open>Key and nonce of the cipher, from the encoding of the point that both parties compute.\<close>

definition shared_cek :: "bytes \<Rightarrow> u64 \<Rightarrow> bytes \<times> bytes" where
  "shared_cek point nonce =
     (let (cek, K, V) = BRHMACDRBG (replicate 32 0) [] [] BRSHA256 32 (Some (BRSHA512 (take 32 (drop 1 point)))) (Some (UInt64SetBE nonce)) None;
          (iv, _, _) = BRHMACDRBG (replicate 12 0) K V BRSHA256 32 None None None
      in (cek, iv))"

lemma ecdh_point:
  assumes "ec_laws ec" "ec_pubkey_tweak_mul ec q (key_secret key) = Some r"
  shows "BRECDH ec key (pub_key ec True q) = Some (take 32 (drop 1 (ec_pubkey_serialize ec True r)), pub_key ec True q)"
proof -
  have "length (ec_pubkey_serialize ec True q) = 33" using ec_lawsD(3) [OF assms(1)] by simp
  moreover from this have "ec_pubkey_serialize ec True q \<noteq> []" by auto
  ultimately show ?thesis
    using assms(2) ec_lawsD(5) [OF assms(1)]
    by (simp add: BRECDH_def pubkey_of_pub_key [OF assms(1)] BRSecp256k1PointMul_def)
qed

lemma serialize_inj: "ec_laws ec \<Longrightarrow> ec_pubkey_serialize ec c p = ec_pubkey_serialize ec c q \<longleftrightarrow> p = q"
  using ec_lawsD(5) by (metis option.inject)

lemma cek_sender:
  assumes "ec_laws ec" "pubkey_of ec key = (ec_pubkey_serialize ec True p, key')" "p \<noteq> q"
    "pe_receiverPubKey m = pub_key ec True q" "ec_pubkey_tweak_mul ec q (key_secret key') = Some r"
  shows "EncryptedMessageCEK ec m key = (let (cek, iv) = shared_cek (ec_pubkey_serialize ec True r) (pe_nonce m) in Some (cek, iv, m, key'))"
proof -
  have m: "m\<lparr>pe_receiverPubKey := pub_key ec True q\<rparr> = m" using assms(4) by (cases m) simp
  show ?thesis
    using assms(3,4) by (simp add: EncryptedMessageCEK_def assms(2) pubkey_of_pub_key [OF assms(1)] serialize_inj [OF assms(1)] m
      ecdh_point [OF assms(1,5)] shared_cek_def Let_def split: prod.splits)
qed

lemma cek_receiver:
  assumes "ec_laws ec" "pubkey_of ec key = (ec_pubkey_serialize ec True q, key')"
    "pe_receiverPubKey m = pub_key ec True q" "pe_senderPubKey m = pub_key ec True p"
    "ec_pubkey_tweak_mul ec p (key_secret key') = Some r"
  shows "EncryptedMessageCEK ec m key = (let (cek, iv) = shared_cek (ec_pubkey_serialize ec True r) (pe_nonce m) in Some (cek, iv, m, key'))"
proof -
  have m: "m\<lparr>pe_receiverPubKey := pub_key ec True q\<rparr> = m" "m\<lparr>pe_senderPubKey := pub_key ec True p\<rparr> = m"
    using assms(3,4) by (cases m, simp)+
  show ?thesis
    using assms(3,4) by (simp add: EncryptedMessageCEK_def assms(2) pubkey_of_pub_key [OF assms(1)] m
      ecdh_point [OF assms(1,5)] shared_cek_def Let_def split: prod.splits)
qed

section \<open>Signatures of messages\<close>

text \<open>The digest does not depend on the signature, of which no byte is serialised.\<close>

lemma encrypted_digest_unsigned:
  assumes "ec_laws ec" "encrypted_wf m" "pe_receiverPubKey m = pub_key ec rc rp" "pe_senderPubKey m = pub_key ec sc sp"
    "pe_signature m = Some s"
  defines "u \<equiv> m\<lparr>pe_signature := Some [], pe_sigLen := 0\<rparr>"
  shows "encrypted_digest ec u = Some (UInt256Get (BRSHA256 (fields_image (encrypted_fields ec u))), u)"
    "encrypted_digest ec (m\<lparr>pe_sigLen := 0\<rparr>) = Some (UInt256Get (BRSHA256 (fields_image (encrypted_fields ec u))), m\<lparr>pe_sigLen := 0\<rparr>)"
proof -
  have wf: "encrypted_wf u" using assms(2) by (simp add: u_def encrypted_wf_def Let_def ptr_fits_def)
  have pk: "pubkey_of ec (pe_receiverPubKey u) = (ec_pubkey_serialize ec rc rp, pe_receiverPubKey u)"
    "pubkey_of ec (pe_senderPubKey u) = (ec_pubkey_serialize ec sc sp, pe_senderPubKey u)"
    using assms(3,4) by (simp_all add: u_def pubkey_of_pub_key [OF assms(1)])
  note S = encrypted_serialises [OF wf pk]
  let ?x = "fields_image (encrypted_fields ec u)"
  have "w_ptr (Some s) 0 st = w_ptr (Some []) 0 st" for st
    by (cases st; cases "fst st") (simp_all add: w_ptr_def slice_def)
  then have w: "w_ptr (Some s) 0 = w_ptr (Some []) 0" by (rule ext)
  have "opt_bytes (Some s) 0 6 = opt_bytes (Some []) 0 6"
    by (simp add: opt_bytes_def ProtoBufSetBytes_def ProtoBufSetLenDelim_def w)
  then have "BRPaymentProtocolEncryptedMessageSerialize ec (m\<lparr>pe_sigLen := 0\<rparr>) buf =
      map_option (\<lambda>(n, b, _). (n, b, m\<lparr>pe_sigLen := 0\<rparr>)) (BRPaymentProtocolEncryptedMessageSerialize ec u buf)" for buf
    using assms(3-5) by (cases m) (simp add: BRPaymentProtocolEncryptedMessageSerialize_def u_def pubkey_of_pub_key [OF assms(1)]
      option.map_comp comp_def case_prod_unfold Let_def)
  then have "serialised_with (BRPaymentProtocolEncryptedMessageSerialize ec) (m\<lparr>pe_sigLen := 0\<rparr>) = Some (?x, m\<lparr>pe_sigLen := 0\<rparr>)"
    by (simp add: serialised_with_def S(1,2) put_0)
  then show "encrypted_digest ec u = Some (UInt256Get (BRSHA256 ?x), u)"
    "encrypted_digest ec (m\<lparr>pe_sigLen := 0\<rparr>) = Some (UInt256Get (BRSHA256 ?x), m\<lparr>pe_sigLen := 0\<rparr>)"
    by (simp_all add: encrypted_digest_def S(3))
qed

section \<open>From one party to the other\<close>

lemma encrypt_length:
  assumes "length data div 64 < UINT32_MAX"
  obtains x where "BRChacha20Poly1305AEADEncrypt (Some (replicate (length data + 16) 0)) key nonce data ad = (length data + 16, Some x)"
    "length x = length data + 16"
proof -
  let ?o = "replicate (length data + 16) 0 :: bytes"
  let ?c = "take (length data) (BRChacha20 ?o key (drop 4 nonce) data (aead_counter nonce + 1))"
  have "length ?c = length data" using assms by (simp add: chacha20_correct)
  then show thesis
    using that aead_encrypt_eq [of data ?o key nonce ad] assms by (simp add: Let_def)
qed

text \<open>What the sender makes of a message: the encrypted text, the public keys of both, and a signature of all.\<close>

lemma encrypted_new:
  assumes ec: "ec_laws ec" and send: "key_ok ec sender" "key_compressed sender" "ec_pubkey_create ec (key_secret sender) = Some p"
    and pq: "p \<noteq> q" and r: "ec_pubkey_tweak_mul ec q (key_secret sender) = Some r"
    and len: "length message div 64 < UINT32_MAX" and str: "str_ok statusMsg"
  obtains m sealed sig sender' where
    "BRPaymentProtocolEncryptedMessageNew ec testnet msgType message (pub_key ec True q) sender nonce ident statusCode statusMsg =
      Some (m, pub_key ec True q, sender')"
    "encrypted_wf m" "pe_receiverPubKey m = pub_key ec True q" "pe_senderPubKey m = pub_key ec True p"
    "pe_nonce m = nonce" "pe_statusCode m = statusCode" "pe_statusMsg m = statusMsg" "\<not> ctx_defaults (pe_ctx m) ! 8"
    "pe_message m = Some sealed" "pe_msgLen m = length message + 16" "length sealed = length message + 16"
    "(case shared_cek (ec_pubkey_serialize ec True r) nonce of (cek, iv) \<Rightarrow>
      BRChacha20Poly1305AEADEncrypt (Some (replicate (length message + 16) 0)) cek iv message (status_ad statusCode statusMsg)) =
        (length message + 16, Some sealed)"
    "pe_signature m = Some sig" "pe_sigLen m = length sig"
    "\<exists>s md. encrypted_digest ec (m\<lparr>pe_sigLen := 0\<rparr>) = Some (md, m\<lparr>pe_sigLen := 0\<rparr>) \<and>
      ec_signature_parse_der ec sig = Some s \<and> ec_verify ec s md p"
proof -
  note L = ec_lawsD [OF ec]
  obtain sender' where k: "pubkey_of ec sender = (ec_pubkey_serialize ec True p, sender')"
    "pubkey_of ec sender' = (ec_pubkey_serialize ec True p, sender')" "key_secret sender' = key_secret sender"
    by (rule pubkey_of_key [OF ec send(1,3)]) (simp add: send(2))
  obtain cek iv where cek: "shared_cek (ec_pubkey_serialize ec True r) nonce = (cek, iv)"
    by (cases "shared_cek (ec_pubkey_serialize ec True r) nonce")
  obtain x where x: "BRChacha20Poly1305AEADEncrypt (Some (replicate (length message + 16) 0)) cek iv message (status_ad statusCode statusMsg) =
      (length message + 16, Some x)" "length x = length message + 16"
    by (rule encrypt_length [OF len])
  let ?identLen = "case ident of None \<Rightarrow> 0 | Some b \<Rightarrow> length b"
  let ?z = "(encrypted_zero (new_ctx 9))\<lparr>pe_msgType := msgType, pe_receiverPubKey := pub_key ec True q, pe_senderPubKey := pub_key ec True p,
       pe_nonce := nonce, pe_identifier := ident, pe_identLen := ?identLen, pe_statusCode := statusCode, pe_statusMsg := statusMsg\<rparr>"
  let ?u = "?z\<lparr>pe_message := Some x, pe_msgLen := length message + 16, pe_signature := Some []\<rparr>"
  have wf0: "encrypted_wf ?u"
    using x(2) str by (cases ident) (simp_all add: encrypted_wf_def encrypted_zero_def ctx_is_def ptr_fits_def)
  have u: "?u\<lparr>pe_signature := Some [], pe_sigLen := 0\<rparr> = ?u" by (simp add: encrypted_zero_def)
  let ?md = "UInt256Get (BRSHA256 (fields_image (encrypted_fields ec ?u)))"
  have digest: "encrypted_digest ec ?u = Some (?md, ?u)"
    using encrypted_digest_unsigned(1) [OF ec wf0, of True q True p "[]"] unfolding u by simp
  obtain s where s: "ec_sign ec ?md (key_secret sender') = Some s" "length (ec_signature_der ec s) \<le> 72"
    "ec_signature_parse_der ec (ec_signature_der ec s) = Some s" "ec_verify ec s ?md p"
    using L(8) [OF send(3), of ?md] unfolding k(3) by blast
  let ?d = "ec_signature_der ec s"
  have sign: "BRKeySign ec sender' (Some (replicate 73 0)) ?md = Some (length ?d, Some (put (replicate 73 0) 0 ?d))"
    using s(1,2) by (simp add: BRKeySign_def store_if_fits_def)
  let ?m = "?u\<lparr>pe_signature := Some ?d, pe_sigLen := length ?d\<rparr>"
  have "\<not> ec_seckey_verify ec 0" using L(1,2) by simp
  then have priv: "fst (BRKeyPrivKey ec testnet (pub_key ec True q) None) = 0"
    by (simp add: BRKeyPrivKey_def pub_key_fill(3) [OF ec])
  have ce: "EncryptedMessageCEK ec ?z sender' = Some (cek, iv, ?z, sender')"
    using cek_sender [OF ec k(2) pq, of ?z r] r k(3) cek by simp
  have "BRPaymentProtocolEncryptedMessageNew ec testnet msgType message (pub_key ec True q) sender nonce ident statusCode statusMsg =
      Some (?m, pub_key ec True q, sender')"
    unfolding BRPaymentProtocolEncryptedMessageNew_def pubkey_of_pub_key [OF ec] k(1) Let_def prod.case set_pub_key [OF ec]
      bind.bind_lunit bytes_arg_def priv simp_thms if_False ce x(1) option.sel take_all [OF eq_refl [OF x(2)]] digest sign
    by (simp add: put_0)
  moreover have e: "?m\<lparr>pe_signature := Some [], pe_sigLen := 0\<rparr> = ?u" by (simp add: encrypted_zero_def)
  have wf: "encrypted_wf ?m" using wf0 by (simp add: encrypted_wf_def Let_def ptr_fits_def)
  then have "encrypted_digest ec (?m\<lparr>pe_sigLen := 0\<rparr>) = Some (?md, ?m\<lparr>pe_sigLen := 0\<rparr>)"
    using encrypted_digest_unsigned(2) [OF ec wf, of True q True p ?d] unfolding e by simp
  ultimately show thesis
    using that [of ?m sender' x ?d] wf x s cek by (simp add: encrypted_zero_def)
qed

text \<open>C12: A message encrypted by a sender with a private key for the public key of a receiver is serialised and parsed
  without change, its signature is verified with the public key of the sender, and the receiver decrypts it with the
  private key to the message and its exact length, when the two ways to compute the shared point agree (the keys are in
  compressed form and different).\<close>

theorem encrypted_message_opens:
  assumes ec: "ec_laws ec"
    and send: "key_ok ec sender" "key_compressed sender" "ec_pubkey_create ec (key_secret sender) = Some p"
    and recv: "key_ok ec receiver" "key_compressed receiver" "ec_pubkey_create ec (key_secret receiver) = Some q"
    and pq: "p \<noteq> q" and shared: "ec_pubkey_tweak_mul ec q (key_secret sender) = Some r" "ec_pubkey_tweak_mul ec p (key_secret receiver) = Some r"
    and len: "length message div 64 < UINT32_MAX" and str: "str_ok statusMsg" and out: "length message \<le> length out"
  shows "\<exists>m sender' n. BRPaymentProtocolEncryptedMessageNew ec testnet msgType message (pub_key ec True q) sender nonce ident statusCode statusMsg =
      Some (m, pub_key ec True q, sender') \<and>
    BRPaymentProtocolEncryptedMessageSerialize ec m None = Some (n, None, m) \<and>
    (n < 2 ^ 32 \<longrightarrow> (\<exists>x. BRPaymentProtocolEncryptedMessageSerialize ec m (Some (replicate n 0)) = Some (n, Some x, m) \<and>
      BRPaymentProtocolEncryptedMessageParse ec (Some x) = Some (Some m))) \<and>
    BRPaymentProtocolEncryptedMessageVerify ec m (pub_key ec True p) = Some (True, m, pub_key ec True p) \<and>
    (\<exists>receiver'. BRPaymentProtocolEncryptedMessageDecrypt ec m (Some out) receiver =
      Some (length message, Some (message @ drop (length message) out), m, receiver'))"
proof -
  obtain m sealed sig sender' s md where new: "BRPaymentProtocolEncryptedMessageNew ec testnet msgType message (pub_key ec True q) sender
      nonce ident statusCode statusMsg = Some (m, pub_key ec True q, sender')"
    and wf: "encrypted_wf m" and pk: "pe_receiverPubKey m = pub_key ec True q" "pe_senderPubKey m = pub_key ec True p"
    and m: "pe_nonce m = nonce" "pe_statusCode m = statusCode" "pe_statusMsg m = statusMsg" "\<not> ctx_defaults (pe_ctx m) ! 8"
      "pe_message m = Some sealed" "pe_msgLen m = length message + 16" "length sealed = length message + 16"
    and enc: "(case shared_cek (ec_pubkey_serialize ec True r) nonce of (cek, iv) \<Rightarrow>
      BRChacha20Poly1305AEADEncrypt (Some (replicate (length message + 16) 0)) cek iv message (status_ad statusCode statusMsg)) =
        (length message + 16, Some sealed)"
    and sig: "pe_signature m = Some sig" "pe_sigLen m = length sig" "encrypted_digest ec (m\<lparr>pe_sigLen := 0\<rparr>) = Some (md, m\<lparr>pe_sigLen := 0\<rparr>)"
      "ec_signature_parse_der ec sig = Some s" "ec_verify ec s md p"
    by (rule encrypted_new [OF ec send pq shared(1) len str]) blast
  let ?x = "fields_image (encrypted_fields ec m)"
  have pks: "pubkey_of ec (pe_receiverPubKey m) = (ec_pubkey_serialize ec True q, pe_receiverPubKey m)"
    "pubkey_of ec (pe_senderPubKey m) = (ec_pubkey_serialize ec True p, pe_senderPubKey m)"
    by (simp_all add: pk pubkey_of_pub_key [OF ec])
  note S = encrypted_serialises [OF wf pks]
  have parse: "BRPaymentProtocolEncryptedMessageParse ec (Some ?x) = Some (Some m)" if "length ?x < 2 ^ 32"
    using encrypted_parses [OF ec wf pk _ that, of ?x 0]
    by (simp add: BRPaymentProtocolEncryptedMessageParse_def on_buffer_def whole_def at_def)
  have m0: "m\<lparr>pe_sigLen := 0, pe_sigLen := pe_sigLen m\<rparr> = m" by (cases m) simp
  have "length (ec_pubkey_serialize ec True p) = 33" using ec_lawsD(3) [OF ec] by simp
  then have "BRKeyVerify ec (pub_key ec True p) md sig = (True, pub_key ec True p)"
    using sig(4,5) ec_lawsD(5) [OF ec] pub_key_fill [OF ec, of True p]
    by (simp add: BRKeyVerify_def BRKeyPubKey_def store_if_fits_def)
  then have verify: "BRPaymentProtocolEncryptedMessageVerify ec m (pub_key ec True p) = Some (True, m, pub_key ec True p)"
    unfolding BRPaymentProtocolEncryptedMessageVerify_def using sig(1-3) m0 by (simp add: slice_def)
  obtain receiver' where k: "pubkey_of ec receiver = (ec_pubkey_serialize ec True q, receiver')" "key_secret receiver' = key_secret receiver"
    by (rule pubkey_of_key [OF ec recv(1,3)]) (simp add: recv(2))
  obtain cek iv where cek: "shared_cek (ec_pubkey_serialize ec True r) nonce = (cek, iv)"
    by (cases "shared_cek (ec_pubkey_serialize ec True r) nonce")
  have "EncryptedMessageCEK ec m receiver = Some (cek, iv, m, receiver')"
    using cek_receiver [OF ec k(1) pk, of r] shared(2) k(2) cek m(1) by simp
  moreover have "BRChacha20Poly1305AEADDecrypt (Some out) cek iv sealed (status_ad statusCode statusMsg) =
      (length message, Some (message @ drop (length message) out))"
    using aead_open_seal [of message "replicate (length message + 16) 0" out cek iv "status_ad statusCode statusMsg"] out len enc cek m(7)
    by auto
  ultimately have "BRPaymentProtocolEncryptedMessageDecrypt ec m (Some out) receiver =
      Some (length message, Some (message @ drop (length message) out), m, receiver')"
    using m by (simp add: BRPaymentProtocolEncryptedMessageDecrypt_def slice_def)
  then show ?thesis using new S(1,2) parse verify by (auto simp: put_0)
qed

lemma encrypted_message_opens_witness:
  "\<exists>m s. BRPaymentProtocolEncryptedMessageNew toy_ec False 1 [0x68, 0x69] (pub_key toy_ec True 7) toy_key 1 None 0 None =
      Some (m, pub_key toy_ec True 7, s) \<and>
    fst (the (BRPaymentProtocolEncryptedMessageVerify toy_ec m (pub_key toy_ec True 5))) \<and>
    fst (the (BRPaymentProtocolEncryptedMessageDecrypt toy_ec m (Some [0, 0]) (BRKeyClean\<lparr>key_secret := 7, key_compressed := True\<rparr>))) = 2"
proof -
  let ?r = "BRKeyClean\<lparr>key_secret := 7, key_compressed := True\<rparr>"
  have "key_ok toy_ec ?r" using set_secret_ok [of toy_ec 7 True] by (simp add: BRKeySetSecret_def toy_key_def)
  moreover have "ec_pubkey_create toy_ec (key_secret toy_key) = Some 5" "ec_pubkey_create toy_ec (key_secret ?r) = Some 7"
    "ec_pubkey_tweak_mul toy_ec 7 (key_secret toy_key) = Some 35" "ec_pubkey_tweak_mul toy_ec 5 (key_secret ?r) = Some 35"
    "key_compressed toy_key" "key_compressed ?r"
    by (simp_all add: toy_ec_def toy_key_def)
  ultimately show ?thesis
    using encrypted_message_opens [OF toy_ec_laws toy_key_ok, of 5 ?r 7 35 "[0x68, 0x69]" None "[0, 0]" False 1 1 None 0]
    by (fastforce simp: UINT32_MAX_def str_ok_def)
qed

end
