(* ===== verification/Peer.thy ===== *)
theory Peer
  imports Transaction
begin

text \<open>
  \<^verbatim>\<open>BRPeer.c\<close>: one connection of the network. The record is the C struct without its times and without the
  host name; the hash set of known transactions is the mathematical set that it refines. What leaves the peer is
  recorded in the order it leaves: the frames handed to the socket and the calls of the callbacks. A callback may
  change the peer (the peer manager sends from within them), and the environment says how. The bytes of a message
  are those the header announces; what lies behind them in the buffer is left over from earlier messages, and a
  read there is \<open>None\<close>.
\<close>

unbundle bit_operations_syntax

section \<open>State\<close>

record BRPeer =
  p_address :: uint128
  p_port :: u16
  p_services :: u64
  p_timestamp :: u64

datatype BRPeerStatus = BRPeerStatusDisconnected | BRPeerStatusConnecting | BRPeerStatusConnected

text \<open>What \<open>errno\<close> says; the numbers depend on the platform.\<close>

datatype peer_error = NoError | ECONNRESET | ETIMEDOUT | EPROTO | EINPROGRESS | ENOMEM | OtherError int

text \<open>The calls of the callbacks; those of a ping or of the memory pool are known by a number.\<close>

datatype peer_event =
    PeerConnected
  | PeerDisconnected peer_error
  | PeerRelayedPeers "BRPeer list"
  | PeerRelayedTx BRTransaction
  | PeerHasTx uint256
  | PeerRejectedTx uint256 u8
  | PeerRelayedBlock BRMerkleBlock
  | PeerNotfound "uint256 list" "uint256 list"
  | PeerSetFee u64
  | PeerPong nat bool
  | PeerMempool nat bool

record BRPeerContext =
  pc_peer :: BRPeer
  pc_status :: BRPeerStatus
  pc_waitingForNetwork :: bool
  pc_needsFilterUpdate :: bool
  pc_nonce :: u64
  pc_feePerKb :: u64
  pc_useragent :: bytes
  pc_version :: u32
  pc_lastblock :: u32
  pc_earliestKeyTime :: u32
  pc_currentBlockHeight :: u32
  pc_sentVerack :: bool
  pc_gotVerack :: bool
  pc_sentGetaddr :: bool
  pc_sentFilter :: bool
  pc_sentGetdata :: bool
  pc_sentMempool :: bool
  pc_sentGetblocks :: bool
  pc_lastBlockHash :: uint256
  pc_currentBlock :: "BRMerkleBlock option"
  pc_currentBlockTxHashes :: "uint256 list"
  pc_knownBlockHashes :: "uint256 list"
  pc_knownTxHashes :: "uint256 list"
  pc_knownTxHashSet :: "uint256 set"
  pc_open :: bool
  pc_pongs :: "nat option list"
  pc_mempool :: "nat option"
  pc_sent :: "bytes list"
  pc_events :: "peer_event list"

text \<open>The network, the clock, which callbacks are set and what they do to the peer, the callback that has the requested
  transactions, after how many bytes the socket fails to take a frame (\<open>None\<close> when it takes it whole), whether
  \<open>realloc\<close> moves the array of known hashes, the random nonce, and whether the type field of a header that was not
  read ends in a byte other than zero.\<close>

record peer_env =
  nv_testnet :: bool
  nv_now :: u64
  nv_set :: "peer_event \<Rightarrow> bool"
  nv_call :: "peer_event \<Rightarrow> BRPeerContext \<Rightarrow> BRPeerContext"
  nv_requested :: "(uint256 \<Rightarrow> BRPeerContext \<Rightarrow> BRTransaction option \<times> BRPeerContext) option"
  nv_fails :: "BRPeerContext \<Rightarrow> bytes \<Rightarrow> nat option"
  nv_moved :: "uint256 list \<Rightarrow> bool"
  nv_nonce :: u64
  nv_stale :: bool

definition fire :: "peer_env \<Rightarrow> peer_event \<Rightarrow> BRPeerContext \<Rightarrow> BRPeerContext" where
  "fire env ev p = nv_call env ev (p\<lparr>pc_events := pc_events p @ [ev]\<rparr>)"

text \<open>\<open>if (ctx->callback) ctx->callback(...)\<close>\<close>

definition notify :: "peer_env \<Rightarrow> peer_event \<Rightarrow> BRPeerContext \<Rightarrow> BRPeerContext" where
  "notify env ev p = (if nv_set env ev then fire env ev p else p)"

definition str_bytes :: "string \<Rightarrow> bytes" where
  "str_bytes s = map of_char s"

abbreviation HEADER_LENGTH :: nat where "HEADER_LENGTH \<equiv> 24"
abbreviation MAX_MSG_LENGTH :: nat where "MAX_MSG_LENGTH \<equiv> 0x02000000"
abbreviation MAX_GETDATA_HASHES :: nat where "MAX_GETDATA_HASHES \<equiv> 50000"
abbreviation PROTOCOL_VERSION :: u32 where "PROTOCOL_VERSION \<equiv> 70013"
abbreviation MIN_PROTO_VERSION :: u32 where "MIN_PROTO_VERSION \<equiv> 70002"
abbreviation ENABLED_SERVICES :: u64 where "ENABLED_SERVICES \<equiv> 0"
abbreviation SERVICES_NODE_NETWORK :: u64 where "SERVICES_NODE_NETWORK \<equiv> 1"
abbreviation inv_tx :: u32 where "inv_tx \<equiv> 1"
abbreviation inv_block :: u32 where "inv_block \<equiv> 2"
abbreviation inv_filtered_block :: u32 where "inv_filtered_block \<equiv> 3"

definition magic_number :: "bool \<Rightarrow> u32" where
  "magic_number testnet = (if testnet then 0x0709110b else 0xd9b4bef9)"

definition standard_port :: "bool \<Rightarrow> u16" where
  "standard_port testnet = (if testnet then 18333 else 8333)"

definition LOCAL_HOST :: uint128 where
  "LOCAL_HOST = UInt128Get (replicate 10 0 @ [0xff, 0xff, 0x7f, 0, 0, 1])"

definition USER_AGENT :: bytes where
  "USER_AGENT = str_bytes ''/breadwallet:0.6.2/''"

text \<open>\<open>u64[0] == 0 && u16[4] == 0 && u16[5] == 0xffff\<close>\<close>

definition BRPeerIsIPv4 :: "BRPeer \<Rightarrow> bool" where
  "BRPeerIsIPv4 p \<longleftrightarrow> lane64 (p_address p) 0 = 0 \<and> ucast (drop_bit 64 (p_address p)) = (0 :: u16) \<and>
     ucast (drop_bit 80 (p_address p)) = (0xffff :: u16)"

text \<open>The hash is put into the set; when the array has moved, the set is built again from the array.\<close>

fun BRPeerAddKnownTxHashes :: "peer_env \<Rightarrow> uint256 list \<Rightarrow> BRPeerContext \<Rightarrow> BRPeerContext" where
  "BRPeerAddKnownTxHashes env [] p = p"
| "BRPeerAddKnownTxHashes env (h # hs) p =
     BRPeerAddKnownTxHashes env hs
       (if h \<in> pc_knownTxHashSet p then p
        else
          let known = pc_knownTxHashes p @ [h] in
          p\<lparr>pc_knownTxHashes := known,
            pc_knownTxHashSet := if nv_moved env known then set known else insert h (pc_knownTxHashSet p)\<rparr>)"

section \<open>Sending\<close>

definition BRPeerDisconnect :: "BRPeerContext \<Rightarrow> BRPeerContext" where
  "BRPeerDisconnect p = p\<lparr>pc_open := False\<rparr>"

text \<open>\<open>strncpy(dst, type, 12)\<close>, and the frame of a message.\<close>

definition type_field :: "bytes \<Rightarrow> bytes" where
  "type_field type = take 12 (type @ replicate 12 0)"

definition message_frame :: "bool \<Rightarrow> bytes \<Rightarrow> bytes \<Rightarrow> bytes" where
  "message_frame testnet msg type =
     UInt32SetLE (magic_number testnet) @ type_field type @ UInt32SetLE (of_nat (length msg)) @ take 4 (BRSHA256_2 msg) @ msg"

text \<open>A frame goes out without an error, or the connection is closed.\<close>

definition BRPeerSendMessage :: "peer_env \<Rightarrow> bytes \<Rightarrow> bytes \<Rightarrow> BRPeerContext \<Rightarrow> BRPeerContext" where
  "BRPeerSendMessage env msg type p =
     (if length msg > MAX_MSG_LENGTH then p
      else
        let buf = message_frame (nv_testnet env) msg type in
        if \<not> pc_open p then BRPeerDisconnect p
        else case nv_fails env p buf of
            None \<Rightarrow> p\<lparr>pc_sent := pc_sent p @ [buf]\<rparr>
          | Some n \<Rightarrow> BRPeerDisconnect (p\<lparr>pc_sent := pc_sent p @ [take n buf]\<rparr>))"

definition varint :: "nat \<Rightarrow> bytes" where
  "varint n = the (snd (BRVarIntSet (Some (replicate (BRVarIntSize (of_nat n)) 0)) (of_nat n)))"

definition BRPeerSendVersionMessage :: "peer_env \<Rightarrow> u64 \<Rightarrow> BRPeerContext \<Rightarrow> BRPeerContext" where
  "BRPeerSendVersionMessage env nonce p =
     (let p = p\<lparr>pc_nonce := nonce\<rparr>;
          msg = UInt32SetLE PROTOCOL_VERSION @ UInt64SetLE ENABLED_SERVICES @ UInt64SetLE (nv_now env) @
            UInt64SetLE (p_services (pc_peer p)) @ UInt128Set (p_address (pc_peer p)) @ UInt16SetBE (p_port (pc_peer p)) @
            UInt64SetLE ENABLED_SERVICES @ UInt128Set LOCAL_HOST @ UInt16SetBE (standard_port (nv_testnet env)) @
            UInt64SetLE nonce @ varint (length USER_AGENT) @ USER_AGENT @ UInt32SetLE 0 @ [0]
      in BRPeerSendMessage env msg (str_bytes ''version'') p)"

definition BRPeerSendVerackMessage :: "peer_env \<Rightarrow> BRPeerContext \<Rightarrow> BRPeerContext" where
  "BRPeerSendVerackMessage env p = (BRPeerSendMessage env [] (str_bytes ''verack'') p)\<lparr>pc_sentVerack := True\<rparr>"

definition BRPeerSendAddr :: "peer_env \<Rightarrow> BRPeerContext \<Rightarrow> BRPeerContext" where
  "BRPeerSendAddr env p = BRPeerSendMessage env (varint 0) (str_bytes ''addr'') p"

definition BRPeerSendFilterload :: "peer_env \<Rightarrow> bytes \<Rightarrow> BRPeerContext \<Rightarrow> BRPeerContext" where
  "BRPeerSendFilterload env bloom p =
     BRPeerSendMessage env bloom (str_bytes ''filterload'') (p\<lparr>pc_sentFilter := True, pc_sentMempool := False\<rparr>)"

definition BRPeerSendMempool :: "peer_env \<Rightarrow> uint256 list \<Rightarrow> nat option \<Rightarrow> BRPeerContext \<Rightarrow> BRPeerContext" where
  "BRPeerSendMempool env knownTxHashes callback p =
     (let sentMempool = pc_sentMempool p; p = p\<lparr>pc_sentMempool := True\<rparr> in
      if \<not> sentMempool \<and> pc_mempool p = None then
        let p = BRPeerAddKnownTxHashes env knownTxHashes p;
            p = (if callback \<noteq> None then p\<lparr>pc_mempool := callback\<rparr> else p)
        in BRPeerSendMessage env [] (str_bytes ''mempool'') p
      else case callback of None \<Rightarrow> p | Some c \<Rightarrow> fire env (PeerMempool c False) p)"

definition locators_message :: "uint256 list \<Rightarrow> uint256 \<Rightarrow> bytes" where
  "locators_message locators hashStop =
     UInt32SetLE PROTOCOL_VERSION @ varint (length locators) @ concat (map UInt256Set locators) @ UInt256Set hashStop"

definition BRPeerSendGetheaders :: "peer_env \<Rightarrow> uint256 list \<Rightarrow> uint256 \<Rightarrow> BRPeerContext \<Rightarrow> BRPeerContext" where
  "BRPeerSendGetheaders env locators hashStop p =
     (if locators \<noteq> [] then BRPeerSendMessage env (locators_message locators hashStop) (str_bytes ''getheaders'') p else p)"

definition BRPeerSendGetblocks :: "peer_env \<Rightarrow> uint256 list \<Rightarrow> uint256 \<Rightarrow> BRPeerContext \<Rightarrow> BRPeerContext" where
  "BRPeerSendGetblocks env locators hashStop p =
     (if locators \<noteq> [] then BRPeerSendMessage env (locators_message locators hashStop) (str_bytes ''getblocks'') p else p)"

text \<open>The bytes of a type and a hash, and of a list of them with its count.\<close>

definition inv_item :: "u32 \<times> uint256 \<Rightarrow> bytes" where
  "inv_item i = UInt32SetLE (fst i) @ UInt256Set (snd i)"

definition inv_message :: "(u32 \<times> uint256) list \<Rightarrow> bytes" where
  "inv_message is = varint (length is) @ concat (map inv_item is)"

text \<open>The hashes that were not known before.\<close>

definition BRPeerSendInv :: "peer_env \<Rightarrow> uint256 list \<Rightarrow> BRPeerContext \<Rightarrow> BRPeerContext" where
  "BRPeerSendInv env txHashes p =
     (let knownCount = length (pc_knownTxHashes p);
          p = BRPeerAddKnownTxHashes env txHashes p;
          txs = drop knownCount (pc_knownTxHashes p)
      in if txs \<noteq> [] then BRPeerSendMessage env (inv_message (map (Pair inv_tx) txs)) (str_bytes ''inv'') p else p)"

definition BRPeerSendGetdata :: "peer_env \<Rightarrow> uint256 list \<Rightarrow> uint256 list \<Rightarrow> BRPeerContext \<Rightarrow> BRPeerContext" where
  "BRPeerSendGetdata env txHashes blockHashes p =
     (let count = length txHashes + length blockHashes in
      if count > MAX_GETDATA_HASHES then p
      else if count > 0 then
        BRPeerSendMessage env (inv_message (map (Pair inv_tx) txHashes @ map (Pair inv_filtered_block) blockHashes))
          (str_bytes ''getdata'') (p\<lparr>pc_sentGetdata := True\<rparr>)
      else p)"

definition BRPeerSendGetaddr :: "peer_env \<Rightarrow> BRPeerContext \<Rightarrow> BRPeerContext" where
  "BRPeerSendGetaddr env p = BRPeerSendMessage env [] (str_bytes ''getaddr'') (p\<lparr>pc_sentGetaddr := True\<rparr>)"

definition BRPeerSendPing :: "peer_env \<Rightarrow> nat option \<Rightarrow> BRPeerContext \<Rightarrow> BRPeerContext" where
  "BRPeerSendPing env callback p =
     BRPeerSendMessage env (UInt64SetLE (pc_nonce p)) (str_bytes ''ping'') (p\<lparr>pc_pongs := pc_pongs p @ [callback]\<rparr>)"

text \<open>From the last place of the block on.\<close>

definition BRPeerRerequestBlocks :: "peer_env \<Rightarrow> uint256 \<Rightarrow> BRPeerContext \<Rightarrow> BRPeerContext" where
  "BRPeerRerequestBlocks env fromBlock p =
     (let known = pc_knownBlockHashes p; i = length (dropWhile (\<lambda>h. h \<noteq> fromBlock) (rev known)) in
      if i > 0 then
        let known = drop (i - 1) known
        in BRPeerSendGetdata env [] known (p\<lparr>pc_knownBlockHashes := known\<rparr>)
      else p)"

section \<open>Receiving\<close>

text \<open>A handler returns false when the connection is to be closed.\<close>

definition BRPeerDidConnect :: "peer_env \<Rightarrow> BRPeerContext \<Rightarrow> BRPeerContext" where
  "BRPeerDidConnect env p =
     (if pc_status p = BRPeerStatusConnecting \<and> pc_sentVerack p \<and> pc_gotVerack p
      then notify env PeerConnected (p\<lparr>pc_status := BRPeerStatusConnected\<rparr>) else p)"

definition AcceptVersionMessage :: "peer_env \<Rightarrow> bytes \<Rightarrow> BRPeerContext \<Rightarrow> (bool \<times> BRPeerContext) run" where
  "AcceptVersionMessage env msg p =
     (let msgLen = of_nat (length msg) :: u64 in
      if 85 > msgLen then Some (False, p)
      else do {
        version \<leftarrow> get_at 4 UInt32GetLE msg 0;
        services \<leftarrow> get_at 8 UInt64GetLE msg 4;
        timestamp \<leftarrow> get_at 8 UInt64GetLE msg 12;
        let p = p\<lparr>pc_version := version, pc_peer := (pc_peer p)\<lparr>p_services := services, p_timestamp := timestamp\<rparr>\<rparr>;
        let (strLen, len) = varint_at msg 80;
        let off = 80 + len;
        if off + strLen + 4 > msgLen then Some (False, p)
        else if version < MIN_PROTO_VERSION then Some (False, p)
        else do {
          useragent \<leftarrow> slice msg (unat off) (unat strLen);
          lastblock \<leftarrow> get_at 4 UInt32GetLE msg (unat (off + strLen));
          Some (True, BRPeerSendVerackMessage env (p\<lparr>pc_useragent := useragent, pc_lastblock := lastblock\<rparr>))
        }
      })"

definition AcceptVerackMessage :: "peer_env \<Rightarrow> BRPeerContext \<Rightarrow> bool \<times> BRPeerContext" where
  "AcceptVerackMessage env p = (True, if pc_gotVerack p then p else BRPeerDidConnect env (p\<lparr>pc_gotVerack := True\<rparr>))"

text \<open>The count in front of a list of entries of \<open>sz\<close> bytes, and the offset behind it; \<open>None\<close> for a malformed message.\<close>

definition list_header :: "bytes \<Rightarrow> u64 \<Rightarrow> (u64 \<times> u64) option" where
  "list_header msg sz =
     (let (n, off) = varint_at msg 0 in if off = 0 \<or> off + n * sz > of_nat (length msg) then None else Some (n, off))"

definition addr_entry :: "peer_env \<Rightarrow> bytes \<Rightarrow> nat \<Rightarrow> BRPeer option run" where
  "addr_entry env msg off = do {
     timestamp \<leftarrow> get_at 4 UInt32GetLE msg off;
     services \<leftarrow> get_at 8 UInt64GetLE msg (off + 4);
     address \<leftarrow> get_at 16 UInt128Get msg (off + 12);
     port \<leftarrow> get_at 2 UInt16GetBE msg (off + 28);
     let timestamp = (ucast timestamp :: u64);
     let p = \<lparr>p_address = address, p_port = port, p_services = services, p_timestamp = timestamp\<rparr>;
     Some (if services AND SERVICES_NODE_NETWORK = 0 then None
       else if \<not> BRPeerIsIPv4 p then None
       else
         let timestamp = (if timestamp > nv_now env + 10 * 60 \<or> timestamp = 0 then nv_now env - 5 * 24 * 60 * 60 else timestamp)
         in Some (p\<lparr>p_timestamp := timestamp - 2 * 60 * 60\<rparr>))
   }"

fun addr_entries :: "peer_env \<Rightarrow> bytes \<Rightarrow> nat \<Rightarrow> nat \<Rightarrow> BRPeer list run" where
  "addr_entries env msg off 0 = Some []"
| "addr_entries env msg off (Suc n) = do {
     e \<leftarrow> addr_entry env msg off;
     es \<leftarrow> addr_entries env msg (off + 30) n;
     Some (case e of None \<Rightarrow> es | Some q \<Rightarrow> q # es)
   }"

definition AcceptAddrMessage :: "peer_env \<Rightarrow> bytes \<Rightarrow> BRPeerContext \<Rightarrow> (bool \<times> BRPeerContext) run" where
  "AcceptAddrMessage env msg p =
     (case list_header msg 30 of
        None \<Rightarrow> Some (False, p)
      | Some (n, off) \<Rightarrow>
          if n > 1000 then Some (True, p)
          else if pc_sentGetaddr p then do {
            peers \<leftarrow> addr_entries env msg (unat off) (unat n);
            Some (True, if peers \<noteq> [] then notify env (PeerRelayedPeers peers) p else p)
          }
          else Some (True, p))"

text \<open>The items of an inventory, each a type and a hash.\<close>

fun inv_items :: "bytes \<Rightarrow> nat \<Rightarrow> nat \<Rightarrow> (u32 \<times> uint256) list run" where
  "inv_items msg off 0 = Some []"
| "inv_items msg off (Suc n) = do {
     type \<leftarrow> get_at 4 UInt32GetLE msg off;
     hash \<leftarrow> get_at 32 UInt256Get msg (off + 4);
     is \<leftarrow> inv_items msg (off + 36) n;
     Some ((type, hash) # is)
   }"

definition hashes_of :: "u32 set \<Rightarrow> (u32 \<times> uint256) list \<Rightarrow> uint256 list" where
  "hashes_of ts is = map snd (filter (\<lambda>i. fst i \<in> ts) is)"

text \<open>\<open>while (array_count > MAX_GETDATA_HASHES) array_rm_range(..., 0, array_count/3)\<close>\<close>

function trim_known :: "uint256 list \<Rightarrow> uint256 list" where
  "trim_known hs = (if length hs > MAX_GETDATA_HASHES then trim_known (drop (length hs div 3) hs) else hs)"
  by pat_completeness auto
termination by (relation "measure length") auto

declare trim_known.simps [simp del]

text \<open>The known hashes are reported, the others returned.\<close>

fun split_known :: "peer_env \<Rightarrow> uint256 list \<Rightarrow> BRPeerContext \<Rightarrow> uint256 list \<times> BRPeerContext" where
  "split_known env [] p = ([], p)"
| "split_known env (h # hs) p =
     (if h \<in> pc_knownTxHashSet p then split_known env hs (notify env (PeerHasTx h) p)
      else let (unknown, p) = split_known env hs p in (h # unknown, p))"

text \<open>What is done with the hashes of an inventory that passes the checks.\<close>

definition inv_relay :: "peer_env \<Rightarrow> uint256 list \<Rightarrow> uint256 list \<Rightarrow> BRPeerContext \<Rightarrow> BRPeerContext" where
  "inv_relay env transactions blocks p =
     (let blocks = (if \<not> pc_sentFilter p \<and> \<not> pc_sentGetblocks p then [] else blocks);
          blocks = (if length blocks = 1 \<and> UInt256Eq (pc_lastBlockHash p) (hd blocks) then [] else blocks);
          p = (if length blocks = 1 then p\<lparr>pc_lastBlockHash := hd blocks\<rparr> else p);
          p = p\<lparr>pc_knownBlockHashes := trim_known (pc_knownBlockHashes p @ blocks)\<rparr>;
          blocks = (if pc_needsFilterUpdate p then [] else blocks);
          (txHashes, p) = split_known env transactions p;
          p = BRPeerAddKnownTxHashes env txHashes p;
          p = (if txHashes \<noteq> [] \<or> blocks \<noteq> [] then BRPeerSendGetdata env txHashes blocks p else p);
          p = (if length blocks \<ge> 500 then BRPeerSendGetblocks env [last blocks, hd blocks] 0 p else p)
      in if transactions \<noteq> [] \<and> pc_mempool p \<noteq> None
         then (BRPeerSendPing env (pc_mempool p) p)\<lparr>pc_mempool := None\<rparr> else p)"

definition AcceptInvMessage :: "peer_env \<Rightarrow> bytes \<Rightarrow> BRPeerContext \<Rightarrow> (bool \<times> BRPeerContext) run" where
  "AcceptInvMessage env msg p =
     (case list_header msg 36 of
        None \<Rightarrow> Some (False, p)
      | Some (n, off) \<Rightarrow>
          if n > of_nat MAX_GETDATA_HASHES then Some (True, p)
          else do {
            is \<leftarrow> inv_items msg (unat off) (unat n);
            let transactions = hashes_of {inv_tx} is;
            let blocks = hashes_of {inv_block} is;
            let txCount = length transactions;
            let blockCount = length blocks;
            Some (if txCount > 0 \<and> \<not> pc_sentFilter p \<and> \<not> pc_sentMempool p \<and> \<not> pc_sentGetblocks p then (False, p)
              else if txCount > 10000 then (False, p)
              else if pc_currentBlockHeight p > 0 \<and> blockCount > 2 \<and> blockCount < 500 \<and>
                unat (pc_currentBlockHeight p) + length (pc_knownBlockHashes p) + blockCount < unat (pc_lastblock p)
              then (False, p)
              else (True, inv_relay env transactions blocks p))
          })"

text \<open>The last of the hashes that is the one of the transaction is removed.\<close>

definition remove_hash :: "uint256 \<Rightarrow> uint256 list \<Rightarrow> uint256 list" where
  "remove_hash h hs = rev (remove1 h (rev hs))"

definition AcceptTxMessage :: "peer_env \<Rightarrow> bytes \<Rightarrow> BRPeerContext \<Rightarrow> (bool \<times> BRPeerContext) run" where
  "AcceptTxMessage env msg p = do {
     tx \<leftarrow> BRTransactionParse (nv_testnet env) (Some msg);
     Some (case tx of
         None \<Rightarrow> (False, p)
       | Some tx \<Rightarrow>
           if \<not> pc_sentFilter p \<and> \<not> pc_sentGetdata p then (False, p)
           else
             let p = notify env (PeerRelayedTx tx) p;
                 p = (case pc_currentBlock p of
                     None \<Rightarrow> p
                   | Some block \<Rightarrow>
                       let hs = remove_hash (tx_hash tx) (pc_currentBlockTxHashes p); p = p\<lparr>pc_currentBlockTxHashes := hs\<rparr> in
                       if hs = [] then notify env (PeerRelayedBlock block) (p\<lparr>pc_currentBlock := None\<rparr>) else p)
             in (True, p))
   }"

text \<open>\<open>timestamp > 0 && timestamp + 7*24*60*60 + BLOCK_MAX_TIME_DRIFT >= earliestKeyTime\<close>\<close>

definition in_key_time :: "u32 \<Rightarrow> BRPeerContext \<Rightarrow> bool" where
  "in_key_time timestamp p \<longleftrightarrow> timestamp + 7 * 24 * 60 * 60 + BLOCK_MAX_TIME_DRIFT \<ge> pc_earliestKeyTime p"

text \<open>The bytes at \<open>&msg[off + 81*i + k]\<close>, where the sum may wrap around.\<close>

definition header_at :: "nat \<Rightarrow> (bytes \<Rightarrow> 'a) \<Rightarrow> bytes \<Rightarrow> u64 \<Rightarrow> u64 \<Rightarrow> u64 \<Rightarrow> 'a run" where
  "header_at n get msg off i k = get_at n get msg (unat (off + 81 * i + k))"

text \<open>The first index from \<open>i\<close> on whose header is not before the key time, or the count.\<close>

function skip_headers :: "bytes \<Rightarrow> u64 \<Rightarrow> nat \<Rightarrow> BRPeerContext \<Rightarrow> nat \<Rightarrow> u32 \<Rightarrow> nat run" where
  "skip_headers msg off n p i timestamp =
     (if timestamp > 0 \<and> \<not> in_key_time timestamp p then
        if Suc i < n then do {
          timestamp \<leftarrow> header_at 4 UInt32GetLE msg off (of_nat (Suc i)) 68;
          skip_headers msg off n p (Suc i) timestamp
        }
        else Some (Suc i)
      else Some i)"
  by pat_completeness auto
termination
  by (relation "measure (\<lambda>(_, _, n, _, i, _). n - i)") auto

declare skip_headers.simps [simp del]

fun accept_headers :: "peer_env \<Rightarrow> bytes \<Rightarrow> u64 \<Rightarrow> nat \<Rightarrow> u64 \<Rightarrow> BRPeerContext \<Rightarrow> (bool \<times> BRPeerContext) run" where
  "accept_headers env msg off 0 i p = Some (True, p)"
| "accept_headers env msg off (Suc n) i p = do {
     b \<leftarrow> header_at 81 id msg off i 0;
     block \<leftarrow> BRMerkleBlockParse (Some b);
     (case block of
        None \<Rightarrow> None
      | Some block \<Rightarrow> do {
          valid \<leftarrow> BRMerkleBlockIsValid block (ucast (nv_now env));
          if \<not> valid then Some (False, p)
          else accept_headers env msg off n (i + 1) (notify env (PeerRelayedBlock block) p)
        })
   }"

definition AcceptHeadersMessage :: "peer_env \<Rightarrow> bytes \<Rightarrow> BRPeerContext \<Rightarrow> (bool \<times> BRPeerContext) run" where
  "AcceptHeadersMessage env msg p =
     (case list_header msg 81 of
        None \<Rightarrow> Some (False, p)
      | Some (n, off) \<Rightarrow> do {
          timestamp \<leftarrow> (if n > 0 then header_at 4 UInt32GetLE msg off (n - 1) 68 else Some 0);
          if n \<ge> 2000 \<or> (timestamp > 0 \<and> in_key_time timestamp p) then do {
            lastHash \<leftarrow> header_at 80 (UInt256Get \<circ> BRSHA256_2) msg off (n - 1) 0;
            firstHash \<leftarrow> header_at 80 (UInt256Get \<circ> BRSHA256_2) msg off 0 0;
            p \<leftarrow> (if timestamp > 0 \<and> in_key_time timestamp p then do {
                timestamp \<leftarrow> (if 1 < n then header_at 4 UInt32GetLE msg off 1 68 else Some 0);
                i \<leftarrow> skip_headers msg off (unat n) p 1 timestamp;
                lastHash \<leftarrow> header_at 80 (UInt256Get \<circ> BRSHA256_2) msg off (of_nat i - 1) 0;
                Some (BRPeerSendGetblocks env [lastHash, firstHash] 0 p)
              }
              else Some (BRPeerSendGetheaders env [lastHash, firstHash] 0 p));
            accept_headers env msg off (unat n) 0 p
          }
          else Some (False, p)
        })"
definition AcceptGetaddrMessage :: "peer_env \<Rightarrow> BRPeerContext \<Rightarrow> bool \<times> BRPeerContext" where
  "AcceptGetaddrMessage env p = (True, BRPeerSendAddr env p)"

definition requested_tx :: "peer_env \<Rightarrow> u32 \<Rightarrow> uint256 \<Rightarrow> BRPeerContext \<Rightarrow> BRTransaction option \<times> BRPeerContext" where
  "requested_tx env type hash p =
     (if type = inv_tx then case nv_requested env of None \<Rightarrow> (None, p) | Some f \<Rightarrow> f hash p else (None, p))"

text \<open>The transactions that are asked for and known are sent at once; the other items are collected.\<close>

fun getdata_items :: "peer_env \<Rightarrow> bytes \<Rightarrow> nat \<Rightarrow> nat \<Rightarrow> BRPeerContext \<Rightarrow> (bytes list \<times> BRPeerContext) run" where
  "getdata_items env msg off 0 p = Some ([], p)"
| "getdata_items env msg off (Suc n) p = do {
     type \<leftarrow> get_at 4 UInt32GetLE msg off;
     hash \<leftarrow> get_at 32 UInt256Get msg (off + 4);
     item \<leftarrow> slice msg off 36;
     let (tx, p) = requested_tx env type hash p;
     (case tx of
        Some tx \<Rightarrow>
          if BRTransactionSize tx < TX_MAX_SIZE then do {
            (n0, _) \<leftarrow> BRTransactionSerialize tx None;
            (n1, buf) \<leftarrow> BRTransactionSerialize tx (Some (replicate n0 0));
            getdata_items env msg (off + 36) n
              (BRPeerSendMessage env (take n1 (the buf)) (str_bytes ''tx'') p)
          }
          else do {
            (notfound, p) \<leftarrow> getdata_items env msg (off + 36) n p;
            Some (item # notfound, p)
          }
      | None \<Rightarrow> do {
          (notfound, p) \<leftarrow> getdata_items env msg (off + 36) n p;
          Some (item # notfound, p)
        })
   }"

definition AcceptGetdataMessage :: "peer_env \<Rightarrow> bytes \<Rightarrow> BRPeerContext \<Rightarrow> (bool \<times> BRPeerContext) run" where
  "AcceptGetdataMessage env msg p =
     (case list_header msg 36 of
        None \<Rightarrow> Some (False, p)
      | Some (n, off) \<Rightarrow>
          if n > of_nat MAX_GETDATA_HASHES then Some (True, p)
          else do {
            (notfound, p) \<leftarrow> getdata_items env msg (unat off) (unat n) p;
            Some (True, if notfound \<noteq> []
              then BRPeerSendMessage env (varint (length notfound) @ concat notfound) (str_bytes ''notfound'') p else p)
          })"

definition AcceptNotfoundMessage :: "peer_env \<Rightarrow> bytes \<Rightarrow> BRPeerContext \<Rightarrow> (bool \<times> BRPeerContext) run" where
  "AcceptNotfoundMessage env msg p =
     (case list_header msg 36 of
        None \<Rightarrow> Some (False, p)
      | Some (n, off) \<Rightarrow>
          if n > of_nat MAX_GETDATA_HASHES then Some (True, p)
          else do {
            is \<leftarrow> inv_items msg (unat off) (unat n);
            Some (True, notify env (PeerNotfound (hashes_of {inv_tx} is) (hashes_of {inv_filtered_block, inv_block} is)) p)
          })"

definition AcceptPingMessage :: "peer_env \<Rightarrow> bytes \<Rightarrow> BRPeerContext \<Rightarrow> bool \<times> BRPeerContext" where
  "AcceptPingMessage env msg p =
     (if 8 > length msg then (False, p) else (True, BRPeerSendMessage env msg (str_bytes ''pong'') p))"

definition AcceptPongMessage :: "peer_env \<Rightarrow> bytes \<Rightarrow> BRPeerContext \<Rightarrow> bool \<times> BRPeerContext" where
  "AcceptPongMessage env msg p =
     (if 8 > length msg then (False, p)
      else if UInt64GetLE msg \<noteq> pc_nonce p then (False, p)
      else case pc_pongs p of
          [] \<Rightarrow> (False, p)
        | callback # pongs \<Rightarrow>
            let p = p\<lparr>pc_pongs := pongs\<rparr> in
            (True, case callback of None \<Rightarrow> p | Some c \<Rightarrow> fire env (PeerPong c True) p))"

definition AcceptMerkleblockMessage :: "peer_env \<Rightarrow> bytes \<Rightarrow> BRPeerContext \<Rightarrow> (bool \<times> BRPeerContext) run" where
  "AcceptMerkleblockMessage env msg p = do {
     block \<leftarrow> BRMerkleBlockParse (Some msg);
     (case block of
        None \<Rightarrow> Some (False, p)
      | Some block \<Rightarrow> do {
          valid \<leftarrow> BRMerkleBlockIsValid block (ucast (nv_now env));
          if \<not> valid then Some (False, p)
          else if \<not> pc_sentFilter p \<and> \<not> pc_sentGetdata p then Some (False, p)
          else do {
            (n0, _) \<leftarrow> BRMerkleBlockTxHashes block None;
            (n1, hs) \<leftarrow> BRMerkleBlockTxHashes block (Some (replicate n0 0));
            let unknown = filter (\<lambda>h. h \<notin> pc_knownTxHashSet p) (take n1 (the hs));
            let p = p\<lparr>pc_currentBlockTxHashes := pc_currentBlockTxHashes p @ rev unknown\<rparr>;
            Some (True, if pc_currentBlockTxHashes p \<noteq> [] then p\<lparr>pc_currentBlock := Some block\<rparr>
              else notify env (PeerRelayedBlock block) p)
          }
        })
   }"

text \<open>\<open>strncpy\<close> of at most \<open>n\<close> bytes: it reads up to the first null byte, and the copy ends there.\<close>

fun strncpy_at :: "bytes \<Rightarrow> nat \<Rightarrow> nat \<Rightarrow> bytes run" where
  "strncpy_at msg off 0 = Some []"
| "strncpy_at msg off (Suc n) = do {
     b \<leftarrow> rd msg off;
     if b = 0 then Some [] else do { bs \<leftarrow> strncpy_at msg (Suc off) n; Some (b # bs) }
   }"

definition AcceptRejectMessage :: "peer_env \<Rightarrow> bytes \<Rightarrow> BRPeerContext \<Rightarrow> (bool \<times> BRPeerContext) run" where
  "AcceptRejectMessage env msg p =
     (let msgLen = of_nat (length msg) :: u64; (strLen, off) = varint_at msg 0 in
      if off + strLen + 1 > msgLen then Some (False, p)
      else do {
        type \<leftarrow> strncpy_at msg (unat off) (min (unat strLen) 0xfff);
        let off = off + strLen;
        code \<leftarrow> rd msg (unat off);
        let off = off + 1;
        let (strLen, len) = varint_at msg off;
        let off = off + len;
        let hashLen = (if type = str_bytes ''tx'' then 32 else 0 :: u64);
        if off + strLen + hashLen > msgLen then Some (False, p)
        else do {
          reason \<leftarrow> strncpy_at msg (unat off) (min (unat strLen) 0xfff);
          txHash \<leftarrow> (if hashLen = 32 then get_at 32 UInt256Get msg (unat (off + strLen)) else Some 0);
          Some (True, if txHash \<noteq> 0 then notify env (PeerRejectedTx txHash code) p else p)
        }
      })"

definition AcceptFeeFilterMessage :: "peer_env \<Rightarrow> bytes \<Rightarrow> BRPeerContext \<Rightarrow> bool \<times> BRPeerContext" where
  "AcceptFeeFilterMessage env msg p =
     (if 8 > length msg then (False, p)
      else (True, notify env (PeerSetFee (UInt64GetLE msg)) (p\<lparr>pc_feePerKb := UInt64GetLE msg\<rparr>)))"

text \<open>The type is a C string of at most eleven characters; what is none of the types is dropped.\<close>

definition AcceptMessage :: "peer_env \<Rightarrow> bytes \<Rightarrow> bytes \<Rightarrow> BRPeerContext \<Rightarrow> (bool \<times> BRPeerContext) run" where
  "AcceptMessage env msg type p =
     (if pc_currentBlock p \<noteq> None \<and> type \<noteq> str_bytes ''tx''
      then Some (False, p\<lparr>pc_currentBlockTxHashes := [], pc_currentBlock := None\<rparr>)
      else if type = str_bytes ''version'' then AcceptVersionMessage env msg p
      else if type = str_bytes ''verack'' then Some (AcceptVerackMessage env p)
      else if type = str_bytes ''addr'' then AcceptAddrMessage env msg p
      else if type = str_bytes ''inv'' then AcceptInvMessage env msg p
      else if type = str_bytes ''tx'' then AcceptTxMessage env msg p
      else if type = str_bytes ''headers'' then AcceptHeadersMessage env msg p
      else if type = str_bytes ''getaddr'' then Some (AcceptGetaddrMessage env p)
      else if type = str_bytes ''getdata'' then AcceptGetdataMessage env msg p
      else if type = str_bytes ''notfound'' then AcceptNotfoundMessage env msg p
      else if type = str_bytes ''ping'' then Some (AcceptPingMessage env msg p)
      else if type = str_bytes ''pong'' then Some (AcceptPongMessage env msg p)
      else if type = str_bytes ''merkleblock'' then AcceptMerkleblockMessage env msg p
      else if type = str_bytes ''reject'' then AcceptRejectMessage env msg p
      else if type = str_bytes ''feefilter'' then Some (AcceptFeeFilterMessage env msg p)
      else Some (True, p))"
section \<open>The connection\<close>

text \<open>What the calls of the socket interface answer: \<open>fcntl\<close> and \<open>connect\<close> with their errors, the count of \<open>select\<close>,
  whether \<open>getsockopt\<close> succeeds, the error it reads, and \<open>errno\<close> when one of the two fails.\<close>

record socket_os =
  os_fcntl :: peer_error
  os_connect :: peer_error
  os_select :: int
  os_getsockopt :: bool
  os_so_error :: peer_error
  os_errno :: peer_error

text \<open>\<open>struct sockaddr\<close> has 16 bytes; the address of an IPv6 peer is written to the bytes 8 to 24 of it.\<close>

definition BRPeerOpenSocket :: "socket_os \<Rightarrow> BRPeerContext \<Rightarrow> (bool \<times> peer_error) run" where
  "BRPeerOpenSocket os p =
     (if os_fcntl os \<noteq> NoError then Some (False, os_fcntl os)
      else if \<not> BRPeerIsIPv4 (pc_peer p) then None
      else if os_connect os = EINPROGRESS then
        let err = (if os_select os > 0 \<and> os_getsockopt os then os_so_error os else NoError) in
        if os_select os \<le> 0 \<or> \<not> os_getsockopt os \<or> err \<noteq> NoError then
          let err = (if os_select os = 0 then ETIMEDOUT else err);
              err = (if os_select os < 0 \<or> err = NoError then os_errno os else err)
          in Some (False, err)
        else Some (True, NoError)
      else Some (True, os_connect os))"

text \<open>The loop of the thread stops at each \<open>read\<close>: inside the header, or inside the payload of a message whose type,
  checksum and length are known. A read gets some of the bytes on their way (none with \<open>EWOULDBLOCK\<close>), the end of
  the stream or an error; with it comes whether the deadline of the loop and the one of the memory pool have passed.\<close>

datatype peer_phase = ReadHeader bytes | ReadPayload bytes u32 nat bytes | Finished peer_error

datatype peer_read = Read nat | ReadEnd | ReadFail peer_error

fun read_some :: "peer_read \<Rightarrow> nat \<Rightarrow> bytes \<Rightarrow> peer_error \<times> bytes \<times> bytes" where
  "read_some (Read n) want input = (NoError, take (min n want) input, drop (min n want) input)"
| "read_some ReadEnd want input = (ECONNRESET, [], input)"
| "read_some (ReadFail e) want input = (e, [], input)"

text \<open>\<open>while (sizeof(uint32_t) <= len && UInt32GetLE(header) != MAGIC_NUMBER) memmove(header, &header[1], --len)\<close>\<close>

fun seek_magic :: "bool \<Rightarrow> bytes \<Rightarrow> bytes" where
  "seek_magic testnet [] = []"
| "seek_magic testnet (b # bs) =
     (if 4 \<le> length (b # bs) \<and> UInt32GetLE (b # bs) \<noteq> magic_number testnet then seek_magic testnet bs else b # bs)"

definition header_terminated :: "peer_env \<Rightarrow> bytes \<Rightarrow> bool" where
  "header_terminated env header = (if 15 < length header then header ! 15 = 0 else \<not> nv_stale env)"

definition payload_read :: "peer_env \<Rightarrow> bytes \<Rightarrow> u32 \<Rightarrow> bytes \<Rightarrow> BRPeerContext \<Rightarrow> (peer_phase \<times> BRPeerContext) run" where
  "payload_read env type checksum payload p =
     (if UInt32GetLE (BRSHA256_2 payload) \<noteq> checksum then Some (Finished EPROTO, p)
      else do {
        (r, p) \<leftarrow> AcceptMessage env payload type p;
        Some (if \<not> r then Finished EPROTO else if pc_open p then ReadHeader [] else Finished NoError, p)
      })"

definition header_read :: "peer_env \<Rightarrow> bytes \<Rightarrow> BRPeerContext \<Rightarrow> (peer_phase \<times> BRPeerContext) run" where
  "header_read env header p =
     (if \<not> header_terminated env header then Some (Finished EPROTO, p)
      else if length header = HEADER_LENGTH then
        let type = takeWhile (\<lambda>b. b \<noteq> 0) (drop 4 header);
            msgLen = unat (UInt32GetLE (drop 16 header));
            checksum = UInt32GetLE (drop 20 header)
        in if msgLen > MAX_MSG_LENGTH then Some (Finished EPROTO, p)
           else if pc_open p \<and> 0 < msgLen then Some (ReadPayload type checksum msgLen [], p)
           else if msgLen = 0 then payload_read env type checksum [] p
           else Some (Finished NoError, p)
      else Some (Finished NoError, p))"

definition peer_step ::
  "peer_env \<Rightarrow> peer_read \<times> bool \<times> bool \<Rightarrow> peer_phase \<times> bytes \<times> BRPeerContext \<Rightarrow> (peer_phase \<times> bytes \<times> BRPeerContext) run" where
  "peer_step env ev st =
     (let (r, late, due) = ev; (phase, input, p) = st in
      case phase of
        ReadHeader header \<Rightarrow>
          let (error, got, input) = read_some r (HEADER_LENGTH - length header) input;
              error = (if error = NoError \<and> late then ETIMEDOUT else error);
              p = (if error = NoError \<and> due \<and> pc_mempool p \<noteq> None
                then (BRPeerSendPing env (pc_mempool p) p)\<lparr>pc_mempool := None\<rparr> else p);
              header = seek_magic (nv_testnet env) (header @ got)
          in if error \<noteq> NoError then Some (Finished error, input, p)
             else if pc_open p \<and> length header < HEADER_LENGTH then Some (ReadHeader header, input, p)
             else do {
               (phase, p) \<leftarrow> header_read env header p;
               Some (phase, input, p)
             }
      | ReadPayload type checksum msgLen payload \<Rightarrow>
          let (error, got, input) = read_some r (msgLen - length payload) input;
              error = (if error = NoError \<and> late \<and> got = [] then ETIMEDOUT else error);
              payload = payload @ got
          in if error \<noteq> NoError then Some (Finished error, input, p)
             else if length payload = msgLen then do {
               (phase, p) \<leftarrow> payload_read env type checksum payload p;
               Some (phase, input, p)
             }
             else if pc_open p then Some (ReadPayload type checksum msgLen payload, input, p)
             else Some (Finished NoError, input, p)
      | Finished e \<Rightarrow> Some st)"

fun peer_steps ::
  "peer_env \<Rightarrow> (peer_read \<times> bool \<times> bool) list \<Rightarrow> peer_phase \<times> bytes \<times> BRPeerContext \<Rightarrow> (peer_phase \<times> bytes \<times> BRPeerContext) run" where
  "peer_steps env [] st = Some st"
| "peer_steps env (e # es) st = do { st \<leftarrow> peer_step env e st; peer_steps env es st }"

definition peer_start :: "peer_env \<Rightarrow> socket_os \<Rightarrow> BRPeerContext \<Rightarrow> (peer_phase \<times> BRPeerContext) run" where
  "peer_start env os p = do {
     (r, error) \<leftarrow> BRPeerOpenSocket os p;
     let p = (if r then BRPeerSendVersionMessage env (nv_nonce env) p else p);
     Some (if r \<and> pc_open p \<and> error = NoError then ReadHeader [] else Finished error, p)
   }"

text \<open>The pings that were not answered are given up, in order.\<close>

partial_function (option) drain_pongs :: "peer_env \<Rightarrow> BRPeerContext \<Rightarrow> BRPeerContext run" where
  "drain_pongs env p =
     (case pc_pongs p of
        [] \<Rightarrow> Some p
      | callback # pongs \<Rightarrow>
          let p = p\<lparr>pc_pongs := pongs\<rparr> in
          drain_pongs env (case callback of None \<Rightarrow> p | Some c \<Rightarrow> fire env (PeerPong c False) p))"

definition peer_finish :: "peer_env \<Rightarrow> peer_error \<Rightarrow> BRPeerContext \<Rightarrow> BRPeerContext run" where
  "peer_finish env error p = do {
     p \<leftarrow> drain_pongs env (p\<lparr>pc_open := False, pc_status := BRPeerStatusDisconnected\<rparr>);
     let p = (case pc_mempool p of None \<Rightarrow> p | Some c \<Rightarrow> fire env (PeerMempool c False) p);
     let p = p\<lparr>pc_mempool := None\<rparr>;
     Some (notify env (PeerDisconnected error) p)
   }"

section \<open>Construction and settings\<close>

definition BRPeerNew :: BRPeerContext where
  "BRPeerNew = \<lparr>pc_peer = \<lparr>p_address = 0, p_port = 0, p_services = 0, p_timestamp = 0\<rparr>,
     pc_status = BRPeerStatusDisconnected, pc_waitingForNetwork = False, pc_needsFilterUpdate = False,
     pc_nonce = 0, pc_feePerKb = 0, pc_useragent = [], pc_version = 0, pc_lastblock = 0, pc_earliestKeyTime = 0,
     pc_currentBlockHeight = 0, pc_sentVerack = False, pc_gotVerack = False, pc_sentGetaddr = False,
     pc_sentFilter = False, pc_sentGetdata = False, pc_sentMempool = False, pc_sentGetblocks = False,
     pc_lastBlockHash = 0, pc_currentBlock = None, pc_currentBlockTxHashes = [], pc_knownBlockHashes = [],
     pc_knownTxHashes = [], pc_knownTxHashSet = {}, pc_open = False, pc_pongs = [], pc_mempool = None,
     pc_sent = [], pc_events = []\<rparr>"

definition BRPeerSetEarliestKeyTime :: "u32 \<Rightarrow> BRPeerContext \<Rightarrow> BRPeerContext" where
  "BRPeerSetEarliestKeyTime t p = p\<lparr>pc_earliestKeyTime := t\<rparr>"

definition BRPeerSetCurrentBlockHeight :: "u32 \<Rightarrow> BRPeerContext \<Rightarrow> BRPeerContext" where
  "BRPeerSetCurrentBlockHeight h p = p\<lparr>pc_currentBlockHeight := h\<rparr>"

definition BRPeerSetNeedsFilterUpdate :: "bool \<Rightarrow> BRPeerContext \<Rightarrow> BRPeerContext" where
  "BRPeerSetNeedsFilterUpdate b p = p\<lparr>pc_needsFilterUpdate := b\<rparr>"

text \<open>Whether the network is reachable, the error of \<open>socket\<close>, and whether the two thread calls succeed. The second
  component tells whether the thread runs.\<close>

record connect_os =
  co_reachable :: bool
  co_socket :: peer_error
  co_attr :: bool
  co_thread :: bool

definition BRPeerConnect :: "peer_env \<Rightarrow> connect_os \<Rightarrow> BRPeerContext \<Rightarrow> BRPeerContext \<times> bool" where
  "BRPeerConnect env os p =
     (if pc_status p = BRPeerStatusDisconnected \<or> pc_waitingForNetwork p then
        let p = p\<lparr>pc_status := BRPeerStatusConnecting\<rparr> in
        if \<not> co_reachable os then (p\<lparr>pc_waitingForNetwork := True\<rparr>, False)
        else
          let p = p\<lparr>pc_waitingForNetwork := False, pc_open := (co_socket os = NoError)\<rparr> in
          if co_socket os \<noteq> NoError then (p\<lparr>pc_status := BRPeerStatusDisconnected\<rparr>, False)
          else if \<not> co_attr os then (notify env (PeerDisconnected ENOMEM) (p\<lparr>pc_status := BRPeerStatusDisconnected\<rparr>), False)
          else if \<not> co_thread os then (p\<lparr>pc_status := BRPeerStatusDisconnected\<rparr>, False)
          else (p, True)
      else (p, False))"

end
