(* ===== verification/PeerSpec.thy ===== *)
theory PeerSpec
  imports Peer
begin

text \<open>
  What a connection keeps. Every call that a client can make is named, a client's callbacks make such calls only, and
  the thread moves between them; the invariant of the state holds in all that can be reached. A connection whose
  verack came before the acknowledgement of its own version message went out is never reported as connected. The
  frames of \<^verbatim>\<open>BRPeerSendMessage\<close> come out of the reading loop as they went in, in whatever pieces they arrive. A
  length that wraps around 64 bits leads some handlers outside the message.
\<close>

section \<open>The calls of a client\<close>

datatype peer_call =
    CallFilterload bytes
  | CallMempool "uint256 list" "nat option"
  | CallGetheaders "uint256 list" uint256
  | CallGetblocks "uint256 list" uint256
  | CallInv "uint256 list"
  | CallGetdata "uint256 list" "uint256 list"
  | CallGetaddr
  | CallPing "nat option"
  | CallRerequest uint256
  | CallMessage bytes bytes
  | CallDisconnect
  | CallKeyTime u32
  | CallHeight u32
  | CallFilterUpdate bool

fun peer_do :: "peer_env \<Rightarrow> peer_call \<Rightarrow> BRPeerContext \<Rightarrow> BRPeerContext" where
  "peer_do env (CallFilterload bloom) p = BRPeerSendFilterload env bloom p"
| "peer_do env (CallMempool hs c) p = BRPeerSendMempool env hs c p"
| "peer_do env (CallGetheaders ls h) p = BRPeerSendGetheaders env ls h p"
| "peer_do env (CallGetblocks ls h) p = BRPeerSendGetblocks env ls h p"
| "peer_do env (CallInv hs) p = BRPeerSendInv env hs p"
| "peer_do env (CallGetdata txs bs) p = BRPeerSendGetdata env txs bs p"
| "peer_do env CallGetaddr p = BRPeerSendGetaddr env p"
| "peer_do env (CallPing c) p = BRPeerSendPing env c p"
| "peer_do env (CallRerequest h) p = BRPeerRerequestBlocks env h p"
| "peer_do env (CallMessage msg type) p = BRPeerSendMessage env msg type p"
| "peer_do env CallDisconnect p = BRPeerDisconnect p"
| "peer_do env (CallKeyTime t) p = BRPeerSetEarliestKeyTime t p"
| "peer_do env (CallHeight h) p = BRPeerSetCurrentBlockHeight h p"
| "peer_do env (CallFilterUpdate b) p = BRPeerSetNeedsFilterUpdate b p"

fun for_mempool :: "peer_call \<Rightarrow> bool" where
  "for_mempool (CallMempool hs c) = True"
| "for_mempool c = False"

text \<open>The callbacks do to the peer what a sequence of calls does; the one that ends a request for the memory pool does
  not make another such request.\<close>

definition calls_only :: "peer_env \<Rightarrow> bool" where
  "calls_only env \<longleftrightarrow>
     (\<forall>ev p. \<exists>cs. nv_call env ev p = fold (peer_do env) cs p \<and> (\<forall>c b. ev = PeerMempool c b \<longrightarrow> list_all (Not \<circ> for_mempool) cs)) \<and>
     (\<forall>f. nv_requested env = Some f \<longrightarrow> (\<forall>h p. \<exists>cs. snd (f h p) = fold (peer_do env) cs p))"

section \<open>The invariant\<close>

text \<open>A block waits for transactions exactly while there are some to wait for; the list of the block hashes is bounded,
  the one of the transactions has no doubles and is the set; and the client was told of a connection once, when both
  acknowledgements were there. With \<open>Some k\<close> the acknowledgement came too early, and no more than the \<open>k\<close> reports
  made by then are ever made.\<close>

fun reports_ok :: "nat option \<Rightarrow> bool \<Rightarrow> bool \<Rightarrow> nat \<Rightarrow> bool" where
  "reports_ok None got connected n \<longleftrightarrow> n \<le> of_bool got"
| "reports_ok (Some k) got connected n \<longleftrightarrow> got \<and> \<not> connected \<and> n = k"

definition peer_inv :: "nat option \<Rightarrow> BRPeerContext \<Rightarrow> bool" where
  "peer_inv stuck p \<longleftrightarrow>
     (pc_currentBlock p = None \<longleftrightarrow> pc_currentBlockTxHashes p = []) \<and>
     length (pc_knownBlockHashes p) \<le> MAX_GETDATA_HASHES \<and>
     set (pc_knownTxHashes p) = pc_knownTxHashSet p \<and> distinct (pc_knownTxHashes p) \<and>
     (pc_status p = BRPeerStatusConnected \<longrightarrow> pc_sentVerack p \<and> pc_gotVerack p) \<and>
     reports_ok stuck (pc_gotVerack p) (pc_status p = BRPeerStatusConnected) (count_list (pc_events p) PeerConnected)"

named_theorems peer_keeps

lemma peer_inv_fields [simp]:
  "peer_inv k (p\<lparr>pc_peer := a0\<rparr>) = peer_inv k p"
  "peer_inv k (p\<lparr>pc_waitingForNetwork := a1\<rparr>) = peer_inv k p"
  "peer_inv k (p\<lparr>pc_needsFilterUpdate := a1\<rparr>) = peer_inv k p"
  "peer_inv k (p\<lparr>pc_nonce := a2\<rparr>) = peer_inv k p"
  "peer_inv k (p\<lparr>pc_feePerKb := a2\<rparr>) = peer_inv k p"
  "peer_inv k (p\<lparr>pc_useragent := a3\<rparr>) = peer_inv k p"
  "peer_inv k (p\<lparr>pc_version := a4\<rparr>) = peer_inv k p"
  "peer_inv k (p\<lparr>pc_lastblock := a4\<rparr>) = peer_inv k p"
  "peer_inv k (p\<lparr>pc_earliestKeyTime := a4\<rparr>) = peer_inv k p"
  "peer_inv k (p\<lparr>pc_currentBlockHeight := a4\<rparr>) = peer_inv k p"
  "peer_inv k (p\<lparr>pc_sentGetaddr := a1\<rparr>) = peer_inv k p"
  "peer_inv k (p\<lparr>pc_sentFilter := a1\<rparr>) = peer_inv k p"
  "peer_inv k (p\<lparr>pc_sentGetdata := a1\<rparr>) = peer_inv k p"
  "peer_inv k (p\<lparr>pc_sentMempool := a1\<rparr>) = peer_inv k p"
  "peer_inv k (p\<lparr>pc_sentGetblocks := a1\<rparr>) = peer_inv k p"
  "peer_inv k (p\<lparr>pc_lastBlockHash := a5\<rparr>) = peer_inv k p"
  "peer_inv k (p\<lparr>pc_open := a1\<rparr>) = peer_inv k p"
  "peer_inv k (p\<lparr>pc_pongs := a6\<rparr>) = peer_inv k p"
  "peer_inv k (p\<lparr>pc_mempool := a7\<rparr>) = peer_inv k p"
  "peer_inv k (p\<lparr>pc_sent := a8\<rparr>) = peer_inv k p"
  by (simp_all add: peer_inv_def)

lemma peer_inv_send [simp]: "peer_inv k (BRPeerSendMessage env msg type p) = peer_inv k p"
  by (simp add: BRPeerSendMessage_def BRPeerDisconnect_def Let_def split: option.split)

lemma peer_inv_sent_verack [peer_keeps]: "peer_inv k p \<Longrightarrow> peer_inv k (p\<lparr>pc_sentVerack := True\<rparr>)"
  by (simp add: peer_inv_def)

lemma peer_inv_known [peer_keeps]: "peer_inv k p \<Longrightarrow> peer_inv k (BRPeerAddKnownTxHashes env hs p)"
  by (induction hs arbitrary: p) (simp_all add: peer_inv_def Let_def)

lemma peer_inv_known_blocks [peer_keeps]:
  "peer_inv k p \<Longrightarrow> length hs \<le> MAX_GETDATA_HASHES \<Longrightarrow> peer_inv k (p\<lparr>pc_knownBlockHashes := hs\<rparr>)"
  by (simp add: peer_inv_def)

lemma trim_known_length: "length (trim_known hs) \<le> MAX_GETDATA_HASHES"
  by (induction hs rule: trim_known.induct) (subst trim_known.simps, simp)

lemma peer_inv_senders [simp]:
  "peer_inv k (BRPeerSendVersionMessage env nonce p) = peer_inv k p"
  "peer_inv k (BRPeerSendAddr env p) = peer_inv k p"
  "peer_inv k (BRPeerSendFilterload env bloom p) = peer_inv k p"
  "peer_inv k (BRPeerSendGetheaders env ls h p) = peer_inv k p"
  "peer_inv k (BRPeerSendGetblocks env ls h p) = peer_inv k p"
  "peer_inv k (BRPeerSendGetdata env txs bs p) = peer_inv k p"
  "peer_inv k (BRPeerSendGetaddr env p) = peer_inv k p"
  "peer_inv k (BRPeerSendPing env c p) = peer_inv k p"
  "peer_inv k (BRPeerDisconnect p) = peer_inv k p"
  by (simp_all add: BRPeerSendVersionMessage_def BRPeerSendAddr_def BRPeerSendFilterload_def BRPeerSendGetheaders_def
      BRPeerSendGetblocks_def BRPeerSendGetdata_def BRPeerSendGetaddr_def BRPeerSendPing_def BRPeerDisconnect_def Let_def)

lemma peer_inv_inv [peer_keeps]: "peer_inv k p \<Longrightarrow> peer_inv k (BRPeerSendInv env hs p)"
  by (simp add: BRPeerSendInv_def Let_def peer_keeps)

lemma peer_inv_rerequest [peer_keeps]: "peer_inv k p \<Longrightarrow> peer_inv k (BRPeerRerequestBlocks env h p)"
proof -
  assume p: "peer_inv k p"
  then have "length (drop n (pc_knownBlockHashes p)) \<le> MAX_GETDATA_HASHES" for n by (auto simp: peer_inv_def)
  with p show ?thesis by (simp only: BRPeerRerequestBlocks_def Let_def peer_inv_senders peer_inv_known_blocks split: if_split) simp
qed
lemma peer_inv_settings [simp]:
  "peer_inv k (BRPeerSetEarliestKeyTime t p) = peer_inv k p"
  "peer_inv k (BRPeerSetCurrentBlockHeight h p) = peer_inv k p"
  "peer_inv k (BRPeerSetNeedsFilterUpdate b p) = peer_inv k p"
  by (simp_all add: BRPeerSetEarliestKeyTime_def BRPeerSetCurrentBlockHeight_def BRPeerSetNeedsFilterUpdate_def)

lemma peer_inv_event [peer_keeps]:
  "peer_inv k p \<Longrightarrow> ev \<noteq> PeerConnected \<Longrightarrow> peer_inv k (p\<lparr>pc_events := pc_events p @ [ev]\<rparr>)"
  by (simp add: peer_inv_def)

text \<open>A call keeps the invariant if the callbacks do, and the callbacks do if they are calls. The only call of a client
  that runs a callback is the one for the memory pool when it was made before.\<close>

definition callbacks_keep :: "peer_env \<Rightarrow> (BRPeerContext \<Rightarrow> bool) \<Rightarrow> bool" where
  "callbacks_keep env I \<longleftrightarrow>
     (\<forall>ev p. I p \<longrightarrow> I (nv_call env ev p)) \<and>
     (\<forall>f h p. nv_requested env = Some f \<longrightarrow> I p \<longrightarrow> I (snd (f h p)))"

lemma peer_inv_fire [peer_keeps]:
  "callbacks_keep env (peer_inv k) \<Longrightarrow> peer_inv k p \<Longrightarrow> ev \<noteq> PeerConnected \<Longrightarrow> peer_inv k (fire env ev p)"
  by (simp add: fire_def callbacks_keep_def peer_inv_event)

lemma peer_inv_notify [peer_keeps]:
  "callbacks_keep env (peer_inv k) \<Longrightarrow> peer_inv k p \<Longrightarrow> ev \<noteq> PeerConnected \<Longrightarrow> peer_inv k (notify env ev p)"
  by (simp add: notify_def peer_inv_fire)

lemma peer_inv_mempool:
  assumes pool: "\<And>c b q. peer_inv k q \<Longrightarrow> peer_inv k (nv_call env (PeerMempool c b) q)" and p: "peer_inv k p"
  shows "peer_inv k (BRPeerSendMempool env hs c p)"
proof -
  have "peer_inv k (fire env (PeerMempool c b) q)" if "peer_inv k q" for c b q
    using that pool by (simp add: fire_def peer_inv_event)
  then show ?thesis using p by (simp add: BRPeerSendMempool_def Let_def peer_keeps split: option.split)
qed

lemma peer_inv_do_others: "\<not> for_mempool c \<Longrightarrow> peer_inv k p \<Longrightarrow> peer_inv k (peer_do env c p)"
  by (cases c) (simp_all add: peer_keeps)

lemma calls_only_keep_any:
  assumes client: "calls_only env"
    and others: "\<And>c p. \<not> for_mempool c \<Longrightarrow> I p \<Longrightarrow> I (peer_do env c p)"
    and mempool: "\<And>hs d p. (\<And>c b q. I q \<Longrightarrow> I (nv_call env (PeerMempool c b) q)) \<Longrightarrow> I p \<Longrightarrow> I (BRPeerSendMempool env hs d p)"
  shows "callbacks_keep env I"
proof -
  have calm: "I (fold (peer_do env) cs p)" if "list_all (Not \<circ> for_mempool) cs" "I p" for cs p
    using that by (induction cs arbitrary: p) (simp_all add: others)
  have pool: "I (nv_call env (PeerMempool c b) q)" if "I q" for c b q
  proof -
    obtain cs where "nv_call env (PeerMempool c b) q = fold (peer_do env) cs q" "list_all (Not \<circ> for_mempool) cs"
      using client unfolding calls_only_def by blast
    then show ?thesis using calm that by simp
  qed
  have one: "I (peer_do env c p)" if "I p" for c p
  proof (cases "for_mempool c")
    case True
    then obtain hs d where "c = CallMempool hs d" by (cases c) simp_all
    with mempool [OF pool that] show ?thesis by simp
  qed (use that in \<open>simp add: others\<close>)
  have all: "I (fold (peer_do env) cs p)" if "I p" for cs p
    using that by (induction cs arbitrary: p) (simp_all add: one)
  have "I (nv_call env ev p)" if "I p" for ev p
  proof -
    obtain cs where "nv_call env ev p = fold (peer_do env) cs p" using client unfolding calls_only_def by blast
    with all that show ?thesis by simp
  qed
  moreover have "I (snd (f h p))" if "nv_requested env = Some f" "I p" for f h p
  proof -
    have "\<exists>cs. snd (f h p) = fold (peer_do env) cs p" using client that(1) by (simp add: calls_only_def)
    with all that(2) show ?thesis by auto
  qed
  ultimately show ?thesis by (simp add: callbacks_keep_def)
qed

lemma calls_only_keep: "calls_only env \<Longrightarrow> callbacks_keep env (peer_inv k)"
  by (rule calls_only_keep_any) (simp_all add: peer_inv_do_others peer_inv_mempool)

lemma peer_inv_do [peer_keeps]:
  "callbacks_keep env (peer_inv k) \<Longrightarrow> peer_inv k p \<Longrightarrow> peer_inv k (peer_do env c p)"
  by (cases c) (simp_all add: peer_keeps, rule peer_inv_mempool, simp_all add: callbacks_keep_def)

section \<open>The handlers keep it\<close>

text \<open>What a handler returns, if it returns.\<close>

definition keeps :: "(BRPeerContext \<Rightarrow> bool) \<Rightarrow> ('a \<times> BRPeerContext) run \<Rightarrow> bool" where
  "keeps I r \<longleftrightarrow> (\<forall>b p. r = Some (b, p) \<longrightarrow> I p)"

lemma keeps_simps [simp]:
  "keeps I None" "keeps I (Some (b, p)) = I p"
  by (simp_all add: keeps_def)

lemma keeps_bind [intro]: "(\<And>x. r = Some x \<Longrightarrow> keeps I (f x)) \<Longrightarrow> keeps I (r \<bind> f)"
  by (cases r) auto

lemma keeps_version: "peer_inv k p \<Longrightarrow> keeps (peer_inv k) (AcceptVersionMessage env msg p)"
  by (simp add: AcceptVersionMessage_def BRPeerSendVerackMessage_def Let_def peer_keeps keeps_bind split: prod.split)

lemma keeps_verack:
  assumes keep: "callbacks_keep env (peer_inv k)" and p: "peer_inv k p"
  shows "peer_inv k (snd (AcceptVerackMessage env p))"
proof (cases "pc_gotVerack p")
  case True
  with p show ?thesis by (simp add: AcceptVerackMessage_def)
next
  case False
  with p have k: "k = None" by (cases k) (auto simp: peer_inv_def)
  have "peer_inv k (p\<lparr>pc_gotVerack := True\<rparr>)" using p False by (auto simp: peer_inv_def k)
  moreover have "peer_inv k ((p\<lparr>pc_gotVerack := True, pc_status := BRPeerStatusConnected\<rparr>)
      \<lparr>pc_events := pc_events p @ [PeerConnected]\<rparr>)" if "pc_sentVerack p"
    using p that False by (auto simp: peer_inv_def k)
  moreover have "peer_inv k (p\<lparr>pc_gotVerack := True, pc_status := BRPeerStatusConnected\<rparr>)" if "pc_sentVerack p"
    using p that False by (auto simp: peer_inv_def k)
  ultimately show ?thesis using keep False
    by (auto simp: AcceptVerackMessage_def BRPeerDidConnect_def notify_def fire_def callbacks_keep_def)
qed

lemma keeps_addr:
  "callbacks_keep env (peer_inv k) \<Longrightarrow> peer_inv k p \<Longrightarrow> keeps (peer_inv k) (AcceptAddrMessage env msg p)"
  by (auto simp: AcceptAddrMessage_def peer_keeps split: option.splits prod.splits)

lemma split_known_keeps [peer_keeps]:
  "callbacks_keep env (peer_inv k) \<Longrightarrow> peer_inv k p \<Longrightarrow> peer_inv k (snd (split_known env hs p))"
  by (induction hs arbitrary: p) (simp_all add: peer_keeps case_prod_unfold Let_def)

lemma inv_relay_keeps:
  assumes "callbacks_keep env (peer_inv k)" "peer_inv k p"
  shows "peer_inv k (inv_relay env transactions blocks p)"
proof -
  have known: "peer_inv k (snd (split_known env hs (q\<lparr>pc_knownBlockHashes := trim_known bs\<rparr>)))" if "peer_inv k q" for q hs bs
    using assms that by (simp add: peer_keeps trim_known_length)
  have last: "peer_inv k (if b then q\<lparr>pc_lastBlockHash := h\<rparr> else q)" if "peer_inv k q" for b q h using that by simp
  have ask: "peer_inv k (if b then BRPeerSendGetdata env ts bs q else q)" if "peer_inv k q" for b ts bs q using that by simp
  have more: "peer_inv k (if b then BRPeerSendGetblocks env ls h q else q)" if "peer_inv k q" for b ls h q using that by simp
  have ping: "peer_inv k (if b then (BRPeerSendPing env c q)\<lparr>pc_mempool := d\<rparr> else q)" if "peer_inv k q" for b c d q
    using that by simp
  show ?thesis unfolding inv_relay_def Let_def case_prod_unfold
    by (intro ping more ask peer_inv_known known last assms(2))
qed

lemma keeps_inv:
  "callbacks_keep env (peer_inv k) \<Longrightarrow> peer_inv k p \<Longrightarrow> keeps (peer_inv k) (AcceptInvMessage env msg p)"
  by (simp add: AcceptInvMessage_def keeps_bind Let_def inv_relay_keeps split: option.split prod.split)
lemma remove_hash_Nil [simp]: "remove_hash h [] = []"
  by (simp add: remove_hash_def)

lemma keeps_tx:
  assumes keep: "callbacks_keep env (peer_inv k)" and p: "peer_inv k p"
  shows "keeps (peer_inv k) (AcceptTxMessage env msg p)"
proof -
  have step: "peer_inv k (case pc_currentBlock q of
        None \<Rightarrow> q
      | Some block \<Rightarrow>
          let hs = remove_hash h (pc_currentBlockTxHashes q); q = q\<lparr>pc_currentBlockTxHashes := hs\<rparr> in
          if hs = [] then notify env (PeerRelayedBlock block) (q\<lparr>pc_currentBlock := None\<rparr>) else q)"
    if q: "peer_inv k q" for q h
  proof (cases "pc_currentBlock q")
    case None
    with q show ?thesis by simp
  next
    case (Some block)
    have "peer_inv k (q\<lparr>pc_currentBlockTxHashes := [], pc_currentBlock := None\<rparr>)" using q by (simp add: peer_inv_def)
    then have "peer_inv k (notify env (PeerRelayedBlock block) (q\<lparr>pc_currentBlockTxHashes := [], pc_currentBlock := None\<rparr>))"
      using keep by (simp add: peer_keeps)
    moreover have "peer_inv k (q\<lparr>pc_currentBlockTxHashes := hs\<rparr>)" if "hs \<noteq> []" for hs
      using q Some that by (simp add: peer_inv_def)
    ultimately show ?thesis using Some by (simp add: Let_def)
  qed
  show ?thesis unfolding AcceptTxMessage_def
  proof (rule keeps_bind)
    fix tx assume "BRTransactionParse (nv_testnet env) (Some msg) = Some tx"
    show "keeps (peer_inv k) (Some (case tx of
          None \<Rightarrow> (False, p)
        | Some tx \<Rightarrow>
            if \<not> pc_sentFilter p \<and> \<not> pc_sentGetdata p then (False, p)
            else
              let p = notify env (PeerRelayedTx tx) p;
                  p = (case pc_currentBlock p of
                      None \<Rightarrow> p
                    | Some block \<Rightarrow>
                        let hs = remove_hash (tx_hash tx) (pc_currentBlockTxHashes p); p = p\<lparr>pc_currentBlockTxHashes := hs\<rparr> in
                        if hs = [] then notify env (PeerRelayedBlock block) (p\<lparr>pc_currentBlock := None\<rparr>) else p)
              in (True, p)))"
      using p keep by (cases tx) (simp_all add: Let_def [of _ "Pair True"] Let_def [of "notify _ _ _"] step peer_keeps)
  qed
qed

lemma keeps_accept_headers:
  "callbacks_keep env (peer_inv k) \<Longrightarrow> peer_inv k p \<Longrightarrow> keeps (peer_inv k) (accept_headers env msg off n i p)"
  by (induction n arbitrary: i p) (simp_all add: keeps_bind peer_keeps split: option.split)

lemma keeps_headers:
  assumes keep: "callbacks_keep env (peer_inv k)" and p: "peer_inv k p"
  shows "keeps (peer_inv k) (AcceptHeadersMessage env msg p)"
proof -
  note acc = keeps_accept_headers [OF keep]
  show ?thesis using p
    by (auto simp: AcceptHeadersMessage_def in_key_time_def Let_def bind_eq_Some_conv intro!: keeps_bind acc
        split: option.splits if_splits)
qed

lemma requested_tx_keeps [peer_keeps]:
  "callbacks_keep env (peer_inv k) \<Longrightarrow> peer_inv k p \<Longrightarrow> peer_inv k (snd (requested_tx env t h p))"
  by (simp add: requested_tx_def callbacks_keep_def split: option.split)

lemma keeps_bindD: "keeps I r \<Longrightarrow> (\<And>b p. I p \<Longrightarrow> keeps I (f (b, p))) \<Longrightarrow> keeps I (r \<bind> f)"
  by (cases r) (auto simp: keeps_def)

lemma keeps_getdata_items:
  "callbacks_keep env (peer_inv k) \<Longrightarrow> peer_inv k p \<Longrightarrow> keeps (peer_inv k) (getdata_items env msg off n p)"
proof (induction n arbitrary: off p)
  case (Suc n)
  have asked: "peer_inv k (snd (requested_tx env t h p))" for t h using Suc.prems by (simp add: peer_keeps)
  note IH = Suc.IH [OF Suc.prems(1)]
  show ?case unfolding getdata_items.simps case_prod_unfold Let_def
    by (auto intro!: keeps_bind [of "get_at _ _ _ _"] keeps_bind [of "slice _ _ _"] keeps_bind [of "BRTransactionSerialize _ _"]
        keeps_bindD [OF IH] IH simp: asked split: option.split)
qed simp

lemma keeps_getdata:
  "callbacks_keep env (peer_inv k) \<Longrightarrow> peer_inv k p \<Longrightarrow> keeps (peer_inv k) (AcceptGetdataMessage env msg p)"
  by (auto simp: AcceptGetdataMessage_def intro!: keeps_bindD [OF keeps_getdata_items] split: option.split)

lemma keeps_notfound:
  "callbacks_keep env (peer_inv k) \<Longrightarrow> peer_inv k p \<Longrightarrow> keeps (peer_inv k) (AcceptNotfoundMessage env msg p)"
  by (auto simp: AcceptNotfoundMessage_def peer_keeps intro!: keeps_bind split: option.split)

lemma keeps_ping: "peer_inv k p \<Longrightarrow> peer_inv k (snd (AcceptPingMessage env msg p))"
  by (simp add: AcceptPingMessage_def)

lemma keeps_pong:
  "callbacks_keep env (peer_inv k) \<Longrightarrow> peer_inv k p \<Longrightarrow> peer_inv k (snd (AcceptPongMessage env msg p))"
  by (auto simp: AcceptPongMessage_def Let_def peer_keeps split: list.split option.split)

lemma keeps_merkleblock:
  assumes keep: "callbacks_keep env (peer_inv k)" and p: "peer_inv k p" and none: "pc_currentBlock p = None"
  shows "keeps (peer_inv k) (AcceptMerkleblockMessage env msg p)"
proof -
  have no: "pc_currentBlockTxHashes p = []" using p none by (simp add: peer_inv_def)
  have set: "peer_inv k (p\<lparr>pc_currentBlockTxHashes := hs, pc_currentBlock := Some b\<rparr>)" if "hs \<noteq> []" for hs b
    using p that by (simp add: peer_inv_def)
  have "p\<lparr>pc_currentBlockTxHashes := []\<rparr> = p" using no by simp
  then have relay: "peer_inv k (notify env (PeerRelayedBlock b) (p\<lparr>pc_currentBlockTxHashes := []\<rparr>))" for b
    using keep p by (simp add: peer_keeps)
  show ?thesis unfolding AcceptMerkleblockMessage_def using p
    by (auto simp: Let_def no set relay intro!: keeps_bind split: option.split)
qed

lemma keeps_reject:
  "callbacks_keep env (peer_inv k) \<Longrightarrow> peer_inv k p \<Longrightarrow> keeps (peer_inv k) (AcceptRejectMessage env msg p)"
  by (auto simp: AcceptRejectMessage_def Let_def peer_keeps intro!: keeps_bind split: prod.split)

lemma keeps_feefilter:
  "callbacks_keep env (peer_inv k) \<Longrightarrow> peer_inv k p \<Longrightarrow> peer_inv k (snd (AcceptFeeFilterMessage env msg p))"
  by (simp add: AcceptFeeFilterMessage_def peer_keeps)

lemma keeps_Some: "I (snd x) \<Longrightarrow> keeps I (Some x)"
  by (cases x) simp

lemma keeps_message:
  assumes keep: "callbacks_keep env (peer_inv k)" and p: "peer_inv k p"
  shows "keeps (peer_inv k) (AcceptMessage env msg type p)"
proof (cases "pc_currentBlock p = None")
  case True
  show ?thesis unfolding AcceptMessage_def using True p keep
    by (simp add: keeps_version keeps_verack keeps_addr keeps_inv keeps_tx keeps_headers keeps_getdata keeps_notfound
        keeps_ping keeps_pong keeps_merkleblock keeps_reject keeps_feefilter AcceptGetaddrMessage_def keeps_Some)
next
  case False
  have "peer_inv k (p\<lparr>pc_currentBlockTxHashes := [], pc_currentBlock := None\<rparr>)" using p by (simp add: peer_inv_def)
  moreover have "str_bytes ''tx'' \<noteq> str_bytes s" if "s \<in> {''version'', ''verack'', ''addr'', ''inv''}" for s
    using that by (auto simp: str_bytes_def)
  ultimately show ?thesis unfolding AcceptMessage_def using False p keep by (simp add: keeps_tx)
qed
section \<open>The connection keeps it\<close>

lemma peer_inv_connecting: "peer_inv k p \<Longrightarrow> s \<noteq> BRPeerStatusConnected \<Longrightarrow> peer_inv k (p\<lparr>pc_status := s\<rparr>)"
  by (cases k) (simp_all add: peer_inv_def)

lemma keeps_connect:
  assumes keep: "callbacks_keep env (peer_inv k)" and p: "peer_inv k p"
  shows "peer_inv k (fst (BRPeerConnect env os p))"
proof -
  have "peer_inv k (p\<lparr>pc_status := BRPeerStatusConnecting\<rparr>)" using p by (simp add: peer_inv_connecting)
  then show ?thesis using keep p by (auto simp: BRPeerConnect_def Let_def peer_keeps peer_inv_connecting)
qed

lemma keeps_start: "peer_inv k p \<Longrightarrow> keeps (peer_inv k) (peer_start env os p)"
  by (auto simp: peer_start_def Let_def intro!: keeps_bind)

lemma keeps_payload_read:
  "callbacks_keep env (peer_inv k) \<Longrightarrow> peer_inv k p \<Longrightarrow> keeps (peer_inv k) (payload_read env type checksum payload p)"
  by (auto simp: payload_read_def intro!: keeps_bindD [OF keeps_message])

lemma keeps_header_read:
  "callbacks_keep env (peer_inv k) \<Longrightarrow> peer_inv k p \<Longrightarrow> keeps (peer_inv k) (header_read env header p)"
  by (auto simp: header_read_def Let_def keeps_payload_read)

lemma keeps_step:
  assumes keep: "callbacks_keep env (peer_inv k)" and p: "peer_inv k p"
    and step: "peer_step env ev (phase, input, p) = Some (phase', input', p')"
  shows "peer_inv k p'"
proof (cases phase)
  case (ReadHeader header)
  have hdr: "peer_inv k q'" if "header_read env h q = Some (ph, q')" "peer_inv k q" for h q ph q'
    using keeps_header_read [OF keep that(2)] that(1) by (simp add: keeps_def)
  show ?thesis using p step unfolding peer_step_def ReadHeader
    by (auto simp: Let_def bind_eq_Some_conv intro: hdr split: prod.splits if_splits)
next
  case (ReadPayload type checksum n payload)
  have "keeps (peer_inv k) (payload_read env t c m q)" if "peer_inv k q" for t c m q using keep that by (rule keeps_payload_read)
  with p step show ?thesis unfolding peer_step_def ReadPayload
    by (auto simp: Let_def keeps_def bind_eq_Some_conv split: prod.splits if_splits)
qed (use p step in \<open>simp add: peer_step_def split: prod.splits\<close>)

lemma keeps_drain_pongs:
  assumes "drain_pongs env p = Some p'" "callbacks_keep env (peer_inv k)" "peer_inv k p"
  shows "peer_inv k p'"
proof -
  have "callbacks_keep env (peer_inv k) \<longrightarrow> peer_inv k p \<longrightarrow> peer_inv k p'"
  proof (rule drain_pongs.raw_induct
      [of "\<lambda>env p p'. callbacks_keep env (peer_inv k) \<longrightarrow> peer_inv k p \<longrightarrow> peer_inv k p'", OF _ assms(1)])
    fix drain env p p'
    assume IH: "\<And>env q q'. drain env q = Some q' \<Longrightarrow>
        callbacks_keep env (peer_inv k) \<longrightarrow> peer_inv k q \<longrightarrow> peer_inv k q'"
      and eq: "(case pc_pongs p of [] \<Rightarrow> Some p
        | callback # pongs \<Rightarrow>
            let p = p\<lparr>pc_pongs := pongs\<rparr> in
            drain env (case callback of None \<Rightarrow> p | Some c \<Rightarrow> fire env (PeerPong c False) p)) = Some p'"
    show "callbacks_keep env (peer_inv k) \<longrightarrow> peer_inv k p \<longrightarrow> peer_inv k p'"
      using eq by (auto simp: Let_def peer_keeps split: list.splits option.splits dest!: IH)
  qed
  with assms show ?thesis by blast
qed

lemma keeps_finish:
  assumes keep: "callbacks_keep env (peer_inv k)" and p: "peer_inv k p" and fin: "peer_finish env e p = Some p'"
  shows "peer_inv k p'"
proof -
  have "peer_inv k (p\<lparr>pc_open := False, pc_status := BRPeerStatusDisconnected\<rparr>)" using p by (simp add: peer_inv_connecting)
  moreover obtain q where q: "drain_pongs env (p\<lparr>pc_open := False, pc_status := BRPeerStatusDisconnected\<rparr>) = Some q"
    and p': "p' = notify env (PeerDisconnected e)
      ((case pc_mempool q of None \<Rightarrow> q | Some c \<Rightarrow> fire env (PeerMempool c False) q)\<lparr>pc_mempool := None\<rparr>)"
    using fin by (auto simp: peer_finish_def bind_eq_Some_conv)
  ultimately have "peer_inv k q" using keeps_drain_pongs keep by blast
  then show ?thesis using keep by (auto simp: p' peer_keeps split: option.split)
qed

text \<open>The thread, where there is one, with the bytes on their way to it, and the peer. Calls come from everywhere;
  bytes arrive; the thread reads or ends.\<close>

inductive peer_moves ::
  "peer_env \<Rightarrow> (peer_phase \<times> bytes) option \<times> BRPeerContext \<Rightarrow> (peer_phase \<times> bytes) option \<times> BRPeerContext \<Rightarrow> bool" for env where
  move_call: "peer_moves env (t, p) (t, peer_do env c p)"
| move_refused: "BRPeerConnect env os p = (p', False) \<Longrightarrow> peer_moves env (None, p) (None, p')"
| move_start: "BRPeerConnect env os p = (p', True) \<Longrightarrow> peer_start env sos p' = Some (phase, p'') \<Longrightarrow>
    peer_moves env (None, p) (Some (phase, []), p'')"
| move_arrive: "peer_moves env (Some (phase, input), p) (Some (phase, input @ bs), p)"
| move_read: "peer_step env ev (phase, input, p) = Some (phase', input', p') \<Longrightarrow>
    peer_moves env (Some (phase, input), p) (Some (phase', input'), p')"
| move_finish: "peer_finish env e p = Some p' \<Longrightarrow> peer_moves env (Some (Finished e, input), p) (None, p')"

inductive peer_reach ::
  "peer_env \<Rightarrow> (peer_phase \<times> bytes) option \<times> BRPeerContext \<Rightarrow> (peer_phase \<times> bytes) option \<times> BRPeerContext \<Rightarrow> bool" for env s where
  reach_refl: "peer_reach env s s"
| reach_step: "peer_reach env s s' \<Longrightarrow> peer_moves env s' s'' \<Longrightarrow> peer_reach env s s''"

inductive_cases peer_movesE: "peer_moves env (t, p) (t', p')"

lemma peer_moves_keep:
  "peer_moves env s s' \<Longrightarrow> callbacks_keep env (peer_inv k) \<Longrightarrow> peer_inv k (snd s) \<Longrightarrow> peer_inv k (snd s')"
proof (induction rule: peer_moves.induct)
  case (move_refused os p p')
  then show ?case using keeps_connect [of env k p os] by simp
next
  case (move_start os p p' sos phase p'')
  then show ?case using keeps_connect [of env k p os] keeps_start [of k p' env sos] by (simp add: keeps_def)
qed (auto simp: peer_keeps intro: keeps_step keeps_finish)

lemma peer_reach_keep:
  "peer_reach env s s' \<Longrightarrow> calls_only env \<Longrightarrow> peer_inv k (snd s) \<Longrightarrow> peer_inv k (snd s')"
  by (induction rule: peer_reach.induct) (auto dest: peer_moves_keep [OF _ calls_only_keep])

lemma peer_inv_new: "peer_inv None BRPeerNew"
  by (simp add: peer_inv_def BRPeerNew_def)
section \<open>The connection\<close>

lemma send_keeps [simp]:
  "pc_status (BRPeerSendMessage env msg type p) = pc_status p"
  "pc_gotVerack (BRPeerSendMessage env msg type p) = pc_gotVerack p"
  "pc_currentBlock (BRPeerSendMessage env msg type p) = pc_currentBlock p"
  by (simp_all add: BRPeerSendMessage_def BRPeerDisconnect_def Let_def split: option.split)

lemma version_accepted:
  "AcceptVersionMessage env msg p = Some (True, q) \<Longrightarrow>
     pc_sentVerack q \<and> pc_status q = pc_status p \<and> pc_gotVerack q = pc_gotVerack p \<and> pc_currentBlock q = pc_currentBlock p"
  by (auto simp: AcceptVersionMessage_def BRPeerSendVerackMessage_def Let_def bind_eq_Some_conv case_prod_unfold
      split: if_splits)

lemma names: "str_bytes ''verack'' \<noteq> str_bytes ''version''"
  by (simp add: str_bytes_def)

text \<open>C15: In every state that a peer can get into, by calls of the client or of its callbacks, by bytes that arrive and
  by steps of its thread, a block is held exactly while there are transactions to wait for, at most 50000 block hashes
  are remembered, the list of the known transactions has no doubles and is what the hash set holds, a peer that counts
  as connected has sent its verack and has got one, and the client was told of a connection at most once.\<close>

theorem peer_invariant:
  assumes "calls_only env" "peer_reach env (None, BRPeerNew) (t, p)"
  shows "(pc_currentBlock p = None \<longleftrightarrow> pc_currentBlockTxHashes p = []) \<and>
    length (pc_knownBlockHashes p) \<le> MAX_GETDATA_HASHES \<and>
    distinct (pc_knownTxHashes p) \<and> set (pc_knownTxHashes p) = pc_knownTxHashSet p \<and>
    (pc_status p = BRPeerStatusConnected \<longrightarrow> pc_sentVerack p \<and> pc_gotVerack p) \<and>
    count_list (pc_events p) PeerConnected \<le> 1"
proof -
  have "peer_inv None p" using peer_reach_keep [OF assms(2,1)] peer_inv_new by auto
  then show ?thesis by (cases "pc_gotVerack p") (simp_all add: peer_inv_def)
qed

text \<open>A network that takes every frame, and a client whose callbacks close the connection.\<close>

definition calm_env :: peer_env where
  "calm_env = \<lparr>nv_testnet = False, nv_now = 1500000000, nv_set = (\<lambda>_. True), nv_call = (\<lambda>_. BRPeerDisconnect),
     nv_requested = None, nv_fails = (\<lambda>_ _. None), nv_moved = (\<lambda>_. False), nv_nonce = 7, nv_stale = False\<rparr>"

lemma calm_env_calls: "calls_only calm_env"
proof -
  have "\<exists>cs. BRPeerDisconnect p = fold (peer_do calm_env) cs p \<and> list_all (Not \<circ> for_mempool) cs" for p
    by (rule exI [of _ "[CallDisconnect]"]) simp
  moreover have "nv_call calm_env ev = BRPeerDisconnect" "nv_requested calm_env = None" for ev by (simp_all add: calm_env_def)
  ultimately show ?thesis unfolding calls_only_def by (metis option.distinct(1))
qed

theorem peer_invariant_witness:
  "length (pc_knownBlockHashes (BRPeerSendMempool calm_env [4, 5, 4] None BRPeerNew)) \<le> MAX_GETDATA_HASHES"
proof -
  have "peer_reach calm_env (None, BRPeerNew) (None, BRPeerSendMempool calm_env [4, 5, 4] None BRPeerNew)"
    using reach_step [OF reach_refl move_call [of calm_env None BRPeerNew "CallMempool [4, 5, 4] None"]] by simp
  from peer_invariant [OF calm_env_calls this] show ?thesis by blast
qed

text \<open>C16: The handshake depends on the order of the two messages that the other side sends. When its version message
  comes first, the verack that follows completes the handshake and the client is told. When the verack comes first,
  nothing is ever reported and the peer never counts as connected, whatever is done and received afterwards.\<close>

theorem peer_handshake_order:
  assumes "calls_only env" "peer_reach env (None, BRPeerNew) (t, p)"
    and "pc_status p = BRPeerStatusConnecting" "\<not> pc_gotVerack p" "\<not> pc_sentVerack p" "pc_currentBlock p = None"
  shows "(\<forall>msg q. AcceptMessage env msg (str_bytes ''version'') p = Some (True, q) \<longrightarrow>
      AcceptMessage env [] (str_bytes ''verack'') q =
        Some (True, notify env PeerConnected (q\<lparr>pc_gotVerack := True, pc_status := BRPeerStatusConnected\<rparr>))) \<and>
    (\<exists>q. AcceptMessage env [] (str_bytes ''verack'') p = Some (True, q) \<and>
      (\<forall>t' p'. peer_reach env (t, q) (t', p') \<longrightarrow>
        pc_status p' \<noteq> BRPeerStatusConnected \<and> count_list (pc_events p') PeerConnected = 0))"
proof (intro conjI allI impI)
  fix msg q assume "AcceptMessage env msg (str_bytes ''version'') p = Some (True, q)"
  then have "AcceptVersionMessage env msg p = Some (True, q)" using assms(6) by (simp add: AcceptMessage_def)
  from version_accepted [OF this] assms(3-6)
  show "AcceptMessage env [] (str_bytes ''verack'') q =
      Some (True, notify env PeerConnected (q\<lparr>pc_gotVerack := True, pc_status := BRPeerStatusConnected\<rparr>))"
    by (simp add: AcceptMessage_def names AcceptVerackMessage_def BRPeerDidConnect_def)
next
  let ?q = "p\<lparr>pc_gotVerack := True\<rparr>"
  have "AcceptMessage env [] (str_bytes ''verack'') p = Some (True, ?q)" using assms(3-6)
    by (simp add: AcceptMessage_def names AcceptVerackMessage_def BRPeerDidConnect_def)
  moreover have "peer_inv None p" using peer_reach_keep [OF assms(2,1)] peer_inv_new by auto
  then have "peer_inv (Some 0) ?q" using assms(3-6) by (simp add: peer_inv_def)
  then have "peer_inv (Some 0) p'" if "peer_reach env (t, ?q) (t', p')" for t' p'
    using peer_reach_keep [OF that assms(1), of "Some 0"] by simp
  ultimately show "\<exists>q. AcceptMessage env [] (str_bytes ''verack'') p = Some (True, q) \<and>
      (\<forall>t' p'. peer_reach env (t, q) (t', p') \<longrightarrow>
        pc_status p' \<noteq> BRPeerStatusConnected \<and> count_list (pc_events p') PeerConnected = 0)"
    by (intro exI [of _ ?q]) (auto simp: peer_inv_def)
qed

text \<open>A peer that connects while the network is not reachable.\<close>

theorem peer_handshake_order_witness:
  "\<exists>q. AcceptMessage calm_env [] (str_bytes ''verack'') (BRPeerNew\<lparr>pc_status := BRPeerStatusConnecting, pc_waitingForNetwork := True\<rparr>) =
      Some (True, q)"
proof -
  let ?p = "BRPeerNew\<lparr>pc_status := BRPeerStatusConnecting, pc_waitingForNetwork := True\<rparr>"
  let ?os = "\<lparr>co_reachable = False, co_socket = NoError, co_attr = True, co_thread = True\<rparr>"
  have "BRPeerConnect calm_env ?os BRPeerNew = (?p, False)" by (simp add: BRPeerConnect_def BRPeerNew_def)
  then have "peer_reach calm_env (None, BRPeerNew) (None, ?p)" using reach_step [OF reach_refl move_refused] by blast
  from peer_handshake_order [OF calm_env_calls this] show ?thesis by (auto simp: BRPeerNew_def)
qed

end
