(* ===== verification/PeerWire.thy ===== *)
theory PeerWire
  imports PeerSpec HashSpec AddressSpec
begin

text \<open>
  What goes over the wire. A frame written by \<^verbatim>\<open>BRPeerSendMessage\<close> is found by the reading loop of the other side behind
  whatever comes before it, and its payload is handed on under its type, in whatever pieces the bytes arrive. The
  inventories that are sent are read back item by item. A count or a length near \<open>2 ^ 64\<close> passes the checks of the
  messages and leads outside.
\<close>

section \<open>Frames\<close>

lemma le32_get: "UInt32GetLE (UInt32SetLE x @ rest) = x"
proof -
  have "UInt32GetLE (b @ rest) = UInt32GetLE b" if "length b = 4" for b using that by (simp add: UInt32GetLE_def nth_append)
  then show ?thesis by (simp add: le32.length_enc le32.dec_enc)
qed


definition frame_header :: "bool \<Rightarrow> bytes \<Rightarrow> bytes \<Rightarrow> bytes" where
  "frame_header testnet msg type =
     UInt32SetLE (magic_number testnet) @ type_field type @ UInt32SetLE (of_nat (length msg)) @ take 4 (BRSHA256_2 msg)"

lemma message_frame_split: "message_frame testnet msg type = frame_header testnet msg type @ msg"
  by (simp add: message_frame_def frame_header_def)

lemma length_type_field [simp]: "length (type_field type) = 12"
  by (simp add: type_field_def)

lemma length_frame_header [simp]: "length (frame_header testnet msg type) = 24"
  by (simp add: frame_header_def)

text \<open>The types are C strings that leave room for the null byte.\<close>

definition type_ok :: "bytes \<Rightarrow> bool" where
  "type_ok type \<longleftrightarrow> length type \<le> 11 \<and> 0 \<notin> set type"

lemma frame_header_type:
  assumes "type_ok type"
  shows "takeWhile (\<lambda>b. b \<noteq> 0) (drop 4 (frame_header testnet msg type)) = type"
    and "frame_header testnet msg type ! 15 = 0"
proof -
  obtain n where n: "type_field type = type @ 0 # replicate n 0" and len: "length type + n = 11"
  proof
    have "12 - length type = Suc (11 - length type)" using assms unfolding type_ok_def by linarith
    then show "type_field type = type @ 0 # replicate (11 - length type) 0"
      using assms by (simp add: type_field_def type_ok_def)
  qed (use assms in \<open>simp add: type_ok_def\<close>)
  have "b \<noteq> 0" if "b \<in> set type" for b using assms that by (auto simp: type_ok_def)
  then show "takeWhile (\<lambda>b. b \<noteq> 0) (drop 4 (frame_header testnet msg type)) = type"
    by (simp add: frame_header_def n le32.length_enc takeWhile_append2)
  have "type_field type ! 11 = 0" using len by (auto simp: n nth_append nth_Cons')
  then show "frame_header testnet msg type ! 15 = 0"
    by (simp add: frame_header_def nth_append le32.length_enc)
qed

lemma frame_header_length: "UInt32GetLE (drop 16 (frame_header testnet msg type)) = of_nat (length msg)"
  by (simp add: frame_header_def le32_get)

lemma frame_header_checksum: "UInt32GetLE (drop 20 (frame_header testnet msg type)) = UInt32GetLE (BRSHA256_2 msg)"
  by (simp add: frame_header_def UInt32GetLE_def)

text \<open>The whole header leads to the message or to its payload.\<close>

lemma header_read_frame:
  assumes "type_ok type" "length msg \<le> MAX_MSG_LENGTH" "pc_open p"
  shows "header_read env (frame_header testnet msg type) p =
     (if msg = [] then payload_read env type (UInt32GetLE (BRSHA256_2 msg)) [] p
      else Some (ReadPayload type (UInt32GetLE (BRSHA256_2 msg)) (length msg) [], p))"
proof -
  have "unat (of_nat (length msg) :: u32) = length msg" using assms(2) by (simp add: unat_of_nat)
  then show ?thesis using assms
    by (simp add: header_read_def header_terminated_def frame_header_type frame_header_length frame_header_checksum)
qed

section \<open>Pieces\<close>

text \<open>Reads that get at least one byte, before their deadline.\<close>

abbreviation pieces :: "nat list \<Rightarrow> (peer_read \<times> bool \<times> bool) list" where
  "pieces ns \<equiv> map (\<lambda>n. (Read n, False, False)) ns"

lemma payload_step:
  "read_some (Read n) (m - length payload) input = (NoError, got, input') \<Longrightarrow> pc_open p \<Longrightarrow>
     peer_step env (Read n, False, False) (ReadPayload type c m payload, input, p) =
       (if length (payload @ got) = m
        then do { (phase, p) \<leftarrow> payload_read env type c (payload @ got) p; Some (phase, input', p) }
        else Some (ReadPayload type c m (payload @ got), input', p))"
  by (simp add: peer_step_def)

lemma header_step:
  "read_some (Read n) (24 - length header) input = (NoError, got, input') \<Longrightarrow> pc_open p \<Longrightarrow>
     peer_step env (Read n, False, False) (ReadHeader header, input, p) =
       (if length (seek_magic (nv_testnet env) (header @ got)) < 24
        then Some (ReadHeader (seek_magic (nv_testnet env) (header @ got)), input', p)
        else do { (phase, p) \<leftarrow> header_read env (seek_magic (nv_testnet env) (header @ got)) p; Some (phase, input', p) })"
  by (simp add: peer_step_def)

lemma payload_pieces:
  assumes "list_all (\<lambda>n. 0 < n) ns" "l < length msg" "length msg - l \<le> length ns" "pc_open p"
  shows "\<exists>k \<le> length msg - l. peer_steps env (pieces (take k ns)) (ReadPayload type c (length msg) (take l msg), drop l msg @ rest, p) =
    (do { (phase, p) \<leftarrow> payload_read env type c msg p; Some (phase, rest, p) })"
  using assms
proof (induction ns arbitrary: l)
  case (Cons n ns)
  let ?m = "min n (length msg - l)"
  have got: "read_some (Read n) (length msg - length (take l msg)) (drop l msg @ rest) =
      (NoError, take ?m (drop l msg), drop (l + ?m) msg @ rest)"
    using Cons.prems(2) by (simp add: min_def add.commute drop_append)
  have acc: "take l msg @ take ?m (drop l msg) = take (l + ?m) msg" by (simp add: take_add)
  show ?case
  proof (cases "l + ?m = length msg")
    case True
    then show ?thesis using got acc Cons.prems
      by (intro exI [of _ 1]) (simp add: payload_step [OF got] acc case_prod_unfold)
  next
    case False
    with Cons.prems have l: "l + ?m < length msg" "length msg - (l + ?m) \<le> length ns" by (auto simp: min_def split: if_splits)
    have one: "peer_step env (Read n, False, False) (ReadPayload type c (length msg) (take l msg), drop l msg @ rest, p) =
        Some (ReadPayload type c (length msg) (take (l + ?m) msg), drop (l + ?m) msg @ rest, p)"
      using payload_step [OF got Cons.prems(4), of env type c] l(1) unfolding acc by (auto simp: min_def split: if_splits)
    from Cons.IH [OF _ l(1) l(2)] Cons.prems obtain k where "k \<le> length msg - (l + ?m)"
      "peer_steps env (pieces (take k ns)) (ReadPayload type c (length msg) (take (l + ?m) msg), drop (l + ?m) msg @ rest, p) =
        (do { (phase, p) \<leftarrow> payload_read env type c msg p; Some (phase, rest, p) })" by auto
    moreover have "0 < ?m" using Cons.prems by simp
    ultimately show ?thesis using l(1) by (intro exI [of _ "Suc k"]) (simp add: one)
  qed
qed simp
lemma peer_steps_append: "peer_steps env (es @ fs) st = (peer_steps env es st \<bind> peer_steps env fs)"
proof (induction es arbitrary: st)
  case (Cons e es)
  then show ?case by (cases "peer_step env e st") simp_all
qed simp

lemma le32_append: "4 \<le> length b \<Longrightarrow> UInt32GetLE (b @ rest) = UInt32GetLE b"
  by (auto simp: UInt32GetLE_def nth_append)

text \<open>The search for the magic number stops in front of it.\<close>

lemma seek_magic_short: "length h < 4 \<Longrightarrow> seek_magic testnet h = h"
  by (cases h) simp_all

lemma seek_magic_found: "UInt32GetLE h = magic_number testnet \<Longrightarrow> seek_magic testnet h = h"
  by (cases h) simp_all

lemma le32_take: "4 \<le> m \<Longrightarrow> 4 \<le> length h \<Longrightarrow> UInt32GetLE (take m h) = UInt32GetLE h"
  by (simp add: UInt32GetLE_def)

lemma seek_magic_take:
  assumes "\<And>i. i < g \<Longrightarrow> UInt32GetLE (drop i t) \<noteq> magic_number testnet"
    and "UInt32GetLE (drop g t) = magic_number testnet" "g + 4 \<le> length t" "j \<le> g"
  shows "\<exists>j'. j \<le> j' \<and> j' \<le> g \<and> j' \<le> max j (j + m) \<and> (j + m - j' < 4 \<or> j' = g) \<and>
    seek_magic testnet (take m (drop j t)) = take (j + m - j') (drop j' t)"
  using assms(4)
proof (induction m arbitrary: j)
  case 0
  then show ?case by (intro exI [of _ j]) (simp add: seek_magic_short)
next
  case (Suc m)
  consider "Suc m < 4" | "4 \<le> Suc m" "j = g" | "4 \<le> Suc m" "j < g" using Suc.prems by linarith
  then show ?case
  proof cases
    case 1
    then show ?thesis using Suc.prems by (intro exI [of _ j]) (simp add: seek_magic_short)
  next
    case 2
    then show ?thesis using assms(2,3) by (intro exI [of _ j]) (simp add: seek_magic_found le32_take)
  next
    case 3
    have "drop j t = t ! j # drop (Suc j) t" using 3 assms(3) by (simp add: Cons_nth_drop_Suc)
    moreover have "UInt32GetLE (take (Suc m) (drop j t)) \<noteq> magic_number testnet"
      using 3 assms(1) [of j] assms(3) by (simp add: le32_take)
    ultimately have "seek_magic testnet (take (Suc m) (drop j t)) = seek_magic testnet (take m (drop (Suc j) t))"
      using 3 assms(3) by simp
    moreover obtain j' where "Suc j \<le> j'" "j' \<le> g" "j' \<le> Suc j + m" "Suc j + m - j' < 4 \<or> j' = g"
      "seek_magic testnet (take m (drop (Suc j) t)) = take (Suc j + m - j') (drop j' t)"
      using Suc.IH [of "Suc j"] 3 by auto
    ultimately show ?thesis by (intro exI [of _ j']) auto
  qed
qed

lemma header_pieces:
  assumes magic: "\<And>i. i < g \<Longrightarrow> UInt32GetLE (drop i t) \<noteq> magic_number (nv_testnet env)"
      "UInt32GetLE (drop g t) = magic_number (nv_testnet env)" "g + 24 \<le> length t"
    and "list_all (\<lambda>n. 0 < n) ns" "j \<le> g" "l < 24" "l < 4 \<or> j = g" "g + 24 - (j + l) \<le> length ns" "pc_open p"
  shows "\<exists>k \<le> g + 24 - (j + l). peer_steps env (pieces (take k ns)) (ReadHeader (take l (drop j t)), drop (j + l) t, p) =
    (do { (phase, p) \<leftarrow> header_read env (take 24 (drop g t)) p; Some (phase, drop (g + 24) t, p) })"
  using assms(4-9)
proof (induction ns arbitrary: j l)
  case (Cons n ns)
  define m where "m = min n (24 - l)"
  have m: "0 < m" "l + m \<le> 24" using Cons.prems(1,3) by (auto simp: m_def)
  then have len: "j + l + m \<le> length t" using Cons.prems(2) magic(3) by linarith
  have got: "read_some (Read n) (24 - length (take l (drop j t))) (drop (j + l) t) =
      (NoError, take m (drop (j + l) t), drop (j + (l + m)) t)"
    using len Cons.prems(2) by (simp add: m_def add.assoc add.commute)
  have acc: "take l (drop j t) @ take m (drop (j + l) t) = take (l + m) (drop j t)"
    by (simp add: take_add add.commute)
  obtain j' where j': "j \<le> j'" "j' \<le> g" "j' \<le> max j (j + (l + m))" "j + (l + m) - j' < 4 \<or> j' = g"
    "seek_magic (nv_testnet env) (take (l + m) (drop j t)) = take (j + (l + m) - j') (drop j' t)"
    using seek_magic_take [of g t "nv_testnet env" j "l + m"] magic Cons.prems by (auto simp: add.assoc)
  define l' where "l' = j + (l + m) - j'"
  have pos: "0 < m" "l' \<le> 24" "j' + l' = j + (l + m)" using m j'(1,3) by (auto simp: l'_def)
  note j' = j' [folded l'_def]
  have step: "peer_step env (Read n, False, False) (ReadHeader (take l (drop j t)), drop (j + l) t, p) =
     (if l' < 24 then Some (ReadHeader (take l' (drop j' t)), drop (j' + l') t, p)
      else do { (phase, p) \<leftarrow> header_read env (take 24 (drop j' t)) p; Some (phase, drop (j' + l') t, p) })"
  proof -
    have "l' \<le> length (drop j' t)" using len pos(3) unfolding length_drop by linarith
    then have h: "length (take l' (drop j' t)) = l'" unfolding length_take by (rule min_absorb2)
    have "l' < 24 \<or> l' = 24" using pos(2) by linarith
    moreover have "take 24 (drop j' t) = take l' (drop j' t)" if "l' = 24" using that by simp
    ultimately show ?thesis using header_step [OF got Cons.prems(6), of env] unfolding acc j'(5) h pos(3) by auto
  qed
  show ?case
  proof (cases "l' < 24")
    case True
    have "g + 24 - (j' + l') \<le> length ns" using Cons.prems(5) pos(1,3) by simp
    with Cons.IH [of j' l'] True j' Cons.prems obtain k where k: "k \<le> g + 24 - (j' + l')"
      "peer_steps env (pieces (take k ns)) (ReadHeader (take l' (drop j' t)), drop (j' + l') t, p) =
        (do { (phase, p) \<leftarrow> header_read env (take 24 (drop g t)) p; Some (phase, drop (g + 24) t, p) })" by auto
    moreover have "Suc k \<le> g + 24 - (j + l)" using k(1) pos(1,3) Cons.prems(2,3) by linarith
    ultimately show ?thesis using step True by (intro exI [of _ "Suc k"]) simp
  next
    case False
    then have "l' = 24" "j' = g" using pos j' by auto
    moreover have "1 \<le> g + 24 - (j + l)" using Cons.prems(2,3) by linarith
    ultimately show ?thesis using step pos(3) by (intro exI [of _ 1]) (simp add: case_prod_unfold)
  qed
qed simp

text \<open>C14: A message that one peer sends reaches the handlers of the other whole and under its type. The frame that
  \<open>BRPeerSendMessage\<close> hands to the socket may come behind any bytes among which the magic number does not occur, and
  may arrive in pieces of any size: after at most as many reads as there are bytes the handlers have run on the payload,
  and what follows the frame is still to be read. The loop goes on when the handler accepts and ends when it refuses.\<close>

theorem peer_frame_delivered:
  assumes sent: "nv_fails env' q frame = None" "pc_open q" "frame = message_frame (nv_testnet env) msg type"
      "nv_testnet env' = nv_testnet env"
    and msg: "type_ok type" "length msg \<le> MAX_MSG_LENGTH"
    and junk: "\<forall>i < length junk. UInt32GetLE (drop i (junk @ frame)) \<noteq> magic_number (nv_testnet env)"
    and ns: "list_all (\<lambda>n. 0 < n) ns" "length junk + length frame \<le> length ns"
    and p: "pc_open p"
  shows "BRPeerSendMessage env' msg type q = q\<lparr>pc_sent := pc_sent q @ [frame]\<rparr> \<and>
    (\<exists>k \<le> length junk + length frame. peer_steps env (pieces (take k ns)) (ReadHeader [], junk @ frame @ rest, p) =
      (do {
        (r, p') \<leftarrow> AcceptMessage env msg type p;
        Some (if \<not> r then Finished EPROTO else if pc_open p' then ReadHeader [] else Finished NoError, rest, p')
      }))"
proof
  let ?t = "junk @ frame @ rest" and ?c = "UInt32GetLE (BRSHA256_2 msg)"
  have frame: "frame = frame_header (nv_testnet env) msg type @ msg" by (simp add: sent(3) message_frame_split)
  show "BRPeerSendMessage env' msg type q = q\<lparr>pc_sent := pc_sent q @ [frame]\<rparr>"
    using sent msg(2) by (simp add: BRPeerSendMessage_def Let_def)
  have magic: "UInt32GetLE (drop i ?t) \<noteq> magic_number (nv_testnet env)" if "i < length junk" for i
    using junk that le32_append [of "drop i (junk @ frame)" rest] by (simp add: frame)
  have found: "UInt32GetLE (drop (length junk) ?t) = magic_number (nv_testnet env)"
    by (simp add: frame frame_header_def le32_get)
  have header: "take 24 (drop (length junk) ?t) = frame_header (nv_testnet env) msg type" by (simp add: frame)
  have behind: "drop (length junk + 24) ?t = msg @ rest" by (simp add: frame)
  have "list_all (\<lambda>n. 0 < n) ns" "length junk + 24 - (0 + 0) \<le> length ns" "length junk + 24 \<le> length ?t"
    using ns by (simp_all add: frame)
  from header_pieces [OF magic found this(3,1) _ _ _ this(2) p]
  have "\<exists>k \<le> length junk + 24 - (0 + 0). peer_steps env (pieces (take k ns)) (ReadHeader (take 0 (drop 0 ?t)), drop (0 + 0) ?t, p) =
      (do { (phase, p) \<leftarrow> header_read env (frame_header (nv_testnet env) msg type) p; Some (phase, msg @ rest, p) })"
    unfolding header behind by auto
  then obtain k where k: "k \<le> length junk + 24"
    "peer_steps env (pieces (take k ns)) (ReadHeader [], ?t, p) =
      (do { (phase, p) \<leftarrow> header_read env (frame_header (nv_testnet env) msg type) p; Some (phase, msg @ rest, p) })"
    by auto
  have payload: "(do { (phase, p) \<leftarrow> payload_read env type ?c msg p; Some (phase, rest, p) }) =
    (do { (r, p') \<leftarrow> AcceptMessage env msg type p;
      Some (if \<not> r then Finished EPROTO else if pc_open p' then ReadHeader [] else Finished NoError, rest, p') })"
    by (simp add: payload_read_def case_prod_unfold)
  show "\<exists>k \<le> length junk + length frame. peer_steps env (pieces (take k ns)) (ReadHeader [], ?t, p) =
      (do { (r, p') \<leftarrow> AcceptMessage env msg type p;
        Some (if \<not> r then Finished EPROTO else if pc_open p' then ReadHeader [] else Finished NoError, rest, p') })"
  proof (cases "msg = []")
    case True
    then show ?thesis unfolding payload [symmetric] using k header_read_frame [OF msg p]
      by (intro exI [of _ k]) (simp add: frame)
  next
    case False
    have "list_all (\<lambda>n. 0 < n) (drop k ns)" using ns(1) by (auto simp: list_all_iff dest: in_set_dropD)
    moreover have "length msg - 0 \<le> length (drop k ns)" using ns(2) k(1) by (simp add: frame)
    ultimately obtain k' where k': "k' \<le> length msg"
      "peer_steps env (pieces (take k' (drop k ns))) (ReadPayload type ?c (length msg) [], msg @ rest, p) =
        (do { (phase, p) \<leftarrow> payload_read env type ?c msg p; Some (phase, rest, p) })"
      using payload_pieces [of "drop k ns" 0 msg p env type ?c rest] p False by auto
    have "peer_steps env (pieces (take (k + k') ns)) (ReadHeader [], ?t, p) =
      (do { (phase, p) \<leftarrow> payload_read env type ?c msg p; Some (phase, rest, p) })"
      using k(2) k'(2) False header_read_frame [OF msg p] by (simp add: take_add peer_steps_append)
    then show ?thesis unfolding payload [symmetric] using k(1) k'(1)
      by (intro exI [of _ "k + k'"]) (simp add: frame)
  qed
qed
theorem peer_frame_delivered_witness:
  "\<exists>k \<le> 24. peer_steps calm_env (pieces (take k (replicate 24 5)))
      (ReadHeader [], message_frame False [] (str_bytes ''getaddr'') @ [9], BRPeerNew\<lparr>pc_open := True\<rparr>) =
    Some (if pc_open (BRPeerSendAddr calm_env (BRPeerNew\<lparr>pc_open := True\<rparr>)) then ReadHeader [] else Finished NoError, [9],
      BRPeerSendAddr calm_env (BRPeerNew\<lparr>pc_open := True\<rparr>))"
proof -
  let ?p = "BRPeerNew\<lparr>pc_open := True\<rparr>" and ?t = "str_bytes ''getaddr''"
  have env: "nv_fails calm_env = (\<lambda>_ _. None)" "nv_testnet calm_env = False" by (simp_all add: calm_env_def)
  have t: "type_ok ?t" by (simp add: type_ok_def str_bytes_def)
  have new: "pc_currentBlock ?p = None" by (simp add: BRPeerNew_def)
  have accept: "AcceptMessage calm_env [] ?t ?p = Some (True, BRPeerSendAddr calm_env ?p)"
    by (simp add: AcceptMessage_def AcceptGetaddrMessage_def new) (simp add: str_bytes_def)
  have "\<exists>k \<le> length ([] :: bytes) + length (message_frame False [] ?t).
      peer_steps calm_env (pieces (take k (replicate 24 5))) (ReadHeader [], [] @ message_frame False [] ?t @ [9], ?p) =
      (do { (r, p') \<leftarrow> AcceptMessage calm_env [] ?t ?p;
        Some (if \<not> r then Finished EPROTO else if pc_open p' then ReadHeader [] else Finished NoError, [9], p') })"
    by (rule peer_frame_delivered [of calm_env ?p _ calm_env, THEN conjunct2]) (simp_all add: env t message_frame_split list_all_iff)
  then show ?thesis by (simp add: accept message_frame_split del: map_replicate take_replicate)
qed

section \<open>Inventories\<close>

lemma varint_eq: "varint n = varint_bytes (of_nat n)"
  by (simp add: varint_def varint_set_eq varint_size_eq store_if_fits_def put_def)

lemma length_inv_item [simp]: "length (inv_item i) = 36"
  by (simp add: inv_item_def le32.length_enc u256.length_enc)

lemma length_inv_items [simp]: "length (concat (map inv_item is)) = 36 * length is"
  by (induction "is") simp_all

lemma inv_items_at: "at msg off (concat (map inv_item is)) \<Longrightarrow> inv_items msg off (length is) = Some is"
proof (induction "is" arbitrary: off)
  case (Cons i "is")
  then have i: "at msg off (inv_item i)" and rest: "at msg (off + 36) (concat (map inv_item is))" by (simp_all add: at_append)
  from i have "at msg off (UInt32SetLE (fst i))" "at msg (off + 4) (UInt256Set (snd i))"
    by (simp_all add: at_append inv_item_def le32.length_enc)
  with Cons.IH [OF rest] show ?case by (simp add: at_codec)
qed simp

lemma inv_message_read:
  assumes "length is \<le> MAX_GETDATA_HASHES"
  shows "\<exists>off. list_header (inv_message is) 36 = Some (of_nat (length is), off) \<and>
     inv_items (inv_message is) (unat off) (unat (of_nat (length is) :: u64)) = Some is"
proof -
  let ?v = "varint_bytes (of_nat (length is))"
  have m: "inv_message is = ?v @ concat (map inv_item is)" by (simp add: inv_message_def varint_eq)
  have v: "0 < length ?v" "length ?v \<le> 9" by (simp_all add: varint_length)
  have n: "unat (of_nat (length is) :: u64) = length is" using assms by (simp add: unat_of_nat)
  have head: "varint_at (inv_message is) 0 = (of_nat (length is), of_nat (length ?v))"
    by (simp add: varint_at_def m varint_read)
  have off: "unat (of_nat (length ?v) :: u64) = length ?v" using v by (simp add: unat_of_nat)
  have len: "length (inv_message is) = length ?v + 36 * length is" by (simp add: m)
  have "of_nat (length ?v) \<noteq> (0 :: u64)" using v off by (metis less_numeral_extra(3) unat_0)
  moreover have "of_nat (length ?v) + of_nat (length is) * 36 = (of_nat (length (inv_message is)) :: u64)"
    by (simp add: len)
  ultimately have "list_header (inv_message is) 36 = Some (of_nat (length is), of_nat (length ?v))"
    by (simp add: list_header_def head)
  moreover have "at (inv_message is) (length ?v) (concat (map inv_item is))" by (simp add: at_def m)
  then have "inv_items (inv_message is) (length ?v) (length is) = Some is" by (rule inv_items_at)
  ultimately show ?thesis using off n by auto
qed
lemma hashes_of_tx [simp]:
  "hashes_of {inv_tx} (map (Pair inv_tx) hs) = hs" "hashes_of {inv_block} (map (Pair inv_tx) hs) = []"
  by (induction hs) (simp_all add: hashes_of_def)

lemma send_keeps_known [simp]:
  "pc_mempool (BRPeerSendMessage env msg type p) = pc_mempool p"
  "pc_knownTxHashSet (BRPeerSendMessage env msg type p) = pc_knownTxHashSet p"
  by (simp_all add: BRPeerSendMessage_def BRPeerDisconnect_def Let_def split: option.split)

lemma add_known_set:
  "set (pc_knownTxHashes p) = pc_knownTxHashSet p \<Longrightarrow>
     pc_knownTxHashSet (BRPeerAddKnownTxHashes env hs p) = pc_knownTxHashSet p \<union> set hs"
  by (induction hs arbitrary: p) (auto simp: Let_def)

text \<open>What is known stays known, whatever the callbacks do.\<close>

definition knows :: "nat option \<Rightarrow> uint256 set \<Rightarrow> BRPeerContext \<Rightarrow> bool" where
  "knows k hs p \<longleftrightarrow> peer_inv k p \<and> hs \<subseteq> pc_knownTxHashSet p"

lemma inv_known_set: "peer_inv k p \<Longrightarrow> set (pc_knownTxHashes p) = pc_knownTxHashSet p"
  by (simp add: peer_inv_def)

lemma do_known:
  assumes "\<not> for_mempool c" "peer_inv k p"
  shows "pc_knownTxHashSet p \<subseteq> pc_knownTxHashSet (peer_do env c p)"
  using assms
  by (cases c) (auto simp: BRPeerSendFilterload_def BRPeerSendGetheaders_def BRPeerSendGetblocks_def BRPeerSendInv_def
      BRPeerSendGetdata_def BRPeerSendGetaddr_def BRPeerSendPing_def BRPeerRerequestBlocks_def BRPeerDisconnect_def
      BRPeerSetEarliestKeyTime_def BRPeerSetCurrentBlockHeight_def BRPeerSetNeedsFilterUpdate_def Let_def
      add_known_set [OF inv_known_set])

lemma knows_do: "\<not> for_mempool c \<Longrightarrow> knows k S p \<Longrightarrow> knows k S (peer_do env c p)"
  using do_known [of c k p env] by (auto simp: knows_def peer_inv_do_others)

lemma knows_mempool:
  assumes "\<And>c b q. knows k S q \<Longrightarrow> knows k S (nv_call env (PeerMempool c b) q)" "knows k S p"
  shows "knows k S (BRPeerSendMempool env hs d p)"
proof -
  have "knows k S (fire env (PeerMempool c b) (p\<lparr>pc_sentMempool := True\<rparr>))" for c b
  proof -
    have "peer_inv k (p\<lparr>pc_sentMempool := True\<rparr>)" using assms(2) by (simp add: knows_def)
    from peer_inv_event [OF this, of "PeerMempool c b"] show ?thesis
      unfolding fire_def using assms(2) by (intro assms(1)) (simp add: knows_def)
  qed
  then show ?thesis
    using assms(2)
    by (auto simp: BRPeerSendMempool_def Let_def knows_def peer_keeps add_known_set [OF inv_known_set] split: option.split)
qed

lemma knows_notify: "calls_only env \<Longrightarrow> ev \<noteq> PeerConnected \<Longrightarrow> knows k S p \<Longrightarrow> knows k S (notify env ev p)"
proof -
  assume client: "calls_only env" and ev: "ev \<noteq> PeerConnected" and p: "knows k S p"
  have "callbacks_keep env (knows k S)"
    by (rule calls_only_keep_any [OF client]) (simp_all add: knows_do knows_mempool)
  moreover have "knows k S (p\<lparr>pc_events := pc_events p @ [ev]\<rparr>)" using p ev by (simp add: knows_def peer_keeps)
  ultimately show ?thesis using p by (simp add: notify_def fire_def callbacks_keep_def)
qed

lemma knows_told:
  "calls_only env \<Longrightarrow> knows k S p \<Longrightarrow> knows k S (fold (\<lambda>h. notify env (PeerHasTx h)) hs p)"
  by (induction hs arbitrary: p) (simp_all add: knows_notify)

text \<open>The hashes are dealt out: the client is told of the ones known at their turn, in their order, and the others are
  left.\<close>

lemma split_known_deals:
  assumes "calls_only env" "peer_inv k p" "split_known env hs p = (asked, p')"
  shows "\<exists>told. p' = fold (\<lambda>h. notify env (PeerHasTx h)) told p \<and> hs \<in> shuffles told asked \<and>
    set asked \<inter> pc_knownTxHashSet p = {} \<and> set told \<subseteq> pc_knownTxHashSet p'"
  using assms(2-)
proof (induction hs arbitrary: p asked p')
  case Nil
  then show ?case by (intro exI [of _ "[]"]) simp
next
  case (Cons h hs)
  show ?case
  proof (cases "h \<in> pc_knownTxHashSet p")
    case True
    let ?r = "notify env (PeerHasTx h) p"
    have r: "knows k (insert h (pc_knownTxHashSet p)) ?r"
      using knows_notify [OF assms(1), of "PeerHasTx h" k "insert h (pc_knownTxHashSet p)" p] Cons.prems(1) True
      by (auto simp: knows_def)
    then have "peer_inv k ?r" by (simp add: knows_def)
    with Cons.IH [of ?r asked p'] Cons.prems(2) True obtain told where
      told: "p' = fold (\<lambda>h. notify env (PeerHasTx h)) told ?r" "hs \<in> shuffles told asked"
        "set asked \<inter> pc_knownTxHashSet ?r = {}" "set told \<subseteq> pc_knownTxHashSet p'" by auto
    have "knows k (insert h (pc_knownTxHashSet p)) p'" unfolding told(1) using assms(1) r by (rule knows_told)
    then have "h \<in> pc_knownTxHashSet p'" by (simp add: knows_def)
    then show ?thesis using told r by (intro exI [of _ "h # told"]) (auto simp: knows_def Cons_in_shuffles_leftI)
  next
    case False
    then obtain rest where rest: "split_known env hs p = (rest, p')" "asked = h # rest"
      using Cons.prems(2) by (auto split: prod.splits)
    from Cons.IH [OF Cons.prems(1) rest(1)] obtain told where
      "p' = fold (\<lambda>h. notify env (PeerHasTx h)) told p" "hs \<in> shuffles told rest"
      "set rest \<inter> pc_knownTxHashSet p = {}" "set told \<subseteq> pc_knownTxHashSet p'" by blast
    then show ?thesis using False rest(2) by (intro exI [of _ told]) (auto simp: Cons_in_shuffles_rightI)
  qed
qed

text \<open>A client that does not change what the peer knows when it is told.\<close>

definition leaves_known :: "peer_env \<Rightarrow> bool" where
  "leaves_known env \<longleftrightarrow> (\<forall>h p. nv_set env (PeerHasTx h) \<longrightarrow> pc_knownTxHashSet (nv_call env (PeerHasTx h) p) = pc_knownTxHashSet p)"

lemma leaves_known_notify: "leaves_known env \<Longrightarrow> pc_knownTxHashSet (notify env (PeerHasTx h) p) = pc_knownTxHashSet p"
  by (simp add: leaves_known_def notify_def fire_def)

lemma split_known_leaves:
  assumes "leaves_known env"
  shows "fst (split_known env hs p) = filter (\<lambda>h. h \<notin> pc_knownTxHashSet p) hs \<and>
    pc_knownTxHashSet (snd (split_known env hs p)) = pc_knownTxHashSet p"
proof (induction hs arbitrary: p)
  case (Cons h hs)
  show ?case
    using Cons.IH [of p] Cons.IH [of "notify env (PeerHasTx h) p"]
    by (cases "split_known env hs p") (simp add: leaves_known_notify [OF assms])
qed simp

lemma inv_relay_transactions:
  assumes p: "peer_inv k p" and hs: "hs \<noteq> []" "length hs \<le> 10000"
    and split: "split_known env hs p = (asked, p')" "length asked \<le> length hs"
  shows "inv_relay env hs [] p =
    (let q = (if asked = [] then p' else BRPeerSendMessage env (inv_message (map (Pair inv_tx) asked)) (str_bytes ''getdata'')
           ((BRPeerAddKnownTxHashes env asked p')\<lparr>pc_sentGetdata := True\<rparr>)) in
      if pc_mempool q = None then q else (BRPeerSendPing env (pc_mempool q) q)\<lparr>pc_mempool := None\<rparr>)"
proof -
  have "trim_known (pc_knownBlockHashes p) = pc_knownBlockHashes p" using p by (simp add: peer_inv_def trim_known.simps)
  moreover have "p\<lparr>pc_knownBlockHashes := pc_knownBlockHashes p\<rparr> = p" by simp
  moreover have "length asked \<le> MAX_GETDATA_HASHES" using hs(2) split(2) by simp
  ultimately show ?thesis
    using hs(1) by (cases "asked = []") (simp_all add: inv_relay_def Let_def split(1) BRPeerSendGetdata_def)
qed

text \<open>C17: In a consistent state, as every reachable one is, a peer that has sent a filter, a request for the memory pool or
  for blocks and is told of up to 10000 transactions deals them out in their order: it tells the client of the ones it
  knows at their turn, asks for the others with one \<^verbatim>\<open>getdata\<close> message, or none when there are none, and sends the ping
  that waits for the end of the memory pool. The callbacks may make any calls on the peer. Afterwards it knows all of the
  transactions; it asks for none that it knew before, and for exactly the ones it did not know when the client leaves
  what the peer knows as it is, which also holds of a client that sets no callback.\<close>

theorem peer_asks_for_unknown:
  assumes hs: "hs \<noteq> []" "length hs \<le> 10000"
    and p: "peer_inv k p" "pc_sentFilter p \<or> pc_sentMempool p \<or> pc_sentGetblocks p"
    and client: "calls_only env"
  shows "\<exists>told asked q. AcceptInvMessage env (inv_message (map (Pair inv_tx) hs)) p = Some (True, q) \<and>
    hs \<in> shuffles told asked \<and> set asked \<inter> pc_knownTxHashSet p = {} \<and>
    pc_knownTxHashSet p \<union> set hs \<subseteq> pc_knownTxHashSet q \<and>
    q = (let r = fold (\<lambda>h. notify env (PeerHasTx h)) told p;
             q = (if asked = [] then r else BRPeerSendMessage env (inv_message (map (Pair inv_tx) asked)) (str_bytes ''getdata'')
               ((BRPeerAddKnownTxHashes env asked r)\<lparr>pc_sentGetdata := True\<rparr>))
         in if pc_mempool q = None then q else (BRPeerSendPing env (pc_mempool q) q)\<lparr>pc_mempool := None\<rparr>) \<and>
    (leaves_known env \<longrightarrow> told = filter (\<lambda>h. h \<in> pc_knownTxHashSet p) hs \<and>
      asked = filter (\<lambda>h. h \<notin> pc_knownTxHashSet p) hs \<and> pc_knownTxHashSet q = pc_knownTxHashSet p \<union> set hs)"
proof -
  let ?m = "inv_message (map (Pair inv_tx) hs)"
  obtain asked r where split: "split_known env hs p = (asked, r)" by fastforce
  from split_known_deals [OF client p(1) split] obtain told where
    told: "r = fold (\<lambda>h. notify env (PeerHasTx h)) told p" "hs \<in> shuffles told asked"
      "set asked \<inter> pc_knownTxHashSet p = {}" "set told \<subseteq> pc_knownTxHashSet r" by blast
  have few: "length asked \<le> length hs" using length_shuffles [OF told(2)] by simp
  define q where "q = inv_relay env hs [] p"
  note relay = q_def [unfolded inv_relay_transactions [OF p(1) hs split few]]
  have r: "knows k (pc_knownTxHashSet p) r"
    unfolding told(1) using client by (rule knows_told) (simp add: knows_def p(1))
  then have known: "pc_knownTxHashSet q = pc_knownTxHashSet r \<union> set asked"
    using add_known_set [OF inv_known_set, of k r env asked]
    by (simp add: relay Let_def knows_def BRPeerSendPing_def)
  obtain off where "list_header ?m 36 = Some (of_nat (length hs), off)"
    "inv_items ?m (unat off) (unat (of_nat (length hs) :: u64)) = Some (map (Pair inv_tx) hs)"
    using inv_message_read [of "map (Pair inv_tx) hs"] hs(2) by auto
  moreover have "(of_nat (length hs) :: u64) \<le> of_nat MAX_GETDATA_HASHES"
    using hs(2) by (simp add: word_le_nat_alt unat_of_nat)
  ultimately have run: "AcceptInvMessage env ?m p = Some (True, q)"
    using hs p(2) by (auto simp: AcceptInvMessage_def not_less q_def)
  have more: "pc_knownTxHashSet p \<union> set hs \<subseteq> pc_knownTxHashSet q"
    using r told(4) set_shuffles [OF told(2)] by (auto simp: known knows_def)
  have exact: "told = filter (\<lambda>h. h \<in> pc_knownTxHashSet p) hs \<and> asked = filter (\<lambda>h. h \<notin> pc_knownTxHashSet p) hs \<and>
      pc_knownTxHashSet q = pc_knownTxHashSet p \<union> set hs" if "leaves_known env"
  proof -
    have e: "asked = filter (\<lambda>h. h \<notin> pc_knownTxHashSet p) hs" "pc_knownTxHashSet r = pc_knownTxHashSet p"
      using split_known_leaves [OF that, of hs p] split by simp_all
    have "filter (\<lambda>h. h \<in> pc_knownTxHashSet p) hs \<in>
        shuffles (filter (\<lambda>h. h \<in> pc_knownTxHashSet p) told) (filter (\<lambda>h. h \<in> pc_knownTxHashSet p) asked)"
      using told(2) filter_shuffles [of "\<lambda>h. h \<in> pc_knownTxHashSet p" told asked] by blast
    moreover have "filter (\<lambda>h. h \<in> pc_knownTxHashSet p) told = told"
      unfolding filter_id_conv using told(4) e(2) by blast
    moreover have "filter (\<lambda>h. h \<in> pc_knownTxHashSet p) asked = []"
      unfolding filter_empty_conv using told(3) by blast
    moreover have "set asked \<union> pc_knownTxHashSet p = pc_knownTxHashSet p \<union> set hs"
      using set_shuffles [OF told(2)] told(4) e(2) by blast
    ultimately show ?thesis using e by (simp add: known Un_commute)
  qed
  have "q = (let r = fold (\<lambda>h. notify env (PeerHasTx h)) told p;
             q = (if asked = [] then r else BRPeerSendMessage env (inv_message (map (Pair inv_tx) asked)) (str_bytes ''getdata'')
               ((BRPeerAddKnownTxHashes env asked r)\<lparr>pc_sentGetdata := True\<rparr>))
         in if pc_mempool q = None then q else (BRPeerSendPing env (pc_mempool q) q)\<lparr>pc_mempool := None\<rparr>)"
    using relay unfolding told(1) by (simp only: Let_def)
  with run told(2,3) more exact show ?thesis by blast
qed

text \<open>One of three hashes is known, and the client closes the connection when it is told of it.\<close>

theorem peer_asks_for_unknown_witness:
  "\<exists>q. AcceptInvMessage calm_env (inv_message (map (Pair inv_tx) [5, 6, 7]))
      (BRPeerNew\<lparr>pc_sentFilter := True, pc_knownTxHashes := [6], pc_knownTxHashSet := {6}\<rparr>) = Some (True, q) \<and>
    pc_knownTxHashSet q = {5, 6, 7}"
proof -
  let ?p = "BRPeerNew\<lparr>pc_sentFilter := True, pc_knownTxHashes := [6], pc_knownTxHashSet := {6}\<rparr>"
  have p: "peer_inv None ?p" by (simp add: peer_inv_def BRPeerNew_def)
  have leaves: "leaves_known calm_env" by (simp add: leaves_known_def calm_env_def BRPeerDisconnect_def)
  have set: "pc_knownTxHashSet ?p = {6}" and flag: "pc_sentFilter ?p" by simp_all
  obtain q where "AcceptInvMessage calm_env (inv_message (map (Pair inv_tx) [5, 6, 7])) ?p = Some (True, q)"
    "pc_knownTxHashSet q = pc_knownTxHashSet ?p \<union> set [5, 6, 7]"
  proof -
    have "[5, 6, 7 :: uint256] \<noteq> []" "length [5, 6, 7 :: uint256] \<le> 10000" by simp_all
    from peer_asks_for_unknown [OF this p disjI1 [OF flag] calm_env_calls] leaves show ?thesis
      by (elim exE conjE) (erule that, simp only: simp_thms)
  qed
  then show ?thesis by (intro exI [of _ q]) (simp only: set, auto)
qed

section \<open>Lengths that wrap around\<close>

lemma le64_get: "UInt64GetLE (UInt64SetLE x @ rest) = x"
proof -
  have "UInt64GetLE (b @ rest) = UInt64GetLE b" if "length b = 8" for b using that by (simp add: UInt64GetLE_def nth_append)
  then show ?thesis by (simp add: le64.length_enc le64.dec_enc)
qed

lemma below_81: "w < 81 \<Longrightarrow> unat (w - 81) = 2 ^ 64 + unat w - 81" for w :: u64
  by (simp add: unat_sub_if' word_less_nat_alt)

text \<open>C40: Two messages whose lengths wrap around 64 bits pass the checks and lead the handler outside: a headers message
  that announces \<open>n \<ge> 2000\<close> headers with \<open>9 + 81 * n\<close> small, and a version message whose user agent is announced with
  such a length.\<close>

theorem peer_lengths_wrap:
  assumes len: "length msg < 2 ^ 63"
  shows "(\<forall>n rest. msg = 0xff # UInt64SetLE n @ rest \<longrightarrow> 2000 \<le> n \<longrightarrow> 9 + 81 * n \<le> of_nat (length msg) \<longrightarrow>
      9 + 81 * n < 81 \<longrightarrow> AcceptHeadersMessage env msg p = None) \<and>
    (\<forall>pre n rest. msg = pre @ 0xff # UInt64SetLE n @ rest \<longrightarrow> length pre = 80 \<longrightarrow>
      MIN_PROTO_VERSION \<le> UInt32GetLE pre \<longrightarrow> 2 ^ 63 \<le> n \<longrightarrow> n + 93 \<le> of_nat (length msg) \<longrightarrow>
      AcceptVersionMessage env msg p = None)"
proof (intro conjI allI impI)
  fix n rest
  assume msg: "msg = 0xff # UInt64SetLE n @ rest" and n: "2000 \<le> n" and small: "9 + 81 * n \<le> of_nat (length msg)" "9 + 81 * n < 81"
  have v: "varint_at msg 0 = (n, 9)"
    by (simp add: varint_at_def BRVarInt_def msg le64.length_enc le64_get)
  then have head: "list_header msg 81 = Some (n, 9)" using small by (simp add: list_header_def not_less mult.commute)
  have last: "header_at 80 (UInt256Get \<circ> BRSHA256_2) msg 9 (n - 1) 0 = None"
  proof -
    have "9 + 81 * (n - 1) + 0 = (9 + 81 * n) - 81" by (simp add: algebra_simps)
    moreover have "unat ((9 + 81 * n) - 81) = 2 ^ 64 + unat (9 + 81 * n) - 81"
      using small(2) by (rule below_81)
    ultimately show ?thesis using len by (simp add: header_at_def get_at_def slice_def)
  qed
  have "0 < n" using n by (simp add: word_less_nat_alt word_le_nat_alt)
  then show "AcceptHeadersMessage env msg p = None"
    using n by (cases "header_at 4 UInt32GetLE msg 9 (n - 1) 68") (simp_all add: AcceptHeadersMessage_def head last)
next
  fix pre n rest
  assume msg: "msg = pre @ 0xff # UInt64SetLE n @ rest" and pre: "length pre = 80" "MIN_PROTO_VERSION \<le> UInt32GetLE pre"
    and n: "2 ^ 63 \<le> n" "n + 93 \<le> of_nat (length msg)"
  have v: "varint_at msg 80 = (n, 9)"
    by (simp add: varint_at_def BRVarInt_def msg pre le64.length_enc le64_get)
  have l: "89 \<le> length msg" using pre(1) by (simp add: msg le64.length_enc)
  then have long: "\<not> of_nat (length msg) < (85 :: u64)" using len by (simp add: word_less_nat_alt unat_of_nat)
  have "get_at 4 UInt32GetLE msg 0 = Some (UInt32GetLE pre)"
    using l pre(1) by (simp add: get_at_def slice_def msg le32_take)
  moreover obtain a b where "get_at 8 UInt64GetLE msg 4 = Some a" "get_at 8 UInt64GetLE msg 12 = Some b"
    using l by (simp add: get_at_def slice_def)
  moreover have "2 ^ 63 \<le> unat n" using n(1) by (simp add: word_le_nat_alt)
  then have "slice msg k (unat n) = None" for k using len by (simp add: slice_def)
  ultimately show "AcceptVersionMessage env msg p = None"
    using long pre(2) n(2) by (simp add: AcceptVersionMessage_def Let_def v not_less add.commute)
qed

text \<open>Ten bytes with the inverse of 81, and a version message that is as short.\<close>

theorem peer_lengths_wrap_witness:
  "AcceptHeadersMessage calm_env (0xff # UInt64SetLE 0x2c3f35ba781948b1 @ [0]) BRPeerNew = None"
  using peer_lengths_wrap [of "0xff # UInt64SetLE 0x2c3f35ba781948b1 @ [0]" calm_env BRPeerNew]
  by (simp add: le64.length_enc)

end
