(* ===== verification/Spec2Isabelle.thy ===== *)
theory Spec2Isabelle
  imports ArrayModel ScryptSpec Bloom MerkleSpec TxSpec WalletSpend MnemonicSpec WalletKeys Bip38Spec PaymentCrypto PeerWire
begin

text \<open>
  A verification development for breadwallet-core, the C library under
  \<^verbatim>\<open>src/Modules/breadwallet-core\<close> on which the wallet of this application stands. The rest of the
  repository is the Swift user interface, the messaging and account services, and vendored
  libraries.

  \<^bold>\<open>The program.\<close> The library is a simplified payment verification client. \<^verbatim>\<open>BRInt.h\<close>, \<^verbatim>\<open>BRArray.h\<close>,
  \<^verbatim>\<open>BRSet.c\<close> and \<^verbatim>\<open>BRCrypto.c\<close> are its ground: fixed width integers, growable arrays, hash tables,
  digests, MACs and ciphers. \<^verbatim>\<open>BRBase58.c\<close>, \<^verbatim>\<open>BRAddress.c\<close>, \<^verbatim>\<open>BRKey.c\<close>, \<^verbatim>\<open>BRBIP32Sequence.c\<close>,
  \<^verbatim>\<open>BRBIP38Key.c\<close> and \<^verbatim>\<open>BRBIP39Mnemonic.c\<close> turn a phrase into a seed, a seed into keys and keys into
  addresses. \<^verbatim>\<open>BRBloomFilter.c\<close>, \<^verbatim>\<open>BRMerkleBlock.c\<close> and \<^verbatim>\<open>BRTransaction.c\<close> are the objects that travel
  on the network. \<^verbatim>\<open>BRWallet.c\<close> keeps the transactions of the user, \<^verbatim>\<open>BRPaymentProtocol.c\<close> the messages
  of a payment; \<^verbatim>\<open>BRPeer.c\<close> and \<^verbatim>\<open>BRPeerManager.c\<close> talk to the network.

  \<^bold>\<open>Conventions.\<close> A computation of type \<open>'a run\<close> is \<open>None\<close> where the C code leaves defined behaviour
  (a read outside an object, an uninitialised value, a shift that is too wide), aborts or never
  returns; so a theorem that gives \<open>Some\<close> also says that none of this happens. A pointer that may be
  \<open>NULL\<close> is an inner option. Assertions are compiled out. An integer that an attacker controls keeps
  its width and wraps; sizes of objects in memory are natural numbers. Time, random numbers and
  allocation are arguments. The serialisers run on a buffer or on \<open>NULL\<close>, which asks for the size.
  The curve library (\<^verbatim>\<open>secp256k1\<close>, not part of the library's own code) is a record of functions; the
  theorems that need something of it name the documented laws as hypotheses and have witnesses with
  a concrete instance.

  \<^bold>\<open>Theories.\<close> Each file of the library has a theory of definitions and, where it is not short, one
  of properties.
  \<^item> CPrelude: objects in memory, byte orders, \<open>'a run\<close>. Wire: the idioms of all parsers and
    serialisers (reads guarded by the end of the buffer, \<open>at buf off x\<close> for bytes that stand somewhere).
  \<^item> IntBytes: \<^verbatim>\<open>BRInt.h\<close>. ArrayModel: \<^verbatim>\<open>BRArray.h\<close> (capacity, count, and that every macro keeps them in
    order).
  \<^item> SetModel, SetRefine: \<^verbatim>\<open>BRSet.c\<close>. The probed table refines a mathematical set for every hash and
    equality that satisfy the locale \<open>hash_contract\<close>; the clients interpret it (addresses,
    transactions, outputs, blocks).
  \<^item> Hashes, HashSpec, Ciphers, MacSpec, CipherSpec, ScryptSpec: \<^verbatim>\<open>BRCrypto.c\<close> against FIPS 180-4,
    RFC 2104, RFC 8018, SP 800-90A, RFC 8439 and RFC 7914.
  \<^item> Base58, Base58Spec, Address, AddressSpec: encodings, scripts and addresses determine each other.
  \<^item> Bloom: \<^verbatim>\<open>BRBloomFilter.c\<close>. MerkleBlock, MerkleSpec: \<^verbatim>\<open>BRMerkleBlock.c\<close>, with the partial trees of
    BIP37 as specification, proof of work and difficulty.
  \<^item> Transaction, TxSpec: \<^verbatim>\<open>BRTransaction.c\<close>; \<open>writes\<close> and \<open>emits\<close> say what a serialiser writes, with
    exact sizes; round trips, signature digests, signing.
  \<^item> Wallet, WalletSpec, WalletSpend: \<^verbatim>\<open>BRWallet.c\<close>; the state is the record of the C struct with its
    hash sets and arrays, the invariants relate balance, unspent outputs and history.
  \<^item> Mnemonic, MnemonicSpec, Keys, KeySpec, Sequence, SequenceSpec, Bip38, Bip38Spec: phrases, keys,
    derivation, encrypted keys (with AES-256). WalletKeys joins them with the wallet.
  \<^item> Protobuf, ProtobufSpec, PaymentProtocol, PaymentSpec, PaymentCrypto: \<^verbatim>\<open>BRPaymentProtocol.c\<close>; the locale
    \<open>pb_codec\<close> is what every message promises of its serialiser and parser.
  \<^item> Peer, PeerSpec, PeerWire: \<^verbatim>\<open>BRPeer.c\<close>; the record of a connection, its handlers and senders, and the
    thread as one step per read from the socket. The callbacks of the client are arguments, of which
    the theorems assume that they only call the interface (\<open>calls_only\<close>); the invariant is proved by
    induction on the steps of a connection, and a message is delivered in whatever pieces it arrives.

  \<^bold>\<open>Bounds.\<close> Loops that are bounded by their data are structural or have a measure. The searches
  that may not end (the base58 and phrase loops, address generation, the fields of a protocol
  buffer message) are \<open>partial_function (option)\<close>, and the theorems on them prove \<open>Some\<close>, or \<open>None\<close>
  where the code does not return. Objects of a round trip are below \<open>2 ^ 32\<close> bytes (\<open>2 ^ 63\<close> for
  transactions and blocks), which the messages of the network, of at most 32 MB, do not reach.

  \<^bold>\<open>Not modelled.\<close> The functions that free memory, and logging. Of \<^verbatim>\<open>BRPeer.c\<close> the system calls (the
  socket, its timeouts, the clock) and the measured times. \<^verbatim>\<open>BRPeerManager.c\<close>: the parsers, sets, filters,
  block checks and wallet operations it calls are modelled. The stubs of BIP32 serialisation and BIP38 intermediate
  codes have no body. The English word list is an argument of the functions on phrases.
\<close>

end

